(* ===== verification/Prelude.thy ===== *)
theory Prelude
  imports Main "HOL-Library.Word"
begin

unbundle bit_operations_syntax

text \<open>
  Shared vocabulary of the development: the fixed-width integer types of
  \<open>nbio/types.h\<close>, the outcome type of a C function that may touch memory out of range or
  call \<open>exit\<close>, checked access to arrays and byte buffers, the counted loop with its total
  correctness rule, little-endian field encoding, and the bit and alignment macros of
  \<open>nbio/types.h\<close> and \<open>nbio/bit.h\<close> with the lemmas the components share.
\<close>

section \<open>Integer types\<close>

type_synonym u8 = "8 word"
type_synonym u16 = "16 word"
type_synonym u32 = "32 word"
type_synonym u64 = "64 word"
type_synonym bytes = "8 word list"

named_theorems res_simps \<open>computation rules of the outcome monad and of checked memory access\<close>
named_theorems layout \<open>sizes and lengths of byte layouts\<close>

section \<open>Outcomes\<close>

text \<open>
  \<open>Fault\<close> is an access outside the object a pointer points into (undefined behaviour in C);
  \<open>Exit c\<close> is a call of \<open>exit(c)\<close>. Ordinary error returns are values, not outcomes.
\<close>

datatype cerr = Fault | Exit int

type_synonym 'a res = "cerr + 'a"

definition bnd :: "'a res \<Rightarrow> ('a \<Rightarrow> 'b res) \<Rightarrow> 'b res" where
  "bnd m f = (case m of Inl e \<Rightarrow> Inl e | Inr x \<Rightarrow> f x)"

lemma bnd_Inr [simp, res_simps]: "bnd (Inr x) f = f x"
  by (simp add: bnd_def)

lemma bnd_Inl [simp, res_simps]: "bnd (Inl e) f = Inl e"
  by (simp add: bnd_def)

lemma bnd_eq_Inr: "bnd m f = Inr y \<longleftrightarrow> (\<exists>x. m = Inr x \<and> f x = Inr y)"
  by (cases m) auto

lemma bnd_eq_Inl: "bnd m f = Inl e \<longleftrightarrow> m = Inl e \<or> (\<exists>x. m = Inr x \<and> f x = Inl e)"
  by (cases m) auto

lemma bnd_assoc: "bnd (bnd m f) g = bnd m (\<lambda>x. bnd (f x) g)"
  by (cases m) auto

lemma bnd_cong [fundef_cong]:
  "m = m' \<Longrightarrow> (\<And>x. m' = Inr x \<Longrightarrow> f x = g x) \<Longrightarrow> bnd m f = bnd m' g"
  by (cases m') auto

text \<open>Sequencing for functions with loops that may not end; \<open>None\<close> is a run that never returns.\<close>

definition obnd :: "'a res option \<Rightarrow> ('a \<Rightarrow> 'b res option) \<Rightarrow> 'b res option" where
  "obnd m f = (case m of None \<Rightarrow> None | Some (Inl e) \<Rightarrow> Some (Inl e) | Some (Inr x) \<Rightarrow> f x)"

lemma obnd_simps [simp, res_simps]:
  "obnd None f = None" "obnd (Some (Inl e)) f = Some (Inl e)" "obnd (Some (Inr x)) f = f x"
  by (simp_all add: obnd_def)

lemma obnd_eq_Inr: "obnd m f = Some (Inr y) \<longleftrightarrow> (\<exists>x. m = Some (Inr x) \<and> f x = Some (Inr y))"
  by (auto simp: obnd_def split: option.splits sum.splits)

lemma obnd_total: "m \<noteq> None \<Longrightarrow> (\<And>x. m = Some (Inr x) \<Longrightarrow> f x \<noteq> None) \<Longrightarrow> obnd m f \<noteq> None"
  by (auto simp: obnd_def split: option.splits sum.splits)

section \<open>Checked arrays and byte buffers\<close>

definition arr_get :: "'a list \<Rightarrow> nat \<Rightarrow> 'a res" where
  "arr_get xs i = (if i < length xs then Inr (xs ! i) else Inl Fault)"

definition arr_set :: "'a list \<Rightarrow> nat \<Rightarrow> 'a \<Rightarrow> 'a list res" where
  "arr_set xs i v = (if i < length xs then Inr (xs[i := v]) else Inl Fault)"

definition mem_read :: "'a list \<Rightarrow> nat \<Rightarrow> nat \<Rightarrow> 'a list res" where
  "mem_read m off n = (if off + n \<le> length m then Inr (take n (drop off m)) else Inl Fault)"

definition mem_write :: "'a list \<Rightarrow> nat \<Rightarrow> 'a list \<Rightarrow> 'a list res" where
  "mem_write m off xs =
     (if off + length xs \<le> length m
      then Inr (take off m @ xs @ drop (off + length xs) m) else Inl Fault)"

lemma arr_get_in [simp, res_simps]: "i < length xs \<Longrightarrow> arr_get xs i = Inr (xs ! i)"
  by (simp add: arr_get_def)

lemma arr_get_out [res_simps]: "\<not> i < length xs \<Longrightarrow> arr_get xs i = Inl Fault"
  by (simp add: arr_get_def)

lemma arr_set_in [simp, res_simps]: "i < length xs \<Longrightarrow> arr_set xs i v = Inr (xs[i := v])"
  by (simp add: arr_set_def)

lemma mem_read_in [simp, res_simps]:
  "off + n \<le> length m \<Longrightarrow> mem_read m off n = Inr (take n (drop off m))"
  by (simp add: mem_read_def)

lemma mem_write_in [simp, res_simps]:
  "off + length xs \<le> length m \<Longrightarrow>
   mem_write m off xs = Inr (take off m @ xs @ drop (off + length xs) m)"
  by (simp add: mem_write_def)

lemma mem_write_length: "mem_write m off xs = Inr m' \<Longrightarrow> length m' = length m"
  by (auto simp: mem_write_def split: if_splits)

lemma mem_read_eq_Inr:
  "mem_read m off n = Inr xs \<longleftrightarrow> off + n \<le> length m \<and> xs = take n (drop off m)"
  by (auto simp: mem_read_def)

lemma arr_get_eq_Inr: "arr_get xs i = Inr v \<longleftrightarrow> i < length xs \<and> v = xs ! i"
  by (auto simp: arr_get_def)

text \<open>Reading back what was written, and reading beside it.\<close>

lemma mem_write_read_same:
  assumes "mem_write m off xs = Inr m'"
  shows "mem_read m' off (length xs) = Inr xs"
  using assms by (auto simp: mem_write_def mem_read_def split: if_splits)

lemma take_drop_take: "i + n \<le> k \<Longrightarrow> take n (drop i (take k xs)) = take n (drop i xs)"
  by (simp add: drop_take)

lemma mem_write_read_before:
  assumes "mem_write m off xs = Inr m'" and "o' + n \<le> off"
  shows "mem_read m' o' n = mem_read m o' n"
proof -
  from assms have le: "off + length xs \<le> length m"
    and m': "m' = take off m @ xs @ drop (off + length xs) m"
    by (auto simp: mem_write_def split: if_splits)
  have "take off m' = take off m" using le by (simp add: m')
  then have "take n (drop o' m') = take n (drop o' m)"
    using take_drop_take[OF assms(2), of m] take_drop_take[OF assms(2), of m'] by simp
  moreover have "length m' = length m" using le by (simp add: m')
  ultimately show ?thesis by (simp add: mem_read_def)
qed

lemma mem_write_read_after:
  assumes "mem_write m off xs = Inr m'" and "off + length xs \<le> o'"
  shows "mem_read m' o' n = mem_read m o' n"
proof -
  from assms have le: "off + length xs \<le> length m"
    and m': "m' = take off m @ xs @ drop (off + length xs) m"
    by (auto simp: mem_write_def split: if_splits)
  have "drop o' m' = drop o' m"
    using assms(2) le by (simp add: m' min_def drop_Cons')
  moreover have "length m' = length m"
    using le by (simp add: m')
  ultimately show ?thesis by (simp add: mem_read_def)
qed

lemma mem_read_slice:
  assumes "mem_read m off n = Inr xs" and "i + k \<le> n"
  shows "mem_read m (off + i) k = Inr (take k (drop i xs))"
  using assms by (auto simp: mem_read_def drop_take add.commute min_def split: if_splits)

lemma mem_write_middle:
  "off = length a \<Longrightarrow> length b' = length b \<Longrightarrow>
   mem_write (a @ b @ c) off b' = Inr (a @ b' @ c)"
  by simp

lemma mem_read_middle: "off = length a \<Longrightarrow> n = length b \<Longrightarrow> mem_read (a @ b @ c) off n = Inr b"
  by simp

section \<open>Counted loops\<close>

text \<open>
  \<open>for (i = a; i < a + k; i++) body\<close>: the loop variable runs upwards, the state is threaded,
  and the first fault or exit of the body ends the loop.
\<close>

fun for_upto :: "nat \<Rightarrow> nat \<Rightarrow> (nat \<Rightarrow> 's \<Rightarrow> 's res) \<Rightarrow> 's \<Rightarrow> 's res" where
  "for_upto i 0 f s = Inr s"
| "for_upto i (Suc k) f s = bnd (f i s) (for_upto (Suc i) k f)"

lemma for_upto_rule:
  assumes "P i s"
    and "\<And>j s. i \<le> j \<Longrightarrow> j < i + k \<Longrightarrow> P j s \<Longrightarrow> \<exists>s'. f j s = Inr s' \<and> P (Suc j) s'"
  shows "\<exists>s'. for_upto i k f s = Inr s' \<and> P (i + k) s'"
  using assms
proof (induction k arbitrary: i s)
  case 0
  then show ?case by simp
next
  case (Suc k)
  from Suc.prems(2)[of i s] Suc.prems(1) obtain s1 where s1: "f i s = Inr s1" "P (Suc i) s1"
    by auto
  have "\<exists>s'. for_upto (Suc i) k f s1 = Inr s' \<and> P (Suc i + k) s'"
    by (rule Suc.IH) (use s1 Suc.prems(2) in auto)
  with s1 show ?case by simp
qed

lemma for_upto_inv:
  assumes "for_upto i k f s = Inr s'" and "P i s"
    and "\<And>j s s'. i \<le> j \<Longrightarrow> j < i + k \<Longrightarrow> P j s \<Longrightarrow> f j s = Inr s' \<Longrightarrow> P (Suc j) s'"
  shows "P (i + k) s'"
  using assms
proof (induction k arbitrary: i s)
  case 0
  then show ?case by simp
next
  case (Suc k)
  from Suc.prems(1) obtain s1 where s1: "f i s = Inr s1" "for_upto (Suc i) k f s1 = Inr s'"
    by (auto simp: bnd_eq_Inr)
  have "P (Suc i) s1" using Suc.prems s1(1) by force
  then have "P (Suc i + k) s'"
    using Suc.IH[OF s1(2)] Suc.prems(3) by force
  then show ?case by simp
qed

lemma for_upto_cong [fundef_cong]:
  assumes "i = i'" "k = k'" "s = s'"
    and "\<And>j t. i' \<le> j \<Longrightarrow> j < i' + k' \<Longrightarrow> f j t = g j t"
  shows "for_upto i k f s = for_upto i' k' g s'"
  using assms(4) unfolding assms(1-3)
proof (induction k' arbitrary: i' s')
  case 0
  then show ?case by simp
next
  case (Suc k)
  have "f i' s' = g i' s'" using Suc.prems by simp
  moreover have "for_upto (Suc i') k f t = for_upto (Suc i') k g t" for t
    by (rule Suc.IH) (use Suc.prems in auto)
  ultimately show ?case by (cases "g i' s'") simp_all
qed

section \<open>Positions in a ring\<close>

lemma mod_shift_neq:
  fixes a j k n :: nat
  assumes "j < k" and "k < n"
  shows "(a + j) mod n \<noteq> (a + k) mod n"
proof
  assume "(a + j) mod n = (a + k) mod n"
  then have "n dvd (a + k) - (a + j)" using assms(1) mod_eq_dvd_iff_nat[of "a + j" "a + k" n] by simp
  then show False using assms by (auto dest: dvd_imp_le)
qed

lemma mod_shift_inj:
  fixes a i j n :: nat
  assumes "i < n" and "j < n" and "i \<noteq> j"
  shows "(a + i) mod n \<noteq> (a + j) mod n"
  using mod_shift_neq[of i j n a] mod_shift_neq[of j i n a] assms by (metis linorder_neqE_nat)

section \<open>Little-endian fields\<close>

definition le_bytes :: "nat \<Rightarrow> 'a::len word \<Rightarrow> bytes" where
  "le_bytes n w = map (\<lambda>i. ucast (drop_bit (8 * i) w)) [0..<n]"

fun le_word :: "bytes \<Rightarrow> 'a::len word" where
  "le_word [] = 0"
| "le_word (b # bs) = ucast b OR push_bit 8 (le_word bs)"

lemma length_le_bytes [simp, layout]: "length (le_bytes n w) = n"
  by (simp add: le_bytes_def)

lemma bit_le_word:
  "bit (le_word bs :: 'a::len word) k \<longleftrightarrow>
     k < LENGTH('a) \<and> k div 8 < length bs \<and> bit (bs ! (k div 8)) (k mod 8)"
proof (induction bs arbitrary: k)
  case Nil
  then show ?case by simp
next
  case (Cons b bs)
  show ?case
  proof (cases "k < 8")
    case True
    then show ?thesis by (auto simp: bit_or_iff bit_push_bit_iff bit_ucast_iff)
  next
    case False
    then have "k div 8 = Suc ((k - 8) div 8)" "k mod 8 = (k - 8) mod 8"
      by (simp_all add: le_div_geq le_mod_geq)
    moreover have "\<not> bit b k" using False by (auto dest: bit_imp_le_length)
    ultimately show ?thesis using False Cons.IH[of "k - 8"]
      by (auto simp: bit_or_iff bit_push_bit_iff bit_ucast_iff bit_imp_le_length)
  qed
qed

lemma le_word_le_bytes:
  fixes w :: "'a::len word"
  assumes "LENGTH('a) \<le> 8 * n"
  shows "le_word (le_bytes n w) = w"
proof (rule bit_word_eqI)
  fix k assume "k < LENGTH('a)"
  then have "k div 8 < n" using assms by (simp add: less_mult_imp_div_less)
  moreover have "8 * (k div 8) + k mod 8 = k" by simp
  ultimately show "bit (le_word (le_bytes n w) :: 'a word) k = bit w k"
    using \<open>k < LENGTH('a)\<close>
    by (simp add: bit_le_word le_bytes_def bit_ucast_iff bit_drop_bit_eq)
qed

lemma le_bytes_le_word:
  assumes "length bs = n" and "8 * n \<le> LENGTH('a::len)"
  shows "le_bytes n (le_word bs :: 'a word) = bs"
proof (rule nth_equalityI)
  show "length (le_bytes n (le_word bs :: 'a word)) = length bs"
    by (simp add: assms(1))
next
  fix i assume "i < length (le_bytes n (le_word bs :: 'a word))"
  then have i: "i < n" by simp
  show "le_bytes n (le_word bs :: 'a word) ! i = bs ! i"
  proof (rule bit_word_eqI)
    fix k assume "k < LENGTH(8)"
    then have k: "k < 8" by simp
    then have "8 * i + k < LENGTH('a)" using i assms(2) by linarith
    with i k show "bit (le_bytes n (le_word bs :: 'a word) ! i) k = bit (bs ! i) k"
      by (simp add: le_bytes_def bit_ucast_iff bit_drop_bit_eq bit_le_word assms(1))
  qed
qed

lemma unat_u32_u64: "unat (ucast (v :: u32) :: u64) = unat v"
proof -
  have "unat v < 2 ^ 32" using unsigned_less[of v, where ?'a = nat] by simp
  then show ?thesis by (simp add: unsigned_ucast_eq take_bit_eq_mod)
qed

lemma unat_succ:
  fixes i w :: "'a::len word"
  assumes "i < w"
  shows "unat (i + 1) = Suc (unat i)"
proof -
  have "unat i + 1 \<le> unat w" using assms by (simp add: word_less_nat_alt)
  also have "\<dots> < 2 ^ LENGTH('a)" by (rule unsigned_less)
  finally have "unat i + 1 < 2 ^ LENGTH('a)" .
  then show ?thesis by (simp add: unat_word_ariths)
qed

section \<open>Macros of \<open>types.h\<close> and \<open>bit.h\<close>\<close>

definition DIV_ROUND_UP :: "nat \<Rightarrow> nat \<Rightarrow> nat" where
  "DIV_ROUND_UP n d = (n + d - 1) div d"

definition ALIGN :: "'a::len word \<Rightarrow> 'a word \<Rightarrow> 'a word" where
  "ALIGN x a = (x + (a - 1)) AND NOT (a - 1)"

definition BITS_PER_LONG :: nat where
  "BITS_PER_LONG = 64"

definition BITS_TO_LONGS :: "nat \<Rightarrow> nat" where
  "BITS_TO_LONGS nr = DIV_ROUND_UP nr BITS_PER_LONG"

definition GET_MASK64 :: "nat \<Rightarrow> nat \<Rightarrow> u64" where
  "GET_MASK64 offset width =
     push_bit offset (- 1) AND drop_bit ((64 - offset) - width) (- 1)"

lemma bit_GET_MASK64:
  assumes "off + w \<le> 64"
  shows "bit (GET_MASK64 off w) k \<longleftrightarrow> off \<le> k \<and> k < off + w"
  using assms by (auto simp: GET_MASK64_def bit_simps)

lemma BITS_TO_LONGS_cover: "l < n \<Longrightarrow> l div 64 < BITS_TO_LONGS n"
  by (simp add: BITS_TO_LONGS_def DIV_ROUND_UP_def BITS_PER_LONG_def less_mult_imp_div_less)

end
