(* ===== verification/CString.thy ===== *)
theory CString
  imports Prelude
begin

text \<open>
  The conversions of the C library that the small tools use: \<open>strtol\<close> in base 10 and \<open>atoi\<close>.
  A string is the list of its characters without the terminator.
\<close>

definition is_space :: "char \<Rightarrow> bool" where
  "is_space ch = (ch \<in> {CHR '' '', CHR 0x09, CHR 0x0A, CHR 0x0B, CHR 0x0C, CHR 0x0D})"

definition dec_val :: "char \<Rightarrow> int" where
  "dec_val ch = of_char ch - 48"

definition is_digit :: "char \<Rightarrow> bool" where
  "is_digit ch = (0 \<le> dec_val ch \<and> dec_val ch \<le> 9)"

definition digits_val :: "string \<Rightarrow> int" where
  "digits_val ds = foldl (\<lambda>n ch. 10 * n + dec_val ch) 0 ds"

text \<open>
  The value and the rest: white space, a sign, digits; the value saturates at the bounds of a
  64-bit \<open>long\<close>. Without digits nothing is consumed.
\<close>

definition strtol :: "string \<Rightarrow> int \<times> string" where
  "strtol s =
     (let r = dropWhile is_space s;
          neg = (r \<noteq> [] \<and> hd r = CHR ''-'');
          r = (if r \<noteq> [] \<and> (hd r = CHR ''-'' \<or> hd r = CHR ''+'') then tl r else r);
          v = digits_val (takeWhile is_digit r) in
      if takeWhile is_digit r = [] then (0, s)
      else (max (- (2 ^ 63)) (min (2 ^ 63 - 1) (if neg then - v else v)), dropWhile is_digit r))"

lemma strtol_length: "length (snd (strtol s)) \<le> length s"
  unfolding strtol_def Let_def
  by (auto intro!: order_trans[OF length_dropWhile_le] simp: length_dropWhile_le)
    (meson diff_le_self le_trans length_dropWhile_le)+

text \<open>\<open>atoi\<close> keeps the low 32 bits.\<close>

definition atoi :: "string \<Rightarrow> u32" where
  "atoi s = word_of_int (fst (strtol s))"

lemmas strtol_defs = atoi_def strtol_def digits_val_def dec_val_def is_digit_def is_space_def

end
