(* ===== verification/FtlChecker.thy ===== *)
theory FtlChecker
  imports CString
begin

text \<open>
  The checker of the mapping tables of a flash translation layer (\<open>ftl_checker/ftl_checker.c\<close>,
  \<open>ftl_checker.h\<close>). It reads a dump of the table that maps each logical block to a physical
  address, rebuilds from it the bitmap of valid addresses and the number of valid addresses of
  each group, reports addresses that two blocks share, and compares the rebuilt bitmap with
  the dumped one. The tables are lists of the 32-bit words a pointer reaches; a null pointer is
  the empty list, since every access through either is a fault. What the operating system
  answers (allocation, the files) is an argument.
\<close>

section \<open>State\<close>

definition INVALID_MPA :: u32 where
  "INVALID_MPA = 0xFFFFFFFF"

definition UNMAPPED_MPA :: u32 where
  "UNMAPPED_MPA = 0xFFFFFFF0"

definition UNCORRECTABLE_MPA :: u32 where
  "UNCORRECTABLE_MPA = 0xFFFFFFF1"

record self_chk_ctx =
  vb_table :: "u32 list"
  vb_tbl_size :: u32
  vc_table :: "u32 list"
  vc_tbl_size :: u32
  org_map_tbl :: "u32 list"
  storage_max_lba :: u32
  ftl_notify_group_offset :: u32
  map_file :: string
  bitmap_file :: string
  valid_cnt_file :: string

section \<open>The two tables\<close>

text \<open>The word and the bit of an address; -1 when the bit is set already.\<close>

definition self_check_vbtbl_write :: "self_chk_ctx \<Rightarrow> u32 \<Rightarrow> (int \<times> self_chk_ctx) res" where
  "self_check_vbtbl_write c mpa =
     (let dw_addr = unat (drop_bit 5 mpa); bit_idx = unat (mpa AND 0x1f) in
      bnd (arr_get (vb_table c) dw_addr) (\<lambda>dw.
      if dw AND push_bit bit_idx 1 \<noteq> 0 then Inr (- 1, c)
      else bnd (arr_set (vb_table c) dw_addr (dw OR push_bit bit_idx 1)) (\<lambda>t.
        Inr (0, c\<lparr>vb_table := t\<rparr>))))"

text \<open>A shift by 32 or more is undefined.\<close>

definition self_check_vctbl_write :: "self_chk_ctx \<Rightarrow> u32 \<Rightarrow> self_chk_ctx res" where
  "self_check_vctbl_write c mpa =
     (if 32 \<le> unat (ftl_notify_group_offset c) then Inl Fault else
      let idx = unat (drop_bit (unat (ftl_notify_group_offset c)) mpa) in
      bnd (arr_get (vc_table c) idx) (\<lambda>val.
      bnd (arr_set (vc_table c) idx (val + 1)) (\<lambda>t. Inr (c\<lparr>vc_table := t\<rparr>))))"

section \<open>Building the tables\<close>

text \<open>
  \<open>dup_search\<close> is the inner loop that looks for the first block of a shared address. It
  compares with entry \<open>lba\<close>, as the code does, and counts \<open>lba2\<close>.
\<close>

function dup_search :: "self_chk_ctx \<Rightarrow> u32 \<Rightarrow> nat \<Rightarrow> nat \<Rightarrow> nat res" where
  "dup_search c mpa lba lba2 =
     (if lba2 < unat (storage_max_lba c) then
        bnd (arr_get (org_map_tbl c) lba) (\<lambda>m.
        if mpa = m then Inr lba2 else dup_search c mpa lba (lba2 + 1))
      else Inr lba2)"
  by pat_completeness auto
termination
  by (relation "measure (\<lambda>(c, mpa, lba, lba2). unat (storage_max_lba c) - lba2)") auto

declare dup_search.simps [simp del]

text \<open>The local variables of the loop; \<open>dups\<close> are the lines it prints, oldest first.\<close>

record build_state =
  bs_ctx :: self_chk_ctx
  ret_val :: int
  i_mpa :: u32
  u_mpa :: u32
  uc_mpa :: u32
  dups :: "(nat \<times> nat \<times> u32) list"

definition build_step :: "nat \<Rightarrow> build_state \<Rightarrow> build_state res" where
  "build_step lba b =
     bnd (arr_get (org_map_tbl (bs_ctx b)) lba) (\<lambda>mpa.
     if mpa = INVALID_MPA then Inr (b\<lparr>i_mpa := i_mpa b + 1\<rparr>)
     else if mpa = UNMAPPED_MPA then Inr (b\<lparr>u_mpa := u_mpa b + 1\<rparr>)
     else if mpa = UNCORRECTABLE_MPA then Inr (b\<lparr>uc_mpa := uc_mpa b + 1\<rparr>)
     else
       bnd (self_check_vbtbl_write (bs_ctx b) mpa) (\<lambda>(r, c).
       bnd (if r = - 1 then
              bnd (dup_search c mpa lba 0) (\<lambda>lba2.
              Inr (b\<lparr>bs_ctx := c, ret_val := - 1, dups := dups b @ [(lba, lba2, mpa)]\<rparr>))
            else Inr (b\<lparr>bs_ctx := c\<rparr>)) (\<lambda>b.
       bnd (self_check_vctbl_write (bs_ctx b) mpa) (\<lambda>c. Inr (b\<lparr>bs_ctx := c\<rparr>)))))"

definition build_vbtbl_vctbl_from_mtbl :: "self_chk_ctx \<Rightarrow> build_state res" where
  "build_vbtbl_vctbl_from_mtbl c =
     for_upto 0 (unat (storage_max_lba c)) build_step
       \<lparr>bs_ctx = c, ret_val = 0, i_mpa = 0, u_mpa = 0, uc_mpa = 0, dups = []\<rparr>"

section \<open>Comparing with the dumped tables\<close>

text \<open>
  What the operating system answers: whether allocations succeed and what fresh memory holds
  (\<open>junk\<close>), the steps of mapping the dump, and for the other files their content (\<open>None\<close> when
  they do not open) and the bytes that \<open>fread\<close> delivers.
\<close>

record chk_env =
  malloc_vb :: bool
  malloc_vc :: bool
  junk_vb :: "nat \<Rightarrow> u32"
  junk_vc :: "nat \<Rightarrow> u32"
  map_opens :: "string \<Rightarrow> bool"
  map_seeks :: "string \<Rightarrow> bool"
  map_maps :: "string \<Rightarrow> u32 list option"
  file_content :: "string \<Rightarrow> bytes option"
  malloc_file :: "string \<Rightarrow> bool"
  readed :: "string \<Rightarrow> nat"
  junk_file :: "nat \<Rightarrow> u8"

text \<open>
  A file is opened, a buffer of its size is allocated and filled; after a short read the rest
  of the buffer keeps what it held, and the message is all that happens.
\<close>

definition read_data_from_file :: "chk_env \<Rightarrow> string \<Rightarrow> bytes option" where
  "read_data_from_file e name =
     (case file_content e name of None \<Rightarrow> None
      | Some content \<Rightarrow>
          if \<not> malloc_file e name then None
          else Some (take (readed e name) content
                     @ map (junk_file e) [readed e name..<length content]))"

definition dword_at :: "bytes \<Rightarrow> nat \<Rightarrow> u32 res" where
  "dword_at buf i = bnd (mem_read buf (4 * i) 4) (\<lambda>b. Inr (le_word b))"

text \<open>The loop over the words of the bitmap; the result is the return value.\<close>

fun compare_loop :: "u32 list \<Rightarrow> bytes \<Rightarrow> nat \<Rightarrow> nat \<Rightarrow> int res" where
  "compare_loop vb org vb_idx 0 = Inr 0"
| "compare_loop vb org vb_idx (Suc k) =
     bnd (arr_get vb vb_idx) (\<lambda>built.
     bnd (dword_at org vb_idx) (\<lambda>read.
     let xor_result = built XOR read;
         decide_result = built AND xor_result in
     if decide_result \<noteq> 0 then Inr (- 1) else compare_loop vb org (Suc vb_idx) k))"

text \<open>The counts are compared only under \<open>CHECK_VC\<close>, which the header sets to 0.\<close>

definition compare_vbtbl_vctbl_from_chktbl :: "self_chk_ctx \<Rightarrow> chk_env \<Rightarrow> int res" where
  "compare_vbtbl_vctbl_from_chktbl c e =
     (case read_data_from_file e (bitmap_file c) of None \<Rightarrow> Inr (- 1)
      | Some org_vb_tbl \<Rightarrow>
        (case read_data_from_file e (valid_cnt_file c) of None \<Rightarrow> Inr (- 1)
         | Some org_vc_tbl \<Rightarrow>
             if vb_tbl_size c \<noteq> 0
             then compare_loop (vb_table c) org_vb_tbl 0 (unat (vb_tbl_size c div 4))
             else Inr 0))"

section \<open>Initialisation, release and main\<close>

definition PATH_MAX :: nat where
  "PATH_MAX = 4096"

text \<open>
  \<open>strncpy(field, arg, strlen(arg))\<close> copies no terminator; the fields lie in a zeroed global, so
  a name shorter than the field is terminated, and a longer one leaves it.
\<close>

definition copy_name :: "string \<Rightarrow> string res" where
  "copy_name arg = (if length arg < PATH_MAX then Inr arg else Inl Fault)"

definition setup_memory_map_file :: "chk_env \<Rightarrow> self_chk_ctx \<Rightarrow> int \<times> self_chk_ctx" where
  "setup_memory_map_file e c =
     (if \<not> map_opens e (map_file c) then (- 1, c)
      else if \<not> map_seeks e (map_file c) then (- 1, c)
      else case map_maps e (map_file c) of None \<Rightarrow> (- 1, c)
           | Some t \<Rightarrow> (0, c\<lparr>org_map_tbl := t\<rparr>))"

text \<open>\<open>malloc(n)\<close> reaches \<open>n div 4\<close> words; \<open>memset\<close> clears \<open>n\<close> bytes of them.\<close>

definition malloc_words :: "(nat \<Rightarrow> u32) \<Rightarrow> u32 \<Rightarrow> u32 list" where
  "malloc_words junk n = map junk [0..<unat n div 4]"

definition memset_words :: "u32 list \<Rightarrow> u32 \<Rightarrow> u32 list" where
  "memset_words t n = replicate (unat n div 4) 0 @ drop (unat n div 4) t"

definition self_check_init :: "chk_env \<Rightarrow> string list \<Rightarrow> (int \<times> self_chk_ctx) res" where
  "self_check_init e argv =
     bnd (copy_name (argv ! 1)) (\<lambda>mf.
     bnd (copy_name (argv ! 2)) (\<lambda>bf.
     bnd (copy_name (argv ! 3)) (\<lambda>vf.
     let c = \<lparr>vb_table = [], vb_tbl_size = atoi (argv ! 5), vc_table = [],
              vc_tbl_size = atoi (argv ! 6), org_map_tbl = [], storage_max_lba = atoi (argv ! 4),
              ftl_notify_group_offset = atoi (argv ! 7), map_file = mf, bitmap_file = bf,
              valid_cnt_file = vf\<rparr>;
         vb_size = (if vb_tbl_size c = 0 then storage_max_lba c * 3 div 8 else vb_tbl_size c) in
     if \<not> malloc_vb e then Inr (- 1, c)
     else let c = c\<lparr>vb_table := malloc_words (junk_vb e) vb_size\<rparr> in
     if \<not> malloc_vc e then Inr (- 1, c)
     else let c = c\<lparr>vc_table := malloc_words (junk_vc e) (vc_tbl_size c)\<rparr>;
              c = c\<lparr>vb_table := memset_words (vb_table c) (vb_tbl_size c),
                    vc_table := memset_words (vc_table c) (vc_tbl_size c)\<rparr> in
     let (r, c) = setup_memory_map_file e c in
     if r < 0 then Inr (- 1, c) else Inr (0, c))))"

definition self_check_final :: "self_chk_ctx \<Rightarrow> self_chk_ctx" where
  "self_check_final c = c\<lparr>vb_table := [], vc_table := [], org_map_tbl := []\<rparr>"

definition ftl_checker_main :: "chk_env \<Rightarrow> string list \<Rightarrow> (int \<times> self_chk_ctx) res" where
  "ftl_checker_main e argv =
     (if length argv < 8 then Inl (Exit 180)
      else bnd (self_check_init e argv) (\<lambda>(r, c).
        if r < 0 then Inl (Exit 180)
        else bnd (build_vbtbl_vctbl_from_mtbl c) (\<lambda>b.
          if ret_val b < 0 then Inl (Exit 180)
          else bnd (compare_vbtbl_vctbl_from_chktbl (bs_ctx b) e) (\<lambda>r.
            if r < 0 then Inl (Exit 180)
            else Inr (0, self_check_final (bs_ctx b))))))"

section \<open>What the tables stand for\<close>

definition mapped :: "u32 \<Rightarrow> bool" where
  "mapped m = (m \<noteq> INVALID_MPA \<and> m \<noteq> UNMAPPED_MPA \<and> m \<noteq> UNCORRECTABLE_MPA)"

definition vb_bit :: "u32 list \<Rightarrow> nat \<Rightarrow> bool" where
  "vb_bit t n = bit (t ! (n div 32)) (n mod 32)"

definition mpa_group :: "self_chk_ctx \<Rightarrow> u32 \<Rightarrow> nat" where
  "mpa_group c m = unat m div 2 ^ unat (ftl_notify_group_offset c)"

text \<open>The addresses of the first \<open>n\<close> blocks, in the order of the blocks.\<close>

definition mapped_mpas :: "self_chk_ctx \<Rightarrow> nat \<Rightarrow> u32 list" where
  "mapped_mpas c n = filter mapped (take n (org_map_tbl c))"

definition group_count :: "self_chk_ctx \<Rightarrow> nat \<Rightarrow> nat \<Rightarrow> nat" where
  "group_count c n g = length (filter (\<lambda>m. mpa_group c m = g) (mapped_mpas c n))"

text \<open>The blocks whose address is marked by an earlier block or from the start, as the code prints them.\<close>

definition shared_lbas :: "self_chk_ctx \<Rightarrow> nat \<Rightarrow> (nat \<times> nat \<times> u32) list" where
  "shared_lbas c n =
     map (\<lambda>k. (k, 0, org_map_tbl c ! k))
       (filter (\<lambda>k. mapped (org_map_tbl c ! k) \<and>
                (org_map_tbl c ! k \<in> set (take k (org_map_tbl c))
                 \<or> vb_bit (vb_table c) (unat (org_map_tbl c ! k)))) [0..<n])"

text \<open>No address occurs twice, and none is marked in the table the checker starts from.\<close>

definition unmarked :: "self_chk_ctx \<Rightarrow> u32 list \<Rightarrow> bool" where
  "unmarked c ms = (distinct ms \<and> (\<forall>m\<in>set ms. \<not> vb_bit (vb_table c) (unat m)))"

text \<open>The map covers the blocks, and the tables cover every address in it.\<close>

definition tables_fit :: "self_chk_ctx \<Rightarrow> bool" where
  "tables_fit c =
     (unat (storage_max_lba c) \<le> length (org_map_tbl c)
      \<and> unat (ftl_notify_group_offset c) < 32
      \<and> (\<forall>m\<in>set (mapped_mpas c (unat (storage_max_lba c))).
            unat m div 32 < length (vb_table c) \<and> mpa_group c m < length (vc_table c)))"

definition tables_clear :: "self_chk_ctx \<Rightarrow> bool" where
  "tables_clear c = ((\<forall>w\<in>set (vb_table c). w = 0) \<and> (\<forall>w\<in>set (vc_table c). w = 0))"

section \<open>Marking and counting\<close>

lemma unat_mpa_word [simp]: "unat (drop_bit 5 (m :: u32)) = unat m div 32"
  unfolding unat_drop_bit_eq by (simp add: drop_bit_eq_div)

lemma unat_mpa_bit [simp]: "unat (m AND 0x1f :: u32) = unat m mod 32"
proof -
  have "m AND 0x1f = take_bit 5 m" by (simp add: take_bit_eq_mask mask_eq_exp_minus_1)
  then show ?thesis by (simp only: unsigned_take_bit_eq) (simp add: take_bit_eq_mod)
qed

lemma unat_mpa_group: "unat (drop_bit (unat (ftl_notify_group_offset c)) m) = mpa_group c m"
  unfolding unat_drop_bit_eq mpa_group_def by (simp add: drop_bit_eq_div)

lemma vb_bit_update:
  assumes "n div 32 < length t" and "n' div 32 < length t"
  shows "vb_bit (t[n div 32 := t ! (n div 32) OR push_bit (n mod 32) 1]) n'
         \<longleftrightarrow> vb_bit t n' \<or> n' = n"
proof -
  have "n' = n" if "n div 32 = n' div 32" and "n mod 32 = n' mod 32"
    using that by (metis div_mult_mod_eq)
  then show ?thesis
    using assms by (auto simp: vb_bit_def nth_list_update bit_simps)
qed

lemma vbtbl_write_marked:
  assumes "unat m div 32 < length (vb_table c)" and "vb_bit (vb_table c) (unat m)"
  shows "self_check_vbtbl_write c m = Inr (- 1, c)"
  using assms by (simp add: self_check_vbtbl_write_def vb_bit_def Let_def and_exp_eq_0_iff_not_bit)

lemma vbtbl_write_new:
  assumes "unat m div 32 < length (vb_table c)" and "\<not> vb_bit (vb_table c) (unat m)"
  obtains t where "self_check_vbtbl_write c m = Inr (0, c\<lparr>vb_table := t\<rparr>)"
    and "length t = length (vb_table c)"
    and "\<And>n. n div 32 < length t \<Longrightarrow> vb_bit t n \<longleftrightarrow> vb_bit (vb_table c) n \<or> n = unat m"
  using that assms vb_bit_update[OF assms(1)]
  by (simp add: self_check_vbtbl_write_def vb_bit_def[of _ "unat m"] Let_def
      and_exp_eq_0_iff_not_bit)

lemma vctbl_write_count:
  assumes "mpa_group c m < length (vc_table c)" and "unat (ftl_notify_group_offset c) < 32"
  shows "self_check_vctbl_write c m =
    Inr (c\<lparr>vc_table := (vc_table c)[mpa_group c m := vc_table c ! mpa_group c m + 1]\<rparr>)"
  using assms
  by (simp add: self_check_vctbl_write_def unat_mpa_group Let_def)

text \<open>The search for the first block of a shared address never gets past block 0.\<close>

lemma dup_search_first:
  assumes "lba < length (org_map_tbl c)" and "0 < storage_max_lba c"
  shows "dup_search c (org_map_tbl c ! lba) lba 0 = Inr 0"
  using assms by (subst dup_search.simps) (simp add: word_less_nat_alt)

section \<open>The loop over the map\<close>

text \<open>What the loop has done after the first \<open>n\<close> blocks.\<close>

definition built :: "self_chk_ctx \<Rightarrow> nat \<Rightarrow> build_state \<Rightarrow> bool" where
  "built c n b =
     (\<exists>vb vc. bs_ctx b = c\<lparr>vb_table := vb, vc_table := vc\<rparr>
        \<and> length vb = length (vb_table c) \<and> length vc = length (vc_table c)
        \<and> (\<forall>i. i div 32 < length vb \<longrightarrow>
              vb_bit vb i = (vb_bit (vb_table c) i \<or> i \<in> unat ` set (mapped_mpas c n)))
        \<and> (\<forall>g<length vc. vc ! g = vc_table c ! g + of_nat (group_count c n g))
        \<and> ret_val b = (if unmarked c (mapped_mpas c n) then 0 else - 1)
        \<and> i_mpa b = of_nat (count_list (take n (org_map_tbl c)) INVALID_MPA)
        \<and> u_mpa b = of_nat (count_list (take n (org_map_tbl c)) UNMAPPED_MPA)
        \<and> uc_mpa b = of_nat (count_list (take n (org_map_tbl c)) UNCORRECTABLE_MPA)
        \<and> dups b = shared_lbas c n)"

lemma builtI:
  assumes "bs_ctx b = c\<lparr>vb_table := vb, vc_table := vc\<rparr>"
    and "length vb = length (vb_table c)" and "length vc = length (vc_table c)"
    and "\<And>i. i div 32 < length vb \<Longrightarrow>
        vb_bit vb i = (vb_bit (vb_table c) i \<or> i \<in> unat ` set (mapped_mpas c n))"
    and "\<And>g. g < length vc \<Longrightarrow> vc ! g = vc_table c ! g + of_nat (group_count c n g)"
    and "ret_val b = (if unmarked c (mapped_mpas c n) then 0 else - 1)"
    and "i_mpa b = of_nat (count_list (take n (org_map_tbl c)) INVALID_MPA)"
    and "u_mpa b = of_nat (count_list (take n (org_map_tbl c)) UNMAPPED_MPA)"
    and "uc_mpa b = of_nat (count_list (take n (org_map_tbl c)) UNCORRECTABLE_MPA)"
    and "dups b = shared_lbas c n"
  shows "built c n b"
  using assms unfolding built_def by blast

lemma take_map_Suc:
  "n < length (org_map_tbl c) \<Longrightarrow>
   take (Suc n) (org_map_tbl c) = take n (org_map_tbl c) @ [org_map_tbl c ! n]"
  by (simp add: take_Suc_conv_app_nth)

lemma special_mpas:
  "INVALID_MPA \<noteq> UNMAPPED_MPA" "INVALID_MPA \<noteq> UNCORRECTABLE_MPA"
  "UNMAPPED_MPA \<noteq> UNCORRECTABLE_MPA"
  by (simp_all add: INVALID_MPA_def UNMAPPED_MPA_def UNCORRECTABLE_MPA_def)

lemma mapped_mpas_Suc:
  "n < length (org_map_tbl c) \<Longrightarrow>
   mapped_mpas c (Suc n) =
     mapped_mpas c n @ (if mapped (org_map_tbl c ! n) then [org_map_tbl c ! n] else [])"
  by (simp add: mapped_mpas_def take_map_Suc)

lemma shared_lbas_Suc:
  "shared_lbas c (Suc n) =
     shared_lbas c n @
     (if mapped (org_map_tbl c ! n) \<and>
         (org_map_tbl c ! n \<in> set (mapped_mpas c n) \<or> vb_bit (vb_table c) (unat (org_map_tbl c ! n)))
      then [(n, 0, org_map_tbl c ! n)] else [])"
  by (auto simp: shared_lbas_def mapped_mpas_def)

lemma group_count_Suc:
  "n < length (org_map_tbl c) \<Longrightarrow>
   group_count c (Suc n) g =
     group_count c n g
     + (if mapped (org_map_tbl c ! n) \<and> mpa_group c (org_map_tbl c ! n) = g then 1 else 0)"
  by (simp add: group_count_def mapped_mpas_Suc)

lemmas map_Suc = mapped_mpas_Suc shared_lbas_Suc group_count_Suc take_map_Suc

lemma ctx_frame [simp]:
  "mpa_group (c\<lparr>vb_table := vb, vc_table := vc\<rparr>) m = mpa_group c m"
  by (simp add: mpa_group_def)

text \<open>One block that is mapped.\<close>

lemma build_step_mapped:
  assumes b: "bs_ctx b = c\<lparr>vb_table := vb, vc_table := vc\<rparr>"
    and m: "m = org_map_tbl c ! n" "mapped m" "n < length (org_map_tbl c)"
    and fit: "unat m div 32 < length vb" "mpa_group c m < length vc"
      "unat (ftl_notify_group_offset c) < 32" "n < unat (storage_max_lba c)"
  obtains t where "length t = length vb"
    and "\<And>i. i div 32 < length t \<Longrightarrow> vb_bit t i \<longleftrightarrow> vb_bit vb i \<or> i = unat m"
    and "build_step n b = Inr (b\<lparr>
      bs_ctx := c\<lparr>vb_table := t, vc_table := vc[mpa_group c m := vc ! mpa_group c m + 1]\<rparr>,
      ret_val := (if vb_bit vb (unat m) then - 1 else ret_val b),
      dups := dups b @ (if vb_bit vb (unat m) then [(n, 0, m)] else [])\<rparr>)"
proof (cases "vb_bit vb (unat m)")
  case True
  have "0 < storage_max_lba c" using fit(4) by (auto simp: word_less_nat_alt)
  then have "dup_search (c\<lparr>vb_table := vb, vc_table := vc\<rparr>) m n 0 = Inr 0"
    using dup_search_first[of n "c\<lparr>vb_table := vb, vc_table := vc\<rparr>"] m by simp
  with True show thesis
    using m fit vbtbl_write_marked[of m "bs_ctx b"] vctbl_write_count[of "bs_ctx b" m]
    by (intro that[of vb]) (auto simp: build_step_def b mapped_def)
next
  case False
  from vbtbl_write_new[of m "bs_ctx b"] False fit(1) b
  obtain t where t: "self_check_vbtbl_write (bs_ctx b) m = Inr (0, bs_ctx b\<lparr>vb_table := t\<rparr>)"
    "length t = length vb"
    "\<And>i. i div 32 < length t \<Longrightarrow> vb_bit t i \<longleftrightarrow> vb_bit vb i \<or> i = unat m"
    by auto
  have swap: "c\<lparr>vc_table := vc, vb_table := t\<rparr> = c\<lparr>vb_table := t, vc_table := vc\<rparr>" by simp
  show thesis
    using False m fit t vctbl_write_count[of "c\<lparr>vb_table := t, vc_table := vc\<rparr>" m]
    by (intro that[of t]) (auto simp: build_step_def b mapped_def swap)
qed

lemma unat_in_image: "unat m \<in> unat ` S \<longleftrightarrow> m \<in> S" for m :: u32
  by (auto simp: image_iff dest: word_unat_eq_iff[THEN iffD2])

lemma build_step_built:
  assumes c: "tables_fit c" and n: "n < unat (storage_max_lba c)" and b: "built c n b"
  shows "\<exists>b'. build_step n b = Inr b' \<and> built c (Suc n) b'"
proof -
  let ?m = "org_map_tbl c ! n"
  have len: "n < length (org_map_tbl c)" using c n by (auto simp: tables_fit_def)
  obtain vb vc where v: "bs_ctx b = c\<lparr>vb_table := vb, vc_table := vc\<rparr>"
    and B: "length vb = length (vb_table c)" "length vc = length (vc_table c)"
      "\<And>i. i div 32 < length vb \<Longrightarrow>
        vb_bit vb i = (vb_bit (vb_table c) i \<or> i \<in> unat ` set (mapped_mpas c n))"
      "\<And>g. g < length vc \<Longrightarrow> vc ! g = vc_table c ! g + of_nat (group_count c n g)"
      "ret_val b = (if unmarked c (mapped_mpas c n) then 0 else - 1)"
      "i_mpa b = of_nat (count_list (take n (org_map_tbl c)) INVALID_MPA)"
      "u_mpa b = of_nat (count_list (take n (org_map_tbl c)) UNMAPPED_MPA)"
      "uc_mpa b = of_nat (count_list (take n (org_map_tbl c)) UNCORRECTABLE_MPA)"
      "dups b = shared_lbas c n"
    using b by (auto simp: built_def)
  show ?thesis
  proof (cases "mapped ?m")
    case False
    then show ?thesis
      using B v len special_mpas
      by (auto simp: build_step_def mapped_def map_Suc intro!: builtI[where vb = vb and vc = vc])
  next
    case True
    have "?m \<in> set (mapped_mpas c (unat (storage_max_lba c)))"
      using True n c len by (auto simp: mapped_mpas_def tables_fit_def in_set_conv_nth)
    then have fit: "unat ?m div 32 < length vb" "mpa_group c ?m < length vc"
      "unat (ftl_notify_group_offset c) < 32"
      using c B by (auto simp: tables_fit_def)
    obtain t where t: "length t = length vb"
      "\<And>i. i div 32 < length t \<Longrightarrow> vb_bit t i \<longleftrightarrow> vb_bit vb i \<or> i = unat ?m"
      "build_step n b = Inr (b\<lparr>
        bs_ctx := c\<lparr>vb_table := t, vc_table := vc[mpa_group c ?m := vc ! mpa_group c ?m + 1]\<rparr>,
        ret_val := (if vb_bit vb (unat ?m) then - 1 else ret_val b),
        dups := dups b @ (if vb_bit vb (unat ?m) then [(n, 0, ?m)] else [])\<rparr>)"
      using build_step_mapped[OF v refl True len fit n] by metis
    have old: "vb_bit vb (unat ?m) = (vb_bit (vb_table c) (unat ?m) \<or> ?m \<in> set (mapped_mpas c n))"
      using B(3)[OF fit(1)] by (simp add: unat_in_image)
    have tbit: "vb_bit t i = (vb_bit (vb_table c) i \<or> i \<in> unat ` set (mapped_mpas c (Suc n)))"
      if "i div 32 < length t" for i
      using t(1) t(2)[OF that] B(3)[of i] that True len by (auto simp: map_Suc)
    have cnt: "vc[mpa_group c ?m := vc ! mpa_group c ?m + 1] ! g
               = vc_table c ! g + of_nat (group_count c (Suc n) g)" if "g < length vc" for g
      using B(4)[OF that] that fit(2) True len by (simp add: map_Suc nth_list_update)
    show ?thesis
    proof (intro exI conjI, rule t(3), rule builtI[where vb = t and
          vc = "vc[mpa_group c ?m := vc ! mpa_group c ?m + 1]"], goal_cases)
      case (4 i)
      then show ?case by (rule tbit)
    next
      case (5 g)
      then show ?case using cnt by simp
    qed (use B t(1) True len old in \<open>simp_all add: map_Suc mapped_def unmarked_def\<close>)
  qed
qed

lemma build_built:
  assumes "tables_fit c"
  shows "\<exists>b. build_vbtbl_vctbl_from_mtbl c = Inr b \<and> built c (unat (storage_max_lba c)) b"
proof -
  let ?b = "\<lparr>bs_ctx = c, ret_val = 0, i_mpa = 0, u_mpa = 0, uc_mpa = 0, dups = []\<rparr>"
  have "built c 0 ?b"
    by (rule builtI[where vb = "vb_table c" and vc = "vc_table c"])
      (simp_all add: mapped_mpas_def group_count_def shared_lbas_def unmarked_def)
  then show ?thesis
    unfolding build_vbtbl_vctbl_from_mtbl_def
    using for_upto_rule[where P = "built c" and i = 0 and k = "unat (storage_max_lba c)"
        and f = build_step and s = ?b] build_step_built[OF assms] by auto
qed

lemma group_count_bound: "group_count c n g \<le> n"
  using length_filter_le[of "\<lambda>m. mpa_group c m = g" "mapped_mpas c n"]
    length_filter_le[of mapped "take n (org_map_tbl c)"]
  by (simp add: group_count_def mapped_mpas_def)

lemma unat_count:
  assumes "k \<le> unat (n :: u32)"
  shows "unat (of_nat k :: u32) = k"
proof -
  have "unat n < 2 ^ 32" using unsigned_less[of n, where ?'a = nat] by simp
  with assms show ?thesis by (simp add: unat_of_nat)
qed

lemma count_take_bound: "count_list (take n xs) x \<le> n"
  using count_le_length[of "take n xs" x] by simp

section \<open>The comparison\<close>

text \<open>Bit \<open>n\<close> of a bitmap file.\<close>

definition file_bit :: "bytes \<Rightarrow> nat \<Rightarrow> bool" where
  "file_bit buf n = bit (buf ! (n div 8)) (n mod 8)"

lemma missing_bits: "(a AND (a XOR b) = 0) \<longleftrightarrow> (\<forall>n<32. bit a n \<longrightarrow> bit b n)" for a b :: u32
  by (auto simp: bit_eq_iff bit_simps)

lemma dword_at_bit:
  assumes "4 * i + 4 \<le> length buf"
  obtains w where "dword_at buf i = Inr w"
    and "\<And>k. k < 32 \<Longrightarrow> bit w k \<longleftrightarrow> file_bit buf (32 * i + k)"
proof (rule that)
  show "dword_at buf i = Inr (le_word (take 4 (drop (4 * i) buf)))"
    using assms by (simp add: dword_at_def)
  fix k :: nat assume k: "k < 32"
  then have "k div 8 < 4" by (simp add: less_mult_imp_div_less)
  moreover have "(32 * i + k) div 8 = 4 * i + k div 8" "(32 * i + k) mod 8 = k mod 8"
    by presburger+
  ultimately show "bit (le_word (take 4 (drop (4 * i) buf)) :: u32) k = file_bit buf (32 * i + k)"
    using k assms by (simp add: bit_le_word file_bit_def)
qed

text \<open>The comparison succeeds when no bit of the words it covers is missing from the file.\<close>

definition covered :: "u32 list \<Rightarrow> bytes \<Rightarrow> nat \<Rightarrow> nat \<Rightarrow> bool" where
  "covered vb org i k =
     (\<forall>j. i \<le> j \<and> j < i + k \<longrightarrow> (\<forall>b<32. bit (vb ! j) b \<longrightarrow> file_bit org (32 * j + b)))"

lemma covered_Suc:
  "covered vb org i (Suc k) \<longleftrightarrow>
     (\<forall>b<32. bit (vb ! i) b \<longrightarrow> file_bit org (32 * i + b)) \<and> covered vb org (Suc i) k"
proof -
  have "(i \<le> j \<and> j < i + Suc k) = (j = i \<or> Suc i \<le> j \<and> j < Suc i + k)" for j by auto
  then show ?thesis by (simp only: covered_def) blast
qed

lemma compare_loop_exact:
  assumes "i + k \<le> length vb" and "4 * (i + k) \<le> length org"
  shows "compare_loop vb org i k = Inr (if covered vb org i k then 0 else - 1)"
  using assms
proof (induction k arbitrary: i)
  case 0
  then show ?case by (simp add: covered_def)
next
  case (Suc k)
  from Suc.prems(2) have "4 * i + 4 \<le> length org" by simp
  then obtain w where w: "dword_at org i = Inr w"
    "\<And>k. k < 32 \<Longrightarrow> bit w k \<longleftrightarrow> file_bit org (32 * i + k)"
    using dword_at_bit by metis
  have "(vb ! i AND (vb ! i XOR w) = 0) \<longleftrightarrow> (\<forall>b<32. bit (vb ! i) b \<longrightarrow> file_bit org (32 * i + b))"
    using w(2) by (simp add: missing_bits)
  then show ?case using Suc w(1) by (simp add: covered_Suc Let_def)
qed

lemma covered_bits:
  "covered vb org 0 k \<longleftrightarrow> (\<forall>n. n div 32 < k \<and> vb_bit vb n \<longrightarrow> file_bit org n)" (is "?l = ?r")
proof
  assume ?l
  have "file_bit org n" if "n div 32 < k" "bit (vb ! (n div 32)) (n mod 32)" for n
  proof -
    have "file_bit org (32 * (n div 32) + n mod 32)"
      by (rule \<open>?l\<close>[unfolded covered_def, rule_format]) (use that in simp_all)
    then show ?thesis by simp
  qed
  then show ?r by (simp add: vb_bit_def)
next
  assume r: ?r
  show ?l unfolding covered_def
  proof (intro allI impI)
    fix j b :: nat assume "0 \<le> j \<and> j < 0 + k" "b < 32" "bit (vb ! j) b"
    moreover from \<open>b < 32\<close> have "(32 * j + b) div 32 = j" "(32 * j + b) mod 32 = b" by simp_all
    ultimately show "file_bit org (32 * j + b)"
      using r[rule_format, of "32 * j + b"] by (simp add: vb_bit_def)
  qed
qed

section \<open>What the checker establishes\<close>

lemma unat_div4: "unat (n div 4 :: u32) = unat n div 4"
  by (simp add: unat_div)

lemma length_malloc_words [simp]: "length (malloc_words junk n) = unat n div 4"
  by (simp add: malloc_words_def)

lemma memset_malloc [simp]: "memset_words (malloc_words junk n) n = replicate (unat n div 4) 0"
  by (simp add: memset_words_def)

lemma memset_0 [simp]: "memset_words t 0 = t"
  by (simp add: memset_words_def)

text \<open>The tables a successful initialisation leaves.\<close>

lemma init_tables:
  assumes "self_check_init e argv = Inr (0, c)"
  shows "vb_table c =
      (if vb_tbl_size c = 0 then malloc_words (junk_vb e) (storage_max_lba c * 3 div 8)
       else replicate (unat (vb_tbl_size c) div 4) 0)"
    and "vc_table c = replicate (unat (vc_tbl_size c) div 4) 0"
    and "storage_max_lba c = atoi (argv ! 4)" and "vb_tbl_size c = atoi (argv ! 5)"
  using assms
  by (auto simp: self_check_init_def bnd_eq_Inr Let_def setup_memory_map_file_def
      split: if_splits option.splits)

lemma vb_bit_replicate: "i div 32 < n \<Longrightarrow> \<not> vb_bit (replicate n 0) i"
  by (simp add: vb_bit_def)

text \<open>C22: On a map that the tables cover, with both tables clear, building the tables returns and
  is exact: the result is 0 when no two blocks share an address and -1 otherwise, the bits set
  in the bitmap are the mapped addresses, the count of a group is the number of blocks mapped
  into it (no count wraps), the three special values are counted exactly, and the blocks
  reported are those whose address an earlier block has.
\<close>

theorem build_tables_exact:
  assumes "tables_fit c" and "tables_clear c"
    and "n = unat (storage_max_lba c)"
  shows "\<exists>b vb vc. build_vbtbl_vctbl_from_mtbl c = Inr b
    \<and> bs_ctx b = c\<lparr>vb_table := vb, vc_table := vc\<rparr>
    \<and> ret_val b = (if distinct (mapped_mpas c n) then 0 else - 1)
    \<and> (\<forall>i. i div 32 < length (vb_table c) \<longrightarrow> vb_bit vb i = (i \<in> unat ` set (mapped_mpas c n)))
    \<and> (\<forall>g<length (vc_table c). unat (vc ! g) = group_count c n g)
    \<and> unat (i_mpa b) = count_list (take n (org_map_tbl c)) INVALID_MPA
    \<and> unat (u_mpa b) = count_list (take n (org_map_tbl c)) UNMAPPED_MPA
    \<and> unat (uc_mpa b) = count_list (take n (org_map_tbl c)) UNCORRECTABLE_MPA
    \<and> dups b = map (\<lambda>k. (k, 0, org_map_tbl c ! k))
                 (filter (\<lambda>k. mapped (org_map_tbl c ! k)
                    \<and> org_map_tbl c ! k \<in> set (take k (org_map_tbl c))) [0..<n])"
proof -
  obtain b where b: "build_vbtbl_vctbl_from_mtbl c = Inr b" "built c n b"
    using build_built[OF assms(1)] assms(3) by blast
  have clear: "\<not> vb_bit (vb_table c) i" if "i div 32 < length (vb_table c)" for i
    using assms(2) nth_mem[OF that] by (auto simp: tables_clear_def vb_bit_def)
  have zero: "vc_table c ! g = 0" if "g < length (vc_table c)" for g
    using assms(2) that by (simp add: tables_clear_def)
  have marks: "\<not> vb_bit (vb_table c) (unat m)" if "m \<in> set (mapped_mpas c n)" for m
    using clear assms(1,3) that by (simp add: tables_fit_def)
  have dup: "shared_lbas c n = map (\<lambda>k. (k, 0, org_map_tbl c ! k))
                 (filter (\<lambda>k. mapped (org_map_tbl c ! k)
                    \<and> org_map_tbl c ! k \<in> set (take k (org_map_tbl c))) [0..<n])"
    unfolding shared_lbas_def
  proof (intro map_cong filter_cong refl)
    fix k assume "k \<in> set [0..<n]"
    then have "k < n" "k < length (org_map_tbl c)" using assms(1,3) by (auto simp: tables_fit_def)
    then have "mapped (org_map_tbl c ! k) \<Longrightarrow> org_map_tbl c ! k \<in> set (mapped_mpas c n)"
      by (auto simp: mapped_mpas_def in_set_conv_nth)
    then show "(mapped (org_map_tbl c ! k) \<and> (org_map_tbl c ! k \<in> set (take k (org_map_tbl c))
        \<or> vb_bit (vb_table c) (unat (org_map_tbl c ! k)))) \<longleftrightarrow>
      mapped (org_map_tbl c ! k) \<and> org_map_tbl c ! k \<in> set (take k (org_map_tbl c))"
      using marks by blast
  qed
  have count: "unat (of_nat k :: u32) = k" if "k \<le> n" for k
    using unat_count that assms(3) by blast
  obtain vb vc where v: "bs_ctx b = c\<lparr>vb_table := vb, vc_table := vc\<rparr>"
    and B: "length vb = length (vb_table c)" "length vc = length (vc_table c)"
      "\<And>i. i div 32 < length vb \<Longrightarrow>
         vb_bit vb i = (vb_bit (vb_table c) i \<or> i \<in> unat ` set (mapped_mpas c n))"
      "\<And>g. g < length vc \<Longrightarrow> vc ! g = vc_table c ! g + of_nat (group_count c n g)"
      "ret_val b = (if unmarked c (mapped_mpas c n) then 0 else - 1)"
      "i_mpa b = of_nat (count_list (take n (org_map_tbl c)) INVALID_MPA)"
      "u_mpa b = of_nat (count_list (take n (org_map_tbl c)) UNMAPPED_MPA)"
      "uc_mpa b = of_nat (count_list (take n (org_map_tbl c)) UNCORRECTABLE_MPA)"
      "dups b = shared_lbas c n"
    using b(2) by (auto simp: built_def)
  show ?thesis
    by (rule exI[of _ b], rule exI[of _ vb], rule exI[of _ vc])
      (use b(1) v B clear zero marks dup in
        \<open>simp add: unmarked_def count group_count_bound count_take_bound\<close>)
qed

definition chk_ctx_ex :: self_chk_ctx where
  "chk_ctx_ex = \<lparr>vb_table = [0], vb_tbl_size = 4, vc_table = [0, 0], vc_tbl_size = 8,
     org_map_tbl = [5, 0xFFFFFFFF, 5, 17], storage_max_lba = 4, ftl_notify_group_offset = 4,
     map_file = ''m'', bitmap_file = ''b'', valid_cnt_file = ''v''\<rparr>"

lemma build_tables_exact_witness:
  "\<exists>b. build_vbtbl_vctbl_from_mtbl chk_ctx_ex = Inr b \<and> ret_val b = - 1 \<and> dups b = [(2, 0, 5)]"
proof -
  have "tables_fit chk_ctx_ex" "tables_clear chk_ctx_ex"
    by (simp_all add: tables_fit_def tables_clear_def chk_ctx_ex_def mapped_mpas_def mapped_def
        mpa_group_def INVALID_MPA_def UNMAPPED_MPA_def UNCORRECTABLE_MPA_def)
  from build_tables_exact[OF this refl] show ?thesis
    by (auto simp: chk_ctx_ex_def mapped_mpas_def mapped_def INVALID_MPA_def
        UNMAPPED_MPA_def UNCORRECTABLE_MPA_def upt_rec)
qed

lemma main_steps:
  assumes "8 \<le> length argv" and "self_check_init e argv = Inr (0, c)"
    and "build_vbtbl_vctbl_from_mtbl c = Inr b"
    and "compare_vbtbl_vctbl_from_chktbl (bs_ctx b) e = Inr r"
  shows "ftl_checker_main e argv =
    (if ret_val b < 0 \<or> r < 0 then Inl (Exit 180) else Inr (0, self_check_final (bs_ctx b)))"
  using assms by (simp add: ftl_checker_main_def)

text \<open>C19: With a bitmap size other than 0, and tables and a bitmap file large enough for the map,
  the program succeeds exactly when no two blocks share an address and every mapped address has
  its bit in the bitmap file; otherwise it exits with 180. Bits of the file that no block maps
  to, and the file of counts, do not matter.
\<close>

theorem ftl_checker_exact:
  assumes "8 \<le> length argv" and "self_check_init e argv = Inr (0, c)"
    and "vb_tbl_size c \<noteq> 0" and "tables_fit c"
    and "read_data_from_file e (bitmap_file c) = Some org"
    and "read_data_from_file e (valid_cnt_file c) \<noteq> None"
    and "unat (vb_tbl_size c) \<le> length org"
    and "ms = mapped_mpas c (unat (storage_max_lba c))"
  shows "if distinct ms \<and> (\<forall>m\<in>set ms. file_bit org (unat m))
         then \<exists>c'. ftl_checker_main e argv = Inr (0, c')
         else ftl_checker_main e argv = Inl (Exit 180)"
proof -
  let ?k = "unat (vb_tbl_size c) div 4"
  have vb: "vb_table c = replicate ?k 0" using init_tables(1)[OF assms(2)] assms(3) by simp
  obtain b vb vc where b: "build_vbtbl_vctbl_from_mtbl c = Inr b"
    and v: "bs_ctx b = c\<lparr>vb_table := vb, vc_table := vc\<rparr>" "length vb = ?k"
    and bits: "\<And>i. i div 32 < ?k \<Longrightarrow> vb_bit vb i = (i \<in> unat ` set ms)"
    and ret: "ret_val b = (if unmarked c ms then 0 else - 1)"
    using build_built[OF assms(4)] vb assms(8) by (auto simp: built_def vb_bit_replicate)
  have fit: "unat m div 32 < ?k" if "m \<in> set ms" for m
    using assms(4,8) that vb by (simp add: tables_fit_def)
  have "4 * ?k \<le> length org" using assms(7) by simp
  then have r: "compare_vbtbl_vctbl_from_chktbl (bs_ctx b) e = Inr (if covered vb org 0 ?k then 0 else - 1)"
    using assms(3,5,6) v compare_loop_exact[of 0 ?k vb org]
    by (auto simp: compare_vbtbl_vctbl_from_chktbl_def unat_div4)
  have "covered vb org 0 ?k = (\<forall>m\<in>set ms. file_bit org (unat m))"
    using bits fit by (auto simp: covered_bits)
  moreover have "unmarked c ms = distinct ms"
    using fit vb by (simp add: unmarked_def vb_bit_replicate)
  ultimately show ?thesis using main_steps[OF assms(1,2) b r] ret by simp
qed

definition chk_env_ex :: chk_env where
  "chk_env_ex = \<lparr>malloc_vb = True, malloc_vc = True, junk_vb = (\<lambda>i. 0), junk_vc = (\<lambda>i. 0),
     map_opens = (\<lambda>f. True), map_seeks = (\<lambda>f. True), map_maps = (\<lambda>f. Some [5, 0xFFFFFFFF, 9]),
     file_content = (\<lambda>f. Some [0x20, 0x02, 0, 0]), malloc_file = (\<lambda>f. True),
     readed = (\<lambda>f. 4), junk_file = (\<lambda>i. 0)\<rparr>"

definition chk_argv_ex :: "string list" where
  "chk_argv_ex = [''c'', ''m'', ''b'', ''v'', ''3'', ''4'', ''8'', ''10'']"

definition chk_init_ex :: self_chk_ctx where
  "chk_init_ex = \<lparr>vb_table = [0], vb_tbl_size = 4, vc_table = replicate 2 0, vc_tbl_size = 8,
     org_map_tbl = [5, 0xFFFFFFFF, 9], storage_max_lba = 3, ftl_notify_group_offset = 10,
     map_file = ''m'', bitmap_file = ''b'', valid_cnt_file = ''v''\<rparr>"

lemma atoi_ex:
  "atoi ''3'' = 3" "atoi ''4'' = 4" "atoi ''8'' = 8" "atoi ''10'' = 10" "atoi ''0'' = 0" "atoi ''12'' = 12"
  by (simp_all add: strtol_defs)

lemma init_ex: "self_check_init chk_env_ex chk_argv_ex = Inr (0, chk_init_ex)"
  by (simp add: self_check_init_def chk_env_ex_def chk_argv_ex_def chk_init_ex_def copy_name_def
      PATH_MAX_def atoi_ex setup_memory_map_file_def malloc_words_def memset_words_def Let_def)

lemma fit_ex: "tables_fit chk_init_ex"
  and mpas_ex: "mapped_mpas chk_init_ex 3 = [5, 9]"
  by (simp_all add: tables_fit_def mpa_group_def chk_init_ex_def mapped_mpas_def mapped_def
      INVALID_MPA_def UNMAPPED_MPA_def UNCORRECTABLE_MPA_def)

lemma file_bits_ex: "file_bit [0x20, 0x02, 0, 0] 5" "file_bit [0x20, 0x02, 0, 0] 9"
  by (simp_all add: file_bit_def)

lemma ftl_checker_exact_witness:
  "\<exists>c'. ftl_checker_main chk_env_ex chk_argv_ex = Inr (0, c')"
proof -
  have read: "read_data_from_file chk_env_ex f = Some [0x20, 0x02, 0, 0]" for f
    by (simp add: read_data_from_file_def chk_env_ex_def)
  have c: "unat (storage_max_lba chk_init_ex) = 3" "8 \<le> length chk_argv_ex"
    "vb_tbl_size chk_init_ex \<noteq> 0" "unat (vb_tbl_size chk_init_ex) \<le> length [0x20, 0x02, 0, 0 :: u8]"
    by (simp_all add: chk_init_ex_def chk_argv_ex_def)
  have "distinct [5, 9 :: u32] \<and> (\<forall>m\<in>set [5, 9 :: u32]. file_bit [0x20, 0x02, 0, 0] (unat m))"
    by (simp add: file_bits_ex)
  then show ?thesis
    using ftl_checker_exact[OF c(2) init_ex c(3) fit_ex read _ c(4) mpas_ex[folded c(1), symmetric]] read
    by (simp split: if_splits)
qed

text \<open>
  With a bitmap size of 0 the program still returns, but what decides is the fresh memory it
  did not clear: it succeeds exactly when no two blocks share an address and no mapped address
  has its bit set in that memory, whatever the bitmap file holds.
\<close>

theorem zero_size_reads_junk:
  assumes "8 \<le> length argv" and "self_check_init e argv = Inr (0, c)"
    and "vb_tbl_size c = 0" and "tables_fit c"
    and "read_data_from_file e (bitmap_file c) \<noteq> None"
    and "read_data_from_file e (valid_cnt_file c) \<noteq> None"
    and "ms = mapped_mpas c (unat (storage_max_lba c))"
    and "junk = malloc_words (junk_vb e) (storage_max_lba c * 3 div 8)"
  shows "if distinct ms \<and> (\<forall>m\<in>set ms. \<not> vb_bit junk (unat m))
         then \<exists>c'. ftl_checker_main e argv = Inr (0, c')
         else ftl_checker_main e argv = Inl (Exit 180)"
proof -
  have vb: "vb_table c = junk" using init_tables(1)[OF assms(2)] assms(3,8) by simp
  obtain b vb vc where b: "build_vbtbl_vctbl_from_mtbl c = Inr b"
    and v: "bs_ctx b = c\<lparr>vb_table := vb, vc_table := vc\<rparr>"
    and ret: "ret_val b = (if unmarked c ms then 0 else - 1)"
    using build_built[OF assms(4)] assms(7) by (auto simp: built_def)
  have "compare_vbtbl_vctbl_from_chktbl (bs_ctx b) e = Inr 0"
    using assms(3,5,6) v by (auto simp: compare_vbtbl_vctbl_from_chktbl_def)
  from main_steps[OF assms(1,2) b this] show ?thesis using ret vb by (simp add: unmarked_def)
qed

text \<open>A correct dump is rejected when the fresh memory happens to hold ones.\<close>

definition chk_env_junk :: chk_env where
  "chk_env_junk = chk_env_ex\<lparr>junk_vb := \<lambda>i. - 1,
     map_maps := \<lambda>f. Some (5 # replicate 11 0xFFFFFFFF)\<rparr>"

definition chk_argv_zero :: "string list" where
  "chk_argv_zero = [''c'', ''m'', ''b'', ''v'', ''12'', ''0'', ''8'', ''10'']"

definition chk_init_zero :: self_chk_ctx where
  "chk_init_zero = \<lparr>vb_table = [- 1], vb_tbl_size = 0, vc_table = replicate 2 0, vc_tbl_size = 8,
     org_map_tbl = 5 # replicate 11 0xFFFFFFFF, storage_max_lba = 12,
     ftl_notify_group_offset = 10, map_file = ''m'', bitmap_file = ''b'', valid_cnt_file = ''v''\<rparr>"

lemma init_zero: "self_check_init chk_env_junk chk_argv_zero = Inr (0, chk_init_zero)"
  by (simp add: self_check_init_def chk_env_junk_def chk_env_ex_def chk_argv_zero_def
      chk_init_zero_def copy_name_def PATH_MAX_def atoi_ex setup_memory_map_file_def
      malloc_words_def memset_words_def Let_def)

lemma mpas_zero: "mapped_mpas chk_init_zero 12 = [5]"
  by (simp add: chk_init_zero_def mapped_mpas_def mapped_def filter_replicate
      INVALID_MPA_def UNMAPPED_MPA_def UNCORRECTABLE_MPA_def)

lemma fit_zero: "tables_fit chk_init_zero"
  using mpas_zero by (simp add: tables_fit_def) (simp add: chk_init_zero_def mpa_group_def)

lemma zero_size_reads_junk_witness:
  "ftl_checker_main chk_env_junk chk_argv_zero = Inl (Exit 180)"
proof -
  have read: "read_data_from_file chk_env_junk f \<noteq> None" for f
    by (simp add: read_data_from_file_def chk_env_junk_def chk_env_ex_def)
  have c: "unat (storage_max_lba chk_init_zero) = 12" "8 \<le> length chk_argv_zero"
    "vb_tbl_size chk_init_zero = 0"
    by (simp_all add: chk_init_zero_def chk_argv_zero_def)
  have junk: "malloc_words (junk_vb chk_env_junk) (storage_max_lba chk_init_zero * 3 div 8) = [- 1]"
    by (simp add: malloc_words_def chk_env_junk_def chk_init_zero_def)
  show ?thesis
    using zero_size_reads_junk[OF c(2) init_zero c(3) fit_zero read read
        mpas_zero[folded c(1), symmetric] junk[symmetric]]
    by (simp add: vb_bit_def)
qed

end
