(* ===== verification/AtomicWrite.thy ===== *)
theory AtomicWrite
  imports Prelude
begin

text \<open>
  The test of atomic writes (\<open>func/atomic_write/atomic_write.c\<close>): 32 contexts keep reads and
  writes of the same 512 KiB in flight; every write stamps each of its blocks with the number of
  the write, and a completed read must show one stamp in all blocks. The contexts form a free
  list linked through the pool. The driver and the device are the environment: they accept or
  refuse a command, complete accepted ones in any order, and fill the buffers of reads; a run
  is a sequence of such events.
\<close>

section \<open>State\<close>

definition IO_DEPTH :: nat where "IO_DEPTH = 32"

definition IO_SIZE :: u32 where "IO_SIZE = 0x80000"

text \<open>The 64-bit words of a buffer.\<close>

abbreviation payload_words :: nat where "payload_words \<equiv> 0x10000"

definition OPCODE_READ :: int where "OPCODE_READ = 1"

definition OPCODE_WRITE :: int where "OPCODE_WRITE = 2"

text \<open>A context is its index in the pool.\<close>

record io_ctx =
  opcode :: int
  ctx_id :: u32
  next_ctx :: "nat option"

text \<open>The places of \<open>run\<close>: the inner loop, the polling after it, the last loop, and after it.\<close>

datatype run_pc = Submitting | Polling | Draining | Stopped

text \<open>
  \<open>outstanding\<close>, \<open>refused\<close> and \<open>writes\<close> belong to the environment: the contexts of accepted and
  of refused commands, and the data of the write commands, oldest first.
\<close>

record atomic_state =
  io_ctx_pool :: "io_ctx list"
  free_io_ctx :: "nat option"
  payloads :: "u64 list list"
  write_timestamp :: u64
  nlb :: u32
  lba_size :: u32
  nr_inflight_io :: u32
  found_error :: u32
  pc :: run_pc
  outstanding :: "nat list"
  refused :: "nat list"
  writes :: "u64 list list"

section \<open>Submission\<close>

text \<open>The word of a buffer that holds the stamp of block \<open>i\<close>.\<close>

definition stamp_idx :: "u32 \<Rightarrow> nat \<Rightarrow> nat" where
  "stamp_idx lba_sz i = unat (drop_bit 3 (of_nat i * lba_sz))"

definition io_submit_read :: "nat \<Rightarrow> atomic_state \<Rightarrow> atomic_state res" where
  "io_submit_read c s =
     bnd (arr_get (io_ctx_pool s) c) (\<lambda>ctx.
     bnd (arr_get (payloads s) (unat (ctx_id ctx))) (\<lambda>payload.
     Inr (s\<lparr>io_ctx_pool := (io_ctx_pool s)[c := ctx\<lparr>opcode := OPCODE_READ\<rparr>]\<rparr>)))"

definition stamp_blocks :: "u32 \<Rightarrow> nat \<Rightarrow> u64 \<Rightarrow> u64 list \<Rightarrow> u64 list res" where
  "stamp_blocks lba_sz n stamp payload =
     for_upto 0 n (\<lambda>i payload. arr_set payload (stamp_idx lba_sz i) stamp) payload"

definition io_submit_write :: "nat \<Rightarrow> atomic_state \<Rightarrow> atomic_state res" where
  "io_submit_write c s =
     bnd (arr_get (io_ctx_pool s) c) (\<lambda>ctx.
     bnd (arr_get (payloads s) (unat (ctx_id ctx))) (\<lambda>payload.
     bnd (stamp_blocks (lba_size s) (unat (nlb s)) (write_timestamp s) payload) (\<lambda>payload.
     Inr (s\<lparr>io_ctx_pool := (io_ctx_pool s)[c := ctx\<lparr>opcode := OPCODE_WRITE\<rparr>],
            payloads := (payloads s)[unat (ctx_id ctx) := payload],
            write_timestamp := write_timestamp s + 1, writes := writes s @ [payload]\<rparr>))))"

text \<open>
  One iteration of the inner loop of \<open>run\<close>, with the value of \<open>rand()\<close> and whether the driver
  accepts the command; the result of the submission is not looked at.
\<close>

definition run_submit :: "nat \<Rightarrow> int \<Rightarrow> bool \<Rightarrow> atomic_state \<Rightarrow> atomic_state res" where
  "run_submit c rnd accepted s =
     bnd (arr_get (io_ctx_pool s) c) (\<lambda>ctx.
     bnd (if rnd mod 10 < 8 then io_submit_read c (s\<lparr>free_io_ctx := next_ctx ctx\<rparr>)
          else io_submit_write c (s\<lparr>free_io_ctx := next_ctx ctx\<rparr>)) (\<lambda>s.
     Inr ((if accepted then s\<lparr>outstanding := outstanding s @ [c]\<rparr>
           else s\<lparr>refused := refused s @ [c]\<rparr>)\<lparr>nr_inflight_io := nr_inflight_io s + 1\<rparr>)))"

section \<open>Completion\<close>

text \<open>The loop over the blocks \<open>i\<close> to \<open>i + k - 1\<close>: whether one has another stamp.\<close>

fun stamps_differ :: "u32 \<Rightarrow> u64 list \<Rightarrow> u64 \<Rightarrow> nat \<Rightarrow> nat \<Rightarrow> bool res" where
  "stamps_differ lba_sz payload stamp i 0 = Inr False"
| "stamps_differ lba_sz payload stamp i (Suc k) =
     bnd (arr_get payload (stamp_idx lba_sz i)) (\<lambda>w.
     if w \<noteq> stamp then Inr True else stamps_differ lba_sz payload stamp (Suc i) k)"

definition release_ctx :: "nat \<Rightarrow> atomic_state \<Rightarrow> atomic_state res" where
  "release_ctx c s =
     bnd (arr_get (io_ctx_pool s) c) (\<lambda>ctx.
     Inr (s\<lparr>io_ctx_pool := (io_ctx_pool s)[c := ctx\<lparr>next_ctx := free_io_ctx s\<rparr>],
            free_io_ctx := Some c, nr_inflight_io := nr_inflight_io s - 1\<rparr>))"

definition io_cb :: "nat \<Rightarrow> bool \<Rightarrow> atomic_state \<Rightarrow> atomic_state res" where
  "io_cb c is_error s =
     (if is_error then release_ctx c (s\<lparr>found_error := 1\<rparr>)
      else if found_error s \<noteq> 0 then release_ctx c s
      else
        bnd (arr_get (io_ctx_pool s) c) (\<lambda>ctx.
        if opcode ctx = OPCODE_READ then
          bnd (arr_get (payloads s) (unat (ctx_id ctx))) (\<lambda>payload.
          bnd (arr_get payload 0) (\<lambda>read_timestamp.
          bnd (stamps_differ (lba_size s) payload read_timestamp 1 (unat (nlb s) - 1)) (\<lambda>d.
          release_ctx c (if d then s\<lparr>found_error := 1\<rparr> else s))))
        else release_ctx c s))"

text \<open>The device fills the buffer of a read and the driver calls back.\<close>

definition fill_payload :: "nat \<Rightarrow> u64 list \<Rightarrow> atomic_state \<Rightarrow> atomic_state res" where
  "fill_payload c content s =
     bnd (arr_get (io_ctx_pool s) c) (\<lambda>ctx.
     if opcode ctx = OPCODE_READ
     then bnd (arr_set (payloads s) (unat (ctx_id ctx)) content) (\<lambda>ps. Inr (s\<lparr>payloads := ps\<rparr>))
     else Inr s)"

section \<open>The run\<close>

text \<open>
  What happens next: the inner loop submits one command; it ends because no context is free;
  a completion arrives while the driver is polled; polling ends, and the run goes on, or the
  time is up or an error was found; the last loop finds nothing in flight.
\<close>

datatype run_event =
    Submit int bool
  | Full
  | Complete nat bool "u64 list"
  | Again
  | Leave bool
  | Finish

definition run_event_step :: "run_event \<Rightarrow> atomic_state \<Rightarrow> atomic_state res option" where
  "run_event_step e s =
     (case e of
        Submit rnd accepted \<Rightarrow>
          (case free_io_ctx s of
             None \<Rightarrow> None
           | Some c \<Rightarrow> if pc s = Submitting then Some (run_submit c rnd accepted s) else None)
      | Full \<Rightarrow>
          if pc s = Submitting \<and> free_io_ctx s = None then Some (Inr (s\<lparr>pc := Polling\<rparr>)) else None
      | Complete c is_error content \<Rightarrow>
          if (pc s = Polling \<or> pc s = Draining) \<and> c \<in> set (outstanding s)
             \<and> length content = payload_words
          then Some (bnd (fill_payload c content (s\<lparr>outstanding := remove1 c (outstanding s)\<rparr>))
                       (io_cb c is_error))
          else None
      | Again \<Rightarrow>
          if pc s = Polling \<and> found_error s = 0 then Some (Inr (s\<lparr>pc := Submitting\<rparr>)) else None
      | Leave timeout \<Rightarrow>
          if pc s = Polling \<and> (found_error s \<noteq> 0 \<or> timeout) then Some (Inr (s\<lparr>pc := Draining\<rparr>))
          else None
      | Finish \<Rightarrow>
          if pc s = Draining \<and> nr_inflight_io s = 0 then Some (Inr (s\<lparr>pc := Stopped\<rparr>)) else None)"

fun run_events :: "run_event list \<Rightarrow> atomic_state \<Rightarrow> atomic_state res option" where
  "run_events [] s = Some (Inr s)"
| "run_events (e # es) s = obnd (run_event_step e s) (run_events es)"

text \<open>
  The start of \<open>run\<close> on an active namespace. \<open>junk\<close> is the content of the allocated buffers;
  a buffer that cannot be allocated is a null pointer, which is empty.
\<close>

definition init_ctx :: "(nat \<Rightarrow> u64 list) \<Rightarrow> nat \<Rightarrow> atomic_state \<Rightarrow> atomic_state res" where
  "init_ctx junk i s =
     bnd (arr_set (payloads s) i (junk i)) (\<lambda>ps.
     bnd (arr_get (io_ctx_pool s) i) (\<lambda>ctx.
     Inr (s\<lparr>payloads := ps,
            io_ctx_pool := (io_ctx_pool s)[i := ctx\<lparr>ctx_id := of_nat i, next_ctx := free_io_ctx s\<rparr>],
            free_io_ctx := Some i\<rparr>)))"

definition run_start :: "u32 \<Rightarrow> (nat \<Rightarrow> u64 list) \<Rightarrow> atomic_state res" where
  "run_start sector_size junk =
     (if sector_size = 0 then Inl Fault
      else for_upto 0 IO_DEPTH (init_ctx junk)
        \<lparr>io_ctx_pool = replicate IO_DEPTH \<lparr>opcode = 0, ctx_id = 0, next_ctx = None\<rparr>,
         free_io_ctx = None, payloads = replicate IO_DEPTH [], write_timestamp = 0,
         nlb = IO_SIZE div sector_size, lba_size = sector_size, nr_inflight_io = 0,
         found_error = 0, pc = Submitting, outstanding = [], refused = [], writes = []\<rparr>)"

text \<open>The whole program; the events must lead to the end of \<open>run\<close>. On an inactive namespace \<open>run\<close> returns at once.\<close>

definition atomic_main :: "bool \<Rightarrow> u32 \<Rightarrow> (nat \<Rightarrow> u64 list) \<Rightarrow> run_event list \<Rightarrow> u32 res option" where
  "atomic_main active sector_size junk es =
     (if \<not> active then Some (Inr 0)
      else obnd (Some (run_start sector_size junk)) (\<lambda>s.
           obnd (run_events es s) (\<lambda>s.
           if pc s = Stopped then Some (Inr (found_error s)) else None)))"

section \<open>Invariants\<close>

text \<open>The contexts from \<open>p\<close> along the links.\<close>

fun chain :: "io_ctx list \<Rightarrow> nat option \<Rightarrow> nat list \<Rightarrow> bool" where
  "chain pool p [] = (p = None)"
| "chain pool p (c # cs) = (p = Some c \<and> c < length pool \<and> chain pool (next_ctx (pool ! c)) cs)"

lemma chain_update [simp]:
  "c \<notin> set cs \<Longrightarrow> chain (pool[c := x]) p cs = chain pool p cs"
  by (induction cs arbitrary: p) auto

lemma chain_Some:
  assumes "chain pool (Some c) cs"
  obtains cs' where "cs = c # cs'" and "c < length pool" and "chain pool (next_ctx (pool ! c)) cs'"
  using assms by (cases cs) auto

lemma chain_None [simp]: "chain pool None cs \<longleftrightarrow> cs = []"
  by (cases cs) auto

text \<open>
  \<open>buffers_ok\<close>: the pool and the buffers have their sizes and every stamp lies in its buffer;
  \<open>contexts_ok\<close>: each context is free, accepted or refused, exactly one of the three, and the
  counter counts the last two; \<open>stamps_ok\<close>: every write carries its number in every block.
\<close>

definition buffers_ok :: "atomic_state \<Rightarrow> bool" where
  "buffers_ok s =
     (length (io_ctx_pool s) = IO_DEPTH \<and> length (payloads s) = IO_DEPTH
      \<and> (\<forall>i<IO_DEPTH. unat (ctx_id (io_ctx_pool s ! i)) = i)
      \<and> (\<forall>i<IO_DEPTH. length (payloads s ! i) = payload_words)
      \<and> (\<forall>i<unat (nlb s). stamp_idx (lba_size s) i < payload_words))"

definition contexts_ok :: "atomic_state \<Rightarrow> bool" where
  "contexts_ok s =
     (\<exists>free. chain (io_ctx_pool s) (free_io_ctx s) free
        \<and> distinct (free @ outstanding s @ refused s)
        \<and> set (free @ outstanding s @ refused s) = {..<IO_DEPTH}
        \<and> unat (nr_inflight_io s) = length (outstanding s @ refused s))"

definition stamps_ok :: "atomic_state \<Rightarrow> bool" where
  "stamps_ok s =
     (write_timestamp s = of_nat (length (writes s))
      \<and> (\<forall>k<length (writes s). \<forall>j<unat (nlb s).
            writes s ! k ! stamp_idx (lba_size s) j = of_nat k))"

definition atomic_inv :: "atomic_state \<Rightarrow> bool" where
  "atomic_inv s = (buffers_ok s \<and> contexts_ok s \<and> stamps_ok s \<and> found_error s \<in> {0, 1})"

lemma stamp_blocks_ok:
  assumes "\<And>i. i < n \<Longrightarrow> stamp_idx z i < length payload"
  shows "\<exists>p. stamp_blocks z n stamp payload = Inr p \<and> length p = length payload
           \<and> (\<forall>j<n. p ! stamp_idx z j = stamp)"
  unfolding stamp_blocks_def
  using for_upto_rule[where i = 0 and k = n and s = payload
      and P = "\<lambda>i p. length p = length payload \<and> (\<forall>j<i. p ! stamp_idx z j = stamp)"
      and f = "\<lambda>i payload. arr_set payload (stamp_idx z i) stamp"] assms
  by (auto simp: less_Suc_eq nth_list_update)

lemma stamps_differ_exact:
  assumes "\<And>j. i \<le> j \<Longrightarrow> j < i + k \<Longrightarrow> stamp_idx z j < length payload"
  shows "stamps_differ z payload w i k =
    Inr (\<exists>j. i \<le> j \<and> j < i + k \<and> payload ! stamp_idx z j \<noteq> w)"
  using assms
proof (induction k arbitrary: i)
  case 0
  then show ?case by simp
next
  case (Suc k)
  have iff: "(i \<le> j \<and> j < i + Suc k) = (j = i \<or> Suc i \<le> j \<and> j < Suc i + k)" for j by auto
  have ex: "(\<exists>j. i \<le> j \<and> j < i + Suc k \<and> Q j) = (Q i \<or> (\<exists>j. Suc i \<le> j \<and> j < Suc i + k \<and> Q j))"
    for Q :: "nat \<Rightarrow> bool" by (simp only: conj_assoc[symmetric] iff) blast
  have gen: "(if A then Inr True else Inr B) = (Inr (A \<or> B) :: bool res)" for A B by simp
  have IH: "stamps_differ z payload w (Suc i) k =
    Inr (\<exists>j. Suc i \<le> j \<and> j < Suc i + k \<and> payload ! stamp_idx z j \<noteq> w)"
    by (rule Suc.IH) (use Suc.prems in simp)
  have "stamps_differ z payload w i (Suc k) =
    (if payload ! stamp_idx z i \<noteq> w then Inr True else stamps_differ z payload w (Suc i) k)"
    using Suc.prems[of i] by simp
  then show ?case by (simp only: IH ex gen)
qed

lemma stamp_idx_0 [simp]: "stamp_idx z 0 = 0"
  by (simp add: stamp_idx_def)

text \<open>Stamps stay inside the buffers because the blocks fill at most the size of the request.\<close>

lemma stamp_idx_bound:
  assumes "z \<noteq> 0" and "i < unat (IO_SIZE div z)"
  shows "stamp_idx z i < payload_words"
proof -
  have "i < unat IO_SIZE div unat z" using assms(2) by (simp add: unat_div)
  then have "i * unat z < unat IO_SIZE div unat z * unat z"
    using assms(1) by (simp add: unat_gt_0)
  also have "\<dots> \<le> unat IO_SIZE" by simp
  finally have le: "i * unat z < 0x80000" by (simp add: IO_SIZE_def)
  moreover have "i < 0x80000" using le assms(1) by (cases "unat z") (simp_all add: unat_eq_0)
  ultimately have "unat (of_nat i * z) = i * unat z"
    by (simp add: unat_word_ariths unat_of_nat)
  then have "stamp_idx z i = i * unat z div 8"
    unfolding stamp_idx_def unat_drop_bit_eq by (simp add: drop_bit_eq_div)
  then show ?thesis using le by (simp add: less_mult_imp_div_less)
qed

section \<open>Every event keeps the invariants\<close>

lemma contexts_okE:
  assumes "contexts_ok s"
  obtains fr where "chain (io_ctx_pool s) (free_io_ctx s) fr"
    and "distinct (fr @ outstanding s @ refused s)"
    and "set (fr @ outstanding s @ refused s) = {..<IO_DEPTH}"
    and "unat (nr_inflight_io s) = length (outstanding s @ refused s)"
  using assms by (auto simp: contexts_ok_def)

lemma contexts_okI:
  assumes "chain (io_ctx_pool s) (free_io_ctx s) fr"
    and "distinct (fr @ outstanding s @ refused s)"
    and "set (fr @ outstanding s @ refused s) = {..<IO_DEPTH}"
    and "unat (nr_inflight_io s) = length (outstanding s @ refused s)"
  shows "contexts_ok s"
  using assms unfolding contexts_ok_def by blast

lemma partition_length:
  assumes "distinct (a @ b)" and "set (a @ b) = {..<IO_DEPTH}"
  shows "length a + length b = 32"
  using distinct_card[OF assms(1)] assms(2) by (simp add: IO_DEPTH_def)

lemma unat_inc: "unat n < 32 \<Longrightarrow> unat (n + 1) = unat n + 1" for n :: u32
  by (simp add: unat_word_ariths)

lemma unat_dec: "0 < unat n \<Longrightarrow> unat (n - 1) = unat n - 1" for n :: u32
  by (metis One_nat_def Suc_le_eq unat_1 unat_minus_one unat_sub word_le_nat_alt)

text \<open>The context that was free goes to the driver, whatever the driver answers.\<close>

lemma submitted_contexts:
  assumes "contexts_ok s" and "free_io_ctx s = Some c" and "length (io_ctx_pool s) = IO_DEPTH"
    and "io_ctx_pool s' = (io_ctx_pool s)[c := ctx]" and "free_io_ctx s' = next_ctx (io_ctx_pool s ! c)"
    and "outstanding s' = outstanding s @ (if accepted then [c] else [])"
    and "refused s' = refused s @ (if accepted then [] else [c])"
    and "nr_inflight_io s' = nr_inflight_io s + 1"
  shows "contexts_ok s'" and "c < IO_DEPTH"
proof -
  obtain fs where fs: "chain (io_ctx_pool s) (Some c) fs"
    "distinct (fs @ outstanding s @ refused s)"
    "set (fs @ outstanding s @ refused s) = {..<IO_DEPTH}"
    "unat (nr_inflight_io s) = length (outstanding s @ refused s)"
    using assms(1,2) by (auto elim: contexts_okE)
  then obtain fr where fr: "fs = c # fr" "c < length (io_ctx_pool s)"
    "chain (io_ctx_pool s) (next_ctx (io_ctx_pool s ! c)) fr"
    by (auto elim: chain_Some)
  then show "c < IO_DEPTH" using assms(3) by simp
  have "unat (nr_inflight_io s) < 32"
    using partition_length[OF fs(2,3)] fs(4) fr(1) by simp
  then have "unat (nr_inflight_io s') = length (outstanding s' @ refused s')"
    using fs(4) assms(6-8) by (simp add: unat_inc)
  then show "contexts_ok s'"
    using fs(2,3) fr assms(4-7) by (intro contexts_okI[where fr = fr]) auto
qed

lemma run_submit_ok:
  assumes inv: "atomic_inv s" and free: "free_io_ctx s = Some c"
  shows "\<exists>s'. run_submit c rnd accepted s = Inr s' \<and> atomic_inv s' \<and> found_error s' = found_error s
    \<and> refused s' = refused s @ (if accepted then [] else [c]) \<and> pc s' = pc s
    \<and> outstanding s' = outstanding s @ (if accepted then [c] else [])
    \<and> opcode (io_ctx_pool s' ! c) = (if rnd mod 10 < 8 then OPCODE_READ else OPCODE_WRITE)
    \<and> length (writes s') = length (writes s) + (if rnd mod 10 < 8 then 0 else 1)
    \<and> nlb s' = nlb s \<and> lba_size s' = lba_size s"
proof -
  let ?ctx = "io_ctx_pool s ! c"
  have buf: "buffers_ok s" and con: "contexts_ok s" and st: "stamps_ok s"
    and fe: "found_error s \<in> {0, 1}" using inv by (auto simp: atomic_inv_def)
  have c: "c < IO_DEPTH"
    using con free buf by (fastforce simp: buffers_ok_def elim: contexts_okE chain_Some)
  obtain p where p: "stamp_blocks (lba_size s) (unat (nlb s)) (write_timestamp s) (payloads s ! c) = Inr p"
    "length p = payload_words" "\<forall>j<unat (nlb s). p ! stamp_idx (lba_size s) j = write_timestamp s"
    using stamp_blocks_ok[where n = "unat (nlb s)" and z = "lba_size s" and payload = "payloads s ! c"
        and stamp = "write_timestamp s"] buf c
    by (auto simp: buffers_ok_def)
  let ?w = "\<not> rnd mod 10 < 8"
  let ?s = "s\<lparr>io_ctx_pool := (io_ctx_pool s)[c := ?ctx\<lparr>opcode := if ?w then OPCODE_WRITE else OPCODE_READ\<rparr>],
      free_io_ctx := next_ctx ?ctx,
      payloads := if ?w then (payloads s)[c := p] else payloads s,
      write_timestamp := if ?w then write_timestamp s + 1 else write_timestamp s,
      nr_inflight_io := nr_inflight_io s + 1,
      outstanding := outstanding s @ (if accepted then [c] else []),
      refused := refused s @ (if accepted then [] else [c]),
      writes := if ?w then writes s @ [p] else writes s\<rparr>"
  have "run_submit c rnd accepted s = Inr ?s"
    using buf c p by (auto simp: run_submit_def io_submit_read_def io_submit_write_def buffers_ok_def)
  moreover have "contexts_ok ?s"
    by (rule submitted_contexts(1)[OF con free]) (use buf in \<open>auto simp: buffers_ok_def\<close>)
  moreover have "buffers_ok ?s"
    using buf p c by (auto simp: buffers_ok_def nth_list_update)
  moreover have "stamps_ok ?s"
    using st p by (auto simp: stamps_ok_def nth_append less_Suc_eq)
  ultimately show ?thesis
    using fe buf c by (intro exI[of _ ?s]) (simp add: atomic_inv_def buffers_ok_def)
qed

text \<open>A completion returns its context to the head of the free list.\<close>

lemma released_contexts:
  assumes "contexts_ok s" and "c \<in> set (outstanding s)" and "length (io_ctx_pool s) = IO_DEPTH"
    and "io_ctx_pool s' = (io_ctx_pool s)[c := ctx]" and "next_ctx ctx = free_io_ctx s"
    and "free_io_ctx s' = Some c"
    and "outstanding s' = remove1 c (outstanding s)" and "refused s' = refused s"
    and "nr_inflight_io s' = nr_inflight_io s - 1"
  shows "contexts_ok s'" and "c < IO_DEPTH"
proof -
  obtain fs where fs: "chain (io_ctx_pool s) (free_io_ctx s) fs"
    "distinct (fs @ outstanding s @ refused s)"
    "set (fs @ outstanding s @ refused s) = {..<IO_DEPTH}"
    "unat (nr_inflight_io s) = length (outstanding s @ refused s)"
    using assms(1) by (auto elim: contexts_okE)
  show c: "c < IO_DEPTH" using fs(3) assms(2) by auto
  have pos: "1 \<le> length (outstanding s)" using assms(2) by (cases "outstanding s") auto
  have "0 < unat (nr_inflight_io s)" unfolding fs(4) length_append using pos by linarith
  with pos have "unat (nr_inflight_io s') = length (outstanding s' @ refused s')"
    using fs(4) assms(2,7-9) by (simp add: unat_dec length_remove1)
  moreover have "c \<notin> set fs" using fs(2) assms(2) by auto
  then have "chain (io_ctx_pool s') (free_io_ctx s') (c # fs)"
    using fs(1) assms(3-6) c by simp
  moreover have "distinct ((c # fs) @ outstanding s' @ refused s')"
    using fs(2) assms(2,7,8) by (auto simp: distinct_remove1 dest: notin_set_remove1)
  moreover have "set ((c # fs) @ outstanding s' @ refused s') = {..<IO_DEPTH}"
    using fs(2,3) assms(2,7,8) by auto
  ultimately show "contexts_ok s'" by (intro contexts_okI[where fr = "c # fs"])
qed

text \<open>
  Specification, which the comparison in \<open>io_cb\<close> is proved against: a completion that the test must
  report is an error, or a read with two different stamps.
\<close>

definition completion_bad :: "atomic_state \<Rightarrow> nat \<Rightarrow> bool \<Rightarrow> u64 list \<Rightarrow> bool" where
  "completion_bad s c is_error content =
     (is_error \<or> opcode (io_ctx_pool s ! c) = OPCODE_READ
        \<and> (\<exists>j<unat (nlb s). content ! stamp_idx (lba_size s) j \<noteq> content ! 0))"

lemma complete_ok:
  assumes inv: "atomic_inv s" and c: "c \<in> set (outstanding s)" and len: "length content = payload_words"
  shows "\<exists>s'. bnd (fill_payload c content (s\<lparr>outstanding := remove1 c (outstanding s)\<rparr>))
      (io_cb c is_error) = Inr s' \<and> atomic_inv s'
    \<and> found_error s' = (if completion_bad s c is_error content then 1 else found_error s)
    \<and> refused s' = refused s \<and> pc s' = pc s \<and> outstanding s' = remove1 c (outstanding s)"
proof -
  let ?ctx = "io_ctx_pool s ! c"
  let ?r = "opcode ?ctx = OPCODE_READ"
  have buf: "buffers_ok s" and con: "contexts_ok s" and st: "stamps_ok s"
    and fe: "found_error s \<in> {0, 1}" using inv by (auto simp: atomic_inv_def)
  have c32: "c < IO_DEPTH" using con c unfolding contexts_ok_def by auto
  let ?s = "s\<lparr>io_ctx_pool := (io_ctx_pool s)[c := ?ctx\<lparr>next_ctx := free_io_ctx s\<rparr>],
      free_io_ctx := Some c,
      payloads := if ?r then (payloads s)[c := content] else payloads s,
      nr_inflight_io := nr_inflight_io s - 1,
      found_error := if completion_bad s c is_error content then 1 else found_error s,
      outstanding := remove1 c (outstanding s)\<rparr>"
  have dif: "stamps_differ (lba_size s) content (content ! 0) 1 (unat (nlb s) - 1)
    = Inr (\<exists>j<unat (nlb s). content ! stamp_idx (lba_size s) j \<noteq> content ! 0)"
  proof -
    have "(\<exists>j. 1 \<le> j \<and> j < 1 + (n - 1) \<and> Q j) = (\<exists>j<n. Q j)" if "\<not> Q 0" for Q and n :: nat
    proof
      assume "\<exists>j<n. Q j"
      then obtain j where "j < n" "Q j" by blast
      moreover then have "j \<noteq> 0" using that by metis
      ultimately show "\<exists>j. 1 \<le> j \<and> j < 1 + (n - 1) \<and> Q j" by (intro exI[of _ j]) simp
    next
      assume "\<exists>j. 1 \<le> j \<and> j < 1 + (n - 1) \<and> Q j"
      then obtain j where "1 \<le> j" "j < 1 + (n - 1)" "Q j" by blast
      then show "\<exists>j<n. Q j" by (intro exI[of _ j]) simp
    qed
    from this[of "\<lambda>j. content ! stamp_idx (lba_size s) j \<noteq> content ! 0" "unat (nlb s)"]
    have "(\<exists>j. 1 \<le> j \<and> j < 1 + (unat (nlb s) - 1) \<and> content ! stamp_idx (lba_size s) j \<noteq> content ! 0)
      = (\<exists>j<unat (nlb s). content ! stamp_idx (lba_size s) j \<noteq> content ! 0)"
      by simp
    then show ?thesis
      using stamps_differ_exact[of 1 "unat (nlb s) - 1" "lba_size s" content "content ! 0"] buf len
      by (auto simp: buffers_ok_def)
  qed
  let ?f = "s\<lparr>outstanding := remove1 c (outstanding s),
      payloads := if ?r then (payloads s)[c := content] else payloads s\<rparr>"
  have "fill_payload c content (s\<lparr>outstanding := remove1 c (outstanding s)\<rparr>) = Inr ?f"
    using buf c32 by (simp add: fill_payload_def buffers_ok_def)
  moreover have "io_cb c is_error ?f = Inr ?s"
    using buf c32 len dif fe
    by (auto simp: io_cb_def release_ctx_def buffers_ok_def completion_bad_def)
  ultimately have "bnd (fill_payload c content (s\<lparr>outstanding := remove1 c (outstanding s)\<rparr>))
      (io_cb c is_error) = Inr ?s" by simp
  moreover have "contexts_ok ?s"
    by (rule released_contexts(1)[OF con c]) (use buf in \<open>auto simp: buffers_ok_def\<close>)
  moreover have "buffers_ok ?s"
    using buf c32 len by (auto simp: buffers_ok_def nth_list_update)
  moreover have "stamps_ok ?s" using st by (simp add: stamps_ok_def)
  ultimately show ?thesis using fe by (intro exI[of _ ?s]) (simp add: atomic_inv_def)
qed

text \<open>What an event must do to the error flag and to the refused commands.\<close>

definition event_bad :: "run_event \<Rightarrow> atomic_state \<Rightarrow> bool" where
  "event_bad e s = (case e of Complete c is_error content \<Rightarrow> completion_bad s c is_error content
                    | _ \<Rightarrow> False)"

definition event_refused :: "run_event \<Rightarrow> bool" where
  "event_refused e = (case e of Submit rnd accepted \<Rightarrow> \<not> accepted | _ \<Rightarrow> False)"

lemma event_bad_iff:
  "event_bad e s \<longleftrightarrow>
     (\<exists>c is_error content. e = Complete c is_error content \<and> completion_bad s c is_error content)"
  by (cases e) (auto simp: event_bad_def)

lemma atomic_inv_pc [simp]: "atomic_inv (s\<lparr>pc := p\<rparr>) = atomic_inv s"
  by (simp add: atomic_inv_def buffers_ok_def contexts_ok_def stamps_ok_def)

lemma run_event_ok:
  assumes "atomic_inv s" and "run_event_step e s = Some r"
  shows "\<exists>s'. r = Inr s' \<and> atomic_inv s'
    \<and> found_error s' = (if event_bad e s then 1 else found_error s)
    \<and> (refused s' = [] \<longleftrightarrow> refused s = [] \<and> \<not> event_refused e)
    \<and> (pc s' = Stopped \<longrightarrow> pc s \<noteq> Stopped \<and> e = Finish \<and> nr_inflight_io s = 0 \<and> refused s' = refused s)"
proof (cases e)
  case (Submit rnd accepted)
  then obtain c where "free_io_ctx s = Some c" "r = run_submit c rnd accepted s" "pc s = Submitting"
    using assms(2) by (auto simp: run_event_step_def split: option.splits if_splits)
  then show ?thesis
    using run_submit_ok[OF assms(1), of c rnd accepted] Submit
    by (auto simp: event_bad_def event_refused_def)
next
  case (Complete c is_error content)
  then have "pc s = Polling \<or> pc s = Draining" "c \<in> set (outstanding s)"
    "length content = payload_words"
    "r = bnd (fill_payload c content (s\<lparr>outstanding := remove1 c (outstanding s)\<rparr>)) (io_cb c is_error)"
    using assms(2) by (auto simp: run_event_step_def split: if_splits)
  then show ?thesis
    using complete_ok[OF assms(1), of c content is_error] Complete
    by (auto simp: event_bad_def event_refused_def)
qed (use assms in \<open>auto simp: run_event_step_def event_bad_def event_refused_def split: if_splits\<close>)

text \<open>No event is possible after the end, and the end is reached only with nothing in flight.\<close>

lemma run_event_Stopped: "pc s = Stopped \<Longrightarrow> run_event_step e s = None"
  by (cases e) (auto simp: run_event_step_def split: option.splits)

text \<open>The first \<open>n\<close> contexts are initialised and linked, the last one first.\<close>

definition init_upto :: "u32 \<Rightarrow> nat \<Rightarrow> atomic_state \<Rightarrow> bool" where
  "init_upto z n s =
     (length (io_ctx_pool s) = IO_DEPTH \<and> length (payloads s) = IO_DEPTH
      \<and> (\<forall>i<n. unat (ctx_id (io_ctx_pool s ! i)) = i \<and> length (payloads s ! i) = payload_words)
      \<and> (\<exists>fr. chain (io_ctx_pool s) (free_io_ctx s) fr \<and> distinct fr \<and> set fr = {..<n})
      \<and> write_timestamp s = 0 \<and> nlb s = IO_SIZE div z \<and> lba_size s = z \<and> nr_inflight_io s = 0
      \<and> found_error s = 0 \<and> pc s = Submitting \<and> outstanding s = [] \<and> refused s = []
      \<and> writes s = [])"

lemma submit_event:
  assumes "atomic_inv s" and "pc s = Submitting" and "length (outstanding s @ refused s) < IO_DEPTH"
  shows "\<exists>c s'. run_event_step (Submit rnd accepted) s = Some (Inr s') \<and> atomic_inv s'
    \<and> pc s' = Submitting \<and> length (outstanding s' @ refused s') = Suc (length (outstanding s @ refused s))
    \<and> outstanding s' = outstanding s @ (if accepted then [c] else [])
    \<and> refused s' = refused s @ (if accepted then [] else [c])
    \<and> opcode (io_ctx_pool s' ! c) = (if rnd mod 10 < 8 then OPCODE_READ else OPCODE_WRITE)
    \<and> length (writes s') = length (writes s) + (if rnd mod 10 < 8 then 0 else 1)
    \<and> nlb s' = nlb s \<and> lba_size s' = lba_size s"
proof -
  obtain fr where fr: "chain (io_ctx_pool s) (free_io_ctx s) fr"
    "distinct (fr @ outstanding s @ refused s)" "set (fr @ outstanding s @ refused s) = {..<IO_DEPTH}"
    using assms(1) contexts_okE unfolding atomic_inv_def by blast
  then have "fr \<noteq> []" using partition_length[OF fr(2,3)] assms(3) by (auto simp: IO_DEPTH_def)
  then obtain c where "free_io_ctx s = Some c" using fr(1) by (cases fr) auto
  then show ?thesis
    using run_submit_ok[OF assms(1), of c rnd accepted] assms(2)
    by (intro exI[of _ c]) (auto simp: run_event_step_def)
qed

lemma init_ctx_ok:
  assumes "init_upto z n s" and "n < IO_DEPTH" and "length (junk n) = payload_words"
  shows "\<exists>s'. init_ctx junk n s = Inr s' \<and> init_upto z (Suc n) s'"
proof -
  obtain fr where fr: "chain (io_ctx_pool s) (free_io_ctx s) fr" "distinct fr" "set fr = {..<n}"
    using assms(1) by (auto simp: init_upto_def)
  let ?pool = "(io_ctx_pool s)[n := (io_ctx_pool s ! n)\<lparr>ctx_id := of_nat n, next_ctx := free_io_ctx s\<rparr>]"
  let ?s = "s\<lparr>payloads := (payloads s)[n := junk n], io_ctx_pool := ?pool, free_io_ctx := Some n\<rparr>"
  have "length (io_ctx_pool s) = IO_DEPTH" using assms(1) by (simp add: init_upto_def)
  moreover have "n \<notin> set fr" using fr(3) by simp
  ultimately have "chain ?pool (Some n) (n # fr) \<and> distinct (n # fr) \<and> set (n # fr) = {..<Suc n}"
    using fr assms(2) by (simp add: lessThan_Suc)
  then have "\<exists>fr. chain ?pool (Some n) fr \<and> distinct fr \<and> set fr = {..<Suc n}" by blast
  moreover have "unat (of_nat n :: u32) = n" using assms(2) by (simp add: IO_DEPTH_def unat_of_nat)
  then have "\<forall>i<Suc n. unat (ctx_id (?pool ! i)) = i \<and> length ((payloads s)[n := junk n] ! i) = payload_words"
  proof (intro allI impI)
    fix i assume u: "unat (of_nat n :: u32) = n" and "i < Suc n"
    have len: "length (io_ctx_pool s) = IO_DEPTH" "length (payloads s) = IO_DEPTH"
      and old: "i < n \<Longrightarrow> unat (ctx_id (io_ctx_pool s ! i)) = i \<and> length (payloads s ! i) = payload_words"
      using assms(1) by (simp_all add: init_upto_def)
    show "unat (ctx_id (?pool ! i)) = i \<and> length ((payloads s)[n := junk n] ! i) = payload_words"
    proof (cases "i = n")
      case True
      then show ?thesis using u len assms(2,3) by simp
    next
      case False
      then show ?thesis using old \<open>i < Suc n\<close> by simp
    qed
  qed
  ultimately have "init_upto z (Suc n) ?s"
    using assms(1) by (simp add: init_upto_def)
  moreover have "init_ctx junk n s = Inr ?s"
    using assms by (simp add: init_ctx_def init_upto_def)
  ultimately show ?thesis by blast
qed

lemma run_start_ok:
  assumes "z \<noteq> 0" and "\<And>i. i < IO_DEPTH \<Longrightarrow> length (junk i) = payload_words"
  shows "\<exists>s. run_start z junk = Inr s \<and> atomic_inv s \<and> found_error s = 0 \<and> refused s = []
           \<and> pc s = Submitting \<and> outstanding s = [] \<and> writes s = []
           \<and> nlb s = IO_SIZE div z \<and> lba_size s = z"
proof -
  let ?s0 = "\<lparr>io_ctx_pool = replicate IO_DEPTH \<lparr>opcode = 0, ctx_id = 0, next_ctx = None\<rparr>,
         free_io_ctx = None, payloads = replicate IO_DEPTH [], write_timestamp = 0,
         nlb = IO_SIZE div z, lba_size = z, nr_inflight_io = 0,
         found_error = 0, pc = Submitting, outstanding = [], refused = [], writes = []\<rparr>"
  have "init_upto z 0 ?s0" by (simp add: init_upto_def)
  then have "\<exists>s. for_upto 0 IO_DEPTH (init_ctx junk) ?s0 = Inr s \<and> init_upto z (0 + IO_DEPTH) s"
    by (rule for_upto_rule[where P = "init_upto z"]) (use init_ctx_ok assms(2) in auto)
  then obtain s where s: "run_start z junk = Inr s" "init_upto z IO_DEPTH s"
    using assms(1) by (auto simp: run_start_def)
  have "\<forall>i<unat (nlb s). stamp_idx (lba_size s) i < payload_words"
    using stamp_idx_bound[OF assms(1)] s(2) by (simp add: init_upto_def)
  then have "atomic_inv s"
    using s(2) by (auto simp: init_upto_def atomic_inv_def buffers_ok_def contexts_ok_def stamps_ok_def)
  with s show ?thesis by (auto simp: init_upto_def)
qed

text \<open>Some completion of the run was one to report, in the state it arrived in.\<close>

definition run_bad :: "run_event list \<Rightarrow> atomic_state \<Rightarrow> bool" where
  "run_bad es s0 =
     (\<exists>es1 c is_error content es2 s.
         es = es1 @ Complete c is_error content # es2
         \<and> run_events es1 s0 = Some (Inr s) \<and> completion_bad s c is_error content)"

lemma run_bad_Nil [simp]: "\<not> run_bad [] s"
  by (simp add: run_bad_def)

lemma run_bad_Cons:
  assumes "run_event_step e s = Some (Inr s1)"
  shows "run_bad (e # es) s \<longleftrightarrow> event_bad e s \<or> run_bad es s1"
proof
  assume "run_bad (e # es) s"
  then obtain es1 c is_error content es2 s' where *: "e # es = es1 @ Complete c is_error content # es2"
    "run_events es1 s = Some (Inr s')" "completion_bad s' c is_error content"
    unfolding run_bad_def by blast
  show "event_bad e s \<or> run_bad es s1"
  proof (cases es1)
    case Nil
    with * show ?thesis by (simp add: event_bad_iff)
  next
    case (Cons a list)
    with * assms have "es = list @ Complete c is_error content # es2" "run_events list s1 = Some (Inr s')"
      by auto
    with *(3) show ?thesis unfolding run_bad_def by blast
  qed
next
  assume "event_bad e s \<or> run_bad es s1"
  then show "run_bad (e # es) s"
  proof
    assume "event_bad e s"
    then obtain c is_error content where "e = Complete c is_error content"
      "completion_bad s c is_error content" by (auto simp: event_bad_iff)
    then show ?thesis unfolding run_bad_def by (intro exI[of _ "[]"]) simp
  next
    assume "run_bad es s1"
    then obtain es1 c is_error content es2 s' where "es = es1 @ Complete c is_error content # es2"
      "run_events es1 s1 = Some (Inr s')" "completion_bad s' c is_error content"
      unfolding run_bad_def by blast
    then show ?thesis unfolding run_bad_def using assms
      by (intro exI[of _ "e # es1"] exI[of _ c] exI[of _ is_error] exI[of _ content] exI[of _ es2]
          exI[of _ s']) simp
  qed
qed

lemma run_events_ok:
  assumes "atomic_inv s" and "run_events es s = Some r"
  shows "\<exists>s'. r = Inr s' \<and> atomic_inv s'
    \<and> (found_error s' = 1 \<longleftrightarrow> found_error s = 1 \<or> run_bad es s)
    \<and> (refused s' = [] \<longleftrightarrow> refused s = [] \<and> (\<forall>e\<in>set es. \<not> event_refused e))"
  using assms
proof (induction es arbitrary: s)
  case Nil
  then show ?case by auto
next
  case (Cons e es)
  then obtain r1 where r1: "run_event_step e s = Some r1" "obnd (Some r1) (run_events es) = Some r"
    by (cases "run_event_step e s") (auto simp: obnd_def)
  with run_event_ok[OF Cons.prems(1) r1(1)] obtain s1 where s1: "r1 = Inr s1" "atomic_inv s1"
    "found_error s1 = (if event_bad e s then 1 else found_error s)"
    "refused s1 = [] \<longleftrightarrow> refused s = [] \<and> \<not> event_refused e" by blast
  obtain s' where "r = Inr s'" "atomic_inv s'"
    "found_error s' = 1 \<longleftrightarrow> found_error s1 = 1 \<or> run_bad es s1"
    "refused s' = [] \<longleftrightarrow> refused s1 = [] \<and> (\<forall>e\<in>set es. \<not> event_refused e)"
    using Cons.IH[OF s1(2)] r1(2) s1(1) by auto
  then show ?case
    using s1(3,4) run_bad_Cons[OF r1(1)[unfolded s1(1)]] by (intro exI[of _ s']) simp
qed

lemma stopped_accepted:
  assumes "atomic_inv s" and "pc s \<noteq> Stopped" and "run_events es s = Some (Inr s')" and "pc s' = Stopped"
  shows "refused s' = []"
  using assms
proof (induction es arbitrary: s)
  case Nil
  then show ?case by simp
next
  case (Cons e es)
  then obtain r1 where r1: "run_event_step e s = Some r1" "obnd (Some r1) (run_events es) = Some (Inr s')"
    by (cases "run_event_step e s") (auto simp: obnd_def)
  with run_event_ok[OF Cons.prems(1) r1(1)] obtain s1 where s1: "r1 = Inr s1" "atomic_inv s1"
    "pc s1 = Stopped \<Longrightarrow> nr_inflight_io s = 0 \<and> refused s1 = refused s"
    by blast
  have run: "run_events es s1 = Some (Inr s')" using r1(2) s1(1) by simp
  show ?case
  proof (cases "pc s1 = Stopped")
    case False
    then show ?thesis using Cons.IH[OF s1(2) _ run] Cons.prems(4) by blast
  next
    case True
    then have "refused s1 = []"
      using s1(3) Cons.prems(1) by (auto simp: atomic_inv_def contexts_ok_def)
    moreover have "s' = s1"
      using run run_event_Stopped[OF True] by (cases es) auto
    ultimately show ?thesis by simp
  qed
qed

text \<open>From every state in which no command was refused the run can still end.\<close>

lemma run_events_append:
  "run_events (es @ fs) s = obnd (run_events es s) (run_events fs)"
  by (induction es arbitrary: s) (auto simp: obnd_def split: option.splits sum.splits)

definition can_end :: "atomic_state \<Rightarrow> bool" where
  "can_end s = (\<exists>es s'. run_events es s = Some (Inr s') \<and> pc s' = Stopped)"

lemma can_end_step: "run_event_step e s = Some (Inr s1) \<Longrightarrow> can_end s1 \<Longrightarrow> can_end s"
  unfolding can_end_def by (metis obnd_simps(3) run_events.simps(2))

lemma draining_can_end:
  assumes "atomic_inv s" and "refused s = []" and "pc s = Draining"
  shows "can_end s"
  using assms
proof (induction "length (outstanding s)" arbitrary: s)
  case 0
  then have "nr_inflight_io s = 0" by (auto simp: atomic_inv_def contexts_ok_def unat_eq_0)
  then have "run_event_step Finish s = Some (Inr (s\<lparr>pc := Stopped\<rparr>))"
    using "0.prems" by (simp add: run_event_step_def)
  moreover have "can_end (s\<lparr>pc := Stopped\<rparr>)"
    unfolding can_end_def by (intro exI[of _ "[]"]) simp
  ultimately show ?case by (rule can_end_step)
next
  case (Suc n)
  define c where "c = hd (outstanding s)"
  have c: "c \<in> set (outstanding s)" using Suc.hyps(2) by (cases "outstanding s") (auto simp: c_def)
  let ?b = "replicate payload_words (0 :: u64)"
  obtain s1 where s1: "bnd (fill_payload c ?b (s\<lparr>outstanding := remove1 c (outstanding s)\<rparr>))
      (io_cb c False) = Inr s1" "atomic_inv s1" "refused s1 = refused s" "pc s1 = pc s"
    "outstanding s1 = remove1 c (outstanding s)"
    using complete_ok[OF Suc.prems(1) c, of ?b False] by auto
  have "run_event_step (Complete c False ?b) s = Some (Inr s1)"
    using s1(1) c Suc.prems(3) by (simp add: run_event_step_def)
  moreover have "can_end s1"
    using Suc.hyps s1 Suc.prems c by (simp add: length_remove1)
  ultimately show ?case by (rule can_end_step)
qed

lemma polling_can_end:
  assumes "atomic_inv s" and "refused s = []" and "pc s = Polling"
  shows "can_end s"
proof (rule can_end_step)
  show "run_event_step (Leave True) s = Some (Inr (s\<lparr>pc := Draining\<rparr>))"
    using assms(3) by (simp add: run_event_step_def)
  show "can_end (s\<lparr>pc := Draining\<rparr>)" using assms by (intro draining_can_end) simp_all
qed

lemma submitting_can_end:
  assumes "atomic_inv s" and "refused s = []" and "pc s = Submitting"
  shows "can_end s"
  using assms
proof (induction "IO_DEPTH - length (outstanding s)" arbitrary: s rule: less_induct)
  case less
  show ?case
  proof (cases "free_io_ctx s")
    case None
    then have "run_event_step Full s = Some (Inr (s\<lparr>pc := Polling\<rparr>))"
      using less.prems(3) by (simp add: run_event_step_def)
    moreover have "can_end (s\<lparr>pc := Polling\<rparr>)" using less.prems by (intro polling_can_end) simp_all
    ultimately show ?thesis by (rule can_end_step)
  next
    case (Some c)
    obtain s1 where s1: "run_submit c 0 True s = Inr s1" "atomic_inv s1" "refused s1 = refused s"
      "pc s1 = pc s" "outstanding s1 = outstanding s @ [c]"
      using run_submit_ok[OF less.prems(1) Some, of 0 True] by auto
    have "length (outstanding s1) \<le> IO_DEPTH"
    proof -
      obtain fr where "distinct (fr @ outstanding s1 @ refused s1)"
        "set (fr @ outstanding s1 @ refused s1) = {..<IO_DEPTH}"
        using s1(2) contexts_okE unfolding atomic_inv_def by blast
      from partition_length[OF this] show ?thesis by (simp add: IO_DEPTH_def)
    qed
    then have "IO_DEPTH - length (outstanding s1) < IO_DEPTH - length (outstanding s)"
      using s1(5) by simp
    then have "can_end s1"
      by (rule less.hyps[OF _ s1(2)]) (simp_all add: s1(3,4) less.prems(2,3))
    moreover have "run_event_step (Submit 0 True) s = Some (Inr s1)"
      using Some s1(1) less.prems(3) by (simp add: run_event_step_def)
    ultimately show ?thesis by (rule can_end_step[rotated])
  qed
qed

lemma accepted_can_end:
  assumes "atomic_inv s" and "refused s = []" and "pc s \<noteq> Stopped"
  shows "can_end s"
  using assms submitting_can_end polling_can_end draining_can_end by (cases "pc s") auto

section \<open>What the test establishes\<close>

text \<open>The stamps of fewer than \<open>2 ^ 64\<close> writes tell the writes apart.\<close>

lemma torn_iff_bad:
  assumes "atomic_inv s" and "opcode (io_ctx_pool s ! c) = OPCODE_READ" and "0 < nlb s"
    and "length (writes s) < 2 ^ 64"
    and "\<And>j. j < unat (nlb s) \<Longrightarrow> w j < length (writes s)"
    and "\<And>j. j < unat (nlb s) \<Longrightarrow>
           content ! stamp_idx (lba_size s) j = writes s ! w j ! stamp_idx (lba_size s) j"
  shows "completion_bad s c False content \<longleftrightarrow> (\<exists>j<unat (nlb s). w j \<noteq> w 0)"
proof -
  have "stamps_ok s" using assms(1) by (simp add: atomic_inv_def)
  then have stamp: "content ! stamp_idx (lba_size s) j = of_nat (w j)" if "j < unat (nlb s)" for j
    using assms(5,6) that by (simp add: stamps_ok_def)
  have inj: "(of_nat (w j) :: u64) = of_nat (w i) \<longleftrightarrow> w j = w i"
    if "j < unat (nlb s)" "i < unat (nlb s)" for i j
  proof -
    have "w j < 2 ^ 64" "w i < 2 ^ 64" using assms(4) assms(5)[OF that(1)] assms(5)[OF that(2)] by linarith+
    then have "unat (of_nat (w j) :: u64) = w j" "unat (of_nat (w i) :: u64) = w i"
      by (simp_all add: unat_of_nat)
    then show ?thesis by metis
  qed
  have "content ! 0 = of_nat (w 0)"
    using stamp[of 0] assms(3) by (simp add: word_less_nat_alt)
  then show ?thesis
    using assms(2,3) stamp inj by (auto simp: completion_bad_def word_less_nat_alt)
qed

text \<open>C20: With the buffers allocated, a run of the test program on an active namespace that ends had
  every command accepted, and its exit status is 1 exactly when some completion reported an
  error or delivered to a read two blocks with different stamps, and 0 otherwise, whatever the
  order in which the device completes the commands.
\<close>

theorem atomic_main_exact:
  assumes "z \<noteq> 0" and "\<And>i. i < IO_DEPTH \<Longrightarrow> length (junk i) = payload_words"
    and "run_start z junk = Inr s0" and "atomic_main True z junk es = Some r"
  shows "(\<forall>e\<in>set es. \<not> event_refused e) \<and> r = Inr (if run_bad es s0 then 1 else 0)"
proof -
  have s0: "atomic_inv s0" "found_error s0 = 0" "refused s0 = []" "pc s0 = Submitting"
    using run_start_ok[where junk = junk, OF assms(1)] assms(2,3) by auto
  obtain r' where r': "run_events es s0 = Some r'"
    using assms(3,4) by (auto simp: atomic_main_def obnd_def split: option.splits)
  obtain s where s: "r' = Inr s" "atomic_inv s" "found_error s = 1 \<longleftrightarrow> run_bad es s0"
    "refused s = [] \<longleftrightarrow> (\<forall>e\<in>set es. \<not> event_refused e)"
    using run_events_ok[OF s0(1) r'] s0 by auto
  have end_s: "pc s = Stopped" "r = Inr (found_error s)"
    using assms(3,4) r' s(1) by (auto simp: atomic_main_def split: if_splits)
  have "refused s = []"
    using stopped_accepted[OF s0(1) _ r'[unfolded s(1)] end_s(1)] s0(4) by simp
  moreover have "found_error s = (if run_bad es s0 then 1 else 0)"
    using s(2,3) by (auto simp: atomic_inv_def)
  ultimately show ?thesis using s(4) end_s(2) by simp
qed

text \<open>C21: After any sequence of events from the start, the run can still be brought to its end
  exactly when the driver refused none of the commands; a refused command, whose result the
  code does not look at, leaves the counter above 0 and the last loop never ends.
\<close>

theorem run_ends_iff_accepted:
  assumes "z \<noteq> 0" and "\<And>i. i < IO_DEPTH \<Longrightarrow> length (junk i) = payload_words"
    and "run_start z junk = Inr s0" and "run_events es s0 = Some (Inr s)" and "pc s \<noteq> Stopped"
  shows "(\<exists>es' s'. run_events es' s = Some (Inr s') \<and> pc s' = Stopped)
           \<longleftrightarrow> (\<forall>e\<in>set es. \<not> event_refused e)"
proof -
  have s0: "atomic_inv s0" "refused s0 = []"
    using run_start_ok[where junk = junk, OF assms(1)] assms(2,3) by auto
  have s: "atomic_inv s" "refused s = [] \<longleftrightarrow> (\<forall>e\<in>set es. \<not> event_refused e)"
    using run_events_ok[OF s0(1) assms(4)] s0(2) by auto
  have "refused s = []" if "run_events es' s = Some (Inr s')" "pc s' = Stopped" for es' s'
    using stopped_accepted[OF s(1) assms(5) that] run_events_ok[OF s(1) that(1)] by auto
  then show ?thesis
    using s(2) accepted_can_end[OF s(1) _ assms(5)] unfolding can_end_def by blast
qed

text \<open>C28: A torn write is reported. Fewer than \<open>2 ^ 64\<close> writes carry distinct stamps: let a read complete
  whose block \<open>j\<close> holds what write number \<open>w j\<close> put there. Its completion sets \<open>found_error\<close> exactly when
  the blocks come from different writes, unless an error was found before; and once a torn read has
  completed, every run of the program that ends has exit status 1.
\<close>

theorem torn_read_detected:
  assumes "z \<noteq> 0" and "\<And>i. i < IO_DEPTH \<Longrightarrow> length (junk i) = payload_words"
    and "run_start z junk = Inr s0" and "run_events es s0 = Some (Inr s)"
    and "pc s = Polling \<or> pc s = Draining" and "c \<in> set (outstanding s)" and "length content = payload_words"
    and "opcode (io_ctx_pool s ! c) = OPCODE_READ" and "0 < nlb s" and "length (writes s) < 2 ^ 64"
    and "\<And>j. j < unat (nlb s) \<Longrightarrow> w j < length (writes s)"
    and "\<And>j. j < unat (nlb s) \<Longrightarrow>
           content ! stamp_idx (lba_size s) j = writes s ! w j ! stamp_idx (lba_size s) j"
  shows "(\<exists>s1. bnd (fill_payload c content (s\<lparr>outstanding := remove1 c (outstanding s)\<rparr>)) (io_cb c False) = Inr s1
      \<and> run_event_step (Complete c False content) s = Some (Inr s1)
      \<and> (found_error s1 = 1 \<longleftrightarrow> found_error s = 1 \<or> (\<exists>j<unat (nlb s). w j \<noteq> w 0)))
    \<and> ((\<exists>j<unat (nlb s). w j \<noteq> w 0) \<longrightarrow>
        (\<forall>es' r. atomic_main True z junk (es @ Complete c False content # es') = Some r \<longrightarrow> r = Inr 1))"
proof -
  have s0: "atomic_inv s0" using run_start_ok[where junk = junk, OF assms(1)] assms(2,3) by auto
  then have inv: "atomic_inv s" using run_events_ok assms(4) by fastforce
  have bad: "completion_bad s c False content \<longleftrightarrow> (\<exists>j<unat (nlb s). w j \<noteq> w 0)"
    by (rule torn_iff_bad[OF inv assms(8-12)])
  obtain s1 where s1: "bnd (fill_payload c content (s\<lparr>outstanding := remove1 c (outstanding s)\<rparr>)) (io_cb c False) = Inr s1"
      "atomic_inv s1" "found_error s1 = (if completion_bad s c False content then 1 else found_error s)"
    using complete_ok[OF inv assms(6,7)] by blast
  have step: "run_event_step (Complete c False content) s = Some (Inr s1)"
    using s1(1) assms(5-7) by (simp add: run_event_step_def)
  have "r = Inr 1" if torn: "\<exists>j<unat (nlb s). w j \<noteq> w 0"
    and main: "atomic_main True z junk (es @ Complete c False content # es') = Some r" for es' r
  proof -
    have one: "found_error s1 = 1" using s1(3) bad torn by simp
    have "run_events (es @ Complete c False content # es') s0 = run_events es' s1"
      using assms(4) step by (simp add: run_events_append)
    then have "obnd (run_events es' s1) (\<lambda>s. if pc s = Stopped then Some (Inr (found_error s)) else None) = Some r"
      using main assms(3) by (simp add: atomic_main_def)
    then obtain r' where r': "run_events es' s1 = Some r'"
        "obnd (Some r') (\<lambda>s. if pc s = Stopped then Some (Inr (found_error s)) else None) = Some r"
      by (cases "run_events es' s1") simp_all
    then show ?thesis using run_events_ok[OF s1(2) r'(1)] one by (auto split: if_splits)
  qed
  then show ?thesis using s1(1,3) step bad by auto
qed

text \<open>Buffers for the examples, and what the theorems say on short runs.\<close>

definition zero_buffers :: "nat \<Rightarrow> u64 list" where
  "zero_buffers i = replicate payload_words 0"

lemma length_zero_buffers [simp]: "length (zero_buffers i) = payload_words"
  by (simp add: zero_buffers_def)

lemma atomic_main_exact_witness:
  "\<exists>es. \<exists>s0. run_start 512 zero_buffers = Inr s0
     \<and> atomic_main True 512 zero_buffers es = Some (Inr (if run_bad es s0 then 1 else 0))"
proof -
  obtain s0 where s0: "run_start 512 zero_buffers = Inr s0" "atomic_inv s0" "refused s0 = []" "pc s0 = Submitting"
    using run_start_ok[of 512 zero_buffers] by auto
  obtain es s where es: "run_events es s0 = Some (Inr s)" "pc s = Stopped"
    using accepted_can_end[OF s0(2,3)] s0(4) by (auto simp: can_end_def)
  then have m: "atomic_main True 512 zero_buffers es = Some (Inr (found_error s))"
    using s0(1) by (simp add: atomic_main_def)
  from atomic_main_exact[OF _ _ s0(1) m] have "found_error s = (if run_bad es s0 then 1 else 0)"
    by simp
  with m have "atomic_main True 512 zero_buffers es = Some (Inr (if run_bad es s0 then 1 else 0))"
    by (simp only:)
  with s0(1) show ?thesis by blast
qed

lemma run_ends_iff_accepted_witness:
  "\<exists>s0 s. run_start 512 zero_buffers = Inr s0 \<and> run_events [Submit 0 False] s0 = Some (Inr s)
     \<and> \<not> (\<exists>es' s'. run_events es' s = Some (Inr s') \<and> pc s' = Stopped)"
proof -
  obtain s0 where s0: "run_start 512 zero_buffers = Inr s0" "atomic_inv s0" "refused s0 = []"
    "outstanding s0 = []" "pc s0 = Submitting"
    using run_start_ok[of 512 zero_buffers] by auto
  obtain s where s: "run_event_step (Submit 0 False) s0 = Some (Inr s)" "pc s = Submitting"
    using submit_event[OF s0(2,5), of 0 False] s0(3,4) by (auto simp: IO_DEPTH_def)
  then have run: "run_events [Submit 0 False] s0 = Some (Inr s)" by simp
  have "event_refused (Submit 0 False)" by (simp add: event_refused_def)
  with run_ends_iff_accepted[OF _ _ s0(1) run] s(2)
  have "\<not> (\<exists>es' s'. run_events es' s = Some (Inr s') \<and> pc s' = Stopped)" by simp
  with s0(1) run show ?thesis by blast
qed

text \<open>31 writes and a read of two blocks fill the pool; the read shows the first block of write 0 and the
  second of write 1.\<close>

lemma writes_submitted:
  assumes "atomic_inv s" and "pc s = Submitting" and "refused s = []" and "length (outstanding s) + n \<le> 32"
  shows "\<exists>s'. run_events (replicate n (Submit 9 True)) s = Some (Inr s') \<and> atomic_inv s' \<and> pc s' = Submitting
    \<and> refused s' = [] \<and> length (outstanding s') = length (outstanding s) + n
    \<and> length (writes s') = length (writes s) + n \<and> nlb s' = nlb s \<and> lba_size s' = lba_size s"
  using assms
proof (induction n arbitrary: s)
  case 0
  then show ?case by simp
next
  case (Suc n)
  have "length (outstanding s @ refused s) < IO_DEPTH" using Suc.prems by (simp add: IO_DEPTH_def)
  then obtain s1 where s1: "run_event_step (Submit 9 True) s = Some (Inr s1)" "atomic_inv s1" "pc s1 = Submitting"
      "refused s1 = []" "length (outstanding s1) = Suc (length (outstanding s))" "length (writes s1) = Suc (length (writes s))"
      "nlb s1 = nlb s" "lba_size s1 = lba_size s"
    using submit_event[OF Suc.prems(1,2), of 9 True] Suc.prems(3) by auto
  then show ?case using Suc.IH[OF s1(2-4)] Suc.prems(4) by auto
qed

lemma pool_full:
  assumes "atomic_inv s" and "length (outstanding s) = 32"
  shows "free_io_ctx s = None"
proof -
  obtain fr where fr: "chain (io_ctx_pool s) (free_io_ctx s) fr" "distinct (fr @ outstanding s @ refused s)"
      "set (fr @ outstanding s @ refused s) = {..<IO_DEPTH}"
    using assms(1) contexts_okE unfolding atomic_inv_def by blast
  then have "fr = []" using partition_length[OF fr(2,3)] assms(2) by auto
  then show ?thesis using fr(1) by simp
qed

lemma torn_read_detected_witness:
  "\<exists>s0 s c content s1 es'. run_start 0x40000 zero_buffers = Inr s0
     \<and> run_events (replicate 31 (Submit 9 True) @ [Submit 0 True, Full]) s0 = Some (Inr s)
     \<and> run_event_step (Complete c False content) s = Some (Inr s1) \<and> found_error s1 = 1
     \<and> atomic_main True 0x40000 zero_buffers
          ((replicate 31 (Submit 9 True) @ [Submit 0 True, Full]) @ Complete c False content # es') = Some (Inr 1)"
proof -
  let ?es = "replicate 31 (Submit 9 True) @ [Submit 0 True, Full]"
  obtain s0 where s0: "run_start 0x40000 zero_buffers = Inr s0" "atomic_inv s0" "refused s0 = []"
    "outstanding s0 = []" "pc s0 = Submitting" "writes s0 = []" "nlb s0 = 2" "lba_size s0 = 0x40000"
    using run_start_ok[of "0x40000" zero_buffers] by (auto simp: IO_SIZE_def)
  obtain s1 where s1: "run_events (replicate 31 (Submit 9 True)) s0 = Some (Inr s1)" "atomic_inv s1" "pc s1 = Submitting"
    "refused s1 = []" "length (outstanding s1) = 31" "length (writes s1) = 31" "nlb s1 = 2" "lba_size s1 = 0x40000"
    using writes_submitted[OF s0(2,5,3), of 31] s0 by auto
  have "length (outstanding s1 @ refused s1) < IO_DEPTH" using s1(4,5) by (simp add: IO_DEPTH_def)
  then obtain c s2 where s2: "run_event_step (Submit 0 True) s1 = Some (Inr s2)" "atomic_inv s2" "pc s2 = Submitting"
    "refused s2 = []" "outstanding s2 = outstanding s1 @ [c]" "opcode (io_ctx_pool s2 ! c) = OPCODE_READ"
    "length (writes s2) = 31" "nlb s2 = 2" "lba_size s2 = 0x40000"
    using submit_event[OF s1(2,3), of 0 True] s1 by auto
  let ?s = "s2\<lparr>pc := Polling\<rparr>"
  have "run_event_step Full s2 = Some (Inr ?s)"
    using pool_full[OF s2(2)] s1(5) s2(3,5) by (simp add: run_event_step_def)
  then have run: "run_events ?es s0 = Some (Inr ?s)" using s1(1) s2(1) by (simp add: run_events_append)
  have idx: "stamp_idx 0x40000 (Suc 0) = 0x8000" by (simp add: stamp_idx_def)
  let ?b = "(replicate payload_words 0)[0 := writes s2 ! 0 ! 0, 0x8000 := writes s2 ! 1 ! 0x8000]"
  have b: "?b ! stamp_idx (lba_size ?s) j = writes ?s ! j ! stamp_idx (lba_size ?s) j" if "j < unat (nlb ?s)" for j
    using that s2(8,9) by (auto simp: less_2_cases_iff nth_list_update idx)
  have torn: "\<exists>j<unat (nlb ?s). j \<noteq> (0 :: nat)" by (intro exI[of _ 1]) (simp add: s2(8))
  have w: "j < length (writes ?s)" if "j < unat (nlb ?s)" for j using that s2(7,8) by simp
  note t = torn_read_detected[OF _ _ s0(1) run, of c ?b "\<lambda>j. j"]
  obtain s3 where s3: "run_event_step (Complete c False ?b) ?s = Some (Inr s3)" "found_error s3 = 1"
    using t b w torn s2(5-8) by auto
  obtain r3 where r3: "run_events ?es s0 = Some (Inr ?s)" "atomic_inv s3" "refused s3 = []" "pc s3 \<noteq> Stopped"
    using run run_event_ok[OF _ s3(1)] s2(2,4) by (auto simp: event_refused_def)
  obtain es' s4 where es': "run_events es' s3 = Some (Inr s4)" "pc s4 = Stopped"
    using accepted_can_end[OF r3(2-4)] by (auto simp: can_end_def)
  have "run_events (?es @ Complete c False ?b # es') s0 = Some (Inr s4)"
    using run s3(1) es'(1) by (simp only: run_events_append run_events.simps obnd_simps)
  then have "atomic_main True 0x40000 zero_buffers (?es @ Complete c False ?b # es') = Some (Inr (found_error s4))"
    using s0(1) es'(2) by (simp add: atomic_main_def)
  moreover from this have "Inr (found_error s4) = (Inr 1 :: u32 res)"
    using t b w torn s2(5-8) by auto
  ultimately show ?thesis using s0(1) run s3 by auto
qed

end
