(* ===== verification/TestSuite.thy ===== *)
theory TestSuite
  imports CString
begin

text \<open>
  The runner of the C test programs (\<open>func/lib/testsuite.c\<close>, \<open>testsuite.h\<close>): a tree of test
  cases and groups is walked in order, the number of the current case at every level is kept in
  an array of eight, and two environment variables name the first and the last case. A test
  case function is an abstract action of type \<open>'f\<close>; what it does to the world \<open>'w\<close>, and the
  value it leaves in \<open>__test_res\<close>, is the argument \<open>exec\<close>.
\<close>

section \<open>Data\<close>

definition MAX_TEST_DEPTH :: nat where "MAX_TEST_DEPTH = 8"

definition TESTCASE_FAIL :: int where "TESTCASE_FAIL = 1"

definition TESTGROUP_FAIL :: int where "TESTGROUP_FAIL = 2"

definition TESTCASE_IGNORE :: int where "TESTCASE_IGNORE = 3"

text \<open>The name of an entry: null ends an array, and \<open>TEST_CONFIG\<close> is the pointer -1.\<close>

datatype tc_name = NameEnd | NameConfig | Name string

datatype 'f testcase =
  Testcase (tc_name: tc_name) (tc_func: "'f option") (tc_cases: "'f testcase list option")

text \<open>
  A pointer to an entry is the path of indices that leads to it; no array belongs to two groups.
  An array holds its end marker. The lines of the output are the list \<open>test_log\<close>.
\<close>

type_synonym tc_ptr = "nat list"

datatype 'f log_line =
    CaseLine u32 tc_name 'f int
  | GroupLine u32 tc_name

record ('f, 'w) suite_state =
  testno :: "u32 list"
  test_res :: int
  nr_passes :: u32
  nr_fails :: u32
  test_log :: "'f log_line list"
  world :: 'w

section \<open>Running\<close>

fun get_test_depth_from :: "nat \<Rightarrow> u32 list \<Rightarrow> nat" where
  "get_test_depth_from i [] = MAX_TEST_DEPTH"
| "get_test_depth_from i (n # ns) =
     (if n = 0 then (if 0 < i then i - 1 else i) else get_test_depth_from (i + 1) ns)"

definition get_test_depth :: "u32 list \<Rightarrow> nat" where
  "get_test_depth t = get_test_depth_from 0 t"

text \<open>
  \<open>t\<close> is the number array of the call: the one of the run, or the copy for a configuration.
\<close>

definition run_testcase ::
  "('f \<Rightarrow> 'w \<Rightarrow> int \<times> 'w) \<Rightarrow> u32 list \<Rightarrow> tc_name \<Rightarrow> 'f \<Rightarrow> ('f, 'w) suite_state
     \<Rightarrow> ('f, 'w) suite_state res" where
  "run_testcase exec t name f s =
     bnd (arr_get t (get_test_depth t)) (\<lambda>no.
     let s = (if test_res s \<noteq> TESTGROUP_FAIL
              then s\<lparr>test_res := fst (exec f (world s)), world := snd (exec f (world s))\<rparr> else s);
         s = s\<lparr>test_log := test_log s @ [CaseLine no name f (test_res s)]\<rparr> in
     Inr (if test_res s = TESTCASE_FAIL \<or> test_res s = TESTGROUP_FAIL
          then s\<lparr>nr_fails := nr_fails s + 1\<rparr>
          else if test_res s = TESTCASE_IGNORE then s
          else s\<lparr>nr_passes := nr_passes s + 1\<rparr>))"

text \<open>
  \<open>arr\<close> is the array that \<open>tc\<close> points into and \<open>k\<close> its index there. A configuration without a
  function is a call through null.
\<close>

definition run_config ::
  "('f \<Rightarrow> 'w \<Rightarrow> int \<times> 'w) \<Rightarrow> 'f testcase list \<Rightarrow> nat \<Rightarrow> ('f, 'w) suite_state
     \<Rightarrow> ('f, 'w) suite_state res" where
  "run_config exec arr k s =
     (let depth = get_test_depth (testno s) in
      bnd (arr_get (testno s) depth) (\<lambda>no.
      if 1 < no then
        if k < unat no - 1 then Inl Fault else
        bnd (arr_get arr (k - (unat no - 1))) (\<lambda>tc_config.
        if tc_name tc_config = NameConfig then
          case tc_func tc_config of None \<Rightarrow> Inl Fault
          | Some f \<Rightarrow> run_testcase exec ((testno s)[depth := 1]) NameConfig f s
        else Inr s)
      else Inr s))"

text \<open>
  The loop of \<open>__run_testcases\<close> over the rest of an array, at index \<open>i\<close> of the group \<open>gp\<close>, and
  \<open>__run_testcases\<close> itself; \<open>last_tc\<close> is \<open>__last_tc\<close>.
\<close>

lemma size_list_drop: "size_list f (drop k xs) \<le> size_list f xs"
  by (induction xs arbitrary: k) (auto simp: drop_Cons' intro: le_SucI trans_le_add2)

function (sequential) testcases_loop ::
  "('f \<Rightarrow> 'w \<Rightarrow> int \<times> 'w) \<Rightarrow> tc_ptr option \<Rightarrow> nat \<Rightarrow> tc_ptr \<Rightarrow> nat \<Rightarrow> 'f testcase list
     \<Rightarrow> ('f, 'w) suite_state \<Rightarrow> (int \<times> ('f, 'w) suite_state) res"
and run_testcases ::
  "('f \<Rightarrow> 'w \<Rightarrow> int \<times> 'w) \<Rightarrow> tc_ptr option \<Rightarrow> tc_ptr \<Rightarrow> nat \<Rightarrow> 'f testcase list
     \<Rightarrow> ('f, 'w) suite_state \<Rightarrow> (int \<times> ('f, 'w) suite_state) res" where
  "testcases_loop exec last_tc depth gp i [] s = Inl Fault"
| "testcases_loop exec last_tc depth gp i (Testcase name func cases # tcs) s =
     (if name = NameEnd then Inr (0, s)
      else if last_tc = Some (gp @ [i]) then Inr (1, s)
      else
        bnd (arr_get (testno s) depth) (\<lambda>no.
        case func of
          Some f \<Rightarrow>
            bnd (run_testcase exec (testno s) name f s) (\<lambda>s.
            if test_res s \<noteq> 0 then Inr (- 1, s)
            else testcases_loop exec last_tc depth gp (i + 1) tcs (s\<lparr>testno := (testno s)[depth := no + 1]\<rparr>))
        | None \<Rightarrow>
           (case cases of
              Some cs \<Rightarrow>
                bnd (arr_set (testno s) (depth + 1) 1) (\<lambda>t.
                bnd (run_testcases exec last_tc (gp @ [i]) 0 cs
                      (s\<lparr>testno := t, test_log := test_log s @ [GroupLine no name]\<rparr>)) (\<lambda>(res, s).
                if res \<noteq> 0 then Inr (res, s)
                else bnd (arr_get (testno s) depth) (\<lambda>no.
                testcases_loop exec last_tc depth gp (i + 1) tcs (s\<lparr>testno := (testno s)[depth := no + 1]\<rparr>))))
            | None \<Rightarrow>
                testcases_loop exec last_tc depth gp (i + 1) tcs (s\<lparr>testno := (testno s)[depth := no + 1]\<rparr>))))"
| "run_testcases exec last_tc gp k arr s =
     (let depth = get_test_depth (testno s) in
      bnd (run_config exec arr k (s\<lparr>test_res := 0\<rparr>)) (\<lambda>s.
      if test_res s \<noteq> 0 then Inr (- 1, s)
      else
        bnd (testcases_loop exec last_tc depth gp k (drop k arr) s) (\<lambda>(res, s).
        bnd (arr_set (testno s) depth 0) (\<lambda>t. Inr (res, s\<lparr>testno := t\<rparr>)))))"
  by pat_completeness auto
termination
  by (relation "measure (case_sum (\<lambda>(exec, l, d, gp, i, tcs, s). 2 * size_list size tcs)
                                  (\<lambda>(exec, l, gp, k, arr, s). 2 * size_list size arr + 1))")
    (auto simp: le_imp_less_Suc size_list_drop)

section \<open>Choosing the range\<close>

text \<open>\<open>2.10.3\<close>: numbers separated by dots, up to the first 0 or the first other character.\<close>

function to_testno_from :: "nat \<Rightarrow> string \<Rightarrow> u32 list \<Rightarrow> u32 list res" where
  "to_testno_from depth str t =
     (let no = word_of_int (fst (strtol str)); rest = snd (strtol str) in
      bnd (arr_set t depth no) (\<lambda>t.
      if no = 0 then Inr t
      else if rest = [] \<or> hd rest \<noteq> CHR ''.'' then Inr t
      else to_testno_from (depth + 1) (tl rest) t))"
  by pat_completeness auto
termination
proof (relation "measure (\<lambda>(depth, str, t). length str)", goal_cases)
  case (2 depth str t no rest x)
  then have "length (tl rest) < length rest" by (cases rest) auto
  also have "length rest \<le> length str" using strtol_length[of str] 2(2) by simp
  finally show ?case by simp
qed simp

declare to_testno_from.simps [simp del]

text \<open>An unset variable is a null pointer.\<close>

definition to_testno :: "string option \<Rightarrow> u32 list res" where
  "to_testno str =
     (case str of None \<Rightarrow> Inr (replicate MAX_TEST_DEPTH 0)
      | Some str \<Rightarrow> to_testno_from 0 str (replicate MAX_TEST_DEPTH 0))"

text \<open>The entry \<open>idx\<close> of an array, unless the array ends before it.\<close>

fun get_subtc_from :: "'f testcase list \<Rightarrow> nat \<Rightarrow> bool res" where
  "get_subtc_from [] idx = Inl Fault"
| "get_subtc_from (tc # tcs) idx =
     (if tc_name tc = NameEnd then Inr False
      else if idx = 0 then Inr True else get_subtc_from tcs (idx - 1))"

definition get_subtc :: "'f testcase list option \<Rightarrow> u32 \<Rightarrow> nat option res" where
  "get_subtc arr idx =
     (case arr of None \<Rightarrow> Inr None
      | Some tcs \<Rightarrow> bnd (get_subtc_from tcs (unat idx)) (\<lambda>found.
          Inr (if found then Some (unat idx) else None)))"

text \<open>
  A pointer with the array it points into: group, index, array. The walk starts with the array
  of the suite; running over the eight numbers is an access out of range.
\<close>

type_synonym 'f tc_pos = "tc_ptr \<times> nat \<times> 'f testcase list"

fun get_tc_from ::
  "tc_ptr \<Rightarrow> 'f testcase list option \<Rightarrow> 'f tc_pos \<Rightarrow> u32 list \<Rightarrow> 'f tc_pos option res" where
  "get_tc_from gp cases pos [] = Inl Fault"
| "get_tc_from gp cases pos (n # ns) =
     (if n = 0 then Inr (Some pos)
      else bnd (get_subtc cases (n - 1)) (\<lambda>k.
        case (k, cases) of
          (Some k, Some arr) \<Rightarrow> get_tc_from (gp @ [k]) (tc_cases (arr ! k)) (gp, k, arr) ns
        | _ \<Rightarrow> Inr None))"

definition get_tc :: "'f testcase list \<Rightarrow> u32 list \<Rightarrow> 'f tc_pos option res" where
  "get_tc arr t = get_tc_from [] (Some arr) ([], 0, arr) t"

text \<open>The first case with its number and the last one; \<open>None\<close> is the return value -1.\<close>

definition read_env_var ::
  "'f testcase list \<Rightarrow> string option \<Rightarrow> string option
     \<Rightarrow> (u32 list \<times> 'f tc_pos \<times> tc_ptr option) option res" where
  "read_env_var arr env_first env_last =
     bnd (to_testno env_first) (\<lambda>t.
     bnd (if t ! 0 = 0 then Inr (Some ((replicate MAX_TEST_DEPTH 0)[0 := 1], ([], 0, arr)))
          else bnd (get_tc arr t) (\<lambda>p. Inr (map_option (Pair t) p))) (\<lambda>first.
     case first of None \<Rightarrow> Inr None
     | Some (t1, pos) \<Rightarrow>
         bnd (to_testno env_last) (\<lambda>t.
         if t ! 0 = 0 then Inr (Some (t1, pos, None))
         else bnd (get_tc arr t) (\<lambda>p.
           Inr (map_option (\<lambda>(gp, k, arr). (t1, pos, Some (gp @ [k]))) p)))))"

section \<open>The suite\<close>

text \<open>The four numbers of the summary: percentage and count of successes and of failures.\<close>

definition show_summary :: "u32 \<Rightarrow> u32 \<Rightarrow> (u32 \<times> u32 \<times> u32 \<times> u32) res" where
  "show_summary passes fails =
     (let nr_testcases = passes + fails in
      if nr_testcases = 0 then Inl Fault
      else Inr (passes * 100 div nr_testcases, passes, fails * 100 div nr_testcases, fails))"

definition testsuite_run ::
  "('f \<Rightarrow> 'w \<Rightarrow> int \<times> 'w) \<Rightarrow> 'f testcase list \<Rightarrow> ('w \<Rightarrow> 'w) option \<Rightarrow> ('w \<Rightarrow> 'w) option
     \<Rightarrow> string option \<Rightarrow> string option \<Rightarrow> 'w
     \<Rightarrow> (int \<times> ('f, 'w) suite_state \<times> (u32 \<times> u32 \<times> u32 \<times> u32)) option res" where
  "testsuite_run exec arr set_up tear_down env_first env_last w =
     bnd (read_env_var arr env_first env_last) (\<lambda>r.
     case r of None \<Rightarrow> Inr None
     | Some (t, (gp, k, tcs), last_tc) \<Rightarrow>
         let w = (case set_up of None \<Rightarrow> w | Some f \<Rightarrow> f w) in
         bnd (run_testcases exec last_tc gp k tcs
               \<lparr>testno = t, test_res = 0, nr_passes = 0, nr_fails = 0, test_log = [], world = w\<rparr>)
           (\<lambda>(res, s).
         let s = (case tear_down of None \<Rightarrow> s | Some f \<Rightarrow> s\<lparr>world := f (world s)\<rparr>) in
         bnd (show_summary (nr_passes s) (nr_fails s)) (\<lambda>sum. Inr (Some (0, s, sum)))))"

section \<open>What a run should do\<close>

text \<open>
  The entries of an array in the order of the walk: each with its path and, for a test case,
  its function; the entries of a group follow it. \<open>before_last\<close> cuts the list at the last case,
  and \<open>run_all\<close> runs functions until one leaves a result other than 0.
\<close>

fun entries :: "tc_ptr \<Rightarrow> nat \<Rightarrow> 'f testcase list \<Rightarrow> (tc_ptr \<times> 'f option) list" where
  "entries gp i [] = []"
| "entries gp i (Testcase name func cases # tcs) =
     (if name = NameEnd then []
      else (gp @ [i], func)
           # (case func of Some f \<Rightarrow> []
              | None \<Rightarrow> (case cases of Some cs \<Rightarrow> entries (gp @ [i]) 0 cs | None \<Rightarrow> []))
           @ entries gp (i + 1) tcs)"

definition before_last :: "tc_ptr option \<Rightarrow> (tc_ptr \<times> 'f option) list \<Rightarrow> 'f list" where
  "before_last last_tc es = List.map_filter snd (takeWhile (\<lambda>e. Some (fst e) \<noteq> last_tc) es)"

definition last_reached :: "tc_ptr option \<Rightarrow> (tc_ptr \<times> 'f option) list \<Rightarrow> bool" where
  "last_reached last_tc es = (\<exists>e\<in>set es. Some (fst e) = last_tc)"

fun run_all :: "('f \<Rightarrow> 'w \<Rightarrow> int \<times> 'w) \<Rightarrow> 'f list \<Rightarrow> 'w \<Rightarrow> ('f \<times> int) list \<times> 'w" where
  "run_all exec [] w = ([], w)"
| "run_all exec (f # fs) w =
     (let (r, w1) = exec f w in
      if r \<noteq> 0 then ([(f, r)], w1)
      else let (rs, w2) = run_all exec fs w1 in ((f, r) # rs, w2))"

definition any_failed :: "('f \<times> int) list \<Rightarrow> bool" where
  "any_failed rs = (\<exists>r\<in>set rs. snd r \<noteq> 0)"

fun case_result :: "'f log_line \<Rightarrow> ('f \<times> int) option" where
  "case_result (CaseLine no name f r) = Some (f, r)"
| "case_result (GroupLine no name) = None"

definition is_fail :: "'f \<times> int \<Rightarrow> bool" where
  "is_fail r = (snd r = TESTCASE_FAIL \<or> snd r = TESTGROUP_FAIL)"

definition is_pass :: "'f \<times> int \<Rightarrow> bool" where
  "is_pass r = (\<not> is_fail r \<and> snd r \<noteq> TESTCASE_IGNORE)"

text \<open>From \<open>s\<close> to \<open>s'\<close> exactly the functions \<open>fs\<close> ran, up to the first failure.\<close>

definition ran ::
  "('f \<Rightarrow> 'w \<Rightarrow> int \<times> 'w) \<Rightarrow> 'f list \<Rightarrow> ('f, 'w) suite_state \<Rightarrow> ('f, 'w) suite_state \<Rightarrow> bool" where
  "ran exec fs s s' =
     (let (rs, w) = run_all exec fs (world s) in
      List.map_filter case_result (test_log s') = List.map_filter case_result (test_log s) @ rs
      \<and> world s' = w
      \<and> nr_passes s' = nr_passes s + of_nat (length (filter is_pass rs))
      \<and> nr_fails s' = nr_fails s + of_nat (length (filter is_fail rs))
      \<and> (test_res s' \<noteq> 0 \<longleftrightarrow> any_failed rs))"

lemma map_filter_append [simp]:
  "List.map_filter f (xs @ ys) = List.map_filter f xs @ List.map_filter f ys"
  by (simp add: List.map_filter_def)

lemma map_filter_Cons [simp]:
  "List.map_filter f (x # xs) = (case f x of None \<Rightarrow> [] | Some y \<Rightarrow> [y]) @ List.map_filter f xs"
  by (simp add: List.map_filter_def split: option.splits)

lemma map_filter_Nil [simp]: "List.map_filter f [] = []"
  by (simp add: List.map_filter_def)

lemma any_failed_simps [simp]:
  "\<not> any_failed []" "any_failed (r # rs) \<longleftrightarrow> snd r \<noteq> 0 \<or> any_failed rs"
  "any_failed (rs @ rs') \<longleftrightarrow> any_failed rs \<or> any_failed rs'"
  by (auto simp: any_failed_def)

lemma run_all_append:
  "run_all exec (fs @ gs) w =
     (let (rs, w1) = run_all exec fs w in
      if any_failed rs then (rs, w1)
      else let (rs', w2) = run_all exec gs w1 in (rs @ rs', w2))"
  by (induction fs arbitrary: w) (auto simp: Let_def split: prod.splits)

lemma ran_none: "test_res s' = 0 \<Longrightarrow> world s' = world s \<Longrightarrow> nr_passes s' = nr_passes s \<Longrightarrow>
    nr_fails s' = nr_fails s \<Longrightarrow>
    List.map_filter case_result (test_log s') = List.map_filter case_result (test_log s) \<Longrightarrow>
    ran exec [] s s'"
  by (simp add: ran_def)

lemma ran_trans:
  assumes "ran exec fs s s1" and "test_res s1 = 0" and "ran exec gs s1 s2"
  shows "ran exec (fs @ gs) s s2"
  using assms by (auto simp: ran_def run_all_append split: prod.splits)

lemma ran_stop:
  assumes "ran exec fs s s1" and "test_res s1 \<noteq> 0"
  shows "ran exec (fs @ gs) s s1"
  using assms by (auto simp: ran_def run_all_append split: prod.splits)

lemma run_testcase_ran:
  assumes "get_test_depth t < length t" and "test_res s = 0"
  shows "\<exists>s'. run_testcase exec t name f s = Inr s' \<and> ran exec [f] s s' \<and> testno s' = testno s"
  using assms
  by (auto simp: run_testcase_def ran_def Let_def is_fail_def is_pass_def TESTCASE_FAIL_def
      TESTGROUP_FAIL_def TESTCASE_IGNORE_def split: prod.splits)

section \<open>The walk does that\<close>

lemma before_last_simps [simp]:
  "before_last l [] = []"
  "before_last l (e # es) =
     (if Some (fst e) = l then []
      else (case snd e of None \<Rightarrow> [] | Some f \<Rightarrow> [f]) @ before_last l es)"
  by (simp_all add: before_last_def split: option.splits)

lemma last_reached_simps [simp]:
  "\<not> last_reached l []"
  "last_reached l (e # es) \<longleftrightarrow> Some (fst e) = l \<or> last_reached l es"
  "last_reached l (xs @ ys) \<longleftrightarrow> last_reached l xs \<or> last_reached l ys"
  by (auto simp: last_reached_def)

lemma before_last_append:
  "before_last l (xs @ ys) =
     (if last_reached l xs then before_last l xs else before_last l xs @ before_last l ys)"
  by (induction xs) auto

text \<open>
  Well-formed arrays: every array ends with a marker, an entry that has an array instead of a
  function lies at most at level 5, so that its cases have numbers of their own, and no array
  is longer than the counter; a configuration has a function, and no case has both.
\<close>

fun wf_tcs :: "nat \<Rightarrow> 'f testcase list \<Rightarrow> bool" where
  "wf_tcs d [] = False"
| "wf_tcs d (Testcase name func cases # tcs) =
     (name = NameEnd \<or>
      (case func of Some f \<Rightarrow> cases = None
       | None \<Rightarrow> name \<noteq> NameConfig \<and>
           (case cases of Some cs \<Rightarrow> d < 6 \<and> length cs < 2 ^ 32 \<and> wf_tcs (d + 1) cs | None \<Rightarrow> True))
      \<and> wf_tcs d tcs)"

definition at_depth :: "nat \<Rightarrow> u32 list \<Rightarrow> bool" where
  "at_depth d t =
     (length t = MAX_TEST_DEPTH \<and> d < 7 \<and> (\<forall>i\<le>d. t ! i \<noteq> 0) \<and> (\<forall>i. d < i \<and> i < 8 \<longrightarrow> t ! i = 0))"

lemma get_test_depth_append:
  "\<forall>n\<in>set ns. n \<noteq> 0 \<Longrightarrow> get_test_depth_from i (ns @ 0 # rest) = i + length ns - 1"
  by (induction ns arbitrary: i) auto

lemma at_depth_get [simp]:
  assumes "at_depth d t"
  shows "get_test_depth t = d"
proof -
  have len: "length t = 8" and d: "d < 7" and pos: "\<And>i. i \<le> d \<Longrightarrow> t ! i \<noteq> 0" and z: "t ! Suc d = 0"
    using assms by (auto simp: at_depth_def MAX_TEST_DEPTH_def)
  have "t = take (Suc d) t @ 0 # drop (Suc (Suc d)) t"
    using id_take_nth_drop[of "Suc d" t] len d z by simp
  moreover have "\<forall>n\<in>set (take (Suc d) t). n \<noteq> 0"
    using pos len d by (auto simp: in_set_conv_nth)
  ultimately have "get_test_depth t = 0 + length (take (Suc d) t) - 1"
    using get_test_depth_append[of "take (Suc d) t" 0 "drop (Suc (Suc d)) t"]
    unfolding get_test_depth_def by metis
  then show ?thesis using len d by simp
qed

lemma at_depth_update:
  "at_depth d t \<Longrightarrow> v \<noteq> 0 \<Longrightarrow> at_depth d (t[d := v])"
  by (auto simp: at_depth_def nth_list_update MAX_TEST_DEPTH_def)

lemma at_depth_enter:
  assumes "at_depth d t" and "d < 6"
  shows "at_depth (Suc d) (t[Suc d := 1])" and "(t[Suc d := v])[Suc d := 0] = t"
    and "t[Suc d := 1] ! Suc d = 1" and "Suc d < length t"
proof -
  have "t ! Suc d = 0" using assms by (simp add: at_depth_def)
  then show "(t[Suc d := v])[Suc d := 0] = t" by (metis list_update_id list_update_overwrite)
  show "at_depth (Suc d) (t[Suc d := 1])" "t[Suc d := 1] ! Suc d = 1" "Suc d < length t"
    using assms by (auto simp: at_depth_def nth_list_update MAX_TEST_DEPTH_def)
qed

lemma run_config_first:
  assumes "at_depth d (testno s)" and "testno s ! d = 1"
  shows "run_config exec arr k s = Inr s"
  using assms by (simp add: run_config_def Let_def) (simp add: at_depth_def MAX_TEST_DEPTH_def)

lemma succ_nonzero: "Suc i < 2 ^ 32 \<Longrightarrow> (of_nat (Suc i) :: u32) \<noteq> 0"
proof -
  assume "Suc i < 2 ^ 32"
  then have "unat (of_nat (Suc i) :: u32) = Suc i" by (simp only: unat_of_nat) simp
  then show ?thesis by (metis nat.distinct(1) unat_0)
qed

lemma ran_testno [simp]:
  "ran exec fs s (s'\<lparr>testno := t\<rparr>) = ran exec fs s s'"
  "ran exec fs (s\<lparr>testno := t\<rparr>) s' = ran exec fs s s'"
  by (simp_all add: ran_def)

lemma ran_group [simp]:
  "ran exec fs (s\<lparr>testno := t, test_log := test_log s @ [GroupLine no name]\<rparr>) s' = ran exec fs s s'"
  by (simp add: ran_def)

lemma at_depth_length: "at_depth d t \<Longrightarrow> d < length t"
  by (simp add: at_depth_def MAX_TEST_DEPTH_def)

text \<open>The result of the loop from the state it leaves.\<close>

definition walk_result :: "bool \<Rightarrow> ('f, 'w) suite_state \<Rightarrow> int" where
  "walk_result reached s = (if test_res s \<noteq> 0 then - 1 else if reached then 1 else 0)"

lemma testcases_loop_ran:
  assumes "wf_tcs d tcs" and "at_depth d (testno s)" and "test_res s = 0"
    and "testno s ! d = of_nat (i + 1)" and "i + length tcs < 2 ^ 32"
  shows "\<exists>s' v. testcases_loop exec l d gp i tcs s
      = Inr (walk_result (last_reached l (entries gp i tcs)) s', s')
    \<and> ran exec (before_last l (entries gp i tcs)) s s' \<and> testno s' = (testno s)[d := v]"
  using assms
proof (induction d tcs arbitrary: gp i s rule: wf_tcs.induct)
  case (1 d)
  then show ?case by simp
next
  case (2 d name func cases tcs)
  let ?es = "entries gp (i + 1) tcs"
  let ?no = "testno s ! d"
  have d: "d < length (testno s)" using "2.prems"(2) by (rule at_depth_length)
  have cont: "\<exists>s' v. testcases_loop exec l d gp (i + 1) tcs (s1\<lparr>testno := (testno s)[d := ?no + 1]\<rparr>)
        = Inr (walk_result (last_reached l ?es) s', s')
      \<and> ran exec (fs @ before_last l ?es) s s' \<and> testno s' = (testno s)[d := v]"
    if s1: "ran exec fs s s1" "test_res s1 = 0" and tcs: "name \<noteq> NameEnd" for s1 fs
  proof -
    have no: "?no + 1 = of_nat (i + 1 + 1)" using "2.prems"(4) by simp
    then have "?no + 1 \<noteq> 0" using succ_nonzero[of "i + 1"] "2.prems"(1,5) tcs
      by (cases tcs) auto
    then have "at_depth d ((testno s)[d := ?no + 1])" by (rule at_depth_update[OF "2.prems"(2)])
    then obtain s' v where s': "testcases_loop exec l d gp (i + 1) tcs (s1\<lparr>testno := (testno s)[d := ?no + 1]\<rparr>)
        = Inr (walk_result (last_reached l ?es) s', s')"
      "ran exec (before_last l ?es) s1 s'" "testno s' = (testno s)[d := v]"
      using "2.IH"(2)[of "s1\<lparr>testno := (testno s)[d := ?no + 1]\<rparr>" "i + 1" gp] tcs "2.prems"(1,5) s1(2) no d
      by (auto simp: nth_list_update)
    with ran_trans[OF s1 s'(2)] show ?thesis by blast
  qed
  consider "name = NameEnd" | "name \<noteq> NameEnd" "Some (gp @ [i]) = l"
    | (case_fn) f where "name \<noteq> NameEnd" "Some (gp @ [i]) \<noteq> l" "func = Some f"
    | (group) cs where "name \<noteq> NameEnd" "Some (gp @ [i]) \<noteq> l" "func = None" "cases = Some cs"
    | (neither) "name \<noteq> NameEnd" "Some (gp @ [i]) \<noteq> l" "func = None" "cases = None"
    by (cases "name = NameEnd"; cases "Some (gp @ [i]) = l"; cases func; cases cases) auto
  then show ?case
  proof cases
    case 1
    then show ?thesis
      using "2.prems"(3) by (intro exI[of _ s] exI[of _ ?no]) (simp add: walk_result_def ran_none)
  next
    case 2
    then show ?thesis
      using "2.prems"(3) by (intro exI[of _ s] exI[of _ ?no]) (auto simp: walk_result_def ran_none)
  next
    case (case_fn f)
    obtain s1 where s1: "run_testcase exec (testno s) name f s = Inr s1" "ran exec [f] s s1"
      "testno s1 = testno s"
      using run_testcase_ran[of "testno s" s exec name f] "2.prems"(2,3) d by auto
    show ?thesis
    proof (cases "test_res s1 = 0")
      case True
      with cont[OF s1(2)] case_fn s1 d show ?thesis by auto
    next
      case False
      then show ?thesis
        using case_fn s1 d ran_stop[OF s1(2) False]
        by (intro exI[of _ s1] exI[of _ ?no]) (auto simp: walk_result_def)
    qed
  next
    case (group cs)
    let ?t = "(testno s)[Suc d := 1]"
    let ?s1 = "s\<lparr>testno := ?t, test_log := test_log s @ [GroupLine ?no name]\<rparr>"
    let ?s0 = "?s1\<lparr>test_res := 0\<rparr>"
    let ?ces = "entries (gp @ [i]) 0 cs"
    have wf: "d < 6" "length cs < 2 ^ 32" "wf_tcs (d + 1) cs" using group "2.prems"(1) by auto
    note enter = at_depth_enter[OF "2.prems"(2) wf(1)]
    obtain s2 v where s2: "testcases_loop exec l (Suc d) (gp @ [i]) 0 cs ?s0
        = Inr (walk_result (last_reached l ?ces) s2, s2)"
      "ran exec (before_last l ?ces) ?s0 s2" "testno s2 = ?t[Suc d := v]"
      using "2.IH"(1)[of cs ?s0 0 "gp @ [i]"] group wf enter(1,3) by auto
    have ran2: "ran exec (before_last l ?ces) s s2"
      using s2(2) "2.prems"(3) by (simp add: ran_def)
    have nested: "run_testcases exec l (gp @ [i]) 0 cs ?s1
        = Inr (walk_result (last_reached l ?ces) s2, s2\<lparr>testno := testno s\<rparr>)"
      using run_config_first[of "Suc d" ?s0 exec cs 0] enter s2(1,3) by simp
    have step: "testcases_loop exec l d gp i (Testcase name func cases # tcs) s =
      (if walk_result (last_reached l ?ces) s2 \<noteq> 0
       then Inr (walk_result (last_reached l ?ces) s2, s2\<lparr>testno := testno s\<rparr>)
       else testcases_loop exec l d gp (i + 1) tcs (s2\<lparr>testno := (testno s)[d := ?no + 1]\<rparr>))"
      using group nested enter(4) d by simp
    show ?thesis
    proof (cases "walk_result (last_reached l ?ces) s2 = 0")
      case True
      then have "test_res s2 = 0" "\<not> last_reached l ?ces" by (auto simp: walk_result_def split: if_splits)
      with cont[OF ran2] group step True show ?thesis by (auto simp: before_last_append)
    next
      case False
      have "ran exec (before_last l (?ces @ ?es)) s s2"
        using ran2 False ran_stop[OF ran2]
        by (auto simp: before_last_append walk_result_def split: if_splits)
      then show ?thesis
        using group step False by (intro exI[of _ "s2\<lparr>testno := testno s\<rparr>"] exI[of _ ?no])
          (auto simp: walk_result_def split: if_splits)
    qed
  next
    case neither
    have "ran exec [] s s" using "2.prems"(3) by (simp add: ran_none)
    from cont[OF this "2.prems"(3)] neither d show ?thesis by auto
  qed
qed

text \<open>The configuration that a start in the middle of an array runs first.\<close>

definition configs :: "nat \<Rightarrow> 'f testcase list \<Rightarrow> 'f list" where
  "configs k arr =
     (if 0 < k \<and> tc_name (arr ! 0) = NameConfig then [the (tc_func (arr ! 0))] else [])"

lemma wf_tcs_nth:
  assumes "wf_tcs d arr" and "get_subtc_from arr idx = Inr True"
  shows "idx < length arr \<and> wf_tcs d (drop idx arr) \<and>
    (\<forall>cs. tc_cases (arr ! idx) = Some cs \<longrightarrow> d < 6 \<and> length cs < 2 ^ 32 \<and> wf_tcs (d + 1) cs)
    \<and> (tc_name (arr ! 0) = NameConfig \<longrightarrow> tc_func (arr ! 0) \<noteq> None)"
  using assms
proof (induction arr arbitrary: idx)
  case Nil
  then show ?case by simp
next
  case (Cons tc tcs)
  obtain name func cases where tc: "tc = Testcase name func cases" by (cases tc)
  show ?case
  proof (cases idx)
    case 0
    with Cons.prems tc show ?thesis by (auto split: if_splits option.splits)
  next
    case (Suc j)
    with Cons.prems tc have "wf_tcs d tcs" "get_subtc_from tcs j = Inr True" "name \<noteq> NameEnd"
      by (auto split: if_splits)
    with Cons.IH[of j] Suc tc Cons.prems(1) show ?thesis by (auto split: option.splits)
  qed
qed

lemma run_testcases_ran:
  assumes "wf_tcs d (drop k arr)" and "tc_name (arr ! 0) = NameConfig \<longrightarrow> tc_func (arr ! 0) \<noteq> None"
    and "k < length arr" and "length arr < 2 ^ 32"
    and "at_depth d (testno s)" and "testno s ! d = of_nat (k + 1)"
  shows "\<exists>s'. run_testcases exec l gp k arr s
      = Inr (walk_result (last_reached l (entries gp k (drop k arr))) s', s')
    \<and> ran exec (configs k arr @ before_last l (entries gp k (drop k arr))) s s'"
proof -
  let ?s0 = "s\<lparr>test_res := 0\<rparr>"
  let ?es = "entries gp k (drop k arr)"
  have d: "d < length (testno s)" using assms(5) by (rule at_depth_length)
  have no: "unat (of_nat (k + 1) :: u32) = k + 1" using assms(3,4) by (simp only: unat_of_nat) simp
  have hd_arr: "arr_get arr 0 = Inr (arr ! 0)" using assms(3) by (cases arr) auto
  have ran0: "ran exec fs ?s0 s' = ran exec fs s s'" for fs s' by (simp add: ran_def)
  obtain s1 where s1: "run_config exec arr k ?s0 = Inr s1" "ran exec (configs k arr) ?s0 s1"
    "testno s1 = testno s"
  proof (cases "0 < k \<and> tc_name (arr ! 0) = NameConfig")
    case True
    then obtain f where f: "tc_func (arr ! 0) = Some f" using assms(2) by auto
    have "at_depth d ((testno s)[d := 1])" by (rule at_depth_update[OF assms(5)]) simp
    then obtain s1 where "run_testcase exec ((testno s)[d := 1]) NameConfig f ?s0 = Inr s1"
      "ran exec [f] ?s0 s1" "testno s1 = testno s"
      using run_testcase_ran[of "(testno s)[d := 1]" ?s0 exec NameConfig f] d by auto
    with that[of s1] True f assms(3,5,6) d no show thesis
      by (simp add: run_config_def configs_def Let_def word_less_nat_alt hd_arr)
  next
    case False
    then have "configs k arr = []" by (auto simp: configs_def)
    moreover have "run_config exec arr k ?s0 = Inr ?s0"
      using False assms(3,5,6) d no by (auto simp: run_config_def Let_def word_less_nat_alt hd_arr)
    ultimately show thesis using that[of ?s0] by (simp add: ran_none)
  qed
  show ?thesis
  proof (cases "test_res s1 = 0")
    case False
    with s1 ran_stop[OF s1(2) False] show ?thesis
      by (intro exI[of _ s1]) (simp add: walk_result_def ran0)
  next
    case True
    obtain s2 v where s2: "testcases_loop exec l d gp k (drop k arr) s1 = Inr (walk_result (last_reached l ?es) s2, s2)"
      "ran exec (before_last l ?es) s1 s2" "testno s2 = (testno s1)[d := v]"
      using testcases_loop_ran[OF assms(1), of s1 k exec l gp] assms(3-6) True s1(3) by auto
    with s1 True d ran_trans[OF s1(2) True s2(2)] assms(5) show ?thesis
      by (intro exI[of _ "s2\<lparr>testno := (testno s2)[d := 0]\<rparr>"]) (simp add: ran0 walk_result_def)
  qed
qed

section \<open>The range named by the environment\<close>

text \<open>A number array holds numbers other than 0, then zeros.\<close>

definition is_testno :: "u32 list \<Rightarrow> bool" where
  "is_testno t = (length t = MAX_TEST_DEPTH \<and> (\<exists>n. (\<forall>i<n. t ! i \<noteq> 0) \<and> (\<forall>i. n \<le> i \<and> i < 8 \<longrightarrow> t ! i = 0)))"

lemma is_testnoI:
  assumes "length t = MAX_TEST_DEPTH" and "\<And>i. i < n \<Longrightarrow> t ! i \<noteq> 0"
    and "\<And>i. n \<le> i \<Longrightarrow> i < 8 \<Longrightarrow> t ! i = 0"
  shows "is_testno t"
  using assms unfolding is_testno_def by blast

lemma to_testno_from_is:
  assumes "to_testno_from depth str t = Inr t'" and "length t = MAX_TEST_DEPTH"
    and "\<And>i. i < depth \<Longrightarrow> t ! i \<noteq> 0" and "\<And>i. depth \<le> i \<Longrightarrow> i < 8 \<Longrightarrow> t ! i = 0"
  shows "is_testno t'"
  using assms
proof (induction depth str t rule: to_testno_from.induct)
  case (1 depth str t)
  let ?no = "word_of_int (fst (strtol str)) :: u32" and ?rest = "snd (strtol str)"
  have dep: "depth < 8"
    using "1.prems"(1,2) by (auto simp: to_testno_from.simps[of depth] bnd_eq_Inr arr_set_def
        MAX_TEST_DEPTH_def Let_def split: if_splits)
  then have set: "arr_set t depth ?no = Inr (t[depth := ?no])"
    using "1.prems"(2) by (simp add: MAX_TEST_DEPTH_def)
  show ?case
  proof (cases "?no \<noteq> 0 \<and> ?rest \<noteq> [] \<and> hd ?rest = CHR ''.''")
    case True
    then have run: "to_testno_from (depth + 1) (tl ?rest) (t[depth := ?no]) = Inr t'"
      using "1.prems"(1) set by (simp add: to_testno_from.simps[of depth] Let_def)
    show ?thesis
      by (rule "1.IH"[OF refl refl set _ _ run])
        (use True "1.prems"(2-4) dep in \<open>auto simp: nth_list_update MAX_TEST_DEPTH_def less_Suc_eq\<close>)
  next
    case False
    then have t': "t' = t[depth := ?no]"
      using "1.prems"(1) set by (auto simp: to_testno_from.simps[of depth] Let_def split: if_splits)
    show ?thesis
      by (rule is_testnoI[where n = "if ?no = 0 then depth else depth + 1"])
        (use "1.prems"(2-4) dep in \<open>auto simp: t' nth_list_update MAX_TEST_DEPTH_def less_Suc_eq split: if_splits\<close>)
  qed
qed

lemma to_testno_is:
  assumes "to_testno str = Inr t"
  shows "is_testno t"
proof (cases str)
  case None
  with assms show ?thesis
    by (intro is_testnoI[where n = 0]) (auto simp: to_testno_def MAX_TEST_DEPTH_def)
next
  case (Some a)
  with assms show ?thesis
    using to_testno_from_is[of 0 a "replicate MAX_TEST_DEPTH 0" t]
    by (simp add: to_testno_def MAX_TEST_DEPTH_def)
qed

text \<open>What a successful walk says about the entry it finds, at level \<open>d\<close>.\<close>

definition pos_ok :: "nat \<Rightarrow> u32 \<Rightarrow> 'f tc_pos \<Rightarrow> bool" where
  "pos_ok d no pos =
     (case pos of (gp, k, arr) \<Rightarrow>
        no = of_nat (k + 1) \<and> k < length arr \<and> length arr < 2 ^ 32 \<and> wf_tcs d (drop k arr)
        \<and> (tc_name (arr ! 0) = NameConfig \<longrightarrow> tc_func (arr ! 0) \<noteq> None))"

lemma get_tc_from_ok:
  assumes "get_tc_from gp cases pos ns = Inr (Some pos')"
    and "\<And>cs. cases = Some cs \<Longrightarrow> d < 7 \<and> length cs < 2 ^ 32 \<and> wf_tcs d cs"
  shows "\<exists>n<length ns. (\<forall>i<n. ns ! i \<noteq> 0) \<and> ns ! n = 0 \<and>
    (if n = 0 then pos' = pos else d + n - 1 < 7 \<and> pos_ok (d + n - 1) (ns ! (n - 1)) pos')"
  using assms
proof (induction ns arbitrary: gp cases pos d)
  case Nil
  then show ?case by simp
next
  case (Cons a ns)
  show ?case
  proof (cases "a = 0")
    case True
    with Cons.prems(1) show ?thesis by (intro exI[of _ 0]) simp
  next
    case False
    then obtain k arr where k: "cases = Some arr" "get_subtc_from arr (unat (a - 1)) = Inr True"
      "k = unat (a - 1)"
      "get_tc_from (gp @ [k]) (tc_cases (arr ! k)) (gp, k, arr) ns = Inr (Some pos')"
      using Cons.prems(1)
      by (auto simp: get_subtc_def bnd_eq_Inr split: option.splits if_splits)
    have d: "d < 7" "length arr < 2 ^ 32" "wf_tcs d arr" using Cons.prems(2)[OF k(1)] by auto
    note nth = wf_tcs_nth[OF d(3) k(2), folded k(3)]
    have "a = of_nat (k + 1)" using k(3) by simp
    then have pos: "pos_ok d a (gp, k, arr)" using nth d by (simp add: pos_ok_def)
    from Cons.IH[OF k(4), of "d + 1"] nth obtain n where n: "n < length ns" "\<forall>i<n. ns ! i \<noteq> 0" "ns ! n = 0"
      "if n = 0 then pos' = (gp, k, arr) else d + 1 + n - 1 < 7 \<and> pos_ok (d + 1 + n - 1) (ns ! (n - 1)) pos'"
      by auto
    show ?thesis
    proof (intro exI[of _ "Suc n"] conjI)
      show "\<forall>i<Suc n. (a # ns) ! i \<noteq> 0" using n(2) False by (auto simp: nth_Cons split: nat.splits)
      show "if Suc n = 0 then pos' = pos
        else d + Suc n - 1 < 7 \<and> pos_ok (d + Suc n - 1) ((a # ns) ! (Suc n - 1)) pos'"
        using n(4) pos d(1) by (cases n) simp_all
    qed (use n in simp_all)
  qed
qed

lemma read_env_ok:
  assumes "read_env_var arr env_first env_last = Inr (Some (t, pos, last_tc))"
    and "wf_tcs 0 arr" and "length arr < 2 ^ 32"
  shows "\<exists>d. at_depth d t \<and> pos_ok d (t ! d) pos"
proof -
  obtain t1 where t1: "to_testno env_first = Inr t1" using assms(1) by (auto simp: read_env_var_def bnd_eq_Inr)
  show ?thesis
  proof (cases "t1 ! 0 = 0")
    case True
    then have r: "t = (replicate MAX_TEST_DEPTH 0)[0 := 1]" "pos = ([], 0, arr)"
      using assms(1) t1 by (auto simp: read_env_var_def bnd_eq_Inr split: if_splits)
    have "at_depth 0 t" by (auto simp: r at_depth_def MAX_TEST_DEPTH_def)
    moreover obtain name func cases tcs' where arr: "arr = Testcase name func cases # tcs'"
      using assms(2) by (metis neq_Nil_conv testcase.exhaust wf_tcs.simps(1))
    have "tc_name (arr ! 0) = NameConfig \<longrightarrow> tc_func (arr ! 0) \<noteq> None"
      using assms(2) by (auto simp: arr split: option.splits)
    then have "pos_ok 0 (t ! 0) pos"
      using assms(2,3) arr by (simp add: r pos_ok_def MAX_TEST_DEPTH_def)
    ultimately show ?thesis by blast
  next
    case False
    then have r: "get_tc arr t1 = Inr (Some pos)" "t = t1"
      using assms(1) t1 by (auto simp: read_env_var_def bnd_eq_Inr split: if_splits option.splits)
    obtain n where n: "n < length t" "\<forall>i<n. t ! i \<noteq> 0" "t ! n = 0"
      "if n = 0 then pos = ([], 0, arr) else 0 + n - 1 < 7 \<and> pos_ok (0 + n - 1) (t ! (n - 1)) pos"
      using get_tc_from_ok[OF r(1)[unfolded get_tc_def], of 0] assms(2,3) r(2) by auto
    have "n \<noteq> 0" using n(3) False r(2) by (cases n) auto
    obtain m where m: "\<forall>i<m. t ! i \<noteq> 0" "\<forall>i. m \<le> i \<and> i < 8 \<longrightarrow> t ! i = 0" "length t = MAX_TEST_DEPTH"
      using to_testno_is[OF t1] r(2) unfolding is_testno_def by blast
    have "n < 8" using n(1) m(3) by (simp add: MAX_TEST_DEPTH_def)
    then have "\<not> n < m" "\<not> m < n" using m(1,2) n(2,3) by auto
    then have "m = n" by simp
    then have "at_depth (n - 1) t"
      using m n \<open>n \<noteq> 0\<close> by (auto simp: at_depth_def)
    then show ?thesis using n(4) \<open>n \<noteq> 0\<close> by auto
  qed
qed

text \<open>C23: For a well-formed suite of at most \<open>2 ^ 32 - 1\<close> cases, and a range the environment names,
  the functions that run are exactly these, in this order: the configuration of the array when
  the range starts after it, then the cases from the first one to the end of its array, groups
  unfolded, up to but not including the last one, and up to the first case that leaves a result
  other than 0, be it a failure or an ignored case. The counters of the summary are their passes
  and failures, and the program divides by zero when both are 0; otherwise it returns 0.
\<close>

theorem testsuite_run_exact:
  assumes "wf_tcs 0 arr" and "length arr < 2 ^ 32"
    and "read_env_var arr env_first env_last = Inr (Some (t, (gp, k, tcs), last_tc))"
    and "run_all exec (configs k tcs @ before_last last_tc (entries gp k (drop k tcs)))
           (case set_up of None \<Rightarrow> w | Some f \<Rightarrow> f w) = (rs, w')"
    and "length rs < 2 ^ 32"
  shows "if filter is_pass rs = [] \<and> filter is_fail rs = []
    then testsuite_run exec arr set_up tear_down env_first env_last w = Inl Fault
    else \<exists>s sum. testsuite_run exec arr set_up tear_down env_first env_last w = Inr (Some (0, s, sum))
      \<and> List.map_filter case_result (test_log s) = rs
      \<and> world s = (case tear_down of None \<Rightarrow> w' | Some f \<Rightarrow> f w')
      \<and> unat (nr_passes s) = length (filter is_pass rs)
      \<and> unat (nr_fails s) = length (filter is_fail rs)"
proof -
  let ?s0 = "\<lparr>testno = t, test_res = 0, nr_passes = 0, nr_fails = 0, test_log = [],
      world = (case set_up of None \<Rightarrow> w | Some f \<Rightarrow> f w)\<rparr>"
  let ?fs = "configs k tcs @ before_last last_tc (entries gp k (drop k tcs))"
  obtain d where d: "at_depth d t" "pos_ok d (t ! d) (gp, k, tcs)"
    using read_env_ok[OF assms(3,1,2)] by blast
  then obtain s' r where s': "run_testcases exec last_tc gp k tcs ?s0 = Inr (r, s')"
    "ran exec ?fs ?s0 s'"
    using run_testcases_ran[where s = ?s0 and exec = exec and d = d and k = k and arr = tcs
        and l = last_tc and gp = gp] by (auto simp: pos_ok_def)
  let ?p = "length (filter is_pass rs)" and ?f = "length (filter is_fail rs)"
  have fin: "List.map_filter case_result (test_log s') = rs" "world s' = w'"
    "nr_passes s' = of_nat ?p" "nr_fails s' = of_nat ?f"
    using s'(2) assms(4) by (simp_all add: ran_def)
  have "?p + ?f \<le> length rs"
    by (induction rs) (auto simp: is_pass_def)
  then have bound: "?p + ?f < 2 ^ 32" using assms(5) by simp
  then have p: "unat (of_nat ?p :: u32) = ?p" and f: "unat (of_nat ?f :: u32) = ?f"
    and pf: "unat (of_nat ?p + of_nat ?f :: u32) = ?p + ?f"
    by (simp_all add: unat_of_nat flip: of_nat_add)
  have zero: "(of_nat ?p + of_nat ?f :: u32) = 0 \<longleftrightarrow> filter is_pass rs = [] \<and> filter is_fail rs = []"
    using pf by (simp flip: unat_eq_0)
  have run: "testsuite_run exec arr set_up tear_down env_first env_last w =
    bnd (show_summary (nr_passes s') (nr_fails s')) (\<lambda>sum. Inr (Some (0,
      case tear_down of None \<Rightarrow> s' | Some f \<Rightarrow> s'\<lparr>world := f (world s')\<rparr>, sum)))"
    using assms(3) s'(1) by (cases set_up; cases tear_down) (simp_all add: testsuite_run_def Let_def)
  show ?thesis
  proof (cases "filter is_pass rs = [] \<and> filter is_fail rs = []")
    case True
    then show ?thesis using run fin zero by (simp add: show_summary_def)
  next
    case False
    then show ?thesis
      using run fin zero p f by (cases tear_down) (simp_all add: show_summary_def Let_def)
  qed
qed

text \<open>
  A suite whose third case is ignored, started at its second entry: the configuration runs first,
  and the case after the ignored one does not run.
\<close>

definition suite_ex :: "nat testcase list" where
  "suite_ex =
     [Testcase NameConfig (Some 0) None, Testcase (Name ''a'') (Some 1) None,
      Testcase (Name ''g'') None
        (Some [Testcase (Name ''b'') (Some 2) None, Testcase (Name ''c'') (Some 3) None,
               Testcase NameEnd None None]),
      Testcase (Name ''d'') (Some 4) None, Testcase NameEnd None None]"

definition exec_ex :: "nat \<Rightarrow> nat list \<Rightarrow> int \<times> nat list" where
  "exec_ex f w = (if f = 3 then TESTCASE_IGNORE else 0, w @ [f])"

lemma testno_ex: "to_testno (Some ''2'') = Inr [2, 0, 0, 0, 0, 0, 0, 0]"
proof -
  have "strtol ''2'' = (2, [])" by (simp add: strtol_defs)
  then show ?thesis
    by (simp add: to_testno_def to_testno_from.simps[of 0] MAX_TEST_DEPTH_def numeral_eq_Suc arr_set_def)
qed

lemma range_ex: "read_env_var suite_ex (Some ''2'') None
    = Inr (Some ([2, 0, 0, 0, 0, 0, 0, 0], ([], 1, suite_ex), None))"
  by (simp add: read_env_var_def testno_ex get_tc_def get_subtc_def suite_ex_def)
    (simp add: to_testno_def MAX_TEST_DEPTH_def)

lemma run_ex: "run_all exec_ex (configs 1 suite_ex @ before_last None (entries [] 1 (drop 1 suite_ex))) []
    = ([(0, 0), (1, 0), (2, 0), (3, 3)], [0, 1, 2, 3])"
  by (simp add: suite_ex_def configs_def exec_ex_def TESTCASE_IGNORE_def)

lemma testsuite_run_exact_witness:
  "\<exists>s sum. testsuite_run exec_ex suite_ex None None (Some ''2'') None [] = Inr (Some (0, s, sum))
     \<and> world s = [0, 1, 2, 3] \<and> unat (nr_passes s) = 3"
proof -
  have wf: "wf_tcs 0 suite_ex" "length suite_ex < 2 ^ 32" by (simp_all add: suite_ex_def)
  show ?thesis
    using testsuite_run_exact[OF wf range_ex, where exec = exec_ex and set_up = None and w = "[]"
        and rs = "[(0, 0), (1, 0), (2, 0), (3, 3)]" and w' = "[0, 1, 2, 3]" and tear_down = None] run_ex
    by (auto simp: is_pass_def is_fail_def TESTCASE_FAIL_def TESTGROUP_FAIL_def TESTCASE_IGNORE_def)
qed

end
