(* ===== verification/SsdsimEnv.thy ===== *)
theory SsdsimEnv
  imports CString
begin

text \<open>
  The environment that lets programs written for SPDK run against the simulated SSD
  (\<open>env_ssdsim/\<close>): the allocator over the shared memory object and the memory pools of \<open>env.c\<close>,
  the address translation of \<open>vtophys.c\<close> and \<open>memory.c\<close>, the PCI addresses of \<open>pci.c\<close>, and the processor numbers of \<open>threads.c\<close>.
\<close>

section \<open>Shared memory\<close>

text \<open>
  \<open>shm_base\<close> is the address the object is mapped at and \<open>shm\<close> its bytes; \<open>shm_used\<close> is the
  counter that the processes share.
\<close>

record ssdsim_env =
  shm_base :: u64
  phys_base :: u64
  shm_used :: u32
  shm :: bytes
  is_primary :: bool

definition virt_to_phys :: "ssdsim_env \<Rightarrow> u64 \<Rightarrow> u64" where
  "virt_to_phys e vaddr = phys_base e + (vaddr - shm_base e)"

definition spdk_vtophys :: "ssdsim_env \<Rightarrow> u64 \<Rightarrow> u64" where
  "spdk_vtophys e buf = phys_base e + (buf - shm_base e)"

text \<open>
  The counter is 32 bits wide: both additions are computed in 64 bits and cut. \<open>phys_addr\<close> is
  what is stored through the pointer, when there is one and the buffer is not null.
\<close>

definition align_used :: "u32 \<Rightarrow> u64 \<Rightarrow> u32" where
  "align_used used align =
     (if ucast used mod align \<noteq> 0 then ucast (ucast used + (align - ucast used mod align)) else used)"

definition spdk_malloc :: "u64 \<Rightarrow> u64 \<Rightarrow> ssdsim_env \<Rightarrow> u64 \<times> u64 option \<times> ssdsim_env" where
  "spdk_malloc sz align e =
     (let align = (if align < 8 then 8 else align);
          used = align_used (shm_used e) align;
          buf = shm_base e + ucast used in
      (buf, if buf \<noteq> 0 then Some (virt_to_phys e buf) else None,
       e\<lparr>shm_used := ucast (ucast used + sz)\<rparr>))"

text \<open>The buffer is cleared; outside the object this is an access out of range.\<close>

definition spdk_zmalloc :: "u64 \<Rightarrow> u64 \<Rightarrow> ssdsim_env \<Rightarrow> (u64 \<times> u64 option \<times> ssdsim_env) res" where
  "spdk_zmalloc sz align e =
     (let (buf, phys, e) = spdk_malloc sz align e in
      if buf = 0 then Inr (buf, phys, e)
      else bnd (mem_write (shm e) (unat (buf - shm_base e)) (replicate (unat sz) 0)) (\<lambda>m.
           Inr (buf, phys, e\<lparr>shm := m\<rparr>)))"

definition spdk_free :: "u64 \<Rightarrow> ssdsim_env \<Rightarrow> ssdsim_env" where
  "spdk_free buf e = e"

definition spdk_dma_malloc :: "u64 \<Rightarrow> u64 \<Rightarrow> ssdsim_env \<Rightarrow> u64 \<times> u64 option \<times> ssdsim_env" where
  "spdk_dma_malloc sz align e = spdk_malloc sz align e"

definition spdk_dma_zmalloc :: "u64 \<Rightarrow> u64 \<Rightarrow> ssdsim_env \<Rightarrow> (u64 \<times> u64 option \<times> ssdsim_env) res" where
  "spdk_dma_zmalloc sz align e = spdk_zmalloc sz align e"

text \<open>Nothing is copied from the old buffer.\<close>

definition spdk_dma_realloc :: "u64 \<Rightarrow> u64 \<Rightarrow> u64 \<Rightarrow> ssdsim_env \<Rightarrow> u64 \<times> u64 option \<times> ssdsim_env" where
  "spdk_dma_realloc buf sz align e = spdk_dma_malloc sz align e"

definition spdk_memzone_reserve :: "string \<Rightarrow> u64 \<Rightarrow> ssdsim_env \<Rightarrow> u64" where
  "spdk_memzone_reserve name len e = shm_base e"

definition spdk_memzone_lookup :: "string \<Rightarrow> ssdsim_env \<Rightarrow> u64" where
  "spdk_memzone_lookup name e = (if is_primary e then 0 else shm_base e)"

section \<open>Memory pools\<close>

text \<open>
  The bit array is the library's (\<open>spdk/bit_array.h\<close>): its operations are an argument, with what
  they are documented to do stated by \<open>bit_array_laws\<close>; \<open>bits\<close> tells which bits are set and
  \<open>UINT_MAX\<close> is the answer when no bit from the start on is clear.
\<close>

record 'b bit_array_ops =
  bit_array_create :: "u32 \<Rightarrow> 'b option"
  bit_array_set :: "'b \<Rightarrow> u32 \<Rightarrow> 'b"
  bit_array_clear :: "'b \<Rightarrow> u32 \<Rightarrow> 'b"
  bit_array_find_first_clear :: "'b \<Rightarrow> u32 \<Rightarrow> u32"

definition UINT_MAX :: u32 where "UINT_MAX = 0xFFFFFFFF"

record 'b spdk_mempool =
  mp_name :: string
  mp_ba :: 'b
  mp_elements :: u64
  mp_ele_size :: u64
  mp_count :: u64

text \<open>\<open>elements\<close> is the address of the allocated block, 0 when the allocation fails.\<close>

definition spdk_mempool_create ::
  "'b bit_array_ops \<Rightarrow> bool \<Rightarrow> u64 \<Rightarrow> string \<Rightarrow> u64 \<Rightarrow> u64 \<Rightarrow> 'b spdk_mempool option" where
  "spdk_mempool_create ops malloc_ok elements name count ele_size =
     (if \<not> malloc_ok then None
      else case bit_array_create ops (ucast count) of None \<Rightarrow> None
           | Some ba \<Rightarrow>
               if elements = 0 then None
               else Some \<lparr>mp_name = take 127 name, mp_ba = ba, mp_elements = elements,
                          mp_ele_size = ele_size, mp_count = count\<rparr>)"

text \<open>The element, or a null pointer.\<close>

definition spdk_mempool_get :: "'b bit_array_ops \<Rightarrow> 'b spdk_mempool \<Rightarrow> u64 \<times> 'b spdk_mempool" where
  "spdk_mempool_get ops mp =
     (if mp_count mp = 0 then (0, mp)
      else let index = bit_array_find_first_clear ops (mp_ba mp) 0 in
           if index = UINT_MAX then (0, mp)
           else (mp_elements mp + mp_ele_size mp * ucast index,
                 mp\<lparr>mp_ba := bit_array_set ops (mp_ba mp) index, mp_count := mp_count mp - 1\<rparr>))"

fun get_loop :: "'b bit_array_ops \<Rightarrow> nat \<Rightarrow> 'b spdk_mempool \<Rightarrow> u64 list \<times> 'b spdk_mempool" where
  "get_loop ops 0 mp = ([], mp)"
| "get_loop ops (Suc n) mp =
     (let (ele, mp) = spdk_mempool_get ops mp; (eles, mp) = get_loop ops n mp in (ele # eles, mp))"

text \<open>The return value, the array and the pool, for counts below \<open>2 ^ 32\<close>, the range of the loop counter.\<close>

definition spdk_mempool_get_bulk ::
  "'b bit_array_ops \<Rightarrow> 'b spdk_mempool \<Rightarrow> u32 \<Rightarrow> int \<times> u64 list \<times> 'b spdk_mempool" where
  "spdk_mempool_get_bulk ops mp count =
     (if mp_count mp < ucast count then (- 1, [], mp)
      else let (eles, mp) = get_loop ops (unat count) mp in (0, eles, mp))"

text \<open>A pool of elements of size 0 divides by zero.\<close>

definition spdk_mempool_put ::
  "'b bit_array_ops \<Rightarrow> 'b spdk_mempool \<Rightarrow> u64 \<Rightarrow> 'b spdk_mempool res" where
  "spdk_mempool_put ops mp ele =
     (if mp_ele_size mp = 0 then Inl Fault
      else let index = ucast ((ele - mp_elements mp) div mp_ele_size mp) in
           Inr (mp\<lparr>mp_ba := bit_array_clear ops (mp_ba mp) index, mp_count := mp_count mp + 1\<rparr>))"

fun spdk_mempool_put_bulk ::
  "'b bit_array_ops \<Rightarrow> 'b spdk_mempool \<Rightarrow> u64 list \<Rightarrow> 'b spdk_mempool res" where
  "spdk_mempool_put_bulk ops mp [] = Inr mp"
| "spdk_mempool_put_bulk ops mp (ele # eles) =
     bnd (spdk_mempool_put ops mp ele) (\<lambda>mp. spdk_mempool_put_bulk ops mp eles)"

section \<open>Translation, cores, PCI\<close>

definition spdk_mem_map_translate :: "u64 \<Rightarrow> u64" where
  "spdk_mem_map_translate vaddr = vaddr"

definition spdk_env_get_core_count :: u32 where "spdk_env_get_core_count = 8"

definition spdk_env_get_first_core :: u32 where "spdk_env_get_first_core = 0"

definition spdk_env_get_last_core :: u32 where "spdk_env_get_last_core = 8"

definition spdk_env_get_next_core :: "u32 \<Rightarrow> u32" where
  "spdk_env_get_next_core prev_core = (if prev_core = 7 then NOT 0 else prev_core + 1)"

record pci_addr =
  pci_domain :: u32
  pci_bus :: u8
  pci_dev :: u8
  pci_func :: u8

definition spdk_pci_addr_compare :: "pci_addr \<Rightarrow> pci_addr \<Rightarrow> int" where
  "spdk_pci_addr_compare a1 a2 =
     (if pci_domain a1 > pci_domain a2 then 1
      else if pci_domain a1 < pci_domain a2 then - 1
      else if pci_bus a1 > pci_bus a2 then 1
      else if pci_bus a1 < pci_bus a2 then - 1
      else if pci_dev a1 > pci_dev a2 then 1
      else if pci_dev a1 < pci_dev a2 then - 1
      else if pci_func a1 > pci_func a2 then 1
      else if pci_func a1 < pci_func a2 then - 1
      else 0)"

text \<open>
  \<open>sscanf\<close> with conversions \<open>%x\<close> and plain characters: the values converted before the first
  mismatch. A conversion skips white space and takes a sign, \<open>0x\<close> before a digit, and digits.
\<close>

definition hex_val :: "char \<Rightarrow> nat option" where
  "hex_val ch =
     (let n = of_char ch :: nat in
      if 48 \<le> n \<and> n \<le> 57 then Some (n - 48)
      else if 97 \<le> n \<and> n \<le> 102 then Some (n - 87)
      else if 65 \<le> n \<and> n \<le> 70 then Some (n - 55) else None)"

definition is_hex :: "char \<Rightarrow> bool" where
  "is_hex ch = (hex_val ch \<noteq> None)"

definition hex_number :: "string \<Rightarrow> nat" where
  "hex_number s = foldl (\<lambda>n ch. 16 * n + the (hex_val ch)) 0 s"

definition scan_hex :: "string \<Rightarrow> (u32 \<times> string) option" where
  "scan_hex s =
     (let r = dropWhile is_space s;
          neg = (r \<noteq> [] \<and> hd r = CHR ''-'');
          r = (if r \<noteq> [] \<and> (hd r = CHR ''-'' \<or> hd r = CHR ''+'') then tl r else r);
          r = (if 2 < length r \<and> r ! 0 = CHR ''0'' \<and> (r ! 1 = CHR ''x'' \<or> r ! 1 = CHR ''X'')
                  \<and> is_hex (r ! 2) then drop 2 r else r);
          v = int (hex_number (takeWhile is_hex r)) in
      if takeWhile is_hex r = [] then None
      else Some (word_of_int (if 2 ^ 64 \<le> v then 2 ^ 64 - 1 else if neg then - v else v),
                 dropWhile is_hex r))"

datatype scan_item = Hex | Lit char

fun sscanf :: "scan_item list \<Rightarrow> string \<Rightarrow> u32 list" where
  "sscanf [] s = []"
| "sscanf (Hex # fs) s = (case scan_hex s of None \<Rightarrow> [] | Some (v, r) \<Rightarrow> v # sscanf fs r)"
| "sscanf (Lit ch # fs) s = (case s of [] \<Rightarrow> [] | x # r \<Rightarrow> if x = ch then sscanf fs r else [])"

text \<open>\<open>%x\<close> with these separators in between.\<close>

definition hexes :: "string \<Rightarrow> scan_item list" where
  "hexes seps = Hex # concat (map (\<lambda>ch. [Lit ch, Hex]) seps)"

text \<open>\<open>None\<close> is the result \<open>-EINVAL\<close>.\<close>

definition spdk_pci_addr_parse :: "string \<Rightarrow> pci_addr option" where
  "spdk_pci_addr_parse bdf =
     (let r = (case sscanf (hexes ''::.'') bdf of [d, b, v, f] \<Rightarrow> Some (d, b, v, f)
        | _ \<Rightarrow> case sscanf (hexes ''...'') bdf of [d, b, v, f] \<Rightarrow> Some (d, b, v, f)
        | _ \<Rightarrow> case sscanf (hexes ''::'') bdf of [d, b, v] \<Rightarrow> Some (d, b, v, 0)
        | _ \<Rightarrow> case sscanf (hexes '':.'') bdf of [b, v, f] \<Rightarrow> Some (0, b, v, f)
        | _ \<Rightarrow> case sscanf (hexes ''..'') bdf of [b, v, f] \<Rightarrow> Some (0, b, v, f)
        | _ \<Rightarrow> case sscanf (hexes '':'') bdf of [b, v] \<Rightarrow> Some (0, b, v, 0)
        | _ \<Rightarrow> case sscanf (hexes ''.'') bdf of [b, v] \<Rightarrow> Some (0, b, v, 0)
        | _ \<Rightarrow> None) in
      case r of None \<Rightarrow> None
      | Some (domain, bus, dev, func) \<Rightarrow>
          if bus > 0xFF \<or> dev > 0x1F \<or> func > 7 then None
          else Some \<lparr>pci_domain = domain, pci_bus = ucast bus, pci_dev = ucast dev,
                     pci_func = ucast func\<rparr>)"

text \<open>\<open>%0nx\<close>: at least \<open>n\<close> digits.\<close>

definition hex_char :: "nat \<Rightarrow> char" where
  "hex_char n = char_of (if n < 10 then 48 + n else 87 + n)"

fun hex_string :: "nat \<Rightarrow> string" where
  "hex_string n = (if n < 16 then [hex_char n] else hex_string (n div 16) @ [hex_char (n mod 16)])"

declare hex_string.simps [simp del]

definition print_hex :: "nat \<Rightarrow> nat \<Rightarrow> string" where
  "print_hex width n = replicate (width - length (hex_string n)) (CHR ''0'') @ hex_string n"

definition pci_addr_text :: "pci_addr \<Rightarrow> string" where
  "pci_addr_text a =
     print_hex 4 (unat (pci_domain a)) @ '':'' @ print_hex 2 (unat (pci_bus a)) @ '':''
       @ print_hex 2 (unat (pci_dev a)) @ ''.'' @ print_hex 1 (unat (pci_func a))"

text \<open>The result and the string in a buffer of \<open>sz\<close> bytes, the terminator left out.\<close>

definition spdk_pci_addr_fmt :: "nat \<Rightarrow> pci_addr \<Rightarrow> int \<times> string" where
  "spdk_pci_addr_fmt sz a =
     (let rc = length (pci_addr_text a) in
      (if 0 < rc \<and> rc < sz then 0 else - 1, take (sz - 1) (pci_addr_text a)))"

section \<open>The allocator keeps buffers apart\<close>

definition malloc_align :: "u64 \<Rightarrow> u64" where
  "malloc_align align = (if align < 8 then 8 else align)"

lemma malloc_align_pos: "0 < unat (malloc_align a)"
  by (auto simp: malloc_align_def unat_gt_0 word_le_nat_alt)

text \<open>The aligned counter: the next multiple, when it fits into 32 bits.\<close>

lemma align_used_exact:
  assumes "0 < unat a" and "unat used + unat a < 2 ^ 32"
  shows "unat (align_used used a) mod unat a = 0"
    and "unat used \<le> unat (align_used used a)" and "unat (align_used used a) < unat used + unat a"
proof -
  let ?U = "unat used" and ?A = "unat a"
  let ?r = "?U mod ?A"
  have r: "unat (ucast used mod a :: u64) = ?r" by (simp add: unat_mod unat_u32_u64)
  show "unat (align_used used a) mod ?A = 0" "?U \<le> unat (align_used used a)"
    "unat (align_used used a) < ?U + ?A"
  proof (atomize (full), cases "?r = 0")
    case True
    then have "align_used used a = used" using r by (simp add: align_used_def flip: unat_eq_0)
    with True assms(1) show "unat (align_used used a) mod ?A = 0 \<and> ?U \<le> unat (align_used used a)
        \<and> unat (align_used used a) < ?U + ?A" by simp
  next
    case False
    have le: "?r < ?A" using assms(1) by simp
    then have "unat (a - ucast used mod a) = ?A - ?r"
      using r by (simp add: unat_sub word_le_nat_alt)
    then have "unat (ucast used + (a - ucast used mod a)) = ?U + (?A - ?r)"
      using assms(2) le by (simp add: unat_word_ariths unat_u32_u64)
    moreover have "(ucast used mod a :: u64) \<noteq> 0" using False r by (metis unat_0)
    then have "align_used used a = ucast (ucast used + (a - ucast used mod a))"
      by (simp only: align_used_def simp_thms if_True)
    ultimately have u: "unat (align_used used a) = ?U + (?A - ?r)"
      using assms(2) le by (simp add: unsigned_ucast_eq take_bit_eq_mod)
    have "?U + (?A - ?r) = ?U div ?A * ?A + ?A"
      using le div_mult_mod_eq[of ?U ?A] by linarith
    also have "\<dots> = (?U div ?A + 1) * ?A" by simp
    finally have "?U + (?A - ?r) = (?U div ?A + 1) * ?A" .
    then have "unat (align_used used a) mod ?A = 0" using u by simp
    moreover have "?U \<le> unat (align_used used a)" "unat (align_used used a) < ?U + ?A"
      using u le False by linarith+
    ultimately show "unat (align_used used a) mod ?A = 0 \<and> ?U \<le> unat (align_used used a)
        \<and> unat (align_used used a) < ?U + ?A" by blast
  qed
qed

text \<open>A sequence of requests: size and alignment of each.\<close>

fun allocs :: "(u64 \<times> u64) list \<Rightarrow> ssdsim_env \<Rightarrow> u64 list \<times> ssdsim_env" where
  "allocs [] e = ([], e)"
| "allocs ((sz, align) # reqs) e =
     (let (buf, phys, e) = spdk_malloc sz align e; (bufs, e) = allocs reqs e in (buf # bufs, e))"

text \<open>The space the requests take at most.\<close>

definition alloc_need :: "(u64 \<times> u64) list \<Rightarrow> nat" where
  "alloc_need reqs = (\<Sum>(sz, align)\<leftarrow>reqs. unat sz + unat (malloc_align align))"

lemma spdk_malloc_exact:
  assumes "unat (shm_used e) + unat sz + unat (malloc_align align) < 2 ^ 32"
  shows "\<exists>phys u. spdk_malloc sz align e =
      (shm_base e + ucast (align_used (shm_used e) (malloc_align align)), phys, e\<lparr>shm_used := u\<rparr>)
    \<and> unat u = unat (align_used (shm_used e) (malloc_align align)) + unat sz"
proof -
  let ?u = "align_used (shm_used e) (malloc_align align)"
  have "unat ?u + unat sz < 2 ^ 32"
    using align_used_exact(3)[OF malloc_align_pos, of "shm_used e" align] assms by simp
  then have "unat (ucast (ucast ?u + sz) :: u32) = unat ?u + unat sz"
    by (simp add: unsigned_ucast_eq take_bit_eq_mod unat_word_ariths unat_u32_u64)
  then show ?thesis by (auto simp: spdk_malloc_def Let_def malloc_align_def)
qed

lemma buf_offset: "unat (b + ucast (u :: u32) - b) = unat u" for b :: u64
  by (simp add: unat_u32_u64)

text \<open>The buffers lie one after the other above what was in use, as long as the counter does not wrap around.\<close>

lemma allocs_apart:
  assumes "unat (shm_used e) + alloc_need reqs < 2 ^ 32" and "allocs reqs e = (bufs, e')"
    and "off = (\<lambda>i. unat (bufs ! i - shm_base e))"
  shows "length bufs = length reqs \<and> e' = e\<lparr>shm_used := shm_used e'\<rparr>
    \<and> unat (shm_used e) \<le> unat (shm_used e') \<and> unat (shm_used e') \<le> unat (shm_used e) + alloc_need reqs
    \<and> (\<forall>i<length reqs. off i mod unat (malloc_align (snd (reqs ! i))) = 0
         \<and> unat (shm_used e) \<le> off i \<and> off i + unat (fst (reqs ! i)) \<le> unat (shm_used e'))
    \<and> (\<forall>i j. i < j \<and> j < length reqs \<longrightarrow> off i + unat (fst (reqs ! i)) \<le> off j)"
  using assms
proof (induction reqs arbitrary: e bufs off)
  case Nil
  then show ?case by simp
next
  case (Cons rq reqs)
  obtain sz align where rq: "rq = (sz, align)" by (cases rq)
  let ?u = "align_used (shm_used e) (malloc_align align)"
  have need: "unat (shm_used e) + unat sz + unat (malloc_align align) + alloc_need reqs < 2 ^ 32"
    using Cons.prems(1) by (simp add: rq alloc_need_def)
  then obtain phys u where m: "spdk_malloc sz align e = (shm_base e + ucast ?u, phys, e\<lparr>shm_used := u\<rparr>)"
    "unat u = unat ?u + unat sz"
    using spdk_malloc_exact[of e sz align] by auto
  obtain bs where bs: "allocs reqs (e\<lparr>shm_used := u\<rparr>) = (bs, e')" "bufs = (shm_base e + ucast ?u) # bs"
    using Cons.prems(2) m(1) by (auto simp: rq split: prod.splits)
  note al = align_used_exact[OF malloc_align_pos, of "shm_used e" align]
  have lt: "unat (shm_used e) + unat (malloc_align align) < 2 ^ 32" using need by simp
  have u: "unat (shm_used e) \<le> unat u" "unat u + alloc_need reqs < 2 ^ 32"
    using al(2,3)[OF lt] need m(2) by simp_all
  have u_le: "unat u + alloc_need reqs \<le> unat (shm_used e) + alloc_need (rq # reqs)"
    using al(3)[OF lt] m(2) by (simp add: rq alloc_need_def)
  have IH: "length bs = length reqs" "unat u \<le> unat (shm_used e') \<and> unat (shm_used e') \<le> unat u + alloc_need reqs" "e' = e\<lparr>shm_used := u\<rparr>\<lparr>shm_used := shm_used e'\<rparr>"
    "\<And>i. i < length reqs \<Longrightarrow> unat (bs ! i - shm_base e) mod unat (malloc_align (snd (reqs ! i))) = 0
       \<and> unat u \<le> unat (bs ! i - shm_base e)
       \<and> unat (bs ! i - shm_base e) + unat (fst (reqs ! i)) \<le> unat (shm_used e')"
    "\<And>i j. i < j \<Longrightarrow> j < length reqs \<Longrightarrow>
       unat (bs ! i - shm_base e) + unat (fst (reqs ! i)) \<le> unat (bs ! j - shm_base e)"
    using Cons.IH[of "e\<lparr>shm_used := u\<rparr>" bs] u(2) bs(1) by auto
  have off: "off 0 = unat ?u" "\<And>i. off (Suc i) = unat (bs ! i - shm_base e)"
    using Cons.prems(3) bs(2) by (simp_all add: unat_u32_u64)
  show ?case
  proof (intro conjI allI impI)
    show "length bufs = length (rq # reqs)" using bs(2) IH(1) by simp
    show "e' = e\<lparr>shm_used := shm_used e'\<rparr>" using IH(3) by simp
    show "unat (shm_used e) \<le> unat (shm_used e')" using u(1) IH(2) by simp
    show "unat (shm_used e') \<le> unat (shm_used e) + alloc_need (rq # reqs)" using u_le IH(2) by simp
  next
    fix i assume "i < length (rq # reqs)"
    then show "off i mod unat (malloc_align (snd ((rq # reqs) ! i))) = 0"
      "unat (shm_used e) \<le> off i" "off i + unat (fst ((rq # reqs) ! i)) \<le> unat (shm_used e')"
      using al[OF lt] m(2) IH(2) IH(4)[of "i - 1"] u(1) off
      by (cases i; simp add: rq)+
  next
    fix i j assume "i < j \<and> j < length (rq # reqs)"
    then obtain j' where j: "j = Suc j'" "j' < length reqs" "i < Suc j'" by (cases j) auto
    show "off i + unat (fst ((rq # reqs) ! i)) \<le> off j"
    proof (cases i)
      case 0
      then show ?thesis using IH(4)[OF j(2)] m(2) off by (simp add: rq j(1))
    next
      case (Suc i')
      then show ?thesis using IH(5)[of i' j'] j off by simp
    qed
  qed
qed

lemma unat_offset:
  fixes x b :: u64
  assumes "unat b + unat (x - b) < 2 ^ 64"
  shows "unat x = unat b + unat (x - b)"
proof -
  have "unat (b + (x - b)) = unat b + unat (x - b)"
    using assms unat_add_lem[of b "x - b"] by (simp only: len_bit0 len_num1 len_num0) simp
  then show ?thesis by (metis add.commute diff_add_cancel)
qed

text \<open>C26: Allocations do not overlap. When the sizes and alignments requested fit into what the
  shared memory object still has (and into the 32-bit counter), every buffer of a sequence of
  allocations lies inside the object, aligned as requested (at least to 8 bytes) from its start, above
  what was in use before and below the new counter; two buffers never overlap; and the address given to
  the device is at the same distance from the start of the object. The allocator checks none of these
  bounds.
\<close>

theorem allocs_disjoint:
  assumes "unat (shm_used e) + alloc_need reqs \<le> length (shm e)" and "unat (shm_used e) + alloc_need reqs < 2 ^ 32"
    and "unat (shm_base e) + length (shm e) < 2 ^ 64" and "allocs reqs e = (bufs, e')"
  shows "length bufs = length reqs \<and> e' = e\<lparr>shm_used := shm_used e'\<rparr> \<and> unat (shm_used e') \<le> length (shm e)
    \<and> (\<forall>i<length reqs.
         unat (shm_base e) + unat (shm_used e) \<le> unat (bufs ! i)
         \<and> unat (bufs ! i) + unat (fst (reqs ! i)) \<le> unat (shm_base e) + unat (shm_used e')
         \<and> (unat (bufs ! i) - unat (shm_base e)) mod unat (malloc_align (snd (reqs ! i))) = 0
         \<and> spdk_vtophys e' (bufs ! i) - phys_base e = bufs ! i - shm_base e)
    \<and> (\<forall>i j. i < j \<and> j < length reqs \<longrightarrow> unat (bufs ! i) + unat (fst (reqs ! i)) \<le> unat (bufs ! j))"
proof -
  note d = allocs_apart[OF assms(2,4) refl]
  have len: "unat (shm_used e') \<le> length (shm e)" using d assms(1) by linarith
  have addr: "unat (bufs ! i) = unat (shm_base e) + unat (bufs ! i - shm_base e)" if "i < length reqs" for i
  proof -
    have "unat (bufs ! i - shm_base e) + unat (fst (reqs ! i)) \<le> unat (shm_used e')" using d that by blast
    then have "unat (shm_base e) + unat (bufs ! i - shm_base e) < 2 ^ 64" using len assms(3) by linarith
    then show ?thesis by (rule unat_offset)
  qed
  have "phys_base e' = phys_base e" "shm_base e' = shm_base e"
    using d by (metis ssdsim_env.select_convs(1,2) ssdsim_env.surjective ssdsim_env.update_convs(3))+
  then have "spdk_vtophys e' b - phys_base e = b - shm_base e" for b by (simp add: spdk_vtophys_def)
  with d len addr show ?thesis by fastforce
qed

text \<open>Two requests from a process that has just created an object of 16 KB.\<close>

definition ssdsim_ex :: ssdsim_env where
  "ssdsim_ex = \<lparr>shm_base = 0x100000000, phys_base = 0, shm_used = 132, shm = replicate 16384 0, is_primary = True\<rparr>"

lemma allocs_disjoint_witness:
  "\<exists>b0 b1 e'. allocs [(100, 0), (4096, 4096)] ssdsim_ex = ([b0, b1], e')
     \<and> unat (shm_base ssdsim_ex) + 132 \<le> unat b0 \<and> unat b0 + 100 \<le> unat b1
     \<and> unat b1 + 4096 \<le> unat (shm_base ssdsim_ex) + length (shm ssdsim_ex)"
proof -
  obtain bufs e' where a: "allocs [(100, 0), (4096, 4096)] ssdsim_ex = (bufs, e')" by fastforce
  have "unat (shm_used ssdsim_ex) + alloc_need [(100, 0), (4096, 4096)] \<le> length (shm ssdsim_ex)"
    "unat (shm_used ssdsim_ex) + alloc_need [(100, 0), (4096, 4096)] < 2 ^ 32"
    "unat (shm_base ssdsim_ex) + length (shm ssdsim_ex) < 2 ^ 64"
    by (simp_all add: ssdsim_ex_def alloc_need_def malloc_align_def)
  note d = allocs_disjoint[OF this a]
  then obtain b0 b1 where b: "bufs = [b0, b1]" by (auto simp: length_Suc_conv)
  let ?r = "[(100, 0), (4096 :: u64, 4096 :: u64)]"
  have "unat (shm_base ssdsim_ex) + unat (shm_used ssdsim_ex) \<le> unat (bufs ! 0)"
    using d by (elim conjE) (drule spec[of _ 0], simp)
  moreover have "unat (bufs ! 0) + unat (fst (?r ! 0)) \<le> unat (bufs ! 1)"
    using d by (elim conjE) (drule spec[of _ 0], drule spec[of _ 1], simp)
  moreover have "unat (bufs ! 1) + unat (fst (?r ! 1)) \<le> unat (shm_base ssdsim_ex) + unat (shm_used e')"
    using d by (elim conjE) (drule spec[of _ 1], simp)
  moreover have "unat (shm_used e') \<le> length (shm ssdsim_ex)" using d by blast
  ultimately show ?thesis using a b by (simp add: ssdsim_ex_def)
qed

section \<open>Pools hand out each element once\<close>

definition bit_array_laws :: "'b bit_array_ops \<Rightarrow> ('b \<Rightarrow> nat \<Rightarrow> bool) \<Rightarrow> nat \<Rightarrow> bool" where
  "bit_array_laws ops bits n =
     ((\<forall>ba i j. unat i < n \<longrightarrow> bits (bit_array_set ops ba i) j = (j = unat i \<or> bits ba j))
      \<and> (\<forall>ba i j. unat i < n \<longrightarrow> bits (bit_array_clear ops ba i) j = (j \<noteq> unat i \<and> bits ba j))
      \<and> (\<forall>ba r. r = bit_array_find_first_clear ops ba 0 \<longrightarrow>
           (if \<exists>j<n. \<not> bits ba j
            then unat r < n \<and> \<not> bits ba (unat r) \<and> (\<forall>j<unat r. bits ba j) else r = UINT_MAX)))"

definition pool_free :: "('b \<Rightarrow> nat \<Rightarrow> bool) \<Rightarrow> nat \<Rightarrow> 'b spdk_mempool \<Rightarrow> nat set" where
  "pool_free bits n mp = {i. i < n \<and> \<not> bits (mp_ba mp) i}"

definition ele_addr :: "'b spdk_mempool \<Rightarrow> nat \<Rightarrow> u64" where
  "ele_addr mp i = mp_elements mp + mp_ele_size mp * of_nat i"

text \<open>The counter counts the free elements, and the elements fit into the address space.\<close>

definition pool_ok :: "('b \<Rightarrow> nat \<Rightarrow> bool) \<Rightarrow> nat \<Rightarrow> 'b spdk_mempool \<Rightarrow> bool" where
  "pool_ok bits n mp =
     (n < 2 ^ 32 - 1 \<and> mp_count mp = of_nat (card (pool_free bits n mp))
      \<and> mp_ele_size mp \<noteq> 0 \<and> unat (mp_ele_size mp) * n < 2 ^ 64)"

lemma pool_free_finite [simp]: "finite (pool_free bits n mp)"
  by (simp add: pool_free_def)

lemma pool_free_bound: "card (pool_free bits n mp) \<le> n"
  using card_mono[of "{..<n}" "pool_free bits n mp"] by (auto simp: pool_free_def)

lemma mp_count_exact: "pool_ok bits n mp \<Longrightarrow> unat (mp_count mp) = card (pool_free bits n mp)"
  using pool_free_bound[of bits n mp] by (simp add: pool_ok_def unat_of_nat)

lemma mempool_get_free:
  assumes laws: "bit_array_laws ops bits n" and ok: "pool_ok bits n mp" and "pool_free bits n mp \<noteq> {}"
  shows "\<exists>i mp'. spdk_mempool_get ops mp = (ele_addr mp i, mp') \<and> i \<in> pool_free bits n mp
    \<and> pool_free bits n mp' = pool_free bits n mp - {i} \<and> pool_ok bits n mp'
    \<and> mp_elements mp' = mp_elements mp \<and> mp_ele_size mp' = mp_ele_size mp"
proof -
  let ?r = "bit_array_find_first_clear ops (mp_ba mp) 0"
  let ?mp = "mp\<lparr>mp_ba := bit_array_set ops (mp_ba mp) ?r, mp_count := mp_count mp - 1\<rparr>"
  have "\<exists>j<n. \<not> bits (mp_ba mp) j" using assms(3) by (auto simp: pool_free_def)
  then have r: "unat ?r < n" "\<not> bits (mp_ba mp) (unat ?r)"
    using laws unfolding bit_array_laws_def by metis+
  have "?r \<noteq> UINT_MAX" using r(1) ok by (auto simp: pool_ok_def UINT_MAX_def)
  moreover have pos: "0 < card (pool_free bits n mp)" using assms(3) by (simp add: card_gt_0_iff)
  then have "mp_count mp \<noteq> 0" using mp_count_exact[OF ok] by auto
  ultimately have get: "spdk_mempool_get ops mp = (ele_addr mp (unat ?r), ?mp)"
    by (simp add: spdk_mempool_get_def ele_addr_def Let_def)
  have mem: "unat ?r \<in> pool_free bits n mp" using r by (simp add: pool_free_def)
  have free: "pool_free bits n ?mp = pool_free bits n mp - {unat ?r}"
    using laws r(1) by (auto simp: pool_free_def bit_array_laws_def)
  have "pool_ok bits n ?mp"
    using ok free mem pos by (simp add: pool_ok_def of_nat_diff Suc_leI)
  with get mem free show ?thesis by (intro exI[of _ "unat ?r"] exI[of _ ?mp]) simp
qed

lemma get_loop_free:
  assumes "bit_array_laws ops bits n" and "pool_ok bits n mp" and "k \<le> card (pool_free bits n mp)"
  shows "\<exists>is mp'. get_loop ops k mp = (map (ele_addr mp) is, mp') \<and> length is = k \<and> distinct is
    \<and> set is \<subseteq> pool_free bits n mp \<and> pool_free bits n mp' = pool_free bits n mp - set is
    \<and> pool_ok bits n mp' \<and> mp_elements mp' = mp_elements mp \<and> mp_ele_size mp' = mp_ele_size mp"
  using assms(2,3)
proof (induction k arbitrary: mp)
  case 0
  then show ?case by auto
next
  case (Suc k)
  then have "pool_free bits n mp \<noteq> {}" by auto
  from mempool_get_free[OF assms(1) Suc.prems(1) this] obtain i mp1 where i:
    "spdk_mempool_get ops mp = (ele_addr mp i, mp1)" "i \<in> pool_free bits n mp"
    "pool_free bits n mp1 = pool_free bits n mp - {i}" "pool_ok bits n mp1"
    "mp_elements mp1 = mp_elements mp" "mp_ele_size mp1 = mp_ele_size mp" by blast
  have "k \<le> card (pool_free bits n mp1)" using Suc.prems(2) i(2,3) by simp
  from Suc.IH[OF i(4) this] obtain js mp' where js:
    "get_loop ops k mp1 = (map (ele_addr mp1) js, mp')" "length js = k" "distinct js"
    "set js \<subseteq> pool_free bits n mp1" "pool_free bits n mp' = pool_free bits n mp1 - set js"
    "pool_ok bits n mp'" "mp_elements mp' = mp_elements mp1" "mp_ele_size mp' = mp_ele_size mp1"
    by blast
  have "ele_addr mp1 = ele_addr mp" using i(5,6) by (simp add: ele_addr_def fun_eq_iff)
  with i js show ?case by (intro exI[of _ "i # js"] exI[of _ mp']) auto
qed

lemma ele_index:
  assumes "pool_ok bits n mp" and "i < n"
  shows "ucast ((ele_addr mp i - mp_elements mp) div mp_ele_size mp) = (of_nat i :: u32)"
proof -
  have lt: "unat (mp_ele_size mp) * i < 2 ^ 64" "i < 2 ^ 32"
    using assms le_less_trans[OF mult_le_mono2[OF less_imp_le[OF assms(2)], of "unat (mp_ele_size mp)"]]
    by (auto simp: pool_ok_def)
  then have "unat (mp_ele_size mp * of_nat i) = unat (mp_ele_size mp) * i"
    by (simp add: unat_word_ariths unat_of_nat)
  then have "unat ((ele_addr mp i - mp_elements mp) div mp_ele_size mp) = i"
    using assms(1) by (simp add: ele_addr_def unat_div pool_ok_def unat_gt_0)
  then show ?thesis
    by (simp add: word_unat_eq_iff unsigned_ucast_eq take_bit_eq_mod unat_of_nat)
qed

lemma mempool_put_free:
  assumes laws: "bit_array_laws ops bits n" and ok: "pool_ok bits n mp"
    and i: "i < n" "i \<notin> pool_free bits n mp"
  shows "\<exists>mp'. spdk_mempool_put ops mp (ele_addr mp i) = Inr mp'
    \<and> pool_free bits n mp' = insert i (pool_free bits n mp) \<and> pool_ok bits n mp'
    \<and> mp_elements mp' = mp_elements mp \<and> mp_ele_size mp' = mp_ele_size mp"
proof -
  let ?mp = "mp\<lparr>mp_ba := bit_array_clear ops (mp_ba mp) (of_nat i), mp_count := mp_count mp + 1\<rparr>"
  have "mp_ele_size mp \<noteq> 0" using ok by (simp add: pool_ok_def)
  then have put: "spdk_mempool_put ops mp (ele_addr mp i) = Inr ?mp"
    using ele_index[OF ok i(1)] by (simp add: spdk_mempool_put_def Let_def)
  have "unat (of_nat i :: u32) = i" using ok i(1) by (simp add: pool_ok_def unat_of_nat)
  then have free: "pool_free bits n ?mp = insert i (pool_free bits n mp)"
    using laws i(1) by (auto simp: pool_free_def bit_array_laws_def)
  have "pool_ok bits n ?mp" using ok free i(2) by (simp add: pool_ok_def)
  with put free show ?thesis by (intro exI[of _ ?mp]) simp
qed

lemma put_bulk_free:
  assumes "bit_array_laws ops bits n" and "pool_ok bits n mp" and "distinct is"
    and "set is \<subseteq> {..<n} - pool_free bits n mp"
  shows "\<exists>mp'. spdk_mempool_put_bulk ops mp (map (ele_addr mp) is) = Inr mp'
    \<and> pool_free bits n mp' = pool_free bits n mp \<union> set is \<and> pool_ok bits n mp'"
  using assms(2-)
proof (induction "is" arbitrary: mp)
  case Nil
  then show ?case by simp
next
  case (Cons i js)
  then obtain mp1 where mp1: "spdk_mempool_put ops mp (ele_addr mp i) = Inr mp1"
    "pool_free bits n mp1 = insert i (pool_free bits n mp)" "pool_ok bits n mp1"
    "mp_elements mp1 = mp_elements mp" "mp_ele_size mp1 = mp_ele_size mp"
    using mempool_put_free[OF assms(1), of mp i] by auto
  have "ele_addr mp1 = ele_addr mp" using mp1(4,5) by (simp add: ele_addr_def fun_eq_iff)
  moreover obtain mp2 where "spdk_mempool_put_bulk ops mp1 (map (ele_addr mp1) js) = Inr mp2"
    "pool_free bits n mp2 = pool_free bits n mp1 \<union> set js" "pool_ok bits n mp2"
    using Cons.IH[OF mp1(3)] Cons.prems(2,3) mp1(2) by auto
  ultimately show ?case using mp1(1,2) by auto
qed

text \<open>C27: On a pool whose counter is right, over a bit array that does what the library documents,
  a bulk request is answered in full or refused without a change: it is refused exactly when it
  asks for more elements than are free; otherwise the addresses are those of as many distinct
  free elements, which are no longer free, and giving them back makes the free elements and
  the counter what they were.
\<close>

theorem mempool_bulk_roundtrip:
  assumes "bit_array_laws ops bits n" and "pool_ok bits n mp"
  shows "if card (pool_free bits n mp) < unat count
    then spdk_mempool_get_bulk ops mp count = (- 1, [], mp)
    else \<exists>is mp1 mp2. spdk_mempool_get_bulk ops mp count = (0, map (ele_addr mp) is, mp1)
      \<and> length is = unat count \<and> distinct is \<and> set is \<subseteq> pool_free bits n mp
      \<and> pool_free bits n mp1 = pool_free bits n mp - set is
      \<and> spdk_mempool_put_bulk ops mp1 (map (ele_addr mp) is) = Inr mp2
      \<and> pool_free bits n mp2 = pool_free bits n mp \<and> mp_count mp2 = mp_count mp"
proof (cases "card (pool_free bits n mp) < unat count")
  case True
  then have "mp_count mp < ucast count"
    using mp_count_exact[OF assms(2)] by (simp add: word_less_nat_alt unat_u32_u64)
  with True show ?thesis by (simp add: spdk_mempool_get_bulk_def)
next
  case False
  then have "\<not> mp_count mp < ucast count"
    using mp_count_exact[OF assms(2)] by (simp add: word_less_nat_alt unat_u32_u64)
  moreover obtain js mp1 where js: "get_loop ops (unat count) mp = (map (ele_addr mp) js, mp1)"
    "length js = unat count" "distinct js" "set js \<subseteq> pool_free bits n mp"
    "pool_free bits n mp1 = pool_free bits n mp - set js" "pool_ok bits n mp1"
    "mp_elements mp1 = mp_elements mp" "mp_ele_size mp1 = mp_ele_size mp"
    using get_loop_free[OF assms, of "unat count"] False by auto
  ultimately have get: "spdk_mempool_get_bulk ops mp count = (0, map (ele_addr mp) js, mp1)"
    by (simp add: spdk_mempool_get_bulk_def)
  have "ele_addr mp1 = ele_addr mp" using js(7,8) by (simp add: ele_addr_def fun_eq_iff)
  moreover have "set js \<subseteq> {..<n} - pool_free bits n mp1"
    using js(4,5) by (auto simp: pool_free_def)
  ultimately obtain mp2 where mp2: "spdk_mempool_put_bulk ops mp1 (map (ele_addr mp) js) = Inr mp2"
    "pool_free bits n mp2 = pool_free bits n mp1 \<union> set js" "pool_ok bits n mp2"
    using put_bulk_free[OF assms(1) js(6,3)] by auto
  have "pool_free bits n mp2 = pool_free bits n mp" using mp2(2) js(4,5) by blast
  then have "mp_count mp2 = mp_count mp" using mp2(3) assms(2) by (simp add: pool_ok_def)
  then show ?thesis using False get js mp2(1) \<open>pool_free bits n mp2 = pool_free bits n mp\<close> by auto
qed

text \<open>A bit array on a set of indices.\<close>

definition set_ops :: "nat \<Rightarrow> (nat \<Rightarrow> bool) bit_array_ops" where
  "set_ops n = \<lparr>bit_array_create = (\<lambda>k. Some (\<lambda>j. False)),
     bit_array_set = (\<lambda>ba i. ba(unat i := True)), bit_array_clear = (\<lambda>ba i. ba(unat i := False)),
     bit_array_find_first_clear = (\<lambda>ba s.
       case filter (\<lambda>j. \<not> ba j) [unat s..<n] of [] \<Rightarrow> UINT_MAX | j # js \<Rightarrow> of_nat j)\<rparr>"

lemma filter_head:
  assumes "filter P [0..<n] = j # js"
  shows "j < n \<and> P j \<and> (\<forall>k<j. \<not> P k)"
  using assms
proof (induction n arbitrary: js)
  case 0
  then show ?case by simp
next
  case (Suc n)
  show ?case
  proof (cases "filter P [0..<n]")
    case Nil
    with Suc.prems show ?thesis by (auto simp: filter_empty_conv split: if_splits)
  next
    case (Cons a as)
    with Suc.prems have "a = j" by (auto split: if_splits)
    with Suc.IH[of as] Cons show ?thesis by auto
  qed
qed

lemma set_ops_laws:
  assumes "n < 2 ^ 32"
  shows "bit_array_laws (set_ops n) (\<lambda>ba. ba) n"
proof -
  have find: "if \<exists>j<n. \<not> ba j then unat r < n \<and> \<not> ba (unat r) \<and> (\<forall>j<unat r. ba j) else r = UINT_MAX"
    if r: "r = bit_array_find_first_clear (set_ops n) ba 0" for ba r
  proof (cases "filter (\<lambda>j. \<not> ba j) [0..<n]")
    case Nil
    then have "\<forall>j<n. ba j" by (auto simp: filter_empty_conv)
    moreover have "r = UINT_MAX" using r Nil by (simp add: set_ops_def)
    ultimately show ?thesis by auto
  next
    case (Cons j js)
    then have j: "j < n" "\<not> ba j" "\<forall>k<j. ba k" using filter_head[OF Cons] by auto
    moreover have "unat r = j" using r Cons j(1) assms by (simp add: set_ops_def unat_of_nat)
    ultimately show ?thesis by auto
  qed
  have upd: "bit_array_set (set_ops n) ba i j = (j = unat i \<or> ba j)"
    "bit_array_clear (set_ops n) ba i j = (j \<noteq> unat i \<and> ba j)" for ba i j
    by (simp_all add: set_ops_def)
  then show ?thesis
    unfolding bit_array_laws_def
    by (intro conjI allI impI) (rule upd(1), rule upd(2), erule find)
qed

definition mempool_ex :: "(nat \<Rightarrow> bool) spdk_mempool" where
  "mempool_ex = \<lparr>mp_name = ''p'', mp_ba = (\<lambda>j. False), mp_elements = 0x1000, mp_ele_size = 64,
     mp_count = 4\<rparr>"

lemma mempool_bulk_roundtrip_witness:
  "\<exists>is mp1. spdk_mempool_get_bulk (set_ops 4) mempool_ex 3 = (0, map (ele_addr mempool_ex) is, mp1)
     \<and> length is = 3 \<and> distinct is"
proof -
  have laws: "bit_array_laws (set_ops 4) (\<lambda>ba. ba) 4" by (rule set_ops_laws) simp
  have "pool_free (\<lambda>ba. ba) 4 mempool_ex = {..<4}" by (auto simp: pool_free_def mempool_ex_def)
  moreover then have "pool_ok (\<lambda>ba. ba) 4 mempool_ex" by (simp add: pool_ok_def) (simp add: mempool_ex_def)
  ultimately show ?thesis using mempool_bulk_roundtrip[OF laws, of mempool_ex 3] by auto
qed

section \<open>PCI addresses print and parse back\<close>

lemma hex_val_char: "n < 16 \<Longrightarrow> hex_val (hex_char n) = Some n"
  by (auto simp: hex_val_def hex_char_def Let_def)

lemma is_hex_char: "n < 16 \<Longrightarrow> is_hex (hex_char n)"
  by (simp add: is_hex_def hex_val_char)

lemma hex_number_append:
  "hex_number (s @ [ch]) = 16 * hex_number s + the (hex_val ch)"
  by (simp add: hex_number_def)

lemma hex_string_digits:
  "hex_string n \<noteq> [] \<and> (\<forall>ch\<in>set (hex_string n). is_hex ch) \<and> hex_number (hex_string n) = n"
proof (induction n rule: hex_string.induct)
  case (1 n)
  show ?case
  proof (cases "n < 16")
    case True
    then show ?thesis
      by (subst (1 2 3) hex_string.simps) (simp add: is_hex_char hex_number_def hex_val_char)
  next
    case False
    with 1 show ?thesis
      by (subst (1 2 3) hex_string.simps) (auto simp: is_hex_char hex_number_append hex_val_char)
  qed
qed

lemma hex_number_zeros: "hex_number (replicate k (CHR ''0'') @ s) = hex_number s"
proof (induction k)
  case 0
  then show ?case by simp
next
  case (Suc k)
  have "hex_val (CHR ''0'') = Some 0" by (simp add: hex_val_def Let_def)
  with Suc show ?case by (simp add: hex_number_def)
qed

lemma print_hex_digits:
  "print_hex w n \<noteq> []" "\<forall>ch\<in>set (print_hex w n). is_hex ch" "hex_number (print_hex w n) = n"
proof -
  have "is_hex (CHR ''0'')" by (simp add: is_hex_def hex_val_def Let_def)
  then show "print_hex w n \<noteq> []" "\<forall>ch\<in>set (print_hex w n). is_hex ch" "hex_number (print_hex w n) = n"
    using hex_string_digits[of n] by (auto simp: print_hex_def hex_number_zeros)
qed

lemma is_hex_not:
  "is_hex ch \<Longrightarrow> \<not> is_space ch \<and> ch \<noteq> CHR ''-'' \<and> ch \<noteq> CHR ''+'' \<and> ch \<noteq> CHR ''x'' \<and> ch \<noteq> CHR ''X''"
  by (auto simp: is_hex_def hex_val_def is_space_def Let_def split: if_splits)

lemma scan_hex_digits:
  assumes "ds \<noteq> []" and "\<forall>ch\<in>set ds. is_hex ch" and "hex_number ds < 2 ^ 64"
    and "r = [] \<or> \<not> is_hex (hd r)" and "r \<noteq> [] \<longrightarrow> hd r \<noteq> CHR ''x'' \<and> hd r \<noteq> CHR ''X''"
  shows "scan_hex (ds @ r) = Some (of_nat (hex_number ds), r)"
proof -
  obtain ch cs where ds: "ds = ch # cs" using assms(1) by (cases ds) auto
  have ch: "is_hex ch" using assms(2) ds by simp
  have tw: "takeWhile is_hex (ds @ r) = ds" "dropWhile is_hex (ds @ r) = r"
    using assms(2,4) by (auto simp: takeWhile_append dropWhile_append takeWhile_eq_Nil_iff
        dropWhile_eq_self_iff)
  have sp: "dropWhile is_space (ds @ r) = ds @ r" using is_hex_not[OF ch] ds by simp
  have sg: "hd (ds @ r) \<noteq> CHR ''-''" "hd (ds @ r) \<noteq> CHR ''+''" using is_hex_not[OF ch] ds by auto
  have nox: "\<not> (2 < length (ds @ r) \<and> (ds @ r) ! 0 = CHR ''0''
      \<and> ((ds @ r) ! 1 = CHR ''x'' \<or> (ds @ r) ! 1 = CHR ''X'') \<and> is_hex ((ds @ r) ! 2))"
  proof (cases cs)
    case Nil
    then show ?thesis using assms(5) ds by (cases r) auto
  next
    case (Cons a as)
    then have "is_hex a" using assms(2) ds by simp
    then show ?thesis using is_hex_not[of a] ds Cons by auto
  qed
  show ?thesis
    unfolding scan_hex_def Let_def sp using sg nox tw assms(1,3) by auto
qed

lemma scan_print:
  assumes "n < 2 ^ 32" and "sep \<in> {CHR '':'', CHR ''.''}"
  shows "scan_hex (print_hex w n @ sep # r) = Some (of_nat n, sep # r)"
proof -
  have "\<not> is_hex sep" "sep \<noteq> CHR ''x''" "sep \<noteq> CHR ''X''"
    using assms(2) by (auto simp: is_hex_def hex_val_def Let_def)
  then show "scan_hex (print_hex w n @ sep # r) = Some (of_nat n, sep # r)"
    using scan_hex_digits[of "print_hex w n" "sep # r"] print_hex_digits[where w = w and n = n] assms(1) by simp
qed

lemma scan_print_end: "n < 2 ^ 32 \<Longrightarrow> scan_hex (print_hex w n) = Some (of_nat n, [])"
  using scan_hex_digits[of "print_hex w n" "[]"] print_hex_digits[where w = w and n = n] by simp

lemma unat_u8_u32: "unat (ucast (v :: u8) :: u32) = unat v"
proof -
  have "unat v < 2 ^ 8" using unsigned_less[of v, where ?'a = nat] by simp
  then show ?thesis by (simp add: unsigned_ucast_eq take_bit_eq_mod)
qed

lemma spdk_pci_addr_roundtrip:
  assumes "pci_dev a \<le> 0x1F" and "pci_func a \<le> 7"
  shows "spdk_pci_addr_parse (pci_addr_text a) = Some a"
proof -
  have small: "unat (v :: u8) < 2 ^ 32" for v using unsigned_less[of v, where ?'a = nat] by simp
  have dom: "unat (pci_domain a) < 2 ^ 32" using unsigned_less[of "pci_domain a", where ?'a = nat] by simp
  have "sscanf (hexes ''::.'') (pci_addr_text a) =
    [of_nat (unat (pci_domain a)), of_nat (unat (pci_bus a)), of_nat (unat (pci_dev a)),
     of_nat (unat (pci_func a))]"
    using scan_print[OF dom, of "CHR '':''"] scan_print[OF small, of "CHR '':''"]
      scan_print[OF small, of "CHR ''.''"] scan_print_end[OF small]
    by (simp add: hexes_def pci_addr_text_def)
  moreover have "(of_nat (unat v) :: u32) = ucast v" for v :: u8
    by (simp add: word_unat_eq_iff unat_of_nat unat_u8_u32)
  moreover have "\<not> (ucast (pci_bus a) :: u32) > 0xFF" "\<not> (ucast (pci_dev a) :: u32) > 0x1F"
    "\<not> (ucast (pci_func a) :: u32) > 7"
    using assms unsigned_less[of "pci_bus a", where ?'a = nat]
    by (simp_all add: word_less_nat_alt word_le_nat_alt unat_u8_u32)
  moreover have "(ucast (ucast v :: u32) :: u8) = v" for v
    by (rule bit_word_eqI) (simp add: bit_ucast_iff)
  ultimately show ?thesis by (simp add: spdk_pci_addr_parse_def)
qed

end
