(* ===== verification/PowerCtl.thy ===== *)
theory PowerCtl
  imports Prelude
begin

text \<open>
  The power controller on a serial line (\<open>nbio/powerctl.c\<close>, and the command line tool
  \<open>tools/powerctl/powerctl.c\<close>). The line is an argument: the results of the successive calls of
  \<open>write\<close> and of \<open>read\<close>.
\<close>

section \<open>Commands\<close>

definition CMD_POWER_ON :: char where "CMD_POWER_ON = CHR ''1''"

definition CMD_POWER_OFF :: char where "CMD_POWER_OFF = CHR ''0''"

text \<open>
  The line: what the next writes and reads return (a call beyond the list fails), and the
  characters written so far; a write that returns 0 has written nothing.
\<close>

record tty =
  write_results :: "int list"
  read_results :: "int list"
  written :: string

definition tty_write :: "char \<Rightarrow> tty \<Rightarrow> int \<times> tty" where
  "tty_write ch t =
     (case write_results t of [] \<Rightarrow> (- 1, t)
      | r # rs \<Rightarrow> (r, t\<lparr>write_results := rs, written := written t @ (if 0 < r then [ch] else [])\<rparr>))"

text \<open>The descriptor, or -1 when the device does not open.\<close>

definition powerctl_init :: "int \<Rightarrow> int" where
  "powerctl_init tty_fd = (if tty_fd < 0 then - 1 else tty_fd)"

text \<open>\<open>n\<close> is the number of characters sent before.\<close>

fun powerctl_send_loop :: "int \<Rightarrow> string \<Rightarrow> tty \<Rightarrow> int \<times> tty" where
  "powerctl_send_loop n [] t = (n, t)"
| "powerctl_send_loop n (ch # cmd) t =
     (let (ret, t) = tty_write ch t in
      if ret < 0 then (- 1, t) else powerctl_send_loop (n + 1) cmd t)"

definition powerctl_send_cmd :: "string \<Rightarrow> tty \<Rightarrow> int \<times> tty" where
  "powerctl_send_cmd cmd t = powerctl_send_loop 0 cmd t"

text \<open>Messages are read and dropped until a read returns nothing.\<close>

fun recv_loop :: "int \<Rightarrow> int list \<Rightarrow> int \<times> int list" where
  "recv_loop n [] = (n, [])"
| "recv_loop n (r # rs) = (if 0 < r then recv_loop (n + 1) rs else (n, rs))"

definition powerctl_recv_rsp :: "tty \<Rightarrow> int \<times> tty" where
  "powerctl_recv_rsp t =
     (let (n, rs) = recv_loop 0 (read_results t) in (n, t\<lparr>read_results := rs\<rparr>))"

definition powerctl_power_on :: "tty \<Rightarrow> int \<times> tty" where
  "powerctl_power_on t =
     (0, snd (powerctl_recv_rsp (snd (powerctl_send_cmd [CMD_POWER_ON] t))))"

definition powerctl_power_off :: "tty \<Rightarrow> int \<times> tty" where
  "powerctl_power_off t =
     (0, snd (powerctl_recv_rsp (snd (powerctl_send_cmd [CMD_POWER_OFF] t))))"

definition powerctl_exit :: "int \<Rightarrow> int" where
  "powerctl_exit close_result = (if close_result < 0 then - 1 else 0)"

text \<open>The tool: one write of one character, then the answers are dropped.\<close>

definition send_cmd :: "char \<Rightarrow> tty \<Rightarrow> int \<times> tty" where
  "send_cmd cmd t = (let (send_len, t) = tty_write cmd t in (if send_len < 0 then - 1 else send_len, t))"

definition powerctl_main :: "string list \<Rightarrow> int \<Rightarrow> tty \<Rightarrow> int \<times> tty" where
  "powerctl_main argv tty_fd t =
     (if length argv \<noteq> 3 then (- 1, t)
      else
        let arg = argv ! 2;
            cmd = (if arg = [] then CHR 0x00 else hd arg) in
        if cmd \<noteq> CMD_POWER_ON \<and> cmd \<noteq> CMD_POWER_OFF then (- 1, t)
        else if powerctl_init tty_fd < 0 then (- 1, t)
        else (0, snd (powerctl_recv_rsp (snd (send_cmd cmd t)))))"

section \<open>What is sent\<close>

text \<open>The number returned counts the writes that did not fail, not the characters written.\<close>

lemma powerctl_send_loop_exact:
  "powerctl_send_loop n cmd t =
     (if length cmd \<le> length (write_results t) \<and> (\<forall>r\<in>set (take (length cmd) (write_results t)). 0 \<le> r)
      then (n + int (length cmd),
            t\<lparr>write_results := drop (length cmd) (write_results t),
              written := written t @ map fst (filter (\<lambda>(ch, r). 0 < r) (zip cmd (write_results t)))\<rparr>)
      else (- 1, snd (powerctl_send_loop n cmd t)))"
proof (induction n cmd t rule: powerctl_send_loop.induct)
  case (1 n t)
  then show ?case by simp
next
  case (2 n ch cmd t)
  show ?case
  proof (cases "write_results t")
    case Nil
    then show ?thesis by (simp add: tty_write_def)
  next
    case (Cons r rs)
    then show ?thesis using 2 by (auto simp: tty_write_def Let_def split: if_splits)
  qed
qed

text \<open>Both commands report success even when nothing could be written.\<close>

lemma power_on_ignores_failure:
  "write_results t = [] \<Longrightarrow>
   fst (powerctl_power_on t) = 0 \<and> written (snd (powerctl_power_on t)) = written t"
  by (simp add: powerctl_power_on_def powerctl_send_cmd_def tty_write_def powerctl_recv_rsp_def
      split: prod.splits)

lemma power_on_sends:
  assumes "write_results t = r # rs" and "0 < r"
  shows "written (snd (powerctl_power_on t)) = written t @ [CMD_POWER_ON]"
    and "written (snd (powerctl_power_off t)) = written t @ [CMD_POWER_OFF]"
  using assms
  by (simp_all add: powerctl_power_on_def powerctl_power_off_def powerctl_send_cmd_def tty_write_def
      powerctl_recv_rsp_def split: prod.splits)

end
