(* ===== verification/Mpa.thy ===== *)
theory Mpa
  imports Prelude
begin

text \<open>
  The physical addresses the recovery tests work with (\<open>func/fmt/mpa.h\<close>): the bit fields of an
  address, the address of the page in single-level mode that holds a triple-level page, and the
  neighbours in other channels that \<open>raid_recovery.c\<close> damages.
\<close>

definition WIDTH_MU :: nat where "WIDTH_MU = 2"
definition WIDTH_PLANE :: nat where "WIDTH_PLANE = 1"
definition WIDTH_PAGE :: nat where "WIDTH_PAGE = 10"
definition WIDTH_MPBLK :: nat where "WIDTH_MPBLK = 11"
definition WIDTH_LUN :: nat where "WIDTH_LUN = 3"
definition WIDTH_CH :: nat where "WIDTH_CH = 3"

definition OFFSET_MU :: nat where "OFFSET_MU = 0"
definition OFFSET_PLANE :: nat where "OFFSET_PLANE = OFFSET_MU + WIDTH_MU"
definition OFFSET_PAGE :: nat where "OFFSET_PAGE = OFFSET_PLANE + WIDTH_PLANE"
definition OFFSET_MPBLK :: nat where "OFFSET_MPBLK = OFFSET_PAGE + WIDTH_PAGE"
definition OFFSET_LUN :: nat where "OFFSET_LUN = OFFSET_MPBLK + WIDTH_MPBLK"
definition OFFSET_CH :: nat where "OFFSET_CH = OFFSET_LUN + WIDTH_LUN"

lemmas mpa_layout = WIDTH_MU_def WIDTH_PLANE_def WIDTH_PAGE_def WIDTH_MPBLK_def WIDTH_LUN_def
  WIDTH_CH_def OFFSET_MU_def OFFSET_PLANE_def OFFSET_PAGE_def OFFSET_MPBLK_def OFFSET_LUN_def
  OFFSET_CH_def

text \<open>\<open>(mpa >> offset) & ((1 << width) - 1)\<close>.\<close>

definition mpa_field :: "nat \<Rightarrow> nat \<Rightarrow> u32 \<Rightarrow> u32" where
  "mpa_field off width mpa = drop_bit off mpa AND (push_bit width 1 - 1)"

definition MPA_TO_CH :: "u32 \<Rightarrow> u32" where "MPA_TO_CH mpa = mpa_field OFFSET_CH WIDTH_CH mpa"
definition MPA_TO_LUN :: "u32 \<Rightarrow> u32" where "MPA_TO_LUN mpa = mpa_field OFFSET_LUN WIDTH_LUN mpa"
definition MPA_TO_MPBLK :: "u32 \<Rightarrow> u32" where "MPA_TO_MPBLK mpa = mpa_field OFFSET_MPBLK WIDTH_MPBLK mpa"
definition MPA_TO_PAGE :: "u32 \<Rightarrow> u32" where "MPA_TO_PAGE mpa = mpa_field OFFSET_PAGE WIDTH_PAGE mpa"
definition MPA_TO_PLANE :: "u32 \<Rightarrow> u32" where "MPA_TO_PLANE mpa = mpa_field OFFSET_PLANE WIDTH_PLANE mpa"
definition MPA_TO_MU :: "u32 \<Rightarrow> u32" where "MPA_TO_MU mpa = mpa_field OFFSET_MU WIDTH_MU mpa"

lemmas mpa_fields = MPA_TO_CH_def MPA_TO_LUN_def MPA_TO_MPBLK_def MPA_TO_PAGE_def MPA_TO_PLANE_def
  MPA_TO_MU_def

definition TLC_MPA_TO_SLC_MPA :: "u32 \<Rightarrow> u32" where
  "TLC_MPA_TO_SLC_MPA tlc_mpa =
     (let slc_mpa_page = MPA_TO_PAGE tlc_mpa div 3 in
      (tlc_mpa AND NOT (push_bit OFFSET_PAGE (push_bit WIDTH_PAGE 1 - 1)))
        OR push_bit OFFSET_PAGE slc_mpa_page)"

definition MPA_TO_PPA :: "u32 \<Rightarrow> u32" where
  "MPA_TO_PPA mpa = drop_bit WIDTH_MU mpa"

definition PPA_TO_MPA :: "u32 \<Rightarrow> u32" where
  "PPA_TO_MPA ppa = push_bit WIDTH_MU ppa"

section \<open>Error injection\<close>

text \<open>
  The test chooses a written unit, asks the device for its address, and damages word lines so
  that their pages need the recovery. \<open>wl_program\<close> is the command of \<open>crush_wl_vt\<close>: it programs
  a word line in single-level mode with the units of \<open>mu_vector\<close>.
\<close>

definition TEST_MODE_BASIC_CLOSED :: u32 where "TEST_MODE_BASIC_CLOSED = 1"
definition TEST_MODE_SEQ_READ_CLOSED :: u32 where "TEST_MODE_SEQ_READ_CLOSED = 2"
definition TEST_MODE_MULTI_PLANE_ERROR :: u32 where "TEST_MODE_MULTI_PLANE_ERROR = 3"
definition TEST_MODE_BASIC_OPEN :: u32 where "TEST_MODE_BASIC_OPEN = 4"
definition TEST_MODE_APPEND_AFTER_OPEN_RAID :: u32 where "TEST_MODE_APPEND_AFTER_OPEN_RAID = 5"
definition TEST_MODE_UNRECOVERABLE_CLOSED :: u32 where "TEST_MODE_UNRECOVERABLE_CLOSED = 6"
definition TEST_MODE_UNRECOVERABLE_CLOSED_EXT :: u32 where "TEST_MODE_UNRECOVERABLE_CLOSED_EXT = 7"
definition TEST_MODE_UNRECOVERABLE_OPEN :: u32 where "TEST_MODE_UNRECOVERABLE_OPEN = 8"
definition TEST_MODE_RAND_READ_CLOSED :: u32 where "TEST_MODE_RAND_READ_CLOSED = 9"

lemmas test_modes = TEST_MODE_BASIC_CLOSED_def TEST_MODE_SEQ_READ_CLOSED_def TEST_MODE_MULTI_PLANE_ERROR_def
  TEST_MODE_BASIC_OPEN_def TEST_MODE_APPEND_AFTER_OPEN_RAID_def TEST_MODE_UNRECOVERABLE_CLOSED_def
  TEST_MODE_UNRECOVERABLE_CLOSED_EXT_def TEST_MODE_UNRECOVERABLE_OPEN_def TEST_MODE_RAND_READ_CLOSED_def

definition PRECOND_MUN_RANGE :: int where "PRECOND_MUN_RANGE = 0x180000 div 8"

definition NUM_OPEN_MUS_IN_OPEN_BLK :: int where
  "NUM_OPEN_MUS_IN_OPEN_BLK = 8 * 8 * 2 * 4 * 3 * 2"

definition BLOCK_LIST_IN_PFL :: u32 where "BLOCK_LIST_IN_PFL = 1"
definition BLOCK_LIST_DATA :: u32 where "BLOCK_LIST_DATA = 2"

text \<open>The unit, from the value of \<open>rand()\<close>; in any other mode the variable keeps what it held.\<close>

definition select_mun :: "u32 \<Rightarrow> int \<Rightarrow> u32 \<Rightarrow> u32" where
  "select_mun test_mode rnd junk =
     (if test_mode \<in> {TEST_MODE_BASIC_CLOSED, TEST_MODE_SEQ_READ_CLOSED, TEST_MODE_RAND_READ_CLOSED,
           TEST_MODE_UNRECOVERABLE_CLOSED, TEST_MODE_UNRECOVERABLE_CLOSED_EXT, TEST_MODE_MULTI_PLANE_ERROR}
      then word_of_int (rnd mod (PRECOND_MUN_RANGE - NUM_OPEN_MUS_IN_OPEN_BLK))
      else if test_mode \<in> {TEST_MODE_BASIC_OPEN, TEST_MODE_UNRECOVERABLE_OPEN, TEST_MODE_APPEND_AFTER_OPEN_RAID}
      then word_of_int ((PRECOND_MUN_RANGE - 1) - rnd mod 200)
      else junk)"

record wl_program =
  wl_ch :: u32
  wl_lun :: u32
  wl_mp_blk :: u32
  wl_plane :: u32
  wl_idx :: u32
  wl_mu_vector :: u32

text \<open>The units that are overwritten: a random vector with the unit of the address set.\<close>

definition crush_mu_vector :: "int \<Rightarrow> u32 \<Rightarrow> u32" where
  "crush_mu_vector rnd slc_mpa =
     word_of_int (rnd mod 15) OR push_bit (unat (MPA_TO_MU slc_mpa)) 1"

definition crush_wl_vt :: "int \<Rightarrow> u32 \<Rightarrow> wl_program" where
  "crush_wl_vt rnd slc_mpa =
     \<lparr>wl_ch = MPA_TO_CH slc_mpa, wl_lun = MPA_TO_LUN slc_mpa, wl_mp_blk = MPA_TO_MPBLK slc_mpa,
      wl_plane = MPA_TO_PLANE slc_mpa, wl_idx = MPA_TO_PAGE slc_mpa,
      wl_mu_vector = crush_mu_vector rnd slc_mpa\<rparr>"

text \<open>The same address \<open>k\<close> channels before, modulo the number of channels.\<close>

definition error_slc_mpa :: "u32 \<Rightarrow> u32 \<Rightarrow> u32" where
  "error_slc_mpa k slc_mpa =
     (let error_ch = (drop_bit OFFSET_CH slc_mpa - k) AND (push_bit WIDTH_CH 1 - 1) in
      (slc_mpa AND NOT (push_bit OFFSET_CH (push_bit WIDTH_CH 1 - 1))) + push_bit OFFSET_CH error_ch)"

text \<open>
  \<open>rands\<close> are the values of \<open>rand()\<close> in the calls of \<open>crush_wl_vt\<close>. The bitmap of planes is
  computed and not used.
\<close>

definition inject_errors :: "u32 \<Rightarrow> (nat \<Rightarrow> int) \<Rightarrow> u32 \<Rightarrow> wl_program list" where
  "inject_errors test_mode rands test_mpa =
     (let slc_mpa = TLC_MPA_TO_SLC_MPA test_mpa in
      [crush_wl_vt (rands 0) slc_mpa]
      @ (if test_mode \<in> {TEST_MODE_UNRECOVERABLE_CLOSED, TEST_MODE_UNRECOVERABLE_CLOSED_EXT,
              TEST_MODE_UNRECOVERABLE_OPEN}
         then [crush_wl_vt (rands 1) (error_slc_mpa 1 slc_mpa)] else [])
      @ (if test_mode = TEST_MODE_UNRECOVERABLE_CLOSED_EXT
         then [crush_wl_vt (rands 2) (error_slc_mpa 2 slc_mpa)] else []))"

text \<open>
  The selection loop, which with one unit runs once: \<open>mpa_of_mun\<close> and \<open>spblk_state\<close> are the
  answers of the device. It gives up, spins in \<open>while(1)\<close>, or damages a unit.
\<close>

datatype raid_outcome = Canceled | Spins | Injected u32 bool "wl_program list"

definition raid_select :: "u32 \<Rightarrow> int \<Rightarrow> u32 \<Rightarrow> (nat \<Rightarrow> int) \<Rightarrow> (u32 \<Rightarrow> u32) \<Rightarrow> (u32 \<Rightarrow> u32) \<Rightarrow> raid_outcome" where
  "raid_select test_mode rnd junk rands mpa_of_mun spblk_state =
     (let test_mun = select_mun test_mode rnd junk; test_mpa = mpa_of_mun test_mun in
      if test_mode = TEST_MODE_UNRECOVERABLE_OPEN \<and> MPA_TO_CH test_mpa = 0 then Canceled
      else let super_block_state = spblk_state test_mpa in
        if super_block_state = BLOCK_LIST_IN_PFL then Injected test_mun True (inject_errors test_mode rands test_mpa)
        else if super_block_state = BLOCK_LIST_DATA then Injected test_mun False (inject_errors test_mode rands test_mpa)
        else Spins)"

section \<open>Fields\<close>

lemma bit_mpa_field:
  "bit (mpa_field off width m) i \<longleftrightarrow> i < width \<and> bit m (off + i)" if "off + width \<le> 32" for m :: u32
proof -
  have "push_bit width 1 - 1 = (mask width :: u32)" by (simp add: mask_eq_exp_minus_1 push_bit_of_1)
  then show ?thesis
    using that by (auto simp: mpa_field_def bit_simps dest: bit_imp_le_length)
qed

text \<open>The six fields determine the low 30 bits.\<close>

lemma mpa_fields_cover:
  assumes "MPA_TO_CH a = MPA_TO_CH b" "MPA_TO_LUN a = MPA_TO_LUN b" "MPA_TO_MPBLK a = MPA_TO_MPBLK b"
    "MPA_TO_PAGE a = MPA_TO_PAGE b" "MPA_TO_PLANE a = MPA_TO_PLANE b" "MPA_TO_MU a = MPA_TO_MU b"
  shows "take_bit 30 a = take_bit 30 b"
proof (rule bit_word_eqI)
  fix n assume "n < LENGTH(32)"
  have eq: "bit a (off + i) = bit b (off + i)"
    if "mpa_field off w a = mpa_field off w b" "off + w \<le> 32" "i < w" for off w i
    using that bit_mpa_field[OF that(2), of a i] bit_mpa_field[OF that(2), of b i] by simp
  note e = assms[unfolded mpa_fields mpa_layout, simplified]
  have "bit a n = bit b n" if n: "n < 30"
  proof -
    consider "n < 2" | "n = 2" | "3 \<le> n" "n < 13" | "13 \<le> n" "n < 24" | "24 \<le> n" "n < 27"
      | "27 \<le> n" "n < 30" using n by linarith
    then show ?thesis
    proof cases
      case 1 then show ?thesis using eq[OF e(6), of n] by simp
    next
      case 2 then show ?thesis using eq[OF e(5), of 0] by (simp add: numeral_2_eq_2)
    next
      case 3
      then obtain k where "n = 3 + k" using le_Suc_ex by blast
      then show ?thesis using eq[OF e(4), of k] 3 by (simp add: numeral_3_eq_3)
    next
      case 4 then show ?thesis using eq[OF e(3), of "n - 13"] by simp
    next
      case 5 then show ?thesis using eq[OF e(2), of "n - 24"] by simp
    next
      case 6 then show ?thesis using eq[OF e(1), of "n - 27"] by simp
    qed
  qed
  then show "bit (take_bit 30 a) n = bit (take_bit 30 b) n" by (auto simp: bit_take_bit_iff)
qed

text \<open>Going to a page number and back clears the unit.\<close>

lemma ppa_mpa_roundtrip: "PPA_TO_MPA (MPA_TO_PPA m) = m AND NOT (mask 2)"
proof -
  have sub: "Suc (Suc (n - 2)) = n" if "2 \<le> n" for n using that by simp
  show ?thesis
  by (rule bit_word_eqI) (auto simp: sub PPA_TO_MPA_def MPA_TO_PPA_def WIDTH_MU_def bit_push_bit_iff
      bit_drop_bit_eq bit_and_iff bit_not_iff bit_mask_iff)
qed

lemma bit_mpa_field':
  "off + width \<le> 32 \<Longrightarrow> bit (mpa_field off width m) i \<longleftrightarrow> i < width \<and> bit m (off + i)" for m :: u32
  by (rule bit_mpa_field)

text \<open>The single-level address has a third of the page number and the other fields unchanged.\<close>

lemma slc_mpa_fields:
  "MPA_TO_PAGE (TLC_MPA_TO_SLC_MPA m) = MPA_TO_PAGE m div 3"
  "MPA_TO_CH (TLC_MPA_TO_SLC_MPA m) = MPA_TO_CH m"
  "MPA_TO_LUN (TLC_MPA_TO_SLC_MPA m) = MPA_TO_LUN m"
  "MPA_TO_MPBLK (TLC_MPA_TO_SLC_MPA m) = MPA_TO_MPBLK m"
  "MPA_TO_PLANE (TLC_MPA_TO_SLC_MPA m) = MPA_TO_PLANE m"
  "MPA_TO_MU (TLC_MPA_TO_SLC_MPA m) = MPA_TO_MU m"
proof -
  let ?p = "MPA_TO_PAGE m div 3"
  have off: "OFFSET_PAGE = 3" "WIDTH_PAGE = 10" by (simp_all add: mpa_layout)
  have mask10: "push_bit 10 1 - 1 = (mask 10 :: u32)" by (simp add: mask_eq_exp_minus_1 push_bit_of_1)
  have "MPA_TO_PAGE m \<le> mask 10"
    unfolding mpa_fields mpa_layout mpa_field_def mask10[symmetric] by (rule word_and_le1)
  then have "unat (MPA_TO_PAGE m) \<le> 1023" by (simp add: word_le_nat_alt mask_eq_exp_minus_1)
  then have "unat ?p < 2 ^ 10" by (simp add: unat_div)
  then have "take_bit 10 ?p = ?p"
    by (simp only: word_unat_eq_iff unsigned_take_bit_eq take_bit_nat_eq_self)
  then have p: "bit ?p i \<Longrightarrow> i < 10" for i
    by (metis bit_take_bit_iff)
  have s: "bit (TLC_MPA_TO_SLC_MPA m) i \<longleftrightarrow>
      (if 3 \<le> i \<and> i < 13 then bit ?p (i - 3) else bit m i)" if "i < 32" for i
    using that p[of "i - 3"]
    by (simp only: TLC_MPA_TO_SLC_MPA_def off Let_def mask10 bit_or_iff bit_and_iff bit_not_iff
        bit_push_bit_iff bit_mask_iff) auto
  show "MPA_TO_PAGE (TLC_MPA_TO_SLC_MPA m) = ?p"
  proof (rule bit_word_eqI)
    fix n assume "n < LENGTH(32)"
    have "bit (MPA_TO_PAGE (TLC_MPA_TO_SLC_MPA m)) n \<longleftrightarrow> n < 10 \<and> bit (TLC_MPA_TO_SLC_MPA m) (3 + n)"
      unfolding MPA_TO_PAGE_def off by (rule bit_mpa_field) simp
    then show "bit (MPA_TO_PAGE (TLC_MPA_TO_SLC_MPA m)) n = bit ?p n"
      using s[of "3 + n"] p[of n] by auto
  qed
  show "MPA_TO_CH (TLC_MPA_TO_SLC_MPA m) = MPA_TO_CH m"
    "MPA_TO_LUN (TLC_MPA_TO_SLC_MPA m) = MPA_TO_LUN m"
    "MPA_TO_MPBLK (TLC_MPA_TO_SLC_MPA m) = MPA_TO_MPBLK m"
    "MPA_TO_PLANE (TLC_MPA_TO_SLC_MPA m) = MPA_TO_PLANE m"
    "MPA_TO_MU (TLC_MPA_TO_SLC_MPA m) = MPA_TO_MU m"
    by (rule bit_word_eqI; use s in \<open>auto simp: mpa_fields mpa_layout bit_mpa_field'\<close>)+
qed

lemma take_bit_minus_word:
  "take_bit 3 (a - k) = take_bit 3 (take_bit 3 a - k)" for a k :: u32
proof (transfer, goal_cases)
  case (1 a k)
  have "take_bit 3 (a - k) = take_bit 3 (take_bit 3 a - k)"
    using take_bit_diff[of 3 a k] take_bit_diff[of 3 "take_bit 3 a" k] by simp
  then show ?case by (simp add: take_bit_take_bit)
qed

text \<open>Going back \<open>k\<close> channels changes the channel only.\<close>

lemma error_mpa_fields:
  "MPA_TO_CH (error_slc_mpa k m) = (MPA_TO_CH m - k) AND 7"
  "MPA_TO_LUN (error_slc_mpa k m) = MPA_TO_LUN m"
  "MPA_TO_MPBLK (error_slc_mpa k m) = MPA_TO_MPBLK m"
  "MPA_TO_PAGE (error_slc_mpa k m) = MPA_TO_PAGE m"
  "MPA_TO_PLANE (error_slc_mpa k m) = MPA_TO_PLANE m"
  "MPA_TO_MU (error_slc_mpa k m) = MPA_TO_MU m"
proof -
  let ?c = "(drop_bit 27 m - k) AND mask 3 :: u32"
  have off: "OFFSET_CH = 27" "WIDTH_CH = 3" by (simp_all add: mpa_layout)
  have mask3: "push_bit 3 1 - 1 = (mask 3 :: u32)" by (simp add: mask_eq_exp_minus_1 push_bit_of_1)
  have e: "error_slc_mpa k m = (m AND NOT (push_bit 27 (mask 3))) OR push_bit 27 ?c"
    unfolding error_slc_mpa_def off mask3 Let_def
    by (rule disjunctive_add_eq_or) (rule bit_word_eqI, simp only: bit_and_iff bit_not_iff bit_push_bit_iff bit_mask_iff bit_0_eq bot_apply, auto)
  have s: "bit (error_slc_mpa k m) i \<longleftrightarrow> (if 27 \<le> i \<and> i < 30 then bit ?c (i - 27) else bit m i)" if "i < 32" for i
    using that by (simp only: e bit_or_iff bit_and_iff bit_not_iff bit_push_bit_iff bit_mask_iff) auto
  have c: "mpa_field 27 3 m = take_bit 3 (drop_bit 27 m)"
    by (simp only: mpa_field_def mask3 take_bit_eq_mask)
  have "?c = (take_bit 3 (drop_bit 27 m) - k) AND mask 3"
    by (metis take_bit_eq_mask take_bit_minus_word)
  then have c': "?c = (MPA_TO_CH m - k) AND 7"
    by (simp add: MPA_TO_CH_def off c mask_eq_exp_minus_1)
  show "MPA_TO_CH (error_slc_mpa k m) = (MPA_TO_CH m - k) AND 7"
  proof (rule bit_word_eqI)
    fix n assume "n < LENGTH(32)"
    have "bit (MPA_TO_CH (error_slc_mpa k m)) n \<longleftrightarrow> n < 3 \<and> bit (error_slc_mpa k m) (27 + n)"
      unfolding MPA_TO_CH_def off by (rule bit_mpa_field) simp
    then show "bit (MPA_TO_CH (error_slc_mpa k m)) n = bit ((MPA_TO_CH m - k) AND 7) n"
      unfolding c'[symmetric] using s[of "27 + n"] by (auto simp: bit_and_iff bit_mask_iff)
  qed
  show "MPA_TO_LUN (error_slc_mpa k m) = MPA_TO_LUN m"
    "MPA_TO_MPBLK (error_slc_mpa k m) = MPA_TO_MPBLK m"
    "MPA_TO_PAGE (error_slc_mpa k m) = MPA_TO_PAGE m"
    "MPA_TO_PLANE (error_slc_mpa k m) = MPA_TO_PLANE m"
    "MPA_TO_MU (error_slc_mpa k m) = MPA_TO_MU m"
    by (rule bit_word_eqI; use s in \<open>auto simp: mpa_fields mpa_layout bit_mpa_field'\<close>)+
qed

section \<open>What is damaged\<close>

text \<open>The number of channels that are damaged: one, or more than the parity can restore.\<close>

definition nr_errors :: "u32 \<Rightarrow> nat" where
  "nr_errors test_mode =
     (if test_mode = TEST_MODE_UNRECOVERABLE_CLOSED_EXT then 3
      else if test_mode = TEST_MODE_UNRECOVERABLE_CLOSED \<or> test_mode = TEST_MODE_UNRECOVERABLE_OPEN then 2 else 1)"

lemma MPA_TO_MU_less: "unat (MPA_TO_MU m) < 4"
proof -
  have "MPA_TO_MU m \<le> 3"
    unfolding mpa_fields mpa_layout mpa_field_def by (simp add: word_and_le1)
  then show ?thesis by (simp add: word_le_nat_alt)
qed

lemma channel_back_distinct:
  "distinct (map (\<lambda>k. (MPA_TO_CH m - of_nat k) AND 7) [0..<3])"
proof -
  let ?x = "MPA_TO_CH m"
  have "?x \<le> 7"
    unfolding mpa_fields mpa_layout mpa_field_def by (simp add: word_and_le1)
  then have "unat ?x \<in> {0, 1, 2, 3, 4, 5, 6, 7}" by (simp add: word_le_nat_alt) arith
  then have "?x \<in> {0, 1, 2, 3, 4, 5, 6, 7}" by (auto simp: word_unat_eq_iff)
  then show ?thesis by (auto simp: upt_rec)
qed

lemma channel_self: "MPA_TO_CH m AND 7 = MPA_TO_CH m"
  by (rule bit_word_eqI) (auto simp: MPA_TO_CH_def mpa_field_def WIDTH_CH_def bit_and_iff)

lemma less_16_iff: "x < 16 \<longleftrightarrow> take_bit 4 x = x" for x :: u32
  by (simp only: word_unat_eq_iff unsigned_take_bit_eq take_bit_nat_eq_self_iff word_less_nat_alt) simp

lemma crush_vector_ok:
  "bit (crush_mu_vector rnd m) (unat (MPA_TO_MU m))" "crush_mu_vector rnd m < 16"
proof -
  let ?k = "unat (MPA_TO_MU m)" and ?r = "word_of_int (rnd mod 15) :: u32"
  have k: "?k < 4" by (rule MPA_TO_MU_less)
  then show "bit (crush_mu_vector rnd m) ?k"
    by (simp add: crush_mu_vector_def bit_or_iff bit_exp_iff)
  have "0 \<le> rnd mod 15" "rnd mod 15 < 15" by simp_all
  then have "uint ?r < 16" by (simp add: unsigned_of_int take_bit_int_eq_self del: pos_mod_bound)
  then have "?r < 2 ^ 4" by (simp add: word_less_def)
  moreover have "?k \<in> {0, 1, 2, 3}" using k by auto
  then have "push_bit ?k 1 < (2 ^ 4 :: u32)" by auto
  ultimately have "take_bit 4 (crush_mu_vector rnd m) = crush_mu_vector rnd m"
    by (simp only: crush_mu_vector_def take_bit_or) (simp add: less_16_iff)
  then show "crush_mu_vector rnd m < 16" by (simp add: less_16_iff)
qed

text \<open>What every command for the address \<open>m\<close> damages: its word line, in a channel before it.\<close>

definition damages :: "u32 \<Rightarrow> u32 \<Rightarrow> wl_program \<Rightarrow> bool" where
  "damages m ch c =
     (wl_ch c = ch \<and> wl_lun c = MPA_TO_LUN m \<and> wl_mp_blk c = MPA_TO_MPBLK m
      \<and> wl_plane c = MPA_TO_PLANE m \<and> wl_idx c = MPA_TO_PAGE m div 3
      \<and> bit (wl_mu_vector c) (unat (MPA_TO_MU m)) \<and> wl_mu_vector c < 16)"

lemma crush_damages:
  "damages m (MPA_TO_CH m) (crush_wl_vt rnd (TLC_MPA_TO_SLC_MPA m))"
  "damages m ((MPA_TO_CH m - k) AND 7) (crush_wl_vt rnd (error_slc_mpa k (TLC_MPA_TO_SLC_MPA m)))"
  using crush_vector_ok[of rnd "TLC_MPA_TO_SLC_MPA m"]
    crush_vector_ok[of rnd "error_slc_mpa k (TLC_MPA_TO_SLC_MPA m)"]
  by (simp_all add: damages_def crush_wl_vt_def slc_mpa_fields error_mpa_fields)

lemma inject_errors_damage:
  "list_all2 (damages m) (map (\<lambda>k. (MPA_TO_CH m - of_nat k) AND 7) [0..<nr_errors test_mode])
     (inject_errors test_mode rands m)"
proof -
  note d = crush_damages(1)[of m "rands 0"] crush_damages(2)[of m 1 "rands 1"] crush_damages(2)[of m 2 "rands 2"]
  have u: "[0..<2] = [0, 1]" "[0..<3] = [0, 1, 2::nat]" by (simp_all add: upt_rec)
  show ?thesis
    using d by (simp add: inject_errors_def nr_errors_def Let_def u channel_self test_modes)
qed

lemma select_mun_range:
  assumes "test_mode \<in> {1..9}"
  shows "unat (select_mun test_mode rnd junk) < 0x30000"
proof -
  have w: "unat (word_of_int i :: u32) < 0x30000" if "0 \<le> i" "i < 0x30000" for i
    using that by (simp add: unsigned_of_int take_bit_int_eq_self)
  have m: "0 \<le> rnd mod 193536" "rnd mod 193536 < 193536" "0 \<le> rnd mod 200" "rnd mod 200 < 200" by simp_all
  have "unat (word_of_int (rnd mod (PRECOND_MUN_RANGE - NUM_OPEN_MUS_IN_OPEN_BLK)) :: u32) < 0x30000"
    by (rule w) (use m in \<open>simp_all add: PRECOND_MUN_RANGE_def NUM_OPEN_MUS_IN_OPEN_BLK_def del: pos_mod_bound\<close>)
  moreover have "unat (word_of_int ((PRECOND_MUN_RANGE - 1) - rnd mod 200) :: u32) < 0x30000"
    by (rule w) (use m in \<open>simp_all add: PRECOND_MUN_RANGE_def\<close>)
  moreover have "unat test_mode \<in> {1, 2, 3, 4, 5, 6, 7, 8, 9}"
    using assms by (simp add: word_le_nat_alt) arith
  then have "test_mode \<in> {1, 2, 3, 4, 5, 6, 7, 8, 9}" by (auto simp: word_unat_eq_iff)
  ultimately show ?thesis
    unfolding select_mun_def test_modes by auto
qed

text \<open>C25: When the test damages a unit, it is a unit of the range that was written, and the commands
  damage, one after the other, the word line of its page in the channel of the page and in the
  one or two channels before it (modulo 8): the same unit, plane, block and logical unit, a third
  of the page number, pairwise different channels, and always the unit that is read back.
\<close>

theorem raid_injection_exact:
  assumes "raid_select test_mode rnd junk rands mpa_of_mun spblk_state = Injected mun is_open cmds"
    and "test_mode \<in> {1..9}"
  shows "unat mun < 0x30000
    \<and> list_all2 (damages (mpa_of_mun mun))
        (map (\<lambda>k. (MPA_TO_CH (mpa_of_mun mun) - of_nat k) AND 7) [0..<nr_errors test_mode]) cmds
    \<and> distinct (map wl_ch cmds)"
proof -
  have s: "mun = select_mun test_mode rnd junk" "cmds = inject_errors test_mode rands (mpa_of_mun mun)"
    using assms(1) by (auto simp: raid_select_def Let_def split: if_splits)
  have d: "list_all2 (damages (mpa_of_mun mun))
      (map (\<lambda>k. (MPA_TO_CH (mpa_of_mun mun) - of_nat k) AND 7) [0..<nr_errors test_mode]) cmds"
    unfolding s(2) by (rule inject_errors_damage)
  then have "map wl_ch cmds = map (\<lambda>k. (MPA_TO_CH (mpa_of_mun mun) - of_nat k) AND 7) [0..<nr_errors test_mode]"
    by (auto simp: list_all2_conv_all_nth damages_def intro!: nth_equalityI)
  moreover have "[0..<nr_errors test_mode] = take (nr_errors test_mode) [0..<3]"
    by (simp add: nr_errors_def)
  ultimately have "map wl_ch cmds = take (nr_errors test_mode)
      (map (\<lambda>k. (MPA_TO_CH (mpa_of_mun mun) - of_nat k) AND 7) [0..<3])"
    by (simp only: take_map)
  then have "distinct (map wl_ch cmds)"
    by (simp only: distinct_take[OF channel_back_distinct])
  with d select_mun_range[OF assms(2)] s(1) show ?thesis by simp
qed

lemma raid_injection_exact_witness:
  "raid_select 7 5 0 (\<lambda>_. 3) (\<lambda>mun. mun + 0x08000000) (\<lambda>_. 2) = Injected 5 False (inject_errors 7 (\<lambda>_. 3) 0x08000005)
   \<and> unat (5 :: u32) < 0x30000
   \<and> map wl_ch (inject_errors 7 (\<lambda>_. 3) 0x08000005) = [1, 0, 7]
   \<and> distinct (map wl_ch (inject_errors 7 (\<lambda>_. 3) 0x08000005))"
proof -
  have r: "raid_select 7 5 0 (\<lambda>_. 3) (\<lambda>mun. mun + 0x08000000) (\<lambda>_. 2) = Injected 5 False (inject_errors 7 (\<lambda>_. 3) 0x08000005)"
    by code_simp
  have "map wl_ch (inject_errors 7 (\<lambda>_. 3) 0x08000005) = [1, 0, 7]" by code_simp
  with raid_injection_exact[OF r] r show ?thesis by simp
qed

end
