(* ===== verification/FaduShell.thy ===== *)
theory FaduShell
  imports Prelude
begin

text \<open>
  The vendor plugin of the NVMe command line tool (\<open>nvme-cli-1.6/fadu-nvme.c\<close>): a command line
  is sent to the shell of the firmware, the device is asked until it is done, and the output is
  fetched in pieces of 4096 bytes. The kernel and the device are the argument \<open>ioctl\<close>: from a
  command, the bytes its buffer holds and the state of the device it gives the return value,
  the bytes of the buffer afterwards and the next state.
\<close>

section \<open>Commands\<close>

definition NVME_SC_SUCCESS :: int where "NVME_SC_SUCCESS = 0"
definition NVME_SC_SHELL_INPROGRESS :: int where "NVME_SC_SHELL_INPROGRESS = 1"
definition NVME_SC_SHELL_INVALID_OPCODE :: int where "NVME_SC_SHELL_INVALID_OPCODE = 2"
definition NVME_DEVICE_TERMINATED :: int where "NVME_DEVICE_TERMINATED = - 1"

lemmas shell_status = NVME_SC_SUCCESS_def NVME_SC_SHELL_INPROGRESS_def NVME_SC_SHELL_INVALID_OPCODE_def
  NVME_DEVICE_TERMINATED_def

definition NVME_CMD_VS_SHELL :: u8 where "NVME_CMD_VS_SHELL = 0xC1"

definition IO_CMD :: u32 where "IO_CMD = 1"
definition VU_LAYER_RSVD :: u32 where "VU_LAYER_RSVD = 0"
definition VU_MODULE_SHELL :: u32 where "VU_MODULE_SHELL = 4"
definition VU_NO_DATA :: u32 where "VU_NO_DATA = 0"
definition VU_DMA_TO_HOST :: u32 where "VU_DMA_TO_HOST = 1"
definition VU_DMA_FROM_HOST :: u32 where "VU_DMA_FROM_HOST = 3"

definition vu_sub_opcode :: "u32 \<Rightarrow> u32 \<Rightarrow> u32" where
  "vu_sub_opcode function direction =
     push_bit 31 IO_CMD OR push_bit 24 VU_LAYER_RSVD OR push_bit 16 VU_MODULE_SHELL
       OR push_bit 8 function OR direction"

definition VU_SUB_OPCODE_SHELL_EXEC :: u32 where
  "VU_SUB_OPCODE_SHELL_EXEC = vu_sub_opcode 0x00 VU_DMA_FROM_HOST"
definition VU_SUB_OPCODE_SHELL_KEEP_ALIVE :: u32 where
  "VU_SUB_OPCODE_SHELL_KEEP_ALIVE = vu_sub_opcode 0x01 VU_NO_DATA"
definition VU_SUB_OPCODE_SHELL_GET_RESULT :: u32 where
  "VU_SUB_OPCODE_SHELL_GET_RESULT = vu_sub_opcode 0x02 VU_DMA_TO_HOST"

text \<open>The command words 11 to 15 are 0.\<close>

record passthru_cmd =
  cmd_opcode :: u8
  cmd_nsid :: u32
  cmd_data_len :: u32
  cmd_cdw2 :: u32
  cmd_cdw10 :: u32
  cmd_cdw11_15 :: "u32 list"

type_synonym 'd kernel = "passthru_cmd \<Rightarrow> bytes \<Rightarrow> 'd \<Rightarrow> int \<times> bytes \<times> 'd"

definition shell_cmd_of :: "u32 \<Rightarrow> u32 \<Rightarrow> passthru_cmd" where
  "shell_cmd_of sub_opcode data_len =
     \<lparr>cmd_opcode = NVME_CMD_VS_SHELL, cmd_nsid = 1, cmd_data_len = data_len, cmd_cdw2 = sub_opcode,
      cmd_cdw10 = drop_bit 2 data_len, cmd_cdw11_15 = replicate 5 0\<rparr>"

text \<open>
  \<open>data\<close> points \<open>off\<close> bytes into the buffer \<open>m\<close>; the kernel transfers \<open>data_len\<close> bytes there.
  The result is the status, the buffer and the device.
\<close>

definition send_nvme_cmd ::
  "'d kernel \<Rightarrow> u32 \<Rightarrow> u32 \<Rightarrow> nat \<Rightarrow> bytes \<Rightarrow> 'd \<Rightarrow> (int \<times> bytes \<times> 'd) res" where
  "send_nvme_cmd ioctl sub_opcode data_len off m d =
     bnd (mem_read m off (unat data_len)) (\<lambda>part.
     let (status, part', d') = ioctl (shell_cmd_of sub_opcode data_len) part d in
     bnd (mem_write m off part') (\<lambda>m'. Inr (status, m', d')))"

text \<open>
  The answers of \<open>open\<close> and \<open>fstat\<close> and whether the file is a character or block device; the
  descriptor, or a negative number.
\<close>

definition ENODEV :: int where "ENODEV = 19"
definition ENOMEM :: int where "ENOMEM = 12"
definition EAGAIN :: int where "EAGAIN = 11"
definition EXIT_FAILURE :: int where "EXIT_FAILURE = 1"

definition open_dev :: "int \<Rightarrow> int \<Rightarrow> bool \<Rightarrow> int" where
  "open_dev fd stat_res is_dev =
     (if fd < 0 then fd else if stat_res < 0 then stat_res else if \<not> is_dev then - ENODEV else fd)"

section \<open>The shell command\<close>

definition xfer :: nat where "xfer = 4096"
definition data_size :: nat where "data_size = 16 * 1024 * 1024"

definition chars :: "string \<Rightarrow> bytes" where
  "chars s = map of_char s"

text \<open>\<open>sprintf(shell_cmd + strlen, "%s ", arg)\<close> for every argument.\<close>

fun join_args :: "string list \<Rightarrow> bytes \<Rightarrow> nat \<Rightarrow> (bytes \<times> nat) res" where
  "join_args [] m len = Inr (m, len)"
| "join_args (arg # args) m len =
     bnd (mem_write m len (chars (arg @ '' '') @ [0])) (\<lambda>m. join_args args m (len + length arg + 1))"

text \<open>The device is asked until it answers success; the outcome is success or termination.\<close>

partial_function (option) keep_alive :: "'d kernel \<Rightarrow> 'd \<Rightarrow> (int \<times> 'd) res option" where
  "keep_alive ioctl d =
     (case send_nvme_cmd ioctl VU_SUB_OPCODE_SHELL_KEEP_ALIVE 0 0 [] d of
        Inl e \<Rightarrow> Some (Inl e)
      | Inr (status, _, d) \<Rightarrow>
     if status = NVME_DEVICE_TERMINATED \<or> status = NVME_SC_SUCCESS then Some (Inr (status, d))
     else keep_alive ioctl d)"

text \<open>The pieces of the output; the loop ends with the status of the last one.\<close>

partial_function (option) get_result ::
  "'d kernel \<Rightarrow> nat \<Rightarrow> bytes \<Rightarrow> 'd \<Rightarrow> (int \<times> bytes \<times> 'd) res option" where
  "get_result ioctl data_len m d =
     (case send_nvme_cmd ioctl VU_SUB_OPCODE_SHELL_GET_RESULT 4096 data_len m d of
        Inl e \<Rightarrow> Some (Inl e)
      | Inr (status, m, d) \<Rightarrow>
     if status = NVME_SC_SHELL_INVALID_OPCODE \<or> status = NVME_DEVICE_TERMINATED \<or> status = NVME_SC_SUCCESS
     then Some (Inr (status, m, d))
     else get_result ioctl (data_len + xfer) m d)"

text \<open>\<open>printf("%s")\<close> reads up to the first null character.\<close>

definition c_string :: "bytes \<Rightarrow> bytes res" where
  "c_string m = (if 0 \<in> set m then Inr (takeWhile (\<lambda>b. b \<noteq> 0) m) else Inl Fault)"

text \<open>
  The return value of \<open>shell_exec\<close>, what it prints of the output, and the device. \<open>junk\<close> is the
  fresh content of the command buffer; \<open>alloc1\<close> and \<open>alloc2\<close> tell whether the allocations succeed.
\<close>

definition shell_exec ::
  "'d kernel \<Rightarrow> int \<Rightarrow> bool \<Rightarrow> bool \<Rightarrow> bytes \<Rightarrow> string list \<Rightarrow> 'd \<Rightarrow> (int \<times> bytes \<times> 'd) res option" where
  "shell_exec ioctl fd alloc1 alloc2 junk argv d =
     (if length argv < 2 then Some (Inr (EXIT_FAILURE, [], d))
      else if fd < 0 then Some (Inr (fd, [], d))
      else if \<not> alloc1 \<or> \<not> alloc2 then Some (Inr (ENOMEM, [], d))
      else
        obnd (Some (join_args (drop 2 argv) junk 0)) (\<lambda>(shell_cmd, strlen).
        obnd (Some (send_nvme_cmd ioctl VU_SUB_OPCODE_SHELL_EXEC (of_nat (strlen * 2)) 0 shell_cmd d))
          (\<lambda>(status, shell_cmd, d).
        if status = NVME_DEVICE_TERMINATED then Some (Inr (NVME_DEVICE_TERMINATED, [], d))
        else if status \<noteq> NVME_SC_SUCCESS then Some (Inr (EAGAIN, [], d))
        else
          obnd (keep_alive ioctl d) (\<lambda>(status, d).
          if status = NVME_DEVICE_TERMINATED then Some (Inr (NVME_DEVICE_TERMINATED, [], d))
          else
            obnd (get_result ioctl 0 (replicate data_size 0) d) (\<lambda>(status, exec_data, d).
            if status = NVME_DEVICE_TERMINATED then Some (Inr (NVME_DEVICE_TERMINATED, [], d))
            else obnd (Some (c_string exec_data)) (\<lambda>out. Some (Inr (0, out, d))))))))"

section \<open>The dialogue with the device\<close>

text \<open>
  \<open>dev_done\<close>: the device answers other requests to keep alive before it answers success;
  \<open>dev_output\<close>: the pieces of its output up to the one with status 0 or 2; each piece is what
  the transfer leaves in a zeroed buffer.
\<close>

abbreviation "alive_cmd \<equiv> shell_cmd_of VU_SUB_OPCODE_SHELL_KEEP_ALIVE 0"
abbreviation "result_cmd \<equiv> shell_cmd_of VU_SUB_OPCODE_SHELL_GET_RESULT 4096"

inductive dev_done :: "'d kernel \<Rightarrow> 'd \<Rightarrow> 'd \<Rightarrow> bool" for ioctl where
  done_now: "ioctl alive_cmd [] d = (0, [], d') \<Longrightarrow> dev_done ioctl d d'"
| done_later: "ioctl alive_cmd [] d = (s, [], d1) \<Longrightarrow> s \<notin> {0, - 1} \<Longrightarrow> dev_done ioctl d1 d' \<Longrightarrow> dev_done ioctl d d'"

inductive dev_output :: "'d kernel \<Rightarrow> 'd \<Rightarrow> bytes list \<Rightarrow> int \<Rightarrow> 'd \<Rightarrow> bool" for ioctl where
  output_last: "ioctl result_cmd (replicate xfer 0) d = (s, c, d') \<Longrightarrow> s \<in> {0, 2} \<Longrightarrow> length c = xfer
    \<Longrightarrow> dev_output ioctl d [c] s d'"
| output_more: "ioctl result_cmd (replicate xfer 0) d = (s, c, d1) \<Longrightarrow> s \<notin> {0, - 1, 2} \<Longrightarrow> length c = xfer
    \<Longrightarrow> dev_output ioctl d1 cs s' d' \<Longrightarrow> dev_output ioctl d (c # cs) s' d'"

lemma keep_alive_done:
  "dev_done ioctl d d' \<Longrightarrow> keep_alive ioctl d = Some (Inr (0, d'))"
proof (induction rule: dev_done.induct)
  case (done_now d d')
  then show ?case by (subst keep_alive.simps) (simp add: send_nvme_cmd_def shell_status)
next
  case (done_later d s d1 d')
  then show ?case by (subst keep_alive.simps) (simp add: send_nvme_cmd_def shell_status)
qed

lemma get_result_output:
  assumes "dev_output ioctl d cs s d'"
  shows "length pre + xfer * length cs \<le> n
    \<Longrightarrow> get_result ioctl (length pre) (pre @ replicate (n - length pre) 0) d
      = Some (Inr (s, pre @ concat cs @ replicate (n - length pre - xfer * length cs) 0, d'))"
  using assms
proof (induction arbitrary: pre rule: dev_output.induct)
  case (output_last d s c d')
  obtain k where k: "n = length pre + xfer + k"
    using output_last.prems le_Suc_ex[of "length pre + xfer" n] by auto
  have "mem_read (pre @ replicate (n - length pre) 0) (length pre) 4096 = Inr (replicate xfer 0)"
    by (simp add: k xfer_def)
  moreover have "mem_write (pre @ replicate (n - length pre) 0) (length pre) c = Inr (pre @ c @ replicate k 0)"
    using output_last.hyps(3) by (simp add: k)
  ultimately show ?case
    using output_last.hyps
    by (subst get_result.simps) (auto simp: send_nvme_cmd_def shell_status k)
next
  case (output_more d s c d1 cs s' d')
  obtain k where k: "n = length pre + xfer + k"
    using output_more.prems le_Suc_ex[of "length pre + xfer" n] by auto
  have "mem_read (pre @ replicate (n - length pre) 0) (length pre) 4096 = Inr (replicate xfer 0)"
    by (simp add: k xfer_def)
  moreover have "mem_write (pre @ replicate (n - length pre) 0) (length pre) c = Inr (pre @ c @ replicate k 0)"
    using output_more.hyps(3) by (simp add: k)
  moreover have "get_result ioctl (length (pre @ c)) ((pre @ c) @ replicate (n - length (pre @ c)) 0) d1
      = Some (Inr (s', (pre @ c) @ concat cs @ replicate (n - length (pre @ c) - xfer * length cs) 0, d'))"
    by (rule output_more.IH) (use output_more.prems output_more.hyps(3) in simp)
  ultimately show ?case
    using output_more.hyps(1-3)
    by (subst get_result.simps) (auto simp: send_nvme_cmd_def shell_status k)
qed

text \<open>The text of the command: every argument followed by a blank.\<close>

definition command_text :: "string list \<Rightarrow> string" where
  "command_text args = concat (map (\<lambda>a. a @ '' '') args)"

lemma join_args_text:
  "args \<noteq> [] \<Longrightarrow> len + length (command_text args) < length m \<Longrightarrow>
   join_args args m len = Inr (take len m @ chars (command_text args) @ [0]
      @ drop (len + length (command_text args) + 1) m, len + length (command_text args))"
proof (induction args arbitrary: m len)
  case (Cons a args)
  let ?m = "take len m @ (chars (a @ '' '') @ [0]) @ drop (len + length (chars (a @ '' '') @ [0])) m"
  have w: "mem_write m len (chars (a @ '' '') @ [0]) = Inr ?m"
    by (rule mem_write_in) (use Cons.prems in \<open>simp add: chars_def command_text_def\<close>)
  show ?case
  proof (cases "args = []")
    case True
    then show ?thesis using w by (simp add: command_text_def chars_def)
  next
    case False
    have l: "length ?m = length m" using Cons.prems by (simp add: chars_def command_text_def)
    have "join_args args ?m (len + length a + 1) = Inr (take (len + length a + 1) ?m @ chars (command_text args) @ [0]
      @ drop (len + length a + 1 + length (command_text args) + 1) ?m, len + length a + 1 + length (command_text args))"
      by (rule Cons.IH) (use False Cons.prems l in \<open>simp_all add: command_text_def\<close>)
    then show ?thesis
      using w Cons.prems by (simp add: command_text_def chars_def ac_simps)
  qed
qed simp

section \<open>A complete command\<close>

lemma takeWhile_zeros: "takeWhile (\<lambda>b. b \<noteq> 0) (xs @ replicate n 0) = takeWhile (\<lambda>b. b \<noteq> (0 :: u8)) xs"
  by (induction xs) (auto simp: takeWhile_replicate)

lemma dev_output_length: "dev_output ioctl d cs s d' \<Longrightarrow> length (concat cs) = xfer * length cs"
  by (induction rule: dev_output.induct) simp_all

lemma dev_output_status: "dev_output ioctl d cs s d' \<Longrightarrow> s \<in> {0, 2}"
  by (induction rule: dev_output.induct) simp_all

text \<open>What is transferred for a text: the text, its null character, and as many fresh bytes again.\<close>

definition exec_transfer :: "bytes \<Rightarrow> string \<Rightarrow> bytes" where
  "exec_transfer junk t = take (2 * length t) (chars t @ [0] @ drop (length t + 1) junk)"

text \<open>C24: On a device that accepts the command, becomes ready and delivers its output in at most
  4096 pieces with a null character in or after them, the plugin joins the arguments, transfers
  their text with twice its length, waits, and prints exactly the output up to its first null
  character; it returns 0, also when the firmware says that there is no such command.
\<close>

theorem shell_exec_exact:
  assumes "args \<noteq> []" and "0 \<le> fd" and "length junk = xfer"
    and "2 * length (command_text args) \<le> xfer"
    and "ioctl (shell_cmd_of VU_SUB_OPCODE_SHELL_EXEC (of_nat (2 * length (command_text args))))
           (exec_transfer junk (command_text args)) d = (0, part, d1)"
    and "length part = 2 * length (command_text args)"
    and "dev_done ioctl d1 d2" and "dev_output ioctl d2 cs s d3"
    and "length cs \<le> 4096" and "0 \<in> set (concat cs) \<or> length cs < 4096"
  shows "shell_exec ioctl fd True True junk (prog # dev # args) d
    = Some (Inr (0, takeWhile (\<lambda>b. b \<noteq> 0) (concat cs), d3))"
proof -
  let ?t = "command_text args"
  let ?m = "chars ?t @ [0] @ drop (length ?t + 1) junk"
  have t: "2 * length ?t \<le> 4096" "length junk = 4096" using assms(3,4) by (simp_all add: xfer_def)
  have "?t \<noteq> ''''" using assms(1) by (cases args) (simp_all add: command_text_def)
  then have l: "length ?m = 4096" and t0: "0 < length ?t" using t by (auto simp: chars_def)
  have join: "join_args args junk 0 = Inr (?m, length ?t)"
    using join_args_text[OF assms(1), of 0 junk] t by simp
  have u: "unat (of_nat (length ?t * 2) :: u32) = 2 * length ?t"
    using t by (simp add: unsigned_of_nat take_bit_nat_eq_self mult.commute del: of_nat_mult)
  have "mem_read ?m 0 (2 * length ?t) = Inr (exec_transfer junk ?t)"
    using l t by (simp add: exec_transfer_def del: append.simps append_assoc)
  moreover have "\<exists>m'. mem_write ?m 0 part = Inr m'"
    using l t assms(6) by (simp del: append.simps append_assoc)
  then obtain m' where "mem_write ?m 0 part = Inr m'" by blast
  ultimately have exec: "send_nvme_cmd ioctl VU_SUB_OPCODE_SHELL_EXEC (of_nat (length ?t * 2)) 0 ?m d = Inr (0, m', d1)"
    using assms(5) unfolding send_nvme_cmd_def u by (simp only: bnd_Inr Let_def prod.case mult.commute)
  have cs: "xfer * length cs \<le> data_size" using assms(9) by (simp add: xfer_def data_size_def)
  have out: "get_result ioctl 0 (replicate data_size 0) d2
      = Some (Inr (s, concat cs @ replicate (data_size - xfer * length cs) 0, d3))"
    using get_result_output[OF assms(8), of "[]" data_size] cs by simp
  have "0 \<in> set (concat cs @ replicate (data_size - xfer * length cs) 0)"
    using assms(10) by (auto simp: xfer_def data_size_def)
  then have str: "c_string (concat cs @ replicate (data_size - xfer * length cs) 0)
      = Inr (takeWhile (\<lambda>b. b \<noteq> 0) (concat cs))"
    by (simp add: c_string_def takeWhile_zeros)
  show ?thesis
    using join exec keep_alive_done[OF assms(7)] out str dev_output_status[OF assms(8)] assms(2)
    by (auto simp: shell_exec_def shell_status simp del: append.simps append_assoc)
qed

text \<open>A device that answers 1 once and then delivers two pieces; its state counts the commands.\<close>

definition shell_dev :: "nat kernel" where
  "shell_dev c part n =
     (if n = 1 then (1, part, 2) else if n = 3 then (1, replicate xfer 65, 4)
      else if n = 4 then (0, replicate 10 66 @ replicate (xfer - 10) 0, 5) else (0, part, n + 1))"

lemma shell_exec_exact_witness:
  "shell_exec shell_dev 3 True True (replicate xfer 0) [''nvme'', ''/dev/nvme0'', ''ver''] 0
    = Some (Inr (0, replicate xfer 65 @ replicate 10 66, 5))"
proof -
  have "dev_done shell_dev 1 3"
    by (rule done_later[of _ _ 1 2]; (rule done_now)?) (simp_all add: shell_dev_def)
  moreover have "dev_output shell_dev 3 [replicate xfer 65, replicate 10 66 @ replicate (xfer - 10) 0] 0 5"
    by (rule output_more[of _ _ 1 _ 4]; (rule output_last)?) (simp_all add: shell_dev_def xfer_def)
  ultimately have "shell_exec shell_dev 3 True True (replicate xfer 0) (''nvme'' # ''/dev/nvme0'' # [''ver'']) 0
    = Some (Inr (0, takeWhile (\<lambda>b. b \<noteq> 0) (concat [replicate xfer 65, replicate 10 66 @ replicate (xfer - 10) 0]), 5))"
    by (intro shell_exec_exact[where part = "exec_transfer (replicate xfer 0) ''ver ''"])
      (simp_all add: shell_dev_def xfer_def command_text_def exec_transfer_def chars_def)
  moreover have "takeWhile (\<lambda>b. b \<noteq> 0) (concat [replicate xfer 65, replicate 10 66 @ replicate (xfer - 10) 0])
      = replicate xfer (65 :: u8) @ replicate 10 66"
    by (simp add: xfer_def takeWhile_replicate takeWhile_append)
  ultimately show ?thesis by simp
qed

text \<open>A device that is never done keeps the plugin waiting.\<close>

lemma shell_exec_waits:
  assumes "d \<in> S" and "\<And>d. d \<in> S \<Longrightarrow> \<exists>s d'. ioctl alive_cmd [] d = (s, [], d') \<and> s \<notin> {0, - 1} \<and> d' \<in> S"
  shows "keep_alive ioctl d = None"
proof -
  have "i = ioctl \<longrightarrow> d \<notin> S" if "keep_alive i d = Some y" for i d y
  proof (rule keep_alive.raw_induct[OF _ that, where P = "\<lambda>i d y. i = ioctl \<longrightarrow> d \<notin> S"], intro impI notI)
    fix f i d y
    assume IH: "\<And>i d y. f i d = Some y \<Longrightarrow> i = ioctl \<longrightarrow> d \<notin> S" and "i = ioctl" and "d \<in> S"
      and step: "(case send_nvme_cmd i VU_SUB_OPCODE_SHELL_KEEP_ALIVE 0 0 [] d of Inl e \<Rightarrow> Some (Inl e)
        | Inr (status, uu, d) \<Rightarrow> if status = NVME_DEVICE_TERMINATED \<or> status = NVME_SC_SUCCESS
            then Some (Inr (status, d)) else f i d) = Some y"
    moreover obtain s d' where "ioctl alive_cmd [] d = (s, [], d')" "s \<notin> {0, - 1}" "d' \<in> S"
      using assms(2)[OF \<open>d \<in> S\<close>] by blast
    ultimately show False using IH[of ioctl d' y] by (simp add: send_nvme_cmd_def shell_status)
  qed
  then show ?thesis using assms(1) by (cases "keep_alive ioctl d") auto
qed

text \<open>Output that never ends overruns the buffer of 16 MiB.\<close>

lemma get_result_overrun:
  assumes "data_size \<le> off" and "length m = data_size"
  shows "get_result ioctl off m d = Some (Inl Fault)"
  using assms by (subst get_result.simps) (simp add: send_nvme_cmd_def mem_read_def)

end
