(* ===== verification/Bio.thy ===== *)
theory Bio
  imports Prelude
begin

text \<open>
  The data structures the nbio components share: the enumerations and structures of
  \<open>bio.h\<close>, \<open>block.h\<close>, \<open>params.h\<close>, \<open>namespace.h\<close> and \<open>por.h\<close>. A structure is a record whose fields
  carry a prefix (\<open>bd_\<close>, \<open>bh_\<close>, \<open>hd_\<close>, \<open>b_\<close>, \<open>ns_\<close>, \<open>jp_\<close>) because several structures reuse a
  field name. A pointer to a buffer is the byte list the pointer points into, from the
  pointer to the end of the allocation. Bit fields keep their width.
\<close>

section \<open>Operation codes (\<open>bio.h\<close>)\<close>

datatype bio_opcode =
    bio_read | bio_write | bio_flush | bio_deallocate | bio_write_zeroes
  | bio_write_uncorrect | bio_identify | bio_fw_download

definition bio_max :: nat where
  "bio_max = 8"

primrec bio_opcode_num :: "bio_opcode \<Rightarrow> nat" where
  "bio_opcode_num bio_read = 0"
| "bio_opcode_num bio_write = 1"
| "bio_opcode_num bio_flush = 2"
| "bio_opcode_num bio_deallocate = 3"
| "bio_opcode_num bio_write_zeroes = 4"
| "bio_opcode_num bio_write_uncorrect = 5"
| "bio_opcode_num bio_identify = 6"
| "bio_opcode_num bio_fw_download = 7"

definition bio_opcodes :: "bio_opcode list" where
  "bio_opcodes = [bio_read, bio_write, bio_flush, bio_deallocate, bio_write_zeroes,
     bio_write_uncorrect, bio_identify, bio_fw_download]"

lemma length_bio_opcodes [simp, layout]: "length bio_opcodes = 8"
  by (simp add: bio_opcodes_def)

lemma bio_opcode_num_less [simp]: "bio_opcode_num x < 8"
  by (cases x) simp_all

lemma bio_opcodes_nth [simp]: "bio_opcodes ! bio_opcode_num x = x"
  by (cases x) (simp_all add: bio_opcodes_def)

datatype iosize_opcode =
    iosize_total | iosize_read | iosize_write | iosize_deallocate
  | iosize_write_zeroes | iosize_write_uncorrect

definition iosize_num_max :: nat where
  "iosize_num_max = 6"

primrec iosize_opcode_num :: "iosize_opcode \<Rightarrow> nat" where
  "iosize_opcode_num iosize_total = 0"
| "iosize_opcode_num iosize_read = 1"
| "iosize_opcode_num iosize_write = 2"
| "iosize_opcode_num iosize_deallocate = 3"
| "iosize_opcode_num iosize_write_zeroes = 4"
| "iosize_opcode_num iosize_write_uncorrect = 5"

section \<open>Blocks (\<open>block.h\<close>)\<close>

definition BLOCK_HEADER_START_MARKER :: u8 where
  "BLOCK_HEADER_START_MARKER = 0x12"

definition BLOCK_HEADER_FINISH_MARKER :: u8 where
  "BLOCK_HEADER_FINISH_MARKER = 0x34"

record pr_info =
  guard :: u16
  app :: u16
  ref :: u32

text \<open>\<open>state\<close> and \<open>pattern\<close> are bit fields of 3 and 5 bits.\<close>

record block_desc =
  bd_timestamp :: u16
  bd_state :: "3 word"
  bd_pattern :: "5 word"
  bd_flags :: u8

record block_header =
  bh_pattern :: u8
  bh_start_marker :: u8
  bh_timestamp :: u64
  bh_lba :: u64
  bh_rsvd :: u8
  bh_finish_marker :: u8

text \<open>\<open>bd[BD_CURR]\<close> and \<open>bd[BD_NEXT]\<close>, the two entries of the history array.\<close>

record hist_desc =
  hd_lba :: u64
  hd_curr :: block_desc
  hd_next :: block_desc

text \<open>The values of \<open>enum block_state\<close> (\<open>iover.c\<close>), at the width of the bit field.\<close>

abbreviation (input) block_state_unwritten :: "3 word" where "block_state_unwritten \<equiv> 0"
abbreviation (input) block_state_dealloc :: "3 word" where "block_state_dealloc \<equiv> 1"
abbreviation (input) block_state_uncor :: "3 word" where "block_state_uncor \<equiv> 2"
abbreviation (input) block_state_zeroes :: "3 word" where "block_state_zeroes \<equiv> 3"
abbreviation (input) block_state_data :: "3 word" where "block_state_data \<equiv> 4"

section \<open>Packed layouts\<close>

definition block_header_bytes :: "block_header \<Rightarrow> bytes" where
  "block_header_bytes h =
     [bh_pattern h, bh_start_marker h] @ le_bytes 8 (bh_timestamp h) @ le_bytes 8 (bh_lba h)
     @ [bh_rsvd h, bh_finish_marker h]"

definition block_header_of :: "bytes \<Rightarrow> block_header" where
  "block_header_of bs =
     \<lparr> bh_pattern = bs ! 0, bh_start_marker = bs ! 1,
       bh_timestamp = le_word (take 8 (drop 2 bs)), bh_lba = le_word (take 8 (drop 10 bs)),
       bh_rsvd = bs ! 18, bh_finish_marker = bs ! 19 \<rparr>"

definition sizeof_block_header :: nat where
  "sizeof_block_header = 20"

lemma length_block_header_bytes [simp, layout]:
  "length (block_header_bytes h) = sizeof_block_header"
  by (simp add: block_header_bytes_def sizeof_block_header_def)

lemma block_header_of_bytes [simp]: "block_header_of (block_header_bytes h) = h"
  by (cases h) (simp add: block_header_of_def block_header_bytes_def le_word_le_bytes nth_append)

lemma block_header_bytes_of:
  assumes "length bs = sizeof_block_header"
  shows "block_header_bytes (block_header_of bs) = bs"
proof -
  have l: "length bs = 20" using assms by (simp add: sizeof_block_header_def)
  have h: "take 2 bs = [bs ! 0, bs ! 1]"
    using l by (simp add: numeral_2_eq_2 take_Suc_conv_app_nth)
  have t: "drop 18 bs = [bs ! 18, bs ! 19]"
    using l Cons_nth_drop_Suc[of 18 bs] Cons_nth_drop_Suc[of 19 bs] by simp
  have "bs = take 2 bs @ take 8 (drop 2 bs) @ take 8 (drop 10 bs) @ drop 18 bs"
    using append_take_drop_id[of 2 bs] append_take_drop_id[of 8 "drop 2 bs"]
      append_take_drop_id[of 8 "drop 10 bs"] by (simp del: append_take_drop_id)
  then show ?thesis
    using l h t by (simp add: block_header_bytes_def block_header_of_def le_bytes_le_word)
qed

section \<open>Parameters (\<open>params.h\<close>)\<close>

datatype slba_type =
    slba_type_seq | slba_type_uniform | slba_type_zipf | slba_type_pareto | slba_type_fixed
  | slba_type_jesd219 | slba_type_replay

datatype amount_type =
    amount_type_infinite | amount_type_time | amount_type_io | amount_type_byte

datatype read_result_type =
    read_result_dontcare | read_result_auto | read_result_error | read_result_value

text \<open>
  The value types are tested with bit operations and through \<open>switch\<close> statements with a
  default branch, so they stay numbers.
\<close>

abbreviation (input) unwr_read_value_type_zeroes :: u32 where "unwr_read_value_type_zeroes \<equiv> 0"
abbreviation (input) unwr_read_value_type_ones :: u32 where "unwr_read_value_type_ones \<equiv> 1"
abbreviation (input) dealloc_read_value_type_zeroes :: u32 where "dealloc_read_value_type_zeroes \<equiv> 0"
abbreviation (input) dealloc_read_value_type_ones :: u32 where "dealloc_read_value_type_ones \<equiv> 1"
abbreviation (input) dealloc_read_value_type_last :: u32 where "dealloc_read_value_type_last \<equiv> 2"

text \<open>
  A \<open>double\<close> parameter is kept as the decimal the parser read: the accumulated digits and the
  number of digits after the point.
\<close>

record decimal =
  dec_significant :: u64
  dec_places :: nat

record iosize_range =
  iosize_min :: u64
  iosize_max :: u64
  iosize_align :: u32

text \<open>The union \<open>slba\<close>: one constructor per member.\<close>

datatype slba_param =
    Slba_none
  | Slba_zipf decimal
  | Slba_pareto decimal decimal
  | Slba_fixed u64
  | Slba_jesd219 bool u32

record job_params =
  jp_name :: string
  jp_ioengine :: string
  jp_ioengine_param :: string
  jp_controller :: string
  jp_nsid :: u32
  jp_journal_file :: string
  jp_journal_file_mmap :: bool
  jp_journal_shm :: u32
  jp_dependency :: string
  jp_dependency_job_idx :: nat
  jp_delay :: u64
  jp_lba_overlap :: bool
  jp_randomize_header :: bool
  jp_compare :: bool
  jp_compare_header_only :: bool
  jp_stop_on_miscompare :: bool
  jp_inject_miscompare :: decimal
  jp_stop_on_error :: bool
  jp_iodepth :: u32
  jp_batch_submit :: u32
  jp_batch_complete :: u32
  jp_seed :: u32
  jp_slba_type :: slba_type
  jp_slba :: slba_param
  jp_slba_align :: u32
  jp_separate_stream :: bool
  jp_flush_passthru :: bool
  jp_iosizes :: "iosize_range list"
  jp_operations :: "u32 list"
  jp_lba_range_begin_percent_enable :: bool
  jp_lba_range_begin_percent :: "7 word"
  jp_lba_range_size_percent_enable :: bool
  jp_lba_range_size_percent :: "7 word"
  jp_lba_range_begin :: u64
  jp_lba_range_size :: u64
  jp_amount_type :: amount_type
  jp_amount_bytes_percent_enabled :: bool
  jp_amount_bytes_percent :: "7 word"
  jp_amount :: u64
  jp_amount_scale :: u32
  jp_unwr_read_result_type :: read_result_type
  jp_unwr_read_value_type :: u32
  jp_dealloc_read_result_type :: read_result_type
  jp_dealloc_read_value_type :: u32
  jp_reset_min :: u32
  jp_reset_max :: u32
  jp_num_streams :: u32
  jp_inject_tag_error :: decimal
  jp_timeout :: u32
  jp_stop_on_timeout :: bool
  jp_pract :: decimal
  jp_prchk :: u8
  jp_history :: u32

record global_params =
  gp_iolog :: string
  gp_smartlog :: string
  gp_errorlog :: string
  gp_iotrace :: string
  gp_powerctl_dev :: string
  gp_spor_level :: u32
  gp_skip_ioengine_exit :: u32
  gp_job_params :: "job_params list"

text \<open>Zeroed parameters, as \<open>calloc\<close> and \<open>memset\<close> leave them.\<close>

definition job_params_zero :: job_params where
  "job_params_zero =
     \<lparr> jp_name = '''',
       jp_ioengine = '''',
       jp_ioengine_param = '''',
       jp_controller = '''',
       jp_nsid = 0,
       jp_journal_file = '''',
       jp_journal_file_mmap = False,
       jp_journal_shm = 0,
       jp_dependency = '''',
       jp_dependency_job_idx = 0,
       jp_delay = 0,
       jp_lba_overlap = False,
       jp_randomize_header = False,
       jp_compare = False,
       jp_compare_header_only = False,
       jp_stop_on_miscompare = False,
       jp_inject_miscompare = \<lparr>dec_significant = 0, dec_places = 0\<rparr>,
       jp_stop_on_error = False,
       jp_iodepth = 0,
       jp_batch_submit = 0,
       jp_batch_complete = 0,
       jp_seed = 0,
       jp_slba_type = slba_type_seq,
       jp_slba = Slba_none,
       jp_slba_align = 0,
       jp_separate_stream = False,
       jp_flush_passthru = False,
       jp_iosizes = replicate iosize_num_max \<lparr>iosize_min = 0, iosize_max = 0, iosize_align = 0\<rparr>,
       jp_operations = replicate bio_max 0,
       jp_lba_range_begin_percent_enable = False,
       jp_lba_range_begin_percent = 0,
       jp_lba_range_size_percent_enable = False,
       jp_lba_range_size_percent = 0,
       jp_lba_range_begin = 0,
       jp_lba_range_size = 0,
       jp_amount_type = amount_type_infinite,
       jp_amount_bytes_percent_enabled = False,
       jp_amount_bytes_percent = 0,
       jp_amount = 0,
       jp_amount_scale = 0,
       jp_unwr_read_result_type = read_result_dontcare,
       jp_unwr_read_value_type = 0,
       jp_dealloc_read_result_type = read_result_dontcare,
       jp_dealloc_read_value_type = 0,
       jp_reset_min = 0,
       jp_reset_max = 0,
       jp_num_streams = 0,
       jp_inject_tag_error = \<lparr>dec_significant = 0, dec_places = 0\<rparr>,
       jp_timeout = 0,
       jp_stop_on_timeout = False,
       jp_pract = \<lparr>dec_significant = 0, dec_places = 0\<rparr>,
       jp_prchk = 0,
       jp_history = 0 \<rparr>"

section \<open>Namespaces (\<open>namespace.h\<close>)\<close>

record namespace_info =
  ns_eui64 :: bytes
  ns_nguid :: bytes
  ns_journal_file :: "string option"
  ns_journal_file_mmap :: bool
  ns_journal_shm :: u32
  ns_randomize_header :: bool
  ns_data_size :: u32
  ns_meta_size :: u32
  ns_block_size :: u32
  ns_extended_lba :: bool
  ns_nlbs :: u64
  ns_lba_shift :: u32
  ns_pi_type :: u8
  ns_pi_loc :: u8
  ns_nhist :: u32

definition namespace_zero :: namespace_info where
  "namespace_zero =
     \<lparr> ns_eui64 = [],
       ns_nguid = [],
       ns_journal_file = None,
       ns_journal_file_mmap = False,
       ns_journal_shm = 0,
       ns_randomize_header = False,
       ns_data_size = 0,
       ns_meta_size = 0,
       ns_block_size = 0,
       ns_extended_lba = False,
       ns_nlbs = 0,
       ns_lba_shift = 0,
       ns_pi_type = 0,
       ns_pi_loc = 0,
       ns_nhist = 0 \<rparr>"

section \<open>Block i/o requests (\<open>bio.h\<close>)\<close>

text \<open>
  \<open>data\<close> points into the allocation \<open>data_buf\<close>: \<open>b_data\<close> is the allocation from \<open>data\<close> on and
  \<open>b_data_pre\<close> the bytes before it, so \<open>data_buf\<close> is their concatenation. The list link, the
  job pointer, the engine context and the completion callback are not part of the record: the
  operations that use them take them as arguments.
\<close>

record timespec =
  tv_sec :: int
  tv_nsec :: int

record bio =
  b_id :: u16
  b_block_desc :: "block_desc list"
  b_opcode :: bio_opcode
  b_slba :: u64
  b_nlbs :: u32
  b_iosize :: u64
  b_offset :: u64
  b_data_size :: u64
  b_data_pre :: bytes
  b_data :: bytes
  b_meta_size :: u64
  b_meta :: bytes
  b_stream_id :: u16
  b_result :: int
  b_expected_result :: int
  b_pract :: bool
  b_prchk :: u8
  b_apptag :: u16
  b_reftag :: u32
  b_begin_ts :: timespec
  b_end_ts :: timespec
  b_timeout :: bool
  b_sgl_offset :: u32
  b_hist_idx :: u32

abbreviation slba_nat :: "bio \<Rightarrow> nat" where "slba_nat b \<equiv> unat (b_slba b)"
abbreviation nlbs_nat :: "bio \<Rightarrow> nat" where "nlbs_nat b \<equiv> unat (b_nlbs b)"

definition b_data_buf :: "bio \<Rightarrow> bytes" where
  "b_data_buf b = b_data_pre b @ b_data b"

text \<open>The logical blocks a request covers.\<close>

definition bio_lbas :: "bio \<Rightarrow> nat set" where
  "bio_lbas b = {slba_nat b ..< slba_nat b + nlbs_nat b}"

text \<open>An element of the request pool as \<open>calloc\<close> leaves it.\<close>

definition bio_zero :: bio where
  "bio_zero =
     \<lparr> b_id = 0, b_block_desc = [], b_opcode = bio_read, b_slba = 0, b_nlbs = 0, b_iosize = 0,
       b_offset = 0, b_data_size = 0, b_data_pre = [], b_data = [], b_meta_size = 0, b_meta = [],
       b_stream_id = 0, b_result = 0, b_expected_result = 0, b_pract = False, b_prchk = 0,
       b_apptag = 0, b_reftag = 0, b_begin_ts = \<lparr>tv_sec = 0, tv_nsec = 0\<rparr>,
       b_end_ts = \<lparr>tv_sec = 0, tv_nsec = 0\<rparr>, b_timeout = False, b_sgl_offset = 0, b_hist_idx = 0 \<rparr>"

end
