(* ===== verification/LbaLock.thy ===== *)
theory LbaLock
  imports Bio
begin

text \<open>
  The bitmap lock over logical blocks (\<open>iover.c\<close>, \<open>try_lock_lbas\<close> and \<open>unlock_lbas\<close>): one bit per
  block in an array of 64-bit words, taken and given back a word at a time. This theory runs
  the routines on their own, where every compare-and-swap succeeds at once, and shows that
  they implement a lock on sets of block numbers; \<open>LbaLockConc\<close> interleaves them.
\<close>

section \<open>The code\<close>

text \<open>
  \<open>lba_offset\<close>, \<open>ulong_offset\<close>, \<open>bit_offset\<close> and \<open>bit_length\<close> are \<open>u32\<close>, \<open>bio->slba\<close> is \<open>u64\<close>:
  the sums below that can leave those types are written with their wrap-around.
\<close>

definition bit_offset :: "nat \<Rightarrow> nat \<Rightarrow> nat" where
  "bit_offset slba lba_offset = (slba + lba_offset) mod 2 ^ 64 mod BITS_PER_LONG"

definition bit_length :: "nat \<Rightarrow> nat \<Rightarrow> nat \<Rightarrow> nat" where
  "bit_length slba nlbs lba_offset =
     min (BITS_PER_LONG - bit_offset slba lba_offset) (nlbs - lba_offset)"

definition lock_mask :: "nat \<Rightarrow> nat \<Rightarrow> nat \<Rightarrow> u64" where
  "lock_mask slba nlbs lba_offset =
     GET_MASK64 (bit_offset slba lba_offset) (bit_length slba nlbs lba_offset)"

definition ulong_start :: "nat \<Rightarrow> nat" where
  "ulong_start slba = slba div BITS_PER_LONG mod 2 ^ 32"

definition u32_succ :: "nat \<Rightarrow> nat" where
  "u32_succ n = (n + 1) mod 2 ^ 32"

definition u32_pred :: "nat \<Rightarrow> nat" where
  "u32_pred n = (n + 2 ^ 32 - 1) mod 2 ^ 32"

lemma bit_offset_less: "bit_offset s lo < 64"
  by (simp add: bit_offset_def BITS_PER_LONG_def)

lemma bit_length_pos: "lo < n \<Longrightarrow> 0 < bit_length s n lo"
  using bit_offset_less[of s lo] by (simp add: bit_length_def BITS_PER_LONG_def)

lemma bit_length_shrink: "lo < n \<Longrightarrow> n - (lo + bit_length s n lo) < n - lo"
  using bit_length_pos[of lo n s] by linarith

function rollback_lbas :: "u64 list \<Rightarrow> nat \<Rightarrow> nat \<Rightarrow> u64 list res" where
  "rollback_lbas lk lba_offset ulong_offset =
     (if 0 < lba_offset then
        let ulong_offset = u32_pred ulong_offset;
            len = min BITS_PER_LONG lba_offset;
            mask = GET_MASK64 (BITS_PER_LONG - len) len in
        bnd (arr_get lk ulong_offset) (\<lambda>lock.
        bnd (arr_set lk ulong_offset (lock AND NOT mask)) (\<lambda>lk.
        rollback_lbas lk (lba_offset - len) ulong_offset))
      else Inr lk)"
  by pat_completeness auto
termination
  by (relation "measure (\<lambda>(lk, lo, uo). lo)") (auto simp: BITS_PER_LONG_def)

function lock_loop :: "nat \<Rightarrow> nat \<Rightarrow> u64 list \<Rightarrow> nat \<Rightarrow> nat \<Rightarrow> (int \<times> u64 list) res" where
  "lock_loop slba nlbs lk lba_offset ulong_offset =
     (if lba_offset < nlbs then
        bnd (arr_get lk ulong_offset) (\<lambda>unlock.
        if unlock AND lock_mask slba nlbs lba_offset \<noteq> 0 then
          bnd (rollback_lbas lk lba_offset ulong_offset) (\<lambda>lk. Inr (-1, lk))
        else
          bnd (arr_set lk ulong_offset (unlock OR lock_mask slba nlbs lba_offset)) (\<lambda>lk.
          lock_loop slba nlbs lk (lba_offset + bit_length slba nlbs lba_offset)
            (u32_succ ulong_offset)))
      else Inr (0, lk))"
  by pat_completeness auto
termination
  by (relation "measure (\<lambda>(s, n, lk, lo, uo). n - lo)") (auto intro: bit_length_shrink)

definition try_lock_lbas :: "u64 list \<Rightarrow> bio \<Rightarrow> (int \<times> u64 list) res" where
  "try_lock_lbas lba_lock bio =
     lock_loop (slba_nat bio) (nlbs_nat bio) lba_lock 0 (ulong_start (slba_nat bio))"

function unlock_loop :: "nat \<Rightarrow> nat \<Rightarrow> u64 list \<Rightarrow> nat \<Rightarrow> nat \<Rightarrow> u64 list res" where
  "unlock_loop slba nlbs lk lba_offset ulong_offset =
     (if lba_offset < nlbs then
        bnd (arr_get lk ulong_offset) (\<lambda>lock.
        bnd (arr_set lk ulong_offset (lock AND NOT (lock_mask slba nlbs lba_offset))) (\<lambda>lk.
        unlock_loop slba nlbs lk (lba_offset + bit_length slba nlbs lba_offset)
          (u32_succ ulong_offset)))
      else Inr lk)"
  by pat_completeness auto
termination
  by (relation "measure (\<lambda>(s, n, lk, lo, uo). n - lo)") (auto intro: bit_length_shrink)

definition unlock_lbas :: "u64 list \<Rightarrow> bio \<Rightarrow> u64 list res" where
  "unlock_lbas lba_lock bio =
     unlock_loop (slba_nat bio) (nlbs_nat bio) lba_lock 0 (ulong_start (slba_nat bio))"

declare rollback_lbas.simps [simp del] lock_loop.simps [simp del] unlock_loop.simps [simp del]

section \<open>The set of locked blocks\<close>

definition locked :: "u64 list \<Rightarrow> nat set" where
  "locked lk = {l. l div 64 < length lk \<and> bit (lk ! (l div 64)) (l mod 64)}"

text \<open>A request inside the bitmap, whose words a \<open>u32\<close> can count.\<close>

definition lock_fits :: "u64 list \<Rightarrow> nat \<Rightarrow> nat \<Rightarrow> bool" where
  "lock_fits lk s n \<longleftrightarrow> s + n \<le> 64 * length lk \<and> length lk < 2 ^ 32"

lemma div_mod_range:
  "64 * u + b \<le> (l::nat) \<and> l < 64 * u + b + w \<longleftrightarrow>
     l div 64 = u \<and> b \<le> l mod 64 \<and> l mod 64 < b + w" if "b + w \<le> 64"
proof -
  have e: "l = 64 * (l div 64) + l mod 64" by simp
  have m: "l mod 64 < 64" by simp
  show ?thesis
  proof (cases "l div 64 = u")
    case True
    with e show ?thesis by linarith
  next
    case False
    then consider "l div 64 + 1 \<le> u" | "u + 1 \<le> l div 64" by linarith
    then show ?thesis
    proof cases
      case 1
      then have "64 * (l div 64) + 64 \<le> 64 * u" by linarith
      with e m False show ?thesis by linarith
    next
      case 2
      then have "64 * u + 64 \<le> 64 * (l div 64)" by linarith
      with e m that False show ?thesis by linarith
    qed
  qed
qed

lemma locked_set_bits:
  assumes "u < length lk" and "b + w \<le> 64"
  shows "locked (lk[u := lk ! u OR GET_MASK64 b w]) = locked lk \<union> {64 * u + b ..< 64 * u + b + w}"
proof (rule set_eqI)
  fix l
  show "l \<in> locked (lk[u := lk ! u OR GET_MASK64 b w])
    \<longleftrightarrow> l \<in> locked lk \<union> {64 * u + b ..< 64 * u + b + w}"
    using assms div_mod_range[OF assms(2), of u l]
    by (cases "l div 64 = u") (auto simp: locked_def bit_or_iff bit_GET_MASK64)
qed

lemma locked_clear_bits:
  assumes "u < length lk" and "b + w \<le> 64"
  shows "locked (lk[u := lk ! u AND NOT (GET_MASK64 b w)])
    = locked lk - {64 * u + b ..< 64 * u + b + w}"
proof (rule set_eqI)
  fix l
  show "l \<in> locked (lk[u := lk ! u AND NOT (GET_MASK64 b w)])
    \<longleftrightarrow> l \<in> locked lk - {64 * u + b ..< 64 * u + b + w}"
    using assms div_mod_range[OF assms(2), of u l]
    by (cases "l div 64 = u")
       (auto simp: locked_def bit_and_iff bit_not_iff bit_GET_MASK64)
qed

lemma locked_test_bits:
  assumes "u < length lk" and "b + w \<le> 64"
  shows "lk ! u AND GET_MASK64 b w \<noteq> 0 \<longleftrightarrow> locked lk \<inter> {64 * u + b ..< 64 * u + b + w} \<noteq> {}"
proof
  assume "lk ! u AND GET_MASK64 b w \<noteq> 0"
  then obtain k where "bit (lk ! u) k" "b \<le> k" "k < b + w"
    by (auto simp: bit_eq_iff bit_and_iff bit_GET_MASK64[OF assms(2)])
  then have "64 * u + k \<in> locked lk \<inter> {64 * u + b ..< 64 * u + b + w}"
    using assms by (auto simp: locked_def)
  then show "locked lk \<inter> {64 * u + b ..< 64 * u + b + w} \<noteq> {}" by blast
next
  assume "locked lk \<inter> {64 * u + b ..< 64 * u + b + w} \<noteq> {}"
  then obtain l where l: "l \<in> locked lk" "64 * u + b \<le> l" "l < 64 * u + b + w" by auto
  then have "bit (lk ! u AND GET_MASK64 b w) (l mod 64)"
    using div_mod_range[OF assms(2), of u l]
    by (auto simp: locked_def bit_and_iff bit_GET_MASK64[OF assms(2)])
  then show "lk ! u AND GET_MASK64 b w \<noteq> 0" by auto
qed

lemma locked_inject:
  assumes "length a = length b" and "locked a = locked b"
  shows "a = b"
proof (rule nth_equalityI)
  show "length a = length b" by (fact assms(1))
next
  fix i assume i: "i < length a"
  show "a ! i = b ! i"
  proof (rule bit_word_eqI)
    fix k assume "k < LENGTH(64)"
    then have "(64 * i + k \<in> locked a) = bit (a ! i) k" "(64 * i + k \<in> locked b) = bit (b ! i) k"
      using i assms(1) by (simp_all add: locked_def)
    then show "bit (a ! i) k = bit (b ! i) k" using assms(2) by simp
  qed
qed

lemma locked_replicate [simp]: "locked (replicate n 0) = {}"
  by (auto simp: locked_def)

section \<open>One chunk of the loops\<close>

text \<open>
  At every turn the loops stand at the first block of a word, or at the first block of the
  request; the chunk then covers the request's blocks of that word.
\<close>

definition at_chunk :: "nat \<Rightarrow> nat \<Rightarrow> nat \<Rightarrow> bool" where
  "at_chunk s lo uo \<longleftrightarrow> uo = (s + lo) div 64 \<and> (lo = 0 \<or> (s + lo) mod 64 = 0)"

lemma chunk_facts:
  assumes "lock_fits lk s n" and "at_chunk s lo uo" and "lo < n"
  shows "uo < length lk"
    and "bit_offset s lo + bit_length s n lo \<le> 64"
    and "64 * uo + bit_offset s lo = s + lo"
    and "lo + bit_length s n lo \<le> n"
    and "u32_succ uo = uo + 1"
proof -
  have fits: "s + n \<le> 64 * length lk" "length lk < 2 ^ 32"
    using assms(1) by (auto simp: lock_fits_def)
  have uo: "uo = (s + lo) div 64" using assms(2) by (simp add: at_chunk_def)
  have "s + lo < 64 * length lk" using fits(1) assms(3) by linarith
  then show u: "uo < length lk" by (simp add: uo div_less_iff_less_mult mult.commute)
  have bo: "bit_offset s lo = (s + lo) mod 64"
    using mod_mod_cancel[of 64 "2 ^ 64" "s + lo"] by (simp add: bit_offset_def BITS_PER_LONG_def)
  show "64 * uo + bit_offset s lo = s + lo" by (simp add: uo bo)
  show "bit_offset s lo + bit_length s n lo \<le> 64"
    using bit_offset_less[of s lo] by (simp add: bit_length_def BITS_PER_LONG_def)
  show "lo + bit_length s n lo \<le> n" using assms(3) by (simp add: bit_length_def)
  show "u32_succ uo = uo + 1" using u fits(2) by (simp add: u32_succ_def)
qed

lemma next_chunk:
  assumes "lock_fits lk s n" and "at_chunk s lo uo" and "lo < n"
    and "lo + bit_length s n lo < n"
  shows "at_chunk s (lo + bit_length s n lo) (uo + 1)"
proof -
  note c = chunk_facts[OF assms(1-3)]
  have "bit_length s n lo = 64 - bit_offset s lo"
    using assms(4) by (auto simp: bit_length_def BITS_PER_LONG_def min_def split: if_splits)
  then have "s + (lo + bit_length s n lo) = 64 * (uo + 1)"
    using c(3) bit_offset_less[of s lo] by simp
  then show ?thesis unfolding at_chunk_def by (metis mod_mult_self1_is_0 nonzero_mult_div_cancel_left
        zero_neq_numeral)
qed

lemma at_chunk_start:
  assumes "lock_fits lk s n" and "0 < n"
  shows "at_chunk s 0 (ulong_start s)"
proof -
  have "s div 64 < length lk" using assms by (auto simp: lock_fits_def div_less_iff_less_mult)
  then show ?thesis using assms(1)
    by (simp add: at_chunk_def ulong_start_def BITS_PER_LONG_def lock_fits_def)
qed

lemma lock_fits_update [simp]: "lock_fits (lk[i := v]) s n = lock_fits lk s n"
  by (simp add: lock_fits_def)

lemma range_split: "lo + w \<le> n \<Longrightarrow> {s + lo ..< s + n} = {s + lo ..< s + lo + w} \<union> {s + (lo + w) ..< s + (n::nat)}"
  by auto

section \<open>The loops on sets\<close>

lemma rollback_lbas_spec:
  assumes "lock_fits lk s lo" and "0 < lo \<longrightarrow> uo * 64 = s + lo"
  shows "\<exists>lk'. rollback_lbas lk lo uo = Inr lk' \<and> length lk' = length lk
    \<and> locked lk' = locked lk - {s ..< s + lo}"
  using assms
proof (induction lo arbitrary: lk uo rule: less_induct)
  case (less lo)
  show ?case
  proof (cases "0 < lo")
    case False
    then show ?thesis by (simp add: rollback_lbas.simps[of lk 0 uo])
  next
    case True
    define len where "len = min 64 lo"
    have fits: "s + lo \<le> 64 * length lk" "length lk < 2 ^ 32"
      using less.prems(1) by (auto simp: lock_fits_def)
    have uo: "uo * 64 = s + lo" using less.prems True by simp
    then have pos: "0 < uo" and le: "uo \<le> length lk" using True fits by linarith+
    then have pred: "u32_pred uo = uo - 1" using fits(2)
      by (simp add: u32_pred_def mod_if)
    have i: "uo - 1 < length lk" using pos le by linarith
    let ?lk = "lk[uo - 1 := lk ! (uo - 1) AND NOT (GET_MASK64 (64 - len) len)]"
    have step: "rollback_lbas lk lo uo = rollback_lbas ?lk (lo - len) (uo - 1)"
      using True i by (subst rollback_lbas.simps) (simp add: pred len_def BITS_PER_LONG_def Let_def)
    have base: "64 * (uo - 1) + (64 - len) + len = s + lo" "len \<le> 64" "len \<le> lo"
      using uo pos by (auto simp: len_def)
    have cl: "locked ?lk = locked lk - {s + lo - len ..< s + lo}"
      using locked_clear_bits[OF i, of "64 - len" len] base by (auto simp: len_def)
    have "\<exists>lk'. rollback_lbas ?lk (lo - len) (uo - 1) = Inr lk' \<and> length lk' = length ?lk
        \<and> locked lk' = locked ?lk - {s ..< s + (lo - len)}"
    proof (rule less.IH)
      show "lo - len < lo" using True by (simp add: len_def)
      show "lock_fits ?lk s (lo - len)" using fits by (simp add: lock_fits_def)
      show "0 < lo - len \<longrightarrow> (uo - 1) * 64 = s + (lo - len)"
        using uo by (auto simp: len_def diff_mult_distrib)
    qed
    moreover have "{s ..< s + lo} = {s ..< s + (lo - len)} \<union> {s + lo - len ..< s + lo}"
      using base by auto
    then have "locked ?lk - {s ..< s + (lo - len)} = locked lk - {s ..< s + lo}"
      by (simp only: cl) blast
    ultimately show ?thesis by (simp add: step)
  qed
qed

lemma lock_loop_free:
  assumes "lock_fits lk s n" and "lo < n \<longrightarrow> at_chunk s lo uo" and "lo \<le> n"
    and "locked lk \<inter> {s + lo ..< s + n} = {}"
  shows "\<exists>lk'. lock_loop s n lk lo uo = Inr (0, lk') \<and> length lk' = length lk
    \<and> locked lk' = locked lk \<union> {s + lo ..< s + n}"
  using assms
proof (induction "n - lo" arbitrary: lk lo uo rule: less_induct)
  case less
  show ?case
  proof (cases "lo < n")
    case False
    then show ?thesis using less.prems by (simp add: lock_loop.simps[of s n lk n uo])
  next
    case True
    define w where "w = bit_length s n lo"
    note c = chunk_facts[OF less.prems(1) less.prems(2)[rule_format, OF True] True, folded w_def]
    let ?lk = "lk[uo := lk ! uo OR lock_mask s n lo]"
    have sub: "{s + lo ..< s + lo + w} \<subseteq> {s + lo ..< s + n}" using c(4) by auto
    have "lk ! uo AND lock_mask s n lo = 0"
      using locked_test_bits[OF c(1,2)] c(3) less.prems(4) sub
      by (auto simp: lock_mask_def w_def)
    then have step: "lock_loop s n lk lo uo = lock_loop s n ?lk (lo + w) (uo + 1)"
      using True c by (simp add: lock_loop.simps[of s n lk lo uo] w_def)
    have set1: "locked ?lk = locked lk \<union> {s + lo ..< s + lo + w}"
      using locked_set_bits[OF c(1,2)] c(3) by (simp add: lock_mask_def w_def)
    have "\<exists>lk'. lock_loop s n ?lk (lo + w) (uo + 1) = Inr (0, lk') \<and> length lk' = length ?lk
        \<and> locked lk' = locked ?lk \<union> {s + (lo + w) ..< s + n}"
    proof (rule less.hyps)
      show "n - (lo + w) < n - lo" unfolding w_def by (rule bit_length_shrink[OF True])
      show "lock_fits ?lk s n" using less.prems(1) by simp
      show "lo + w < n \<longrightarrow> at_chunk s (lo + w) (uo + 1)"
        using next_chunk[OF less.prems(1) less.prems(2)[rule_format, OF True] True]
        by (simp add: w_def)
      show "lo + w \<le> n" by (fact c(4))
      show "locked ?lk \<inter> {s + (lo + w) ..< s + n} = {}"
        using less.prems(4) by (auto simp: set1)
    qed
    then show ?thesis using range_split[OF c(4), of s] by (auto simp: step set1)
  qed
qed

lemma lock_loop_busy:
  assumes "lock_fits lk s n" and "lo < n \<longrightarrow> at_chunk s lo uo" and "lo \<le> n"
    and "{s ..< s + lo} \<subseteq> locked lk" and "locked lk \<inter> {s + lo ..< s + n} \<noteq> {}"
  shows "\<exists>lk'. lock_loop s n lk lo uo = Inr (-1, lk') \<and> length lk' = length lk
    \<and> locked lk' = locked lk - {s ..< s + lo}"
  using assms
proof (induction "n - lo" arbitrary: lk lo uo rule: less_induct)
  case less
  from less.prems(5) have True: "lo < n" by (cases "lo < n") auto
  define w where "w = bit_length s n lo"
  note at = less.prems(2)[rule_format, OF True]
  note c = chunk_facts[OF less.prems(1) at True, folded w_def]
  show ?case
  proof (cases "locked lk \<inter> {s + lo ..< s + lo + w} = {}")
    case False
    have "lk ! uo AND lock_mask s n lo \<noteq> 0"
      using locked_test_bits[OF c(1,2)] c(3) False by (simp add: lock_mask_def w_def)
    then have step: "lock_loop s n lk lo uo = bnd (rollback_lbas lk lo uo) (\<lambda>lk. Inr (-1, lk))"
      using True c by (simp add: lock_loop.simps[of s n lk lo uo])
    have "\<exists>lk'. rollback_lbas lk lo uo = Inr lk' \<and> length lk' = length lk
        \<and> locked lk' = locked lk - {s ..< s + lo}"
    proof (rule rollback_lbas_spec)
      show "lock_fits lk s lo" using less.prems(1) True by (simp add: lock_fits_def)
      show "0 < lo \<longrightarrow> uo * 64 = s + lo" using at by (auto simp: at_chunk_def)
    qed
    then show ?thesis by (auto simp: step)
  next
    case free: True
    let ?lk = "lk[uo := lk ! uo OR lock_mask s n lo]"
    have "lk ! uo AND lock_mask s n lo = 0"
      using locked_test_bits[OF c(1,2)] c(3) free by (simp add: lock_mask_def w_def)
    then have step: "lock_loop s n lk lo uo = lock_loop s n ?lk (lo + w) (uo + 1)"
      using True c by (simp add: lock_loop.simps[of s n lk lo uo] w_def)
    have set1: "locked ?lk = locked lk \<union> {s + lo ..< s + lo + w}"
      using locked_set_bits[OF c(1,2)] c(3) by (simp add: lock_mask_def w_def)
    have "\<exists>lk'. lock_loop s n ?lk (lo + w) (uo + 1) = Inr (-1, lk') \<and> length lk' = length ?lk
        \<and> locked lk' = locked ?lk - {s ..< s + (lo + w)}"
    proof (rule less.hyps)
      show "n - (lo + w) < n - lo" unfolding w_def by (rule bit_length_shrink[OF True])
      show "lock_fits ?lk s n" using less.prems(1) by simp
      show "lo + w < n \<longrightarrow> at_chunk s (lo + w) (uo + 1)"
        using next_chunk[OF less.prems(1) at True] by (simp add: w_def)
      show "lo + w \<le> n" by (fact c(4))
      show "{s ..< s + (lo + w)} \<subseteq> locked ?lk" using less.prems(4) by (auto simp: set1)
      show "locked ?lk \<inter> {s + (lo + w) ..< s + n} \<noteq> {}"
        using less.prems(5) free range_split[OF c(4), of s] by (auto simp: set1)
    qed
    moreover have "locked ?lk - {s ..< s + (lo + w)} = locked lk - {s ..< s + lo}"
      using free unfolding set1 by (auto simp: disjoint_iff)
    ultimately show ?thesis by (simp add: step)
  qed
qed

lemma unlock_loop_spec:
  assumes "lock_fits lk s n" and "lo < n \<longrightarrow> at_chunk s lo uo" and "lo \<le> n"
  shows "\<exists>lk'. unlock_loop s n lk lo uo = Inr lk' \<and> length lk' = length lk
    \<and> locked lk' = locked lk - {s + lo ..< s + n}"
  using assms
proof (induction "n - lo" arbitrary: lk lo uo rule: less_induct)
  case less
  show ?case
  proof (cases "lo < n")
    case False
    then show ?thesis using less.prems by (simp add: unlock_loop.simps[of s n lk n uo])
  next
    case True
    define w where "w = bit_length s n lo"
    note at = less.prems(2)[rule_format, OF True]
    note c = chunk_facts[OF less.prems(1) at True, folded w_def]
    let ?lk = "lk[uo := lk ! uo AND NOT (lock_mask s n lo)]"
    have step: "unlock_loop s n lk lo uo = unlock_loop s n ?lk (lo + w) (uo + 1)"
      using True c by (simp add: unlock_loop.simps[of s n lk lo uo] w_def)
    have set1: "locked ?lk = locked lk - {s + lo ..< s + lo + w}"
      using locked_clear_bits[OF c(1,2)] c(3) by (simp add: lock_mask_def w_def)
    have "\<exists>lk'. unlock_loop s n ?lk (lo + w) (uo + 1) = Inr lk' \<and> length lk' = length ?lk
        \<and> locked lk' = locked ?lk - {s + (lo + w) ..< s + n}"
    proof (rule less.hyps)
      show "n - (lo + w) < n - lo" unfolding w_def by (rule bit_length_shrink[OF True])
      show "lock_fits ?lk s n" using less.prems(1) by simp
      show "lo + w < n \<longrightarrow> at_chunk s (lo + w) (uo + 1)"
        using next_chunk[OF less.prems(1) at True] by (simp add: w_def)
      show "lo + w \<le> n" by (fact c(4))
    qed
    then show ?thesis using range_split[OF c(4), of s] by (auto simp: step set1)
  qed
qed

section \<open>The lock as an interface\<close>

text \<open>
  What the generator relies on: a request is granted exactly when none of its blocks is held,
  a refused request leaves the lock as it was, and a release gives back the request's blocks.
\<close>

locale range_lock =
  fixes try_lock :: "'l \<Rightarrow> 'r \<Rightarrow> (int \<times> 'l) res"
    and unlock :: "'l \<Rightarrow> 'r \<Rightarrow> 'l res"
    and held :: "'l \<Rightarrow> nat set"
    and covers :: "'r \<Rightarrow> nat set"
    and shape :: "'l \<Rightarrow> nat"
    and fits :: "nat \<Rightarrow> 'r \<Rightarrow> bool"
  assumes try_free: "fits (shape l) r \<Longrightarrow> held l \<inter> covers r = {} \<Longrightarrow>
      \<exists>l'. try_lock l r = Inr (0, l') \<and> shape l' = shape l \<and> held l' = held l \<union> covers r"
    and try_busy: "fits (shape l) r \<Longrightarrow> held l \<inter> covers r \<noteq> {} \<Longrightarrow> try_lock l r = Inr (-1, l)"
    and unlock_held: "fits (shape l) r \<Longrightarrow>
      \<exists>l'. unlock l r = Inr l' \<and> shape l' = shape l \<and> held l' = held l - covers r"
    and held_inject: "shape l = shape l' \<Longrightarrow> held l = held l' \<Longrightarrow> l = l'"
begin

lemma try_lock_iff:
  assumes "fits (shape l) r"
  shows "(\<exists>l'. try_lock l r = Inr (0, l')) \<longleftrightarrow> held l \<inter> covers r = {}"
  using try_free[OF assms] try_busy[OF assms] by (cases "held l \<inter> covers r = {}") auto

lemma try_lock_held:
  assumes "fits (shape l) r" and "try_lock l r = Inr (0, l')"
  shows "held l \<inter> covers r = {}" and "held l' = held l \<union> covers r" and "shape l' = shape l"
proof -
  show free: "held l \<inter> covers r = {}" using try_lock_iff[OF assms(1)] assms(2) by blast
  show "held l' = held l \<union> covers r" "shape l' = shape l"
    using try_free[OF assms(1) free] assms(2) by auto
qed

lemma lock_then_unlock:
  assumes "fits (shape l) r" and "try_lock l r = Inr (0, l')"
  shows "unlock l' r = Inr l"
proof -
  note h = try_lock_held[OF assms]
  obtain m where m: "unlock l' r = Inr m" "shape m = shape l'" "held m = held l' - covers r"
    using unlock_held[of l' r] assms(1) h(3) by auto
  have "held m = held l" using h m(3) by auto
  then show ?thesis using held_inject[of m l] m h(3) by simp
qed

lemma second_request_refused:
  assumes "fits (shape l) r" and "fits (shape l) q" and "try_lock l r = Inr (0, l')"
    and "covers r \<inter> covers q \<noteq> {}"
  shows "try_lock l' q = Inr (-1, l')"
  using try_busy[of l' q] try_lock_held[OF assms(1,3)] assms(2,4) by auto

end

definition bio_fits :: "nat \<Rightarrow> bio \<Rightarrow> bool" where
  "bio_fits nwords b \<longleftrightarrow> slba_nat b + nlbs_nat b \<le> 64 * nwords \<and> nwords < 2 ^ 32"

lemma bio_fits_iff: "bio_fits (length lk) b \<longleftrightarrow> lock_fits lk (slba_nat b) (nlbs_nat b)"
  by (simp add: bio_fits_def lock_fits_def)

lemma first_chunk:
  "lock_fits lk s n \<Longrightarrow> 0 < n \<longrightarrow> at_chunk s 0 (ulong_start s)"
  using at_chunk_start by blast

interpretation lba: range_lock try_lock_lbas unlock_lbas locked bio_lbas length bio_fits
proof (unfold_locales, goal_cases)
  case (1 l r)
  then show ?case
    using lock_loop_free[of l "slba_nat r" "nlbs_nat r" 0 "ulong_start (slba_nat r)"] first_chunk
    by (auto simp: try_lock_lbas_def bio_lbas_def bio_fits_iff)
next
  case (2 l r)
  then obtain l' where "try_lock_lbas l r = Inr (-1, l')" "length l' = length l"
      "locked l' = locked l"
    using lock_loop_busy[of l "slba_nat r" "nlbs_nat r" 0 "ulong_start (slba_nat r)"] first_chunk
    by (auto simp: try_lock_lbas_def bio_lbas_def bio_fits_iff)
  then show ?case using locked_inject[of l' l] by simp
next
  case (3 l r)
  then show ?case
    using unlock_loop_spec[of l "slba_nat r" "nlbs_nat r" 0 "ulong_start (slba_nat r)"] first_chunk
    by (auto simp: unlock_lbas_def bio_lbas_def bio_fits_iff)
next
  case (4 l l')
  then show ?case by (rule locked_inject)
qed

section \<open>Correctness of the lock\<close>

text \<open>C15: \<open>try_lock_lbas\<close> implements a lock on sets of blocks. For a request inside the bitmap it
  never touches memory outside it; it returns 0 exactly when no block of the request is held, and
  then the held set grows by exactly the request; otherwise it returns -1 and the rollback has
  restored every word.\<close>

theorem try_lock_lbas_spec:
  assumes "bio_fits (length lk) b"
  shows "if locked lk \<inter> bio_lbas b = {}
    then \<exists>lk'. try_lock_lbas lk b = Inr (0, lk') \<and> length lk' = length lk
      \<and> locked lk' = locked lk \<union> bio_lbas b
    else try_lock_lbas lk b = Inr (-1, lk)"
  using lba.try_free[OF assms] lba.try_busy[OF assms] by simp

text \<open>C16: Releasing what was locked restores the bitmap bit for bit, and while a request is held
  every request that shares a block with it is refused.\<close>

theorem lock_unlock_roundtrip:
  assumes "bio_fits (length lk) b" and "try_lock_lbas lk b = Inr (0, lk')"
  shows "unlock_lbas lk' b = Inr lk \<and>
    (\<forall>c. bio_fits (length lk) c \<and> bio_lbas b \<inter> bio_lbas c \<noteq> {} \<longrightarrow>
      try_lock_lbas lk' c = Inr (-1, lk'))"
  using lba.lock_then_unlock[OF assms] lba.second_request_refused[OF assms(1) _ assms(2)] by auto

text \<open>A request of ten blocks that crosses a word boundary.\<close>

definition bio_60_10 :: bio where
  "bio_60_10 = bio_zero\<lparr>b_slba := 60, b_nlbs := 10\<rparr>"

lemma try_lock_60_10:
  "try_lock_lbas [1, 0] bio_60_10 = Inr (0, [0xF000000000000001, 0x3F])"
proof -
  have m: "lock_mask 60 10 0 = 0xF000000000000000" "lock_mask 60 10 4 = 0x3F"
    by (simp_all add: lock_mask_def bit_offset_def bit_length_def BITS_PER_LONG_def
      GET_MASK64_def mask_eq_exp_minus_1)
  show ?thesis
  by (simp add: m try_lock_lbas_def bio_60_10_def bio_zero_def lock_loop.simps ulong_start_def
      bit_offset_def bit_length_def BITS_PER_LONG_def u32_succ_def)
qed

lemma bio_fits_60_10: "bio_fits (length [1::u64, 0]) bio_60_10"
  by (simp add: bio_fits_def bio_60_10_def bio_zero_def)

theorem try_lock_lbas_spec_witness:
  "bio_fits (length [1::u64, 0]) bio_60_10 \<and>
   (if locked [1, 0] \<inter> bio_lbas bio_60_10 = {}
    then \<exists>lk'. try_lock_lbas [1, 0] bio_60_10 = Inr (0, lk') \<and> length lk' = length [1::u64, 0]
      \<and> locked lk' = locked [1, 0] \<union> bio_lbas bio_60_10
    else try_lock_lbas [1, 0] bio_60_10 = Inr (-1, [1, 0]))"
  using try_lock_lbas_spec[OF bio_fits_60_10] bio_fits_60_10 by blast

theorem lock_unlock_roundtrip_witness:
  "try_lock_lbas [1, 0] bio_60_10 = Inr (0, [0xF000000000000001, 0x3F])
   \<and> unlock_lbas [0xF000000000000001, 0x3F] bio_60_10 = Inr [1, 0]"
  using lock_unlock_roundtrip[OF bio_fits_60_10 try_lock_60_10] try_lock_60_10 by simp

end
