(* ===== verification/LbaLockConc.thy ===== *)
theory LbaLockConc
  imports LbaLock
begin

text \<open>
  The bitmap lock under interleaving. Every job thread runs \<open>try_lock_lbas\<close> and \<open>unlock_lbas\<close>
  on the shared words; the atomic steps are the load of a word and the compare-and-swap that
  follows it, which succeeds only if the word still has the loaded value. A thread's position
  in the code is a constructor of \<open>lock_pc\<close> carrying the local variables.
\<close>

section \<open>Threads and their atomic steps\<close>

datatype lock_pc =
    Idle
  | Try bio nat nat \<comment> \<open>head of the locking loop: \<open>lba_offset\<close>, \<open>ulong_offset\<close>\<close>
  | TryCas bio nat nat u64 \<comment> \<open>before the swap, with the loaded value \<open>unlock\<close>\<close>
  | Roll bio nat nat \<comment> \<open>head of the rollback loop\<close>
  | RollCas bio nat nat u64
  | Held bio \<comment> \<open>\<open>try_lock_lbas\<close> returned 0\<close>
  | Rel bio nat nat \<comment> \<open>head of the loop of \<open>unlock_lbas\<close>\<close>
  | RelCas bio nat nat u64

record lock_sys =
  words :: "u64 list"
  pcs :: "nat \<Rightarrow> lock_pc"

abbreviation mask_of :: "bio \<Rightarrow> nat \<Rightarrow> u64" where
  "mask_of b lo \<equiv> lock_mask (slba_nat b) (nlbs_nat b) lo"

abbreviation chunk_len :: "bio \<Rightarrow> nat \<Rightarrow> nat" where
  "chunk_len b lo \<equiv> bit_length (slba_nat b) (nlbs_nat b) lo"

definition roll_len :: "nat \<Rightarrow> nat" where
  "roll_len lo = min BITS_PER_LONG lo"

definition roll_mask :: "nat \<Rightarrow> u64" where
  "roll_mask lo = GET_MASK64 (BITS_PER_LONG - roll_len lo) (roll_len lo)"

text \<open>One atomic step of a thread: the words and its program counter before and after.\<close>

inductive thread_step :: "u64 list \<Rightarrow> lock_pc \<Rightarrow> u64 list \<Rightarrow> lock_pc \<Rightarrow> bool" where
  call: "bio_fits (length m) b \<Longrightarrow>
     thread_step m Idle m (Try b 0 (ulong_start (slba_nat b)))"
| try_load: "lo < nlbs_nat b \<Longrightarrow> m ! uo AND mask_of b lo = 0 \<Longrightarrow>
     thread_step m (Try b lo uo) m (TryCas b lo uo (m ! uo))"
| try_busy: "lo < nlbs_nat b \<Longrightarrow> m ! uo AND mask_of b lo \<noteq> 0 \<Longrightarrow>
     thread_step m (Try b lo uo) m (Roll b lo uo)"
| try_done: "\<not> lo < nlbs_nat b \<Longrightarrow> thread_step m (Try b lo uo) m (Held b)"
| try_swap: "m ! uo = v \<Longrightarrow>
     thread_step m (TryCas b lo uo v) (m[uo := v OR mask_of b lo])
       (Try b (lo + chunk_len b lo) (u32_succ uo))"
| try_retry: "m ! uo \<noteq> v \<Longrightarrow> thread_step m (TryCas b lo uo v) m (Try b lo uo)"
| roll_load: "0 < lo \<Longrightarrow>
     thread_step m (Roll b lo uo) m (RollCas b lo (u32_pred uo) (m ! u32_pred uo))"
| roll_done: "\<not> 0 < lo \<Longrightarrow> thread_step m (Roll b lo uo) m Idle"
| roll_swap: "m ! uo = v \<Longrightarrow>
     thread_step m (RollCas b lo uo v) (m[uo := v AND NOT (roll_mask lo)])
       (Roll b (lo - roll_len lo) uo)"
| roll_retry: "m ! uo \<noteq> v \<Longrightarrow> thread_step m (RollCas b lo uo v) m (RollCas b lo uo (m ! uo))"
| release: "thread_step m (Held b) m (Rel b 0 (ulong_start (slba_nat b)))"
| rel_load: "lo < nlbs_nat b \<Longrightarrow> thread_step m (Rel b lo uo) m (RelCas b lo uo (m ! uo))"
| rel_done: "\<not> lo < nlbs_nat b \<Longrightarrow> thread_step m (Rel b lo uo) m Idle"
| rel_swap: "m ! uo = v \<Longrightarrow>
     thread_step m (RelCas b lo uo v) (m[uo := v AND NOT (mask_of b lo)])
       (Rel b (lo + chunk_len b lo) (u32_succ uo))"
| rel_retry: "m ! uo \<noteq> v \<Longrightarrow> thread_step m (RelCas b lo uo v) m (RelCas b lo uo (m ! uo))"

inductive sys_step :: "lock_sys \<Rightarrow> lock_sys \<Rightarrow> bool" where
  thread: "thread_step (words s) (pcs s i) m p \<Longrightarrow>
     sys_step s (s\<lparr>words := m, pcs := (pcs s)(i := p)\<rparr>)"

inductive_cases sys_stepE: "sys_step s t"

definition init_sys :: "nat \<Rightarrow> lock_sys" where
  "init_sys nwords = \<lparr>words = replicate nwords 0, pcs = (\<lambda>_. Idle)\<rparr>"

inductive reachable :: "nat \<Rightarrow> lock_sys \<Rightarrow> bool" for nwords where
  init: "reachable nwords (init_sys nwords)"
| step: "reachable nwords s \<Longrightarrow> sys_step s t \<Longrightarrow> reachable nwords t"

section \<open>The invariant\<close>

text \<open>The blocks a thread owns at each point of the code.\<close>

fun owned :: "lock_pc \<Rightarrow> nat set" where
  "owned Idle = {}"
| "owned (Try b lo uo) = {slba_nat b ..< slba_nat b + lo}"
| "owned (TryCas b lo uo v) = {slba_nat b ..< slba_nat b + lo}"
| "owned (Roll b lo uo) = {slba_nat b ..< slba_nat b + lo}"
| "owned (RollCas b lo uo v) = {slba_nat b ..< slba_nat b + lo}"
| "owned (Held b) = bio_lbas b"
| "owned (Rel b lo uo) = {slba_nat b + lo ..< slba_nat b + nlbs_nat b}"
| "owned (RelCas b lo uo v) = {slba_nat b + lo ..< slba_nat b + nlbs_nat b}"

text \<open>The local variables are consistent with each other and with the bitmap.\<close>

abbreviation at_loop :: "bio \<Rightarrow> nat \<Rightarrow> nat \<Rightarrow> bool" where
  "at_loop b lo uo \<equiv> lo \<le> nlbs_nat b \<and> (lo < nlbs_nat b \<longrightarrow> at_chunk (slba_nat b) lo uo)"

fun pc_ok :: "nat \<Rightarrow> lock_pc \<Rightarrow> bool" where
  "pc_ok nw Idle \<longleftrightarrow> True"
| "pc_ok nw (Try b lo uo) \<longleftrightarrow> bio_fits nw b \<and> at_loop b lo uo"
| "pc_ok nw (TryCas b lo uo v) \<longleftrightarrow>
     bio_fits nw b \<and> at_loop b lo uo \<and> lo < nlbs_nat b \<and> v AND mask_of b lo = 0"
| "pc_ok nw (Roll b lo uo) \<longleftrightarrow>
     bio_fits nw b \<and> lo \<le> nlbs_nat b \<and> (0 < lo \<longrightarrow> uo * 64 = slba_nat b + lo)"
| "pc_ok nw (RollCas b lo uo v) \<longleftrightarrow>
     bio_fits nw b \<and> lo \<le> nlbs_nat b \<and> 0 < lo \<and> Suc uo * 64 = slba_nat b + lo"
| "pc_ok nw (Held b) \<longleftrightarrow> bio_fits nw b"
| "pc_ok nw (Rel b lo uo) \<longleftrightarrow> bio_fits nw b \<and> at_loop b lo uo"
| "pc_ok nw (RelCas b lo uo v) \<longleftrightarrow> bio_fits nw b \<and> at_loop b lo uo \<and> lo < nlbs_nat b"

definition lock_inv :: "nat \<Rightarrow> lock_sys \<Rightarrow> bool" where
  "lock_inv nw s \<longleftrightarrow> length (words s) = nw \<and> (\<forall>i. pc_ok nw (pcs s i))
     \<and> (\<forall>i j. i \<noteq> j \<longrightarrow> owned (pcs s i) \<inter> owned (pcs s j) = {})
     \<and> locked (words s) = (\<Union>i. owned (pcs s i))"

section \<open>What a step does to ownership\<close>

definition takes :: "u64 list \<Rightarrow> lock_pc \<Rightarrow> u64 list \<Rightarrow> lock_pc \<Rightarrow> nat set \<Rightarrow> bool" where
  "takes m p m' p' c \<longleftrightarrow>
     locked m \<inter> c = {} \<and> locked m' = locked m \<union> c \<and> owned p' = owned p \<union> c"

definition gives :: "u64 list \<Rightarrow> lock_pc \<Rightarrow> u64 list \<Rightarrow> lock_pc \<Rightarrow> nat set \<Rightarrow> bool" where
  "gives m p m' p' c \<longleftrightarrow>
     c \<subseteq> owned p \<and> locked m' = locked m - c \<and> owned p' = owned p - c"

lemma keeps_takes: "owned p' = owned p \<Longrightarrow> takes m p m p' {}"
  by (simp add: takes_def)

lemma chunk_range:
  fixes m :: "u64 list"
  assumes "bio_fits (length m) b" and "at_loop b lo uo" and "lo < nlbs_nat b"
  shows "uo < length m" and "u32_succ uo = uo + 1"
    and "bit_offset (slba_nat b) lo + chunk_len b lo \<le> 64"
    and "64 * uo + bit_offset (slba_nat b) lo = slba_nat b + lo"
    and "at_loop b (lo + chunk_len b lo) (uo + 1)"
proof -
  have f: "lock_fits m (slba_nat b) (nlbs_nat b)" using assms(1) by (simp add: bio_fits_iff)
  have a: "at_chunk (slba_nat b) lo uo" using assms by blast
  note c = chunk_facts[OF f a assms(3)]
  show "uo < length m" "u32_succ uo = uo + 1"
    "bit_offset (slba_nat b) lo + chunk_len b lo \<le> 64"
    "64 * uo + bit_offset (slba_nat b) lo = slba_nat b + lo"
    by (fact c)+
  show "at_loop b (lo + chunk_len b lo) (uo + 1)"
    using c(4) next_chunk[OF f a assms(3)] by blast
qed

lemma roll_range:
  assumes "bio_fits nw b" and "lo \<le> nlbs_nat b" and "0 < lo" and "Suc uo * 64 = slba_nat b + lo"
  shows "uo < nw" and "64 * uo + (64 - roll_len lo) = slba_nat b + (lo - roll_len lo)"
    and "roll_len lo \<le> lo" and "roll_len lo \<le> 64"
    and "0 < lo - roll_len lo \<Longrightarrow> uo * 64 = slba_nat b + (lo - roll_len lo)"
  using assms by (auto simp: bio_fits_def roll_len_def BITS_PER_LONG_def min_def split: if_splits)

lemma pred_word:
  assumes "bio_fits nw b" and "lo \<le> nlbs_nat b" and "0 < lo" and "uo * 64 = slba_nat b + lo"
  shows "Suc (u32_pred uo) = uo"
proof -
  have "0 < uo" "uo \<le> nw" "nw < 2 ^ 32" using assms by (auto simp: bio_fits_def)
  then have "uo - 1 < 2 ^ 32" "uo + 2 ^ 32 - 1 = uo - 1 + 2 ^ 32" by simp_all
  with \<open>0 < uo\<close> show ?thesis unfolding u32_pred_def by (simp only: mod_add_self2 mod_less)
qed

lemma thread_step_effect:
  assumes "thread_step m p m' p'" and "pc_ok (length m) p"
  shows "length m' = length m \<and> pc_ok (length m) p'
    \<and> (\<exists>c. takes m p m' p' c \<or> gives m p m' p' c)"
  using assms
proof (induction rule: thread_step.induct)
  case (call m b)
  then show ?case
    using first_chunk[of m "slba_nat b" "nlbs_nat b"]
    by (auto simp: bio_fits_iff intro!: exI[of _ "{}"] keeps_takes)
next
  case (try_load lo b m uo)
  then show ?case by (auto intro!: exI[of _ "{}"] keeps_takes)
next
  case (try_busy lo b m uo)
  then show ?case by (auto simp: at_chunk_def intro!: exI[of _ "{}"] keeps_takes)
next
  case (try_done lo b m uo)
  then show ?case by (auto simp: bio_lbas_def intro!: exI[of _ "{}"] keeps_takes)
next
  case (try_swap m uo v b lo)
  then have ok: "bio_fits (length m) b" "at_loop b lo uo" "lo < nlbs_nat b"
    and free: "v AND mask_of b lo = 0" by auto
  note c = chunk_range[OF ok]
  let ?c = "{slba_nat b + lo ..< slba_nat b + lo + chunk_len b lo}"
  have "locked m \<inter> ?c = {}"
    using locked_test_bits[OF c(1,3)] free try_swap.hyps c(4) by (auto simp: lock_mask_def)
  moreover have "locked (m[uo := v OR mask_of b lo]) = locked m \<union> ?c"
    using locked_set_bits[OF c(1,3)] try_swap.hyps c(4) by (simp add: lock_mask_def)
  ultimately have "takes m (TryCas b lo uo v) (m[uo := v OR mask_of b lo])
      (Try b (lo + chunk_len b lo) (uo + 1)) ?c"
    by (auto simp: takes_def)
  then show ?case using ok(1) c(2,5) by auto
next
  case (try_retry m uo v b lo)
  then show ?case by (auto intro!: exI[of _ "{}"] keeps_takes)
next
  case (roll_load lo m b uo)
  then show ?case using pred_word[of "length m" b lo uo]
    by (auto intro!: exI[of _ "{}"] keeps_takes)
next
  case (roll_done lo m b uo)
  then show ?case by (auto intro!: exI[of _ "{}"] keeps_takes)
next
  case (roll_swap m uo v b lo)
  then have ok: "bio_fits (length m) b" "lo \<le> nlbs_nat b" "0 < lo"
    "Suc uo * 64 = slba_nat b + lo" by auto
  note r = roll_range[OF ok]
  let ?c = "{slba_nat b + (lo - roll_len lo) ..< slba_nat b + lo}"
  have "locked (m[uo := v AND NOT (roll_mask lo)]) = locked m - ?c"
    using locked_clear_bits[OF r(1), of "64 - roll_len lo" "roll_len lo"] roll_swap.hyps r
    by (simp add: roll_mask_def BITS_PER_LONG_def)
  moreover have "?c \<subseteq> {slba_nat b ..< slba_nat b + lo}"
    and "{slba_nat b ..< slba_nat b + (lo - roll_len lo)} = {slba_nat b ..< slba_nat b + lo} - ?c"
    by auto
  ultimately have "gives m (RollCas b lo uo v) (m[uo := v AND NOT (roll_mask lo)])
      (Roll b (lo - roll_len lo) uo) ?c"
    by (simp add: gives_def)
  then show ?case using ok(1,2) r(5) by auto
next
  case (roll_retry m uo v b lo)
  then show ?case by (auto intro!: exI[of _ "{}"] keeps_takes)
next
  case (release m b)
  then show ?case
    using first_chunk[of m "slba_nat b" "nlbs_nat b"]
    by (auto simp: bio_fits_iff bio_lbas_def intro!: exI[of _ "{}"] keeps_takes)
next
  case (rel_load lo b m uo)
  then show ?case by (auto intro!: exI[of _ "{}"] keeps_takes)
next
  case (rel_done lo b m uo)
  then show ?case by (auto intro!: exI[of _ "{}"] keeps_takes)
next
  case (rel_swap m uo v b lo)
  then have ok: "bio_fits (length m) b" "at_loop b lo uo" "lo < nlbs_nat b" by auto
  note c = chunk_range[OF ok]
  let ?c = "{slba_nat b + lo ..< slba_nat b + lo + chunk_len b lo}"
  have "locked (m[uo := v AND NOT (mask_of b lo)]) = locked m - ?c"
    using locked_clear_bits[OF c(1,3)] rel_swap.hyps c(4) by (simp add: lock_mask_def)
  then have "gives m (RelCas b lo uo v) (m[uo := v AND NOT (mask_of b lo)])
      (Rel b (lo + chunk_len b lo) (uo + 1)) ?c"
    using c(5) by (auto simp: gives_def)
  then show ?case using ok(1) c(2,5) by auto
next
  case (rel_retry m uo v b lo)
  then show ?case by (auto intro!: exI[of _ "{}"] keeps_takes)
qed

section \<open>The invariant holds in every reachable state\<close>

lemma lock_inv_takes:
  assumes "lock_inv nw s" and "length m = nw" and "pc_ok nw p"
    and t: "takes (words s) (pcs s i) m p c"
  shows "lock_inv nw (s\<lparr>words := m, pcs := (pcs s)(i := p)\<rparr>)"
proof -
  have inv: "locked (words s) = (\<Union>k. owned (pcs s k))"
    "\<And>k j. k \<noteq> j \<Longrightarrow> owned (pcs s k) \<inter> owned (pcs s j) = {}"
    using assms(1) by (auto simp: lock_inv_def)
  have "owned (pcs s k) \<inter> c = {}" for k using t inv(1) by (auto simp: takes_def)
  then have "owned (((pcs s)(i := p)) k) \<inter> owned (((pcs s)(i := p)) j) = {}" if "k \<noteq> j" for k j
    using t inv(2)[OF that] that by (auto simp: takes_def)
  moreover have "locked m = (\<Union>k. owned (((pcs s)(i := p)) k))"
    using t inv(1) by (auto simp: takes_def split: if_splits)
  ultimately show ?thesis
    using assms by (simp add: lock_inv_def)
qed

lemma lock_inv_gives:
  assumes "lock_inv nw s" and "length m = nw" and "pc_ok nw p"
    and g: "gives (words s) (pcs s i) m p c"
  shows "lock_inv nw (s\<lparr>words := m, pcs := (pcs s)(i := p)\<rparr>)"
proof -
  have inv: "locked (words s) = (\<Union>k. owned (pcs s k))"
    "\<And>k j. k \<noteq> j \<Longrightarrow> owned (pcs s k) \<inter> owned (pcs s j) = {}"
    using assms(1) by (auto simp: lock_inv_def)
  have sub: "owned p \<subseteq> owned (pcs s i)" using g by (auto simp: gives_def)
  then have "owned (((pcs s)(i := p)) k) \<inter> owned (((pcs s)(i := p)) j) = {}" if "k \<noteq> j" for k j
    using inv(2)[OF that] that by auto
  moreover have "owned (pcs s k) - c = owned (pcs s k)" if "k \<noteq> i" for k
    using g inv(2)[OF that] by (auto simp: gives_def)
  then have "locked m = (\<Union>k. owned (((pcs s)(i := p)) k))"
    using g inv(1) by (auto simp: gives_def split: if_splits) blast+
  ultimately show ?thesis
    using assms by (simp add: lock_inv_def)
qed

lemma sys_step_inv:
  assumes "sys_step s t" and inv: "lock_inv nw s"
  shows "lock_inv nw t"
  using assms(1)
proof (cases rule: sys_step.cases)
  case (thread i m p)
  have "length (words s) = nw" "pc_ok nw (pcs s i)" using inv by (auto simp: lock_inv_def)
  with thread_step_effect[OF thread(2)] show ?thesis
    unfolding thread(1) using lock_inv_takes[OF inv] lock_inv_gives[OF inv] by metis
qed

lemma init_inv: "lock_inv nw (init_sys nw)"
  by (auto simp: lock_inv_def init_sys_def locked_def)

lemma reachable_inv: "reachable nw s \<Longrightarrow> lock_inv nw s"
proof (induction rule: reachable.induct)
  case init
  show ?case by (rule init_inv)
next
  case (step s t)
  then show ?case by (blast intro: sys_step_inv)
qed

section \<open>Consequences\<close>

inductive_simps thread_step_Held: "thread_step m (Held b) m' p"

lemma thread_not_stuck:
  assumes "pc_ok (length m) p" and "p \<noteq> Idle"
  shows "\<exists>m' p'. thread_step m p m' p'"
proof (cases p)
  case (Try b lo uo)
  then show ?thesis using thread_step.try_load thread_step.try_busy thread_step.try_done by blast
next
  case (TryCas b lo uo v)
  then show ?thesis using thread_step.try_swap thread_step.try_retry by blast
next
  case (Roll b lo uo)
  then show ?thesis using thread_step.roll_load thread_step.roll_done by blast
next
  case (RollCas b lo uo v)
  then show ?thesis using thread_step.roll_swap thread_step.roll_retry by blast
next
  case (Rel b lo uo)
  then show ?thesis using thread_step.rel_load thread_step.rel_done by blast
next
  case (RelCas b lo uo v)
  then show ?thesis using thread_step.rel_swap thread_step.rel_retry by blast
qed (use assms in \<open>auto simp: thread_step_Held\<close>)

lemma reachable_run:
  assumes "reachable nw s" and "thread_step (words s) (pcs s i) m p"
  shows "reachable nw (s\<lparr>words := m, pcs := (pcs s)(i := p)\<rparr>)"
  using assms by (blast intro: reachable.step sys_step.thread)

text \<open>C1: Mutual exclusion of the bitmap lock. In every state that any interleaving of any
  number of threads can reach, two different threads whose \<open>try_lock_lbas\<close> has returned 0 and
  that have not begun \<open>unlock_lbas\<close> hold disjoint sets of logical blocks.\<close>

theorem lock_mutual_exclusion:
  assumes "reachable nw s" and "pcs s i = Held b" and "pcs s j = Held c" and "i \<noteq> j"
  shows "bio_lbas b \<inter> bio_lbas c = {}"
proof -
  have "owned (pcs s i) \<inter> owned (pcs s j) = {}"
    using reachable_inv[OF assms(1)] assms(4) by (auto simp: lock_inv_def)
  then show ?thesis using assms(2,3) by simp
qed

text \<open>C2: The lock never leaks. In every state that any interleaving can reach the set bits of
  the bitmap are exactly the blocks the threads own at their place in the code: all blocks of a
  request that is held, the first \<open>lba_offset\<close> of one that is being taken or given back after a
  failed attempt, those from \<open>lba_offset\<close> on while it is unlocked. The blocks of different threads
  are disjoint, and where no thread is inside the lock or holds a request every word is zero: failed
  attempts have given back all they took.\<close>

theorem lock_no_leak:
  assumes "reachable nw s"
  shows "locked (words s) = (\<Union>i. owned (pcs s i))
    \<and> (\<forall>i j. i \<noteq> j \<longrightarrow> owned (pcs s i) \<inter> owned (pcs s j) = {})
    \<and> ((\<forall>i. pcs s i = Idle) \<longrightarrow> words s = replicate nw 0)"
proof -
  have inv: "length (words s) = nw" "locked (words s) = (\<Union>i. owned (pcs s i))"
      "\<forall>i j. i \<noteq> j \<longrightarrow> owned (pcs s i) \<inter> owned (pcs s j) = {}"
    using reachable_inv[OF assms] by (simp_all add: lock_inv_def)
  have "words s = replicate nw 0" if "\<forall>i. pcs s i = Idle"
    using locked_inject[of "words s" "replicate nw 0"] inv that by simp
  then show ?thesis using inv by blast
qed

text \<open>The uncontended path: a request inside one word is taken in four steps.\<close>

lemma acquire_one_word:
  assumes "reachable nw s" and "pcs s i = Idle" and "bio_fits nw b" and "0 < nlbs_nat b"
    and "chunk_len b 0 = nlbs_nat b" and "uo = ulong_start (slba_nat b)"
    and "words s ! uo AND mask_of b 0 = 0" and "length (words s) = nw"
  shows "reachable nw (s\<lparr>words := (words s)[uo := words s ! uo OR mask_of b 0],
    pcs := (pcs s)(i := Held b)\<rparr>)"
proof -
  let ?m = "words s" let ?p = "\<lambda>p. s\<lparr>pcs := (pcs s)(i := p)\<rparr>"
  let ?m' = "(words s)[uo := words s ! uo OR mask_of b 0]"
  have 1: "reachable nw (?p (Try b 0 uo))"
    using reachable_run[OF assms(1), of i ?m] thread_step.call[of ?m b] assms by simp
  have 2: "reachable nw (?p (TryCas b 0 uo (?m ! uo)))"
    using reachable_run[OF 1, of i ?m] thread_step.try_load[of 0 b ?m uo] assms by simp
  have 3: "reachable nw (s\<lparr>words := ?m', pcs := (pcs s)(i := Try b (nlbs_nat b) (u32_succ uo))\<rparr>)"
    using reachable_run[OF 2, of i ?m'] thread_step.try_swap[of ?m uo "?m ! uo" b 0] assms by simp
  show ?thesis
    using reachable_run[OF 3, of i ?m'] thread_step.try_done[of "nlbs_nat b" b ?m' "u32_succ uo"]
    by simp
qed

definition bio_at :: "u64 \<Rightarrow> bio" where
  "bio_at l = bio_zero\<lparr>b_slba := l, b_nlbs := 1\<rparr>"

lemma two_holders:
  "\<exists>s. reachable 1 s \<and> pcs s 0 = Held (bio_at 3) \<and> pcs s 1 = Held (bio_at 4)"
proof -
  note ev = bio_at_def bio_zero_def bio_fits_def init_sys_def lock_mask_def bit_offset_def
    bit_length_def BITS_PER_LONG_def GET_MASK64_def ulong_start_def mask_eq_exp_minus_1
  let ?s = "(init_sys 1)\<lparr>words := [8], pcs := (pcs (init_sys 1))(0 := Held (bio_at 3))\<rparr>"
  have "reachable 1 ?s"
    using acquire_one_word[OF reachable.init, of 1 0 "bio_at 3" 0] by (simp add: ev)
  then have "reachable 1 (?s\<lparr>words := [24], pcs := (pcs ?s)(1 := Held (bio_at 4))\<rparr>)"
    using acquire_one_word[of 1 ?s 1 "bio_at 4" 0] by (simp add: ev)
  then show ?thesis by (intro exI conjI) (assumption, simp_all)
qed

theorem lock_mutual_exclusion_witness:
  "\<exists>s. reachable 1 s \<and> pcs s 0 = Held (bio_at 3) \<and> pcs s 1 = Held (bio_at 4)
     \<and> bio_lbas (bio_at 3) \<inter> bio_lbas (bio_at 4) = {}"
  using two_holders lock_mutual_exclusion[of 1 _ 0 "bio_at 3" 1 "bio_at 4"] by fastforce

text \<open>An attempt that fails: thread 0 holds block 64, thread 1 asks for blocks 63 and 64, takes the
  last bit of word 0, finds word 1 busy and is about to roll back.\<close>

definition straddling :: bio where
  "straddling = bio_zero\<lparr>b_slba := 63, b_nlbs := 2\<rparr>"

definition held_64 :: lock_sys where
  "held_64 = \<lparr>words = [0, 1], pcs = (\<lambda>_. Idle)(0 := Held (bio_at 64))\<rparr>"

definition half_taken :: lock_sys where
  "half_taken = \<lparr>words = [2 ^ 63, 1], pcs = (\<lambda>_. Idle)(0 := Held (bio_at 64), 1 := Roll straddling 1 1)\<rparr>"

lemma half_taken_reachable: "reachable 2 half_taken"
proof -
  note ev = bio_at_def straddling_def bio_zero_def bio_fits_def lock_mask_def bit_offset_def
    bit_length_def BITS_PER_LONG_def GET_MASK64_def ulong_start_def mask_eq_exp_minus_1 u32_succ_def
  let ?s = "\<lambda>m p. \<lparr>words = m, pcs = (\<lambda>_. Idle)(0 := Held (bio_at 64), 1 := p)\<rparr>"
  have top_bit: "(- 9223372036854775808 :: u64) = 9223372036854775808"
    by (simp add: word_uint_eq_iff)
  have "reachable 2 \<lparr>words = [0, 0], pcs = \<lambda>_. Idle\<rparr>"
    using reachable.init[of 2] by (simp add: init_sys_def numeral_2_eq_2)
  then have 0: "reachable 2 held_64"
    using acquire_one_word[of 2 _ 0 "bio_at 64" 1] by (fastforce simp: ev held_64_def)
  have 1: "reachable 2 (?s [0, 1] (Try straddling 0 0))"
    using reachable_run[OF 0, of 1 "[0, 1]"] thread_step.call[of "[0, 1]" straddling]
    by (simp add: ev held_64_def)
  have 2: "reachable 2 (?s [0, 1] (TryCas straddling 0 0 0))"
    using reachable_run[OF 1, of 1 "[0, 1]"] thread_step.try_load[of 0 straddling "[0, 1]" 0]
    by (simp add: ev)
  have 3: "reachable 2 (?s [2 ^ 63, 1] (Try straddling 1 1))"
    using reachable_run[OF 2, of 1 "[2 ^ 63, 1]"] thread_step.try_swap[of "[0, 1]" 0 0 straddling 0]
    by (simp add: ev top_bit)
  show ?thesis
    using reachable_run[OF 3, of 1 "[2 ^ 63, 1]"] thread_step.try_busy[of 1 straddling "[2 ^ 63, 1]" 1]
    by (simp add: ev half_taken_def)
qed

theorem lock_no_leak_witness:
  "reachable 2 half_taken \<and> words half_taken = [2 ^ 63, 1] \<and> locked (words half_taken) = {63, 64}
     \<and> owned (pcs half_taken 1) = {63}"
proof -
  have "locked (words half_taken) = (\<Union>i. owned (pcs half_taken i))"
    using lock_no_leak[OF half_taken_reachable] by blast
  also have "\<dots> = (\<Union>i::nat. if i = 0 then {64} else if i = 1 then {63} else {})"
    by (rule SUP_cong) (auto simp: half_taken_def straddling_def bio_at_def bio_zero_def bio_lbas_def)
  also have "\<dots> = {63, 64}" by (auto split: if_splits)
  finally show ?thesis
    using half_taken_reachable by (auto simp: half_taken_def straddling_def bio_zero_def)
qed

end
