(* ===== verification/CList.thy ===== *)
theory CList
  imports Prelude
begin

text \<open>
  The circular doubly linked lists of \<open>nbio/list.h\<close> and the registry of i/o engines built on them
  (\<open>nbio/ioengine.c\<close>; the display registry \<open>nbio/display.c\<close> has the same three functions). A list
  node is an address; the heap maps it to its two links. \<open>ring\<close> relates a head node to the
  sequence of its entries; the operations are shown to implement the sequence operations and to
  leave every other ring alone.
\<close>

type_synonym addr = nat

record list_heap =
  next_of :: "addr \<Rightarrow> addr"
  prev_of :: "addr \<Rightarrow> addr"

definition set_next :: "addr \<Rightarrow> addr \<Rightarrow> list_heap \<Rightarrow> list_heap" where
  "set_next p v h = h\<lparr>next_of := (next_of h)(p := v)\<rparr>"

definition set_prev :: "addr \<Rightarrow> addr \<Rightarrow> list_heap \<Rightarrow> list_heap" where
  "set_prev p v h = h\<lparr>prev_of := (prev_of h)(p := v)\<rparr>"

definition LIST_POISON1 :: addr where
  "LIST_POISON1 = 0x100 + 0xdead000000000000"

definition LIST_POISON2 :: addr where
  "LIST_POISON2 = 0x200 + 0xdead000000000000"

definition INIT_LIST_HEAD :: "list_heap \<Rightarrow> addr \<Rightarrow> list_heap" where
  "INIT_LIST_HEAD h l = set_prev l l (set_next l l h)"

definition list_add_between :: "list_heap \<Rightarrow> addr \<Rightarrow> addr \<Rightarrow> addr \<Rightarrow> list_heap" where
  "list_add_between h new prv nxt =
     (let h = set_prev nxt new h; h = set_next new nxt h; h = set_prev new prv h in set_next prv new h)"

definition list_add :: "list_heap \<Rightarrow> addr \<Rightarrow> addr \<Rightarrow> list_heap" where
  "list_add h new head = list_add_between h new head (next_of h head)"

definition list_add_tail :: "list_heap \<Rightarrow> addr \<Rightarrow> addr \<Rightarrow> list_heap" where
  "list_add_tail h new head = list_add_between h new (prev_of h head) head"

definition list_del_between :: "list_heap \<Rightarrow> addr \<Rightarrow> addr \<Rightarrow> list_heap" where
  "list_del_between h prv nxt = set_next prv nxt (set_prev nxt prv h)"

definition list_del :: "list_heap \<Rightarrow> addr \<Rightarrow> list_heap" where
  "list_del h entry =
     (let h = list_del_between h (prev_of h entry) (next_of h entry);
          h = set_next entry LIST_POISON1 h in set_prev entry LIST_POISON2 h)"

definition list_empty :: "list_heap \<Rightarrow> addr \<Rightarrow> bool" where
  "list_empty h head \<longleftrightarrow> next_of h head = head"

definition list_first_entry :: "list_heap \<Rightarrow> addr \<Rightarrow> addr" where
  "list_first_entry h head = next_of h head"

text \<open>
  \<open>list_for_each_entry\<close> with a loop body that may stop: the nodes visited, in order. On a
  corrupted list the loop may not end, which is the value \<open>None\<close>.
\<close>

partial_function (option) list_for_each_from :: "list_heap \<Rightarrow> addr \<Rightarrow> addr \<Rightarrow> addr list option" where
  "list_for_each_from h head pos =
     (if pos = head then Some []
      else Option.bind (list_for_each_from h head (next_of h pos)) (\<lambda>rest. Some (pos # rest)))"

definition list_for_each :: "list_heap \<Rightarrow> addr \<Rightarrow> addr list option" where
  "list_for_each h head = list_for_each_from h head (next_of h head)"

section \<open>Rings\<close>

fun seg :: "list_heap \<Rightarrow> addr \<Rightarrow> addr list \<Rightarrow> addr \<Rightarrow> bool" where
  "seg h a [] b \<longleftrightarrow> next_of h a = b \<and> prev_of h b = a"
| "seg h a (x # xs) b \<longleftrightarrow> next_of h a = x \<and> prev_of h x = a \<and> seg h x xs b"

definition ring :: "list_heap \<Rightarrow> addr \<Rightarrow> addr list \<Rightarrow> bool" where
  "ring h head xs \<longleftrightarrow> distinct (head # xs) \<and> seg h head xs head"

lemma heap_simps [simp]:
  "next_of (set_next p v h) = (next_of h)(p := v)" "prev_of (set_next p v h) = prev_of h"
  "prev_of (set_prev p v h) = (prev_of h)(p := v)" "next_of (set_prev p v h) = next_of h"
  by (simp_all add: set_next_def set_prev_def)

lemma seg_append: "seg h a (xs @ x # ys) b \<longleftrightarrow> seg h a xs x \<and> seg h x ys b"
  by (induction xs arbitrary: a) auto

lemma seg_cong:
  assumes "\<And>p. p \<in> set (a # xs) \<Longrightarrow> next_of h p = next_of h' p"
    and "\<And>p. p \<in> set (xs @ [b]) \<Longrightarrow> prev_of h p = prev_of h' p"
  shows "seg h a xs b = seg h' a xs b"
  using assms by (induction xs arbitrary: a) auto

lemma seg_last: "seg h a xs b \<Longrightarrow> prev_of h b = last (a # xs)"
  by (induction xs arbitrary: a) auto

lemma seg_hd: "seg h a xs b \<Longrightarrow> next_of h a = hd (xs @ [b])"
  by (cases xs) auto

lemma ring_frame:
  assumes "ring h head xs"
    and "\<And>p. p \<in> set (head # xs) \<Longrightarrow> next_of h p = next_of h' p \<and> prev_of h p = prev_of h' p"
  shows "ring h' head xs"
  using assms seg_cong[of head xs h h' head] by (auto simp: ring_def)

lemma ring_init: "ring (INIT_LIST_HEAD h l) l []"
  by (simp add: ring_def INIT_LIST_HEAD_def)

text \<open>The last link of a segment is turned to another node.\<close>

lemma seg_retarget:
  assumes "seg h a ys x" and "distinct (a # ys)" and "n \<notin> set ys"
  shows "seg (set_next (last (a # ys)) n (set_prev n (last (a # ys)) h)) a ys n"
proof (cases ys rule: rev_cases)
  case Nil
  then show ?thesis by simp
next
  case (snoc us u)
  then have "seg h a us u" using assms(1) seg_append[of h a us u "[]" x] by simp
  moreover have "seg (set_next u n (set_prev n u h)) a us u = seg h a us u"
    using assms snoc by (intro seg_cong) auto
  ultimately show ?thesis using snoc seg_append[of _ a us u "[]" n] by simp
qed

lemma ring_add:
  assumes "ring h head xs" and "new \<notin> set (head # xs)"
  shows "ring (list_add h new head) head (new # xs)"
proof (cases xs)
  case Nil
  then show ?thesis using assms by (auto simp: ring_def list_add_def list_add_between_def Let_def)
next
  case (Cons x ys)
  then have n: "next_of h head = x" using assms by (simp add: ring_def)
  have "seg (list_add h new head) x ys head = seg h x ys head"
    using assms Cons n by (intro seg_cong) (auto simp: ring_def list_add_def list_add_between_def Let_def)
  then show ?thesis using assms Cons n by (auto simp: ring_def list_add_def list_add_between_def Let_def)
qed

lemma ring_add_tail:
  assumes "ring h head xs" and "new \<notin> set (head # xs)"
  shows "ring (list_add_tail h new head) head (xs @ [new])"
proof -
  let ?l = "last (head # xs)" and ?h = "list_add_tail h new head"
  have seg: "seg h head xs head" and d: "distinct (head # xs)" using assms(1) by (simp_all add: ring_def)
  have l: "prev_of h head = ?l" "?l \<in> set (head # xs)" using seg_last[OF seg] by (simp_all add: last_in_set)
  have "seg (set_next ?l new (set_prev new ?l h)) head xs new = seg ?h head xs new"
    using assms d l by (intro seg_cong) (auto simp: list_add_tail_def list_add_between_def Let_def)
  moreover have "seg (set_next ?l new (set_prev new ?l h)) head xs new"
    by (rule seg_retarget[OF seg d]) (use assms in simp)
  moreover have "seg ?h new [] head"
    using assms l by (auto simp: list_add_tail_def list_add_between_def Let_def)
  ultimately show ?thesis using d assms(2) seg_append[of ?h head xs new "[]" head] by (auto simp: ring_def)
qed

lemma ring_del:
  assumes "ring h head (ys @ x # zs)"
  shows "ring (list_del h x) head (ys @ zs)"
proof -
  let ?p = "last (head # ys)" and ?n = "hd (zs @ [head])"
  have d: "distinct (head # ys @ x # zs)" and s1: "seg h head ys x" and s2: "seg h x zs head"
    using assms by (simp_all add: ring_def seg_append)
  have p: "prev_of h x = ?p" and n: "next_of h x = ?n" using seg_last[OF s1] seg_hd[OF s2] .
  have "?p \<in> set (head # ys)" by (rule last_in_set) simp
  then have px: "?p \<noteq> x" and pz: "?p \<notin> set zs" using d by auto
  have nx: "?n \<noteq> x" and ny: "?n \<notin> set ys" using d by (cases zs; auto)+
  have "seg (set_next ?p ?n (set_prev ?n ?p h)) head ys ?n"
    by (rule seg_retarget[OF s1]) (use d ny in auto)
  moreover have "seg (list_del h x) head ys ?n = seg (set_next ?p ?n (set_prev ?n ?p h)) head ys ?n"
    using d nx by (intro seg_cong) (auto simp: list_del_def list_del_between_def Let_def p n)
  ultimately have left: "seg (list_del h x) head ys ?n" by simp
  show ?thesis
  proof (cases zs)
    case Nil
    then show ?thesis using left d by (simp add: ring_def)
  next
    case (Cons z ws)
    then have "seg (list_del h x) z ws head = seg h z ws head"
      using d pz px by (intro seg_cong) (auto simp: list_del_def list_del_between_def Let_def p n)
    then have "seg (list_del h x) head (ys @ z # ws) head" using left s2 Cons by (simp add: seg_append)
    then show ?thesis using d Cons by (simp add: ring_def)
  qed
qed

lemma ring_empty: "ring h head xs \<Longrightarrow> list_empty h head \<longleftrightarrow> xs = []"
  by (cases xs) (auto simp: ring_def list_empty_def)

lemma ring_first: "ring h head (x # xs) \<Longrightarrow> list_first_entry h head = x"
  by (simp add: ring_def list_first_entry_def)

lemma seg_for_each:
  assumes "seg h a xs head" and "head \<notin> set xs"
  shows "list_for_each_from h head (next_of h a) = Some xs"
  using assms
proof (induction xs arbitrary: a)
  case Nil
  then show ?case by (subst list_for_each_from.simps) simp
next
  case (Cons x xs)
  then show ?case by (subst list_for_each_from.simps) auto
qed

lemma ring_for_each: "ring h head xs \<Longrightarrow> list_for_each h head = Some xs"
  using seg_for_each[of h head xs head] by (simp add: ring_def list_for_each_def)

text \<open>Links outside the touched ring keep their values.\<close>

lemma add_frame:
  assumes "ring h head xs" and "p \<notin> set (new # head # xs)"
  shows "next_of (list_add h new head) p = next_of h p" "prev_of (list_add h new head) p = prev_of h p"
    "next_of (list_add_tail h new head) p = next_of h p" "prev_of (list_add_tail h new head) p = prev_of h p"
proof -
  have s: "seg h head xs head" using assms by (simp add: ring_def)
  have "next_of h head \<in> set (head # xs)" "prev_of h head \<in> set (head # xs)"
    using seg_hd[OF s] seg_last[OF s] by (cases xs; auto)+
  then show "next_of (list_add h new head) p = next_of h p" "prev_of (list_add h new head) p = prev_of h p"
    "next_of (list_add_tail h new head) p = next_of h p" "prev_of (list_add_tail h new head) p = prev_of h p"
    using assms(2) by (auto simp: list_add_def list_add_tail_def list_add_between_def Let_def)
qed

lemma del_frame:
  assumes "ring h head xs" and "x \<in> set xs" and "p \<notin> set (head # xs)"
  shows "next_of (list_del h x) p = next_of h p" "prev_of (list_del h x) p = prev_of h p"
proof -
  obtain ys zs where xs: "xs = ys @ x # zs" using assms(2) by (meson split_list)
  then have s: "seg h head ys x" "seg h x zs head" using assms(1) by (simp_all add: ring_def seg_append)
  have "next_of h x \<in> set (head # xs)" "prev_of h x \<in> set (head # xs)"
    using seg_hd[OF s(2)] seg_last[OF s(1)] xs by (cases zs; cases ys rule: rev_cases; auto)+
  then show "next_of (list_del h x) p = next_of h p" "prev_of (list_del h x) p = prev_of h p"
    using assms xs by (auto simp: list_del_def list_del_between_def Let_def)
qed

section \<open>The interface of linked lists\<close>

text \<open>
  What a client of the lists relies on: an insertion or a removal acts on the sequence of one
  list and keeps every list it shares no node with.
\<close>

locale linked_lists =
  fixes add :: "'h \<Rightarrow> addr \<Rightarrow> addr \<Rightarrow> 'h"
    and add_tail :: "'h \<Rightarrow> addr \<Rightarrow> addr \<Rightarrow> 'h"
    and del :: "'h \<Rightarrow> addr \<Rightarrow> 'h"
    and entries :: "'h \<Rightarrow> addr \<Rightarrow> addr list \<Rightarrow> bool"
  assumes entries_distinct: "entries h l xs \<Longrightarrow> distinct (l # xs)"
    and add_entries: "entries h l xs \<Longrightarrow> x \<notin> set (l # xs) \<Longrightarrow> entries (add h x l) l (x # xs)"
    and add_tail_entries: "entries h l xs \<Longrightarrow> x \<notin> set (l # xs) \<Longrightarrow> entries (add_tail h x l) l (xs @ [x])"
    and del_entries: "entries h l (ys @ x # zs) \<Longrightarrow> entries (del h x) l (ys @ zs)"
    and add_other: "entries h l xs \<Longrightarrow> entries h k ys \<Longrightarrow> set (x # l # xs) \<inter> set (k # ys) = {} \<Longrightarrow>
      entries (add h x l) k ys"
    and add_tail_other: "entries h l xs \<Longrightarrow> entries h k ys \<Longrightarrow> set (x # l # xs) \<inter> set (k # ys) = {} \<Longrightarrow>
      entries (add_tail h x l) k ys"
    and del_other: "entries h l xs \<Longrightarrow> x \<in> set xs \<Longrightarrow> entries h k ys \<Longrightarrow>
      set (l # xs) \<inter> set (k # ys) = {} \<Longrightarrow> entries (del h x) k ys"
begin

lemma del_remove1:
  assumes "entries h l xs" and "x \<in> set xs"
  shows "entries (del h x) l (remove1 x xs)"
proof -
  obtain ys zs where xs: "xs = ys @ x # zs" using assms(2) by (meson split_list)
  then have "remove1 x xs = ys @ zs"
    using entries_distinct[OF assms(1)] by (simp add: remove1_append)
  then show ?thesis using del_entries assms(1) xs by simp
qed

text \<open>Moving an entry from one list to the front of another.\<close>

lemma move:
  assumes "entries h l xs" and "x \<in> set xs" and "entries h k ys" and "set (l # xs) \<inter> set (k # ys) = {}"
  shows "entries (add (del h x) x k) k (x # ys)" and "entries (add (del h x) x k) l (remove1 x xs)"
proof -
  have d: "entries (del h x) l (remove1 x xs)" "entries (del h x) k ys"
    using del_remove1[OF assms(1,2)] del_other[OF assms] .
  have "x \<notin> set (k # ys)" using assms(2,4) by auto
  then show "entries (add (del h x) x k) k (x # ys)" by (rule add_entries[OF d(2)])
  have "x \<notin> set (remove1 x xs)" using entries_distinct[OF assms(1)] by simp
  moreover have "x \<noteq> l" using entries_distinct[OF assms(1)] assms(2) by auto
  ultimately have "set (x # k # ys) \<inter> set (l # remove1 x xs) = {}"
    using assms(4) set_remove1_subset[of x xs] by fastforce
  then show "entries (add (del h x) x k) l (remove1 x xs)" by (rule add_other[OF d(2,1)])
qed

end

interpretation rings: linked_lists list_add list_add_tail list_del ring
proof (unfold_locales, goal_cases)
  case (1 h l xs)
  then show ?case by (simp add: ring_def)
next
  case (2 h l xs x)
  then show ?case by (rule ring_add)
next
  case (3 h l xs x)
  then show ?case by (rule ring_add_tail)
next
  case (4 h l ys x zs)
  then show ?case by (rule ring_del)
next
  case (5 h l xs k ys x)
  show ?case
  proof (rule ring_frame[OF 5(2)])
    fix p assume "p \<in> set (k # ys)"
    then have np: "p \<notin> set (x # l # xs)" using 5(3) by blast
    then show "next_of h p = next_of (list_add h x l) p \<and>
        prev_of h p = prev_of (list_add h x l) p"
      using add_frame[OF 5(1) np] by simp
  qed
next
  case (6 h l xs k ys x)
  show ?case
  proof (rule ring_frame[OF 6(2)])
    fix p assume "p \<in> set (k # ys)"
    then have np: "p \<notin> set (x # l # xs)" using 6(3) by blast
    then show "next_of h p = next_of (list_add_tail h x l) p \<and>
        prev_of h p = prev_of (list_add_tail h x l) p"
      using add_frame[OF 6(1) np] by simp
  qed
next
  case (7 h l xs x k ys)
  show ?case
  proof (rule ring_frame[OF 7(3)])
    fix p assume "p \<in> set (k # ys)"
    then have np: "p \<notin> set (l # xs)" using 7(4) by blast
    then show "next_of h p = next_of (list_del h x) p \<and> prev_of h p = prev_of (list_del h x) p"
      using del_frame[OF 7(1,2) np] by simp
  qed
qed

text \<open>Returning a request to the free list (\<open>list_del\<close> then \<open>list_add\<close>, as at the end of
  \<open>bio_end\<close>) keeps the two lists of a job well formed: the entry leaves the in-flight list,
  heads the free list, every other entry stays in place, and walking either list ends and yields
  exactly its entries.\<close>

theorem bio_move_lists:
  assumes "ring h inflight xs" and "bio \<in> set xs" and "ring h free ys"
    and "set (inflight # xs) \<inter> set (free # ys) = {}"
  shows "let h' = list_add (list_del h bio) bio free in
    ring h' free (bio # ys) \<and> ring h' inflight (remove1 bio xs) \<and>
    list_for_each h' free = Some (bio # ys) \<and> list_for_each h' inflight = Some (remove1 bio xs) \<and>
    list_first_entry h' free = bio \<and> (list_empty h' inflight \<longleftrightarrow> xs = [bio])"
proof -
  define h' where "h' = list_add (list_del h bio) bio free"
  have r: "ring h' free (bio # ys)" "ring h' inflight (remove1 bio xs)"
    unfolding h'_def using rings.move[OF assms] .
  have "remove1 bio xs = [] \<longleftrightarrow> xs = [bio]" using assms(2) by (cases xs) auto
  then show ?thesis
    using r ring_for_each[OF r(1)] ring_for_each[OF r(2)] ring_first[OF r(1)] ring_empty[OF r(2)]
    by (simp add: h'_def[symmetric] Let_def)
qed

definition sample_heap :: list_heap where
  "sample_heap = list_add (INIT_LIST_HEAD (INIT_LIST_HEAD \<lparr>next_of = \<lambda>p. 0, prev_of = \<lambda>p. 0\<rparr> 1) 2) 7 1"

theorem bio_move_lists_witness:
  "let h' = list_add (list_del sample_heap 7) 7 2 in
    ring h' 2 [7] \<and> ring h' 1 (remove1 7 [7]) \<and>
    list_for_each h' 2 = Some [7] \<and> list_for_each h' 1 = Some (remove1 7 [7]) \<and>
    list_first_entry h' 2 = 7 \<and> (list_empty h' 1 \<longleftrightarrow> [7] = [7 :: addr])"
proof (rule bio_move_lists)
  show "ring sample_heap 1 [7]" "ring sample_heap 2 []"
    by (simp_all add: sample_heap_def ring_def list_add_def list_add_between_def INIT_LIST_HEAD_def Let_def)
qed simp_all

section \<open>Registries\<close>

text \<open>\<open>name_of\<close> gives the name string of a registered operations table.\<close>

definition ioengine_register :: "list_heap \<Rightarrow> addr \<Rightarrow> addr \<Rightarrow> list_heap" where
  "ioengine_register h engines engine_ops = list_add (INIT_LIST_HEAD h engine_ops) engine_ops engines"

definition ioengine_unregister :: "list_heap \<Rightarrow> addr \<Rightarrow> list_heap" where
  "ioengine_unregister h engine_ops = list_del h engine_ops"

partial_function (option) find_from ::
  "list_heap \<Rightarrow> (addr \<Rightarrow> string) \<Rightarrow> addr \<Rightarrow> string \<Rightarrow> addr \<Rightarrow> addr option option" where
  "find_from h name_of head name pos =
     (if pos = head then Some None
      else if name_of pos = name then Some (Some pos)
      else find_from h name_of head name (next_of h pos))"

definition ioengine_find :: "list_heap \<Rightarrow> (addr \<Rightarrow> string) \<Rightarrow> addr \<Rightarrow> string \<Rightarrow> addr option option" where
  "ioengine_find h name_of engines name = find_from h name_of engines name (next_of h engines)"

definition display_register :: "list_heap \<Rightarrow> addr \<Rightarrow> addr \<Rightarrow> list_heap" where
  "display_register h displays disp_ops = list_add (INIT_LIST_HEAD h disp_ops) disp_ops displays"

definition display_unregister :: "list_heap \<Rightarrow> addr \<Rightarrow> list_heap" where
  "display_unregister h disp_ops = list_del h disp_ops"

definition display_find :: "list_heap \<Rightarrow> (addr \<Rightarrow> string) \<Rightarrow> addr \<Rightarrow> string \<Rightarrow> addr option option" where
  "display_find h name_of displays name = find_from h name_of displays name (next_of h displays)"

lemma seg_find:
  assumes "seg h a xs head" and "head \<notin> set xs"
  shows "find_from h name_of head name (next_of h a) = Some (List.find (\<lambda>p. name_of p = name) xs)"
  using assms
proof (induction xs arbitrary: a)
  case Nil
  then show ?case by (subst find_from.simps) simp
next
  case (Cons x xs)
  then show ?case by (subst find_from.simps) auto
qed

lemma ring_find:
  "ring h head xs \<Longrightarrow> find_from h name_of head name (next_of h head) = Some (List.find (\<lambda>p. name_of p = name) xs)"
  using seg_find[of h head xs head] by (simp add: ring_def)

lemma ring_register:
  assumes "ring h head xs" and "x \<notin> set (head # xs)"
  shows "ring (list_add (INIT_LIST_HEAD h x) x head) head (x # xs)"
proof -
  have "ring (INIT_LIST_HEAD h x) head xs"
    by (rule ring_frame[OF assms(1)]) (use assms(2) in \<open>auto simp: INIT_LIST_HEAD_def\<close>)
  then show ?thesis by (rule ring_add[OF _ assms(2)])
qed

text \<open>A registry: registered tables form a sequence, the newest first.\<close>

locale registry =
  fixes register :: "'h \<Rightarrow> addr \<Rightarrow> addr \<Rightarrow> 'h"
    and unregister :: "'h \<Rightarrow> addr \<Rightarrow> 'h"
    and find_name :: "'h \<Rightarrow> (addr \<Rightarrow> string) \<Rightarrow> addr \<Rightarrow> string \<Rightarrow> addr option option"
    and members :: "'h \<Rightarrow> addr \<Rightarrow> addr list \<Rightarrow> bool"
  assumes register_members: "members h l xs \<Longrightarrow> x \<notin> set (l # xs) \<Longrightarrow> members (register h l x) l (x # xs)"
    and unregister_members: "members h l xs \<Longrightarrow> x \<in> set xs \<Longrightarrow> members (unregister h x) l (remove1 x xs)"
    and find_members: "members h l xs \<Longrightarrow> find_name h nm l s = Some (List.find (\<lambda>p. nm p = s) xs)"
begin

lemma find_registered:
  assumes "members h l xs" and "x \<notin> set (l # xs)"
  shows "find_name (register h l x) nm l s =
    (if nm x = s then Some (Some x) else find_name h nm l s)"
  using find_members[OF register_members[OF assms], of nm s] find_members[OF assms(1), of nm s] by simp

lemma find_sound:
  assumes "members h l xs" and "find_name h nm l s = Some r"
  shows "case r of Some p \<Rightarrow> p \<in> set xs \<and> nm p = s | None \<Rightarrow> s \<notin> nm ` set xs"
  using assms(2) find_members[OF assms(1), of nm s]
  by (auto simp: find_None_iff find_Some_iff split: option.splits)

end

interpretation engines: registry ioengine_register ioengine_unregister ioengine_find ring
  by unfold_locales
     (auto simp: ioengine_register_def ioengine_unregister_def ioengine_find_def ring_register ring_find
       intro: rings.del_remove1)

interpretation displays: registry display_register display_unregister display_find ring
  by unfold_locales
     (auto simp: display_register_def display_unregister_def display_find_def ring_register ring_find
       intro: rings.del_remove1)

text \<open>Looking an engine up by name always ends. It finds the most recently registered engine
  of that name, no registration hides an engine of another name, and it returns \<open>NULL\<close> exactly
  when no registered engine has the name.\<close>

theorem ioengine_registry:
  assumes "ring h engines xs" and "e \<notin> set (engines # xs)"
  shows "ioengine_find (ioengine_register h engines e) name_of engines name =
      (if name_of e = name then Some (Some e) else ioengine_find h name_of engines name) \<and>
    (ioengine_find h name_of engines name = Some None \<longleftrightarrow> name \<notin> name_of ` set xs) \<and>
    ring (ioengine_unregister (ioengine_register h engines e) e) engines xs"
proof -
  have "ring (ioengine_unregister (ioengine_register h engines e) e) engines (remove1 e (e # xs))"
    by (rule engines.unregister_members[OF engines.register_members[OF assms]]) simp
  then show ?thesis
    using engines.find_registered[OF assms] engines.find_members[OF assms(1), of name_of name]
    by (auto simp: find_None_iff)
qed

theorem ioengine_registry_witness:
  "ioengine_find (ioengine_register sample_heap 1 8) (\<lambda>p. if p = 7 then ''null'' else ''libaio'') 1 ''null'' =
      (if (if (8 :: addr) = 7 then ''null'' else ''libaio'') = ''null'' then Some (Some 8)
       else ioengine_find sample_heap (\<lambda>p. if p = 7 then ''null'' else ''libaio'') 1 ''null'') \<and>
    (ioengine_find sample_heap (\<lambda>p. if p = 7 then ''null'' else ''libaio'') 1 ''null'' = Some None \<longleftrightarrow>
      ''null'' \<notin> (\<lambda>p. if p = 7 then ''null'' else ''libaio'') ` set [7 :: addr]) \<and>
    ring (ioengine_unregister (ioengine_register sample_heap 1 8) 8) 1 [7]"
proof (rule ioengine_registry)
  show "ring sample_heap 1 [7]"
    by (simp add: sample_heap_def ring_def list_add_def list_add_between_def INIT_LIST_HEAD_def Let_def)
qed simp

end
