(* ===== verification/Parser.thy ===== *)
theory Parser
  imports Bio "HOL-Library.AList"
begin

text \<open>
  The parameter file parser (\<open>nbio/parser.c\<close>): tokens that point into the line buffer or into the
  environment, the conversions of a token, the properties, the character-driven state machine and
  the loop over the lines of the file. \<open>parsing_error\<close> prints and calls \<open>exit(-1)\<close>; what the
  parser prints is not part of the model. A copy beyond the end of a fixed buffer, the use of a
  token that was never set and the column 255 of a table with 255 columns are faults.
\<close>

section \<open>Characters and units\<close>

definition char_num :: "char \<Rightarrow> nat" where
  "char_num c = of_char c"

abbreviation NUL :: char where
  "NUL \<equiv> CHR 0x00"

text \<open>\<open>ctype.h\<close> in the C locale.\<close>

definition isdigit :: "char \<Rightarrow> bool" where
  "isdigit c \<longleftrightarrow> 48 \<le> char_num c \<and> char_num c \<le> 57"

definition isspace :: "char \<Rightarrow> bool" where
  "isspace c \<longleftrightarrow> char_num c = 32 \<or> 9 \<le> char_num c \<and> char_num c \<le> 13"

definition toupper :: "char \<Rightarrow> char" where
  "toupper c = (if 97 \<le> char_num c \<and> char_num c \<le> 122 then char_of (char_num c - 32) else c)"

definition digit_val :: "char \<Rightarrow> nat" where
  "digit_val c = char_num c - 48"

definition KB_UNIT :: u64 where "KB_UNIT = push_bit 10 1"
definition MB_UNIT :: u64 where "MB_UNIT = push_bit 20 1"
definition GB_UNIT :: u64 where "GB_UNIT = push_bit 30 1"
definition TB_UNIT :: u64 where "TB_UNIT = push_bit 40 1"

definition MIN_TO_SEC :: u64 where "MIN_TO_SEC = 60"
definition HOUR_TO_SEC :: u64 where "HOUR_TO_SEC = MIN_TO_SEC * 60"
definition DAY_TO_SEC :: u64 where "DAY_TO_SEC = HOUR_TO_SEC * 24"

definition MAX_TOKEN_LEN :: nat where "MAX_TOKEN_LEN = 128"
definition LINE_BUF_LEN :: nat where "LINE_BUF_LEN = 256"

definition PARAM_DELIMITER :: char where "PARAM_DELIMITER = CHR '',''"
definition PARAM_RANGE_DELIMITER :: char where "PARAM_RANGE_DELIMITER = CHR ''-''"
definition SUBPARAM_DELIMITER :: char where "SUBPARAM_DELIMITER = CHR '':''"

section \<open>The parser\<close>

datatype parser_state =
    parser_state_error | parser_state_init | parser_state_section_opener | parser_state_section_name
  | parser_state_section_closer | parser_state_prop_key | parser_state_prop_equal | parser_state_prop_value
  | parser_state_env_dollar | parser_state_env_opener | parser_state_env_key | parser_state_env_closer
  | parser_state_endline

abbreviation (input) parser_success :: int where "parser_success \<equiv> 0"
abbreviation (input) parser_syntax_error :: int where "parser_syntax_error \<equiv> - 1"
abbreviation (input) parser_long_token :: int where "parser_long_token \<equiv> - 2"

text \<open>A pointer to characters: into the line buffer, or into the value of an environment variable.\<close>

datatype buffer = Line_buf | Env_val string

record token =
  t_col :: u16
  t_len :: u16
  t_buf :: buffer
  t_off :: nat

text \<open>
  \<open>p_job_params\<close> is the pointer \<open>job_params\<close>: \<open>None\<close> points to \<open>default_job_params\<close>, \<open>Some i\<close> to entry \<open>i\<close>
  of the array of jobs; \<open>p_cur_token\<close> is the index of \<open>cur_token\<close>, \<open>None\<close> the null pointer. The globals
  \<open>iosize_max\<close> and \<open>iosize_min\<close> and the environment, which \<open>token_strupr\<close> may change, are part of the
  state.
\<close>

record parser =
  p_state :: parser_state
  p_line_num :: nat
  p_col_num :: nat
  p_cur_token_idx :: nat
  p_tokens :: "token option list"
  p_cur_token :: "nat option"
  p_line_buf :: string
  p_params :: global_params
  p_job_params :: "nat option"
  p_default_job_params :: job_params
  p_end_of_token :: bool
  p_env :: "(string \<times> string) list"
  p_iosize_max :: u32
  p_iosize_min :: u32

definition job_params_of :: "parser \<Rightarrow> job_params res" where
  "job_params_of parser =
     (case p_job_params parser of None \<Rightarrow> Inr (p_default_job_params parser)
      | Some i \<Rightarrow> arr_get (gp_job_params (p_params parser)) i)"

definition upd_job_params :: "(job_params \<Rightarrow> job_params) \<Rightarrow> parser \<Rightarrow> parser res" where
  "upd_job_params f parser =
     bnd (job_params_of parser) (\<lambda>jp.
     case p_job_params parser of None \<Rightarrow> Inr (parser\<lparr>p_default_job_params := f jp\<rparr>)
     | Some i \<Rightarrow> Inr (parser\<lparr>p_params := (p_params parser)\<lparr>gp_job_params := (gp_job_params (p_params parser))[i := f jp]\<rparr>\<rparr>))"

section \<open>Tokens\<close>

definition buffer_of :: "parser \<Rightarrow> buffer \<Rightarrow> string res" where
  "buffer_of parser b =
     (case b of Line_buf \<Rightarrow> Inr (p_line_buf parser)
      | Env_val key \<Rightarrow> (case map_of (p_env parser) key of None \<Rightarrow> Inl Fault | Some s \<Rightarrow> Inr s))"

text \<open>The characters of a token.\<close>

definition token_text :: "parser \<Rightarrow> token \<Rightarrow> string res" where
  "token_text parser token =
     bnd (buffer_of parser (t_buf token)) (\<lambda>s. mem_read s (t_off token) (unat (t_len token)))"

text \<open>\<open>token_strupr\<close> works in place, also on the environment.\<close>

definition token_strupr :: "parser \<Rightarrow> token \<Rightarrow> parser res" where
  "token_strupr parser token =
     bnd (token_text parser token) (\<lambda>str.
     bnd (buffer_of parser (t_buf token)) (\<lambda>s.
     bnd (mem_write s (t_off token) (map toupper str)) (\<lambda>s.
     case t_buf token of Line_buf \<Rightarrow> Inr (parser\<lparr>p_line_buf := s\<rparr>)
     | Env_val key \<Rightarrow> Inr (parser\<lparr>p_env := AList.update key s (p_env parser)\<rparr>))))"

definition parsing_error :: "'a res" where
  "parsing_error = Inl (Exit (- 1))"

definition MATCH_TOKEN :: "string \<Rightarrow> string list \<Rightarrow> bool" where
  "MATCH_TOKEN text names \<longleftrightarrow> text \<in> set names"

section \<open>Conversions\<close>

definition to_bool :: "parser \<Rightarrow> token \<Rightarrow> (bool \<times> parser) res" where
  "to_bool parser token =
     bnd (token_strupr parser token) (\<lambda>parser.
     bnd (token_text parser token) (\<lambda>s.
     if MATCH_TOKEN s [''1'', ''TRUE''] then Inr (True, parser)
     else if MATCH_TOKEN s [''0'', ''FALSE''] then Inr (False, parser)
     else parsing_error))"

text \<open>\<open>res *= 10; res += *value - '0';\<close>\<close>

definition push_digit :: "'a::len word \<Rightarrow> char \<Rightarrow> 'a word" where
  "push_digit res c = res * 10 + of_nat (digit_val c)"

fun integer_loop :: "u64 \<Rightarrow> string \<Rightarrow> u64 res" where
  "integer_loop res [] = Inr res"
| "integer_loop res (c # cs) = (if isdigit c then integer_loop (push_digit res c) cs else parsing_error)"

definition to_integer :: "parser \<Rightarrow> token \<Rightarrow> u64 res" where
  "to_integer parser token = bnd (token_text parser token) (integer_loop 0)"

text \<open>The number is kept as its digits and the number of digits after the point.\<close>

fun double_loop :: "u64 \<Rightarrow> nat \<Rightarrow> bool \<Rightarrow> string \<Rightarrow> decimal res" where
  "double_loop significant places mode [] = Inr \<lparr>dec_significant = significant, dec_places = places\<rparr>"
| "double_loop significant places mode (c # cs) =
     (if isdigit c then double_loop (push_digit significant c) (if mode then Suc places else places) mode cs
      else if c = CHR ''.'' then if mode then parsing_error else double_loop significant places True cs
      else parsing_error)"

definition to_double :: "parser \<Rightarrow> token \<Rightarrow> decimal res" where
  "to_double parser token = bnd (token_text parser token) (double_loop 0 0 False)"

definition seconds_unit :: "char \<Rightarrow> u64 option" where
  "seconds_unit c =
     (if c = CHR ''S'' then Some 1 else if c = CHR ''M'' then Some MIN_TO_SEC
      else if c = CHR ''H'' then Some HOUR_TO_SEC else if c = CHR ''D'' then Some DAY_TO_SEC else None)"

text \<open>The flag tells \<open>state_digit\<close> from \<open>state_init\<close>.\<close>

fun seconds_loop :: "u64 \<Rightarrow> u64 \<Rightarrow> bool \<Rightarrow> string \<Rightarrow> u64 res" where
  "seconds_loop res digit state_digit [] = Inr res"
| "seconds_loop res digit state_digit (c # cs) =
     (if isdigit c then seconds_loop res (push_digit digit c) True cs
      else if \<not> state_digit then parsing_error
      else case seconds_unit c of None \<Rightarrow> parsing_error
           | Some unit \<Rightarrow> seconds_loop (res + digit * unit) 0 False cs)"

definition to_seconds :: "parser \<Rightarrow> token \<Rightarrow> (u64 \<times> parser) res" where
  "to_seconds parser token =
     bnd (token_strupr parser token) (\<lambda>parser.
     bnd (token_text parser token) (\<lambda>s.
     bnd (seconds_loop 0 0 False s) (\<lambda>res. Inr (res, parser))))"

text \<open>The result is an \<open>u8\<close>, and wraps around before it is compared.\<close>

fun percent_loop :: "u8 \<Rightarrow> string \<Rightarrow> u8 res" where
  "percent_loop res [] = Inr res"
| "percent_loop res (c # cs) =
     (if isdigit c then
        let res = push_digit res c in if res > 100 then parsing_error else percent_loop res cs
      else if c \<noteq> CHR ''%'' \<or> cs \<noteq> [] then parsing_error
      else percent_loop res cs)"

definition to_percent :: "parser \<Rightarrow> token \<Rightarrow> u8 res" where
  "to_percent parser token = bnd (token_text parser token) (percent_loop 0)"

definition bytes_unit :: "char \<Rightarrow> u64 option" where
  "bytes_unit c =
     (if c = CHR ''K'' then Some KB_UNIT else if c = CHR ''M'' then Some MB_UNIT
      else if c = CHR ''G'' then Some GB_UNIT else if c = CHR ''T'' then Some TB_UNIT else None)"

datatype bytes_state = state_begin | state_digit | state_si | state_end

fun bytes_loop :: "u64 \<Rightarrow> bytes_state \<Rightarrow> string \<Rightarrow> u64 res" where
  "bytes_loop res state [] = Inr res"
| "bytes_loop res state_begin (c # cs) =
     (if isdigit c then bytes_loop (push_digit res c) state_digit cs else parsing_error)"
| "bytes_loop res state_digit (c # cs) =
     (if isdigit c then bytes_loop (push_digit res c) state_digit cs
      else if c = CHR ''B'' then bytes_loop res state_end cs
      else case bytes_unit c of None \<Rightarrow> parsing_error | Some unit \<Rightarrow> bytes_loop (res * unit) state_si cs)"
| "bytes_loop res state_si (c # cs) = (if c = CHR ''B'' then bytes_loop res state_end cs else parsing_error)"
| "bytes_loop res state_end (c # cs) = parsing_error"

definition to_bytes :: "parser \<Rightarrow> token \<Rightarrow> (u64 \<times> parser) res" where
  "to_bytes parser token =
     bnd (token_strupr parser token) (\<lambda>parser.
     bnd (token_text parser token) (\<lambda>s.
     bnd (bytes_loop 0 state_begin s) (\<lambda>res. Inr (res, parser))))"

text \<open>
  The parts of a token and their number, which is one more than \<open>limit\<close> when there are more parts
  than the array holds. An empty part is stored, a delimiter at the end adds none.
\<close>

fun split_loop :: "token \<Rightarrow> nat \<Rightarrow> char \<Rightarrow> nat \<Rightarrow> nat \<Rightarrow> string \<Rightarrow> token list \<times> nat" where
  "split_loop src limit delimiter count offset [] = ([], count)"
| "split_loop src limit delimiter count offset (c # cs) =
     (let count = Suc count in
      if count > limit then ([], count) else
      let part = takeWhile (\<lambda>x. x \<noteq> delimiter) (c # cs);
          (tokens, n) = split_loop src limit delimiter count (Suc (offset + length part)) (drop (length part) cs) in
      (src\<lparr>t_col := t_col src + of_nat offset, t_off := t_off src + offset, t_len := of_nat (length part)\<rparr> # tokens, n))"

definition token_split :: "parser \<Rightarrow> token \<Rightarrow> nat \<Rightarrow> char \<Rightarrow> (token list \<times> nat) res" where
  "token_split parser src limit delimiter =
     bnd (token_text parser src) (\<lambda>s. Inr (split_loop src limit delimiter 0 0 s))"

section \<open>Properties with a format of their own\<close>

definition op_names :: "(string list \<times> bio_opcode) list" where
  "op_names =
     [([''READ'', ''R''], bio_read), ([''WRITE'', ''W''], bio_write), ([''FLUSH'', ''F''], bio_flush),
      ([''DEALLOCATE'', ''DEALLOC'', ''D''], bio_deallocate),
      ([''WRITE_ZEROES'', ''WRITE_ZEROS'', ''WRITE_ZERO'', ''WZ'', ''Z''], bio_write_zeroes),
      ([''WRITE_UNCORRECTABLE'', ''WRITE_UNCORRECT'', ''WRITE_UNCOR'', ''WU'', ''U''], bio_write_uncorrect),
      ([''IDENTIFY''], bio_identify), ([''FW_DOWNLOAD''], bio_fw_download)]"

text \<open>The first entry with a matching name, as a chain of \<open>else if\<close> finds it.\<close>

definition match_first :: "string \<Rightarrow> (string list \<times> 'a) list \<Rightarrow> 'a option" where
  "match_first text table = map_option snd (find (\<lambda>(names, x). MATCH_TOKEN text names) table)"

definition parse_op_type :: "parser \<Rightarrow> token \<Rightarrow> (bio_opcode \<times> parser) res" where
  "parse_op_type parser token =
     bnd (token_strupr parser token) (\<lambda>parser.
     bnd (token_text parser token) (\<lambda>s.
     case match_first s op_names of None \<Rightarrow> parsing_error | Some op \<Rightarrow> Inr (op, parser)))"

text \<open>
  One operation of the list. \<open>subparam_tokens\<close> keeps what an earlier round has left there when the
  part is empty; before the first round it holds nothing.
\<close>

type_synonym op_state = "parser \<times> u32 \<times> bio_opcode set \<times> token option list"

definition array_store :: "token list \<Rightarrow> token option list \<Rightarrow> token option list" where
  "array_store tokens arr = map Some tokens @ drop (length tokens) arr"

definition array_load :: "token option list \<Rightarrow> nat \<Rightarrow> token res" where
  "array_load arr i = bnd (arr_get arr i) (\<lambda>t. case t of None \<Rightarrow> Inl Fault | Some t \<Rightarrow> Inr t)"

definition set_op :: "bio_opcode \<Rightarrow> u32 \<Rightarrow> job_params \<Rightarrow> job_params" where
  "set_op op rate jp = jp\<lparr>jp_operations := (jp_operations jp)[bio_opcode_num op := rate]\<rparr>"

definition set_rate :: "nat \<Rightarrow> bio_opcode \<Rightarrow> op_state \<Rightarrow> op_state res" where
  "set_rate num_rate_tokens optype = (\<lambda>(parser, remained_rate, optype_mask, subparam_tokens).
     if num_rate_tokens = 1 then
       bnd (upd_job_params (set_op optype remained_rate) parser) (\<lambda>parser. Inr (parser, 0, optype_mask, subparam_tokens))
     else
       bnd (array_load subparam_tokens 1) (\<lambda>rate_token.
       bnd (to_integer parser rate_token) (\<lambda>v.
       let rate = ucast v :: u32 in
       if rate > remained_rate then parsing_error else
       bnd (upd_job_params (set_op optype rate) parser) (\<lambda>parser.
       Inr (parser, remained_rate - rate, optype_mask, subparam_tokens)))))"

definition parse_one_operation :: "token list \<Rightarrow> nat \<Rightarrow> op_state \<Rightarrow> op_state res" where
  "parse_one_operation param_tokens token_idx = (\<lambda>(parser, remained_rate, optype_mask, subparam_tokens).
     bnd (arr_get param_tokens token_idx) (\<lambda>param.
     bnd (token_split parser param 2 SUBPARAM_DELIMITER) (\<lambda>(tokens, num_rate_tokens).
     let subparam_tokens = array_store tokens subparam_tokens in
     bnd (array_load subparam_tokens 0) (\<lambda>op_token.
     bnd (parse_op_type parser op_token) (\<lambda>(optype, parser).
     if optype \<in> optype_mask then parsing_error
     else set_rate num_rate_tokens optype (parser, remained_rate, insert optype optype_mask, subparam_tokens))))))"

definition parse_operation :: "parser \<Rightarrow> token \<Rightarrow> parser res" where
  "parse_operation parser value_token =
     bnd (upd_job_params (\<lambda>jp. jp\<lparr>jp_operations := replicate bio_max 0\<rparr>) parser) (\<lambda>parser.
     bnd (token_split parser value_token 10 PARAM_DELIMITER) (\<lambda>(param_tokens, num_op_tokens).
     bnd (for_upto 0 num_op_tokens (parse_one_operation param_tokens) (parser, 100, {}, [None, None]))
       (\<lambda>(parser, remained_rate, optype_mask, subparam_tokens).
     if remained_rate > 0 then parsing_error else Inr parser)))"

text \<open>
  Whether the last character of a part is a percent sign. Before an empty part there is a
  delimiter, an equal sign or a blank.
\<close>

definition ends_percent :: "parser \<Rightarrow> token \<Rightarrow> bool res" where
  "ends_percent parser token =
     bnd (token_text parser token) (\<lambda>s. Inr (s \<noteq> [] \<and> last s = CHR ''%''))"

definition parse_amount :: "parser \<Rightarrow> token \<Rightarrow> parser res" where
  "parse_amount parser value_token =
     bnd (token_strupr parser value_token) (\<lambda>parser.
     bnd (token_split parser value_token 3 SUBPARAM_DELIMITER) (\<lambda>(tokens, num_tokens).
     bnd (arr_get tokens 0) (\<lambda>t0.
     bnd (token_text parser t0) (\<lambda>s.
     if MATCH_TOKEN s [''INFINITE''] then
       upd_job_params (\<lambda>jp. jp\<lparr>jp_amount_type := amount_type_infinite\<rparr>) parser
     else if MATCH_TOKEN s [''TIME''] then
       bnd (upd_job_params (\<lambda>jp. jp\<lparr>jp_amount_type := amount_type_time\<rparr>) parser) (\<lambda>parser.
       if num_tokens \<noteq> 2 then parsing_error else
       bnd (arr_get tokens 1) (\<lambda>t1. bnd (to_seconds parser t1) (\<lambda>(v, parser).
       upd_job_params (\<lambda>jp. jp\<lparr>jp_amount := v\<rparr>) parser)))
     else if MATCH_TOKEN s [''IO''] then
       bnd (upd_job_params (\<lambda>jp. jp\<lparr>jp_amount_type := amount_type_io\<rparr>) parser) (\<lambda>parser.
       if num_tokens \<noteq> 2 then parsing_error else
       bnd (arr_get tokens 1) (\<lambda>t1. bnd (to_integer parser t1) (\<lambda>v.
       upd_job_params (\<lambda>jp. jp\<lparr>jp_amount := v\<rparr>) parser)))
     else if MATCH_TOKEN s [''BYTE''] then
       bnd (upd_job_params (\<lambda>jp. jp\<lparr>jp_amount_type := amount_type_byte\<rparr>) parser) (\<lambda>parser.
       if num_tokens \<noteq> 2 then parsing_error else
       bnd (arr_get tokens 1) (\<lambda>t1.
       bnd (ends_percent parser t1) (\<lambda>percent.
       if percent then
         bnd (to_percent parser t1) (\<lambda>v.
         upd_job_params (\<lambda>jp. jp\<lparr>jp_amount_bytes_percent_enabled := True, jp_amount_bytes_percent := ucast v\<rparr>) parser)
       else
         bnd (to_bytes parser t1) (\<lambda>(v, parser). upd_job_params (\<lambda>jp. jp\<lparr>jp_amount := v\<rparr>) parser))))
     else parsing_error))))"

text \<open>
  \<open>parse_unwr_read\<close> and \<open>parse_dealloc_read\<close> differ in the fields they set only: \<open>set_type\<close> and
  \<open>set_value\<close> are these.
\<close>

definition parse_read_result ::
  "(read_result_type \<Rightarrow> job_params \<Rightarrow> job_params) \<Rightarrow> (u32 \<Rightarrow> job_params \<Rightarrow> job_params) \<Rightarrow> parser \<Rightarrow> token \<Rightarrow> parser res" where
  "parse_read_result set_type set_value parser value_token =
     bnd (token_strupr parser value_token) (\<lambda>parser.
     bnd (token_split parser value_token 3 SUBPARAM_DELIMITER) (\<lambda>(tokens, num_tokens).
     bnd (arr_get tokens 0) (\<lambda>t0.
     bnd (token_text parser t0) (\<lambda>s.
     if MATCH_TOKEN s [''DONTCARE''] then upd_job_params (set_type read_result_dontcare) parser
     else if MATCH_TOKEN s [''AUTO''] then upd_job_params (set_type read_result_auto) parser
     else if MATCH_TOKEN s [''ERROR''] then upd_job_params (set_type read_result_error) parser
     else if MATCH_TOKEN s [''VALUE''] then
       bnd (upd_job_params (set_type read_result_value) parser) (\<lambda>parser.
       if num_tokens \<noteq> 2 then parsing_error else
       bnd (arr_get tokens 1) (\<lambda>t1.
       bnd (token_text parser t1) (\<lambda>s.
       if MATCH_TOKEN s [''0''] then upd_job_params (set_value unwr_read_value_type_zeroes) parser
       else if MATCH_TOKEN s [''1''] then upd_job_params (set_value unwr_read_value_type_ones) parser
       else parsing_error)))
     else parsing_error))))"

definition parse_unwr_read :: "parser \<Rightarrow> token \<Rightarrow> parser res" where
  "parse_unwr_read =
     parse_read_result (\<lambda>t jp. jp\<lparr>jp_unwr_read_result_type := t\<rparr>) (\<lambda>v jp. jp\<lparr>jp_unwr_read_value_type := v\<rparr>)"

definition parse_dealloc_read :: "parser \<Rightarrow> token \<Rightarrow> parser res" where
  "parse_dealloc_read =
     parse_read_result (\<lambda>t jp. jp\<lparr>jp_dealloc_read_result_type := t\<rparr>) (\<lambda>v jp. jp\<lparr>jp_dealloc_read_value_type := v\<rparr>)"

definition set_iosize :: "iosize_opcode \<Rightarrow> (iosize_range \<Rightarrow> iosize_range) \<Rightarrow> job_params \<Rightarrow> job_params" where
  "set_iosize op f jp =
     (let i = iosize_opcode_num op in jp\<lparr>jp_iosizes := (jp_iosizes jp)[i := f (jp_iosizes jp ! i)]\<rparr>)"

text \<open>The sizes of the read, write and common requests also move the bounds over all jobs.\<close>

definition note_iosize :: "iosize_opcode \<Rightarrow> parser \<Rightarrow> parser res" where
  "note_iosize optype parser =
     bnd (job_params_of parser) (\<lambda>jp.
     bnd (arr_get (jp_iosizes jp) (iosize_opcode_num optype)) (\<lambda>r.
     if optype \<in> {iosize_read, iosize_write, iosize_total} then
       Inr (parser\<lparr>p_iosize_max := ucast (max (ucast (p_iosize_max parser)) (iosize_max r)),
                   p_iosize_min := ucast (min (ucast (p_iosize_min parser)) (iosize_min r))\<rparr>)
     else Inr parser))"

definition parse_iosize :: "iosize_opcode \<Rightarrow> parser \<Rightarrow> token \<Rightarrow> parser res" where
  "parse_iosize optype parser value_token =
     bnd (token_split parser value_token 3 PARAM_RANGE_DELIMITER) (\<lambda>(tokens, num_tokens).
     bnd (if num_tokens = 1 then
            bnd (arr_get tokens 0) (\<lambda>t0. bnd (to_bytes parser t0) (\<lambda>(val, parser).
            upd_job_params (set_iosize optype (\<lambda>r. r\<lparr>iosize_min := val, iosize_max := val\<rparr>)) parser))
          else if num_tokens = 2 then
            bnd (arr_get tokens 0) (\<lambda>t0. bnd (to_bytes parser t0) (\<lambda>(lo, parser).
            bnd (arr_get tokens 1) (\<lambda>t1. bnd (to_bytes parser t1) (\<lambda>(hi, parser).
            upd_job_params (set_iosize optype (\<lambda>r. r\<lparr>iosize_min := min lo hi, iosize_max := max lo hi\<rparr>)) parser))))
          else parsing_error) (\<lambda>parser.
     note_iosize optype parser))"

definition ZIPF_THETA_DEF :: decimal where
  "ZIPF_THETA_DEF = \<lparr>dec_significant = 12, dec_places = 1\<rparr>"

definition PARETO_SCALE_DEF :: decimal where
  "PARETO_SCALE_DEF = \<lparr>dec_significant = 1, dec_places = 0\<rparr>"

definition PARETO_SHAPE_DEF :: decimal where
  "PARETO_SHAPE_DEF = \<lparr>dec_significant = 1, dec_places = 0\<rparr>"

definition set_slba :: "slba_type \<Rightarrow> slba_param \<Rightarrow> job_params \<Rightarrow> job_params" where
  "set_slba ty v jp = jp\<lparr>jp_slba_type := ty, jp_slba := v\<rparr>"

text \<open>An optional address, zero when it is missing.\<close>

definition parse_fixed :: "slba_type \<Rightarrow> parser \<Rightarrow> token list \<Rightarrow> nat \<Rightarrow> parser res" where
  "parse_fixed ty parser tokens num_tokens =
     (if num_tokens = 1 then upd_job_params (set_slba ty (Slba_fixed 0)) parser
      else bnd (arr_get tokens 1) (\<lambda>t1. bnd (to_integer parser t1) (\<lambda>v.
        upd_job_params (set_slba ty (Slba_fixed v)) parser)))"

text \<open>A name that is not known leaves the parameters as they are.\<close>

definition parse_slba :: "parser \<Rightarrow> token \<Rightarrow> parser res" where
  "parse_slba parser value_token =
     bnd (token_strupr parser value_token) (\<lambda>parser.
     bnd (token_split parser value_token 4 SUBPARAM_DELIMITER) (\<lambda>(tokens, num_tokens).
     bnd (arr_get tokens 0) (\<lambda>t0.
     bnd (token_text parser t0) (\<lambda>s.
     if MATCH_TOKEN s [''SEQ'', ''SEQUENTIAL''] then parse_fixed slba_type_seq parser tokens num_tokens
     else if MATCH_TOKEN s [''RANDOM'', ''UNIFORM''] then
       upd_job_params (\<lambda>jp. jp\<lparr>jp_slba_type := slba_type_uniform\<rparr>) parser
     else if MATCH_TOKEN s [''ZIPF''] then
       if num_tokens = 1 then upd_job_params (set_slba slba_type_zipf (Slba_zipf ZIPF_THETA_DEF)) parser
       else if num_tokens = 2 then
         bnd (arr_get tokens 1) (\<lambda>t1. bnd (to_double parser t1) (\<lambda>theta.
         upd_job_params (set_slba slba_type_zipf (Slba_zipf theta)) parser))
       else parsing_error
     else if MATCH_TOKEN s [''PARETO''] then
       if num_tokens = 1 then
         upd_job_params (set_slba slba_type_pareto (Slba_pareto PARETO_SCALE_DEF PARETO_SHAPE_DEF)) parser
       else if num_tokens = 3 then
         bnd (arr_get tokens 1) (\<lambda>t1. bnd (to_double parser t1) (\<lambda>scale.
         bnd (arr_get tokens 2) (\<lambda>t2. bnd (to_double parser t2) (\<lambda>shape.
         upd_job_params (set_slba slba_type_pareto (Slba_pareto scale shape)) parser))))
       else parsing_error
     else if MATCH_TOKEN s [''FIXED''] then parse_fixed slba_type_fixed parser tokens num_tokens
     else if MATCH_TOKEN s [''JESD219''] then
       if num_tokens = 1 then upd_job_params (set_slba slba_type_jesd219 (Slba_jesd219 True 512)) parser
       else
         bnd (arr_get tokens 1) (\<lambda>t1. bnd (to_bool parser t1) (\<lambda>(enterprise, parser).
         bnd (arr_get tokens 2) (\<lambda>t2. bnd (to_integer parser t2) (\<lambda>sector_size.
         upd_job_params (set_slba slba_type_jesd219 (Slba_jesd219 enterprise (ucast sector_size))) parser))))
     else if MATCH_TOKEN s [''REPLAY''] then
       upd_job_params (\<lambda>jp. jp\<lparr>jp_slba_type := slba_type_replay\<rparr>) parser
     else Inr parser))))"

text \<open>A share of the namespace or a number of bytes.\<close>

definition parse_share ::
  "(7 word \<Rightarrow> job_params \<Rightarrow> job_params) \<Rightarrow> (u64 \<Rightarrow> job_params \<Rightarrow> job_params) \<Rightarrow> parser \<Rightarrow> token \<Rightarrow> parser res" where
  "parse_share set_percent set_bytes parser token =
     bnd (ends_percent parser token) (\<lambda>percent.
     if percent then bnd (to_percent parser token) (\<lambda>v. upd_job_params (set_percent (ucast v)) parser)
     else bnd (to_bytes parser token) (\<lambda>(v, parser). upd_job_params (set_bytes v) parser))"

definition parse_lba_range :: "parser \<Rightarrow> token \<Rightarrow> parser res" where
  "parse_lba_range parser value_token =
     bnd (token_strupr parser value_token) (\<lambda>parser.
     bnd (token_split parser value_token 3 SUBPARAM_DELIMITER) (\<lambda>(tokens, num_tokens).
     if num_tokens \<noteq> 2 then parsing_error else
     bnd (arr_get tokens 0) (\<lambda>t0.
     bnd (parse_share (\<lambda>v jp. jp\<lparr>jp_lba_range_begin_percent_enable := True, jp_lba_range_begin_percent := v\<rparr>)
            (\<lambda>v jp. jp\<lparr>jp_lba_range_begin_percent_enable := False, jp_lba_range_begin := v\<rparr>) parser t0) (\<lambda>parser.
     bnd (arr_get tokens 1) (\<lambda>t1.
     parse_share (\<lambda>v jp. jp\<lparr>jp_lba_range_size_percent_enable := True, jp_lba_range_size_percent := v\<rparr>)
       (\<lambda>v jp. jp\<lparr>jp_lba_range_size_percent_enable := False, jp_lba_range_size := v\<rparr>) parser t1)))))"

definition parse_reset :: "parser \<Rightarrow> token \<Rightarrow> parser res" where
  "parse_reset parser value_token =
     bnd (token_split parser value_token 3 PARAM_RANGE_DELIMITER) (\<lambda>(tokens, num_tokens).
     if num_tokens = 1 then
       bnd (arr_get tokens 0) (\<lambda>t0. bnd (to_integer parser t0) (\<lambda>val.
       upd_job_params (\<lambda>jp. jp\<lparr>jp_reset_min := ucast val, jp_reset_max := ucast val\<rparr>) parser))
     else if num_tokens = 2 then
       bnd (arr_get tokens 0) (\<lambda>t0. bnd (to_integer parser t0) (\<lambda>lo.
       bnd (arr_get tokens 1) (\<lambda>t1. bnd (to_integer parser t1) (\<lambda>hi.
       upd_job_params (\<lambda>jp. jp\<lparr>jp_reset_min := min (ucast lo) (ucast hi), jp_reset_max := max (ucast lo) (ucast hi)\<rparr>) parser))))
     else parsing_error)"

definition parse_stream :: "parser \<Rightarrow> token \<Rightarrow> parser res" where
  "parse_stream parser value_token =
     bnd (token_split parser value_token 1 PARAM_RANGE_DELIMITER) (\<lambda>(tokens, num_tokens).
     if num_tokens = 1 then
       bnd (arr_get tokens 0) (\<lambda>t0. bnd (to_integer parser t0) (\<lambda>v.
       upd_job_params (\<lambda>jp. jp\<lparr>jp_num_streams := ucast v\<rparr>) parser))
     else parsing_error)"

section \<open>The properties\<close>

type_synonym handler = "parser \<Rightarrow> token \<Rightarrow> parser res"

definition bool_prop :: "(bool \<Rightarrow> job_params \<Rightarrow> job_params) \<Rightarrow> handler" where
  "bool_prop f parser value_token =
     bnd (to_bool parser value_token) (\<lambda>(b, parser). upd_job_params (f b) parser)"

definition int_prop :: "(u64 \<Rightarrow> job_params \<Rightarrow> job_params) \<Rightarrow> handler" where
  "int_prop f parser value_token =
     bnd (to_integer parser value_token) (\<lambda>v. upd_job_params (f v) parser)"

definition double_prop :: "(decimal \<Rightarrow> job_params \<Rightarrow> job_params) \<Rightarrow> handler" where
  "double_prop f parser value_token =
     bnd (to_double parser value_token) (\<lambda>v. upd_job_params (f v) parser)"

definition bytes_prop :: "(u64 \<Rightarrow> job_params \<Rightarrow> job_params) \<Rightarrow> handler" where
  "bytes_prop f parser value_token =
     bnd (to_bytes parser value_token) (\<lambda>(v, parser). upd_job_params (f v) parser)"

text \<open>\<open>memcpy\<close> into a field of \<open>bound\<close> characters and a null character behind it.\<close>

definition copy_text :: "nat \<Rightarrow> parser \<Rightarrow> token \<Rightarrow> string res" where
  "copy_text bound parser token =
     bnd (token_text parser token) (\<lambda>s. if length s < bound then Inr s else Inl Fault)"

definition text_prop :: "nat \<Rightarrow> (string \<Rightarrow> job_params \<Rightarrow> job_params) \<Rightarrow> handler" where
  "text_prop bound f parser value_token =
     bnd (copy_text bound parser value_token) (\<lambda>s. upd_job_params (f s) parser)"

definition global_text_prop :: "(string \<Rightarrow> global_params \<Rightarrow> global_params) \<Rightarrow> handler" where
  "global_text_prop f parser value_token =
     bnd (copy_text 256 parser value_token) (\<lambda>s. Inr (parser\<lparr>p_params := f s (p_params parser)\<rparr>))"

definition global_int_prop :: "(u64 \<Rightarrow> global_params \<Rightarrow> global_params) \<Rightarrow> handler" where
  "global_int_prop f parser value_token =
     bnd (to_integer parser value_token) (\<lambda>v. Inr (parser\<lparr>p_params := f v (p_params parser)\<rparr>))"

definition journal_file_prop :: handler where
  "journal_file_prop parser value_token =
     bnd (job_params_of parser) (\<lambda>jp.
     if jp_journal_shm jp \<noteq> 0 then parsing_error
     else text_prop 256 (\<lambda>s jp. jp\<lparr>jp_journal_file := s\<rparr>) parser value_token)"

definition journal_shm_prop :: handler where
  "journal_shm_prop parser value_token =
     bnd (job_params_of parser) (\<lambda>jp.
     if jp_journal_file jp \<noteq> [] then parsing_error
     else int_prop (\<lambda>v jp. jp\<lparr>jp_journal_shm := ucast v\<rparr>) parser value_token)"

text \<open>No null character is stored, so the rest of a longer earlier name stays.\<close>

definition powerctl_dev_prop :: handler where
  "powerctl_dev_prop parser value_token =
     bnd (token_text parser value_token) (\<lambda>s.
     if length s > 256 then Inl Fault else
     let old = gp_powerctl_dev (p_params parser) in
     Inr (parser\<lparr>p_params := (p_params parser)\<lparr>gp_powerctl_dev := s @ drop (length s) old\<rparr>\<rparr>))"

text \<open>The chain of comparisons in \<open>on_property_defined\<close>, in two parts.\<close>

definition property_handlers1 :: "(string list \<times> handler) list" where
  "property_handlers1 =
     [([''STOP_ON_ERROR''], bool_prop (\<lambda>b jp. jp\<lparr>jp_stop_on_error := b\<rparr>)),
      ([''STOP_ON_MISCOMPARE''], bool_prop (\<lambda>b jp. jp\<lparr>jp_stop_on_miscompare := b\<rparr>)),
      ([''COMPARE''], bool_prop (\<lambda>b jp. jp\<lparr>jp_compare := b\<rparr>)),
      ([''INJECT_MISCOMPARE''], double_prop (\<lambda>v jp. jp\<lparr>jp_inject_miscompare := v\<rparr>)),
      ([''COMPARE_HEADER_ONLY''], bool_prop (\<lambda>b jp. jp\<lparr>jp_compare_header_only := b\<rparr>)),
      ([''IOENGINE''], text_prop 64 (\<lambda>s jp. jp\<lparr>jp_ioengine := s\<rparr>)),
      ([''IOENGINE_PARAM''], text_prop 256 (\<lambda>s jp. jp\<lparr>jp_ioengine_param := s\<rparr>)),
      ([''CONTROLLER''], text_prop 256 (\<lambda>s jp. jp\<lparr>jp_controller := s\<rparr>)),
      ([''NSID''], int_prop (\<lambda>v jp. jp\<lparr>jp_nsid := ucast v\<rparr>)),
      ([''DEPENDENCY''], text_prop 64 (\<lambda>s jp. jp\<lparr>jp_dependency := s\<rparr>)),
      ([''DELAY''], (\<lambda>parser token. bnd (to_seconds parser token) (\<lambda>(v, parser).
         upd_job_params (\<lambda>jp. jp\<lparr>jp_delay := v\<rparr>) parser))),
      ([''IOLOG''], global_text_prop (\<lambda>s gp. gp\<lparr>gp_iolog := s\<rparr>)),
      ([''SMARTLOG''], global_text_prop (\<lambda>s gp. gp\<lparr>gp_smartlog := s\<rparr>)),
      ([''ERRORLOG''], global_text_prop (\<lambda>s gp. gp\<lparr>gp_errorlog := s\<rparr>)),
      ([''IOTRACE''], global_text_prop (\<lambda>s gp. gp\<lparr>gp_iotrace := s\<rparr>)),
      ([''JOURNAL_FILE''], journal_file_prop),
      ([''JOURNAL_SHM''], journal_shm_prop),
      ([''LBA_OVERLAP''], bool_prop (\<lambda>b jp. jp\<lparr>jp_lba_overlap := b\<rparr>)),
      ([''RANDOMIZE_HEADER''], bool_prop (\<lambda>b jp. jp\<lparr>jp_randomize_header := b\<rparr>)),
      ([''SEED''], int_prop (\<lambda>v jp. jp\<lparr>jp_seed := ucast v\<rparr>)),
      ([''IODEPTH''], int_prop (\<lambda>v jp. jp\<lparr>jp_iodepth := ucast v\<rparr>)),
      ([''BATCH_SUBMIT''], int_prop (\<lambda>v jp. jp\<lparr>jp_batch_submit := ucast v\<rparr>)),
      ([''BATCH_COMPLETE''], int_prop (\<lambda>v jp. jp\<lparr>jp_batch_complete := ucast v\<rparr>))]"

definition iosize_align_prop :: "iosize_opcode \<Rightarrow> handler" where
  "iosize_align_prop op = bytes_prop (\<lambda>v. set_iosize op (\<lambda>r. r\<lparr>iosize_align := ucast v\<rparr>))"

definition property_handlers2 :: "(string list \<times> handler) list" where
  "property_handlers2 =
     [([''IOSIZE''], parse_iosize iosize_total),
      ([''IOSIZE_ALIGN''], iosize_align_prop iosize_total),
      ([''WRITE_SIZE''], parse_iosize iosize_write),
      ([''WRITE_SIZE_ALIGN''], iosize_align_prop iosize_write),
      ([''READ_SIZE''], parse_iosize iosize_read),
      ([''READ_SIZE_ALIGN''], iosize_align_prop iosize_read),
      ([''DEALLOC_SIZE''], parse_iosize iosize_deallocate),
      ([''DEALLOC_SIZE_ALIGN''], iosize_align_prop iosize_deallocate),
      ([''WRITE_ZEROES_SIZE''], parse_iosize iosize_write_zeroes),
      ([''WRITE_ZEROES_SIZE_ALIGN''], iosize_align_prop iosize_write_zeroes),
      ([''WRITE_UNCOR_SIZE''], parse_iosize iosize_write_uncorrect),
      ([''WRITE_UNCOR_SIZE_ALIGN''], iosize_align_prop iosize_write_uncorrect),
      ([''SLBA''], parse_slba),
      ([''SLBA_ALIGN''], bytes_prop (\<lambda>v jp. jp\<lparr>jp_slba_align := ucast v\<rparr>)),
      ([''SEPARATE_STREAM''], bool_prop (\<lambda>b jp. jp\<lparr>jp_separate_stream := b\<rparr>)),
      ([''LBA_RANGE''], parse_lba_range),
      ([''OPERATION''], parse_operation),
      ([''AMOUNT''], parse_amount),
      ([''AMOUNT_SCALE''], int_prop (\<lambda>v jp. jp\<lparr>jp_amount_scale := ucast v\<rparr>)),
      ([''UNWR_READ''], parse_unwr_read),
      ([''DEALLOC_READ''], parse_dealloc_read),
      ([''FLUSH_PASSTHRU''], bool_prop (\<lambda>b jp. jp\<lparr>jp_flush_passthru := b\<rparr>)),
      ([''RESET''], parse_reset),
      ([''STREAM''], parse_stream),
      ([''PRACT''], double_prop (\<lambda>v jp. jp\<lparr>jp_pract := v\<rparr>)),
      ([''PRCHK''], int_prop (\<lambda>v jp. jp\<lparr>jp_prchk := ucast v\<rparr>)),
      ([''INJECT_TAG_ERROR''], double_prop (\<lambda>v jp. jp\<lparr>jp_inject_tag_error := v\<rparr>)),
      ([''TIMEOUT''], int_prop (\<lambda>v jp. jp\<lparr>jp_timeout := ucast v\<rparr>)),
      ([''STOP_ON_TIMEOUT''], bool_prop (\<lambda>b jp. jp\<lparr>jp_stop_on_timeout := b\<rparr>)),
      ([''POWERCTL_DEV''], powerctl_dev_prop),
      ([''SPOR_LEVEL''], global_int_prop (\<lambda>v gp. gp\<lparr>gp_spor_level := ucast v\<rparr>)),
      ([''SKIP_IOENGINE_EXIT''], global_int_prop (\<lambda>v gp. gp\<lparr>gp_skip_ioengine_exit := ucast v\<rparr>)),
      ([''HISTORY''], int_prop (\<lambda>v jp. jp\<lparr>jp_history := ucast v\<rparr>))]"

text \<open>\<open>key_idx\<close> is the index of the key among the tokens; the value follows it.\<close>

definition on_property_defined :: "parser \<Rightarrow> nat \<Rightarrow> parser res" where
  "on_property_defined parser key_idx =
     bnd (array_load (p_tokens parser) key_idx) (\<lambda>key_token.
     bnd (array_load (p_tokens parser) (Suc key_idx)) (\<lambda>value_token.
     bnd (token_strupr parser key_token) (\<lambda>parser.
     bnd (token_text parser key_token) (\<lambda>key.
     case match_first key (property_handlers1 @ property_handlers2) of
       None \<Rightarrow> parsing_error
     | Some handler \<Rightarrow> handler parser value_token))))"

section \<open>The state machine\<close>

text \<open>The rows of \<open>parser_state_table\<close>: ranges of characters and the next state.\<close>

abbreviation letters_to :: "parser_state \<Rightarrow> (nat \<times> nat \<times> parser_state) list" where
  "letters_to s \<equiv> [(97, 122, s), (65, 90, s)]"

abbreviation digits_to :: "parser_state \<Rightarrow> (nat \<times> nat \<times> parser_state) list" where
  "digits_to s \<equiv> [(48, 57, s)]"

abbreviation char_to :: "char \<Rightarrow> parser_state \<Rightarrow> (nat \<times> nat \<times> parser_state) list" where
  "char_to c s \<equiv> [(of_char c, of_char c, s)]"

abbreviation value_chars :: "(nat \<times> nat \<times> parser_state) list" where
  "value_chars \<equiv> letters_to parser_state_prop_value @ digits_to parser_state_prop_value @
     char_to CHR ''_'' parser_state_prop_value @ char_to CHR ''.'' parser_state_prop_value @
     char_to CHR '':'' parser_state_prop_value @ char_to CHR ''/'' parser_state_prop_value @
     char_to CHR ''-'' parser_state_prop_value"

fun parser_state_table :: "parser_state \<Rightarrow> (nat \<times> nat \<times> parser_state) list" where
  "parser_state_table parser_state_init =
     char_to NUL parser_state_endline @ char_to CHR ''['' parser_state_section_opener @ letters_to parser_state_prop_key"
| "parser_state_table parser_state_section_opener =
     letters_to parser_state_section_name @ digits_to parser_state_section_name @ char_to CHR ''_'' parser_state_section_name"
| "parser_state_table parser_state_section_name =
     letters_to parser_state_section_name @ digits_to parser_state_section_name @ char_to CHR ''_'' parser_state_section_name @
     char_to CHR '']'' parser_state_section_closer"
| "parser_state_table parser_state_section_closer = char_to NUL parser_state_endline"
| "parser_state_table parser_state_prop_key =
     letters_to parser_state_prop_key @ digits_to parser_state_prop_key @ char_to CHR ''_'' parser_state_prop_key @
     char_to CHR ''='' parser_state_prop_equal"
| "parser_state_table parser_state_prop_equal = value_chars @ char_to CHR ''$'' parser_state_env_dollar"
| "parser_state_table parser_state_prop_value =
     char_to NUL parser_state_endline @ value_chars @ char_to CHR '','' parser_state_prop_value @ char_to CHR ''%'' parser_state_prop_value"
| "parser_state_table parser_state_env_dollar = char_to CHR ''{'' parser_state_env_opener"
| "parser_state_table parser_state_env_opener = letters_to parser_state_env_key @ char_to CHR ''_'' parser_state_env_key"
| "parser_state_table parser_state_env_key =
     letters_to parser_state_env_key @ digits_to parser_state_env_key @ char_to CHR ''_'' parser_state_env_key @
     char_to CHR ''}'' parser_state_env_closer"
| "parser_state_table parser_state_env_closer = char_to NUL parser_state_endline"
| "parser_state_table parser_state_error = []"
| "parser_state_table parser_state_endline = []"

definition parser_next_state :: "parser_state \<Rightarrow> char \<Rightarrow> parser_state res" where
  "parser_next_state cur_state ch =
     (if char_num ch = 255 then Inl Fault else
      case find (\<lambda>(lo, hi, s). lo \<le> char_num ch \<and> char_num ch \<le> hi) (parser_state_table cur_state) of
        None \<Rightarrow> Inr parser_state_error | Some (lo, hi, s) \<Rightarrow> Inr s)"

definition parser_newline :: "parser \<Rightarrow> parser" where
  "parser_newline parser = parser\<lparr>p_state := parser_state_init, p_col_num := 0, p_cur_token_idx := 0\<rparr>"

text \<open>A token that is too long is only reported.\<close>

definition syntax_error :: "parser \<Rightarrow> int \<Rightarrow> parser res" where
  "syntax_error parser res = (if res = parser_syntax_error then parsing_error else Inr parser)"

definition on_section_defined :: "parser \<Rightarrow> token \<Rightarrow> parser res" where
  "on_section_defined parser token =
     bnd (copy_text 64 parser token) (\<lambda>name.
     let params = p_params parser; jobs = gp_job_params params in
     Inr (parser\<lparr>p_params := params\<lparr>gp_job_params := jobs @ [(p_default_job_params parser)\<lparr>jp_name := name\<rparr>]\<rparr>,
                 p_job_params := Some (length jobs)\<rparr>))"

text \<open>The token becomes the value of the variable.\<close>

definition on_env_refered :: "parser \<Rightarrow> nat \<Rightarrow> parser res" where
  "on_env_refered parser i =
     bnd (array_load (p_tokens parser) i) (\<lambda>token.
     bnd (token_text parser token) (\<lambda>s.
     bnd (mem_read s 2 (length s - 3)) (\<lambda>env_key.
     case map_of (p_env parser) env_key of None \<Rightarrow> parsing_error
     | Some env_val \<Rightarrow>
         Inr (parser\<lparr>p_tokens := (p_tokens parser)[i := Some (token\<lparr>t_buf := Env_val env_key, t_off := 0,
                t_len := of_nat (length env_val)\<rparr>)]\<rparr>))))"

text \<open>What a change of the state does to the tokens, before the character is counted.\<close>

definition new_token :: "parser \<Rightarrow> parser res" where
  "new_token parser =
     bnd (arr_set (p_tokens parser) (p_cur_token_idx parser)
            (Some \<lparr>t_col = of_nat (p_col_num parser), t_len = 0, t_buf = Line_buf, t_off = p_col_num parser\<rparr>)) (\<lambda>tokens.
     Inr (parser\<lparr>p_tokens := tokens, p_cur_token := Some (p_cur_token_idx parser),
                 p_cur_token_idx := Suc (p_cur_token_idx parser)\<rparr>))"

definition end_token :: "parser \<Rightarrow> parser res" where
  "end_token parser =
     (case p_cur_token parser of None \<Rightarrow> Inr parser
      | Some i \<Rightarrow>
          bnd (if p_state parser = parser_state_prop_value then
                 if i = 0 then Inl Fault else on_property_defined parser (i - 1)
               else if p_state parser = parser_state_section_name then
                 bnd (array_load (p_tokens parser) i) (on_section_defined parser)
               else if p_state parser = parser_state_env_closer then
                 bnd (on_env_refered parser i) (\<lambda>parser.
                 if i = 0 then Inl Fault else on_property_defined parser (i - 1))
               else Inr parser) (\<lambda>parser.
          Inr (parser\<lparr>p_cur_token := None\<rparr>)))"

definition enter_state :: "parser_state \<Rightarrow> parser \<Rightarrow> parser res" where
  "enter_state new_state parser =
     (if new_state \<in> {parser_state_section_name, parser_state_prop_key, parser_state_prop_value, parser_state_env_dollar}
      then new_token parser
      else if new_state \<in> {parser_state_env_opener, parser_state_env_key, parser_state_env_closer} then Inr parser
      else end_token parser)"

text \<open>The length of the current token grows with every character.\<close>

definition count_char :: "parser_state \<Rightarrow> parser \<Rightarrow> (int \<times> parser) res" where
  "count_char new_state parser =
     (case p_cur_token parser of None \<Rightarrow> Inr (parser_success, parser\<lparr>p_state := new_state\<rparr>)
      | Some i \<Rightarrow>
          bnd (array_load (p_tokens parser) i) (\<lambda>token.
          let token = token\<lparr>t_len := t_len token + 1\<rparr>;
              parser = parser\<lparr>p_tokens := (p_tokens parser)[i := Some token]\<rparr> in
          if unat (t_len token) \<ge> MAX_TOKEN_LEN then Inr (parser_long_token, parser)
          else Inr (parser_success, parser\<lparr>p_state := new_state\<rparr>)))"

definition parse_char :: "parser \<Rightarrow> char \<Rightarrow> (int \<times> parser) res" where
  "parse_char parser ch =
     bnd (parser_next_state (p_state parser) ch) (\<lambda>new_state.
     if new_state = parser_state_error then Inr (parser_syntax_error, parser)
     else
       bnd (if new_state \<noteq> p_state parser then
              bnd (enter_state new_state parser) (\<lambda>parser. Inr (parser\<lparr>p_end_of_token := False\<rparr>))
            else if p_end_of_token parser then parsing_error
            else Inr parser) (\<lambda>parser.
       count_char new_state parser))"

section \<open>Lines and the file\<close>

text \<open>
  The result, the line buffer, the rest of the file and whether its end was met. The buffer keeps
  what is behind the characters that were read; at the end of the file no null character is stored.
\<close>

fun read_line :: "nat \<Rightarrow> nat \<Rightarrow> string \<Rightarrow> string \<Rightarrow> (int \<times> string \<times> string \<times> bool) res" where
  "read_line max_line_byte col line [] = Inr (int col, line, [], True)"
| "read_line max_line_byte col line (ch # file) =
     (if ch = CHR 0x0A then bnd (arr_set line col NUL) (\<lambda>line. Inr (int col, line, file, False))
      else if ch \<in> {CHR ''#'', CHR '';''} then
        bnd (arr_set line col NUL) (\<lambda>line.
        case dropWhile (\<lambda>c. c \<noteq> CHR 0x0A) file of [] \<Rightarrow> Inr (int col, line, [], True)
        | nl # file \<Rightarrow> Inr (int col, line, file, False))
      else
        bnd (arr_set line col (if ch = CHR 0x0D then NUL else ch)) (\<lambda>line.
        if Suc col = max_line_byte then Inr (- 1, line, file, False)
        else read_line max_line_byte (Suc col) line file))"

text \<open>
  The columns of the line; the first argument is the number of columns left in the buffer. The
  condition of the loop reads the character again, which is the same: only \<open>toupper\<close> changes the
  buffer, and it neither makes nor removes a null character.
\<close>

fun parse_columns :: "nat \<Rightarrow> parser \<Rightarrow> (int \<times> parser) res" where
  "parse_columns 0 parser = Inl Fault"
| "parse_columns (Suc k) parser =
     bnd (arr_get (p_line_buf parser) (p_col_num parser)) (\<lambda>ch.
     bnd (if isspace ch then Inr (parser_success, parser\<lparr>p_end_of_token := True\<rparr>) else parse_char parser ch) (\<lambda>(res, parser).
     if res \<noteq> parser_success then bnd (syntax_error parser res) (\<lambda>parser. Inr (- 1, parser))
     else
       let parser = parser\<lparr>p_col_num := Suc (p_col_num parser)\<rparr> in
       if ch \<noteq> NUL then parse_columns k parser else Inr (0, parser)))"

definition parse_line :: "parser \<Rightarrow> (int \<times> parser) res" where
  "parse_line parser = parse_columns LINE_BUF_LEN (parser_newline parser)"

lemma read_line_shorter:
  "read_line m k b cs = Inr (n, b', cs', eof) \<Longrightarrow> eof \<or> length cs' < length cs"
proof (induction m k b cs rule: read_line.induct)
  case (2 m k b c cs)
  have "length ds < Suc (length cs)" if "dropWhile (\<lambda>c. c \<noteq> CHR 0x0A) cs = d # ds" for d ds
    using arg_cong[OF that, of length] length_dropWhile_le[of "\<lambda>c. c \<noteq> CHR 0x0A" cs] by simp
  moreover have "eof \<or> length cs' < Suc (length cs)"
    if "read_line m (Suc k) (b[k := x]) cs = Inr (n, b', cs', eof)" "c \<noteq> CHR 0x0A" "c \<notin> {CHR ''#'', CHR '';''}"
      "k < length b" "Suc k \<noteq> m" "x = (if c = CHR 0x0D then NUL else c)" for x
    using 2(1)[OF that(2,3) _ that(5)] that(1,4,6) by auto
  ultimately show ?case using 2(2) by (auto simp: arr_set_def split: if_splits list.splits)
qed simp

text \<open>A line that cannot be parsed ends the program or is skipped: the result of \<open>parse_line\<close> is not used.\<close>

function parse_lines :: "parser \<Rightarrow> string \<Rightarrow> (int \<times> parser) res" where
  "parse_lines parser text =
     bnd (read_line LINE_BUF_LEN 0 (p_line_buf parser) text) (\<lambda>(line_bytes, line_buf, rest, eof).
     let parser = parser\<lparr>p_line_buf := line_buf\<rparr> in
     if line_bytes < 0 then Inr (- 1, parser)
     else
       bnd (if line_bytes = 0 then Inr parser
            else bnd (parse_line parser) (\<lambda>(res, parser). Inr (parser\<lparr>p_line_num := Suc (p_line_num parser)\<rparr>))) (\<lambda>parser.
       if eof then Inr (0, parser) else parse_lines parser rest))"
  by pat_completeness auto
termination
  by (relation "measure (\<lambda>(parser, text). length text)") (auto dest: read_line_shorter)

declare parse_lines.simps [simp del]

definition default_params :: job_params where
  "default_params = job_params_zero\<lparr>jp_name := ''NONAME'', jp_iodepth := 1, jp_batch_complete := 1,
     jp_lba_range_begin_percent_enable := False, jp_lba_range_begin := 0,
     jp_lba_range_size_percent_enable := True, jp_lba_range_size_percent := 100,
     jp_unwr_read_result_type := read_result_value, jp_unwr_read_value_type := unwr_read_value_type_ones,
     jp_dealloc_read_result_type := read_result_value, jp_dealloc_read_value_type := dealloc_read_value_type_ones,
     jp_pract := \<lparr>dec_significant = 5, dec_places = 1\<rparr>, jp_prchk := 7, jp_amount_scale := 1\<rparr>"

definition global_params_zero :: global_params where
  "global_params_zero =
     \<lparr>gp_iolog = [], gp_smartlog = [], gp_errorlog = [], gp_iotrace = [], gp_powerctl_dev = [],
      gp_spor_level = 0, gp_skip_ioengine_exit = 0, gp_job_params = []\<rparr>"

text \<open>\<open>junk\<close> is what the stack holds where the line buffer will be.\<close>

definition init_parser :: "string \<Rightarrow> (string \<times> string) list \<Rightarrow> u32 \<Rightarrow> u32 \<Rightarrow> parser" where
  "init_parser junk env iosz_max iosz_min =
     \<lparr>p_state = parser_state_error, p_line_num = 0, p_col_num = 0, p_cur_token_idx = 0,
      p_tokens = [None, None, None, None], p_cur_token = None, p_line_buf = junk, p_params = global_params_zero,
      p_job_params = None, p_default_job_params = default_params, p_end_of_token = False, p_env = env,
      p_iosize_max = iosz_max, p_iosize_min = iosz_min\<rparr>"

definition add_default_job :: "parser \<Rightarrow> parser" where
  "add_default_job parser =
     (if gp_job_params (p_params parser) = [] then
        parser\<lparr>p_params := (p_params parser)\<lparr>gp_job_params := [p_default_job_params parser]\<rparr>\<rparr>
      else parser)"

text \<open>
  The content of the file is \<open>None\<close> when it cannot be opened. The result comes with the parser,
  which holds the parameters, the environment and the two bounds of the request size.
\<close>

definition parse_param :: "string option \<Rightarrow> parser \<Rightarrow> (int \<times> parser) res" where
  "parse_param param_file parser =
     (case param_file of None \<Rightarrow> Inr (- 1, parser)
      | Some text \<Rightarrow>
          bnd (parse_lines parser text) (\<lambda>(res, parser).
          if res \<noteq> 0 then Inr (res, parser) else Inr (0, add_default_job parser)))"

end
