(* ===== verification/ParserConv.thy ===== *)
theory ParserConv
  imports Parser
begin

text \<open>
  The conversions of \<open>nbio/parser.c\<close> against reference definitions: numbers as the value of their
  digits, sizes and times by the shape of their text.
\<close>

section \<open>Tokens\<close>

lemma token_strupr_text:
  assumes "token_text parser token = Inr s" and "token_strupr parser token = Inr parser'"
  shows "token_text parser' token = Inr (map toupper s)"
proof -
  obtain b where b: "buffer_of parser (t_buf token) = Inr b" "mem_read b (t_off token) (unat (t_len token)) = Inr s"
    using assms(1) by (auto simp: token_text_def bnd_eq_Inr)
  obtain b' where b': "mem_write b (t_off token) (map toupper s) = Inr b'"
    and p': "parser' = (case t_buf token of Line_buf \<Rightarrow> parser\<lparr>p_line_buf := b'\<rparr>
      | Env_val key \<Rightarrow> parser\<lparr>p_env := AList.update key b' (p_env parser)\<rparr>)"
    using assms b(1) by (cases "t_buf token") (auto simp: token_strupr_def bnd_eq_Inr)
  have "buffer_of parser' (t_buf token) = Inr b'"
    by (auto simp: p' buffer_of_def update_Some_unfold update_conv split: buffer.split)
  moreover have "length s = unat (t_len token)" using b(2) by (auto simp: mem_read_eq_Inr)
  ultimately show ?thesis using mem_write_read_same[OF b'] by (simp add: token_text_def)
qed

lemma token_strupr_ok:
  assumes "token_text parser token = Inr s"
  shows "\<exists>parser'. token_strupr parser token = Inr parser'"
proof -
  obtain b where b: "buffer_of parser (t_buf token) = Inr b" "t_off token + unat (t_len token) \<le> length b"
      "s = take (unat (t_len token)) (drop (t_off token) b)"
    using assms by (auto simp: token_text_def bnd_eq_Inr mem_read_eq_Inr)
  then show ?thesis by (auto simp: token_strupr_def assms split: buffer.split)
qed

section \<open>Numbers\<close>

definition decimal_value :: "string \<Rightarrow> nat" where
  "decimal_value = foldl (\<lambda>n c. n * 10 + digit_val c) 0"

lemma foldl_digits: "foldl (\<lambda>n c. n * 10 + digit_val c) k s = k * 10 ^ length s + decimal_value s"
proof (induction s rule: rev_induct)
  case (snoc c s)
  then show ?case by (simp add: decimal_value_def algebra_simps)
qed (simp add: decimal_value_def)

lemma decimal_value_Nil [simp]: "decimal_value [] = 0"
  by (simp add: decimal_value_def)

lemma decimal_value_Cons: "decimal_value (c # s) = digit_val c * 10 ^ length s + decimal_value s"
  using foldl_digits[of "digit_val c" s] by (simp add: decimal_value_def)

lemma foldl_push_digit:
  "foldl push_digit (of_nat k) s = (of_nat (foldl (\<lambda>n c. n * 10 + digit_val c) k s) :: 'a::len word)"
proof (induction s arbitrary: k)
  case (Cons c s)
  have "push_digit (of_nat k :: 'a word) c = of_nat (k * 10 + digit_val c)" by (simp add: push_digit_def)
  then show ?case using Cons.IH[of "k * 10 + digit_val c"] by simp
qed simp

lemma push_digits: "foldl push_digit 0 s = (of_nat (decimal_value s) :: 'a::len word)"
  using foldl_push_digit[of 0 s] by (simp add: decimal_value_def)

lemma integer_loop_eq:
  "integer_loop r s = (if list_all isdigit s then Inr (foldl push_digit r s) else parsing_error)"
  by (induction s arbitrary: r) auto

text \<open>Decimal notation, to state round trips.\<close>

fun decimal_text :: "nat \<Rightarrow> string" where
  "decimal_text n = (if n < 10 then [char_of (48 + n)] else decimal_text (n div 10) @ [char_of (48 + n mod 10)])"

declare decimal_text.simps [simp del]

lemma digit_char: "n < 10 \<Longrightarrow> isdigit (char_of (48 + n)) \<and> digit_val (char_of (48 + n)) = n"
  by (simp add: isdigit_def digit_val_def char_num_def)

lemma decimal_text_digits: "list_all isdigit (decimal_text n) \<and> decimal_text n \<noteq> []"
proof (induction n rule: decimal_text.induct)
  case (1 n)
  then show ?case using digit_char[of n] digit_char[of "n mod 10"] by (simp add: decimal_text.simps[of n])
qed

lemma decimal_value_text: "decimal_value (decimal_text n) = n"
proof (induction n rule: decimal_text.induct)
  case (1 n)
  show ?case
  proof (cases "n < 10")
    case True
    then show ?thesis using digit_char[of n] by (simp add: decimal_text.simps[of n] decimal_value_Cons)
  next
    case False
    have "decimal_value (decimal_text (n div 10) @ [c]) = n div 10 * 10 + digit_val c" for c
      using 1[OF False] by (simp add: decimal_value_def)
    then show ?thesis using False digit_char[of "n mod 10"] by (simp add: decimal_text.simps[of n])
  qed
qed

section \<open>Sizes\<close>

text \<open>
  A size is a number, a unit and the letter B, where the unit and the letter may be missing; the
  empty text is zero.
\<close>

definition size_value :: "string \<Rightarrow> u64 option" where
  "size_value s =
     (let n = of_nat (decimal_value (takeWhile isdigit s)); rest = dropWhile isdigit s in
      if s = [] then Some 0
      else if \<not> isdigit (hd s) then None
      else if rest \<in> {[], ''B''} then Some n
      else if tl rest \<in> {[], ''B''} then map_option (\<lambda>u. n * u) (bytes_unit (hd rest))
      else None)"

lemma bytes_unit_B: "bytes_unit CHR ''B'' = None"
  by (simp add: bytes_unit_def)

lemma bytes_loop_end: "bytes_loop r state_end s = (if s = [] then Inr r else parsing_error)"
  by (cases s) auto

lemma bytes_loop_si: "bytes_loop r state_si s = (if s \<in> {[], ''B''} then Inr r else parsing_error)"
  by (cases s) (auto simp: bytes_loop_end)

lemma bytes_loop_digit:
  "bytes_loop r state_digit s =
     (let n = foldl push_digit r (takeWhile isdigit s); rest = dropWhile isdigit s in
      if rest \<in> {[], ''B''} then Inr n
      else if tl rest \<in> {[], ''B''} then
        (case bytes_unit (hd rest) of None \<Rightarrow> parsing_error | Some u \<Rightarrow> Inr (n * u))
      else parsing_error)"
proof (induction s arbitrary: r)
  case (Cons c s)
  then show ?case
    by (auto simp: Let_def bytes_loop_end bytes_loop_si bytes_unit_B split: option.split)
qed simp

lemma bytes_loop_exact:
  "bytes_loop 0 state_begin s = (case size_value s of None \<Rightarrow> parsing_error | Some v \<Rightarrow> Inr v)"
  by (cases s) (auto simp: size_value_def Let_def bytes_loop_digit push_digits[symmetric] split: option.split)

text \<open>C38: A size is read exactly by its shape: a number with a unit K, M, G or T and the letter B,
  each of the two optional and in either case, is the number times the unit, modulo 2 ^ 64, and
  every other text ends the program with status -1.\<close>

theorem to_bytes_exact:
  assumes "token_text parser token = Inr s"
  shows "case size_value (map toupper s) of
      None \<Rightarrow> to_bytes parser token = Inl (Exit (- 1))
    | Some v \<Rightarrow> \<exists>parser'. to_bytes parser token = Inr (v, parser') \<and> token_text parser' token = Inr (map toupper s)"
proof -
  obtain parser' where p': "token_strupr parser token = Inr parser'"
    using token_strupr_ok[OF assms] by blast
  have "token_text parser' token = Inr (map toupper s)" by (rule token_strupr_text[OF assms p'])
  then show ?thesis using p' by (simp add: to_bytes_def bytes_loop_exact parsing_error_def split: option.split)
qed

text \<open>The size 4k in a line that holds nothing else, and its number of bytes.\<close>

definition line_parser :: "string \<Rightarrow> parser" where
  "line_parser s = init_parser (s @ replicate (LINE_BUF_LEN - length s) NUL) [] 0 0xFFFFFFFF"

definition line_token :: "nat \<Rightarrow> nat \<Rightarrow> token" where
  "line_token i n = \<lparr>t_col = of_nat i, t_len = of_nat n, t_buf = Line_buf, t_off = i\<rparr>"

lemma line_token_text:
  assumes "length s = n" and "n < 256"
  shows "token_text (line_parser s) (line_token 0 n) = Inr s"
proof -
  have "unat (of_nat n :: u16) = n" using assms by (simp add: unat_of_nat take_bit_eq_mod)
  then show ?thesis using assms
    by (simp add: token_text_def line_parser_def line_token_def init_parser_def buffer_of_def LINE_BUF_LEN_def)
qed

theorem to_bytes_exact_witness:
  "\<exists>parser'. to_bytes (line_parser ''4k'') (line_token 0 2) = Inr (4096, parser') \<and>
     token_text parser' (line_token 0 2) = Inr ''4K''"
proof -
  have "token_text (line_parser ''4k'') (line_token 0 2) = Inr ''4k''"
    by (rule line_token_text) simp_all
  moreover have "map toupper ''4k'' = ''4K''" by code_simp
  moreover have "size_value ''4K'' = Some 4096"
    by (simp add: size_value_def isdigit_def char_num_def digit_val_def decimal_value_Cons bytes_unit_def KB_UNIT_def)
  ultimately show ?thesis using to_bytes_exact[of "line_parser ''4k''" "line_token 0 2" "''4k''"] by simp
qed

section \<open>Times\<close>

text \<open>A sum of numbers with a unit each.\<close>

definition time_text :: "(nat \<times> char) list \<Rightarrow> string" where
  "time_text gs = concat (map (\<lambda>(n, u). decimal_text n @ [u]) gs)"

definition time_value :: "(nat \<times> char) list \<Rightarrow> u64" where
  "time_value gs = (\<Sum>(n, u) \<leftarrow> gs. of_nat n * the (seconds_unit u))"

lemma seconds_loop_digits:
  assumes "list_all isdigit ds" and "ds \<noteq> []"
  shows "seconds_loop r d st (ds @ s) = seconds_loop r (foldl push_digit d ds) True s"
  using assms
proof (induction ds arbitrary: d st)
  case (Cons c ds)
  then show ?case by (cases "ds = []") auto
qed simp

lemma seconds_unit_nondigit: "seconds_unit c \<noteq> None \<Longrightarrow> \<not> isdigit c"
  by (auto simp: seconds_unit_def isdigit_def char_num_def split: if_splits)

lemma seconds_loop_sum:
  assumes "\<forall>(n, u) \<in> set gs. seconds_unit u \<noteq> None" and "list_all isdigit ds"
  shows "seconds_loop r 0 False (time_text gs @ ds) = Inr (r + time_value gs)"
  using assms(1)
proof (induction gs arbitrary: r)
  case Nil
  then show ?case
    using seconds_loop_digits[OF assms(2), of r 0 False "[]"] by (cases "ds = []") (auto simp: time_text_def time_value_def)
next
  case (Cons g gs)
  obtain n u where g: "g = (n, u)" by force
  obtain v where v: "seconds_unit u = Some v" using Cons.prems g by auto
  have "seconds_loop r 0 False (decimal_text n @ u # time_text gs @ ds) =
      seconds_loop r (of_nat n) True (u # time_text gs @ ds)"
    using seconds_loop_digits[of "decimal_text n" r 0 False] decimal_text_digits[of n]
    by (simp add: push_digits decimal_value_text)
  also have "\<dots> = seconds_loop (r + of_nat n * v) 0 False (time_text gs @ ds)"
    using v seconds_unit_nondigit[of u] by simp
  also have "\<dots> = Inr (r + of_nat n * v + time_value gs)" using Cons by auto
  finally show ?case by (simp add: g time_text_def time_value_def v add.assoc)
qed

section \<open>Percentages\<close>

lemma percent_loop_bound: "percent_loop r s = Inr v \<Longrightarrow> r \<le> 100 \<Longrightarrow> v \<le> 100"
  by (induction r s rule: percent_loop.induct) (auto simp: Let_def parsing_error_def split: if_splits)

lemma to_percent_bound: "to_percent parser token = Inr v \<Longrightarrow> v \<le> 100"
  by (auto simp: to_percent_def bnd_eq_Inr dest: percent_loop_bound)

text \<open>A time is the sum of its parts, each a number and one of the units S, M, H and D; a number
  at the end that has no unit is read and dropped.\<close>

theorem to_seconds_sum:
  assumes "token_text parser token = Inr s" and "map toupper s = time_text gs @ ds"
    and "\<forall>(n, u) \<in> set gs. seconds_unit u \<noteq> None" and "list_all isdigit ds"
  shows "\<exists>parser'. to_seconds parser token = Inr (time_value gs, parser')"
proof -
  obtain parser' where p': "token_strupr parser token = Inr parser'"
    using token_strupr_ok[OF assms(1)] by blast
  have "token_text parser' token = Inr (time_text gs @ ds)"
    using token_strupr_text[OF assms(1) p'] assms(2) by simp
  then show ?thesis using p' seconds_loop_sum[OF assms(3,4), of 0] by (simp add: to_seconds_def)
qed

theorem to_seconds_sum_witness:
  "\<exists>parser'. to_seconds (line_parser ''1m30'') (line_token 0 4) = Inr (60, parser')"
proof -
  have "token_text (line_parser ''1m30'') (line_token 0 4) = Inr ''1m30''"
    by (rule line_token_text) simp_all
  moreover have "map toupper ''1m30'' = time_text [(1, CHR ''M'')] @ ''30''" by code_simp
  moreover have "time_value [(1, CHR ''M'')] = 60" by code_simp
  moreover have "list_all isdigit ''30''" by code_simp
  moreover have "seconds_unit CHR ''M'' \<noteq> None" by code_simp
  ultimately show ?thesis
    using to_seconds_sum[of "line_parser ''1m30''" "line_token 0 4" "''1m30''" "[(1, CHR ''M'')]" "''30''"] by simp
qed

text \<open>What is accepted as a percentage is at most 100, but the number is reduced modulo 256
  digit by digit before it is compared: 300% is accepted and read as 44.\<close>

theorem to_percent_wraps:
  assumes "token_text parser token = Inr s"
  shows "(s = decimal_text 300 @ ''%'' \<longrightarrow> to_percent parser token = Inr 44) \<and>
    (\<forall>v. to_percent parser token = Inr v \<longrightarrow> v \<le> 100)"
proof -
  have "decimal_text 300 @ ''%'' = ''300%''" by code_simp
  moreover have "percent_loop 0 ''300%'' = Inr 44"
    by (simp add: push_digit_def isdigit_def char_num_def digit_val_def Let_def)
  ultimately show ?thesis using assms to_percent_bound[of parser token] by (auto simp: to_percent_def)
qed

theorem to_percent_wraps_witness: "to_percent (line_parser ''300%'') (line_token 0 4) = Inr 44"
proof -
  have "token_text (line_parser ''300%'') (line_token 0 4) = Inr ''300%''"
    by (rule line_token_text) simp_all
  moreover have "decimal_text 300 @ ''%'' = ''300%''" by code_simp
  ultimately show ?thesis using to_percent_wraps[of "line_parser ''300%''" "line_token 0 4" "''300%''"] by simp
qed

end
