(* ===== verification/ParserRun.thy ===== *)
theory ParserRun
  imports ParserConv
begin

text \<open>
  Runs of the parser (\<open>nbio/parser.c\<close>) over whole lines and files: which tokens the state machine
  finds in a line with a section or with a property, the round trip of a parameter file, and what
  happens at the end of a file and with a token that is too long.
\<close>

section \<open>Reading a line\<close>

definition plain :: "char \<Rightarrow> bool" where
  "plain c \<longleftrightarrow> c \<notin> {CHR 0x0A, CHR 0x0D, CHR ''#'', CHR '';''}"

lemma read_line_step:
  assumes "plain c" and "col < length buf" and "Suc col \<noteq> m"
  shows "read_line m col buf (c # cs) = read_line m (Suc col) (buf[col := c]) cs"
  using assms by (simp add: plain_def)

lemma read_line_plain:
  assumes "list_all plain s" and "col + length s < m" and "length buf = m"
  shows "read_line m col buf (s @ cs) = read_line m (col + length s) (take col buf @ s @ drop (col + length s) buf) cs"
  using assms
proof (induction s arbitrary: col buf)
  case (Cons c s)
  let ?buf = "buf[col := c]"
  have col: "col < length buf" using Cons.prems by simp
  have "read_line m col buf ((c # s) @ cs) = read_line m (Suc col) ?buf (s @ cs)"
    using read_line_step[of c col buf m "s @ cs"] Cons.prems by simp
  also have "\<dots> = read_line m (Suc col + length s) (take (Suc col) ?buf @ s @ drop (Suc col + length s) ?buf) cs"
    by (rule Cons.IH) (use Cons.prems in auto)
  also have "take (Suc col) ?buf @ s @ drop (Suc col + length s) ?buf = take col buf @ (c # s) @ drop (col + length (c # s)) buf"
    using col by (simp add: take_Suc_conv_app_nth)
  finally show ?case by (simp only: list.size add_Suc_right add_Suc add_0_right)
qed simp

lemma read_line_whole:
  assumes "list_all plain s" and "length s < LINE_BUF_LEN" and "length buf = LINE_BUF_LEN"
  shows "read_line LINE_BUF_LEN 0 buf (s @ CHR 0x0A # cs) =
    Inr (int (length s), s @ NUL # drop (Suc (length s)) buf, cs, False)"
proof -
  have "read_line LINE_BUF_LEN 0 buf (s @ CHR 0x0A # cs) =
      read_line LINE_BUF_LEN (length s) (s @ drop (length s) buf) (CHR 0x0A # cs)"
    using read_line_plain[of s 0 LINE_BUF_LEN buf] assms by simp
  moreover have "drop (length s) buf = buf ! length s # drop (Suc (length s)) buf"
    using assms(2,3) by (simp add: Cons_nth_drop_Suc)
  ultimately show ?thesis using assms(2,3) by (simp add: list_update_append)
qed

lemma read_line_last:
  assumes "list_all plain s" and "length s < LINE_BUF_LEN" and "length buf = LINE_BUF_LEN"
  shows "read_line LINE_BUF_LEN 0 buf s = Inr (int (length s), s @ drop (length s) buf, [], True)"
  using read_line_plain[of s 0 LINE_BUF_LEN buf "[]"] assms by simp

section \<open>Characters of one token\<close>

text \<open>Characters that keep the state.\<close>

definition stays :: "parser_state \<Rightarrow> char \<Rightarrow> bool" where
  "stays st c \<longleftrightarrow> parser_next_state st c = Inr st \<and> st \<noteq> parser_state_error \<and> \<not> isspace c \<and> c \<noteq> NUL"

abbreviation longer :: "nat \<Rightarrow> token \<Rightarrow> token" where
  "longer n t \<equiv> t\<lparr>t_len := t_len t + of_nat n\<rparr>"

lemma unat_len_plus:
  assumes "unat (l :: u16) + n < 65536"
  shows "unat (l + of_nat n) = unat l + n"
proof -
  have "unat (of_nat n :: u16) = n" using assms by (simp add: unat_of_nat take_bit_eq_mod)
  then show ?thesis using assms by (simp add: unat_word_ariths)
qed

lemma parse_char_stays:
  assumes "stays (p_state p) c" and "\<not> p_end_of_token p" and "p_cur_token p = Some i"
    and "i < length (p_tokens p)" and "p_tokens p ! i = Some t" and "unat (t_len t) < MAX_TOKEN_LEN"
  shows "parse_char p c = Inr (if Suc (unat (t_len t)) < MAX_TOKEN_LEN then 0 else - 2,
           p\<lparr>p_tokens := (p_tokens p)[i := Some (longer 1 t)]\<rparr>)"
proof -
  have "unat (t_len t + 1) = Suc (unat (t_len t))"
    using unat_len_plus[of "t_len t" 1] assms(6) by (simp add: MAX_TOKEN_LEN_def)
  then show ?thesis using assms
    by (simp add: parse_char_def stays_def count_char_def array_load_def Let_def not_le)
qed

lemma drop_head:
  assumes "take (Suc n) (drop k xs) = c # cs"
  shows "arr_get xs k = Inr c" "take n (drop (Suc k) xs) = cs"
proof -
  obtain zs where zs: "drop k xs = c # zs" "take n zs = cs" using assms by (cases "drop k xs") auto
  then have "k < length xs" by (metis drop_all list.distinct(1) not_less)
  moreover have "xs ! k = c" using zs(1) calculation by (metis hd_drop_conv_nth list.sel(1))
  moreover have "drop (Suc k) xs = zs" using zs(1) by (metis drop_Suc list.sel(3) tl_drop)
  ultimately show "arr_get xs k = Inr c" "take n (drop (Suc k) xs) = cs" using zs(2) by simp_all
qed

lemma parse_columns_stays:
  assumes "list_all (stays (p_state p)) cs" and "\<not> p_end_of_token p" and "p_cur_token p = Some i"
    and "i < length (p_tokens p)" and "p_tokens p ! i = Some t" and "unat (t_len t) + length cs < MAX_TOKEN_LEN"
    and "take (length cs) (drop (p_col_num p) (p_line_buf p)) = cs"
  shows "parse_columns (k + length cs) p =
    parse_columns k (p\<lparr>p_col_num := p_col_num p + length cs, p_tokens := (p_tokens p)[i := Some (longer (length cs) t)]\<rparr>)"
  using assms
proof (induction cs arbitrary: p t)
  case Nil
  then have "(p_tokens p)[i := Some t] = p_tokens p" using list_update_id[of "p_tokens p" i] by simp
  then show ?case by simp
next
  case (Cons c cs)
  let ?p = "p\<lparr>p_tokens := (p_tokens p)[i := Some (longer 1 t)]\<rparr>"
  let ?q = "?p\<lparr>p_col_num := Suc (p_col_num p)\<rparr>"
  have ch: "arr_get (p_line_buf p) (p_col_num p) = Inr c"
    and rest: "take (length cs) (drop (Suc (p_col_num p)) (p_line_buf p)) = cs"
    using drop_head[of "length cs" "p_col_num p" "p_line_buf p" c cs] Cons.prems(7) by simp_all
  have st: "stays (p_state p) c" using Cons.prems(1) by simp
  have len: "unat (t_len t + 1) = Suc (unat (t_len t))"
    using unat_len_plus[of "t_len t" 1] Cons.prems(6) by (simp add: MAX_TOKEN_LEN_def)
  have "parse_char p c = Inr (0, ?p)"
    using parse_char_stays[OF st Cons.prems(2-5)] Cons.prems(6) by simp
  then have "parse_columns (k + length (c # cs)) p = parse_columns (k + length cs) ?q"
    using ch st by (simp add: stays_def)
  also have "\<dots> = parse_columns k (?q\<lparr>p_col_num := p_col_num ?q + length cs,
      p_tokens := (p_tokens ?q)[i := Some (longer (length cs) (longer 1 t))]\<rparr>)"
    by (rule Cons.IH) (use Cons.prems rest len in auto)
  also have "longer (length cs) (longer 1 t) = longer (length (c # cs)) t" by (simp add: algebra_simps)
  finally show ?case by simp
qed

section \<open>Words and separators\<close>

text \<open>A word starts a token: its first character leads from one state to another, and the others stay there.\<close>

definition word :: "parser_state \<Rightarrow> parser_state \<Rightarrow> string \<Rightarrow> bool" where
  "word st st' w \<longleftrightarrow> w \<noteq> [] \<and> length w < MAX_TOKEN_LEN \<and> parser_next_state st (hd w) = Inr st' \<and> list_all (stays st') w"

definition starts_token :: "parser_state \<Rightarrow> bool" where
  "starts_token st \<longleftrightarrow> st \<in> {parser_state_section_name, parser_state_prop_key, parser_state_prop_value}"

text \<open>The parser behind a word of \<open>n\<close> characters.\<close>

definition after_word :: "parser_state \<Rightarrow> nat \<Rightarrow> parser \<Rightarrow> parser" where
  "after_word st n p = p\<lparr>p_state := st, p_col_num := p_col_num p + n,
     p_tokens := (p_tokens p)[p_cur_token_idx p := Some (line_token (p_col_num p) n)],
     p_cur_token := Some (p_cur_token_idx p), p_cur_token_idx := Suc (p_cur_token_idx p), p_end_of_token := False\<rparr>"

lemma parse_columns_word:
  assumes "word (p_state p) st w" and "starts_token st" and "p_state p \<noteq> st"
    and "p_cur_token_idx p < length (p_tokens p)"
    and "take (length w) (drop (p_col_num p) (p_line_buf p)) = w"
  shows "parse_columns (k + length w) p = parse_columns k (after_word st (length w) p)"
proof -
  obtain c cs where w: "w = c # cs" using assms(1) by (cases w) (auto simp: word_def)
  let ?p = "after_word st 1 p"
  have st: "st \<noteq> parser_state_error" using assms(2) by (auto simp: starts_token_def)
  have c: "arr_get (p_line_buf p) (p_col_num p) = Inr c" "take (length cs) (drop (Suc (p_col_num p)) (p_line_buf p)) = cs"
    using drop_head[of "length cs" "p_col_num p" "p_line_buf p" c cs] assms(5) by (simp_all add: w)
  have "parse_char p c = Inr (0, ?p\<lparr>p_col_num := p_col_num p\<rparr>)"
    using assms st
    by (auto simp: parse_char_def word_def w enter_state_def starts_token_def new_token_def count_char_def array_load_def
        Let_def MAX_TOKEN_LEN_def after_word_def line_token_def)
  moreover have "?p\<lparr>p_col_num := Suc (p_col_num p)\<rparr> = ?p" by (rule parser.equality) (simp_all add: after_word_def)
  ultimately have "parse_columns (k + length w) p = parse_columns (k + length cs) ?p"
    using c(1) assms(1) by (simp add: w word_def stays_def)
  also have "\<dots> = parse_columns k (?p\<lparr>p_col_num := p_col_num ?p + length cs,
      p_tokens := (p_tokens ?p)[p_cur_token_idx p := Some (longer (length cs) (line_token (p_col_num p) 1))]\<rparr>)"
    by (rule parse_columns_stays) (use assms c(2) in \<open>auto simp: word_def w after_word_def line_token_def MAX_TOKEN_LEN_def\<close>)
  also have "?p\<lparr>p_col_num := p_col_num ?p + length cs,
      p_tokens := (p_tokens ?p)[p_cur_token_idx p := Some (longer (length cs) (line_token (p_col_num p) 1))]\<rparr> =
      after_word st (length w) p"
    by (rule parser.equality) (simp_all add: after_word_def line_token_def w)
  finally show ?thesis .
qed

text \<open>A character that ends a token, other than the end of the line.\<close>

definition after_sep :: "parser_state \<Rightarrow> parser \<Rightarrow> parser" where
  "after_sep st p = p\<lparr>p_state := st, p_col_num := Suc (p_col_num p), p_cur_token := None, p_end_of_token := False\<rparr>"

lemma after_sep_cur: "after_sep st (p\<lparr>p_cur_token := None\<rparr>) = after_sep st p"
  by (rule parser.equality) (simp_all add: after_sep_def)

lemma parse_columns_sep:
  assumes "arr_get (p_line_buf p) (p_col_num p) = Inr c" and "\<not> isspace c"
    and "parser_next_state (p_state p) c = Inr st"
    and "st \<in> {parser_state_section_opener, parser_state_section_closer, parser_state_prop_equal, parser_state_endline}"
    and "p_state p \<noteq> st"
  shows "parse_columns (Suc k) p = bnd (end_token p) (\<lambda>q. if c \<noteq> NUL then parse_columns k (after_sep st q) else Inr (0, after_sep st q))"
proof -
  have cur: "p_cur_token q = None" if "end_token p = Inr q" for q
    using that by (auto simp: end_token_def bnd_eq_Inr split: option.splits)
  have "parse_char p c = bnd (end_token p) (\<lambda>q. Inr (0, q\<lparr>p_state := st, p_end_of_token := False\<rparr>))"
    using assms(3-5) cur by (cases "end_token p") (auto simp: parse_char_def enter_state_def count_char_def)
  moreover have "q\<lparr>p_state := st, p_end_of_token := False, p_col_num := Suc (p_col_num q)\<rparr> = after_sep st q"
    if "end_token p = Inr q" for q
    by (rule parser.equality) (simp_all add: after_sep_def cur[OF that])
  ultimately show ?thesis using assms(1,2) by (cases "end_token p") auto
qed

section \<open>Whole lines\<close>

lemma nth_at: "k = length xs \<Longrightarrow> arr_get (xs @ c # ys) k = Inr c"
  by simp

lemma take_at: "k = length xs \<Longrightarrow> n = length w \<Longrightarrow> take n (drop k (xs @ w @ ys)) = w"
  by simp

lemma next_states [simp]:
  "parser_next_state parser_state_prop_key CHR ''='' = Inr parser_state_prop_equal"
  "parser_next_state parser_state_init CHR ''['' = Inr parser_state_section_opener"
  "parser_next_state parser_state_section_name CHR '']'' = Inr parser_state_section_closer"
  "parser_next_state parser_state_section_closer NUL = Inr parser_state_endline"
  "parser_next_state parser_state_prop_value NUL = Inr parser_state_endline"
  by (simp_all add: parser_next_state_def char_num_def)

lemma no_space [simp]: "\<not> isspace CHR ''=''" "\<not> isspace CHR ''[''" "\<not> isspace CHR '']''" "\<not> isspace NUL"
  by (simp_all add: isspace_def char_num_def)

abbreviation property_word :: "string \<Rightarrow> bool" where
  "property_word \<equiv> word parser_state_init parser_state_prop_key"

abbreviation value_word :: "string \<Rightarrow> bool" where
  "value_word \<equiv> word parser_state_prop_equal parser_state_prop_value"

abbreviation name_word :: "string \<Rightarrow> bool" where
  "name_word \<equiv> word parser_state_section_opener parser_state_section_name"

text \<open>The parser when the end of a line with a property is met.\<close>

definition property_parser :: "string \<Rightarrow> string \<Rightarrow> parser \<Rightarrow> parser" where
  "property_parser key val p = p\<lparr>p_state := parser_state_prop_value, p_col_num := Suc (length key + length val),
     p_tokens := (p_tokens p)[0 := Some (line_token 0 (length key)), 1 := Some (line_token (Suc (length key)) (length val))],
     p_cur_token := Some 1, p_cur_token_idx := 2, p_end_of_token := False\<rparr>"

lemma parse_line_to_value:
  assumes "property_word key" and "value_word val" and "length (p_tokens p) = 4"
    and fuel: "LINE_BUF_LEN = Suc (k + length val) + length key" and buf: "p_line_buf p = key @ CHR ''='' # val @ rest"
  shows "parse_line p = parse_columns k (property_parser key val p)"
proof -
  let ?p0 = "parser_newline p"
  let ?p1 = "after_word parser_state_prop_key (length key) ?p0"
  let ?p2 = "after_sep parser_state_prop_equal ?p1"
  let ?p3 = "after_word parser_state_prop_value (length val) ?p2"
  have "parse_line p = parse_columns (Suc (k + length val)) ?p1"
    unfolding parse_line_def fuel
    by (rule parse_columns_word) (use assms in \<open>auto simp: parser_newline_def starts_token_def\<close>)
  also have "\<dots> = bnd (end_token ?p1) (\<lambda>q. parse_columns (k + length val) (after_sep parser_state_prop_equal q))"
    using parse_columns_sep[of ?p1 "CHR ''=''" parser_state_prop_equal "k + length val"]
    by (simp add: after_word_def parser_newline_def buf nth_at)
  also have "end_token ?p1 = Inr (?p1\<lparr>p_cur_token := None\<rparr>)" by (simp add: end_token_def after_word_def)
  also have "bnd (Inr (?p1\<lparr>p_cur_token := None\<rparr>)) (\<lambda>q. parse_columns (k + length val) (after_sep parser_state_prop_equal q)) =
      parse_columns (k + length val) ?p2" by (simp only: bnd_Inr after_sep_cur)
  also have "\<dots> = parse_columns k ?p3"
  proof (rule parse_columns_word)
    show "take (length val) (drop (p_col_num ?p2) (p_line_buf ?p2)) = val"
      using take_at[of "Suc (length key)" "key @ ''=''" "length val" val]
      by (simp add: after_sep_def after_word_def parser_newline_def buf)
  qed (use assms in \<open>auto simp: after_sep_def after_word_def parser_newline_def starts_token_def\<close>)
  also have "?p3 = property_parser key val p"
    by (rule parser.equality) (simp_all add: property_parser_def after_word_def after_sep_def parser_newline_def)
  finally show ?thesis .
qed

lemma parse_line_property:
  assumes "property_word key" and "value_word val" and "length (p_tokens p) = 4" and "length (p_line_buf p) = LINE_BUF_LEN"
    and buf: "p_line_buf p = key @ CHR ''='' # val @ NUL # rest"
  shows "parse_line p = bnd (on_property_defined (property_parser key val p) 0) (\<lambda>q. Inr (0, after_sep parser_state_endline q))"
proof -
  let ?p = "property_parser key val p"
  define k where "k = LINE_BUF_LEN - Suc (Suc (length key + length val))"
  have fuel: "LINE_BUF_LEN = Suc (Suc k + length val) + length key" using assms(4) buf by (simp add: k_def)
  have "arr_get (p_line_buf ?p) (p_col_num ?p) = Inr NUL"
    using nth_at[of "Suc (length key + length val)" "key @ CHR ''='' # val" NUL rest] by (simp add: property_parser_def buf)
  then have "parse_columns (Suc k) ?p = bnd (end_token ?p) (\<lambda>q. Inr (0, after_sep parser_state_endline q))"
    using parse_columns_sep[of ?p NUL parser_state_endline k] by (simp add: property_parser_def)
  also have "\<dots> = bnd (on_property_defined ?p 0) (\<lambda>q. Inr (0, after_sep parser_state_endline q))"
    by (cases "on_property_defined ?p 0") (simp_all add: end_token_def property_parser_def after_sep_cur)
  finally show ?thesis using parse_line_to_value[OF assms(1-3) fuel buf] by simp
qed

text \<open>A line with a section: the token is the name between the brackets.\<close>

definition section_parser :: "string \<Rightarrow> parser \<Rightarrow> parser" where
  "section_parser name p = p\<lparr>p_state := parser_state_section_name, p_col_num := Suc (length name),
     p_tokens := (p_tokens p)[0 := Some (line_token 1 (length name))],
     p_cur_token := Some 0, p_cur_token_idx := 1, p_end_of_token := False\<rparr>"

lemma end_token_None: "p_cur_token p = None \<Longrightarrow> end_token p = Inr p"
  by (simp add: end_token_def)

lemma parse_line_section:
  assumes "name_word name" and "length (p_tokens p) = 4" and "length (p_line_buf p) = LINE_BUF_LEN"
    and buf: "p_line_buf p = CHR ''['' # name @ CHR '']'' # NUL # rest"
  shows "parse_line p =
    bnd (on_section_defined (section_parser name p) (line_token 1 (length name)))
      (\<lambda>q. Inr (0, after_sep parser_state_endline (after_sep parser_state_section_closer q)))"
proof -
  define k where "k = LINE_BUF_LEN - (3 + length name)"
  have fuel: "LINE_BUF_LEN = Suc (Suc (Suc k) + length name)" using assms(3) buf by (simp add: k_def)
  let ?p0 = "parser_newline p"
  let ?p1 = "after_sep parser_state_section_opener ?p0"
  let ?p2 = "after_word parser_state_section_name (length name) ?p1"
  let ?fin = "\<lambda>q. after_sep parser_state_endline (after_sep parser_state_section_closer q)"
  have c0: "arr_get (p_line_buf ?p0) (p_col_num ?p0) = Inr CHR ''[''" by (simp add: parser_newline_def buf)
  have s0: "p_state ?p0 = parser_state_init" by (simp add: parser_newline_def)
  have e0: "end_token ?p0 = Inr (?p0\<lparr>p_cur_token := None\<rparr>)"
  proof (cases "p_cur_token ?p0")
    case None
    then have "?p0\<lparr>p_cur_token := None\<rparr> = ?p0" by (intro parser.equality) simp_all
    with None show ?thesis by (simp add: end_token_None)
  qed (simp add: end_token_def s0)
  have "parse_line p = bnd (end_token ?p0) (\<lambda>q. parse_columns (Suc (Suc k) + length name) (after_sep parser_state_section_opener q))"
    unfolding parse_line_def fuel
    using parse_columns_sep[OF c0, of parser_state_section_opener "Suc (Suc k) + length name"] s0
    by (simp del: parse_columns.simps)
  also have "\<dots> = parse_columns (Suc (Suc k) + length name) ?p1" by (simp only: e0 bnd_Inr after_sep_cur)
  also have "\<dots> = parse_columns (Suc (Suc k)) ?p2"
    by (rule parse_columns_word) (use assms in \<open>auto simp: after_sep_def parser_newline_def starts_token_def\<close>)
  also have "\<dots> = bnd (end_token ?p2) (\<lambda>q. parse_columns (Suc k) (after_sep parser_state_section_closer q))"
  proof -
    have "arr_get (p_line_buf ?p2) (p_col_num ?p2) = Inr CHR '']''"
      using nth_at[of "Suc (length name)" "CHR ''['' # name" "CHR '']''" "NUL # rest"]
      by (simp add: after_sep_def after_word_def parser_newline_def buf)
    then show ?thesis
      using parse_columns_sep[of ?p2 "CHR '']''" parser_state_section_closer "Suc k"] by (simp add: after_word_def)
  qed
  also have "?p2 = section_parser name p"
    by (rule parser.equality) (simp_all add: section_parser_def after_word_def after_sep_def parser_newline_def)
  also have "bnd (end_token (section_parser name p)) (\<lambda>q. parse_columns (Suc k) (after_sep parser_state_section_closer q)) =
      bnd (on_section_defined (section_parser name p) (line_token 1 (length name))) (\<lambda>q. Inr (0, ?fin q))"
  proof (cases "on_section_defined (section_parser name p) (line_token 1 (length name))")
    case (Inr q)
    then have q: "p_line_buf q = p_line_buf p" "p_col_num q = Suc (length name)"
      by (auto simp: on_section_defined_def bnd_eq_Inr Let_def section_parser_def)
    let ?q = "after_sep parser_state_section_closer q"
    have "arr_get (p_line_buf ?q) (p_col_num ?q) = Inr NUL"
      using nth_at[of "Suc (Suc (length name))" "CHR ''['' # name @ '']''" NUL rest] by (simp add: after_sep_def q buf)
    then have "parse_columns (Suc k) ?q = Inr (0, ?fin q)"
      using parse_columns_sep[of ?q NUL parser_state_endline k] by (simp add: after_sep_def end_token_None)
    moreover have "end_token (section_parser name p) = Inr (q\<lparr>p_cur_token := None\<rparr>)"
      using Inr assms(2) by (simp add: end_token_def section_parser_def array_load_def)
    ultimately show ?thesis by (simp only: Inr bnd_Inr after_sep_cur)
  qed (use assms(2) in \<open>simp add: end_token_def section_parser_def array_load_def\<close>)
  finally show ?thesis .
qed

section \<open>Integer properties\<close>

definition int_keys :: "(string \<times> (u64 \<Rightarrow> job_params \<Rightarrow> job_params)) list" where
  "int_keys =
     [(''NSID'', \<lambda>v jp. jp\<lparr>jp_nsid := ucast v\<rparr>), (''SEED'', \<lambda>v jp. jp\<lparr>jp_seed := ucast v\<rparr>),
      (''IODEPTH'', \<lambda>v jp. jp\<lparr>jp_iodepth := ucast v\<rparr>), (''BATCH_SUBMIT'', \<lambda>v jp. jp\<lparr>jp_batch_submit := ucast v\<rparr>),
      (''BATCH_COMPLETE'', \<lambda>v jp. jp\<lparr>jp_batch_complete := ucast v\<rparr>),
      (''AMOUNT_SCALE'', \<lambda>v jp. jp\<lparr>jp_amount_scale := ucast v\<rparr>), (''PRCHK'', \<lambda>v jp. jp\<lparr>jp_prchk := ucast v\<rparr>),
      (''TIMEOUT'', \<lambda>v jp. jp\<lparr>jp_timeout := ucast v\<rparr>), (''HISTORY'', \<lambda>v jp. jp\<lparr>jp_history := ucast v\<rparr>)]"

definition int_key_ok :: "string \<times> (u64 \<Rightarrow> job_params \<Rightarrow> job_params) \<Rightarrow> bool" where
  "int_key_ok kf \<longleftrightarrow> property_word (fst kf) \<and> map toupper (fst kf) = fst kf \<and> list_all plain (fst kf) \<and>
     length (fst kf) < 64 \<and> match_first (fst kf) (property_handlers1 @ property_handlers2) = Some (int_prop (snd kf))"

lemma key_word_check:
  "property_word s \<longleftrightarrow> s \<noteq> [] \<and> length s < 128 \<and> parser_next_state parser_state_init (hd s) = Inr parser_state_prop_key \<and>
     list_all (stays parser_state_prop_key) s"
  by (simp add: word_def MAX_TOKEN_LEN_def)

lemma int_keys_match: "list_all (\<lambda>kf. match_first (fst kf) (property_handlers1 @ property_handlers2) = Some (int_prop (snd kf))) int_keys"
  by (simp add: int_keys_def match_first_def MATCH_TOKEN_def property_handlers1_def property_handlers2_def)

lemma int_keys_words:
  "list_all (\<lambda>s. property_word s \<and> map toupper s = s \<and> list_all plain s \<and> length s < 64) (map fst int_keys)"
  by code_simp

lemma int_keys_ok: "kf \<in> set int_keys \<Longrightarrow> int_key_ok kf"
  using int_keys_match int_keys_words by (auto simp: list_all_iff int_key_ok_def)

section \<open>The effect of a line\<close>

text \<open>The jobs read so far; the properties that follow are those of the last one.\<close>

definition reads :: "parser \<Rightarrow> job_params list \<Rightarrow> bool" where
  "reads p jobs \<longleftrightarrow> length (p_line_buf p) = LINE_BUF_LEN \<and> length (p_tokens p) = 4 \<and>
     p_default_job_params p = default_params \<and> gp_job_params (p_params p) = jobs \<and>
     p_job_params p = (if jobs = [] then None else Some (length jobs - 1))"

lemma reads_frame [simp]:
  "reads (after_sep st p) jobs = reads p jobs" "reads (p\<lparr>p_line_num := n\<rparr>) jobs = reads p jobs"
  by (simp_all add: reads_def after_sep_def)

lemma line_token_slice:
  assumes "p_line_buf p = xs @ w @ ys" and "i = length xs" and "length w < MAX_TOKEN_LEN"
  shows "token_text p (line_token i (length w)) = Inr w"
proof -
  have "unat (of_nat (length w) :: u16) = length w" using assms(3) by (simp add: unat_of_nat take_bit_eq_mod MAX_TOKEN_LEN_def)
  then show ?thesis using assms by (simp add: token_text_def line_token_def buffer_of_def)
qed

lemma parse_line_section_reads:
  assumes "name_word name" and "length name < 64" and "reads p jobs"
    and "p_line_buf p = CHR ''['' # name @ CHR '']'' # NUL # rest"
  shows "\<exists>q. parse_line p = Inr (0, q) \<and> reads q (jobs @ [default_params\<lparr>jp_name := name\<rparr>])"
proof -
  have len: "length name < MAX_TOKEN_LEN" using assms(1) by (simp only: word_def)
  have buf: "p_line_buf (section_parser name p) = ''['' @ name @ CHR '']'' # NUL # rest"
    by (simp add: section_parser_def assms(4))
  have "token_text (section_parser name p) (line_token 1 (length name)) = Inr name"
    by (rule line_token_slice[OF buf _ len]) simp
  then obtain q where q: "on_section_defined (section_parser name p) (line_token 1 (length name)) = Inr q"
      "reads q (jobs @ [default_params\<lparr>jp_name := name\<rparr>])"
    using assms(2,3) by (auto simp: on_section_defined_def copy_text_def Let_def reads_def section_parser_def)
  have "parse_line p = Inr (0, after_sep parser_state_endline (after_sep parser_state_section_closer q))"
    using parse_line_section[OF assms(1) _ _ assms(4)] assms(3) q(1) by (simp add: reads_def)
  then show ?thesis using q(2) by auto
qed

lemma token_strupr_same:
  assumes "token_text p t = Inr s" and "map toupper s = s" and "t_buf t = Line_buf"
  shows "token_strupr p t = Inr p"
proof -
  have s: "t_off t + unat (t_len t) \<le> length (p_line_buf p)" "s = take (unat (t_len t)) (drop (t_off t) (p_line_buf p))"
    using assms(1,3) by (auto simp: token_text_def buffer_of_def bnd_eq_Inr mem_read_eq_Inr)
  then have "length s = unat (t_len t)" by simp
  moreover have "s @ drop (t_off t + unat (t_len t)) (p_line_buf p) = drop (t_off t) (p_line_buf p)"
    unfolding s(2) by (metis add.commute append_take_drop_id drop_drop)
  ultimately have "mem_write (p_line_buf p) (t_off t) s = Inr (p_line_buf p)" using s(1) by (simp add: mem_write_def)
  then show ?thesis using assms by (simp add: token_strupr_def buffer_of_def)
qed

lemma int_property_defined:
  assumes "(key, f) \<in> set int_keys" and "value_word val" and "list_all isdigit val"
    and "p_line_buf p = key @ CHR ''='' # val @ NUL # rest" and "length (p_tokens p) = 4"
  shows "on_property_defined (property_parser key val p) 0 =
    upd_job_params (f (of_nat (decimal_value val))) (property_parser key val p)"
proof -
  let ?p = "property_parser key val p"
  have k: "property_word key" "map toupper key = key"
      "match_first key (property_handlers1 @ property_handlers2) = Some (int_prop f)"
    using int_keys_ok[OF assms(1)] by (auto simp: int_key_ok_def)
  have len: "length key < MAX_TOKEN_LEN" "length val < MAX_TOKEN_LEN" using k(1) assms(2) by (simp_all only: word_def)
  have buf: "p_line_buf ?p = [] @ key @ CHR ''='' # val @ NUL # rest" "p_line_buf ?p = (key @ ''='') @ val @ NUL # rest"
    by (simp_all add: property_parser_def assms(4))
  have tk: "token_text ?p (line_token 0 (length key)) = Inr key" by (rule line_token_slice[OF buf(1) _ len(1)]) simp
  have "token_text ?p (line_token (Suc (length key)) (length val)) = Inr val"
    by (rule line_token_slice[OF buf(2) _ len(2)]) simp
  then have "int_prop f ?p (line_token (Suc (length key)) (length val)) = upd_job_params (f (of_nat (decimal_value val))) ?p"
    using assms(3) by (simp add: int_prop_def to_integer_def integer_loop_eq push_digits)
  moreover have "token_strupr ?p (line_token 0 (length key)) = Inr ?p"
    by (rule token_strupr_same[OF tk k(2)]) (simp add: line_token_def)
  moreover have "array_load (p_tokens ?p) 0 = Inr (line_token 0 (length key))"
      "array_load (p_tokens ?p) (Suc 0) = Inr (line_token (Suc (length key)) (length val))"
    using assms(5) by (simp_all add: property_parser_def array_load_def)
  ultimately show ?thesis using tk k(3) by (simp add: on_property_defined_def)
qed

lemma parse_line_property_reads:
  assumes "(key, f) \<in> set int_keys" and "value_word val" and "list_all isdigit val" and "reads p (jobs @ [jp])"
    and "p_line_buf p = key @ CHR ''='' # val @ NUL # rest"
  shows "\<exists>q. parse_line p = Inr (0, q) \<and> reads q (jobs @ [f (of_nat (decimal_value val)) jp])"
proof -
  let ?p = "property_parser key val p"
  have r: "length (p_tokens p) = 4" "length (p_line_buf p) = LINE_BUF_LEN" using assms(4) by (simp_all add: reads_def)
  have "\<exists>q. upd_job_params (f (of_nat (decimal_value val))) ?p = Inr q \<and> reads q (jobs @ [f (of_nat (decimal_value val)) jp])"
    using assms(4) by (auto simp: upd_job_params_def job_params_of_def property_parser_def reads_def)
  moreover have "property_word key" using int_keys_ok[OF assms(1)] by (simp add: int_key_ok_def)
  ultimately show ?thesis
    using parse_line_property[OF _ assms(2) r assms(5)] int_property_defined[OF assms(1-3,5) r(1)] by auto
qed

section \<open>Digits and names\<close>

lemma digit_facts:
  assumes "isdigit c"
  shows "stays parser_state_prop_value c" "parser_next_state parser_state_prop_equal c = Inr parser_state_prop_value" "plain c"
  using assms by (auto simp: isdigit_def stays_def parser_next_state_def isspace_def plain_def char_num_def)

lemma decimal_text_length: "n < 10 ^ k \<Longrightarrow> 0 < k \<Longrightarrow> length (decimal_text n) \<le> k"
proof (induction k arbitrary: n)
  case (Suc k)
  show ?case
  proof (cases "n < 10")
    case False
    then have "k \<noteq> 0" using Suc.prems(1) by (cases k) auto
    moreover have "n div 10 < 10 ^ k" using Suc.prems(1) by (simp add: less_mult_imp_div_less mult.commute)
    ultimately show ?thesis using Suc.IH[of "n div 10"] False by (simp add: decimal_text.simps[of n])
  qed (simp add: decimal_text.simps[of n])
qed simp

lemma decimal_text_word:
  assumes "n < 2 ^ 64"
  shows "value_word (decimal_text n)" "list_all plain (decimal_text n)" "length (decimal_text n) \<le> 20"
proof -
  show len: "length (decimal_text n) \<le> 20" by (rule decimal_text_length) (use assms in simp_all)
  have d: "decimal_text n \<noteq> []" "list_all isdigit (decimal_text n)" using decimal_text_digits[of n] by auto
  then show "list_all plain (decimal_text n)" by (auto simp: list_all_iff digit_facts)
  have "isdigit (hd (decimal_text n))" using d by (auto simp: list_all_iff)
  then show "value_word (decimal_text n)" using d len by (auto simp: word_def MAX_TOKEN_LEN_def list_all_iff digit_facts)
qed

definition name_char :: "char \<Rightarrow> bool" where
  "name_char c \<longleftrightarrow> isdigit c \<or> c = CHR ''_'' \<or> 65 \<le> char_num c \<and> char_num c \<le> 90 \<or> 97 \<le> char_num c \<and> char_num c \<le> 122"

lemma name_char_facts:
  assumes "name_char c"
  shows "stays parser_state_section_name c" "parser_next_state parser_state_section_opener c = Inr parser_state_section_name" "plain c"
  using assms by (auto simp: name_char_def isdigit_def stays_def parser_next_state_def isspace_def plain_def char_num_def)

lemma name_text_word:
  assumes "list_all name_char name" and "name \<noteq> []" and "length name < 64"
  shows "name_word name" "list_all plain name"
  using assms by (auto simp: word_def MAX_TOKEN_LEN_def list_all_iff name_char_facts)

section \<open>Whole files\<close>

abbreviation NL :: char where
  "NL \<equiv> CHR 0x0A"

lemma parse_lines_line:
  assumes "list_all plain s" and "s \<noteq> []" and "length s < LINE_BUF_LEN" and "length (p_line_buf p) = LINE_BUF_LEN"
    and "parse_line (p\<lparr>p_line_buf := s @ NUL # drop (Suc (length s)) (p_line_buf p)\<rparr>) = Inr (r, q)"
  shows "parse_lines p (s @ NL # cs) = parse_lines (q\<lparr>p_line_num := Suc (p_line_num q)\<rparr>) cs"
  using read_line_whole[OF assms(1,3,4), of cs] assms(2,5) by (simp add: parse_lines.simps[of p "s @ NL # cs"])

lemma parse_lines_end: "length (p_line_buf p) = LINE_BUF_LEN \<Longrightarrow> parse_lines p [] = Inr (0, p)"
  by (simp add: parse_lines.simps[of p "[]"])

lemma reads_line:
  assumes "reads p jobs" and "length s < LINE_BUF_LEN"
  shows "reads (p\<lparr>p_line_buf := s @ NUL # drop (Suc (length s)) (p_line_buf p)\<rparr>) jobs"
  using assms by (simp add: reads_def)

text \<open>A parameter file: the sections with their names, and integer properties in each of them.\<close>

type_synonym config = "(string \<times> (string \<times> nat) list) list"

definition property_text :: "string \<times> nat \<Rightarrow> string" where
  "property_text kn = fst kn @ CHR ''='' # decimal_text (snd kn) @ [NL]"

definition section_text :: "string \<times> (string \<times> nat) list \<Rightarrow> string" where
  "section_text sec = CHR ''['' # fst sec @ CHR '']'' # NL # concat (map property_text (snd sec))"

definition config_text :: "config \<Rightarrow> string" where
  "config_text cfg = concat (map section_text cfg)"

definition set_property :: "string \<times> nat \<Rightarrow> job_params \<Rightarrow> job_params" where
  "set_property kn = the (map_of int_keys (fst kn)) (of_nat (snd kn))"

definition section_job :: "string \<times> (string \<times> nat) list \<Rightarrow> job_params" where
  "section_job sec = fold set_property (snd sec) (default_params\<lparr>jp_name := fst sec\<rparr>)"

definition property_ok :: "string \<times> nat \<Rightarrow> bool" where
  "property_ok kn \<longleftrightarrow> fst kn \<in> set (map fst int_keys) \<and> snd kn < 2 ^ 64"

definition section_ok :: "string \<times> (string \<times> nat) list \<Rightarrow> bool" where
  "section_ok sec \<longleftrightarrow> fst sec \<noteq> [] \<and> length (fst sec) < 64 \<and> list_all name_char (fst sec) \<and> list_all property_ok (snd sec)"

lemma plain_seps: "plain CHR ''=''" "plain CHR ''[''" "plain CHR '']''"
  by (simp_all add: plain_def)

lemma parse_property_text:
  assumes "property_ok kn" and "reads p (jobs @ [jp])"
  shows "\<exists>q. parse_lines p (property_text kn @ cs) = parse_lines q cs \<and> reads q (jobs @ [set_property kn jp])"
proof -
  obtain key n where kn: "kn = (key, n)" by force
  have "n < 2 ^ 64" "key \<in> set (map fst int_keys)" using assms(1) by (simp_all add: property_ok_def kn)
  note d = decimal_text_word[OF this(1)]
  obtain f where f: "map_of int_keys key = Some f" "(key, f) \<in> set int_keys"
    using \<open>key \<in> _\<close> by (metis domD dom_map_of_conv_image_fst image_set map_of_SomeD)
  have key: "list_all plain key" "length key < 64" using int_keys_ok[OF f(2)] by (simp_all add: int_key_ok_def)
  define s where "s = key @ CHR ''='' # decimal_text n"
  have s: "list_all plain s" "s \<noteq> []" "length s < LINE_BUF_LEN"
    using key d by (simp_all add: s_def plain_seps LINE_BUF_LEN_def)
  let ?p = "p\<lparr>p_line_buf := s @ NUL # drop (Suc (length s)) (p_line_buf p)\<rparr>"
  obtain q where q: "parse_line ?p = Inr (0, q)" "reads q (jobs @ [f (of_nat (decimal_value (decimal_text n))) jp])"
    using parse_line_property_reads[OF f(2) d(1) _ reads_line[OF assms(2) s(3)]] decimal_text_digits[of n] by (auto simp: s_def)
  have "property_text kn @ cs = s @ NL # cs" by (simp add: property_text_def kn s_def)
  moreover have "length (p_line_buf p) = LINE_BUF_LEN" using assms(2) by (simp add: reads_def)
  ultimately have "parse_lines p (property_text kn @ cs) = parse_lines (q\<lparr>p_line_num := Suc (p_line_num q)\<rparr>) cs"
    using parse_lines_line[OF s _ q(1)] by simp
  then show ?thesis using q(2) f(1) by (auto simp: decimal_value_text set_property_def kn intro!: exI)
qed

lemma parse_property_texts:
  assumes "list_all property_ok props" and "reads p (jobs @ [jp])"
  shows "\<exists>q. parse_lines p (concat (map property_text props) @ cs) = parse_lines q cs \<and> reads q (jobs @ [fold set_property props jp])"
  using assms
proof (induction props arbitrary: p jp)
  case (Cons kn props)
  obtain q where q: "parse_lines p (property_text kn @ concat (map property_text props) @ cs) =
      parse_lines q (concat (map property_text props) @ cs)" "reads q (jobs @ [set_property kn jp])"
    using parse_property_text[of kn p jobs jp "concat (map property_text props) @ cs"] Cons.prems by auto
  from Cons.IH[OF _ q(2)] Cons.prems(1) q(1) show ?case by auto
qed auto

lemma parse_section_text:
  assumes "section_ok sec" and "reads p jobs"
  shows "\<exists>q. parse_lines p (section_text sec @ cs) = parse_lines q cs \<and> reads q (jobs @ [section_job sec])"
proof -
  obtain name props where sec: "sec = (name, props)" by force
  have name: "list_all name_char name" "name \<noteq> []" "length name < 64" "list_all property_ok props"
    using assms(1) by (simp_all add: section_ok_def sec)
  note w = name_text_word[OF name(1-3)]
  define s where "s = CHR ''['' # name @ '']''"
  have s: "list_all plain s" "s \<noteq> []" "length s < LINE_BUF_LEN"
    using w name by (simp_all add: s_def plain_seps LINE_BUF_LEN_def)
  let ?p = "p\<lparr>p_line_buf := s @ NUL # drop (Suc (length s)) (p_line_buf p)\<rparr>"
  let ?cs = "concat (map property_text props) @ cs"
  obtain q where q: "parse_line ?p = Inr (0, q)" "reads q (jobs @ [default_params\<lparr>jp_name := name\<rparr>])"
    using parse_line_section_reads[OF w(1) name(3) reads_line[OF assms(2) s(3)]] by (auto simp: s_def)
  have "length (p_line_buf p) = LINE_BUF_LEN" using assms(2) by (simp add: reads_def)
  then have "parse_lines p (section_text sec @ cs) = parse_lines (q\<lparr>p_line_num := Suc (p_line_num q)\<rparr>) ?cs"
    using parse_lines_line[OF s _ q(1), of ?cs] by (simp add: section_text_def sec s_def)
  moreover have "reads (q\<lparr>p_line_num := Suc (p_line_num q)\<rparr>) (jobs @ [default_params\<lparr>jp_name := name\<rparr>])" using q(2) by simp
  ultimately show ?thesis using parse_property_texts[OF name(4), of "q\<lparr>p_line_num := Suc (p_line_num q)\<rparr>"] by (auto simp: section_job_def sec)
qed

lemma parse_config_text:
  assumes "list_all section_ok cfg" and "reads p jobs"
  shows "\<exists>q. parse_lines p (config_text cfg) = Inr (0, q) \<and> reads q (jobs @ map section_job cfg)"
  using assms
proof (induction cfg arbitrary: p jobs)
  case Nil
  then show ?case by (auto simp: config_text_def parse_lines_end reads_def)
next
  case (Cons sec cfg)
  obtain q where q: "parse_lines p (section_text sec @ config_text cfg) = parse_lines q (config_text cfg)"
      "reads q (jobs @ [section_job sec])"
    using parse_section_text[of sec p jobs "config_text cfg"] Cons.prems by auto
  from Cons.IH[OF _ q(2)] Cons.prems(1) q(1) show ?case by (auto simp: config_text_def)
qed

text \<open>C37: The parser reads back every parameter file of named sections with integer properties: it
  succeeds and returns one job per section, in order, with the default parameters, the name of the
  section and the given values.\<close>

theorem parse_config_roundtrip:
  assumes "list_all section_ok cfg" and "cfg \<noteq> []" and "length junk = LINE_BUF_LEN"
  shows "\<exists>parser. parse_param (Some (config_text cfg)) (init_parser junk env a b) = Inr (0, parser) \<and>
    gp_job_params (p_params parser) = map section_job cfg"
proof -
  have "reads (init_parser junk env a b) []" using assms(3) by (simp add: reads_def init_parser_def global_params_zero_def)
  then obtain q where q: "parse_lines (init_parser junk env a b) (config_text cfg) = Inr (0, q)" "reads q (map section_job cfg)"
    using parse_config_text[OF assms(1)] by force
  then have jobs: "gp_job_params (p_params q) = map section_job cfg" "add_default_job q = q"
    using assms(2) by (simp_all add: reads_def add_default_job_def)
  show ?thesis using q(1) jobs by (simp add: parse_param_def)
qed

theorem parse_config_roundtrip_witness:
  "\<exists>parser. parse_param (Some (config_text [(''job1'', [(''IODEPTH'', 32)]), (''job2'', [])]))
      (init_parser (replicate 256 CHR ''x'') [] 0 0) = Inr (0, parser) \<and>
    gp_job_params (p_params parser) = map section_job [(''job1'', [(''IODEPTH'', 32)]), (''job2'', [])]"
proof (rule parse_config_roundtrip)
  show "list_all section_ok [(''job1'', [(''IODEPTH'', 32)]), (''job2'', [])]"
    by (simp add: section_ok_def property_ok_def int_keys_def name_char_def isdigit_def char_num_def)
qed (simp_all add: LINE_BUF_LEN_def)

section \<open>Errors\<close>

text \<open>C39: A last line that has no line feed is not terminated: behind its characters the buffer still
  holds what an earlier line has left there. So the seed of the second line below is read as
  1H=128 and the file is rejected, while it is accepted with a line feed at its end.\<close>

theorem last_line_not_terminated:
  assumes "list_all plain s" and "length s < LINE_BUF_LEN" and "length buf = LINE_BUF_LEN"
  shows "read_line LINE_BUF_LEN 0 buf s = Inr (int (length s), s @ drop (length s) buf, [], True) \<and>
    parse_param (Some (''IODEPTH=128'' @ NL # ''SEED=1'')) (line_parser []) = Inl (Exit (- 1)) \<and>
    (\<exists>parser. parse_param (Some (''IODEPTH=128'' @ NL # ''SEED=1'' @ [NL])) (line_parser []) = Inr (0, parser))"
proof (intro conjI)
  show "parse_param (Some (''IODEPTH=128'' @ NL # ''SEED=1'')) (line_parser []) = Inl (Exit (- 1))" by code_simp
  have "case parse_param (Some (''IODEPTH=128'' @ NL # ''SEED=1'' @ [NL])) (line_parser []) of Inl e \<Rightarrow> False | Inr (r, p) \<Rightarrow> r = 0"
    by code_simp
  then show "\<exists>parser. parse_param (Some (''IODEPTH=128'' @ NL # ''SEED=1'' @ [NL])) (line_parser []) = Inr (0, parser)"
    by (auto split: sum.splits)
qed (rule read_line_last[OF assms])

theorem last_line_not_terminated_witness:
  "read_line LINE_BUF_LEN 0 (replicate 256 CHR ''x'') ''SEED=1'' = Inr (6, ''SEED=1'' @ replicate 250 CHR ''x'', [], True)"
proof -
  have "list_all plain ''SEED=1''" by (simp add: plain_def)
  then have "read_line LINE_BUF_LEN 0 (replicate 256 CHR ''x'') ''SEED=1'' =
      Inr (int (length ''SEED=1''), ''SEED=1'' @ drop (length ''SEED=1'') (replicate 256 CHR ''x''), [], True)"
    using last_line_not_terminated[of "''SEED=1''" "replicate 256 CHR ''x''"] by (simp add: LINE_BUF_LEN_def)
  then show ?thesis by simp
qed

text \<open>A value of 128 or more characters is reported as too long, and the property is dropped, but
  the program goes on: the remaining lines are read and the parser returns success.\<close>

theorem long_token_skipped:
  assumes "property_word key" and "value_word val" and "length val = 127" and "stays parser_state_prop_value c"
    and "list_all plain (key @ val @ c # tail)" and "length key + length tail < 127"
    and "length (p_tokens p) = 4" and "length (p_line_buf p) = LINE_BUF_LEN"
  shows "\<exists>q. parse_lines p (key @ CHR ''='' # val @ c # tail @ NL # cs) = parse_lines q cs \<and>
    p_params q = p_params p \<and> p_default_job_params q = p_default_job_params p \<and> p_job_params q = p_job_params p"
proof -
  define s where "s = key @ CHR ''='' # val @ c # tail"
  have s: "list_all plain s" "s \<noteq> []" "length s < LINE_BUF_LEN"
    using assms(3,5,6) by (simp_all add: s_def plain_seps LINE_BUF_LEN_def)
  let ?p = "p\<lparr>p_line_buf := s @ NUL # drop (Suc (length s)) (p_line_buf p)\<rparr>"
  let ?q = "property_parser key val ?p"
  let ?r = "?q\<lparr>p_tokens := (p_tokens ?q)[1 := Some (longer 1 (line_token (Suc (length key)) 127))]\<rparr>"
  define k where "k = LINE_BUF_LEN - (length key + 129)"
  have fuel: "LINE_BUF_LEN = Suc (Suc k + length val) + length key" using assms(3,6) by (simp add: k_def LINE_BUF_LEN_def)
  have "p_line_buf ?p = key @ CHR ''='' # val @ c # tail @ NUL # drop (Suc (length s)) (p_line_buf p)" by (simp add: s_def)
  from parse_line_to_value[OF assms(1,2) _ fuel this] assms(7) have "parse_line ?p = parse_columns (Suc k) ?q" by simp
  moreover have "arr_get (p_line_buf ?q) (p_col_num ?q) = Inr c"
    using nth_at[of "Suc (length key + length val)" "key @ CHR ''='' # val" c] by (simp add: property_parser_def s_def)
  moreover have "parse_char ?q c = Inr (- 2, ?r)"
    using parse_char_stays[of ?q c 1 "line_token (Suc (length key)) 127"] assms(3,4,7)
    by (simp add: property_parser_def line_token_def MAX_TOKEN_LEN_def)
  ultimately have "parse_line ?p = Inr (- 1, ?r)" using assms(4) by (simp add: stays_def syntax_error_def)
  then have "parse_lines p (s @ NL # cs) = parse_lines (?r\<lparr>p_line_num := Suc (p_line_num ?r)\<rparr>) cs"
    by (rule parse_lines_line[OF s assms(8)])
  then show ?thesis by (auto simp: s_def property_parser_def intro!: exI)
qed

theorem long_token_skipped_witness:
  "\<exists>q. parse_lines (line_parser []) (''SEED='' @ replicate 128 CHR ''1'' @ [NL]) = parse_lines q [] \<and>
    p_params q = p_params (line_parser []) \<and> p_default_job_params q = p_default_job_params (line_parser []) \<and>
    p_job_params q = p_job_params (line_parser [])"
proof -
  have one: "isdigit CHR ''1''" by (simp add: isdigit_def char_num_def)
  have "\<exists>q. parse_lines (line_parser []) (''SEED'' @ CHR ''='' # replicate 127 CHR ''1'' @ CHR ''1'' # [] @ NL # []) = parse_lines q [] \<and>
    p_params q = p_params (line_parser []) \<and> p_default_job_params q = p_default_job_params (line_parser []) \<and>
    p_job_params q = p_job_params (line_parser [])"
  proof (rule long_token_skipped)
    show "property_word ''SEED''" by code_simp
    show "value_word (replicate 127 CHR ''1'')" by (simp add: word_def digit_facts[OF one] MAX_TOKEN_LEN_def list_all_iff)
    show "stays parser_state_prop_value CHR ''1''" by (rule digit_facts[OF one])
    show "list_all plain (''SEED'' @ replicate 127 CHR ''1'' @ ''1'')" by (simp add: list_all_iff plain_def)
  qed (simp_all add: line_parser_def init_parser_def LINE_BUF_LEN_def)
  moreover have "replicate 128 CHR ''1'' = replicate 127 CHR ''1'' @ ''1''"
    using replicate_append_same[of 127 "CHR ''1''"] by (simp add: numeral_eq_Suc)
  ultimately show ?thesis by simp
qed

end
