(* ===== verification/Crc_T10dif.thy ===== *)
theory Crc_T10dif
  imports Prelude
begin

text \<open>
  The T10 data integrity CRC (\<open>nbio/crc_t10dif.c\<close>): the table, the table-driven routine, and the
  proof that it computes the remainder of the message modulo the generator polynomial
  \<open>0x8bb7\<close>, one bit at a time.
\<close>

section \<open>The code\<close>

definition t10_dif_crc_table :: "u16 list" where
  "t10_dif_crc_table =
     [0x0000, 0x8BB7, 0x9CD9, 0x176E, 0xB205, 0x39B2, 0x2EDC, 0xA56B,
      0xEFBD, 0x640A, 0x7364, 0xF8D3, 0x5DB8, 0xD60F, 0xC161, 0x4AD6,
      0x54CD, 0xDF7A, 0xC814, 0x43A3, 0xE6C8, 0x6D7F, 0x7A11, 0xF1A6,
      0xBB70, 0x30C7, 0x27A9, 0xAC1E, 0x0975, 0x82C2, 0x95AC, 0x1E1B,
      0xA99A, 0x222D, 0x3543, 0xBEF4, 0x1B9F, 0x9028, 0x8746, 0x0CF1,
      0x4627, 0xCD90, 0xDAFE, 0x5149, 0xF422, 0x7F95, 0x68FB, 0xE34C,
      0xFD57, 0x76E0, 0x618E, 0xEA39, 0x4F52, 0xC4E5, 0xD38B, 0x583C,
      0x12EA, 0x995D, 0x8E33, 0x0584, 0xA0EF, 0x2B58, 0x3C36, 0xB781,
      0xD883, 0x5334, 0x445A, 0xCFED, 0x6A86, 0xE131, 0xF65F, 0x7DE8,
      0x373E, 0xBC89, 0xABE7, 0x2050, 0x853B, 0x0E8C, 0x19E2, 0x9255,
      0x8C4E, 0x07F9, 0x1097, 0x9B20, 0x3E4B, 0xB5FC, 0xA292, 0x2925,
      0x63F3, 0xE844, 0xFF2A, 0x749D, 0xD1F6, 0x5A41, 0x4D2F, 0xC698,
      0x7119, 0xFAAE, 0xEDC0, 0x6677, 0xC31C, 0x48AB, 0x5FC5, 0xD472,
      0x9EA4, 0x1513, 0x027D, 0x89CA, 0x2CA1, 0xA716, 0xB078, 0x3BCF,
      0x25D4, 0xAE63, 0xB90D, 0x32BA, 0x97D1, 0x1C66, 0x0B08, 0x80BF,
      0xCA69, 0x41DE, 0x56B0, 0xDD07, 0x786C, 0xF3DB, 0xE4B5, 0x6F02,
      0x3AB1, 0xB106, 0xA668, 0x2DDF, 0x88B4, 0x0303, 0x146D, 0x9FDA,
      0xD50C, 0x5EBB, 0x49D5, 0xC262, 0x6709, 0xECBE, 0xFBD0, 0x7067,
      0x6E7C, 0xE5CB, 0xF2A5, 0x7912, 0xDC79, 0x57CE, 0x40A0, 0xCB17,
      0x81C1, 0x0A76, 0x1D18, 0x96AF, 0x33C4, 0xB873, 0xAF1D, 0x24AA,
      0x932B, 0x189C, 0x0FF2, 0x8445, 0x212E, 0xAA99, 0xBDF7, 0x3640,
      0x7C96, 0xF721, 0xE04F, 0x6BF8, 0xCE93, 0x4524, 0x524A, 0xD9FD,
      0xC7E6, 0x4C51, 0x5B3F, 0xD088, 0x75E3, 0xFE54, 0xE93A, 0x628D,
      0x285B, 0xA3EC, 0xB482, 0x3F35, 0x9A5E, 0x11E9, 0x0687, 0x8D30,
      0xE232, 0x6985, 0x7EEB, 0xF55C, 0x5037, 0xDB80, 0xCCEE, 0x4759,
      0x0D8F, 0x8638, 0x9156, 0x1AE1, 0xBF8A, 0x343D, 0x2353, 0xA8E4,
      0xB6FF, 0x3D48, 0x2A26, 0xA191, 0x04FA, 0x8F4D, 0x9823, 0x1394,
      0x5942, 0xD2F5, 0xC59B, 0x4E2C, 0xEB47, 0x60F0, 0x779E, 0xFC29,
      0x4BA8, 0xC01F, 0xD771, 0x5CC6, 0xF9AD, 0x721A, 0x6574, 0xEEC3,
      0xA415, 0x2FA2, 0x38CC, 0xB37B, 0x1610, 0x9DA7, 0x8AC9, 0x017E,
      0x1F65, 0x94D2, 0x83BC, 0x080B, 0xAD60, 0x26D7, 0x31B9, 0xBA0E,
      0xF0D8, 0x7B6F, 0x6C01, 0xE7B6, 0x42DD, 0xC96A, 0xDE04, 0x55B3]"

definition crc_step :: "u16 \<Rightarrow> u8 \<Rightarrow> u16" where
  "crc_step crc b =
     push_bit 8 crc XOR t10_dif_crc_table ! unat ((drop_bit 8 crc XOR ucast b) AND 0xff)"

definition crc_t10dif_generic :: "u16 \<Rightarrow> bytes \<Rightarrow> u16" where
  "crc_t10dif_generic crc buffer = foldl crc_step crc buffer"

section \<open>Bit-serial division\<close>

definition crc_bit :: "u16 \<Rightarrow> u16" where
  "crc_bit c = (if bit c 15 then push_bit 1 c XOR 0x8BB7 else push_bit 1 c)"

definition crc_bits :: "nat \<Rightarrow> u16 \<Rightarrow> u16" where
  "crc_bits n c = (crc_bit ^^ n) c"

definition crc_ref_step :: "u16 \<Rightarrow> u8 \<Rightarrow> u16" where
  "crc_ref_step c b = crc_bits 8 (c XOR push_bit 8 (ucast b))"

definition crc_ref :: "u16 \<Rightarrow> bytes \<Rightarrow> u16" where
  "crc_ref c bs = foldl crc_ref_step c bs"

lemma crc_bit_xor: "crc_bit (a XOR b) = crc_bit a XOR crc_bit b"
  by (auto simp: crc_bit_def bit_xor_iff push_bit_xor xor.assoc xor.commute xor.left_commute)

lemma crc_bits_xor: "crc_bits n (a XOR b) = crc_bits n a XOR crc_bits n b"
  by (induction n) (simp_all add: crc_bits_def crc_bit_xor)

lemma crc_bits_low:
  assumes "\<And>k. 16 - n \<le> k \<Longrightarrow> \<not> bit c k"
  shows "crc_bits n c = push_bit n c"
  using assms
proof (induction n)
  case 0
  then show ?case by (simp add: crc_bits_def)
next
  case (Suc n)
  then have IH: "crc_bits n c = push_bit n c" by simp
  have "\<not> bit (push_bit n c) 15"
    using Suc.prems[of "15 - n"] by (cases "n \<le> 15") (auto simp: bit_push_bit_iff)
  then have "crc_bits (Suc n) c = push_bit 1 (push_bit n c)"
    using IH by (simp add: crc_bits_def crc_bit_def)
  then show ?case by (simp add: push_bit_push_bit)
qed

text \<open>
  The table entries by doubling: entry \<open>2 i\<close> is one division step on entry \<open>i\<close>, and entry
  \<open>2 i + 1\<close> differs from it by the generator.
\<close>

fun double :: "u16 list \<Rightarrow> u16 list" where
  "double [] = []"
| "double (x # xs) = crc_bit x # (crc_bit x XOR 0x8BB7) # double xs"

lemma length_double [simp]: "length (double xs) = 2 * length xs"
  by (induction xs) auto

lemma nth_double:
  "j < length xs \<Longrightarrow> double xs ! (2 * j) = crc_bit (xs ! j)
    \<and> double xs ! (2 * j + 1) = crc_bit (xs ! j) XOR 0x8BB7"
proof (induction xs arbitrary: j)
  case (Cons x xs)
  then show ?case by (cases j) auto
qed simp

lemma table_doubled:
  "t10_dif_crc_table = double (double (double (double (double (double (double (double [0])))))))"
  by (simp add: t10_dif_crc_table_def crc_bit_def)

definition entry :: "nat \<Rightarrow> u16" where
  "entry i = crc_bits 8 (push_bit 8 (of_nat i))"

lemma crc_bits_8:
  "crc_bits 8 c = crc_bit (crc_bit (crc_bit (crc_bit (crc_bit (crc_bit (crc_bit (crc_bit c)))))))"
  by (simp add: crc_bits_def eval_nat_numeral)

lemma crc_bits_commute: "crc_bits n (crc_bit c) = crc_bit (crc_bits n c)"
  by (simp add: crc_bits_def funpow_swap1)

lemma entry_even:
  assumes "i < 128"
  shows "entry (2 * i) = crc_bit (entry i)"
proof -
  have "unat (of_nat i :: u16) < 2 ^ 7" using assms by (simp add: unat_of_nat)
  then have "\<not> bit (of_nat i :: u16) 7"
    using assms by (simp add: bit_iff_odd_drop_bit drop_bit_eq_div word_arith_nat_div)
  then have "crc_bit (push_bit 8 (of_nat i)) = push_bit 1 (push_bit 8 (of_nat i))"
    by (simp add: crc_bit_def bit_push_bit_iff)
  also have "\<dots> = push_bit 8 (of_nat (2 * i))"
    by (simp add: push_bit_eq_mult)
  finally show ?thesis by (simp add: entry_def crc_bits_commute[symmetric])
qed

lemma entry_odd: "entry (2 * i + 1) = entry (2 * i) XOR 0x8BB7"
proof -
  have "(of_nat (2 * i + 1) :: u16) = of_nat (2 * i) XOR 1"
    by (simp add: xor_one_eq)
  moreover have "crc_bits 8 (push_bit 8 1) = 0x8BB7"
    by (simp add: crc_bits_8 crc_bit_def)
  ultimately show ?thesis by (simp add: entry_def push_bit_xor crc_bits_xor)
qed

lemma doubled_entries:
  assumes "k \<le> 8" and "i < 2 ^ k"
  shows "(double ^^ k) [0] ! i = entry i"
  using assms
proof (induction k arbitrary: i)
  case 0
  then show ?case by (simp add: entry_def crc_bits_8 crc_bit_def)
next
  case (Suc k)
  have len: "length ((double ^^ n) [0]) = 2 ^ n" for n by (induction n) auto
  define j where "j = i div 2"
  have j: "j < 2 ^ k" using Suc.prems by (simp add: j_def)
  have "(2::nat) ^ k \<le> 2 ^ 7" using Suc.prems(1) by (intro power_increasing) auto
  then have small: "j < 128" using j by simp
  note IH = Suc.IH[OF _ j]
  consider "i = 2 * j" | "i = 2 * j + 1" unfolding j_def by linarith
  then show ?case
    using nth_double[of j "(double ^^ k) [0]"] IH Suc.prems(1) j entry_even[OF small]
      entry_odd[of j] by cases (simp_all add: len)
qed

lemma table_entry: "i < 256 \<Longrightarrow> t10_dif_crc_table ! i = crc_bits 8 (push_bit 8 (of_nat i))"
  using doubled_entries[of 8 i] table_doubled by (simp add: entry_def eval_nat_numeral)

section \<open>Equivalence\<close>

lemma crc_step_ref: "crc_step c b = crc_ref_step c b"
proof -
  define t where "t = (drop_bit 8 c XOR ucast b) AND (0xff :: u16)"
  have t: "unat t < 256"
    using word_and_le1[of "drop_bit 8 c XOR ucast b" "0xff :: u16"]
    by (simp add: t_def word_le_nat_alt)
  have ff: "(0xff :: u16) = mask 8" by (simp add: mask_eq_exp_minus_1)
  have e: "c XOR push_bit 8 (ucast b) = (c AND 0xff) XOR push_bit 8 t"
    unfolding t_def ff by (rule bit_word_eqI) (auto simp: bit_simps)
  have "crc_bits 8 (c AND 0xff) = push_bit 8 (c AND 0xff)"
    unfolding ff by (rule crc_bits_low) (auto simp: bit_simps)
  also have "\<dots> = push_bit 8 c"
    unfolding ff by (rule bit_word_eqI) (auto simp: bit_simps)
  finally have "crc_ref_step c b = push_bit 8 c XOR crc_bits 8 (push_bit 8 t)"
    by (simp add: crc_ref_step_def e crc_bits_xor)
  moreover have "crc_step c b = push_bit 8 c XOR t10_dif_crc_table ! unat t"
    by (simp add: crc_step_def t_def)
  ultimately show ?thesis using table_entry[OF t] by simp
qed

lemma crc_t10dif_append:
  "crc_t10dif_generic (crc_t10dif_generic crc xs) ys = crc_t10dif_generic crc (xs @ ys)"
  by (simp add: crc_t10dif_generic_def)

text \<open>C32: The table-driven CRC computes the bit-serial division by the T10 generator polynomial
  for every seed and every buffer.\<close>

theorem crc_t10dif_equiv: "crc_t10dif_generic crc buffer = crc_ref crc buffer"
proof -
  have "crc_step = crc_ref_step" by (intro ext crc_step_ref)
  then show ?thesis by (simp add: crc_t10dif_generic_def crc_ref_def)
qed

end
