(* ===== verification/Rng.thy ===== *)
theory Rng
  imports Prelude
begin

text \<open>
  The random number source (\<open>nbio/rng.h\<close>, \<open>rng.c\<close>; the SSE variant is compiled out by the
  \<open>#undef __SSE__\<close> at the head of \<open>rng.h\<close>) and the hash of \<open>nbio/hash.h\<close>. \<open>nrand48\<close> is the
  48-bit linear congruential generator POSIX specifies: multiplier \<open>0x5DEECE66D\<close>, increment
  \<open>0xB\<close>, result the high 31 bits. The real-valued generators (zipf, pareto) work in floating
  point and are not modelled.
\<close>

record rng =
  seed0 :: u16
  seed1 :: u16
  seed2 :: u16

definition rng_word :: "rng \<Rightarrow> 48 word" where
  "rng_word r = ucast (seed0 r) OR push_bit 16 (ucast (seed1 r)) OR push_bit 32 (ucast (seed2 r))"

definition rng_of_word :: "48 word \<Rightarrow> rng" where
  "rng_of_word x = \<lparr>seed0 = ucast x, seed1 = ucast (drop_bit 16 x), seed2 = ucast (drop_bit 32 x)\<rparr>"

lemma rng_word_of_word [simp]: "rng_word (rng_of_word x) = x"
proof (rule bit_word_eqI)
  fix n assume "n < LENGTH(48)"
  then show "bit (rng_word (rng_of_word x)) n = bit x n"
    by (cases "n < 16"; cases "n < 32") (auto simp: rng_word_def rng_of_word_def bit_simps)
qed

definition nrand48 :: "rng \<Rightarrow> u32 \<times> rng" where
  "nrand48 r = (let x = 0x5DEECE66D * rng_word r + 0xB in (ucast (drop_bit 17 x), rng_of_word x))"

definition rand64 :: "rng \<Rightarrow> u64 \<times> rng" where
  "rand64 r = (let (lo, r) = nrand48 r; (hi, r) = nrand48 r
     in (push_bit 32 (ucast hi) OR ucast lo, r))"

definition rand48 :: "rng \<Rightarrow> u64 \<times> rng" where
  "rand48 r = (let (x, r) = nrand48 r in (ucast x, r))"

definition rng_init :: "u64 \<Rightarrow> rng" where
  "rng_init seed = \<lparr>seed0 = ucast (seed AND 0xFFFF), seed1 = ucast (drop_bit 16 seed AND 0xFFFF),
     seed2 = ucast (drop_bit 32 seed AND 0xFFFF)\<rparr>"

text \<open>A zero bound divides by zero.\<close>

definition rng_uniform_u64 :: "rng \<Rightarrow> u64 \<Rightarrow> (u64 \<times> rng) res" where
  "rng_uniform_u64 r ubound =
     (if ubound = 0 then Inl Fault else let (x, r) = rand64 r in Inr (x mod ubound, r))"

definition rng_uniform_u48 :: "rng \<Rightarrow> u64 \<Rightarrow> (u64 \<times> rng) res" where
  "rng_uniform_u48 r ubound =
     (if ubound = 0 then Inl Fault else let (x, r) = rand48 r in Inr (x mod ubound, r))"

text \<open>\<open>remained\<close> counts down by 8; the last one to eight bytes come from one more number.\<close>

function rng_fill :: "rng \<Rightarrow> nat \<Rightarrow> bytes \<times> rng" where
  "rng_fill r remained =
     (if 8 < remained then
        let (x, r) = rand64 r; (rest, r) = rng_fill r (remained - 8) in (le_bytes 8 x @ rest, r)
      else if 0 < remained then
        let (tmp, r) = rand64 r in (take remained (le_bytes 8 tmp), r)
      else ([], r))"
  by pat_completeness auto
termination
  by (relation "measure (\<lambda>(r, n). n)") auto

declare rng_fill.simps [simp del]

lemma length_rng_fill [layout]: "length (fst (rng_fill r n)) = n"
proof (induction r n rule: rng_fill.induct)
  case (1 r n)
  obtain x r1 where x: "rand64 r = (x, r1)" by fastforce
  show ?case
  proof (cases "8 < n")
    case True
    obtain rest r2 where rest: "rng_fill r1 (n - 8) = (rest, r2)" by fastforce
    have "length rest = n - 8" using "1.IH"[OF True x[symmetric] refl] rest by simp
    then show ?thesis using True x rest by (simp add: rng_fill.simps[of r n])
  next
    case False
    then show ?thesis using x by (simp add: rng_fill.simps[of r n])
  qed
qed

lemma nrand48_31bit: "unat (fst (nrand48 r)) < 2 ^ 31"
proof -
  define x where "x = 0x5DEECE66D * rng_word r + 0xB"
  have "ucast (drop_bit 17 x) = (take_bit 31 (ucast (drop_bit 17 x)) :: u32)"
    by (rule bit_word_eqI) (auto simp: bit_simps dest: bit_imp_le_length)
  then have "unat (ucast (drop_bit 17 x) :: u32) = unat (take_bit 31 (ucast (drop_bit 17 x)) :: u32)"
    by simp
  also have "\<dots> < 2 ^ 31" using take_bit_nat_less_exp[of 31] by (simp add: unsigned_take_bit_eq)
  finally show ?thesis by (simp add: nrand48_def x_def Let_def)
qed

lemma rand48_31bit: "unat (fst (rand48 r)) < 2 ^ 31"
  using nrand48_31bit[of r]
  by (auto simp: rand48_def split: prod.splits) (simp add: unsigned_ucast_eq take_bit_eq_mod)

lemma rng_uniform_u48_bound:
  assumes "rng_uniform_u48 r ubound = Inr (x, r')"
  shows "x < ubound" and "unat x < 2 ^ 31"
proof -
  have nz: "ubound \<noteq> 0" and x: "x = fst (rand48 r) mod ubound"
    using assms by (auto simp: rng_uniform_u48_def split: if_splits prod.splits)
  show "x < ubound" using nz x by (simp add: word_mod_less_divisor word_gt_0)
  have "unat x \<le> unat (fst (rand48 r))" by (simp add: x unat_mod)
  then show "unat x < 2 ^ 31" using rand48_31bit[of r] by linarith
qed

definition hash64 :: "u64 \<Rightarrow> u64" where
  "hash64 val = val * 0x61C8864680B583EB"

end
