(* ===== verification/Datagen.thy ===== *)
theory Datagen
  imports Bio Crc_T10dif Rng
begin

text \<open>
  The block image generator (\<open>nbio/datagen.c\<close>): a written block is a header, a body taken from
  one of the data patterns and a copy of the header as footer; the metadata carries the
  protection information and a copy of data. The patterns live in one allocation of
  \<open>npatterns * data_size\<close> bytes, so \<open>dg_mem\<close> is that allocation and \<open>dg_patterns\<close> holds the
  offsets the pattern pointers point to. A buffer argument is the byte list from the pointer to
  the end of its allocation; an access past it is a \<open>Fault\<close>.
\<close>

definition NUM_PATTERNS :: nat where
  "NUM_PATTERNS = 8"

definition DATAGEN_RNG_SEED :: u64 where
  "DATAGEN_RNG_SEED = 0x19850830"

definition PI_SIZE :: nat where
  "PI_SIZE = 8"

record datagen =
  dg_npatterns :: nat
  dg_mem :: bytes
  dg_patterns :: "nat list"
  dg_data_size :: u32
  dg_body_size :: u32
  dg_meta_size :: u32
  dg_pi_offset :: u32
  dg_pi_type :: int
  dg_randomize_header :: bool

section \<open>Patterns\<close>

text \<open>The bytes each statement of \<open>create_body_data_pattern\<close> stores at the head of a body.\<close>

definition memset_bytes :: "u8 \<Rightarrow> u32 \<Rightarrow> bytes" where
  "memset_bytes v body_size = replicate (unat body_size) v"

definition inc_bytes :: "u32 \<Rightarrow> bytes" where
  "inc_bytes body_size = map of_nat [0..<unat body_size]"

definition inc_words :: "u32 \<Rightarrow> bytes" where
  "inc_words body_size =
     concat (map (\<lambda>o'. le_bytes 2 (of_nat o' :: u16)) [0..<unat (drop_bit 1 body_size)])"

definition dec_bytes :: "u32 \<Rightarrow> bytes" where
  "dec_bytes body_size = map (\<lambda>o'. ucast (body_size - of_nat o' - 1)) [0..<unat body_size]"

definition dec_words :: "u32 \<Rightarrow> bytes" where
  "dec_words body_size =
     concat (map (\<lambda>o'. le_bytes 2 (ucast (body_size - of_nat o' - 1) :: u16))
       [0..<unat (drop_bit 1 body_size)])"

text \<open>The stores into pattern \<open>k\<close>, the body being \<open>sizeof (struct block_header)\<close> into it.\<close>

definition store_body :: "nat \<Rightarrow> bytes \<Rightarrow> datagen \<Rightarrow> datagen res" where
  "store_body k bs dg =
     bnd (arr_get (dg_patterns dg) k) (\<lambda>p.
     bnd (mem_write (dg_mem dg) (p + sizeof_block_header) bs) (\<lambda>m.
     Inr (dg\<lparr>dg_mem := m\<rparr>)))"

definition store_random_body :: "nat \<Rightarrow> datagen \<times> rng \<Rightarrow> (datagen \<times> rng) res" where
  "store_random_body k = (\<lambda>(dg, rng).
     let (bs, rng') = rng_fill rng (unat (dg_body_size dg))
     in bnd (store_body k bs dg) (\<lambda>dg'. Inr (dg', rng')))"

definition create_body_data_pattern :: "datagen \<Rightarrow> rng \<Rightarrow> (datagen \<times> rng) res" where
  "create_body_data_pattern dg rng =
     (let n = dg_body_size dg in
      bnd (store_body 0 (memset_bytes 0x00 n) dg) (\<lambda>dg.
      bnd (store_body 1 (memset_bytes 0x55 n) dg) (\<lambda>dg.
      bnd (store_body 2 (memset_bytes 0xAA n) dg) (\<lambda>dg.
      bnd (store_body 3 (memset_bytes 0xFF n) dg) (\<lambda>dg.
      bnd (store_body 4 (inc_bytes n) dg) (\<lambda>dg.
      bnd (store_body 5 (inc_words n) dg) (\<lambda>dg.
      bnd (store_body 6 (dec_bytes n) dg) (\<lambda>dg.
      bnd (store_body 7 (dec_words n) dg) (\<lambda>dg.
      for_upto 8 (dg_npatterns dg - 8) store_random_body (dg, rng))))))))))"

text \<open>
  \<open>datagen_init\<close>: \<open>alloc1\<close> and \<open>alloc2\<close> say whether the two \<open>calloc\<close> calls succeed; \<open>None\<close> is
  the return value -1. \<open>body_size\<close> is computed in 32 bits and \<open>pattern_idx * data_size\<close> too.
\<close>

definition init_header_mask :: "u32 \<Rightarrow> bool \<Rightarrow> nat \<Rightarrow> datagen \<times> rng \<Rightarrow> (datagen \<times> rng) res" where
  "init_header_mask data_size randomize k = (\<lambda>(dg, rng).
     let p = unat (of_nat k * data_size);
         dg = dg\<lparr>dg_patterns := (dg_patterns dg)[k := p]\<rparr>
     in if randomize then
          let (msk, rng') = rng_fill rng sizeof_block_header
          in bnd (mem_write (dg_mem dg) p msk) (\<lambda>m. Inr (dg\<lparr>dg_mem := m\<rparr>, rng'))
        else Inr (dg, rng))"

definition datagen_init :: "bool \<Rightarrow> bool \<Rightarrow> datagen \<Rightarrow> u32 \<Rightarrow> bool \<Rightarrow> datagen option res" where
  "datagen_init alloc1 alloc2 dg data_size randomize_header =
     (if \<not> alloc1 \<or> \<not> alloc2 then Inr None else
      let dg = dg\<lparr>dg_npatterns := NUM_PATTERNS, dg_patterns := replicate NUM_PATTERNS 0,
                  dg_mem := replicate (NUM_PATTERNS * unat data_size) 0,
                  dg_data_size := data_size,
                  dg_body_size := data_size - of_nat (sizeof_block_header * 2),
                  dg_randomize_header := randomize_header\<rparr>
      in bnd (for_upto 0 (dg_npatterns dg) (init_header_mask data_size randomize_header)
                (dg, rng_init DATAGEN_RNG_SEED)) (\<lambda>(dg, rng).
         bnd (create_body_data_pattern dg rng) (\<lambda>(dg, rng). Inr (Some dg))))"

definition datagen_exit :: "datagen \<Rightarrow> datagen" where
  "datagen_exit dg = dg\<lparr>dg_patterns := [], dg_mem := [], dg_npatterns := 0\<rparr>"

section \<open>Headers\<close>

definition header_mask :: "datagen \<Rightarrow> nat \<Rightarrow> bytes res" where
  "header_mask dg k = bnd (arr_get (dg_patterns dg) k) (\<lambda>p. mem_read (dg_mem dg) p sizeof_block_header)"

text \<open>The pattern byte is copied, the other bytes are XORed with the mask.\<close>

definition randomize_header :: "bytes \<Rightarrow> bytes \<Rightarrow> bytes" where
  "randomize_header src msk = take 1 src @ map2 (XOR) (drop 1 src) (drop 1 msk)"

definition derandomize_header :: "bytes \<Rightarrow> bytes \<Rightarrow> bytes" where
  "derandomize_header src msk = randomize_header src msk"

text \<open>The address of the footer: \<open>data + data_size - sizeof (struct block_header)\<close>.\<close>

definition footer_offset :: "datagen \<Rightarrow> nat res" where
  "footer_offset dg =
     (if sizeof_block_header \<le> unat (dg_data_size dg)
      then Inr (unat (dg_data_size dg) - sizeof_block_header) else Inl Fault)"

text \<open>\<open>Some (lba, timestamp, pattern)\<close> is the return value 0 with the output arguments, \<open>None\<close> -1.\<close>

definition datagen_get_header :: "datagen \<Rightarrow> bytes \<Rightarrow> (u64 \<times> u64 \<times> u8) option res" where
  "datagen_get_header dg data =
     bnd (arr_get data 0) (\<lambda>pattern.
     if dg_npatterns dg \<le> unat pattern then Inr None else
     bnd (mem_read data 0 sizeof_block_header) (\<lambda>randomized.
     bnd (footer_offset dg) (\<lambda>fo.
     bnd (mem_read data fo sizeof_block_header) (\<lambda>rfooter.
     bnd (if dg_randomize_header dg
          then bnd (header_mask dg (unat pattern)) (\<lambda>msk.
            Inr (derandomize_header randomized msk, derandomize_header rfooter msk))
          else Inr (randomized, rfooter)) (\<lambda>(header, footer).
     let h = block_header_of header in
     if bh_start_marker h \<noteq> BLOCK_HEADER_START_MARKER \<or> bh_finish_marker h \<noteq> BLOCK_HEADER_FINISH_MARKER
     then Inr None
     else if header \<noteq> footer then Inr None
     else Inr (Some (bh_lba h, bh_timestamp h, bh_pattern h)))))))"

definition datagen_set_header :: "datagen \<Rightarrow> bytes \<Rightarrow> u64 \<Rightarrow> u64 \<Rightarrow> u8 \<Rightarrow> bytes res" where
  "datagen_set_header dg data lba timestamp pattern =
     (let header = block_header_bytes
        \<lparr>bh_pattern = pattern, bh_start_marker = BLOCK_HEADER_START_MARKER,
         bh_timestamp = timestamp, bh_lba = lba, bh_rsvd = 0,
         bh_finish_marker = BLOCK_HEADER_FINISH_MARKER\<rparr>
      in bnd (if dg_randomize_header dg
              then bnd (header_mask dg (unat pattern)) (\<lambda>msk. Inr (randomize_header header msk))
              else Inr header) (\<lambda>h.
         bnd (mem_write data 0 h) (\<lambda>data.
         bnd (footer_offset dg) (\<lambda>fo.
         mem_write data fo h))))"

definition pattern_body :: "datagen \<Rightarrow> nat \<Rightarrow> bytes res" where
  "pattern_body dg k =
     bnd (arr_get (dg_patterns dg) k) (\<lambda>p.
     mem_read (dg_mem dg) (p + sizeof_block_header) (unat (dg_body_size dg)))"

definition datagen_set_body :: "datagen \<Rightarrow> bytes \<Rightarrow> u8 \<Rightarrow> bytes res" where
  "datagen_set_body dg data pattern =
     bnd (pattern_body dg (unat pattern)) (\<lambda>b. mem_write data sizeof_block_header b)"

definition datagen_set_data :: "datagen \<Rightarrow> bytes \<Rightarrow> u64 \<Rightarrow> u64 \<Rightarrow> u8 \<Rightarrow> bytes res" where
  "datagen_set_data dg data lba timestamp pattern =
     bnd (datagen_set_header dg data lba timestamp pattern) (\<lambda>data. datagen_set_body dg data pattern)"

section \<open>Protection information\<close>

definition htonl :: "u32 \<Rightarrow> u32" where
  "htonl x = le_word (rev (le_bytes 4 x))"

definition htons :: "u16 \<Rightarrow> u16" where
  "htons x = le_word (rev (le_bytes 2 x))"

definition pr_info_bytes :: "pr_info \<Rightarrow> bytes" where
  "pr_info_bytes pi = le_bytes 2 (guard pi) @ le_bytes 2 (app pi) @ le_bytes 4 (ref pi)"

definition pr_info_of :: "bytes \<Rightarrow> pr_info" where
  "pr_info_of bs = \<lparr>guard = le_word (take 2 bs), app = le_word (take 2 (drop 2 bs)),
     ref = le_word (take 4 (drop 4 bs))\<rparr>"

text \<open>The structure after the call and the returned value.\<close>

definition datagen_set_pi :: "datagen \<Rightarrow> pr_info \<Rightarrow> u64 \<Rightarrow> pr_info \<times> int" where
  "datagen_set_pi dg pr_info lba =
     (if dg_pi_type dg = 1 then (pr_info\<lparr>ref := htonl (ucast lba), app := 0xFAD0\<rparr>, 0)
      else if dg_pi_type dg = 2 then (pr_info\<lparr>ref := htonl (ucast (push_bit 1 lba)), app := 0xFAD0\<rparr>, 0)
      else if dg_pi_type dg = 3 then (pr_info\<lparr>ref := ucast lba, app := ucast lba\<rparr>, 0)
      else (pr_info, - 1))"

definition datagen_set_meta :: "datagen \<Rightarrow> bytes \<Rightarrow> bytes \<Rightarrow> u64 \<Rightarrow> bytes res" where
  "datagen_set_meta dg metadata data lba =
     (let off = unat (dg_pi_offset dg); meta_size = unat (dg_meta_size dg) in
      bnd (mem_read metadata off PI_SIZE) (\<lambda>raw.
      bnd (mem_read data 0 (unat (dg_data_size dg))) (\<lambda>block.
      let pi = (fst (datagen_set_pi dg (pr_info_of raw) lba))\<lparr>guard := htons (crc_t10dif_generic 0 block)\<rparr> in
      bnd (mem_write metadata off (pr_info_bytes pi)) (\<lambda>metadata.
      if PI_SIZE < meta_size then
        if off \<noteq> 0 then
          bnd (mem_read data 0 off) (\<lambda>copy.
          bnd (mem_write metadata 0 copy) (\<lambda>metadata.
          bnd (mem_read metadata off PI_SIZE) (\<lambda>raw.
          bnd (mem_read metadata 0 off) (\<lambda>pre.
          let pi = pr_info_of raw in
          mem_write metadata off
            (pr_info_bytes (pi\<lparr>guard := htons (crc_t10dif_generic (htons (guard pi)) pre)\<rparr>))))))
        else
          bnd (mem_read data 0 (meta_size - PI_SIZE)) (\<lambda>copy. mem_write metadata PI_SIZE copy)
      else Inr metadata))))"

text \<open>\<open>memcmp\<close> up to the magnitude of its result, which no caller reads.\<close>

fun memcmp :: "bytes \<Rightarrow> bytes \<Rightarrow> int" where
  "memcmp (a # as) (b # bs) = (if a = b then memcmp as bs else if a < b then - 1 else 1)"
| "memcmp _ _ = 0"

text \<open>\<open>expect\<close> is the content of the uninitialised 64-byte stack buffer.\<close>

definition datagen_compare_meta :: "datagen \<Rightarrow> bytes \<Rightarrow> bytes \<Rightarrow> bytes \<Rightarrow> u64 \<Rightarrow> int res" where
  "datagen_compare_meta dg expect metadata data lba =
     bnd (mem_read metadata (unat (dg_pi_offset dg)) PI_SIZE) (\<lambda>raw.
     let actual = pr_info_of raw;
         compare = bnd (datagen_set_meta dg expect data lba) (\<lambda>expect.
           bnd (mem_read expect 0 (unat (dg_meta_size dg))) (\<lambda>e.
           bnd (mem_read metadata 0 (unat (dg_meta_size dg))) (\<lambda>m. Inr (memcmp e m))))
     in if dg_pi_type dg = 1 \<or> dg_pi_type dg = 2 then
          if app actual = 0xFFFF then Inr 0 else compare
        else if dg_pi_type dg = 3 then
          if app actual = 0xFFFF \<and> ref actual = 0xFFFFFFFF then Inr 0 else compare
        else Inr (- 1))"

section \<open>Well-formed generators\<close>

definition datagen_ok :: "datagen \<Rightarrow> bool" where
  "datagen_ok dg \<longleftrightarrow>
     dg_npatterns dg = length (dg_patterns dg) \<and> dg_npatterns dg \<le> 32 \<and>
     40 \<le> unat (dg_data_size dg) \<and> unat (dg_body_size dg) = unat (dg_data_size dg) - 40 \<and>
     (\<forall>p \<in> set (dg_patterns dg). p + unat (dg_data_size dg) \<le> length (dg_mem dg))"

definition mask_bytes :: "datagen \<Rightarrow> nat \<Rightarrow> bytes" where
  "mask_bytes dg k = take 20 (drop (dg_patterns dg ! k) (dg_mem dg))"

definition body_of :: "datagen \<Rightarrow> nat \<Rightarrow> bytes" where
  "body_of dg k = take (unat (dg_body_size dg)) (drop (dg_patterns dg ! k + 20) (dg_mem dg))"

lemma datagen_okD:
  assumes "datagen_ok dg" and "k < dg_npatterns dg"
  shows "k < length (dg_patterns dg)"
    and "dg_patterns dg ! k + unat (dg_data_size dg) \<le> length (dg_mem dg)"
    and "40 \<le> unat (dg_data_size dg)" and "unat (dg_body_size dg) = unat (dg_data_size dg) - 40"
  using assms by (auto simp: datagen_ok_def)

lemma header_mask_ok:
  assumes "datagen_ok dg" and "k < dg_npatterns dg"
  shows "header_mask dg k = Inr (mask_bytes dg k)" and "length (mask_bytes dg k) = 20"
  using datagen_okD[OF assms]
  by (simp_all add: header_mask_def mask_bytes_def sizeof_block_header_def)

lemma pattern_body_ok:
  assumes "datagen_ok dg" and "k < dg_npatterns dg"
  shows "pattern_body dg k = Inr (body_of dg k)"
    and "length (body_of dg k) = unat (dg_data_size dg) - 40"
  using datagen_okD[OF assms]
  by (simp_all add: pattern_body_def body_of_def sizeof_block_header_def add.commute add.left_commute)

lemma length_randomize_header [layout]:
  "length src = 20 \<Longrightarrow> length msk = 20 \<Longrightarrow> length (randomize_header src msk) = 20"
  by (simp add: randomize_header_def)

lemma randomize_header_nth0: "0 < length src \<Longrightarrow> randomize_header src msk ! 0 = src ! 0"
  by (cases src) (simp_all add: randomize_header_def)

lemma map2_xor_cancel:
  "length xs = length ys \<Longrightarrow> map2 (XOR) (map2 (XOR) xs ys) ys = (xs :: bytes)"
  by (induction xs ys rule: list_induct2) (simp_all add: xor.assoc)

text \<open>Applying a mask twice gives the header back, so derandomizing undoes randomizing.\<close>

lemma derandomize_randomize:
  assumes "length src = 20" and "length msk = 20"
  shows "derandomize_header (randomize_header src msk) msk = src"
proof -
  obtain a as b bs where "src = a # as" "msk = b # bs"
    using assms by (cases src; cases msk) auto
  then show ?thesis
    using assms by (simp add: derandomize_header_def randomize_header_def map2_xor_cancel)
qed

section \<open>Block images\<close>

definition header_rec :: "u64 \<Rightarrow> u64 \<Rightarrow> u8 \<Rightarrow> u8 \<Rightarrow> block_header" where
  "header_rec lba ts p rsvd = \<lparr>bh_pattern = p, bh_start_marker = BLOCK_HEADER_START_MARKER,
     bh_timestamp = ts, bh_lba = lba, bh_rsvd = rsvd, bh_finish_marker = BLOCK_HEADER_FINISH_MARKER\<rparr>"

definition header_image :: "datagen \<Rightarrow> u64 \<Rightarrow> u64 \<Rightarrow> u8 \<Rightarrow> u8 \<Rightarrow> bytes" where
  "header_image dg lba ts p rsvd =
     (let h = block_header_bytes (header_rec lba ts p rsvd)
      in if dg_randomize_header dg then randomize_header h (mask_bytes dg (unat p)) else h)"

definition block_image :: "datagen \<Rightarrow> u64 \<Rightarrow> u64 \<Rightarrow> u8 \<Rightarrow> bytes" where
  "block_image dg lba ts p =
     header_image dg lba ts p 0 @ body_of dg (unat p) @ header_image dg lba ts p 0"

lemma length_header_image [layout]:
  assumes "datagen_ok dg" and "unat p < dg_npatterns dg"
  shows "length (header_image dg lba ts p rsvd) = 20"
  using header_mask_ok(2)[OF assms]
  by (simp add: header_image_def Let_def length_randomize_header sizeof_block_header_def)

lemma length_block_image [layout]:
  assumes "datagen_ok dg" and "unat p < dg_npatterns dg"
  shows "length (block_image dg lba ts p) = unat (dg_data_size dg)"
  using length_header_image[OF assms] pattern_body_ok(2)[OF assms] datagen_okD(3)[OF assms]
  by (simp add: block_image_def)

lemma header_image_nth0:
  "header_image dg lba ts p rsvd ! 0 = p"
  by (simp add: header_image_def Let_def randomize_header_nth0 sizeof_block_header_def)
     (simp add: block_header_bytes_def header_rec_def)

lemma datagen_set_header_eq:
  assumes "datagen_ok dg" and "unat p < dg_npatterns dg"
    and "unat (dg_data_size dg) \<le> length data"
  shows "datagen_set_header dg data lba ts p =
    Inr (header_image dg lba ts p 0
         @ take (unat (dg_data_size dg) - 40) (drop 20 data)
         @ header_image dg lba ts p 0 @ drop (unat (dg_data_size dg)) data)"
proof -
  define h where "h = header_image dg lba ts p 0"
  have l: "length h = 20" by (simp add: h_def length_header_image[OF assms(1,2)])
  have ds: "40 \<le> unat (dg_data_size dg)" using datagen_okD(3)[OF assms(1,2)] .
  have "datagen_set_header dg data lba ts p =
      bnd (mem_write data 0 h) (\<lambda>data. bnd (footer_offset dg) (\<lambda>fo. mem_write data fo h))"
    using header_mask_ok(1)[OF assms(1,2)]
    by (simp add: datagen_set_header_def h_def header_image_def header_rec_def Let_def)
  also have "\<dots> = Inr (h @ take (unat (dg_data_size dg) - 40) (drop 20 data) @ h
      @ drop (unat (dg_data_size dg)) data)"
    using l ds assms(3) by (simp add: footer_offset_def sizeof_block_header_def)
  finally show ?thesis by (simp add: h_def)
qed

lemma datagen_set_data_eq:
  assumes "datagen_ok dg" and "unat p < dg_npatterns dg"
    and "unat (dg_data_size dg) \<le> length data"
  shows "datagen_set_data dg data lba ts p =
    Inr (block_image dg lba ts p @ drop (unat (dg_data_size dg)) data)"
proof -
  define h where "h = header_image dg lba ts p 0"
  have "length h = 20" by (simp add: h_def length_header_image[OF assms(1,2)])
  moreover have "length (body_of dg (unat p)) = length (take (unat (dg_data_size dg) - 40) (drop 20 data))"
    using pattern_body_ok(2)[OF assms(1,2)] assms(3) by simp
  ultimately have "mem_write (h @ take (unat (dg_data_size dg) - 40) (drop 20 data)
      @ h @ drop (unat (dg_data_size dg)) data) 20 (body_of dg (unat p))
      = Inr (h @ body_of dg (unat p) @ h @ drop (unat (dg_data_size dg)) data)"
    by (intro mem_write_middle) simp_all
  then show ?thesis
    using pattern_body_ok(1)[OF assms(1,2)]
    by (simp add: datagen_set_data_def datagen_set_header_eq[OF assms] datagen_set_body_def
        block_image_def sizeof_block_header_def h_def)
qed

lemma datagen_get_header_iff:
  assumes "datagen_ok dg" and "unat (dg_data_size dg) \<le> length data"
  shows "datagen_get_header dg data = Inr (Some (lba, ts, p)) \<longleftrightarrow>
    unat p < dg_npatterns dg \<and>
    (\<exists>rsvd. take 20 data = header_image dg lba ts p rsvd \<and>
       take 20 (drop (unat (dg_data_size dg) - 20) data) = header_image dg lba ts p rsvd)"
    (is "?L \<longleftrightarrow> ?R")
proof -
  have ds: "40 \<le> unat (dg_data_size dg)" using assms(1) by (simp add: datagen_ok_def)
  then have d0: "0 < length data" and d20: "20 \<le> length data" using assms(2) by linarith+
  let ?h = "take 20 data" and ?f = "take 20 (drop (unat (dg_data_size dg) - 20) data)"
  have lh: "length ?h = 20" "length ?f = 20" using ds assms(2) by simp_all
  define q where "q = data ! 0"
  have h0: "?h ! 0 = q" by (simp add: q_def)
  define un where "un = (\<lambda>b. if dg_randomize_header dg then derandomize_header b (mask_bytes dg (unat q)) else b)"
  have get: "datagen_get_header dg data =
      (if dg_npatterns dg \<le> unat q then Inr None
       else let header = un ?h; h = block_header_of header in
         if bh_start_marker h \<noteq> BLOCK_HEADER_START_MARKER \<or> bh_finish_marker h \<noteq> BLOCK_HEADER_FINISH_MARKER
         then Inr None else if header \<noteq> un ?f then Inr None
         else Inr (Some (bh_lba h, bh_timestamp h, bh_pattern h)))"
    using ds d0 d20 assms(2) header_mask_ok(1)[OF assms(1), of "unat q"]
    by (simp add: datagen_get_header_def footer_offset_def sizeof_block_header_def q_def un_def Let_def)
  show ?thesis
  proof (cases "unat q < dg_npatterns dg")
    case False
    then have "\<not> ?L" by (simp add: get)
    moreover have "\<not> ?R"
      using False h0 header_image_nth0[of dg lba ts p] by (metis nth_take zero_less_numeral)
    ultimately show ?thesis by simp
  next
    case True
    have lm: "length (mask_bytes dg (unat q)) = 20" using header_mask_ok(2)[OF assms(1) True] .
    have un_inj: "un a = b \<longleftrightarrow> a = un b" if "length a = 20" "length b = 20" for a b
      using that lm derandomize_randomize by (auto simp: un_def derandomize_header_def)
    have un_len: "length (un a) = 20" if "length a = 20" for a
      using that lm by (simp add: un_def derandomize_header_def length_randomize_header)
    have un_hdr: "un (block_header_bytes (header_rec lba ts q r)) = header_image dg lba ts q r" for r
      by (simp add: un_def header_image_def derandomize_header_def)
    have un0: "un ?h ! 0 = q"
      using h0 lh by (simp add: un_def derandomize_header_def randomize_header_nth0)
    let ?H = "block_header_of (un ?h)"
    have HB: "un ?h = block_header_bytes ?H"
      using block_header_bytes_of[of "un ?h"] un_len[OF lh(1)] by (simp add: sizeof_block_header_def)
    have HP: "bh_pattern ?H = q" using un0 by (simp add: block_header_of_def)
    have "?L \<longleftrightarrow> un ?h = un ?f \<and> p = q \<and> (\<exists>r. ?H = header_rec lba ts q r)"
      using True HP by (cases ?H) (auto simp: get Let_def header_rec_def)
    also have "\<dots> \<longleftrightarrow> un ?h = un ?f \<and> p = q \<and> (\<exists>r. un ?h = block_header_bytes (header_rec lba ts q r))"
      using HB by (metis block_header_of_bytes)
    also have "\<dots> \<longleftrightarrow> ?h = ?f \<and> p = q \<and> (\<exists>r. ?h = header_image dg lba ts q r)"
      using un_inj[OF lh(1)] un_len[OF lh(2)] un_inj[OF lh(2) un_len[OF lh(2)]] un_hdr
      by (simp add: sizeof_block_header_def)
    also have "\<dots> \<longleftrightarrow> ?R"
      using True h0 header_image_nth0[of dg lba ts p]
      by (metis nth_take zero_less_numeral)
    finally show ?thesis .
  qed
qed

section \<open>Initialisation\<close>

text \<open>The pattern area while it is filled: pattern \<open>k\<close> begins at \<open>k * data_size\<close>.\<close>

definition dg_shape :: "u32 \<Rightarrow> datagen \<Rightarrow> bool" where
  "dg_shape ds dg \<longleftrightarrow>
     dg_npatterns dg = NUM_PATTERNS \<and> dg_patterns dg = map (\<lambda>k. k * unat ds) [0..<NUM_PATTERNS] \<and>
     length (dg_mem dg) = NUM_PATTERNS * unat ds \<and> dg_data_size dg = ds \<and> dg_body_size dg = ds - 40"

definition body_pattern :: "u32 \<Rightarrow> nat \<Rightarrow> bytes" where
  "body_pattern n k =
     [memset_bytes 0x00 n, memset_bytes 0x55 n, memset_bytes 0xAA n, memset_bytes 0xFF n,
      inc_bytes n, inc_words n @ replicate (unat n mod 2) 0,
      dec_bytes n, dec_words n @ replicate (unat n mod 2) 0] ! k"

lemma block_less: "j < k \<Longrightarrow> a + n \<le> ds \<Longrightarrow> j * ds + a + n \<le> k * (ds :: nat)"
  by (metis Suc_leI add.assoc add.commute le_trans mult_Suc mult_le_mono1 nat_add_left_cancel_le)

lemma unat_minus_40: "40 \<le> unat (ds :: u32) \<Longrightarrow> unat (ds - 40) = unat ds - 40"
  by (simp add: unat_sub word_le_nat_alt)

lemma dg_shape_ok: "dg_shape ds dg \<Longrightarrow> 40 \<le> unat ds \<Longrightarrow> datagen_ok dg"
  by (auto simp: dg_shape_def datagen_ok_def NUM_PATTERNS_def unat_minus_40)

lemma length_concat_2: "length (concat (map (\<lambda>x. le_bytes 2 (f x :: u16)) xs)) = 2 * length xs"
  by (induction xs) simp_all

lemma length_body_parts [layout]:
  "length (memset_bytes v n) = unat n" "length (inc_bytes n) = unat n"
  "length (dec_bytes n) = unat n" "length (inc_words n) = 2 * (unat n div 2)"
  "length (dec_words n) = 2 * (unat n div 2)"
  by (simp_all add: memset_bytes_def inc_bytes_def dec_bytes_def inc_words_def dec_words_def
      length_concat_2 drop_bit_Suc unat_div)

lemma write_slice:
  assumes "off + n \<le> length m" and "length bs \<le> n"
  shows "take n (drop off (take off m @ bs @ drop (off + length bs) m)) =
    bs @ drop (length bs) (take n (drop off m))"
proof -
  have "drop off (take off m @ X) = X" for X using assms(1) by simp
  then have "take n (drop off (take off m @ bs @ drop (off + length bs) m)) =
      take n (bs @ drop (off + length bs) m)" by (simp only:)
  then show ?thesis using assms(2) by (simp add: drop_take add.commute)
qed

text \<open>A store at the head of body \<open>k\<close> leaves the rest of that body and every other body alone.\<close>

lemma store_body_step:
  assumes sh: "dg_shape ds dg" and ds: "40 \<le> unat ds" and k: "k < NUM_PATTERNS"
    and bs: "length bs \<le> unat ds - 40"
  shows "\<exists>dg'. store_body k bs dg = Inr dg' \<and> dg_shape ds dg' \<and>
    dg_randomize_header dg' = dg_randomize_header dg \<and>
    (\<forall>j < NUM_PATTERNS. body_of dg' j =
       (if j = k then bs @ drop (length bs) (body_of dg k) else body_of dg j))"
proof -
  let ?n = "unat ds - 40" and ?off = "k * unat ds + 20"
  have fits: "j * unat ds + 20 + ?n \<le> length (dg_mem dg)" if "j < NUM_PATTERNS" for j
    using block_less[OF that, of 20 ?n "unat ds"] sh ds by (simp add: dg_shape_def)
  define m where "m = take ?off (dg_mem dg) @ bs @ drop (?off + length bs) (dg_mem dg)"
  have w: "mem_write (dg_mem dg) ?off bs = Inr m"
    using fits[OF k] bs by (simp add: m_def)
  have lm: "length m = length (dg_mem dg)" using mem_write_length[OF w] .
  let ?dg = "dg\<lparr>dg_mem := m\<rparr>"
  have st: "store_body k bs dg = Inr ?dg"
    using sh k w by (simp add: store_body_def dg_shape_def sizeof_block_header_def)
  have body: "Inr (body_of d j) = mem_read (dg_mem d) (j * unat ds + 20) ?n"
    if "dg_shape ds d" "j < NUM_PATTERNS" for d j
    using that block_less[of j NUM_PATTERNS 20 ?n "unat ds"] ds
    by (simp add: body_of_def dg_shape_def unat_minus_40)
  have sh': "dg_shape ds ?dg" using sh lm by (simp add: dg_shape_def)
  have same: "body_of ?dg j = body_of dg j" if j: "j < NUM_PATTERNS" "j \<noteq> k" for j
  proof -
    have "mem_read m (j * unat ds + 20) ?n = mem_read (dg_mem dg) (j * unat ds + 20) ?n"
    proof (cases "j < k")
      case True
      then show ?thesis using block_less[OF True, of 20 ?n "unat ds"] ds
        by (intro mem_write_read_before[OF w]) simp
    next
      case False
      then have "k < j" using j by simp
      then show ?thesis using block_less[of k j 20 "length bs" "unat ds"] ds bs
        by (intro mem_write_read_after[OF w]) linarith
    qed
    then show ?thesis using body[OF sh' j(1)] body[OF sh j(1)] by (metis datagen.select_convs(2) datagen.surjective datagen.update_convs(2) sum.inject(2))
  qed
  have "body_of ?dg k = bs @ drop (length bs) (body_of dg k)"
  proof -
    have "take ?n (drop ?off m) = bs @ drop (length bs) (take ?n (drop ?off (dg_mem dg)))"
      unfolding m_def by (rule write_slice) (use fits[OF k] bs in simp_all)
    moreover have "body_of ?dg k = take ?n (drop ?off m)" "body_of dg k = take ?n (drop ?off (dg_mem dg))"
      using body[OF sh' k] body[OF sh k] by (simp_all add: mem_read_def split: if_splits)
    ultimately show ?thesis by simp
  qed
  then show ?thesis using st sh' same by auto
qed

lemma init_header_mask_step:
  assumes sh: "length (dg_mem dg) = NUM_PATTERNS * unat ds" and ds: "40 \<le> unat ds" "NUM_PATTERNS * unat ds < 2 ^ 32"
    and k: "k < NUM_PATTERNS" and z: "\<forall>j < NUM_PATTERNS. mem_read (dg_mem dg) (j * unat ds + 20) (unat ds - 40) = Inr (replicate (unat ds - 40) 0)"
  shows "\<exists>m rng'. init_header_mask ds rh k (dg, rng) =
      Inr (dg\<lparr>dg_patterns := (dg_patterns dg)[k := k * unat ds], dg_mem := m\<rparr>, rng') \<and>
    length m = NUM_PATTERNS * unat ds \<and>
    (\<forall>j < NUM_PATTERNS. mem_read m (j * unat ds + 20) (unat ds - 40) = Inr (replicate (unat ds - 40) 0))"
proof -
  have kk: "k * unat ds < 2 ^ 32"
    using k ds(2) by (metis less_imp_le_nat le_less_trans mult_le_mono1)
  have off: "unat (of_nat k * ds) = k * unat ds"
  proof -
    have "of_nat k * ds = of_nat (k * unat ds)" by simp
    then show ?thesis using kk by (simp only: unat_of_nat) simp
  qed
  show ?thesis
  proof (cases rh)
    case False
    then show ?thesis using sh z off by (auto simp: init_header_mask_def Let_def intro!: exI[of _ "dg_mem dg"])
  next
    case True
    obtain bs rng' where bs: "rng_fill rng sizeof_block_header = (bs, rng')" by fastforce
    have lb: "length bs = 20" using length_rng_fill[of rng sizeof_block_header] bs
      by (simp add: sizeof_block_header_def)
    have "k * unat ds + length bs \<le> length (dg_mem dg)"
      using block_less[OF k, of 0 20 "unat ds"] ds(1) lb sh by simp
    then obtain m where w: "mem_write (dg_mem dg) (k * unat ds) bs = Inr m"
      by (simp add: mem_write_def)
    have "mem_read m (j * unat ds + 20) (unat ds - 40) = mem_read (dg_mem dg) (j * unat ds + 20) (unat ds - 40)" for j
    proof (cases "j < k")
      case True
      then show ?thesis using block_less[OF True, of 20 "unat ds - 40" "unat ds"] ds(1)
        by (intro mem_write_read_before[OF w]) simp
    next
      case False
      then have "k * unat ds + length bs \<le> j * unat ds + 20" using lb by simp
      then show ?thesis by (rule mem_write_read_after[OF w])
    qed
    then show ?thesis using True bs off w z mem_write_length[OF w] sh
      by (auto simp: init_header_mask_def Let_def)
  qed
qed

text \<open>The eight synthetic stores as one counted loop.\<close>

definition stored_body :: "u32 \<Rightarrow> nat \<Rightarrow> bytes" where
  "stored_body n k =
     [memset_bytes 0x00 n, memset_bytes 0x55 n, memset_bytes 0xAA n, memset_bytes 0xFF n,
      inc_bytes n, inc_words n, dec_bytes n, dec_words n] ! k"

lemma create_body_loop:
  "create_body_data_pattern dg rng =
     bnd (for_upto 0 NUM_PATTERNS (\<lambda>k. store_body k (stored_body (dg_body_size dg) k)) dg)
       (\<lambda>dg. for_upto 8 (dg_npatterns dg - 8) store_random_body (dg, rng))"
  by (simp add: create_body_data_pattern_def NUM_PATTERNS_def stored_body_def eval_nat_numeral
      Let_def bnd_assoc)

lemma upto_8_cases: "(k :: nat) < 8 \<Longrightarrow> k \<in> {0, 1, 2, 3, 4, 5, 6, 7}"
  by auto

lemma stored_body_pattern:
  assumes "k < NUM_PATTERNS"
  shows "length (stored_body n k) \<le> unat n"
    and "stored_body n k @ replicate (unat n - length (stored_body n k)) 0 = body_pattern n k"
proof -
  have half: "unat n - 2 * (unat n div 2) = unat n mod 2" by (simp add: minus_mult_div_eq_mod)
  show "length (stored_body n k) \<le> unat n"
    using upto_8_cases[of k] assms by (auto simp: stored_body_def layout NUM_PATTERNS_def)
  show "stored_body n k @ replicate (unat n - length (stored_body n k)) 0 = body_pattern n k"
    using upto_8_cases[of k] assms half
    by (auto simp: stored_body_def body_pattern_def layout NUM_PATTERNS_def)
qed

lemma create_body_ok:
  assumes sh: "dg_shape ds dg" and ds: "40 \<le> unat ds"
    and z: "\<forall>j < NUM_PATTERNS. body_of dg j = replicate (unat ds - 40) 0"
  shows "\<exists>dg'. create_body_data_pattern dg rng = Inr (dg', rng) \<and> dg_shape ds dg' \<and>
    dg_randomize_header dg' = dg_randomize_header dg \<and>
    (\<forall>j < NUM_PATTERNS. body_of dg' j = body_pattern (ds - 40) j)"
proof -
  define P where "P = (\<lambda>k d. dg_shape ds d \<and> dg_randomize_header d = dg_randomize_header dg \<and>
    (\<forall>j < NUM_PATTERNS. body_of d j =
       (if j < k then body_pattern (ds - 40) j else replicate (unat ds - 40) 0)))"
  have n: "dg_body_size dg = ds - 40" using sh by (simp add: dg_shape_def)
  have "\<exists>d'. for_upto 0 NUM_PATTERNS (\<lambda>k. store_body k (stored_body (ds - 40) k)) dg = Inr d' \<and>
      P (0 + NUM_PATTERNS) d'"
  proof (rule for_upto_rule)
    show "P 0 dg" using sh z by (simp add: P_def)
  next
    fix k d assume k: "k < 0 + NUM_PATTERNS" and P: "P k d"
    then have k8: "k < NUM_PATTERNS" by simp
    note sp = stored_body_pattern[OF k8, of "ds - 40", unfolded unat_minus_40[OF ds]]
    from P have d: "dg_shape ds d" by (simp add: P_def)
    obtain d' where st: "store_body k (stored_body (ds - 40) k) d = Inr d'" "dg_shape ds d'"
        "dg_randomize_header d' = dg_randomize_header d"
      and b: "\<forall>j < NUM_PATTERNS. body_of d' j =
         (if j = k then stored_body (ds - 40) k @ drop (length (stored_body (ds - 40) k)) (body_of d k)
          else body_of d j)"
      using store_body_step[OF d ds k8 sp(1)] by blast
    have "P (Suc k) d'"
      using st b P sp(2) k8 by (auto simp: P_def less_Suc_eq)
    then show "\<exists>s'. store_body k (stored_body (ds - 40) k) d = Inr s' \<and> P (Suc k) s'"
      using st by auto
  qed
  then show ?thesis
    by (auto simp: create_body_loop n P_def dg_shape_def NUM_PATTERNS_def)
qed

lemma datagen_init_ok:
  assumes ds: "40 \<le> unat ds" "NUM_PATTERNS * unat ds < 2 ^ 32"
  shows "\<exists>dg'. datagen_init True True dg ds rh = Inr (Some dg') \<and> dg_shape ds dg' \<and>
    dg_randomize_header dg' = rh \<and>
    (\<forall>j < NUM_PATTERNS. body_of dg' j = body_pattern (ds - 40) j)"
proof -
  let ?z = "replicate (unat ds - 40) (0 :: u8)"
  define dg0 where "dg0 = dg\<lparr>dg_npatterns := NUM_PATTERNS, dg_patterns := replicate NUM_PATTERNS 0,
                  dg_mem := replicate (NUM_PATTERNS * unat ds) 0, dg_data_size := ds,
                  dg_body_size := ds - of_nat (sizeof_block_header * 2), dg_randomize_header := rh\<rparr>"
  define P where "P = (\<lambda>k (d, r :: rng). (\<exists>m. d = dg0\<lparr>dg_patterns :=
      map (\<lambda>j. if j < k then j * unat ds else 0) [0..<NUM_PATTERNS], dg_mem := m\<rparr> \<and>
    length m = NUM_PATTERNS * unat ds \<and>
    (\<forall>j < NUM_PATTERNS. mem_read m (j * unat ds + 20) (unat ds - 40) = Inr ?z)))"
  have "\<exists>s'. for_upto 0 NUM_PATTERNS (init_header_mask ds rh) (dg0, rng_init DATAGEN_RNG_SEED) = Inr s' \<and>
      P (0 + NUM_PATTERNS) s'"
  proof (rule for_upto_rule)
    have "mem_read (replicate (NUM_PATTERNS * unat ds) 0) (j * unat ds + 20) (unat ds - 40) = Inr ?z"
      if "j < NUM_PATTERNS" for j
      using block_less[OF that, of 20 "unat ds - 40" "unat ds"] ds(1)
      by (simp add: mem_read_eq_Inr min_def)
    moreover have "dg0 = dg0\<lparr>dg_patterns := map (\<lambda>j. 0) [0..<NUM_PATTERNS],
        dg_mem := replicate (NUM_PATTERNS * unat ds) 0\<rparr>"
      by (cases dg) (simp add: dg0_def map_replicate_const)
    ultimately show "P 0 (dg0, rng_init DATAGEN_RNG_SEED)"
      by (auto simp: P_def intro!: exI[of _ "replicate (NUM_PATTERNS * unat ds) 0"])
  next
    fix k s assume k: "k < 0 + NUM_PATTERNS" and P: "P k s"
    then have k8: "k < NUM_PATTERNS" by simp
    obtain d r m where s: "s = (d, r)" and d: "d = dg0\<lparr>dg_patterns :=
        map (\<lambda>j. if j < k then j * unat ds else 0) [0..<NUM_PATTERNS], dg_mem := m\<rparr>"
      and m: "length m = NUM_PATTERNS * unat ds"
      "\<forall>j < NUM_PATTERNS. mem_read m (j * unat ds + 20) (unat ds - 40) = Inr ?z"
      using P by (cases s) (auto simp: P_def)
    have up: "(map (\<lambda>j. if j < k then j * unat ds else 0) [0..<NUM_PATTERNS])[k := k * unat ds]
        = map (\<lambda>j. if j < Suc k then j * unat ds else 0) [0..<NUM_PATTERNS]"
      by (rule nth_equalityI) (auto simp: nth_list_update less_Suc_eq)
    show "\<exists>s'. init_header_mask ds rh k s = Inr s' \<and> P (Suc k) s'"
      using init_header_mask_step[of d ds, OF _ ds k8, of rh r] m
      by (auto simp: s d P_def up)
  qed
  then obtain d r m where lp: "for_upto 0 NUM_PATTERNS (init_header_mask ds rh)
        (dg0, rng_init DATAGEN_RNG_SEED) = Inr (d, r)"
    and d0: "d = dg0\<lparr>dg_patterns := map (\<lambda>j. if j < NUM_PATTERNS then j * unat ds else 0)
        [0..<NUM_PATTERNS], dg_mem := m\<rparr>"
    and m: "length m = NUM_PATTERNS * unat ds"
      "\<forall>j < NUM_PATTERNS. mem_read m (j * unat ds + 20) (unat ds - 40) = Inr ?z"
    by (auto simp: P_def)
  have "map (\<lambda>j. if j < NUM_PATTERNS then j * unat ds else 0) [0..<NUM_PATTERNS]
      = map (\<lambda>j. j * unat ds) [0..<NUM_PATTERNS]"
    by (rule map_cong) auto
  then have d: "d = dg0\<lparr>dg_patterns := map (\<lambda>j. j * unat ds) [0..<NUM_PATTERNS], dg_mem := m\<rparr>"
    by (simp only: d0)
  have sh: "dg_shape ds d" using m(1) by (simp add: d dg0_def dg_shape_def sizeof_block_header_def)
  have "\<forall>j < NUM_PATTERNS. body_of d j = ?z"
    using m sh by (auto simp: mem_read_eq_Inr body_of_def dg_shape_def unat_minus_40[OF ds(1)] d)
  from create_body_ok[OF sh ds(1) this, of r]
  show ?thesis using lp by (auto simp: datagen_init_def dg0_def Let_def d)
qed

section \<open>Metadata images\<close>

definition meta_ok :: "datagen \<Rightarrow> bool" where
  "meta_ok dg \<longleftrightarrow>
     PI_SIZE \<le> unat (dg_meta_size dg) \<and> unat (dg_meta_size dg) \<le> 64 \<and>
     unat (dg_meta_size dg) \<le> unat (dg_data_size dg) \<and>
     unat (dg_pi_offset dg) \<in> {0, unat (dg_meta_size dg) - PI_SIZE} \<and> dg_pi_type dg \<in> {1, 2, 3}"

definition pi_image :: "datagen \<Rightarrow> u64 \<Rightarrow> bytes \<Rightarrow> bytes" where
  "pi_image dg lba protected =
     pr_info_bytes ((fst (datagen_set_pi dg \<lparr>guard = 0, app = 0, ref = 0\<rparr> lba))
       \<lparr>guard := htons (crc_t10dif_generic 0 protected)\<rparr>)"

text \<open>
  What \<open>datagen_set_meta\<close> leaves in the metadata of a block: the guard protects the data and,
  when the protection information comes last, the metadata before it.
\<close>

definition meta_image :: "datagen \<Rightarrow> bytes \<Rightarrow> u64 \<Rightarrow> bytes" where
  "meta_image dg data lba =
     (let block = take (unat (dg_data_size dg)) data;
          copy = take (unat (dg_meta_size dg) - PI_SIZE) data
      in if dg_pi_offset dg = 0 then pi_image dg lba block @ copy
         else copy @ pi_image dg lba (block @ copy))"

lemma length_pr_info_bytes [simp, layout]: "length (pr_info_bytes pi) = 8"
  by (simp add: pr_info_bytes_def)

lemma pr_info_of_bytes [simp]: "pr_info_of (pr_info_bytes pi) = pi"
  by (cases pi) (simp add: pr_info_of_def pr_info_bytes_def le_word_le_bytes)

lemma htons_htons [simp]: "htons (htons x) = x"
  by (simp add: htons_def le_bytes_le_word le_word_le_bytes)

lemma length_pi_image [simp, layout]: "length (pi_image dg lba bs) = 8"
  by (simp add: pi_image_def)

lemma length_meta_image [layout]:
  assumes "meta_ok dg" and "unat (dg_data_size dg) \<le> length data"
  shows "length (meta_image dg data lba) = unat (dg_meta_size dg)"
  using assms by (auto simp: meta_image_def meta_ok_def PI_SIZE_def Let_def min_def)

lemma set_pi_all:
  assumes "dg_pi_type dg \<in> {1, 2, 3}"
  shows "(fst (datagen_set_pi dg pi lba))\<lparr>guard := g\<rparr> =
    (fst (datagen_set_pi dg \<lparr>guard = 0, app = 0, ref = 0\<rparr> lba))\<lparr>guard := g\<rparr>"
  using assms by (cases pi) (auto simp: datagen_set_pi_def)

lemma split_at: "off \<le> length m \<Longrightarrow> n \<le> length m - off \<Longrightarrow>
  m = take off m @ take n (drop off m) @ drop (off + n) m"
  by (metis append_take_drop_id drop_drop add.commute)

lemma datagen_set_meta_eq:
  assumes ok: "meta_ok dg" and data: "unat (dg_data_size dg) \<le> length data"
    and meta: "unat (dg_meta_size dg) \<le> length metadata"
  shows "datagen_set_meta dg metadata data lba =
    Inr (meta_image dg data lba @ drop (unat (dg_meta_size dg)) metadata)"
proof -
  let ?off = "unat (dg_pi_offset dg)" and ?ms = "unat (dg_meta_size dg)"
  let ?block = "take (unat (dg_data_size dg)) data"
  define base where "base = fst (datagen_set_pi dg \<lparr>guard = 0, app = 0, ref = 0\<rparr> lba)"
  have ms: "8 \<le> ?ms" "?ms \<le> unat (dg_data_size dg)" and off: "?off = 0 \<or> ?off = ?ms - 8"
    and off0: "?off = 0 \<longleftrightarrow> dg_pi_offset dg = 0"
    using ok by (auto simp: meta_ok_def PI_SIZE_def unat_eq_0)
  have pi: "(fst (datagen_set_pi dg x lba))\<lparr>guard := g\<rparr> = base\<lparr>guard := g\<rparr>" for x g
    using set_pi_all[of dg g x lba] ok by (simp add: meta_ok_def base_def)
  have piI: "pi_image dg lba bs = pr_info_bytes (base\<lparr>guard := htons (crc_t10dif_generic 0 bs)\<rparr>)" for bs
    by (simp add: pi_image_def base_def)
  consider (first) "?off = 0" | (last) "?off = ?ms - 8" "?off \<noteq> 0" using off by metis
  then show ?thesis
  proof cases
    case first
    have "datagen_set_meta dg metadata data lba =
      bnd (mem_write metadata 0 (pi_image dg lba ?block)) (\<lambda>metadata.
        if 8 < ?ms then mem_write metadata 8 (take (?ms - 8) data) else Inr metadata)"
      using first ms data meta by (simp add: datagen_set_meta_def Let_def pi piI PI_SIZE_def)
    also have "\<dots> = Inr (pi_image dg lba ?block @ take (?ms - 8) data @ drop ?ms metadata)"
      using ms data meta by (cases "?ms = 8") simp_all
    finally show ?thesis using first off0 by (simp add: meta_image_def PI_SIZE_def Let_def)
  next
    case last
    let ?copy = "take ?off data"
    have big: "8 < ?ms" using last by simp
    have lc: "length ?copy = ?off" using last(1) ms data by simp
    define rest where "rest = drop ?ms metadata"
    obtain pre mid where md: "metadata = pre @ mid @ rest" "length pre = ?off" "length mid = 8"
    proof
      show "metadata = take ?off metadata @ take 8 (drop ?off metadata) @ rest"
        using split_at[of ?off metadata 8] last(1) ms meta by (simp add: rest_def)
    qed (use last(1) ms meta in simp_all)
    have "datagen_set_meta dg metadata data lba =
      bnd (mem_write metadata ?off (pi_image dg lba ?block)) (\<lambda>metadata.
      bnd (mem_write metadata 0 ?copy) (\<lambda>metadata.
      bnd (mem_read metadata ?off 8) (\<lambda>raw.
      bnd (mem_read metadata 0 ?off) (\<lambda>pre.
        mem_write metadata ?off (pr_info_bytes ((pr_info_of raw)
          \<lparr>guard := htons (crc_t10dif_generic (htons (guard (pr_info_of raw))) pre)\<rparr>))))))"
      using last big ms data meta by (simp add: datagen_set_meta_def Let_def pi piI PI_SIZE_def)
    also have "\<dots> = Inr (?copy @ pi_image dg lba (?block @ ?copy) @ rest)"
      using md lc by (simp add: piI crc_t10dif_append)
    finally show ?thesis using last off0 by (simp add: meta_image_def PI_SIZE_def Let_def rest_def)
  qed
qed

lemma memcmp_0_iff: "length a = length b \<Longrightarrow> memcmp a b = 0 \<longleftrightarrow> a = b"
  by (induction a b rule: list_induct2) auto

text \<open>The tag values that switch the check off.\<close>

definition pi_escape :: "datagen \<Rightarrow> bytes \<Rightarrow> bool" where
  "pi_escape dg metadata =
     (let actual = pr_info_of (take 8 (drop (unat (dg_pi_offset dg)) metadata))
      in app actual = 0xFFFF \<and> (dg_pi_type dg = 3 \<longrightarrow> ref actual = 0xFFFFFFFF))"

lemma datagen_compare_meta_eq:
  assumes ok: "meta_ok dg" and data: "unat (dg_data_size dg) \<le> length data"
    and meta: "unat (dg_meta_size dg) \<le> length metadata" and junk: "length junk = 64"
  shows "datagen_compare_meta dg junk metadata data lba =
    Inr (if pi_escape dg metadata then 0
         else memcmp (meta_image dg data lba) (take (unat (dg_meta_size dg)) metadata))"
proof -
  have ms: "unat (dg_pi_offset dg) + 8 \<le> length metadata" "unat (dg_meta_size dg) \<le> length junk"
    using ok meta junk by (auto simp: meta_ok_def PI_SIZE_def)
  have t: "dg_pi_type dg = 1 \<or> dg_pi_type dg = 2 \<or> dg_pi_type dg = 3"
    using ok by (auto simp: meta_ok_def)
  have "bnd (datagen_set_meta dg junk data lba) (\<lambda>expect.
           bnd (mem_read expect 0 (unat (dg_meta_size dg))) (\<lambda>e.
           bnd (mem_read metadata 0 (unat (dg_meta_size dg))) (\<lambda>m. Inr (memcmp e m)))) =
      Inr (memcmp (meta_image dg data lba) (take (unat (dg_meta_size dg)) metadata))"
    using length_meta_image[OF ok data, of lba] meta
    by (simp add: datagen_set_meta_eq[OF ok data ms(2)])
  then show ?thesis
    using t ms(1) by (auto simp: datagen_compare_meta_def pi_escape_def Let_def PI_SIZE_def)
qed

section \<open>Properties\<close>

text \<open>A small generator: one pattern, blocks of 48 bytes, 16 bytes of metadata.\<close>

definition sample_dg :: datagen where
  "sample_dg = \<lparr>dg_npatterns = 1, dg_mem = replicate 48 0xA5, dg_patterns = [0], dg_data_size = 48,
     dg_body_size = 8, dg_meta_size = 16, dg_pi_offset = 8, dg_pi_type = 1,
     dg_randomize_header = True\<rparr>"

lemma sample_dg_ok: "datagen_ok sample_dg" "meta_ok sample_dg"
  by (simp_all add: sample_dg_def datagen_ok_def meta_ok_def PI_SIZE_def)

text \<open>Initialisation succeeds whenever both allocations do and the pattern area is
  addressable: it yields a generator that every later operation can use without leaving the
  allocation, and each body holds its documented pattern. Blocks too small for two headers are
  excluded, as they wrap the body size around.\<close>

theorem datagen_init_patterns:
  assumes "40 \<le> unat ds" and "NUM_PATTERNS * unat ds < 2 ^ 32"
  shows "\<exists>dg'. datagen_init True True dg ds rh = Inr (Some dg') \<and> datagen_ok dg' \<and>
    dg_npatterns dg' = 8 \<and> dg_data_size dg' = ds \<and> dg_randomize_header dg' = rh \<and>
    (\<forall>j < 8. pattern_body dg' j = Inr (body_pattern (ds - 40) j))"
proof -
  obtain dg' where d: "datagen_init True True dg ds rh = Inr (Some dg')" "dg_shape ds dg'"
    "dg_randomize_header dg' = rh" "\<forall>j < NUM_PATTERNS. body_of dg' j = body_pattern (ds - 40) j"
    using datagen_init_ok[OF assms] by blast
  have ok: "datagen_ok dg'" using dg_shape_ok[OF d(2) assms(1)] .
  have "dg_npatterns dg' = 8" using d(2) by (simp add: dg_shape_def NUM_PATTERNS_def)
  then show ?thesis
    using d ok pattern_body_ok(1)[OF ok] by (auto simp: dg_shape_def NUM_PATTERNS_def)
qed

theorem datagen_init_patterns_witness:
  "\<exists>dg'. datagen_init True True sample_dg 512 True = Inr (Some dg') \<and> datagen_ok dg' \<and>
    dg_npatterns dg' = 8 \<and> dg_data_size dg' = 512 \<and> dg_randomize_header dg' = True \<and>
    (\<forall>j < 8. pattern_body dg' j = Inr (body_pattern (512 - 40) j))"
  by (rule datagen_init_patterns) (simp_all add: NUM_PATTERNS_def)

text \<open>C29: A block written by \<open>datagen_set_data\<close> reads back: the header yields the LBA, the
  timestamp and the pattern that were written, the body is that pattern's body, and the bytes
  after the block are untouched.\<close>

theorem datagen_block_roundtrip:
  assumes "datagen_ok dg" and "unat pattern < dg_npatterns dg"
    and "unat (dg_data_size dg) \<le> length data"
  shows "\<exists>data'. datagen_set_data dg data lba timestamp pattern = Inr data' \<and>
    length data' = length data \<and>
    drop (unat (dg_data_size dg)) data' = drop (unat (dg_data_size dg)) data \<and>
    datagen_get_header dg data' = Inr (Some (lba, timestamp, pattern)) \<and>
    mem_read data' sizeof_block_header (unat (dg_body_size dg)) = pattern_body dg (unat pattern)"
proof -
  note lb = length_block_image[OF assms(1,2), of lba timestamp]
    and lh = length_header_image[OF assms(1,2), of lba timestamp 0]
    and bo = pattern_body_ok[OF assms(1,2)] and ds = datagen_okD(3,4)[OF assms(1,2)]
  let ?d = "block_image dg lba timestamp pattern @ drop (unat (dg_data_size dg)) data"
  have "length ?d = length data" using lb assms(3) by simp
  moreover have "datagen_get_header dg ?d = Inr (Some (lba, timestamp, pattern))"
    using datagen_get_header_iff[OF assms(1), of ?d lba timestamp pattern] assms(2) lb lh bo ds
    by (auto simp: block_image_def intro!: exI[of _ 0])
  moreover have "mem_read ?d 20 (unat (dg_body_size dg)) = pattern_body dg (unat pattern)"
    using lh bo ds by (simp add: block_image_def)
  ultimately show ?thesis
    using datagen_set_data_eq[OF assms] lb by (simp add: sizeof_block_header_def)
qed

theorem datagen_block_roundtrip_witness:
  "\<exists>data'. datagen_set_data sample_dg (replicate 50 7) 5 9 0 = Inr data' \<and>
    length data' = length (replicate 50 (7 :: u8)) \<and>
    drop (unat (dg_data_size sample_dg)) data' = drop (unat (dg_data_size sample_dg)) (replicate 50 7) \<and>
    datagen_get_header sample_dg data' = Inr (Some (5, 9, 0)) \<and>
    mem_read data' sizeof_block_header (unat (dg_body_size sample_dg)) = pattern_body sample_dg (unat (0 :: u8))"
  by (rule datagen_block_roundtrip) (simp_all add: sample_dg_ok, simp_all add: sample_dg_def)

text \<open>Reading a header never faults on a buffer that holds a block, and it accepts exactly
  the blocks whose first and last 20 bytes are the (randomized) image of one header with both
  markers and a known pattern; only the reserved byte is free.\<close>

theorem datagen_get_header_exact:
  assumes "datagen_ok dg" and "unat (dg_data_size dg) \<le> length data"
  shows "(\<exists>r. datagen_get_header dg data = Inr r) \<and>
    (\<forall>lba timestamp pattern. datagen_get_header dg data = Inr (Some (lba, timestamp, pattern)) \<longleftrightarrow>
      unat pattern < dg_npatterns dg \<and>
      (\<exists>rsvd. take 20 data = header_image dg lba timestamp pattern rsvd \<and>
        take 20 (drop (unat (dg_data_size dg) - 20) data) = header_image dg lba timestamp pattern rsvd))"
proof -
  have ds: "40 \<le> unat (dg_data_size dg)" using assms(1) by (simp add: datagen_ok_def)
  then have "0 < length data" "20 \<le> length data" using assms(2) by linarith+
  then have "\<exists>r. datagen_get_header dg data = Inr r"
    using ds assms(2) header_mask_ok(1)[OF assms(1), of "unat (data ! 0)"]
    by (cases "unat (data ! 0) < dg_npatterns dg")
       (simp_all add: datagen_get_header_def footer_offset_def sizeof_block_header_def Let_def)
  then show ?thesis using datagen_get_header_iff[OF assms] by blast
qed

theorem datagen_get_header_exact_witness:
  "(\<exists>r. datagen_get_header sample_dg (replicate 48 7) = Inr r) \<and>
    (\<forall>lba timestamp pattern. datagen_get_header sample_dg (replicate 48 7) = Inr (Some (lba, timestamp, pattern)) \<longleftrightarrow>
      unat pattern < dg_npatterns sample_dg \<and>
      (\<exists>rsvd. take 20 (replicate 48 7) = header_image sample_dg lba timestamp pattern rsvd \<and>
        take 20 (drop (unat (dg_data_size sample_dg) - 20) (replicate 48 7)) =
          header_image sample_dg lba timestamp pattern rsvd))"
  by (rule datagen_get_header_exact) (simp_all add: sample_dg_ok, simp_all add: sample_dg_def)

text \<open>C30: The metadata check accepts what \<open>datagen_set_meta\<close> wrote and, apart from the
  application tag that switches it off, nothing else: the result does not depend on the
  uninitialised comparison buffer.\<close>

theorem datagen_meta_roundtrip:
  assumes "meta_ok dg" and "unat (dg_data_size dg) \<le> length data"
    and "unat (dg_meta_size dg) \<le> length metadata" and "length junk = 64"
  shows "(\<exists>metadata'. datagen_set_meta dg metadata data lba = Inr metadata' \<and>
      drop (unat (dg_meta_size dg)) metadata' = drop (unat (dg_meta_size dg)) metadata \<and>
      datagen_compare_meta dg junk metadata' data lba = Inr 0) \<and>
    (datagen_compare_meta dg junk metadata data lba = Inr 0 \<longleftrightarrow>
      pi_escape dg metadata \<or> take (unat (dg_meta_size dg)) metadata = meta_image dg data lba)"
proof -
  note l = length_meta_image[OF assms(1,2), of lba]
  let ?m = "meta_image dg data lba @ drop (unat (dg_meta_size dg)) metadata"
  have "unat (dg_meta_size dg) \<le> length ?m" using l by simp
  from datagen_compare_meta_eq[OF assms(1,2) this assms(4)]
  have "datagen_compare_meta dg junk ?m data lba = Inr 0"
    using l memcmp_0_iff[of "meta_image dg data lba" "meta_image dg data lba"] by simp
  then show ?thesis
    using l assms(3) memcmp_0_iff[of "meta_image dg data lba" "take (unat (dg_meta_size dg)) metadata"]
    by (auto simp: datagen_set_meta_eq[OF assms(1-3)] datagen_compare_meta_eq[OF assms])
qed

theorem datagen_meta_roundtrip_witness:
  "(\<exists>metadata'. datagen_set_meta sample_dg (replicate 16 0) (replicate 48 7) 3 = Inr metadata' \<and>
      drop (unat (dg_meta_size sample_dg)) metadata' = drop (unat (dg_meta_size sample_dg)) (replicate 16 0) \<and>
      datagen_compare_meta sample_dg (replicate 64 1) metadata' (replicate 48 7) 3 = Inr 0) \<and>
    (datagen_compare_meta sample_dg (replicate 64 1) (replicate 16 0) (replicate 48 7) 3 = Inr 0 \<longleftrightarrow>
      pi_escape sample_dg (replicate 16 0) \<or>
      take (unat (dg_meta_size sample_dg)) (replicate 16 0) = meta_image sample_dg (replicate 48 7) 3)"
  by (rule datagen_meta_roundtrip) (simp_all add: sample_dg_ok, simp_all add: sample_dg_def)

end
