(* ===== verification/Dump.thy ===== *)
theory Dump
  imports Datagen
begin

text \<open>
  The hex dumps of \<open>nbio/dump.c\<close>. What is printed for one line is modelled as the line's offset
  and bytes (and the \<open>*\<close> mark of a mismatch); the text formatting is not. The dumps read whole
  lines, so they read past \<open>bytes\<close> when it is not a multiple of the width. The callers print with
  a width of 8 or 16 and sizes far below \<open>2 ^ 32\<close>, where the 32-bit offset does not wrap around;
  a width of 0 would not terminate in the code.
\<close>

function dump_data :: "bytes \<Rightarrow> nat \<Rightarrow> nat \<Rightarrow> (nat \<times> bytes) list res" where
  "dump_data data bytes offset =
     (if offset < bytes then
        bnd (mem_read data offset 16) (\<lambda>line.
        bnd (dump_data data bytes (offset + 16)) (\<lambda>rest. Inr ((offset, line) # rest)))
      else Inr [])"
  by pat_completeness auto
termination
  by (relation "measure (\<lambda>(data, bytes, offset). bytes - offset)") auto

record miscompare_line =
  ml_mark :: bool
  ml_offset :: nat
  ml_expected :: bytes
  ml_actual :: bytes

function dump_miscompare :: "bytes \<Rightarrow> bytes \<Rightarrow> nat \<Rightarrow> nat \<Rightarrow> nat \<Rightarrow> miscompare_line list res" where
  "dump_miscompare expected actual bytes width offset =
     (if offset < bytes \<and> 0 < width then
        bnd (mem_read expected offset width) (\<lambda>e.
        bnd (mem_read actual offset width) (\<lambda>a.
        bnd (dump_miscompare expected actual bytes width (offset + width)) (\<lambda>rest.
          Inr (\<lparr>ml_mark = (memcmp e a \<noteq> 0), ml_offset = offset, ml_expected = e, ml_actual = a\<rparr> # rest))))
      else Inr [])"
  by pat_completeness auto
termination
  by (relation "measure (\<lambda>(e, a, bytes, width, offset). bytes - offset)") auto

declare dump_data.simps [simp del] dump_miscompare.simps [simp del]

lemma dvd_step:
  assumes "width dvd bytes" and "width dvd off" and "off < bytes"
  shows "off + width \<le> (bytes :: nat)"
proof -
  obtain a b where ab: "bytes = width * a" "off = width * b" using assms(1,2) by (auto elim!: dvdE)
  then have "Suc b \<le> a" using assms(3) by (simp add: Suc_le_eq)
  then have "width * Suc b \<le> width * a" by (rule mult_le_mono2)
  then show ?thesis using ab by simp
qed

lemma dump_data_ok:
  assumes "16 dvd bytes" and "16 dvd off" and "bytes \<le> length data"
  shows "\<exists>r. dump_data data bytes off = Inr r"
  using assms
proof (induction data bytes off rule: dump_data.induct)
  case (1 data bytes off)
  show ?case
  proof (cases "off < bytes")
    case True
    then have le: "off + 16 \<le> bytes" using dvd_step 1(2,3) by blast
    then have "\<exists>r. dump_data data bytes (off + 16) = Inr r"
      using 1 True by auto
    then show ?thesis using True le 1(4) by (auto simp: dump_data.simps[of data bytes off])
  next
    case False
    then show ?thesis by (simp add: dump_data.simps[of data bytes off])
  qed
qed

lemma dump_miscompare_ok:
  assumes "width dvd bytes" and "width dvd off" and "0 < width"
    and "bytes \<le> length expected" and "bytes \<le> length actual"
  shows "\<exists>ls. dump_miscompare expected actual bytes width off = Inr ls \<and>
    concat (map ml_expected ls) = take (bytes - off) (drop off expected) \<and>
    concat (map ml_actual ls) = take (bytes - off) (drop off actual) \<and>
    (\<forall>l \<in> set ls. ml_mark l \<longleftrightarrow> ml_expected l \<noteq> ml_actual l)"
  using assms
proof (induction expected actual bytes width off rule: dump_miscompare.induct)
  case (1 e a bytes width off)
  show ?case
  proof (cases "off < bytes")
    case True
    then have le: "off + width \<le> bytes" using dvd_step 1(2,3) by blast
    then have "mem_read e off width = Inr (take width (drop off e))"
      "mem_read a off width = Inr (take width (drop off a))" using 1(5,6) by simp_all
    then obtain ls where ls: "dump_miscompare e a bytes width (off + width) = Inr ls"
      "concat (map ml_expected ls) = take (bytes - (off + width)) (drop (off + width) e)"
      "concat (map ml_actual ls) = take (bytes - (off + width)) (drop (off + width) a)"
      "\<forall>l \<in> set ls. ml_mark l \<longleftrightarrow> ml_expected l \<noteq> ml_actual l"
      using 1(1)[of "take width (drop off e)" "take width (drop off a)"] 1(2-6) True by auto
    have split: "take (bytes - off) (drop off xs) =
        take width (drop off xs) @ take (bytes - (off + width)) (drop (off + width) xs)" for xs :: bytes
      using le take_add[of width "bytes - (off + width)" "drop off xs"] by (simp add: add.commute)
    show ?thesis
      using True le 1(4-6) ls memcmp_0_iff[of "take width (drop off e)" "take width (drop off a)"]
      by (auto simp: dump_miscompare.simps[of e a bytes width off] split)
  next
    case False
    then show ?thesis by (simp add: dump_miscompare.simps[of e a bytes width off])
  qed
qed

end
