(* ===== verification/Iover.thy ===== *)
theory Iover
  imports Dump LbaLock
begin

text \<open>
  The i/o verifier (\<open>nbio/iover.c\<close>): it fills the data of writes, records per block what was
  last done to it, and checks the data of reads against that record. \<open>bio->job->params\<close> is the
  argument \<open>jp\<close>. The functions print when they find a mismatch; the printed text is not
  modelled, but the memory the printing reads is, so a fault there is a fault here.
\<close>

definition PATTERN_ZEROES :: u8 where
  "PATTERN_ZEROES = 30"

definition PATTERN_ONES :: u8 where
  "PATTERN_ONES = 31"

section \<open>State\<close>

record journal_header =
  jh_magic :: u32
  jh_sn :: bytes
  jh_eui64 :: bytes
  jh_data_size_shift :: u16
  jh_meta_size :: u16
  jh_nlbs :: u64
  jh_nhist :: u32
  jh_hist_idx :: u32

record journal_footer =
  jf_host_writes :: bytes
  jf_timestamp :: u64
  jf_rsvd :: u32
  jf_magic :: u32

text \<open>
  \<open>iv_journal\<close> is \<open>None\<close> when no journal is configured, where \<open>journal.header\<close> and
  \<open>journal.footer\<close> stay \<open>NULL\<close>. With a journal the descriptor arrays are the parts of the
  mapped file between header and footer.
\<close>

record iover =
  iv_ns_info :: namespace_info
  iv_nthreads :: u32
  iv_block_desc :: "block_desc list"
  iv_hist_desc :: "hist_desc list"
  iv_journal :: "(journal_header \<times> journal_footer) option"
  iv_lba_lock :: "u64 list"
  iv_timestamp :: u64
  iv_datagen :: datagen

definition block_state_strings :: "string list" where
  "block_state_strings = [''UNWRITTEN'', ''DEALLOCATED'', ''UNCORRECTABLE'', ''ZEROES'', ''DATA'']"

definition bio_opcode_strings :: "string list" where
  "bio_opcode_strings = [''READ'', ''WRITE'', ''FLUSH'', ''DEALLOCATE'', ''WRITE ZEROES'',
     ''WRITE UNCORRECTABLE'']"

section \<open>Diagnostics\<close>

definition get_block_size :: "iover \<Rightarrow> bio \<Rightarrow> u32" where
  "get_block_size iover bio =
     (if b_pract bio \<and> ns_meta_size (iv_ns_info iover) = 8
      then ns_data_size (iv_ns_info iover) else ns_block_size (iv_ns_info iover))"

text \<open>\<open>bio->data + get_block_size(iover, bio) * lba_offset\<close>, multiplied in 32 bits.\<close>

definition block_data :: "iover \<Rightarrow> bio \<Rightarrow> u32 \<Rightarrow> bytes" where
  "block_data iover bio lba_offset = drop (unat (get_block_size iover bio * lba_offset)) (b_data bio)"

definition bio_lba :: "bio \<Rightarrow> u32 \<Rightarrow> u64" where
  "bio_lba bio lba_offset = b_slba bio + ucast lba_offset"

definition miscompare_message :: "block_desc \<Rightarrow> unit res" where
  "miscompare_message bd = bnd (arr_get block_state_strings (unat (bd_state bd))) (\<lambda>s. Inr ())"

definition miscompare_dump :: "iover \<Rightarrow> bio \<Rightarrow> u32 \<Rightarrow> u64 \<Rightarrow> u8 \<Rightarrow> unit res" where
  "miscompare_dump iover bio lba_offset timestamp pattern =
     (let ds = unat (ns_data_size (iv_ns_info iover)); expected = replicate ds 0; dg = iv_datagen iover in
      bnd (if pattern = PATTERN_ZEROES then Inr (replicate ds 0)
           else if pattern = PATTERN_ONES then Inr (replicate ds 0xFF)
           else bnd (datagen_set_header dg expected (bio_lba bio lba_offset) timestamp pattern) (\<lambda>e.
             bnd (pattern_body dg (unat pattern)) (\<lambda>b. mem_write e sizeof_block_header b))) (\<lambda>expected.
      bnd (dump_miscompare expected (block_data iover bio lba_offset) ds 16 0) (\<lambda>ls. Inr ())))"

definition miscompare_dump_meta :: "iover \<Rightarrow> bytes \<Rightarrow> bytes \<Rightarrow> u64 \<Rightarrow> unit res" where
  "miscompare_dump_meta iover meta data lba =
     (let ms = unat (ns_meta_size (iv_ns_info iover)) in
      bnd (datagen_set_meta (iv_datagen iover) (replicate ms 0) data lba) (\<lambda>expected.
      bnd (dump_miscompare expected meta ms 8 0) (\<lambda>ls. Inr ())))"

definition miscompare_dump_meta_unwritten :: "iover \<Rightarrow> u32 \<Rightarrow> bytes \<Rightarrow> unit res" where
  "miscompare_dump_meta_unwritten iover meta_pattern meta =
     (let ns = iv_ns_info iover; ms = unat (ns_meta_size ns);
          pattern = (if meta_pattern = unwr_read_value_type_zeroes then 0x00 else 0xFF);
          expected = replicate ms pattern in
      bnd (if 8 < ms \<and> ns_pi_type ns \<noteq> 0 then
             if ns_pi_loc ns = 0 then mem_write expected (ms - 8) (replicate 8 0xFF)
             else mem_write expected 0 (replicate 8 0xFF)
           else Inr expected) (\<lambda>expected.
      bnd (dump_miscompare expected meta ms 8 0) (\<lambda>ls. Inr ())))"

section \<open>Checking one block\<close>

text \<open>
  \<open>Some pattern\<close> is the return value 0 with the output argument, \<open>None\<close> is -1. The operands
  of the comparisons with 16-bit timestamps are promoted to \<open>int\<close>.
\<close>

definition header_miscompare :: "iover \<Rightarrow> bio \<Rightarrow> u32 \<Rightarrow> block_desc \<Rightarrow> u8 option res" where
  "header_miscompare iover bio lba_offset bd =
     bnd (miscompare_message bd) (\<lambda>u.
     bnd (miscompare_dump iover bio lba_offset (ucast (bd_timestamp bd)) (ucast (bd_pattern bd))) (\<lambda>u.
     Inr None))"

definition timestamp_accepted :: "job_params \<Rightarrow> u16 \<Rightarrow> u16 \<Rightarrow> u16 \<Rightarrow> bool" where
  "timestamp_accepted jp read issue cur \<longleftrightarrow>
     read = cur \<or>
     jp_lba_overlap jp \<and>
     (if issue \<le> cur then issue \<le> read \<and> read \<le> cur
      else \<not> (read < issue \<and> unat cur + 65535 < unat read))"

definition verify_block_header ::
  "iover \<Rightarrow> job_params \<Rightarrow> bio \<Rightarrow> u32 \<Rightarrow> block_desc \<Rightarrow> u8 option res" where
  "verify_block_header iover jp bio lba_offset cur =
     (let lba = bio_lba bio lba_offset; data = block_data iover bio lba_offset in
      bnd (datagen_get_header (iv_datagen iover) data) (\<lambda>hdr.
      case hdr of
        Some (read_lba, read_timestamp, pattern) \<Rightarrow>
          if read_lba \<noteq> lba then header_miscompare iover bio lba_offset cur
          else if (ucast read_timestamp :: u16) \<noteq> bd_timestamp cur then
            if jp_lba_overlap jp then
              bnd (arr_get (b_block_desc bio) (unat lba_offset)) (\<lambda>issue.
              if timestamp_accepted jp (ucast read_timestamp) (bd_timestamp issue) (bd_timestamp cur)
              then Inr (Some pattern) else header_miscompare iover bio lba_offset cur)
            else header_miscompare iover bio lba_offset cur
          else Inr (Some pattern)
      | None \<Rightarrow> header_miscompare iover bio lba_offset cur))"

text \<open>
  On a mismatch the header is read again for the dump; when that fails the timestamp it prints
  is uninitialised, which changes the printed text only.
\<close>

definition verify_block_body ::
  "iover \<Rightarrow> bio \<Rightarrow> u32 \<Rightarrow> block_desc \<Rightarrow> u8 \<Rightarrow> int res" where
  "verify_block_body iover bio lba_offset cur pattern =
     (let dg = iv_datagen iover; data = block_data iover bio lba_offset in
      bnd (mem_read data sizeof_block_header (unat (dg_body_size dg))) (\<lambda>actual.
      bnd (pattern_body dg (unat pattern)) (\<lambda>body.
      if memcmp actual body \<noteq> 0 then
        bnd (datagen_get_header dg data) (\<lambda>hdr.
        bnd (miscompare_message cur) (\<lambda>u.
        bnd (case hdr of Some (l, ts, p) \<Rightarrow> miscompare_dump iover bio lba_offset ts p
             | None \<Rightarrow> miscompare_dump iover bio lba_offset 0 pattern) (\<lambda>u.
        Inr (- 1))))
      else Inr 0)))"

text \<open>The metadata of a block as a position in the buffer that holds it.\<close>

definition meta_position :: "iover \<Rightarrow> bio \<Rightarrow> u32 \<Rightarrow> bytes \<times> nat" where
  "meta_position iover bio lba_offset =
     (let ns = iv_ns_info iover in
      if ns_extended_lba ns
      then (b_data bio, unat (get_block_size iover bio * lba_offset) + unat (ns_data_size ns))
      else (b_meta bio, unat (ns_meta_size ns * lba_offset)))"

text \<open>\<open>junk\<close> is the uninitialised stack buffer of the comparison.\<close>

definition verify_block_meta :: "bytes \<Rightarrow> iover \<Rightarrow> bio \<Rightarrow> u32 \<Rightarrow> int res" where
  "verify_block_meta junk iover bio lba_offset =
     (let dg = iv_datagen iover; data = block_data iover bio lba_offset; lba = bio_lba bio lba_offset;
          (buf, off) = meta_position iover bio lba_offset; meta = drop off buf in
      bnd (datagen_get_header dg data) (\<lambda>hdr.
      bnd (datagen_compare_meta dg junk meta data lba) (\<lambda>res.
      if res \<noteq> 0 then
        bnd (datagen_set_meta dg junk data lba) (\<lambda>expected.
        bnd (miscompare_dump_meta iover expected meta lba) (\<lambda>u. Inr res))
      else Inr res)))"

definition verify_block_data ::
  "iover \<Rightarrow> job_params \<Rightarrow> bio \<Rightarrow> u32 \<Rightarrow> block_desc \<Rightarrow> int res" where
  "verify_block_data iover jp bio lba_offset cur =
     bnd (verify_block_header iover jp bio lba_offset cur) (\<lambda>r.
     case r of None \<Rightarrow> Inr (- 1)
     | Some pattern \<Rightarrow>
         if \<not> jp_compare_header_only jp then verify_block_body iover bio lba_offset cur pattern
         else Inr 0)"

text \<open>The loop of \<open>is_all\<close> does not advance \<open>data\<close>.\<close>

fun is_all :: "bytes \<Rightarrow> u8 \<Rightarrow> nat \<Rightarrow> bool res" where
  "is_all data val 0 = Inr True"
| "is_all data val (Suc n) = bnd (arr_get data 0) (\<lambda>b. if b \<noteq> val then Inr False else is_all data val n)"

definition is_all_ones :: "bytes \<Rightarrow> u32 \<Rightarrow> bool res" where
  "is_all_ones data sz = is_all data 0xFF (unat sz)"

definition is_all_zeroes :: "bytes \<Rightarrow> u32 \<Rightarrow> bool res" where
  "is_all_zeroes data sz = is_all data 0x00 (unat sz)"

definition fill_miscompare :: "iover \<Rightarrow> bio \<Rightarrow> u32 \<Rightarrow> block_desc \<Rightarrow> u8 \<Rightarrow> int res" where
  "fill_miscompare iover bio lba_offset cur pattern =
     bnd (miscompare_message cur) (\<lambda>u.
     bnd (miscompare_dump iover bio lba_offset 0 pattern) (\<lambda>u. Inr (- 1)))"

definition identify_dealloc_block ::
  "iover \<Rightarrow> job_params \<Rightarrow> bio \<Rightarrow> u32 \<Rightarrow> block_desc \<Rightarrow> int res" where
  "identify_dealloc_block iover jp bio lba_offset bd =
     (let ds = ns_data_size (iv_ns_info iover); data = block_data iover bio lba_offset;
          vt = jp_dealloc_read_value_type jp;
          unidentified = bnd (miscompare_message bd) (\<lambda>u.
            bnd (dump_data data (unat ds) 0) (\<lambda>ls. Inr (- 1 :: int))) in
      bnd (if vt AND dealloc_read_value_type_zeroes \<noteq> 0 then is_all_zeroes data ds else Inr False) (\<lambda>z.
      if z then Inr 0 else
      bnd (if vt AND dealloc_read_value_type_ones \<noteq> 0 then is_all_ones data ds else Inr False) (\<lambda>o'.
      if o' then Inr 1 else
      if vt AND dealloc_read_value_type_last \<noteq> 0 then
        bnd (datagen_get_header (iv_datagen iover) data) (\<lambda>hdr.
        case hdr of
          Some (read_lba, read_timestamp, pattern) \<Rightarrow>
            if read_lba = bio_lba bio lba_offset \<and> read_timestamp = ucast (bd_timestamp bd) then
              bnd (verify_block_body iover bio lba_offset bd pattern) (\<lambda>res.
              if res = 0 then Inr 2 else Inr (- 1))
            else Inr (- 1)
        | None \<Rightarrow> unidentified)
      else unidentified)))"

definition verify_write_zeroes_block :: "iover \<Rightarrow> bio \<Rightarrow> u32 \<Rightarrow> block_desc \<Rightarrow> int res" where
  "verify_write_zeroes_block iover bio lba_offset cur =
     bnd (is_all_zeroes (block_data iover bio lba_offset) (ns_data_size (iv_ns_info iover))) (\<lambda>res.
     if \<not> res then fill_miscompare iover bio lba_offset cur PATTERN_ZEROES else Inr 0)"

text \<open>The returned value and the descriptor as the call leaves it.\<close>

definition verify_dealloc_block ::
  "iover \<Rightarrow> job_params \<Rightarrow> bio \<Rightarrow> u32 \<Rightarrow> block_desc \<Rightarrow> (int \<times> block_desc) res" where
  "verify_dealloc_block iover jp bio lba_offset cur =
     (let ds = ns_data_size (iv_ns_info iover); data = block_data iover bio lba_offset;
          vt = jp_dealloc_read_value_type jp in
      if vt = dealloc_read_value_type_last then
        bnd (verify_block_data iover jp bio lba_offset cur) (\<lambda>res. Inr (0, cur))
      else if vt = dealloc_read_value_type_zeroes then
        bnd (is_all_zeroes data ds) (\<lambda>res.
        if \<not> res then bnd (fill_miscompare iover bio lba_offset cur PATTERN_ZEROES) (\<lambda>r. Inr (r, cur))
        else Inr (0, cur))
      else if vt = dealloc_read_value_type_ones then
        bnd (is_all_ones data ds) (\<lambda>res.
        if \<not> res then bnd (fill_miscompare iover bio lba_offset cur PATTERN_ONES) (\<lambda>r. Inr (r, cur))
        else Inr (0, cur))
      else
        bnd (identify_dealloc_block iover jp bio lba_offset cur) (\<lambda>res.
        Inr (0, if 0 < res then cur\<lparr>bd_pattern := of_int res\<rparr> else cur)))"

definition get_metadata :: "iover \<Rightarrow> bio \<Rightarrow> u32 \<Rightarrow> (bytes \<times> nat) option" where
  "get_metadata iover bio lba_offset =
     (let ms = ns_meta_size (iv_ns_info iover) in
      if ms = 0 then None
      else if b_pract bio \<and> ms = 8 then None
      else Some (meta_position iover bio lba_offset))"

text \<open>The metadata part of the check of an unwritten block that must read as zeroes.\<close>

definition verify_unwritten_meta :: "iover \<Rightarrow> bio \<Rightarrow> u32 \<Rightarrow> block_desc \<Rightarrow> int res" where
  "verify_unwritten_meta iover bio lba_offset cur =
     (let ns = iv_ns_info iover; ds = ns_data_size ns; ms = ns_meta_size ns in
      case get_metadata iover bio lba_offset of
        None \<Rightarrow> Inr 0
      | Some (buf, off) \<Rightarrow>
          let meta = drop off buf;
              bad = bnd (miscompare_message cur) (\<lambda>u.
                bnd (miscompare_dump_meta_unwritten iover unwr_read_value_type_zeroes meta) (\<lambda>u.
                Inr (- 1 :: int))) in
          if ns_pi_type ns \<noteq> 0 then
            bnd (if ns_pi_loc ns = 0
                 then if off + unat ms < 8 then Inl Fault else Inr (drop (off + unat ms - 8) buf)
                 else Inr meta) (\<lambda>pi.
            bnd (is_all_ones pi 8) (\<lambda>res.
            if \<not> res then bad
            else if 8 < ms then
              bnd (if ns_pi_loc ns = 0 then is_all_zeroes meta (ms - 8)
                   else is_all_zeroes (drop 8 meta) (ms - 8)) (\<lambda>res.
              if \<not> res then bad else Inr 0)
            else Inr 0))
          else
            bnd (is_all_zeroes (block_data iover bio lba_offset) ds) (\<lambda>res.
            if \<not> res then bad else Inr 0))"

text \<open>
  The default branch of the switch tests the value type for zeroes and ones again; these tests
  cannot succeed there, so it dumps the data and returns -1.
\<close>

definition verify_unwritten_block ::
  "iover \<Rightarrow> job_params \<Rightarrow> bio \<Rightarrow> u32 \<Rightarrow> block_desc \<Rightarrow> (int \<times> block_desc) res" where
  "verify_unwritten_block iover jp bio lba_offset cur =
     (let ds = ns_data_size (iv_ns_info iover); data = block_data iover bio lba_offset;
          vt = jp_unwr_read_value_type jp in
      if jp_unwr_read_result_type jp \<noteq> read_result_value then Inr (0, cur)
      else if vt = unwr_read_value_type_zeroes then
        bnd (is_all_zeroes data ds) (\<lambda>res.
        if \<not> res then bnd (fill_miscompare iover bio lba_offset cur PATTERN_ZEROES) (\<lambda>r. Inr (r, cur))
        else bnd (verify_unwritten_meta iover bio lba_offset cur) (\<lambda>r. Inr (r, cur)))
      else if vt = unwr_read_value_type_ones then
        bnd (is_all_ones data ds) (\<lambda>res.
        if \<not> res then bnd (fill_miscompare iover bio lba_offset cur PATTERN_ONES) (\<lambda>r. Inr (r, cur))
        else Inr (0, cur))
      else bnd (dump_data data (unat ds) 0) (\<lambda>ls. Inr (- 1, cur)))"

section \<open>Checking a read\<close>

definition check_read_step ::
  "iover \<Rightarrow> job_params \<Rightarrow> bio \<Rightarrow> nat \<Rightarrow> bool \<Rightarrow> bool res" where
  "check_read_step iover jp bio lba_offset found =
     (if found then Inr True else
      bnd (if jp_lba_overlap jp
           then bnd (arr_get (b_block_desc bio) lba_offset) (\<lambda>d. Inr (bd_state d = block_state_unwritten))
           else Inr False) (\<lambda>skip.
      if skip then Inr False else
      bnd (arr_get (iv_block_desc iover) (unat (b_slba bio + of_nat lba_offset))) (\<lambda>cur.
      Inr (bd_state cur = block_state_uncor))))"

text \<open>The early return is a flag that makes the remaining iterations skip.\<close>

definition check_read_error :: "iover \<Rightarrow> job_params \<Rightarrow> bio \<Rightarrow> int res" where
  "check_read_error iover jp bio =
     bnd (for_upto 0 (nlbs_nat bio) (check_read_step iover jp bio) False) (\<lambda>found.
     Inr (if found then - 1 else 0))"

text \<open>The result for one block whose current descriptor is \<open>cur\<close>; other states are not checked.\<close>

definition verify_block ::
  "bytes \<Rightarrow> iover \<Rightarrow> job_params \<Rightarrow> bio \<Rightarrow> u32 \<Rightarrow> block_desc \<Rightarrow> int res" where
  "verify_block junk iover jp bio lba_offset cur =
     (let ns = iv_ns_info iover in
      if bd_state cur = block_state_unwritten then
        bnd (verify_unwritten_block iover jp bio lba_offset cur) (\<lambda>(res, d). Inr res)
      else if bd_state cur = block_state_dealloc then
        bnd (verify_dealloc_block iover jp bio lba_offset cur) (\<lambda>(res, d). Inr res)
      else if bd_state cur = block_state_uncor then
        if b_result bio = 0
        then bnd (dump_data (block_data iover bio lba_offset) (unat (ns_data_size ns)) 0) (\<lambda>ls. Inr 0)
        else Inr 0
      else if bd_state cur = block_state_data then
        bnd (verify_block_data iover jp bio lba_offset cur) (\<lambda>res.
        if res = 0 \<and> 0 < ns_meta_size ns \<and> \<not> (b_pract bio \<and> ns_meta_size ns = 8)
        then verify_block_meta junk iover bio lba_offset else Inr res)
      else if bd_state cur = block_state_zeroes then
        bnd (verify_write_zeroes_block iover bio lba_offset cur) (\<lambda>res. Inr 0)
      else Inr 0)"

text \<open>One iteration; the state is \<open>final_res\<close>.\<close>

definition verify_read_step ::
  "bytes \<Rightarrow> iover \<Rightarrow> job_params \<Rightarrow> bio \<Rightarrow> nat \<Rightarrow> int \<Rightarrow> int res" where
  "verify_read_step junk iover jp bio lba_offset final_res =
     bnd (if jp_lba_overlap jp
          then bnd (arr_get (b_block_desc bio) lba_offset) (\<lambda>d. Inr (bd_state d = block_state_unwritten))
          else Inr False) (\<lambda>skip.
     if skip then Inr final_res else
     bnd (arr_get (iv_block_desc iover) (unat (b_slba bio + of_nat lba_offset))) (\<lambda>cur.
     bnd (verify_block junk iover jp bio (of_nat lba_offset) cur) (\<lambda>res.
     Inr (if res \<noteq> 0 \<and> final_res = 0 then res else final_res))))"

definition verify_bio_read :: "bytes \<Rightarrow> iover \<Rightarrow> job_params \<Rightarrow> bio \<Rightarrow> int res" where
  "verify_bio_read junk iover jp bio =
     for_upto 0 (nlbs_nat bio) (verify_read_step junk iover jp bio) 0"

text \<open>
  Replay of the history: only \<open>bd[BD_NEXT]\<close> is tried. \<open>res\<close> is the entry of the result array
  for it, which keeps its value over iterations that do not set it. The condition \<open>res == 0\<close> of
  the source compares the array with a null pointer, so the metadata is never checked.
\<close>

definition verify_hist_block ::
  "iover \<Rightarrow> job_params \<Rightarrow> bio \<Rightarrow> u32 \<Rightarrow> block_desc \<Rightarrow> int \<Rightarrow> (int \<times> block_desc) res" where
  "verify_hist_block iover jp bio lba_offset bd res =
     (let ns = iv_ns_info iover in
      if bd_state bd = block_state_unwritten then verify_unwritten_block iover jp bio lba_offset bd
      else if bd_state bd = block_state_dealloc then verify_dealloc_block iover jp bio lba_offset bd
      else if bd_state bd = block_state_uncor then
        bnd (dump_data (block_data iover bio lba_offset) (unat (ns_data_size ns)) 0) (\<lambda>ls. Inr (res, bd))
      else if bd_state bd = block_state_data then
        bnd (verify_block_data iover jp bio lba_offset bd) (\<lambda>r. Inr (r, bd))
      else if bd_state bd = block_state_zeroes then
        bnd (verify_write_zeroes_block iover bio lba_offset bd) (\<lambda>r. Inr (r, bd))
      else Inr (res, bd))"

definition verify_hist_step ::
  "job_params \<Rightarrow> bio \<Rightarrow> nat \<Rightarrow> iover \<times> int \<times> int \<Rightarrow> (iover \<times> int \<times> int) res" where
  "verify_hist_step jp bio lba_offset = (\<lambda>(iover, res, final_res).
     bnd (arr_get (iv_hist_desc iover) (unat (b_hist_idx bio))) (\<lambda>hd.
     bnd (verify_hist_block iover jp bio (of_nat lba_offset) (hd_next hd) res) (\<lambda>(res, bd).
     let iover = iover\<lparr>iv_hist_desc := (iv_hist_desc iover)[unat (b_hist_idx bio) := hd\<lparr>hd_next := bd\<rparr>]\<rparr> in
     bnd (if res = 0
          then bnd (arr_set (iv_block_desc iover) (unat (b_slba bio + of_nat lba_offset)) bd)
                 (\<lambda>ds. Inr (iover\<lparr>iv_block_desc := ds\<rparr>))
          else Inr iover) (\<lambda>iover.
     Inr (iover, res, if res \<noteq> 0 then - 1 else final_res)))))"

definition verify_hist_read ::
  "bytes \<Rightarrow> iover \<Rightarrow> job_params \<Rightarrow> bio \<Rightarrow> (iover \<times> int) res" where
  "verify_hist_read junk iover jp bio =
     bnd (verify_bio_read junk iover jp bio) (\<lambda>r.
     if r = 0 then Inr (iover, 0) else
     bnd (for_upto 0 (nlbs_nat bio) (verify_hist_step jp bio) (iover, 0, 0)) (\<lambda>(iover, res, final_res).
     Inr (iover, final_res)))"

section \<open>Generating the data of a request\<close>

definition upd_at :: "bytes \<Rightarrow> nat \<Rightarrow> (bytes \<Rightarrow> bytes res) \<Rightarrow> bytes res" where
  "upd_at buf off f =
     (if off \<le> length buf then bnd (f (drop off buf)) (\<lambda>t. Inr (take off buf @ t)) else Inl Fault)"

text \<open>The tags that switch the check of the protection information off.\<close>

definition escape_tags :: "namespace_info \<Rightarrow> bytes \<Rightarrow> bytes res" where
  "escape_tags ns meta =
     (let ms = unat (ns_meta_size ns) in
      bnd (if ns_pi_loc ns \<noteq> 0 then Inr 0 else if ms < 8 then Inl Fault else Inr (ms - 8)) (\<lambda>pi.
      bnd (mem_write meta (pi + 2) (le_bytes 2 (0xFFFF :: u16))) (\<lambda>meta.
      if ns_pi_type ns = 3 then mem_write meta (pi + 4) (le_bytes 4 (0xFFFFFFFF :: u32)) else Inr meta)))"

text \<open>
  The body of the write loop; \<open>escape\<close> says for each block whether \<open>rand() % 10\<close> is 0. The
  product \<open>block_size * lba_offset\<close> is computed in 64 bits here.
\<close>

definition generate_meta ::
  "iover \<Rightarrow> (nat \<Rightarrow> bool) \<Rightarrow> nat \<Rightarrow> u64 \<Rightarrow> bytes \<Rightarrow> bytes \<Rightarrow> bytes res" where
  "generate_meta iover escape lba_offset lba meta data =
     bnd (datagen_set_meta (iv_datagen iover) meta data lba) (\<lambda>meta.
     if escape lba_offset then escape_tags (iv_ns_info iover) meta else Inr meta)"

definition generate_block ::
  "iover \<Rightarrow> (nat \<Rightarrow> bool) \<Rightarrow> nat \<Rightarrow> bio \<Rightarrow> bio res" where
  "generate_block iover escape lba_offset bio =
     (let ns = iv_ns_info iover; dg = iv_datagen iover; lba = b_slba bio + of_nat lba_offset;
          off = unat (ucast (get_block_size iover bio) * of_nat lba_offset :: u64);
          ds = unat (ns_data_size ns) in
      if dg_npatterns dg = 0 then Inl Fault else
      let pattern = ucast ((iv_timestamp iover + lba) mod of_nat (dg_npatterns dg)) in
      bnd (upd_at (b_data bio) off (\<lambda>d. datagen_set_data dg d lba (iv_timestamp iover) pattern)) (\<lambda>data.
      if ns_meta_size ns \<noteq> 0 \<and> \<not> (b_pract bio \<and> ns_meta_size ns = 8) then
        if ns_extended_lba ns then
          bnd (upd_at data (off + ds) (\<lambda>m. generate_meta iover escape lba_offset lba m (drop off data))) (\<lambda>data.
          Inr (bio\<lparr>b_data := data\<rparr>))
        else
          bnd (upd_at (b_meta bio) (unat (ucast (ns_meta_size ns) * of_nat lba_offset :: u64))
                 (\<lambda>m. generate_meta iover escape lba_offset lba m (drop off data))) (\<lambda>meta.
          Inr (bio\<lparr>b_data := data, b_meta := meta\<rparr>))
      else Inr (bio\<lparr>b_data := data\<rparr>)))"

text \<open>The tags of the request; \<open>pr_info_buf\<close> is the uninitialised local buffer.\<close>

definition set_tags :: "pr_info \<Rightarrow> iover \<Rightarrow> bio \<Rightarrow> bio" where
  "set_tags pr_info_buf iover bio =
     (if ns_pi_type (iv_ns_info iover) \<noteq> 0 \<and> ns_meta_size (iv_ns_info iover) \<noteq> 0
      then let pi = fst (datagen_set_pi (iv_datagen iover) pr_info_buf (b_slba bio))
           in bio\<lparr>b_apptag := htons (app pi), b_reftag := htonl (ref pi)\<rparr>
      else bio)"

text \<open>The result is the returned value.\<close>

definition iover_generate_data ::
  "pr_info \<Rightarrow> (nat \<Rightarrow> bool) \<Rightarrow> iover \<Rightarrow> job_params \<Rightarrow> bio \<Rightarrow> (int \<times> iover \<times> bio) res" where
  "iover_generate_data pr_info_buf escape iover jp bio =
     bnd (if \<not> jp_lba_overlap jp \<and> bio_opcode_num (b_opcode bio) < bio_opcode_num bio_identify
          then try_lock_lbas (iv_lba_lock iover) bio else Inr (0, iv_lba_lock iover)) (\<lambda>(res, lock).
     let iover = iover\<lparr>iv_lba_lock := lock\<rparr> in
     if res \<noteq> 0 then Inr (res, iover, bio) else
     let bio = set_tags pr_info_buf iover bio in
     case b_opcode bio of
       bio_read \<Rightarrow>
         if jp_compare jp \<and> jp_lba_overlap jp then
           bnd (mem_read (iv_block_desc iover) (slba_nat bio) (nlbs_nat bio)) (\<lambda>ds.
           bnd (mem_write (b_block_desc bio) 0 ds) (\<lambda>bds.
           Inr (0, iover, bio\<lparr>b_block_desc := bds\<rparr>)))
         else Inr (0, iover, bio)
     | bio_write \<Rightarrow>
         if jp_compare jp then
           let iover = iover\<lparr>iv_timestamp := iv_timestamp iover + 1\<rparr> in
           bnd (for_upto 0 (nlbs_nat bio) (generate_block iover escape) bio) (\<lambda>bio.
           Inr (0, iover, bio))
         else Inr (0, iover, bio)
     | _ \<Rightarrow> Inr (0, iover, bio))"

section \<open>Recording what was done to the blocks\<close>

text \<open>The header of the block at \<open>lba_offset\<close> of a write; without one the process exits.\<close>

definition written_header :: "iover \<Rightarrow> bio \<Rightarrow> nat \<Rightarrow> (u64 \<times> u64 \<times> u8) res" where
  "written_header iover bio lba_offset =
     bnd (datagen_get_header (iv_datagen iover) (block_data iover bio (of_nat lba_offset))) (\<lambda>hdr.
     case hdr of
       None \<Rightarrow> bnd (dump_data (b_data bio) (unat (b_data_size bio)) 0) (\<lambda>ls. Inl (Exit 0))
     | Some h \<Rightarrow> Inr h)"

definition upd_desc :: "iover \<Rightarrow> bio \<Rightarrow> nat \<Rightarrow> (block_desc \<Rightarrow> block_desc) \<Rightarrow> iover res" where
  "upd_desc iover bio lba_offset f =
     (let lba = unat (b_slba bio + of_nat lba_offset) in
      bnd (arr_get (iv_block_desc iover) lba) (\<lambda>d.
      Inr (iover\<lparr>iv_block_desc := (iv_block_desc iover)[lba := f d]\<rparr>)))"

definition commit_data :: "3 word \<Rightarrow> bio \<Rightarrow> nat \<Rightarrow> iover \<Rightarrow> iover res" where
  "commit_data state bio lba_offset iover =
     bnd (written_header iover bio lba_offset) (\<lambda>(read_lba, read_timestamp, pattern).
     upd_desc iover bio lba_offset (\<lambda>d. d\<lparr>bd_state := state, bd_pattern := ucast pattern,
       bd_timestamp := ucast read_timestamp\<rparr>))"

definition commit_state :: "3 word \<Rightarrow> bio \<Rightarrow> nat \<Rightarrow> iover \<Rightarrow> iover res" where
  "commit_state state bio lba_offset iover =
     upd_desc iover bio lba_offset (\<lambda>d. d\<lparr>bd_state := state\<rparr>)"

definition commit_block_state :: "job_params \<Rightarrow> iover \<Rightarrow> bio \<Rightarrow> iover res" where
  "commit_block_state jp iover bio =
     (if \<not> jp_compare jp then Inr iover else
      case b_opcode bio of
        bio_write \<Rightarrow> for_upto 0 (nlbs_nat bio) (commit_data block_state_data bio) iover
      | bio_deallocate \<Rightarrow> for_upto 0 (nlbs_nat bio) (commit_state block_state_dealloc bio) iover
      | bio_write_zeroes \<Rightarrow> for_upto 0 (nlbs_nat bio) (commit_state block_state_zeroes bio) iover
      | bio_write_uncorrect \<Rightarrow> for_upto 0 (nlbs_nat bio) (commit_state block_state_uncor bio) iover
      | _ \<Rightarrow> Inr iover)"

definition commit_block_state_unwritten :: "job_params \<Rightarrow> iover \<Rightarrow> bio \<Rightarrow> iover res" where
  "commit_block_state_unwritten jp iover bio =
     (if jp_compare jp
      then for_upto 0 (nlbs_nat bio) (commit_data block_state_unwritten bio) iover else Inr iover)"

text \<open>
  One entry of the history ring: \<open>bd[BD_CURR]\<close> is copied from \<open>iover->block_desc\<close>, the first
  descriptor of the namespace; then the index advances.
\<close>

definition push_hist ::
  "bio \<Rightarrow> nat \<Rightarrow> (block_desc \<Rightarrow> block_desc) \<Rightarrow> iover \<Rightarrow> iover res" where
  "push_hist bio lba_offset f iover =
     (case iv_journal iover of
        None \<Rightarrow> Inl Fault
      | Some (jh, jf) \<Rightarrow>
          bnd (arr_get (iv_hist_desc iover) (unat (jh_hist_idx jh))) (\<lambda>hd.
          bnd (arr_get (iv_block_desc iover) 0) (\<lambda>bd.
          let hd = hd\<lparr>hd_lba := b_slba bio + of_nat lba_offset, hd_curr := bd, hd_next := f (hd_next hd)\<rparr> in
          if jh_nhist jh = 0 then Inl Fault else
          Inr (iover\<lparr>iv_hist_desc := (iv_hist_desc iover)[unat (jh_hist_idx jh) := hd],
             iv_journal := Some (jh\<lparr>jh_hist_idx := (jh_hist_idx jh + 1) mod jh_nhist jh\<rparr>, jf)\<rparr>))))"

definition backup_hist_write :: "bio \<Rightarrow> nat \<Rightarrow> iover \<Rightarrow> iover res" where
  "backup_hist_write bio lba_offset iover =
     bnd (written_header iover bio lba_offset) (\<lambda>(read_lba, read_timestamp, pattern).
     push_hist bio lba_offset (\<lambda>d. d\<lparr>bd_state := block_state_data, bd_pattern := ucast pattern,
       bd_timestamp := ucast read_timestamp\<rparr>) iover)"

text \<open>The uncorrectable case stores the operation code (5), not the block state (2).\<close>

definition backup_hist_state :: "job_params \<Rightarrow> iover \<Rightarrow> bio \<Rightarrow> iover res" where
  "backup_hist_state jp iover bio =
     (let set_state = (\<lambda>st lba_offset. push_hist bio lba_offset (\<lambda>d. d\<lparr>bd_state := st\<rparr>)) in
      if jp_history jp = 0 \<or> \<not> jp_compare jp then Inr iover else
      case b_opcode bio of
        bio_write \<Rightarrow> for_upto 0 (nlbs_nat bio) (backup_hist_write bio) iover
      | bio_deallocate \<Rightarrow> for_upto 0 (nlbs_nat bio) (set_state block_state_dealloc) iover
      | bio_write_zeroes \<Rightarrow> for_upto 0 (nlbs_nat bio) (set_state block_state_zeroes) iover
      | bio_write_uncorrect \<Rightarrow>
          for_upto 0 (nlbs_nat bio) (set_state (of_nat (bio_opcode_num bio_write_uncorrect))) iover
      | _ \<Rightarrow> Inr iover)"

definition clear_hist :: "iover \<Rightarrow> iover res" where
  "clear_hist iover =
     (case iv_journal iover of
        None \<Rightarrow> Inl Fault
      | Some (jh, jf) \<Rightarrow>
          let ff = \<lparr>bd_timestamp = - 1, bd_state = - 1, bd_pattern = - 1, bd_flags = - 1\<rparr> in
          Inr (iover\<lparr>iv_journal := Some (jh\<lparr>jh_hist_idx := 0\<rparr>, jf),
            iv_hist_desc := replicate (unat (ns_nhist (iv_ns_info iover)))
              \<lparr>hd_lba = - 1, hd_curr = ff, hd_next = ff\<rparr>\<rparr>))"

definition check_written_step :: "iover \<Rightarrow> bio \<Rightarrow> nat \<Rightarrow> bool \<Rightarrow> bool res" where
  "check_written_step iover bio lba_offset found =
     (if found then Inr True else
      bnd (arr_get (iv_block_desc iover) (unat (b_slba bio + of_nat lba_offset))) (\<lambda>cur.
      Inr (bd_state cur \<in> {block_state_uncor, block_state_data, block_state_zeroes})))"

definition iover_check_written :: "iover \<Rightarrow> bio \<Rightarrow> int res" where
  "iover_check_written iover bio =
     bnd (for_upto 0 (nlbs_nat bio) (check_written_step iover bio) False) (\<lambda>found.
     Inr (if found then 1 else 0))"

section \<open>Completion of a request\<close>

text \<open>The parts of \<open>struct iogen_job\<close> and of its \<open>iogen\<close> the verifier uses.\<close>

record verify_job =
  vj_params :: job_params
  vj_identify_valid :: bool
  vj_identify :: bytes
  vj_iogen_result :: int

definition submit_identify :: "verify_job \<Rightarrow> bio \<Rightarrow> (int \<times> bio \<times> verify_job) res" where
  "submit_identify job bio =
     bnd (mem_read (b_data_buf bio) 0 4096) (\<lambda>page.
     if vj_identify_valid job then
       bnd (mem_read (vj_identify job) 0 4096) (\<lambda>idn.
       let res = memcmp idn page in
       Inr (res, if res \<noteq> 0 then bio\<lparr>b_result := res\<rparr> else bio, job))
     else
       bnd (mem_write (vj_identify job) 0 page) (\<lambda>idn.
       Inr (0, bio, job\<lparr>vj_identify := idn, vj_identify_valid := True\<rparr>)))"

definition submit_read ::
  "bytes \<Rightarrow> iover \<Rightarrow> verify_job \<Rightarrow> bio \<Rightarrow> (int \<times> iover \<times> verify_job) res" where
  "submit_read junk iover job bio =
     (if 0 < iv_nthreads iover then Inr (0, iover, job) else
      bnd (if b_hist_idx bio \<noteq> 0xFFFFFFFF then verify_hist_read junk iover (vj_params job) bio
           else bnd (verify_bio_read junk iover (vj_params job) bio) (\<lambda>r. Inr (iover, r))) (\<lambda>(iover, res).
      if res \<noteq> 0 \<and> \<not> jp_stop_on_miscompare (vj_params job)
      then Inr (0, iover, job\<lparr>vj_iogen_result := 1\<rparr>) else Inr (res, iover, job)))"

definition iover_submit ::
  "bytes \<Rightarrow> iover \<Rightarrow> verify_job \<Rightarrow> bio \<Rightarrow> (int \<times> iover \<times> bio \<times> verify_job) res" where
  "iover_submit junk iover job bio =
     (let jp = vj_params job in
      bnd (if \<not> jp_lba_overlap jp then unlock_lbas (iv_lba_lock iover) bio
           else Inr (iv_lba_lock iover)) (\<lambda>lock.
      let iover = iover\<lparr>iv_lba_lock := lock\<rparr> in
      bnd (if b_result bio \<noteq> b_expected_result bio then
             bnd (check_read_error iover jp bio) (\<lambda>e.
             if e = 0 then bnd (iover_check_written iover bio) (\<lambda>w. Inr (w \<noteq> 0)) else Inr False)
           else Inr False) (\<lambda>unexpected.
      bnd (if unexpected then arr_get bio_opcode_strings (bio_opcode_num (b_opcode bio)) else Inr [])
        (\<lambda>printed.
      if unexpected \<and> jp_stop_on_error jp then Inr (- 1, iover, bio, job)
      else if b_result bio \<noteq> 0 \<or> \<not> jp_compare jp then Inr (0, iover, bio, job)
      else if b_opcode bio = bio_identify then
        bnd (submit_identify job bio) (\<lambda>(res, bio, job). Inr (res, iover, bio, job))
      else if b_opcode bio \<noteq> bio_read then
        bnd (commit_block_state jp iover bio) (\<lambda>iover. Inr (0, iover, bio, job))
      else
        bnd (submit_read junk iover job bio) (\<lambda>(res, iover, job). Inr (res, iover, bio, job))))))"

end
