(* ===== verification/IoverCorrect.thy ===== *)
theory IoverCorrect
  imports Iover
begin

text \<open>
  Correctness of the verifier's block checks. \<open>iover_ok\<close> is what \<open>iover_init\<close> establishes between
  the namespace and the data generator; \<open>bio_ok\<close> is what the i/o generator guarantees of a
  request: it lies inside the namespace and its buffers hold all of its blocks.
\<close>

section \<open>Well-formed verifier and requests\<close>

definition iover_ok :: "iover \<Rightarrow> bool" where
  "iover_ok iv \<longleftrightarrow>
     (let ns = iv_ns_info iv; dg = iv_datagen iv in
      datagen_ok dg \<and> 0 < dg_npatterns dg \<and> dg_data_size dg = ns_data_size ns \<and>
      unat (ns_block_size ns) =
        unat (ns_data_size ns) + (if ns_extended_lba ns then unat (ns_meta_size ns) else 0) \<and>
      (ns_meta_size ns \<noteq> 0 \<longrightarrow>
         meta_ok dg \<and> dg_meta_size dg = ns_meta_size ns \<and> ns_pi_loc ns \<in> {0, 1} \<and> dg_pi_type dg = 1 \<and>
         dg_pi_offset dg = (if ns_pi_loc ns = 1 then 0 else ns_meta_size ns - 8)))"

definition bio_ok :: "iover \<Rightarrow> bio \<Rightarrow> bool" where
  "bio_ok iv bio \<longleftrightarrow>
     (let ns = iv_ns_info iv; bs = unat (get_block_size iv bio) in
      slba_nat bio + nlbs_nat bio \<le> length (iv_block_desc iv) \<and> length (iv_block_desc iv) < 2 ^ 64 \<and>
      bs * nlbs_nat bio \<le> length (b_data bio) \<and> bs * nlbs_nat bio < 2 ^ 32 \<and>
      (ns_meta_size ns \<noteq> 0 \<and> \<not> ns_extended_lba ns \<longrightarrow>
         unat (ns_meta_size ns) * nlbs_nat bio \<le> length (b_meta bio) \<and>
         unat (ns_meta_size ns) * nlbs_nat bio < 2 ^ 32))"

text \<open>Whether the blocks of a request carry metadata the host sees.\<close>

definition host_meta :: "iover \<Rightarrow> bio \<Rightarrow> bool" where
  "host_meta iv bio \<longleftrightarrow>
     ns_meta_size (iv_ns_info iv) \<noteq> 0 \<and> \<not> (b_pract bio \<and> ns_meta_size (iv_ns_info iv) = 8)"

abbreviation (input) bsz :: "iover \<Rightarrow> bio \<Rightarrow> nat" where
  "bsz iv bio \<equiv> unat (get_block_size iv bio)"

abbreviation (input) dsz :: "iover \<Rightarrow> nat" where
  "dsz iv \<equiv> unat (ns_data_size (iv_ns_info iv))"

abbreviation (input) msz :: "iover \<Rightarrow> nat" where
  "msz iv \<equiv> unat (ns_meta_size (iv_ns_info iv))"

lemma word_mult_of_nat:
  fixes w :: "'a::len word"
  assumes "lo < n" and "unat w * n < 2 ^ LENGTH('a)"
  shows "unat (w * of_nat lo) = unat w * lo"
proof -
  have "unat w * lo < 2 ^ LENGTH('a)"
    using assms by (meson le_less_trans less_imp_le_nat mult_le_mono2)
  moreover have "w * of_nat lo = of_nat (unat w * lo)" by simp
  ultimately show ?thesis by (simp only: unat_of_nat) simp
qed

lemma bio_okD:
  assumes "bio_ok iv bio" and "lo < nlbs_nat bio"
  shows "unat (b_slba bio + of_nat lo) = slba_nat bio + lo"
    and "slba_nat bio + lo < length (iv_block_desc iv)"
    and "unat (get_block_size iv bio * of_nat lo) = bsz iv bio * lo"
    and "bsz iv bio * lo + bsz iv bio \<le> length (b_data bio)"
proof -
  have b: "slba_nat bio + nlbs_nat bio \<le> length (iv_block_desc iv)"
    "length (iv_block_desc iv) < 2 ^ 64" "bsz iv bio * nlbs_nat bio \<le> length (b_data bio)"
    "bsz iv bio * nlbs_nat bio < 2 ^ 32"
    using assms(1) by (auto simp: bio_ok_def Let_def)
  have "slba_nat bio + lo < 2 ^ 64" using b assms(2) by linarith
  moreover have "b_slba bio + of_nat lo = of_nat (slba_nat bio + lo)" by simp
  ultimately show "unat (b_slba bio + of_nat lo) = slba_nat bio + lo"
    by (simp only: unat_of_nat) simp
  show "slba_nat bio + lo < length (iv_block_desc iv)" using b assms(2) by linarith
  show "unat (get_block_size iv bio * of_nat lo) = bsz iv bio * lo"
    by (rule word_mult_of_nat[OF assms(2)]) (use b(4) in simp)
  have "bsz iv bio * Suc lo \<le> bsz iv bio * nlbs_nat bio" using assms(2) by (intro mult_le_mono2) simp
  then show "bsz iv bio * lo + bsz iv bio \<le> length (b_data bio)" using b(3) by simp
qed

lemma block_data_eq:
  assumes "bio_ok iv bio" and "lo < nlbs_nat bio"
  shows "block_data iv bio (of_nat lo) = drop (bsz iv bio * lo) (b_data bio)"
  by (simp add: block_data_def bio_okD(3)[OF assms])

lemma block_size_cases:
  assumes "iover_ok iv"
  shows "bsz iv bio = dsz iv + (if ns_extended_lba (iv_ns_info iv) \<and> \<not> (b_pract bio \<and> ns_meta_size (iv_ns_info iv) = 8)
    then msz iv else 0)"
  using assms by (auto simp: iover_ok_def get_block_size_def Let_def)

lemma block_data_length:
  assumes "iover_ok iv" and "bio_ok iv bio" and "lo < nlbs_nat bio"
  shows "unat (dg_data_size (iv_datagen iv)) \<le> length (block_data iv bio (of_nat lo))"
  using block_size_cases[OF assms(1), of bio] bio_okD(4)[OF assms(2,3)] assms(1)
  by (auto simp: block_data_eq[OF assms(2,3)] iover_ok_def Let_def)

lemma bio_lba_of_nat:
  assumes "lo < nlbs_nat bio"
  shows "bio_lba bio (of_nat lo) = b_slba bio + of_nat lo"
proof -
  have "nlbs_nat bio < 2 ^ 32" by (rule order_less_le_trans[OF unsigned_less]) simp
  then have "lo < 2 ^ 32" using assms by simp
  then have "(ucast (of_nat lo :: u32) :: u64) = of_nat lo"
    by (simp add: unsigned_of_nat take_bit_nat_eq_self)
  then show ?thesis by (simp add: bio_lba_def)
qed

section \<open>What the data check accepts\<close>

text \<open>The issue-time descriptor, which only a job with overlapping requests looks at.\<close>

definition issue_ok :: "job_params \<Rightarrow> bio \<Rightarrow> nat \<Rightarrow> bool" where
  "issue_ok jp bio lo \<longleftrightarrow> jp_lba_overlap jp \<longrightarrow> lo < length (b_block_desc bio)"

definition header_accepted ::
  "iover \<Rightarrow> job_params \<Rightarrow> bio \<Rightarrow> nat \<Rightarrow> block_desc \<Rightarrow> u8 \<Rightarrow> bool" where
  "header_accepted iv jp bio lo cur p \<longleftrightarrow>
     (\<exists>ts. datagen_get_header (iv_datagen iv) (block_data iv bio (of_nat lo)) =
        Inr (Some (b_slba bio + of_nat lo, ts, p)) \<and>
      timestamp_accepted jp (ucast ts) (bd_timestamp (b_block_desc bio ! lo)) (bd_timestamp cur))"

lemma header_miscompare_not_Some: "header_miscompare iv bio lo cur \<noteq> Inr (Some p)"
  by (auto simp: header_miscompare_def bnd_eq_Inr)

lemma verify_block_header_iff:
  assumes "lo < nlbs_nat bio" and "issue_ok jp bio lo"
  shows "verify_block_header iv jp bio (of_nat lo) cur = Inr (Some p) \<longleftrightarrow>
    header_accepted iv jp bio lo cur p"
proof -
  have "nlbs_nat bio < 2 ^ 32" by (rule order_less_le_trans[OF unsigned_less]) simp
  then have lo: "unat (of_nat lo :: u32) = lo" using assms(1) by (simp add: unat_of_nat)
  have iss: "arr_get (b_block_desc bio) lo = Inr (b_block_desc bio ! lo)" if "jp_lba_overlap jp"
    using assms(2) that by (simp add: issue_ok_def)
  note nm = header_miscompare_not_Some[of iv bio "of_nat lo" cur p]
  show ?thesis
  proof (cases "datagen_get_header (iv_datagen iv) (block_data iv bio (of_nat lo))")
    case (Inl e)
    then show ?thesis by (simp add: verify_block_header_def header_accepted_def Let_def)
  next
    case (Inr h)
    show ?thesis
    proof (cases h)
      case None
      then show ?thesis using Inr nm by (simp add: verify_block_header_def header_accepted_def Let_def)
    next
      case (Some t)
      obtain l ts q where t: "t = (l, ts, q)" by (cases t)
      show ?thesis
        using Inr Some t nm iss
        by (auto simp: verify_block_header_def header_accepted_def Let_def lo timestamp_accepted_def
            bio_lba_of_nat[OF assms(1)])
    qed
  qed
qed

lemma verify_block_body_iff:
  assumes "iover_ok iv" and "bio_ok iv bio" and "lo < nlbs_nat bio"
    and "unat p < dg_npatterns (iv_datagen iv)"
  shows "verify_block_body iv bio (of_nat lo) cur p = Inr 0 \<longleftrightarrow>
    take (unat (dg_body_size (iv_datagen iv))) (drop 20 (block_data iv bio (of_nat lo))) =
      body_of (iv_datagen iv) (unat p)"
proof -
  have dg: "datagen_ok (iv_datagen iv)" using assms(1) by (simp add: iover_ok_def Let_def)
  note b = pattern_body_ok[OF dg assms(4)] and d = datagen_okD(3,4)[OF dg assms(4)]
  note l = block_data_length[OF assms(1-3)]
  show ?thesis
    using b d l memcmp_0_iff[of "take (unat (dg_body_size (iv_datagen iv)))
        (drop 20 (block_data iv bio (of_nat lo)))" "body_of (iv_datagen iv) (unat p)"]
    by (auto simp: verify_block_body_def Let_def sizeof_block_header_def bnd_eq_Inr)
qed

lemma header_accepted_pattern:
  assumes "iover_ok iv" and "bio_ok iv bio" and "lo < nlbs_nat bio"
    and "header_accepted iv jp bio lo cur p"
  shows "unat p < dg_npatterns (iv_datagen iv)"
proof -
  have dg: "datagen_ok (iv_datagen iv)" using assms(1) by (simp add: iover_ok_def Let_def)
  show ?thesis
    using assms(4) datagen_get_header_iff[OF dg block_data_length[OF assms(1-3)]]
    by (auto simp: header_accepted_def)
qed

lemma verify_block_data_iff:
  assumes "iover_ok iv" and "bio_ok iv bio" and "lo < nlbs_nat bio" and "issue_ok jp bio lo"
  shows "verify_block_data iv jp bio (of_nat lo) cur = Inr 0 \<longleftrightarrow>
    (\<exists>p. header_accepted iv jp bio lo cur p \<and>
      (\<not> jp_compare_header_only jp \<longrightarrow>
        take (unat (dg_body_size (iv_datagen iv))) (drop 20 (block_data iv bio (of_nat lo))) =
          body_of (iv_datagen iv) (unat p)))"
proof -
  have "verify_block_data iv jp bio (of_nat lo) cur = Inr 0 \<longleftrightarrow>
      (\<exists>p. verify_block_header iv jp bio (of_nat lo) cur = Inr (Some p) \<and>
        (\<not> jp_compare_header_only jp \<longrightarrow> verify_block_body iv bio (of_nat lo) cur p = Inr 0))"
    by (cases "verify_block_header iv jp bio (of_nat lo) cur")
       (auto simp: verify_block_data_def split: option.splits)
  then show ?thesis
    using verify_block_header_iff[OF assms(3,4), of iv cur] verify_block_body_iff[OF assms(1-3), of _ cur]
      header_accepted_pattern[OF assms(1-3), of jp cur] by blast
qed

section \<open>What is generated\<close>

lemma mem_write_append:
  assumes "off + length xs \<le> length a"
  shows "mem_write (a @ b) off xs = bnd (mem_write a off xs) (\<lambda>a'. Inr (a' @ b))"
  using assms by simp

lemma upd_at_mem_write:
  assumes "off + length x \<le> length buf" and "f (drop off buf) = Inr (x @ drop (length x) (drop off buf))"
  shows "upd_at buf off f = mem_write buf off x"
  using assms by (simp add: upd_at_def add.commute)

lemma meta_image_cong:
  assumes "meta_ok dg" and "take (unat (dg_data_size dg)) data = take (unat (dg_data_size dg)) data'"
  shows "meta_image dg data lba = meta_image dg data' lba"
proof -
  have "unat (dg_meta_size dg) - PI_SIZE \<le> unat (dg_data_size dg)"
    using assms(1) by (auto simp: meta_ok_def)
  then have "take (unat (dg_meta_size dg) - PI_SIZE) data = take (unat (dg_meta_size dg) - PI_SIZE) data'"
    using assms(2) by (metis min.absorb1 take_take)
  then show ?thesis using assms(2) by (simp add: meta_image_def Let_def)
qed

lemma pi_escape_take:
  assumes "meta_ok dg"
  shows "pi_escape dg (take (unat (dg_meta_size dg)) m) = pi_escape dg m"
proof -
  have "unat (dg_pi_offset dg) + 8 \<le> unat (dg_meta_size dg)"
    using assms by (auto simp: meta_ok_def PI_SIZE_def)
  then show ?thesis by (simp add: pi_escape_def take_drop_take)
qed

lemma escape_tags_ok:
  assumes ok: "iover_ok iv" and ms: "ns_meta_size (iv_ns_info iv) \<noteq> 0" and l: "length m = msz iv"
  shows "\<exists>e. escape_tags (iv_ns_info iv) (m @ rest) = Inr (e @ rest) \<and> length e = msz iv \<and>
    pi_escape (iv_datagen iv) e"
proof -
  let ?ns = "iv_ns_info iv" and ?dg = "iv_datagen iv"
  define pi where "pi = unat (dg_pi_offset ?dg)"
  have mo: "meta_ok ?dg" "dg_meta_size ?dg = ns_meta_size ?ns" "dg_pi_type ?dg = 1"
    and loc: "ns_pi_loc ?ns = 0 \<or> ns_pi_loc ?ns = 1"
    "dg_pi_offset ?dg = (if ns_pi_loc ?ns = 1 then 0 else ns_meta_size ?ns - 8)"
    using ok ms by (auto simp: iover_ok_def Let_def)
  have m8: "8 \<le> msz iv" using mo by (simp add: meta_ok_def PI_SIZE_def)
  then have "unat (ns_meta_size ?ns - 8) = msz iv - 8" by (simp add: unat_sub word_le_nat_alt)
  then have pi: "(if ns_pi_loc ?ns \<noteq> 0 then Inr 0 else if msz iv < 8 then Inl Fault else Inr (msz iv - 8))
      = (Inr pi :: nat res)" and pi8: "pi + 8 \<le> length m"
    using loc m8 l by (auto simp: pi_def)
  obtain e1 where e1: "mem_write m (pi + 2) (le_bytes 2 (0xFFFF :: u16)) = Inr e1"
    using pi8 by simp
  have l1: "length e1 = length m" using mem_write_length[OF e1] .
  obtain e2 where e2: "mem_write e1 (pi + 4) (le_bytes 4 (0xFFFFFFFF :: u32)) = Inr e2"
    using pi8 l1 by simp
  have l2: "length e2 = length m" using mem_write_length[OF e2] l1 by simp
  have r1: "mem_read e1 (pi + 2) 2 = Inr (le_bytes 2 (0xFFFF :: u16))"
    using mem_write_read_same[OF e1] by simp
  have r2: "mem_read e2 (pi + 2) 2 = Inr (le_bytes 2 (0xFFFF :: u16))"
    using mem_write_read_before[OF e2, of "pi + 2" 2] r1 by simp
  have esc: "pi_escape ?dg e" if "mem_read e (pi + 2) 2 = Inr (le_bytes 2 (0xFFFF :: u16))" for e
  proof -
    have "take 2 (drop 2 (take 8 (drop pi e))) = le_bytes 2 (0xFFFF :: u16)"
      using that by (simp add: mem_read_eq_Inr drop_take add.commute)
    then show ?thesis using mo(3)
      by (simp add: pi_escape_def pr_info_of_def pi_def[symmetric] le_word_le_bytes)
  qed
  have w1: "mem_write (m @ rest) (pi + 2) (le_bytes 2 (0xFFFF :: u16)) = Inr (e1 @ rest)"
    using mem_write_append[of "pi + 2" "le_bytes 2 (0xFFFF :: u16)" m rest] pi8 e1 by simp
  have w2: "mem_write (e1 @ rest) (pi + 4) (le_bytes 4 (0xFFFFFFFF :: u32)) = Inr (e2 @ rest)"
    using mem_write_append[of "pi + 4" "le_bytes 4 (0xFFFFFFFF :: u32)" e1 rest] pi8 e2 l1 by simp
  have "escape_tags ?ns (m @ rest) = Inr ((if ns_pi_type ?ns = 3 then e2 else e1) @ rest)"
    using pi w1 w2 by (simp add: escape_tags_def Let_def del: mem_write_in)
  then show ?thesis using esc r1 r2 l1 l2 l by auto
qed

lemma generate_meta_ok:
  assumes ok: "iover_ok iv" and ms: "ns_meta_size (iv_ns_info iv) \<noteq> 0"
    and d: "dsz iv \<le> length data" and m: "msz iv \<le> length meta"
  shows "\<exists>e. generate_meta iv escape lo lba meta data = Inr (e @ drop (msz iv) meta) \<and>
    length e = msz iv \<and> (e = meta_image (iv_datagen iv) data lba \<or> pi_escape (iv_datagen iv) e)"
proof -
  let ?dg = "iv_datagen iv"
  have mo: "meta_ok ?dg" "dg_meta_size ?dg = ns_meta_size (iv_ns_info iv)"
    "dg_data_size ?dg = ns_data_size (iv_ns_info iv)"
    using ok ms by (auto simp: iover_ok_def Let_def)
  have s: "datagen_set_meta ?dg meta data lba =
      Inr (meta_image ?dg data lba @ drop (msz iv) meta)"
    using datagen_set_meta_eq[OF mo(1)] mo d m by simp
  have l: "length (meta_image ?dg data lba) = msz iv"
    using length_meta_image[OF mo(1)] mo d by simp
  show ?thesis
    using escape_tags_ok[OF ok ms l, of "drop (msz iv) meta"] s l
    by (cases "escape lo") (auto simp: generate_meta_def)
qed

text \<open>The bytes of block \<open>lo\<close> of a request in its data buffer, and its metadata.\<close>

definition data_slice :: "iover \<Rightarrow> bio \<Rightarrow> nat \<Rightarrow> bytes" where
  "data_slice iv bio lo = take (bsz iv bio) (drop (bsz iv bio * lo) (b_data bio))"

definition meta_slice :: "iover \<Rightarrow> bio \<Rightarrow> nat \<Rightarrow> bytes" where
  "meta_slice iv bio lo =
     (if ns_extended_lba (iv_ns_info iv) then take (msz iv) (drop (dsz iv) (data_slice iv bio lo))
      else take (msz iv) (drop (msz iv * lo) (b_meta bio)))"

definition pattern_for :: "iover \<Rightarrow> u64 \<Rightarrow> u64 \<Rightarrow> u8" where
  "pattern_for iv ts lba = ucast ((ts + lba) mod of_nat (dg_npatterns (iv_datagen iv)))"

text \<open>Block \<open>lo\<close> of the request holds the image generated at time \<open>ts\<close>, with valid metadata.\<close>

definition block_written :: "iover \<Rightarrow> u64 \<Rightarrow> bio \<Rightarrow> nat \<Rightarrow> bool" where
  "block_written iv ts bio lo \<longleftrightarrow>
     (let lba = b_slba bio + of_nat lo; img = block_image (iv_datagen iv) lba ts (pattern_for iv ts lba) in
      take (dsz iv) (data_slice iv bio lo) = img \<and>
      (host_meta iv bio \<longrightarrow>
         meta_slice iv bio lo = meta_image (iv_datagen iv) img lba \<or>
         pi_escape (iv_datagen iv) (meta_slice iv bio lo)))"

lemma pattern_for_less:
  assumes "iover_ok iv"
  shows "unat (pattern_for iv ts lba) < dg_npatterns (iv_datagen iv)"
proof -
  let ?n = "dg_npatterns (iv_datagen iv)"
  have n: "0 < ?n" "?n \<le> 32" using assms by (auto simp: iover_ok_def datagen_ok_def Let_def)
  then have un: "unat (of_nat ?n :: u64) = ?n" by (simp add: unat_of_nat)
  have "unat ((ts + lba) mod of_nat ?n) = unat (ts + lba) mod ?n" by (simp add: unat_mod un)
  also have "\<dots> < ?n" using n(1) by simp
  finally have lt: "unat ((ts + lba) mod of_nat ?n) < ?n" .
  then have "unat (pattern_for iv ts lba) = unat ((ts + lba) mod of_nat ?n)"
    using n(2) by (simp add: pattern_for_def unsigned_ucast_eq take_bit_nat_eq_self)
  then show ?thesis using lt by simp
qed

lemma slice_disjoint:
  assumes "mem_write buf (n * lo + a) x = Inr buf'" and "j \<noteq> lo" and "a + length x \<le> n"
  shows "take n (drop (n * j) buf') = take n (drop (n * j) buf)"
proof (cases "j < lo")
  case True
  then have "n * j + n \<le> n * lo" by (metis Suc_leI mult_Suc_right mult_le_mono2 add.commute)
  then have "n * j + n \<le> n * lo + a" by simp
  from mem_write_read_before[OF assms(1) this] mem_write_length[OF assms(1)] assms(1)
  show ?thesis
    using \<open>n * j + n \<le> n * lo + a\<close> by (auto simp: mem_read_def mem_write_def split: if_splits)
next
  case False
  then have "lo < j" using assms(2) by simp
  then have "n * lo + n \<le> n * j" by (metis Suc_leI mult_Suc_right mult_le_mono2 add.commute)
  then have le: "n * lo + a + length x \<le> n * j" using assms(3) by simp
  have "length buf' = length buf" using mem_write_length[OF assms(1)] .
  moreover have "drop (n * j) buf' = drop (n * j) buf"
    using assms(1) le by (auto simp: mem_write_def split: if_splits)
  ultimately show ?thesis by simp
qed

lemma bio_upd_simps [simp]:
  "get_block_size iv (bio\<lparr>b_data := d\<rparr>) = get_block_size iv bio"
  "get_block_size iv (bio\<lparr>b_meta := m\<rparr>) = get_block_size iv bio"
  "host_meta iv (bio\<lparr>b_data := d\<rparr>) = host_meta iv bio"
  "host_meta iv (bio\<lparr>b_meta := m\<rparr>) = host_meta iv bio"
  by (simp_all add: get_block_size_def host_meta_def)

lemma offsets_64:
  assumes "bio_ok iv bio" and "lo < nlbs_nat bio"
  shows "unat (ucast (get_block_size iv bio) * of_nat lo :: u64) = bsz iv bio * lo"
    and "ns_meta_size (iv_ns_info iv) \<noteq> 0 \<Longrightarrow> \<not> ns_extended_lba (iv_ns_info iv) \<Longrightarrow>
      unat (ucast (ns_meta_size (iv_ns_info iv)) * of_nat lo :: u64) = msz iv * lo"
proof -
  have up: "unat (ucast (w :: u32) :: u64) = unat w" for w
  proof -
    have "unat w < 2 ^ 32" by (rule order_less_le_trans[OF unsigned_less]) simp
    then show ?thesis by (simp add: unsigned_ucast_eq take_bit_nat_eq_self)
  qed
  show "unat (ucast (get_block_size iv bio) * of_nat lo :: u64) = bsz iv bio * lo"
    using word_mult_of_nat[OF assms(2), of "ucast (get_block_size iv bio) :: u64"] assms(1)
    by (simp add: up bio_ok_def Let_def)
  show "unat (ucast (ns_meta_size (iv_ns_info iv)) * of_nat lo :: u64) = msz iv * lo"
    if "ns_meta_size (iv_ns_info iv) \<noteq> 0" "\<not> ns_extended_lba (iv_ns_info iv)"
    using word_mult_of_nat[OF assms(2), of "ucast (ns_meta_size (iv_ns_info iv)) :: u64"] assms(1) that
    by (simp add: up bio_ok_def Let_def)
qed

lemma bio_ok_meta:
  assumes "bio_ok iv bio" and "lo < nlbs_nat bio"
    and "ns_meta_size (iv_ns_info iv) \<noteq> 0" and "\<not> ns_extended_lba (iv_ns_info iv)"
  shows "msz iv * lo + msz iv \<le> length (b_meta bio)"
proof -
  have "msz iv * nlbs_nat bio \<le> length (b_meta bio)" using assms by (simp add: bio_ok_def Let_def)
  moreover have "msz iv * Suc lo \<le> msz iv * nlbs_nat bio" using assms(2) by (intro mult_le_mono2) simp
  ultimately show ?thesis by simp
qed

text \<open>Only block \<open>lo\<close> of the buffers may differ.\<close>

definition slot_frame :: "iover \<Rightarrow> bio \<Rightarrow> nat \<Rightarrow> bytes \<Rightarrow> bytes \<Rightarrow> bool" where
  "slot_frame iv bio lo d m \<longleftrightarrow>
     length d = length (b_data bio) \<and> length m = length (b_meta bio) \<and>
     (\<forall>j. j \<noteq> lo \<longrightarrow>
       take (bsz iv bio) (drop (bsz iv bio * j) d) = take (bsz iv bio) (drop (bsz iv bio * j) (b_data bio)) \<and>
       take (msz iv) (drop (msz iv * j) m) = take (msz iv) (drop (msz iv * j) (b_meta bio)))"

definition gen_image :: "iover \<Rightarrow> bio \<Rightarrow> nat \<Rightarrow> bytes" where
  "gen_image iv bio lo = (let lba = b_slba bio + of_nat lo in
     block_image (iv_datagen iv) lba (iv_timestamp iv) (pattern_for iv (iv_timestamp iv) lba))"

lemma length_gen_image: "iover_ok iv \<Longrightarrow> length (gen_image iv bio lo) = dsz iv"
  using length_block_image pattern_for_less
  by (auto simp: gen_image_def Let_def iover_ok_def)

lemma generate_image_ok:
  assumes ok: "iover_ok iv" and bio: "bio_ok iv bio" and lo: "lo < nlbs_nat bio"
  shows "\<exists>d. upd_at (b_data bio) (bsz iv bio * lo) (\<lambda>d. datagen_set_data (iv_datagen iv) d
      (b_slba bio + of_nat lo) (iv_timestamp iv) (pattern_for iv (iv_timestamp iv) (b_slba bio + of_nat lo))) = Inr d \<and>
    slot_frame iv bio lo d (b_meta bio) \<and> take (dsz iv) (drop (bsz iv bio * lo) d) = gen_image iv bio lo"
proof -
  let ?dg = "iv_datagen iv" and ?off = "bsz iv bio * lo"
  define lba where "lba = b_slba bio + of_nat lo"
  define p where "p = pattern_for iv (iv_timestamp iv) lba"
  define img where "img = gen_image iv bio lo"
  have dg: "datagen_ok ?dg" "dg_data_size ?dg = ns_data_size (iv_ns_info iv)"
    using ok by (simp_all add: iover_ok_def Let_def)
  have pl: "unat p < dg_npatterns ?dg" using pattern_for_less[OF ok] by (simp add: p_def)
  have li: "length img = dsz iv" using length_gen_image[OF ok] by (simp add: img_def)
  have ds: "dsz iv \<le> bsz iv bio" using block_size_cases[OF ok, of bio] by simp
  have fd: "?off + length img \<le> length (b_data bio)" using bio_okD(4)[OF bio lo] ds li by linarith
  obtain d where d: "mem_write (b_data bio) ?off img = Inr d" using fd by simp
  have "upd_at (b_data bio) ?off (\<lambda>d. datagen_set_data ?dg d lba (iv_timestamp iv) p) = Inr d"
    using upd_at_mem_write[of ?off img "b_data bio"] fd d li dg(2)
      datagen_set_data_eq[OF dg(1) pl, of "drop ?off (b_data bio)" lba "iv_timestamp iv"]
    by (simp add: img_def gen_image_def Let_def lba_def p_def del: mem_write_in)
  moreover have "slot_frame iv bio lo d (b_meta bio)"
    using slice_disjoint[of "b_data bio" "bsz iv bio" lo 0 img d] d li ds mem_write_length[OF d]
    by (simp add: slot_frame_def)
  moreover have "take (dsz iv) (drop ?off d) = img"
    using mem_write_read_same[OF d] li by (simp add: mem_read_eq_Inr)
  ultimately show ?thesis by (auto simp: lba_def p_def img_def)
qed

text \<open>The metadata that follows the data of the block in the same buffer, and in its own buffer.\<close>

lemma generate_ext_ok:
  assumes ok: "iover_ok iv" and bio: "bio_ok iv bio" and lo: "lo < nlbs_nat bio"
    and hm: "host_meta iv bio" and ext: "ns_extended_lba (iv_ns_info iv)"
    and fr: "slot_frame iv bio lo d (b_meta bio)"
    and r: "take (dsz iv) (drop (bsz iv bio * lo) d) = gen_image iv bio lo"
  shows "\<exists>d2. upd_at d (bsz iv bio * lo + dsz iv) (\<lambda>m. generate_meta iv escape lo
        (b_slba bio + of_nat lo) m (drop (bsz iv bio * lo) d)) = Inr d2 \<and>
    slot_frame iv bio lo d2 (b_meta bio) \<and> block_written iv (iv_timestamp iv) (bio\<lparr>b_data := d2\<rparr>) lo"
proof -
  let ?dg = "iv_datagen iv" and ?off = "bsz iv bio * lo" and ?lba = "b_slba bio + of_nat lo"
  have ms: "ns_meta_size (iv_ns_info iv) \<noteq> 0" and bsm: "bsz iv bio = dsz iv + msz iv"
    using hm ext block_size_cases[OF ok, of bio] by (auto simp: host_meta_def)
  have mok: "meta_ok ?dg" "dg_data_size ?dg = ns_data_size (iv_ns_info iv)"
    using ok ms by (auto simp: iover_ok_def Let_def)
  have ld: "length d = length (b_data bio)" using fr by (simp add: slot_frame_def)
  have fit: "?off + dsz iv + msz iv \<le> length d" using bio_okD(4)[OF bio lo] bsm ld by linarith
  then have dd: "dsz iv \<le> length (drop ?off d)" and ml: "msz iv \<le> length (drop (?off + dsz iv) d)"
    by simp_all
  have mi: "meta_image ?dg (drop ?off d) ?lba = meta_image ?dg (gen_image iv bio lo) ?lba"
    by (rule meta_image_cong[OF mok(1)]) (use r length_gen_image[OF ok] mok(2) in simp)
  obtain e where e: "generate_meta iv escape lo ?lba (drop (?off + dsz iv) d) (drop ?off d) =
        Inr (e @ drop (msz iv) (drop (?off + dsz iv) d))" "length e = msz iv"
      "e = meta_image ?dg (gen_image iv bio lo) ?lba \<or> pi_escape ?dg e"
    using generate_meta_ok[OF ok ms dd ml, of escape lo ?lba] mi by auto
  obtain d2 where d2: "mem_write d (?off + dsz iv) e = Inr d2" using fit e(2) by simp
  have u2: "upd_at d (?off + dsz iv) (\<lambda>m. generate_meta iv escape lo ?lba m (drop ?off d)) = Inr d2"
    using upd_at_mem_write[of "?off + dsz iv" e d] e d2 fit by (simp del: mem_write_in)
  have "mem_read d2 ?off (dsz iv) = mem_read d ?off (dsz iv)"
    by (rule mem_write_read_before[OF d2]) simp
  then have r2: "take (dsz iv) (drop ?off d2) = gen_image iv bio lo"
    using r fit mem_write_length[OF d2] by (auto simp: mem_read_def split: if_splits)
  have "take (msz iv) (drop (dsz iv) (take (bsz iv bio) (drop ?off d2))) = e"
    using mem_write_read_same[OF d2] e(2) bsm by (simp add: mem_read_eq_Inr drop_take add.commute)
  then have "block_written iv (iv_timestamp iv) (bio\<lparr>b_data := d2\<rparr>) lo"
    using hm ext r2 bsm e(3)
    by (simp add: block_written_def data_slice_def meta_slice_def Let_def gen_image_def min_def)
  moreover have "slot_frame iv bio lo d2 (b_meta bio)"
    using slice_disjoint[OF d2] fr e(2) bsm mem_write_length[OF d2] by (simp add: slot_frame_def)
  ultimately show ?thesis using u2 by blast
qed

lemma generate_sep_ok:
  assumes ok: "iover_ok iv" and bio: "bio_ok iv bio" and lo: "lo < nlbs_nat bio"
    and hm: "host_meta iv bio" and sep: "\<not> ns_extended_lba (iv_ns_info iv)"
    and fr: "slot_frame iv bio lo d (b_meta bio)"
    and r: "take (dsz iv) (drop (bsz iv bio * lo) d) = gen_image iv bio lo"
  shows "\<exists>m. upd_at (b_meta bio) (msz iv * lo) (\<lambda>m. generate_meta iv escape lo
        (b_slba bio + of_nat lo) m (drop (bsz iv bio * lo) d)) = Inr m \<and>
    slot_frame iv bio lo d m \<and> block_written iv (iv_timestamp iv) (bio\<lparr>b_data := d, b_meta := m\<rparr>) lo"
proof -
  let ?dg = "iv_datagen iv" and ?off = "bsz iv bio * lo" and ?lba = "b_slba bio + of_nat lo"
  have ms: "ns_meta_size (iv_ns_info iv) \<noteq> 0" using hm by (auto simp: host_meta_def)
  have mok: "meta_ok ?dg" "dg_data_size ?dg = ns_data_size (iv_ns_info iv)"
    using ok ms by (auto simp: iover_ok_def Let_def)
  have ds: "dsz iv \<le> bsz iv bio" using block_size_cases[OF ok, of bio] by simp
  have dd: "dsz iv \<le> length (drop ?off d)"
    using bio_okD(4)[OF bio lo] ds fr by (simp add: slot_frame_def)
  note mfit = bio_ok_meta[OF bio lo ms sep]
  then have ml: "msz iv \<le> length (drop (msz iv * lo) (b_meta bio))" by simp
  have mi: "meta_image ?dg (drop ?off d) ?lba = meta_image ?dg (gen_image iv bio lo) ?lba"
    by (rule meta_image_cong[OF mok(1)]) (use r length_gen_image[OF ok] mok(2) in simp)
  obtain e where e: "generate_meta iv escape lo ?lba (drop (msz iv * lo) (b_meta bio)) (drop ?off d) =
        Inr (e @ drop (msz iv) (drop (msz iv * lo) (b_meta bio)))" "length e = msz iv"
      "e = meta_image ?dg (gen_image iv bio lo) ?lba \<or> pi_escape ?dg e"
    using generate_meta_ok[OF ok ms dd ml, of escape lo ?lba] mi by auto
  obtain m where m: "mem_write (b_meta bio) (msz iv * lo) e = Inr m" using mfit e(2) by simp
  have "upd_at (b_meta bio) (msz iv * lo) (\<lambda>m. generate_meta iv escape lo ?lba m (drop ?off d)) = Inr m"
    using upd_at_mem_write[of "msz iv * lo" e "b_meta bio"] e m mfit by (simp del: mem_write_in)
  moreover have "take (msz iv) (drop (msz iv * lo) m) = e"
    using mem_write_read_same[OF m] e(2) by (simp add: mem_read_eq_Inr)
  then have "block_written iv (iv_timestamp iv) (bio\<lparr>b_data := d, b_meta := m\<rparr>) lo"
    using hm sep r ds e(3)
    by (simp add: block_written_def data_slice_def meta_slice_def Let_def gen_image_def min_def)
  moreover have "slot_frame iv bio lo d m"
    using slice_disjoint[of "b_meta bio" "msz iv" lo 0 e m] m e(2) fr mem_write_length[OF m]
    by (simp add: slot_frame_def)
  ultimately show ?thesis by blast
qed

lemma generate_block_ok:
  assumes ok: "iover_ok iv" and bio: "bio_ok iv bio" and lo: "lo < nlbs_nat bio"
  shows "\<exists>d m. generate_block iv escape lo bio = Inr (bio\<lparr>b_data := d, b_meta := m\<rparr>) \<and>
    slot_frame iv bio lo d m \<and>
    block_written iv (iv_timestamp iv) (bio\<lparr>b_data := d, b_meta := m\<rparr>) lo"
proof -
  let ?ns = "iv_ns_info iv" and ?off = "bsz iv bio * lo" and ?lba = "b_slba bio + of_nat lo"
  obtain d where d: "upd_at (b_data bio) ?off (\<lambda>d. datagen_set_data (iv_datagen iv) d ?lba
        (iv_timestamp iv) (pattern_for iv (iv_timestamp iv) ?lba)) = Inr d"
    and fr: "slot_frame iv bio lo d (b_meta bio)" and r: "take (dsz iv) (drop ?off d) = gen_image iv bio lo"
    using generate_image_ok[OF assms] by blast
  have ds: "dsz iv \<le> bsz iv bio" using block_size_cases[OF ok, of bio] by simp
  have gb: "generate_block iv escape lo bio =
      (if host_meta iv bio then
        if ns_extended_lba ?ns then
          bnd (upd_at d (?off + dsz iv) (\<lambda>m. generate_meta iv escape lo ?lba m (drop ?off d))) (\<lambda>data.
          Inr (bio\<lparr>b_data := data\<rparr>))
        else
          bnd (upd_at (b_meta bio) (msz iv * lo)
                 (\<lambda>m. generate_meta iv escape lo ?lba m (drop ?off d))) (\<lambda>meta.
          Inr (bio\<lparr>b_data := d, b_meta := meta\<rparr>))
      else Inr (bio\<lparr>b_data := d\<rparr>))"
    using d ok offsets_64[OF bio lo]
    by (auto simp: generate_block_def Let_def pattern_for_def host_meta_def iover_ok_def)
  consider (none) "\<not> host_meta iv bio" | (ext) "host_meta iv bio" "ns_extended_lba ?ns"
    | (sep) "host_meta iv bio" "\<not> ns_extended_lba ?ns" by blast
  then show ?thesis
  proof cases
    case none
    have "block_written iv (iv_timestamp iv) (bio\<lparr>b_data := d, b_meta := b_meta bio\<rparr>) lo"
      using none r ds by (simp add: block_written_def data_slice_def Let_def gen_image_def min_def)
    then show ?thesis using gb none fr by (intro exI[of _ d] exI[of _ "b_meta bio"]) simp
  next
    case ext
    then obtain d2 where "generate_block iv escape lo bio = Inr (bio\<lparr>b_data := d2\<rparr>)"
        "slot_frame iv bio lo d2 (b_meta bio)" "block_written iv (iv_timestamp iv) (bio\<lparr>b_data := d2\<rparr>) lo"
      using generate_ext_ok[OF assms ext fr r, of escape] gb by auto
    then show ?thesis by (intro exI[of _ d2] exI[of _ "b_meta bio"]) simp
  next
    case sep
    then obtain m where "generate_block iv escape lo bio = Inr (bio\<lparr>b_data := d, b_meta := m\<rparr>)"
        "slot_frame iv bio lo d m" "block_written iv (iv_timestamp iv) (bio\<lparr>b_data := d, b_meta := m\<rparr>) lo"
      using generate_sep_ok[OF assms sep fr r, of escape] gb by auto
    then show ?thesis by blast
  qed
qed

lemma bio_ok_upd:
  assumes "bio_ok iv bio" and "length d = length (b_data bio)" and "length m = length (b_meta bio)"
  shows "bio_ok iv (bio\<lparr>b_data := d, b_meta := m\<rparr>)"
  using assms by (simp add: bio_ok_def Let_def)

lemma block_written_frame:
  assumes "slot_frame iv bio lo d m" and "j \<noteq> lo"
  shows "block_written iv ts (bio\<lparr>b_data := d, b_meta := m\<rparr>) j = block_written iv ts bio j"
  using assms by (simp add: slot_frame_def block_written_def data_slice_def meta_slice_def Let_def)

lemma generate_blocks_ok:
  assumes ok: "iover_ok iv" and bio: "bio_ok iv bio"
  shows "\<exists>d m. for_upto 0 (nlbs_nat bio) (generate_block iv escape) bio =
      Inr (bio\<lparr>b_data := d, b_meta := m\<rparr>) \<and>
    length d = length (b_data bio) \<and> length m = length (b_meta bio) \<and>
    (\<forall>j < nlbs_nat bio. block_written iv (iv_timestamp iv) (bio\<lparr>b_data := d, b_meta := m\<rparr>) j)"
proof -
  define P where "P = (\<lambda>k b. \<exists>d m. b = bio\<lparr>b_data := d, b_meta := m\<rparr> \<and>
    length d = length (b_data bio) \<and> length m = length (b_meta bio) \<and>
    (\<forall>j < k. block_written iv (iv_timestamp iv) b j))"
  have "\<exists>b. for_upto 0 (nlbs_nat bio) (generate_block iv escape) bio = Inr b \<and> P (0 + nlbs_nat bio) b"
  proof (rule for_upto_rule)
    have "bio = bio\<lparr>b_data := b_data bio, b_meta := b_meta bio\<rparr>" by simp
    then show "P 0 bio" unfolding P_def by blast
  next
    fix k b assume "k < 0 + nlbs_nat bio" and P: "P k b"
    obtain d m where b: "b = bio\<lparr>b_data := d, b_meta := m\<rparr>" "length d = length (b_data bio)"
        "length m = length (b_meta bio)" "\<forall>j < k. block_written iv (iv_timestamp iv) b j"
      using P by (auto simp: P_def)
    have "bio_ok iv b" and k: "k < nlbs_nat b"
      using bio_ok_upd[OF bio b(2,3)] b(1) \<open>k < 0 + nlbs_nat bio\<close> by auto
    from generate_block_ok[OF ok this, of escape] obtain d' m' where
      g: "generate_block iv escape k b = Inr (b\<lparr>b_data := d', b_meta := m'\<rparr>)"
      "slot_frame iv b k d' m'" "block_written iv (iv_timestamp iv) (b\<lparr>b_data := d', b_meta := m'\<rparr>) k"
      by blast
    have "\<forall>j < Suc k. block_written iv (iv_timestamp iv) (b\<lparr>b_data := d', b_meta := m'\<rparr>) j"
      using g(3) b(4) block_written_frame[OF g(2)] by (auto simp: less_Suc_eq)
    moreover have "length d' = length (b_data bio)" "length m' = length (b_meta bio)"
      using g(2) b by (simp_all add: slot_frame_def)
    ultimately have "P (Suc k) (b\<lparr>b_data := d', b_meta := m'\<rparr>)"
      using b(1) by (auto simp: P_def)
    then show "\<exists>b'. generate_block iv escape k b = Inr b' \<and> P (Suc k) b'" using g(1) by auto
  qed
  then show ?thesis by (auto simp: P_def)
qed

section \<open>Recording and checking\<close>

definition written_desc :: "iover \<Rightarrow> u64 \<Rightarrow> nat \<Rightarrow> block_desc \<Rightarrow> block_desc" where
  "written_desc iv ts lba d = d\<lparr>bd_state := block_state_data,
     bd_pattern := ucast (pattern_for iv ts (of_nat lba)), bd_timestamp := ucast ts\<rparr>"

text \<open>A loop that updates the descriptor of every block of a request.\<close>

lemma upd_desc_loop:
  assumes bio: "bio_ok iv bio"
    and f: "\<And>k ds. k < nlbs_nat bio \<Longrightarrow> length ds = length (iv_block_desc iv) \<Longrightarrow>
      f k (iv\<lparr>iv_block_desc := ds\<rparr>) = upd_desc (iv\<lparr>iv_block_desc := ds\<rparr>) bio k (g (slba_nat bio + k))"
  shows "for_upto 0 (nlbs_nat bio) f iv =
    Inr (iv\<lparr>iv_block_desc := map (\<lambda>i. if i \<in> bio_lbas bio then g i (iv_block_desc iv ! i)
      else iv_block_desc iv ! i) [0..<length (iv_block_desc iv)]\<rparr>)"
proof -
  let ?n = "length (iv_block_desc iv)" and ?s = "slba_nat bio"
  define ds where "ds = (\<lambda>k. map (\<lambda>i. if ?s \<le> i \<and> i < ?s + k then g i (iv_block_desc iv ! i)
      else iv_block_desc iv ! i) [0..<?n])"
  have "\<exists>s. for_upto 0 (nlbs_nat bio) f iv = Inr s \<and> s = iv\<lparr>iv_block_desc := ds (0 + nlbs_nat bio)\<rparr>"
  proof (rule for_upto_rule)
    have "ds 0 = iv_block_desc iv" by (rule nth_equalityI) (auto simp: ds_def)
    then show "iv = iv\<lparr>iv_block_desc := ds 0\<rparr>" by simp
  next
    fix k s assume "k < 0 + nlbs_nat bio" and s: "s = iv\<lparr>iv_block_desc := ds k\<rparr>"
    then have k: "k < nlbs_nat bio" by simp
    have l: "length (ds k) = ?n" for k by (simp add: ds_def)
    note b = bio_okD(1,2)[OF bio k]
    have "(ds k)[?s + k := g (?s + k) (ds k ! (?s + k))] = ds (Suc k)"
      by (rule nth_equalityI) (auto simp: l nth_list_update ds_def less_Suc_eq)
    then show "\<exists>s'. f k s = Inr s' \<and> s' = iv\<lparr>iv_block_desc := ds (Suc k)\<rparr>"
      using f[OF k l] b by (simp add: s upd_desc_def Let_def l)
  qed
  then show ?thesis by (simp add: ds_def bio_lbas_def)
qed

lemma image_header:
  assumes dg: "datagen_ok dg" and p: "unat p < dg_npatterns dg"
    and img: "take (unat (dg_data_size dg)) data = block_image dg lba ts p"
  shows "datagen_get_header dg data = Inr (Some (lba, ts, p))"
    and "take (unat (dg_body_size dg)) (drop 20 data) = body_of dg (unat p)"
proof -
  let ?ds = "unat (dg_data_size dg)" and ?h = "header_image dg lba ts p 0"
  note lh = length_header_image[OF dg p, of lba ts 0] and lb = pattern_body_ok(2)[OF dg p]
    and ds = datagen_okD(3,4)[OF dg p] and li = length_block_image[OF dg p, of lba ts]
  have len: "?ds \<le> length data" using img li by (metis length_take min.absorb_iff2 min.commute)
  have a: "take 20 data = ?h"
    using arg_cong[OF img, of "take 20"] ds(1) lh by (simp add: block_image_def min_def)
  have b: "take 20 (drop (?ds - 20) data) = ?h"
    using arg_cong[OF img, of "drop (?ds - 20)"] ds(1) lh lb by (simp add: block_image_def drop_take)
  have "take (?ds - 40) (drop 20 (take ?ds data)) = take (?ds - 40) (drop 20 data)"
    by (rule take_drop_take) (use ds(1) in simp)
  then show "take (unat (dg_body_size dg)) (drop 20 data) = body_of dg (unat p)"
    using img ds lh lb by (simp add: block_image_def)
  show "datagen_get_header dg data = Inr (Some (lba, ts, p))"
    using datagen_get_header_iff[OF dg len] p a b by blast
qed

lemma written_image:
  assumes ok: "iover_ok iv" and bio: "bio_ok iv bio" and lo: "lo < nlbs_nat bio"
    and w: "block_written iv ts bio lo"
  shows "take (unat (dg_data_size (iv_datagen iv))) (block_data iv bio (of_nat lo)) =
    block_image (iv_datagen iv) (b_slba bio + of_nat lo) ts (pattern_for iv ts (b_slba bio + of_nat lo))"
  using w block_size_cases[OF ok, of bio] ok
  by (simp add: block_written_def Let_def data_slice_def block_data_eq[OF bio lo] iover_ok_def min_def
      split: if_splits)

lemma verify_data_written:
  assumes ok: "iover_ok iv" and bio: "bio_ok iv bio" and lo: "lo < nlbs_nat bio"
    and w: "block_written iv ts bio lo" and ts: "bd_timestamp cur = ucast ts" and iss: "issue_ok jp bio lo"
  shows "verify_block_data iv jp bio (of_nat lo) cur = Inr 0"
proof -
  have dg: "datagen_ok (iv_datagen iv)" using ok by (simp add: iover_ok_def Let_def)
  note i = image_header[OF dg pattern_for_less[OF ok] written_image[OF ok bio lo w]]
  then have "header_accepted iv jp bio lo cur (pattern_for iv ts (b_slba bio + of_nat lo))"
    using ts by (auto simp: header_accepted_def timestamp_accepted_def)
  then show ?thesis using verify_block_data_iff[OF ok bio lo iss, of cur] i(2) by blast
qed

lemma meta_position_slice:
  assumes ok: "iover_ok iv" and bio: "bio_ok iv bio" and lo: "lo < nlbs_nat bio" and hm: "host_meta iv bio"
    and pos: "meta_position iv bio (of_nat lo) = (buf, off)"
  shows "take (msz iv) (drop off buf) = meta_slice iv bio lo" and "msz iv \<le> length (drop off buf)"
proof -
  let ?ns = "iv_ns_info iv"
  have ms: "ns_meta_size ?ns \<noteq> 0" using hm by (simp add: host_meta_def)
  note bs = block_size_cases[OF ok, of bio] and fit = bio_okD(4)[OF bio lo]
  show "take (msz iv) (drop off buf) = meta_slice iv bio lo"
  proof (cases "ns_extended_lba ?ns")
    case True
    then show ?thesis using pos bs hm
      by (auto simp: meta_position_def Let_def bio_okD(3)[OF bio lo] meta_slice_def data_slice_def
          host_meta_def drop_take add.commute)
  next
    case False
    then have "unat (ns_meta_size ?ns * of_nat lo) = msz iv * lo"
      using word_mult_of_nat[OF lo, of "ns_meta_size ?ns"] bio ms by (simp add: bio_ok_def Let_def)
    then show ?thesis using pos False by (auto simp: meta_position_def Let_def meta_slice_def)
  qed
  show "msz iv \<le> length (drop off buf)"
  proof (cases "ns_extended_lba ?ns")
    case True
    then show ?thesis using pos bs hm fit
      by (auto simp: meta_position_def Let_def bio_okD(3)[OF bio lo] host_meta_def)
  next
    case False
    then have "unat (ns_meta_size ?ns * of_nat lo) = msz iv * lo"
      using word_mult_of_nat[OF lo, of "ns_meta_size ?ns"] bio ms by (simp add: bio_ok_def Let_def)
    then show ?thesis using pos False bio_ok_meta[OF bio lo ms False]
      by (auto simp: meta_position_def Let_def)
  qed
qed

lemma verify_meta_written:
  assumes ok: "iover_ok iv" and bio: "bio_ok iv bio" and lo: "lo < nlbs_nat bio"
    and hm: "host_meta iv bio" and w: "block_written iv ts bio lo" and junk: "length junk = 64"
  shows "verify_block_meta junk iv bio (of_nat lo) = Inr 0"
proof -
  let ?dg = "iv_datagen iv" and ?data = "block_data iv bio (of_nat lo)" and ?lba = "b_slba bio + of_nat lo"
  obtain buf off where pos: "meta_position iv bio (of_nat lo) = (buf, off)" by fastforce
  note ms = meta_position_slice[OF ok bio lo hm pos]
  have dg: "datagen_ok ?dg" and mok: "meta_ok ?dg" "dg_meta_size ?dg = ns_meta_size (iv_ns_info iv)"
    using ok hm by (auto simp: iover_ok_def Let_def host_meta_def)
  have dl: "unat (dg_data_size ?dg) \<le> length ?data" by (rule block_data_length[OF ok bio lo])
  note img = written_image[OF ok bio lo w]
  have "meta_image ?dg ?data ?lba = meta_image ?dg (take (unat (dg_data_size ?dg)) ?data) ?lba"
    by (rule meta_image_cong[OF mok(1)]) simp
  then have "meta_slice iv bio lo = meta_image ?dg ?data ?lba \<or> pi_escape ?dg (meta_slice iv bio lo)"
    using w hm img by (simp add: block_written_def Let_def)
  moreover have "pi_escape ?dg (meta_slice iv bio lo) = pi_escape ?dg (drop off buf)"
    using pi_escape_take[OF mok(1), of "drop off buf"] ms(1) mok(2) by simp
  ultimately have "datagen_compare_meta ?dg junk (drop off buf) ?data ?lba = Inr 0"
    using datagen_compare_meta_eq[OF mok(1) dl, of "drop off buf" junk ?lba] ms mok(2) junk
      memcmp_0_iff[of "meta_slice iv bio lo" "meta_slice iv bio lo"] by auto
  then show ?thesis
    using image_header(1)[OF dg pattern_for_less[OF ok] img] pos
    by (simp add: verify_block_meta_def Let_def bio_lba_of_nat[OF lo])
qed

text \<open>A read of blocks that hold what their descriptors record passes.\<close>

lemma verify_bio_read_written:
  assumes ok: "iover_ok iv" and bio: "bio_ok iv bio" and junk: "length junk = 64"
    and iss: "jp_lba_overlap jp \<longrightarrow> nlbs_nat bio \<le> length (b_block_desc bio)"
    and w: "\<And>lo. lo < nlbs_nat bio \<Longrightarrow> \<exists>ts. block_written iv ts bio lo \<and>
      bd_state (iv_block_desc iv ! (slba_nat bio + lo)) = block_state_data \<and>
      bd_timestamp (iv_block_desc iv ! (slba_nat bio + lo)) = ucast ts"
  shows "verify_bio_read junk iv jp bio = Inr 0"
proof -
  have "\<exists>s. for_upto 0 (nlbs_nat bio) (verify_read_step junk iv jp bio) 0 = Inr s \<and> s = 0"
  proof (rule for_upto_rule)
    fix lo s assume "lo < 0 + nlbs_nat bio" and s: "s = (0 :: int)"
    then have lo: "lo < nlbs_nat bio" by simp
    let ?cur = "iv_block_desc iv ! (slba_nat bio + lo)"
    obtain ts where ts: "block_written iv ts bio lo" "bd_state ?cur = block_state_data" "bd_timestamp ?cur = ucast ts"
      using w[OF lo] by blast
    have io: "issue_ok jp bio lo" using iss lo by (auto simp: issue_ok_def)
    have "verify_block junk iv jp bio (of_nat lo) ?cur = Inr 0"
      using verify_data_written[OF ok bio lo ts(1,3) io] verify_meta_written[OF ok bio lo _ ts(1) junk] ts(2)
      by (auto simp: verify_block_def Let_def host_meta_def word_gt_0)
    then show "\<exists>s'. verify_read_step junk iv jp bio lo s = Inr s' \<and> s' = 0"
      using bio_okD(1,2)[OF bio lo] io s by (auto simp: verify_read_step_def issue_ok_def)
  qed simp
  then show ?thesis by (simp add: verify_bio_read_def)
qed

lemma iover_upd_simps [simp]:
  "get_block_size (iv\<lparr>iv_lba_lock := l\<rparr>) bio = get_block_size iv bio"
  "get_block_size (iv\<lparr>iv_timestamp := t\<rparr>) bio = get_block_size iv bio"
  "get_block_size (iv\<lparr>iv_block_desc := ds\<rparr>) bio = get_block_size iv bio"
  "get_block_size iv (bio\<lparr>b_apptag := a, b_reftag := r\<rparr>) = get_block_size iv bio"
  by (simp_all add: get_block_size_def)

lemma iover_ok_upd [simp]:
  "iover_ok (iv\<lparr>iv_lba_lock := l\<rparr>) = iover_ok iv"
  "iover_ok (iv\<lparr>iv_timestamp := t\<rparr>) = iover_ok iv"
  "iover_ok (iv\<lparr>iv_block_desc := ds\<rparr>) = iover_ok iv"
  by (simp_all add: iover_ok_def)

lemma bio_ok_iover_upd [simp]:
  "bio_ok (iv\<lparr>iv_lba_lock := l\<rparr>) bio = bio_ok iv bio"
  "bio_ok (iv\<lparr>iv_timestamp := t\<rparr>) bio = bio_ok iv bio"
  "bio_ok iv (bio\<lparr>b_apptag := a, b_reftag := r\<rparr>) = bio_ok iv bio"
  by (simp_all add: bio_ok_def)

lemma block_written_iover_upd [simp]:
  "block_written (iv\<lparr>iv_lba_lock := l\<rparr>) ts bio = block_written iv ts bio"
  "block_written (iv\<lparr>iv_timestamp := t\<rparr>) ts bio = block_written iv ts bio"
  "block_written (iv\<lparr>iv_block_desc := ds\<rparr>) ts bio = block_written iv ts bio"
  by (simp_all add: fun_eq_iff block_written_def data_slice_def meta_slice_def host_meta_def pattern_for_def)

text \<open>The data buffers decide whether a block is written, together with where it is.\<close>

lemma block_written_same:
  assumes "b_slba r = b_slba w" "b_data r = b_data w" "b_meta r = b_meta w" "b_pract r = b_pract w"
  shows "block_written iv ts r = block_written iv ts w" and "get_block_size iv r = get_block_size iv w"
  using assms by (simp_all add: fun_eq_iff block_written_def data_slice_def meta_slice_def host_meta_def
      get_block_size_def)

definition lockable :: "job_params \<Rightarrow> iover \<Rightarrow> bio \<Rightarrow> bool" where
  "lockable jp iv bio \<longleftrightarrow> jp_lba_overlap jp \<or>
     bio_fits (length (iv_lba_lock iv)) bio \<and> locked (iv_lba_lock iv) \<inter> bio_lbas bio = {}"

lemma generate_write_ok:
  assumes ok: "iover_ok iv" and bio: "bio_ok iv bio" and op: "b_opcode bio = bio_write"
    and cmp: "jp_compare jp" and lk: "lockable jp iv bio"
  shows "\<exists>lock w. iover_generate_data pi escape iv jp bio =
      Inr (0, iv\<lparr>iv_lba_lock := lock, iv_timestamp := iv_timestamp iv + 1\<rparr>, w) \<and>
    (\<not> jp_lba_overlap jp \<longrightarrow> try_lock_lbas (iv_lba_lock iv) bio = Inr (0, lock)) \<and>
    bio_ok iv w \<and> b_slba w = b_slba bio \<and> b_nlbs w = b_nlbs bio \<and> b_opcode w = bio_write \<and>
    b_pract w = b_pract bio \<and> (\<forall>j < nlbs_nat bio. block_written iv (iv_timestamp iv + 1) w j)"
proof -
  obtain lock where lock: "(if \<not> jp_lba_overlap jp \<and> bio_opcode_num (b_opcode bio) < bio_opcode_num bio_identify
      then try_lock_lbas (iv_lba_lock iv) bio else Inr (0, iv_lba_lock iv)) = Inr (0, lock)"
    using lk op lba.try_free[of "iv_lba_lock iv" bio]
    by (cases "jp_lba_overlap jp") (auto simp: lockable_def)
  let ?iv = "iv\<lparr>iv_lba_lock := lock, iv_timestamp := iv_timestamp iv + 1\<rparr>"
  define b where "b = set_tags pi iv bio"
  have b: "bio_ok ?iv b" "b_slba b = b_slba bio" "b_nlbs b = b_nlbs bio" "b_opcode b = bio_write"
      "b_pract b = b_pract bio" "set_tags pi (iv\<lparr>iv_lba_lock := lock\<rparr>) bio = b"
    using bio op by (simp_all add: b_def set_tags_def Let_def)
  obtain d m where g: "for_upto 0 (nlbs_nat b) (generate_block ?iv escape) b =
        Inr (b\<lparr>b_data := d, b_meta := m\<rparr>)" "length d = length (b_data b)" "length m = length (b_meta b)"
      "\<forall>j < nlbs_nat b. block_written ?iv (iv_timestamp ?iv) (b\<lparr>b_data := d, b_meta := m\<rparr>) j"
    using generate_blocks_ok[of ?iv b escape] ok b(1) by auto
  have "iover_generate_data pi escape iv jp bio = Inr (0, ?iv, b\<lparr>b_data := d, b_meta := m\<rparr>)"
    using lock cmp g(1) b(3,4,6) by (simp add: iover_generate_data_def Let_def)
  moreover have "bio_ok iv (b\<lparr>b_data := d, b_meta := m\<rparr>)"
    using bio_ok_upd[OF b(1) g(2,3)] by simp
  moreover have "\<not> jp_lba_overlap jp \<longrightarrow> try_lock_lbas (iv_lba_lock iv) bio = Inr (0, lock)"
    using lock op by (auto split: if_splits)
  ultimately show ?thesis
    using g(4) b by (intro exI[of _ lock] exI[of _ "b\<lparr>b_data := d, b_meta := m\<rparr>"]) simp
qed

lemma commit_write_ok:
  assumes ok: "iover_ok iv" and bio: "bio_ok iv bio" and op: "b_opcode bio = bio_write"
    and cmp: "jp_compare jp" and w: "\<forall>j < nlbs_nat bio. block_written iv ts bio j"
  shows "commit_block_state jp iv bio =
    Inr (iv\<lparr>iv_block_desc := map (\<lambda>i. if i \<in> bio_lbas bio then written_desc iv ts i (iv_block_desc iv ! i)
      else iv_block_desc iv ! i) [0..<length (iv_block_desc iv)]\<rparr>)"
proof -
  have dg: "datagen_ok (iv_datagen iv)" using ok by (simp add: iover_ok_def Let_def)
  have "for_upto 0 (nlbs_nat bio) (commit_data block_state_data bio) iv =
    Inr (iv\<lparr>iv_block_desc := map (\<lambda>i. if i \<in> bio_lbas bio then written_desc iv ts i (iv_block_desc iv ! i)
      else iv_block_desc iv ! i) [0..<length (iv_block_desc iv)]\<rparr>)"
  proof (rule upd_desc_loop[OF bio])
    fix k ds assume k: "k < nlbs_nat bio"
    have "datagen_get_header (iv_datagen iv) (block_data iv bio (of_nat k)) =
        Inr (Some (b_slba bio + of_nat k, ts, pattern_for iv ts (b_slba bio + of_nat k)))"
      using image_header(1)[OF dg pattern_for_less[OF ok] written_image[OF ok bio k]] w k by blast
    moreover have "block_data (iv\<lparr>iv_block_desc := ds\<rparr>) bio (of_nat k) = block_data iv bio (of_nat k)"
      by (simp add: block_data_def)
    ultimately show "commit_data block_state_data bio k (iv\<lparr>iv_block_desc := ds\<rparr>) =
        upd_desc (iv\<lparr>iv_block_desc := ds\<rparr>) bio k (written_desc iv ts (slba_nat bio + k))"
      by (simp add: commit_data_def written_header_def written_desc_def[abs_def])
  qed
  then show ?thesis using op cmp by (simp add: commit_block_state_def)
qed

section \<open>Properties\<close>

text \<open>A namespace of four blocks of 48 bytes with 16 bytes of separate metadata, and requests to it.\<close>

definition sample_iover :: iover where
  "sample_iover =
     \<lparr>iv_ns_info = namespace_zero\<lparr>ns_data_size := 48, ns_meta_size := 16, ns_block_size := 48, ns_nlbs := 4\<rparr>,
      iv_nthreads = 0,
      iv_block_desc = replicate 4 \<lparr>bd_timestamp = 0, bd_state = 0, bd_pattern = 0, bd_flags = 0\<rparr>,
      iv_hist_desc = [], iv_journal = None, iv_lba_lock = [0], iv_timestamp = 0,
      iv_datagen = sample_dg\<rparr>"

definition sample_bio :: "bio_opcode \<Rightarrow> bio" where
  "sample_bio opcode = bio_zero\<lparr>b_opcode := opcode, b_slba := 1, b_nlbs := 2, b_data := replicate 96 0,
     b_meta := replicate 32 0, b_hist_idx := 0xFFFFFFFF\<rparr>"

definition sample_jp :: job_params where
  "sample_jp = job_params_zero\<lparr>jp_compare := True\<rparr>"

lemma locked_empty: "locked [0] = {}"
  by (auto simp: locked_def)

lemma sample_ok: "iover_ok sample_iover" "bio_ok sample_iover (sample_bio opcode)"
  "lockable sample_jp sample_iover (sample_bio opcode)" "jp_compare sample_jp" "\<not> jp_lba_overlap sample_jp"
  "\<not> jp_compare_header_only sample_jp"
  by (simp_all add: iover_ok_def sample_iover_def sample_dg_ok bio_ok_def sample_bio_def bio_zero_def
      namespace_zero_def get_block_size_def sample_jp_def job_params_zero_def lockable_def bio_fits_def
      locked_empty Let_def)
     (simp_all add: sample_dg_def)

text \<open>C3: What the tool writes passes its own check. A write request whose range is free gets its
  data generated; committing it records the blocks; a later read that returns the same data and
  metadata is accepted, whatever the escape tags, the job of the reader and the order of the
  comparison buffer's bytes.\<close>

theorem write_then_read_verifies:
  assumes "iover_ok iv" and "bio_ok iv bio" and "b_opcode bio = bio_write" and "jp_compare jp"
    and "lockable jp iv bio"
  shows "\<exists>iv1 w iv2. iover_generate_data pi escape iv jp bio = Inr (0, iv1, w) \<and>
    commit_block_state jp iv1 w = Inr iv2 \<and>
    (\<forall>r jr junk. b_slba r = b_slba w \<and> b_nlbs r = b_nlbs w \<and> b_pract r = b_pract w \<and>
       b_data r = b_data w \<and> b_meta r = b_meta w \<and> length junk = 64 \<and>
       (jp_lba_overlap jr \<longrightarrow> nlbs_nat r \<le> length (b_block_desc r)) \<longrightarrow>
       verify_bio_read junk iv2 jr r = Inr 0)"
proof -
  let ?ts = "iv_timestamp iv + 1"
  obtain lock w where g: "iover_generate_data pi escape iv jp bio =
        Inr (0, iv\<lparr>iv_lba_lock := lock, iv_timestamp := ?ts\<rparr>, w)"
    and w: "bio_ok iv w" "b_slba w = b_slba bio" "b_nlbs w = b_nlbs bio" "b_opcode w = bio_write"
      "\<forall>j < nlbs_nat bio. block_written iv ?ts w j"
    using generate_write_ok[OF assms, of pi escape] by blast
  define iv1 where "iv1 = iv\<lparr>iv_lba_lock := lock, iv_timestamp := ?ts\<rparr>"
  define ds where "ds = map (\<lambda>i. if i \<in> bio_lbas w then written_desc iv1 ?ts i (iv_block_desc iv1 ! i)
      else iv_block_desc iv1 ! i) [0..<length (iv_block_desc iv1)]"
  have c: "commit_block_state jp iv1 w = Inr (iv1\<lparr>iv_block_desc := ds\<rparr>)"
    using commit_write_ok[of iv1 w jp ?ts] assms(1,4) w by (simp add: iv1_def ds_def)
  have "verify_bio_read junk (iv1\<lparr>iv_block_desc := ds\<rparr>) jr r = Inr 0"
    if r: "b_slba r = b_slba w" "b_nlbs r = b_nlbs w" "b_pract r = b_pract w" "b_data r = b_data w"
      "b_meta r = b_meta w" and "length junk = 64"
      "jp_lba_overlap jr \<longrightarrow> nlbs_nat r \<le> length (b_block_desc r)" for r jr junk
  proof (rule verify_bio_read_written)
    note same = block_written_same[OF r(1,4,5,3)]
    show "bio_ok (iv1\<lparr>iv_block_desc := ds\<rparr>) r"
      using w(1) r same(2)[of iv] by (simp add: bio_ok_def Let_def iv1_def ds_def)
    fix lo assume lo: "lo < nlbs_nat r"
    then have "slba_nat w + lo \<in> bio_lbas w" "slba_nat w + lo < length (iv_block_desc iv1)"
      using r(2) w(1) by (auto simp: bio_lbas_def bio_ok_def Let_def iv1_def)
    then have "ds ! (slba_nat r + lo) = written_desc iv1 ?ts (slba_nat w + lo) (iv_block_desc iv1 ! (slba_nat w + lo))"
      using r(1) by (simp add: ds_def)
    then show "\<exists>ts. block_written (iv1\<lparr>iv_block_desc := ds\<rparr>) ts r lo \<and>
        bd_state (iv_block_desc (iv1\<lparr>iv_block_desc := ds\<rparr>) ! (slba_nat r + lo)) = block_state_data \<and>
        bd_timestamp (iv_block_desc (iv1\<lparr>iv_block_desc := ds\<rparr>) ! (slba_nat r + lo)) = ucast ts"
      using w(3,5) lo r(2) same(1) by (auto simp: written_desc_def iv1_def intro!: exI[of _ ?ts])
  qed (use that assms(1) in \<open>simp_all add: iv1_def\<close>)
  then show ?thesis using g c unfolding iv1_def by blast
qed

theorem write_then_read_verifies_witness:
  "\<exists>iv1 w iv2. iover_generate_data \<lparr>guard = 0, app = 0, ref = 0\<rparr> (\<lambda>k. k = 1) sample_iover sample_jp
      (sample_bio bio_write) = Inr (0, iv1, w) \<and>
    commit_block_state sample_jp iv1 w = Inr iv2 \<and>
    (\<forall>r jr junk. b_slba r = b_slba w \<and> b_nlbs r = b_nlbs w \<and> b_pract r = b_pract w \<and>
       b_data r = b_data w \<and> b_meta r = b_meta w \<and> length junk = 64 \<and>
       (jp_lba_overlap jr \<longrightarrow> nlbs_nat r \<le> length (b_block_desc r)) \<longrightarrow>
       verify_bio_read junk iv2 jr r = Inr 0)"
  by (rule write_then_read_verifies) (simp_all only: sample_ok, simp add: sample_bio_def)

text \<open>C17: The check of a data block is exact. It passes if and only if the bytes of the block are
  a generated image for this very LBA: a header with a known pattern, the body of that pattern
  and the same header as footer, with a timestamp whose low 16 bits are accepted. The reserved
  byte, the upper timestamp bits and the recorded pattern number are not compared.\<close>

theorem verify_block_data_exact:
  assumes "iover_ok iv" and "bio_ok iv bio" and "lo < nlbs_nat bio" and "issue_ok jp bio lo"
    and "\<not> jp_compare_header_only jp"
  shows "verify_block_data iv jp bio (of_nat lo) cur = Inr 0 \<longleftrightarrow>
    (\<exists>ts p rsvd. unat p < dg_npatterns (iv_datagen iv) \<and>
      timestamp_accepted jp (ucast ts) (bd_timestamp (b_block_desc bio ! lo)) (bd_timestamp cur) \<and>
      take (unat (ns_data_size (iv_ns_info iv))) (block_data iv bio (of_nat lo)) =
        header_image (iv_datagen iv) (b_slba bio + of_nat lo) ts p rsvd @ body_of (iv_datagen iv) (unat p)
        @ header_image (iv_datagen iv) (b_slba bio + of_nat lo) ts p rsvd)" (is "_ \<longleftrightarrow> ?R")
proof -
  let ?dg = "iv_datagen iv" and ?d = "block_data iv bio (of_nat lo)"
  let ?ds = "unat (dg_data_size ?dg)"
  have dg: "datagen_ok ?dg" "dg_data_size ?dg = ns_data_size (iv_ns_info iv)"
    and ds: "40 \<le> ?ds" "unat (dg_body_size ?dg) = ?ds - 40"
    using assms(1) by (auto simp: iover_ok_def datagen_ok_def Let_def)
  have len: "?ds \<le> length ?d" by (rule block_data_length[OF assms(1-3)])
  have split: "take ?ds ?d = take 20 ?d @ take (?ds - 40) (drop 20 ?d) @ take 20 (drop (?ds - 20) ?d)"
    using take_add[of 20 "?ds - 40" ?d] take_add[of "?ds - 20" 20 ?d] ds(1) by simp
  have "take ?ds ?d = h @ b @ h \<longleftrightarrow> take 20 ?d = h \<and> take (?ds - 40) (drop 20 ?d) = b \<and>
      take 20 (drop (?ds - 20) ?d) = h" if "length h = 20" "length b = ?ds - 40" for h b
    unfolding split using that len ds(1) by (simp add: append_eq_append_conv)
  then have im: "take ?ds ?d = header_image ?dg l ts p r @ body_of ?dg (unat p) @ header_image ?dg l ts p r \<longleftrightarrow>
      take 20 ?d = header_image ?dg l ts p r \<and> take (?ds - 40) (drop 20 ?d) = body_of ?dg (unat p) \<and>
      take 20 (drop (?ds - 20) ?d) = header_image ?dg l ts p r"
    if "unat p < dg_npatterns ?dg" for l ts p r
    using length_header_image[OF dg(1) that] pattern_body_ok(2)[OF dg(1) that] by presburger
  have "?R \<longleftrightarrow> (\<exists>ts p rsvd. unat p < dg_npatterns ?dg \<and>
      timestamp_accepted jp (ucast ts) (bd_timestamp (b_block_desc bio ! lo)) (bd_timestamp cur) \<and>
      take 20 ?d = header_image ?dg (b_slba bio + of_nat lo) ts p rsvd \<and>
      take (?ds - 40) (drop 20 ?d) = body_of ?dg (unat p) \<and>
      take 20 (drop (?ds - 20) ?d) = header_image ?dg (b_slba bio + of_nat lo) ts p rsvd)"
    unfolding dg(2)[symmetric] using im by (metis (no_types, lifting))
  then show ?thesis
    unfolding verify_block_data_iff[OF assms(1-4)] header_accepted_def datagen_get_header_iff[OF dg(1) len]
    using assms(5) ds(2) by auto
qed

theorem verify_block_data_exact_witness:
  "verify_block_data sample_iover sample_jp (sample_bio bio_read) (of_nat 1)
      \<lparr>bd_timestamp = 9, bd_state = 4, bd_pattern = 0, bd_flags = 0\<rparr> = Inr 0 \<longleftrightarrow>
    (\<exists>ts p rsvd. unat p < dg_npatterns (iv_datagen sample_iover) \<and>
      timestamp_accepted sample_jp (ucast (ts :: u64)) (bd_timestamp (b_block_desc (sample_bio bio_read) ! 1))
        (bd_timestamp \<lparr>bd_timestamp = 9, bd_state = 4, bd_pattern = 0, bd_flags = 0\<rparr>) \<and>
      take (unat (ns_data_size (iv_ns_info sample_iover))) (block_data sample_iover (sample_bio bio_read) (of_nat 1)) =
        header_image (iv_datagen sample_iover) (b_slba (sample_bio bio_read) + of_nat 1) ts p rsvd
        @ body_of (iv_datagen sample_iover) (unat p)
        @ header_image (iv_datagen sample_iover) (b_slba (sample_bio bio_read) + of_nat 1) ts p rsvd)"
proof (rule verify_block_data_exact)
  show "1 < nlbs_nat (sample_bio bio_read)" by (simp add: sample_bio_def)
  show "issue_ok sample_jp (sample_bio bio_read) 1" using sample_ok(5) by (simp add: issue_ok_def)
qed (simp_all only: sample_ok not_False_eq_True)

end
