(* ===== verification/IoverSubmit.thy ===== *)
theory IoverSubmit
  imports IoverCorrect
begin

text \<open>
  Completion of requests: what \<open>commit_block_state\<close> and \<open>backup_hist_state\<close> record, that a
  request's locks are released, and which mismatches the read check does not report.
\<close>

section \<open>Recorded states\<close>

text \<open>The state an operation other than a write leaves a block in.\<close>

fun state_after :: "bio_opcode \<Rightarrow> 3 word option" where
  "state_after bio_deallocate = Some block_state_dealloc"
| "state_after bio_write_zeroes = Some block_state_zeroes"
| "state_after bio_write_uncorrect = Some block_state_uncor"
| "state_after _ = None"

definition upd_range :: "(nat \<Rightarrow> block_desc \<Rightarrow> block_desc) \<Rightarrow> bio \<Rightarrow> block_desc list \<Rightarrow> block_desc list" where
  "upd_range g bio ds = map (\<lambda>i. if i \<in> bio_lbas bio then g i (ds ! i) else ds ! i) [0..<length ds]"

lemma length_upd_range [simp]: "length (upd_range g bio ds) = length ds"
  by (simp add: upd_range_def)

lemma commit_state_ok:
  assumes "bio_ok iv bio"
  shows "for_upto 0 (nlbs_nat bio) (commit_state st bio) iv =
    Inr (iv\<lparr>iv_block_desc := upd_range (\<lambda>i d. d\<lparr>bd_state := st\<rparr>) bio (iv_block_desc iv)\<rparr>)"
  unfolding upd_range_def by (rule upd_desc_loop[OF assms]) (simp add: commit_state_def)

text \<open>Committing a deallocate, write zeroes or write uncorrectable puts exactly the blocks of
  the request into the matching state and keeps their pattern and timestamp; any other operation
  than a write, and any operation of a job that does not compare, records nothing.\<close>

theorem commit_block_state_effect:
  assumes "bio_ok iv bio" and "b_opcode bio \<noteq> bio_write"
  shows "commit_block_state jp iv bio =
    Inr (case state_after (b_opcode bio) of
        Some st \<Rightarrow> if jp_compare jp
          then iv\<lparr>iv_block_desc := upd_range (\<lambda>i d. d\<lparr>bd_state := st\<rparr>) bio (iv_block_desc iv)\<rparr> else iv
      | None \<Rightarrow> iv)"
  using assms(2) by (cases "b_opcode bio") (simp_all add: commit_block_state_def commit_state_ok[OF assms(1)])

theorem commit_block_state_effect_witness:
  "commit_block_state sample_jp sample_iover (sample_bio bio_deallocate) =
    Inr (case state_after (b_opcode (sample_bio bio_deallocate)) of
        Some st \<Rightarrow> if jp_compare sample_jp
          then sample_iover\<lparr>iv_block_desc := upd_range (\<lambda>i d. d\<lparr>bd_state := st\<rparr>) (sample_bio bio_deallocate)
            (iv_block_desc sample_iover)\<rparr> else sample_iover
      | None \<Rightarrow> sample_iover)"
  by (rule commit_block_state_effect) (simp_all add: sample_ok, simp add: sample_bio_def)

section \<open>The life of a write\<close>

text \<open>C18: A successful write of a job without overlap goes through completely: its data is
  generated under the lock, completion returns 0, records the blocks as written at the new
  timestamp with their pattern, touches no other descriptor, and leaves the lock words as they
  were before the request.\<close>

theorem write_cycle:
  assumes ok: "iover_ok iv" and bio: "bio_ok iv bio" and op: "b_opcode bio = bio_write"
    and jp: "jp_compare jp" "\<not> jp_lba_overlap jp" and lk: "lockable jp iv bio"
    and job: "vj_params job = jp"
  shows "\<exists>iv1 w. iover_generate_data pi escape iv jp bio = Inr (0, iv1, w) \<and>
    locked (iv_lba_lock iv1) = locked (iv_lba_lock iv) \<union> bio_lbas bio \<and>
    iover_submit junk iv1 job (w\<lparr>b_result := 0, b_expected_result := 0\<rparr>) =
      Inr (0, iv\<lparr>iv_timestamp := iv_timestamp iv + 1,
             iv_block_desc := upd_range (written_desc iv (iv_timestamp iv + 1)) bio (iv_block_desc iv)\<rparr>,
        w\<lparr>b_result := 0, b_expected_result := 0\<rparr>, job)"
proof -
  let ?ts = "iv_timestamp iv + 1"
  obtain lock w where g: "iover_generate_data pi escape iv jp bio =
        Inr (0, iv\<lparr>iv_lba_lock := lock, iv_timestamp := ?ts\<rparr>, w)"
    and lock: "\<not> jp_lba_overlap jp \<longrightarrow> try_lock_lbas (iv_lba_lock iv) bio = Inr (0, lock)"
    and w: "bio_ok iv w" "b_slba w = b_slba bio" "b_nlbs w = b_nlbs bio" "b_opcode w = bio_write"
      "\<forall>j < nlbs_nat bio. block_written iv ?ts w j"
    using generate_write_ok[OF ok bio op jp(1) lk, of pi escape] by blast
  have fits: "bio_fits (length (iv_lba_lock iv)) bio" using lk jp(2) by (simp add: lockable_def)
  have "try_lock_lbas (iv_lba_lock iv) bio = Inr (0, lock)" using lock jp(2) by simp
  note tl = lba.try_lock_held[OF fits this] lba.lock_then_unlock[OF fits this]
  define c where "c = w\<lparr>b_result := 0, b_expected_result := 0\<rparr>"
  have un: "unlock_lbas lock c = unlock_lbas lock bio"
    using w(2,3) by (simp add: unlock_lbas_def c_def)
  have cw: "bio_ok iv c" "b_opcode c = bio_write" "bio_lbas c = bio_lbas bio"
    "\<forall>j < nlbs_nat c. block_written iv ?ts c j"
    using w block_written_same[of c w iv] by (simp_all add: c_def bio_ok_def bio_lbas_def)
  have wd: "written_desc (iv\<lparr>iv_timestamp := t\<rparr>) = written_desc iv" for t
    by (simp add: fun_eq_iff written_desc_def pattern_for_def)
  let ?iv2 = "iv\<lparr>iv_timestamp := ?ts\<rparr>"
  have "commit_block_state jp ?iv2 c =
      Inr (?iv2\<lparr>iv_block_desc := upd_range (written_desc iv ?ts) bio (iv_block_desc iv)\<rparr>)"
    using commit_write_ok[of ?iv2 c jp ?ts] ok jp(1) cw by (simp add: upd_range_def wd)
  then have "iover_submit junk (iv\<lparr>iv_lba_lock := lock, iv_timestamp := ?ts\<rparr>) job c =
      Inr (0, ?iv2\<lparr>iv_block_desc := upd_range (written_desc iv ?ts) bio (iv_block_desc iv)\<rparr>, c, job)"
    using job jp un tl(4) cw(2)
    by (simp add: iover_submit_def Let_def) (simp add: c_def)
  then show ?thesis using g tl(2) by (auto simp: c_def)
qed

definition sample_job :: verify_job where
  "sample_job = \<lparr>vj_params = sample_jp, vj_identify_valid = False, vj_identify = replicate 4096 0,
     vj_iogen_result = 0\<rparr>"

theorem write_cycle_witness:
  "\<exists>iv1 w. iover_generate_data \<lparr>guard = 0, app = 0, ref = 0\<rparr> (\<lambda>k. k = 1) sample_iover sample_jp
      (sample_bio bio_write) = Inr (0, iv1, w) \<and>
    locked (iv_lba_lock iv1) = locked (iv_lba_lock sample_iover) \<union> bio_lbas (sample_bio bio_write) \<and>
    iover_submit (replicate 64 0) iv1 sample_job (w\<lparr>b_result := 0, b_expected_result := 0\<rparr>) =
      Inr (0, sample_iover\<lparr>iv_timestamp := iv_timestamp sample_iover + 1,
             iv_block_desc := upd_range (written_desc sample_iover (iv_timestamp sample_iover + 1))
               (sample_bio bio_write) (iv_block_desc sample_iover)\<rparr>,
        w\<lparr>b_result := 0, b_expected_result := 0\<rparr>, sample_job)"
proof (rule write_cycle)
  show "b_opcode (sample_bio bio_write) = bio_write" by (simp add: sample_bio_def)
  show "vj_params sample_job = sample_jp" by (simp add: sample_job_def)
qed (simp_all only: sample_ok not_False_eq_True)

section \<open>What the checks do not report\<close>

lemma is_all_head: "data \<noteq> [] \<Longrightarrow> 0 < n \<Longrightarrow> is_all data val n = Inr (data ! 0 = val)"
proof (induction n)
  case (Suc n)
  then show ?case by (cases n) auto
qed simp

text \<open>\<open>is_all\<close> looks at the first byte only: on a buffer that holds at least one byte it
  returns whether that byte has the value, whatever the other bytes are.\<close>

theorem is_all_first_byte:
  assumes "data \<noteq> []" and "0 < n"
  shows "is_all data val n = Inr (data ! 0 = val)"
  using is_all_head[OF assms] .

theorem is_all_first_byte_witness: "is_all [0, 7] 0 2 = Inr ([0, 7 :: u8] ! 0 = 0)"
  by (rule is_all_first_byte) simp_all

text \<open>With overlapping requests and an issue-time timestamp above the current one, the header
  check accepts every timestamp: the test for the wrapped-around window can never fail.\<close>

theorem timestamp_wrap_accepts_all:
  assumes "jp_lba_overlap jp" and "cur < issue"
  shows "timestamp_accepted jp read issue cur"
proof -
  have "unat read < 2 ^ 16" by (rule order_less_le_trans[OF unsigned_less]) simp
  then show ?thesis using assms by (simp add: timestamp_accepted_def not_le[symmetric])
qed

theorem timestamp_wrap_accepts_all_witness:
  "timestamp_accepted (sample_jp\<lparr>jp_lba_overlap := True\<rparr>) 40 30 20"
  by (rule timestamp_wrap_accepts_all) simp_all

lemma fill_miscompare_ok:
  assumes ok: "iover_ok iv" and bio: "bio_ok iv bio" and lo: "lo < nlbs_nat bio" and "16 dvd dsz iv"
    and "unat (bd_state cur) < 5" and "pattern = PATTERN_ZEROES \<or> pattern = PATTERN_ONES"
  shows "fill_miscompare iv bio (of_nat lo) cur pattern = Inr (- 1)"
proof -
  have l: "dsz iv \<le> length (block_data iv bio (of_nat lo))"
    using block_data_length[OF ok bio lo] ok by (simp add: iover_ok_def Let_def)
  have "miscompare_dump iv bio (of_nat lo) 0 pattern = Inr ()"
    using assms(6) dump_miscompare_ok[of 16 "dsz iv" 0 "replicate (dsz iv) 0" "block_data iv bio (of_nat lo)"]
      dump_miscompare_ok[of 16 "dsz iv" 0 "replicate (dsz iv) 0xFF" "block_data iv bio (of_nat lo)"] l assms(4)
    by (auto simp: miscompare_dump_def Let_def PATTERN_ZEROES_def PATTERN_ONES_def)
  then show ?thesis using assms(5)
    by (simp add: fill_miscompare_def miscompare_message_def block_state_strings_def)
qed

text \<open>The result of checking blocks that write zeroes cleared is dropped: a read of such
  blocks completes and is never reported, whatever data came back.\<close>

theorem zeroes_not_reported:
  assumes ok: "iover_ok iv" and bio: "bio_ok iv bio" and "16 dvd unat (ns_data_size (iv_ns_info iv))"
    and "\<not> jp_lba_overlap jp"
    and "\<forall>i \<in> bio_lbas bio. bd_state (iv_block_desc iv ! i) = block_state_zeroes"
  shows "verify_bio_read junk iv jp bio = Inr 0"
proof -
  have "\<exists>s. for_upto 0 (nlbs_nat bio) (verify_read_step junk iv jp bio) 0 = Inr s \<and> s = 0"
  proof (rule for_upto_rule)
    fix lo s assume "lo < 0 + nlbs_nat bio" "s = (0 :: int)"
    then have lo: "lo < nlbs_nat bio" by simp
    let ?cur = "iv_block_desc iv ! (slba_nat bio + lo)"
    have z: "bd_state ?cur = block_state_zeroes" using assms(5) lo by (simp add: bio_lbas_def)
    have "block_data iv bio (of_nat lo) \<noteq> []" and ds: "0 < dsz iv"
      using block_data_length[OF ok bio lo] ok by (auto simp: iover_ok_def datagen_ok_def Let_def)
    then obtain b where "is_all_zeroes (block_data iv bio (of_nat lo)) (ns_data_size (iv_ns_info iv)) = Inr b"
      using is_all_head by (auto simp: is_all_zeroes_def)
    then have "verify_write_zeroes_block iv bio (of_nat lo) ?cur \<in> {Inr 0, Inr (- 1)}"
      using fill_miscompare_ok[OF ok bio lo assms(3), of ?cur PATTERN_ZEROES] z
      by (simp add: verify_write_zeroes_block_def)
    then have "verify_block junk iv jp bio (of_nat lo) ?cur = Inr 0"
      using z by (auto simp: verify_block_def Let_def)
    then show "\<exists>s'. verify_read_step junk iv jp bio lo s = Inr s' \<and> s' = 0"
      using assms(4) bio_okD(1,2)[OF bio lo] \<open>s = 0\<close> by (simp add: verify_read_step_def)
  qed simp
  then show ?thesis by (simp add: verify_bio_read_def)
qed

definition zeroed_iover :: iover where
  "zeroed_iover = sample_iover\<lparr>iv_block_desc :=
     replicate 4 \<lparr>bd_timestamp = 0, bd_state = block_state_zeroes, bd_pattern = 0, bd_flags = 0\<rparr>\<rparr>"

theorem zeroes_not_reported_witness:
  "verify_bio_read [] zeroed_iover sample_jp ((sample_bio bio_read)\<lparr>b_data := replicate 96 0xEE\<rparr>) = Inr 0"
proof (rule zeroes_not_reported)
  show "iover_ok zeroed_iover" using sample_ok(1) by (simp add: zeroed_iover_def)
  show "bio_ok zeroed_iover ((sample_bio bio_read)\<lparr>b_data := replicate 96 0xEE\<rparr>)"
    using sample_ok(2)[of bio_read] by (simp add: zeroed_iover_def bio_ok_def sample_iover_def
        sample_bio_def get_block_size_def namespace_zero_def bio_zero_def)
  show "16 dvd unat (ns_data_size (iv_ns_info zeroed_iover))" by (simp add: zeroed_iover_def sample_iover_def)
  show "\<not> jp_lba_overlap sample_jp" by (rule sample_ok(5))
  show "\<forall>i\<in>bio_lbas ((sample_bio bio_read)\<lparr>b_data := replicate 96 0xEE\<rparr>).
      bd_state (iv_block_desc zeroed_iover ! i) = 3"
    by (auto simp: bio_lbas_def sample_bio_def zeroed_iover_def nth_Cons')
qed

section \<open>The history ring\<close>

definition hist_ok :: "iover \<Rightarrow> bool" where
  "hist_ok iv \<longleftrightarrow> (case iv_journal iv of None \<Rightarrow> False
     | Some (jh, jf) \<Rightarrow> length (iv_hist_desc iv) = unat (jh_nhist jh) \<and>
         unat (jh_hist_idx jh) < unat (jh_nhist jh) \<and> iv_block_desc iv \<noteq> [])"

definition hist_idx :: "iover \<Rightarrow> nat" where
  "hist_idx iv = (case iv_journal iv of None \<Rightarrow> 0 | Some (jh, jf) \<Rightarrow> unat (jh_hist_idx jh))"

lemma push_hist_ok:
  assumes ok: "hist_ok iv"
  shows "\<exists>iv' h. push_hist bio lo f iv = Inr iv' \<and> hist_ok iv' \<and>
    iv_block_desc iv' = iv_block_desc iv \<and> iv_hist_desc iv' = (iv_hist_desc iv)[hist_idx iv := h] \<and>
    hist_idx iv < length (iv_hist_desc iv) \<and>
    hist_idx iv' = (hist_idx iv + 1) mod length (iv_hist_desc iv) \<and>
    hd_lba h = b_slba bio + of_nat lo \<and> hd_curr h = iv_block_desc iv ! 0 \<and>
    hd_next h = f (hd_next (iv_hist_desc iv ! hist_idx iv))"
proof -
  obtain jh jf where j: "iv_journal iv = Some (jh, jf)" and len: "length (iv_hist_desc iv) = unat (jh_nhist jh)"
    and lt: "unat (jh_hist_idx jh) < unat (jh_nhist jh)" and ne: "iv_block_desc iv \<noteq> []"
    using ok by (auto simp: hist_ok_def split: option.splits)
  have "unat (jh_hist_idx jh) + 1 < 2 ^ 32"
  proof -
    have "unat (jh_nhist jh) < 2 ^ 32" by (rule order_less_le_trans[OF unsigned_less]) simp
    then show ?thesis using lt by simp
  qed
  then have "unat (jh_hist_idx jh + 1) = unat (jh_hist_idx jh) + 1" by (simp add: unat_word_ariths)
  then have md: "unat ((jh_hist_idx jh + 1) mod jh_nhist jh) = (unat (jh_hist_idx jh) + 1) mod unat (jh_nhist jh)"
    by (simp add: unat_mod)
  have nz: "jh_nhist jh \<noteq> 0" using lt by auto
  have "(unat (jh_hist_idx jh) + 1) mod unat (jh_nhist jh) < unat (jh_nhist jh)" using lt by simp
  then show ?thesis using j len lt ne nz md
    by (auto simp: push_hist_def hist_ok_def hist_idx_def Let_def)
qed

lemma hist_loop_ok:
  assumes ok: "hist_ok iv" and n: "n \<le> length (iv_hist_desc iv)"
  shows "\<exists>iv'. for_upto 0 n (\<lambda>k. push_hist bio k (\<lambda>d. d\<lparr>bd_state := st\<rparr>)) iv = Inr iv' \<and> hist_ok iv' \<and>
    iv_block_desc iv' = iv_block_desc iv \<and> length (iv_hist_desc iv') = length (iv_hist_desc iv) \<and>
    hist_idx iv' = (hist_idx iv + n) mod length (iv_hist_desc iv) \<and>
    (\<forall>j < n. let h = iv_hist_desc iv' ! ((hist_idx iv + j) mod length (iv_hist_desc iv)) in
      hd_lba h = b_slba bio + of_nat j \<and> bd_state (hd_next h) = st)"
proof -
  let ?m = "length (iv_hist_desc iv)" and ?i = "hist_idx iv"
  define P where "P = (\<lambda>k v. hist_ok v \<and> iv_block_desc v = iv_block_desc iv \<and> length (iv_hist_desc v) = ?m \<and>
    hist_idx v = (?i + k) mod ?m \<and>
    (\<forall>j < k. let h = iv_hist_desc v ! ((?i + j) mod ?m) in hd_lba h = b_slba bio + of_nat j \<and> bd_state (hd_next h) = st))"
  have "\<exists>v. for_upto 0 n (\<lambda>k. push_hist bio k (\<lambda>d. d\<lparr>bd_state := st\<rparr>)) iv = Inr v \<and> P (0 + n) v"
  proof (rule for_upto_rule)
    have "?i < ?m" using push_hist_ok[OF ok] by blast
    then show "P 0 iv" using ok by (simp add: P_def)
  next
    fix k v assume k: "k < 0 + n" and P: "P k v"
    then have v: "hist_ok v" "length (iv_hist_desc v) = ?m" "hist_idx v = (?i + k) mod ?m"
      by (simp_all add: P_def)
    obtain v' h where h: "push_hist bio k (\<lambda>d. d\<lparr>bd_state := st\<rparr>) v = Inr v'" "hist_ok v'"
      "iv_block_desc v' = iv_block_desc v" "iv_hist_desc v' = (iv_hist_desc v)[hist_idx v := h]"
      "hist_idx v < ?m" "hist_idx v' = (hist_idx v + 1) mod ?m" "hd_lba h = b_slba bio + of_nat k"
      "bd_state (hd_next h) = st"
      using push_hist_ok[OF v(1), of bio k "\<lambda>d. d\<lparr>bd_state := st\<rparr>"] v(2) by auto
    have neq: "(?i + j) mod ?m \<noteq> hist_idx v" if "j < k" for j
      using mod_shift_neq[OF that, of ?m ?i] k n v(3) by simp
    have "iv_hist_desc v' ! ((?i + j) mod ?m) = (if j = k then h else iv_hist_desc v ! ((?i + j) mod ?m))"
      if "j < Suc k" for j
    proof (cases "j = k")
      case True
      then show ?thesis using h(4,5) v(2,3) by simp
    next
      case False
      then show ?thesis using neq[of j] that by (simp add: h(4))
    qed
    moreover have "hist_idx v' = (?i + Suc k) mod ?m" using h(6) v(3) by (simp add: mod_Suc_eq)
    ultimately have "P (Suc k) v'"
      using P h v(2) by (simp add: P_def Let_def less_Suc_eq)
    then show "\<exists>v'. push_hist bio k (\<lambda>d. d\<lparr>bd_state := st\<rparr>) v = Inr v' \<and> P (Suc k) v'" using h(1) by blast
  qed
  then show ?thesis by (auto simp: P_def)
qed

text \<open>The state the history records for an operation: for write uncorrectable it is the number of
  the operation, which is no block state.\<close>

fun hist_state :: "bio_opcode \<Rightarrow> 3 word" where
  "hist_state bio_deallocate = block_state_dealloc"
| "hist_state bio_write_zeroes = block_state_zeroes"
| "hist_state bio_write_uncorrect = 5"
| "hist_state _ = 0"

text \<open>Backing up the history of a deallocate, write zeroes or write uncorrectable that is no
  longer than the ring completes: each block of the request occupies one of the slots from the
  old index on, with its LBA and the recorded state; the index moves on by the length of the
  request and stays inside the ring, and no block descriptor changes.\<close>

theorem backup_hist_ring:
  assumes "hist_ok iv" and "jp_history jp \<noteq> 0" and "jp_compare jp" and "state_after (b_opcode bio) \<noteq> None"
    and "nlbs_nat bio \<le> length (iv_hist_desc iv)"
  shows "\<exists>iv'. backup_hist_state jp iv bio = Inr iv' \<and> hist_ok iv' \<and>
    iv_block_desc iv' = iv_block_desc iv \<and> length (iv_hist_desc iv') = length (iv_hist_desc iv) \<and>
    hist_idx iv' = (hist_idx iv + nlbs_nat bio) mod length (iv_hist_desc iv) \<and>
    (\<forall>j < nlbs_nat bio. let h = iv_hist_desc iv' ! ((hist_idx iv + j) mod length (iv_hist_desc iv)) in
      hd_lba h = b_slba bio + of_nat j \<and> bd_state (hd_next h) = hist_state (b_opcode bio))"
  using hist_loop_ok[OF assms(1,5), of bio "hist_state (b_opcode bio)"] assms(2,3,4)
  by (cases "b_opcode bio") (simp_all add: backup_hist_state_def)

definition hist_iover :: iover where
  "hist_iover = (let bd = \<lparr>bd_timestamp = 0, bd_state = 0, bd_pattern = 0, bd_flags = 0\<rparr> in
     sample_iover\<lparr>iv_hist_desc := replicate 3 \<lparr>hd_lba = - 1, hd_curr = bd, hd_next = bd\<rparr>,
       iv_journal := Some
         (\<lparr>jh_magic = 0, jh_sn = [], jh_eui64 = [], jh_data_size_shift = 0, jh_meta_size = 0, jh_nlbs = 4,
           jh_nhist = 3, jh_hist_idx = 2\<rparr>,
          \<lparr>jf_host_writes = [], jf_timestamp = 0, jf_rsvd = 0, jf_magic = 0\<rparr>)\<rparr>)"

theorem backup_hist_ring_witness:
  "\<exists>iv'. backup_hist_state (sample_jp\<lparr>jp_history := 1\<rparr>) hist_iover (sample_bio bio_deallocate) = Inr iv' \<and>
    hist_ok iv' \<and> iv_block_desc iv' = iv_block_desc hist_iover \<and>
    length (iv_hist_desc iv') = length (iv_hist_desc hist_iover) \<and>
    hist_idx iv' = (hist_idx hist_iover + nlbs_nat (sample_bio bio_deallocate)) mod length (iv_hist_desc hist_iover) \<and>
    (\<forall>j < nlbs_nat (sample_bio bio_deallocate).
      let h = iv_hist_desc iv' ! ((hist_idx hist_iover + j) mod length (iv_hist_desc hist_iover)) in
      hd_lba h = b_slba (sample_bio bio_deallocate) + of_nat j \<and>
      bd_state (hd_next h) = hist_state (b_opcode (sample_bio bio_deallocate)))"
  by (rule backup_hist_ring)
     (simp_all add: hist_iover_def hist_ok_def sample_iover_def sample_bio_def sample_jp_def Let_def
        job_params_zero_def)

section \<open>Identify requests and the lock\<close>

text \<open>An identify request takes no lock, but its completion unlocks its stale LBA range: a
  range that another request still holds becomes free.\<close>

theorem identify_releases_foreign_lock:
  assumes "bio_fits (length (iv_lba_lock iv)) bio" and "b_opcode bio = bio_identify"
    and "\<not> jp_lba_overlap (vj_params job)" and "\<not> jp_compare (vj_params job)" and "b_result bio = b_expected_result bio"
  shows "(\<exists>b. iover_generate_data pi escape iv (vj_params job) bio = Inr (0, iv, b)) \<and>
    (\<exists>iv'. iover_submit junk iv job bio = Inr (0, iv', bio, job) \<and>
      locked (iv_lba_lock iv') = locked (iv_lba_lock iv) - bio_lbas bio)"
proof -
  have "b_opcode (set_tags pi iv bio) = bio_identify" using assms(2) by (simp add: set_tags_def Let_def)
  then show ?thesis
    using lba.unlock_held[OF assms(1)] assms(2-5)
    by (auto simp: iover_generate_data_def iover_submit_def Let_def)
qed

theorem identify_releases_foreign_lock_witness:
  "(\<exists>b. iover_generate_data \<lparr>guard = 0, app = 0, ref = 0\<rparr> (\<lambda>k. False) (sample_iover\<lparr>iv_lba_lock := [6]\<rparr>)
      (vj_params (sample_job\<lparr>vj_params := job_params_zero\<rparr>)) (sample_bio bio_identify) =
      Inr (0, sample_iover\<lparr>iv_lba_lock := [6]\<rparr>, b)) \<and>
    (\<exists>iv'. iover_submit [] (sample_iover\<lparr>iv_lba_lock := [6]\<rparr>) (sample_job\<lparr>vj_params := job_params_zero\<rparr>)
      (sample_bio bio_identify) = Inr (0, iv', sample_bio bio_identify, sample_job\<lparr>vj_params := job_params_zero\<rparr>) \<and>
      locked (iv_lba_lock iv') =
        locked (iv_lba_lock (sample_iover\<lparr>iv_lba_lock := [6]\<rparr>)) - bio_lbas (sample_bio bio_identify))"
  by (rule identify_releases_foreign_lock)
     (simp_all add: bio_fits_def sample_bio_def bio_zero_def job_params_zero_def)

end
