(* ===== verification/Acct.thy ===== *)
theory Acct
  imports Bio
begin

text \<open>
  Accounting of completed requests: the latency histogram of \<open>nbio/acct.h\<close>, the bucket choice
  \<open>latency_acct_add\<close> and the counters that \<open>bio_end\<close> updates (\<open>nbio/iogen.c\<close>). All counters are
  64-bit and wrap around. What the main thread makes of them is in the theory \<open>Report\<close>.
\<close>

definition latency_bucket_marks :: "u32 list" where
  "latency_bucket_marks =
     [1000, 2000, 3000, 4000, 5000, 6000, 7000, 8000, 9000,
      10000, 20000, 30000, 40000, 50000, 60000, 70000, 80000, 90000,
      100000, 200000, 300000, 400000, 500000, 600000, 700000, 800000, 900000,
      1000000, 2000000, 3000000, 4000000, 5000000, 6000000, 7000000, 8000000, 9000000,
      10000000, 20000000, 30000000, 40000000, 50000000, 60000000, 70000000, 80000000, 90000000,
      100000000, 200000000, 300000000, 400000000, 500000000, 600000000, 700000000, 800000000, 900000000,
      0xFFFFFFFF]"

definition LATENCY_ACCT_NUM_BUCKETS :: nat where
  "LATENCY_ACCT_NUM_BUCKETS = length latency_bucket_marks"

record latency_acct_bucket =
  lb_count :: u64
  lb_sum :: u64

record latency_acct =
  la_buckets :: "latency_acct_bucket list"
  la_sum :: u64
  la_max :: u64
  la_min :: u64

record opacct =
  oa_ops :: u64
  oa_bytes :: u64
  oa_latency :: latency_acct

record ioacct =
  ia_ops :: "opacct list"
  ia_sum :: opacct

text \<open>\<open>timespec_sub\<close>: the difference of the seconds is converted to unsigned before the product.\<close>

definition NSEC_PER_SEC :: u64 where
  "NSEC_PER_SEC = 1000000000"

definition timespec_sub :: "timespec \<Rightarrow> timespec \<Rightarrow> u64" where
  "timespec_sub ts1 ts2 =
     of_int (tv_sec ts1 - tv_sec ts2) * NSEC_PER_SEC + of_int (tv_nsec ts1 - tv_nsec ts2)"

definition latency_bucket_idx :: "u64 \<Rightarrow> u32" where
  "latency_bucket_idx lat_ns =
     (if lat_ns < 9000 then ucast (lat_ns div 1000)
      else if lat_ns < 90000 then ucast (9 + lat_ns div 10000)
      else if lat_ns < 900000 then ucast (18 + lat_ns div 100000)
      else if lat_ns < 9000000 then ucast (27 + lat_ns div 1000000)
      else if lat_ns < 90000000 then ucast (36 + lat_ns div 10000000)
      else if lat_ns < 900000000 then ucast (45 + lat_ns div 100000000)
      else 54)"

definition latency_acct_add :: "latency_acct_bucket list \<Rightarrow> u64 \<Rightarrow> latency_acct_bucket list res" where
  "latency_acct_add buckets lat_ns =
     (let idx = unat (latency_bucket_idx lat_ns) in
      bnd (arr_get buckets idx) (\<lambda>b.
      arr_set buckets idx (b\<lparr>lb_count := lb_count b + 1, lb_sum := lb_sum b + lat_ns\<rparr>)))"

text \<open>The accounting part of \<open>bio_end\<close> for a request that took \<open>lat_ns\<close>.\<close>

definition acct_bio_end :: "ioacct \<Rightarrow> bio \<Rightarrow> u64 \<Rightarrow> ioacct res" where
  "acct_bio_end acct bio lat_ns =
     bnd (arr_get (ia_ops acct) (bio_opcode_num (b_opcode bio))) (\<lambda>op.
     let lat = oa_latency op;
         lat = (if la_min lat > lat_ns then lat\<lparr>la_min := lat_ns\<rparr> else lat);
         lat = (if la_max lat < lat_ns then lat\<lparr>la_max := lat_ns\<rparr> else lat) in
     bnd (latency_acct_add (la_buckets lat) lat_ns) (\<lambda>buckets.
     let op = op\<lparr>oa_ops := oa_ops op + 1, oa_bytes := oa_bytes op + b_iosize bio,
                 oa_latency := lat\<lparr>la_sum := la_sum lat + lat_ns, la_buckets := buckets\<rparr>\<rparr>;
         s = ia_sum acct in
     Inr (acct\<lparr>ia_ops := (ia_ops acct)[bio_opcode_num (b_opcode bio) := op],
       ia_sum := s\<lparr>oa_latency := (oa_latency s)\<lparr>la_sum := la_sum (oa_latency s) + lat_ns\<rparr>\<rparr>\<rparr>)))"

section \<open>Buckets\<close>

definition mark :: "nat \<Rightarrow> nat" where
  "mark i = unat (latency_bucket_marks ! i)"

lemma num_buckets [simp, layout]: "LATENCY_ACCT_NUM_BUCKETS = 55"
  by (simp add: LATENCY_ACCT_NUM_BUCKETS_def latency_bucket_marks_def)

lemma less_9_cases: "(m :: nat) < 9 \<Longrightarrow> m \<in> {0, 1, 2, 3, 4, 5, 6, 7, 8}"
  by auto

text \<open>Six rows of nine marks, each row ten times the one before.\<close>

lemma mark_rows:
  assumes "m < 9"
  shows "mark m = (m + 1) * 1000" "mark (9 + m) = (m + 1) * 10000" "mark (18 + m) = (m + 1) * 100000"
    "mark (27 + m) = (m + 1) * 1000000" "mark (36 + m) = (m + 1) * 10000000"
    "mark (45 + m) = (m + 1) * 100000000"
  using less_9_cases[OF assms] by (auto simp: mark_def latency_bucket_marks_def)

text \<open>A quotient below 9 selects the bucket between two marks of one row.\<close>

lemma row_bucket:
  assumes "q = l div w" and "q < 9" and "0 < w" and "\<And>m. m < 9 \<Longrightarrow> mark (base + m) = (m + 1) * w"
  shows "l < mark (base + q)" and "q \<noteq> 0 \<Longrightarrow> mark (base + q - 1) \<le> l"
proof -
  have "l < w + q * w" using assms(1,3) by (metis dividend_less_times_div mult.commute add.commute)
  then show "l < mark (base + q)" using assms(4)[OF assms(2)] by simp
  show "mark (base + q - 1) \<le> l" if "q \<noteq> 0"
  proof -
    have "mark (base + (q - 1)) = (q - 1 + 1) * w" using assms(2) by (intro assms(4)) simp
    then show ?thesis using that assms(1) by (simp add: div_times_less_eq_dividend)
  qed
qed

lemma bucket_idx_nat:
  "unat (latency_bucket_idx lat) =
     (let l = unat lat in
      if l < 9000 then l div 1000 else if l < 90000 then 9 + l div 10000
      else if l < 900000 then 18 + l div 100000 else if l < 9000000 then 27 + l div 1000000
      else if l < 90000000 then 36 + l div 10000000 else if l < 900000000 then 45 + l div 100000000
      else 54)"
proof -
  have q: "unat (ucast (c + lat div d) :: u32) = unat c + unat lat div unat d"
    if "unat c + unat lat div unat d < 2 ^ 32" for c d :: u64
  proof -
    have "unat (c + lat div d) = unat c + unat lat div unat d"
      using that by (simp add: unat_word_ariths unat_div)
    then show ?thesis using that by (simp add: unsigned_ucast_eq take_bit_nat_eq_self)
  qed
  show ?thesis
    using q[of 0 1000] q[of 9 10000] q[of 18 100000] q[of 27 1000000] q[of 36 10000000] q[of 45 100000000]
    by (auto simp: latency_bucket_idx_def Let_def word_less_nat_alt)
qed

lemma bucket_idx_bounds:
  "unat (latency_bucket_idx lat) < 55 \<and>
   (unat (latency_bucket_idx lat) \<noteq> 0 \<longrightarrow> mark (unat (latency_bucket_idx lat) - 1) \<le> unat lat) \<and>
   (unat (latency_bucket_idx lat) \<noteq> 54 \<longrightarrow> unat lat < mark (unat (latency_bucket_idx lat)))"
proof -
  define l where "l = unat lat"
  have m53: "mark 53 = 900000000" and m8: "mark 8 = 9000" and m17: "mark 17 = 90000" and m26: "mark 26 = 900000"
    and m35: "mark 35 = 9000000" and m44: "mark 44 = 90000000"
    by (simp_all add: mark_def latency_bucket_marks_def)
  consider "l < 9000" | "9000 \<le> l" "l < 90000" | "90000 \<le> l" "l < 900000" | "900000 \<le> l" "l < 9000000"
    | "9000000 \<le> l" "l < 90000000" | "90000000 \<le> l" "l < 900000000" | "900000000 \<le> l" by linarith
  then show ?thesis
  proof cases
    case 1
    then have q: "l div 1000 < 9" by simp
    have m: "mark (0 + m) = (m + 1) * 1000" if "m < 9" for m using mark_rows(1)[OF that] by simp
    have "l < mark (l div 1000)" "l div 1000 \<noteq> 0 \<Longrightarrow> mark (l div 1000 - 1) \<le> l"
      using row_bucket[OF refl q _ m] by (simp_all only: add_0 zero_less_numeral simp_thms not_False_eq_True implies_True_equals)
    then show ?thesis using 1 by (simp add: bucket_idx_nat l_def[symmetric] Let_def)
  next
    case 2
    then show ?thesis using row_bucket[of "l div 10000" l 10000 9] mark_rows(2) m8
      by (cases "l div 10000 = 0") (simp_all add: bucket_idx_nat l_def[symmetric] Let_def)
  next
    case 3
    then show ?thesis using row_bucket[of "l div 100000" l 100000 18] mark_rows(3) m17
      by (cases "l div 100000 = 0") (simp_all add: bucket_idx_nat l_def[symmetric] Let_def)
  next
    case 4
    then show ?thesis using row_bucket[of "l div 1000000" l 1000000 27] mark_rows(4) m26
      by (cases "l div 1000000 = 0") (simp_all add: bucket_idx_nat l_def[symmetric] Let_def)
  next
    case 5
    then show ?thesis using row_bucket[of "l div 10000000" l 10000000 36] mark_rows(5) m35
      by (cases "l div 10000000 = 0") (simp_all add: bucket_idx_nat l_def[symmetric] Let_def)
  next
    case 6
    then show ?thesis using row_bucket[of "l div 100000000" l 100000000 45] mark_rows(6) m44
      by (cases "l div 100000000 = 0") (simp_all add: bucket_idx_nat l_def[symmetric] Let_def)
  next
    case 7
    then show ?thesis using m53 by (simp add: bucket_idx_nat l_def[symmetric] Let_def)
  qed
qed

text \<open>Every latency falls into the bucket whose marks enclose it: the index is one of the 55
  buckets, the mark before it is at most the latency and, for all but the last bucket, its own
  mark is above the latency; the histogram gains exactly one entry.\<close>

theorem latency_bucket_correct:
  assumes "length buckets = LATENCY_ACCT_NUM_BUCKETS"
  shows "\<exists>i b. latency_acct_add buckets lat = Inr (buckets[i := b]) \<and> i < LATENCY_ACCT_NUM_BUCKETS \<and>
    lb_count b = lb_count (buckets ! i) + 1 \<and> lb_sum b = lb_sum (buckets ! i) + lat \<and>
    (i \<noteq> 0 \<longrightarrow> unat (latency_bucket_marks ! (i - 1)) \<le> unat lat) \<and>
    (i \<noteq> LATENCY_ACCT_NUM_BUCKETS - 1 \<longrightarrow> unat lat < unat (latency_bucket_marks ! i))"
proof -
  let ?i = "unat (latency_bucket_idx lat)"
  have "latency_acct_add buckets lat =
      Inr (buckets[?i := (buckets ! ?i)\<lparr>lb_count := lb_count (buckets ! ?i) + 1, lb_sum := lb_sum (buckets ! ?i) + lat\<rparr>])"
    using bucket_idx_bounds[of lat] assms by (simp add: latency_acct_add_def Let_def)
  then show ?thesis using bucket_idx_bounds[of lat]
    by (intro exI[of _ ?i] exI[of _ "(buckets ! ?i)\<lparr>lb_count := lb_count (buckets ! ?i) + 1,
        lb_sum := lb_sum (buckets ! ?i) + lat\<rparr>"]) (simp add: mark_def)
qed

theorem latency_bucket_correct_witness:
  "\<exists>i b. latency_acct_add (replicate 55 \<lparr>lb_count = 0, lb_sum = 0\<rparr>) 12345 =
      Inr ((replicate 55 \<lparr>lb_count = 0, lb_sum = 0\<rparr>)[i := b]) \<and> i < LATENCY_ACCT_NUM_BUCKETS \<and>
    lb_count b = lb_count (replicate 55 \<lparr>lb_count = 0, lb_sum = 0\<rparr> ! i) + 1 \<and>
    lb_sum b = lb_sum (replicate 55 \<lparr>lb_count = 0, lb_sum = 0\<rparr> ! i) + 12345 \<and>
    (i \<noteq> 0 \<longrightarrow> unat (latency_bucket_marks ! (i - 1)) \<le> unat (12345 :: u64)) \<and>
    (i \<noteq> LATENCY_ACCT_NUM_BUCKETS - 1 \<longrightarrow> unat (12345 :: u64) < unat (latency_bucket_marks ! i))"
  by (rule latency_bucket_correct) simp

end
