(* ===== verification/Jesd219.thy ===== *)
theory Jesd219
  imports Bio
begin

text \<open>
  The JESD219 enterprise workload (\<open>nbio/jesd219.c\<close>, \<open>jesd219.h\<close>): the WELL generator on sixteen
  \<open>unsigned long\<close> words, the choice of the LBA group and of the request size, and the loop that
  draws a start address until the request fits. The static variables \<open>state\<close>, \<open>__index\<close> and
  \<open>set_random_seed\<close> are one record. The products with the ratios 0.05, 0.15, 0.20 and 0.80 are
  computed as the IEEE double arithmetic of the code does, exactly.
\<close>

section \<open>Random numbers\<close>

record well =
  w_state :: "u64 list"
  w_index :: u32
  w_seeded :: bool

definition RANDOM_STATE :: nat where
  "RANDOM_STATE = 16"

definition WELLRNG512 :: "well \<Rightarrow> (u64 \<times> well) res" where
  "WELLRNG512 w =
     bnd (arr_get (w_state w) (unat (w_index w))) (\<lambda>a.
     bnd (arr_get (w_state w) (unat ((w_index w + 13) AND 15))) (\<lambda>c.
     let b = a XOR c XOR push_bit 16 a XOR push_bit 15 c in
     bnd (arr_get (w_state w) (unat ((w_index w + 9) AND 15))) (\<lambda>c.
     let c = c XOR drop_bit 11 c in
     let a = b XOR c in
     bnd (arr_set (w_state w) (unat (w_index w)) a) (\<lambda>st.
     let d = a XOR (push_bit 5 a AND 0xDA442D20) in
     let ix = (w_index w + 15) AND 15 in
     bnd (arr_get st (unat ix)) (\<lambda>a.
     let v = a XOR b XOR d XOR push_bit 2 a XOR push_bit 18 b XOR push_bit 28 c in
     bnd (arr_set st (unat ix) v) (\<lambda>st.
     Inr (v, w\<lparr>w_state := st, w_index := ix\<rparr>)))))))"

text \<open>The generator is seeded on the first call of the process, from the seed of that job.\<close>

definition well_seed :: "u32 \<Rightarrow> well \<Rightarrow> well" where
  "well_seed seed w =
     (if w_seeded w then w
      else w\<lparr>w_state := map (\<lambda>i. ucast (seed + of_nat i)) [0..<RANDOM_STATE], w_seeded := True\<rparr>)"

definition well_ok :: "well \<Rightarrow> bool" where
  "well_ok w \<longleftrightarrow> length (w_state w) = RANDOM_STATE \<and> w_index w < 16"

section \<open>Groups and sizes\<close>

datatype lba_group = LBA_GROUP_IDX_A | LBA_GROUP_IDX_B | LBA_GROUP_IDX_C

definition get_lba_grp_idx_in_jesd219_workload :: "u32 \<Rightarrow> lba_group" where
  "get_lba_grp_idx_in_jesd219_workload rand_val =
     (if rand_val < 50 then LBA_GROUP_IDX_A
      else if rand_val < 50 + 30 then LBA_GROUP_IDX_B
      else LBA_GROUP_IDX_C)"

definition SIZE_OF_SECTOR :: u32 where
  "SIZE_OF_SECTOR = 512"

definition SIZE_OF_SECTOR_4K :: u32 where
  "SIZE_OF_SECTOR_4K = 4096"

text \<open>The cumulative percentages \<open>PROB_PAYLOAD_SIZE_BELOW_512B\<close> to \<open>PROB_PAYLOAD_SIZE_BELOW_32K\<close>.\<close>

definition get_num_of_mu_in_jesd219_workload :: "u32 \<Rightarrow> u32" where
  "get_num_of_mu_in_jesd219_workload rand_val =
     (if rand_val < 4 then 512 div SIZE_OF_SECTOR
      else if rand_val < 4 + 1 then 1024 div SIZE_OF_SECTOR
      else if rand_val < 5 + 1 then 1536 div SIZE_OF_SECTOR
      else if rand_val < 6 + 1 then 2048 div SIZE_OF_SECTOR
      else if rand_val < 7 + 1 then 2560 div SIZE_OF_SECTOR
      else if rand_val < 8 + 1 then 3072 div SIZE_OF_SECTOR
      else if rand_val < 9 + 1 then 3584 div SIZE_OF_SECTOR
      else if rand_val < 10 + 67 then push_bit 10 4 div SIZE_OF_SECTOR
      else if rand_val < 77 + 10 then push_bit 10 8 div SIZE_OF_SECTOR
      else if rand_val < 87 + 7 then push_bit 10 16 div SIZE_OF_SECTOR
      else if rand_val < 94 + 3 then push_bit 10 32 div SIZE_OF_SECTOR
      else push_bit 10 64 div SIZE_OF_SECTOR)"

definition get_num_of_mu_in_jesd219_workload_4k :: "u32 \<Rightarrow> u32" where
  "get_num_of_mu_in_jesd219_workload_4k rand_val =
     (if rand_val < 10 + 67 then push_bit 10 4 div SIZE_OF_SECTOR_4K
      else if rand_val < 77 + 10 then push_bit 10 8 div SIZE_OF_SECTOR_4K
      else if rand_val < 87 + 7 then push_bit 10 16 div SIZE_OF_SECTOR_4K
      else if rand_val < 94 + 3 then push_bit 10 32 div SIZE_OF_SECTOR_4K
      else push_bit 10 64 div SIZE_OF_SECTOR_4K)"

section \<open>Products with a double\<close>

text \<open>Rounding a natural number to 53 significant bits, to nearest with ties to even.\<close>

fun bit_count :: "nat \<Rightarrow> nat" where
  "bit_count n = (if n = 0 then 0 else Suc (bit_count (n div 2)))"

declare bit_count.simps [simp del]

definition round53 :: "nat \<Rightarrow> nat" where
  "round53 n =
     (let s = bit_count n - 53; q = n div 2 ^ s; r = n mod 2 ^ s; half = 2 ^ s div 2 in
      if s = 0 then n
      else if half < r \<or> (r = half \<and> odd q) then (q + 1) * 2 ^ s else q * 2 ^ s)"

text \<open>
  \<open>(u32)(nlbs * ratio)\<close> for a double \<open>ratio\<close> with the value \<open>m / 2 ^ e\<close>; a result out of the range of
  \<open>u32\<close> is undefined.
\<close>

definition times_ratio :: "u64 \<Rightarrow> nat \<Rightarrow> nat \<Rightarrow> u32 res" where
  "times_ratio nlbs m e =
     (let x = round53 (round53 (unat nlbs) * m) div 2 ^ e in
      if x < 2 ^ 32 then Inr (of_nat x) else Inl Fault)"

text \<open>The doubles nearest to 0.05, 0.15, 0.05 + 0.15 and 0.80.\<close>

definition RATIO_LBA_SPACE_GROUP_A :: "nat \<times> nat" where
  "RATIO_LBA_SPACE_GROUP_A = (7205759403792794, 57)"

definition RATIO_LBA_SPACE_GROUP_B :: "nat \<times> nat" where
  "RATIO_LBA_SPACE_GROUP_B = (5404319552844595, 55)"

definition RATIO_LBA_SPACE_GROUP_AB :: "nat \<times> nat" where
  "RATIO_LBA_SPACE_GROUP_AB = (7205759403792794, 55)"

definition RATIO_LBA_SPACE_GROUP_C :: "nat \<times> nat" where
  "RATIO_LBA_SPACE_GROUP_C = (7205759403792794, 53)"

fun lba_group_bounds :: "u64 \<Rightarrow> lba_group \<Rightarrow> (u32 \<times> u32) res" where
  "lba_group_bounds nlbs LBA_GROUP_IDX_A =
     bnd (case_prod (times_ratio nlbs) RATIO_LBA_SPACE_GROUP_A) (\<lambda>sz. Inr (0, sz))"
| "lba_group_bounds nlbs LBA_GROUP_IDX_B =
     bnd (case_prod (times_ratio nlbs) RATIO_LBA_SPACE_GROUP_A) (\<lambda>st.
     bnd (case_prod (times_ratio nlbs) RATIO_LBA_SPACE_GROUP_B) (\<lambda>sz. Inr (st, sz)))"
| "lba_group_bounds nlbs LBA_GROUP_IDX_C =
     bnd (case_prod (times_ratio nlbs) RATIO_LBA_SPACE_GROUP_AB) (\<lambda>st.
     bnd (case_prod (times_ratio nlbs) RATIO_LBA_SPACE_GROUP_C) (\<lambda>sz. Inr (st, sz)))"

section \<open>The generator\<close>

record jesd219 =
  je_enterprise :: bool
  je_slba :: u64
  je_nbls :: u32

text \<open>
  The body of the loop: one draw of the start address and one of the size. \<open>start_lba\<close> is a
  32-bit sum; an empty group divides by zero.
\<close>

definition jesd219_draw :: "u32 \<Rightarrow> u32 \<Rightarrow> u32 \<Rightarrow> jesd219 \<Rightarrow> well \<Rightarrow> (jesd219 \<times> well) res" where
  "jesd219_draw sector_size lba_group_start_lba lba_group_size j w =
     bnd (WELLRNG512 w) (\<lambda>(x, w).
     if lba_group_size = 0 then Inl Fault else
     let start_lba = ucast (x mod ucast lba_group_size) + lba_group_start_lba in
     if sector_size = SIZE_OF_SECTOR then
       bnd (WELLRNG512 w) (\<lambda>(y, w).
       let num_of_sector = get_num_of_mu_in_jesd219_workload (ucast (y mod 100)) in
       if num_of_sector < 4096 div SIZE_OF_SECTOR
       then Inr (j\<lparr>je_slba := ucast start_lba, je_nbls := num_of_sector\<rparr>, w)
       else Inr (j\<lparr>je_slba := ucast (start_lba - start_lba mod (4096 div SIZE_OF_SECTOR)),
                   je_nbls := num_of_sector\<rparr>, w))
     else if sector_size = SIZE_OF_SECTOR_4K then
       bnd (WELLRNG512 w) (\<lambda>(y, w).
       Inr (j\<lparr>je_slba := ucast start_lba,
              je_nbls := get_num_of_mu_in_jesd219_workload_4k (ucast (y mod 100))\<rparr>, w))
     else Inl (Exit 1))"

text \<open>The loop; \<open>None\<close> means that no draw ever fits.\<close>

partial_function (option) jesd219_loop ::
  "u64 \<Rightarrow> u32 \<Rightarrow> u32 \<Rightarrow> u32 \<Rightarrow> jesd219 \<Rightarrow> well \<Rightarrow> (jesd219 \<times> well) res option" where
  "jesd219_loop nlbs sector_size start sz j w =
     (case jesd219_draw sector_size start sz j w of
        Inl e \<Rightarrow> Some (Inl e)
      | Inr r \<Rightarrow> if je_slba (fst r) + ucast (je_nbls (fst r)) \<le> nlbs then Some (Inr r)
               else jesd219_loop nlbs sector_size start sz (fst r) (snd r))"

definition jesd219_gen :: "u32 \<Rightarrow> u32 \<Rightarrow> u64 \<Rightarrow> jesd219 \<Rightarrow> well \<Rightarrow> (jesd219 \<times> well) res option" where
  "jesd219_gen seed sector_size nlbs j w =
     (case WELLRNG512 (well_seed seed w) of
        Inl e \<Rightarrow> Some (Inl e)
      | Inr (x, w) \<Rightarrow>
          (case lba_group_bounds nlbs (get_lba_grp_idx_in_jesd219_workload (ucast (x mod 100))) of
             Inl e \<Rightarrow> Some (Inl e)
           | Inr (start, sz) \<Rightarrow> jesd219_loop nlbs sector_size start sz j w))"

definition jesd219_slba :: "jesd219 \<Rightarrow> u64" where
  "jesd219_slba j = je_slba j"

definition jesd219_nlbs :: "jesd219 \<Rightarrow> u32" where
  "jesd219_nlbs j = je_nbls j"

section \<open>The generator never leaves its table\<close>

lemma and_15_less [simp]: "x AND 15 < (16 :: u32)"
proof -
  have "x AND 15 \<le> 15" by (rule word_and_le1)
  then show ?thesis by (rule order_le_less_trans) simp
qed

lemma WELLRNG512_ok:
  assumes "well_ok w"
  shows "\<exists>x w'. WELLRNG512 w = Inr (x, w') \<and> well_ok w'"
proof -
  have [simp]: "unat (i AND 15) < 16" for i :: u32
    using and_15_less[of i] by (simp add: word_less_nat_alt)
  have "unat (w_index w) < 16" "length (w_state w) = 16"
    using assms by (simp_all add: well_ok_def RANDOM_STATE_def word_less_nat_alt)
  then show ?thesis by (simp add: WELLRNG512_def well_ok_def RANDOM_STATE_def Let_def)
qed

lemma well_seed_ok: "w_seeded w \<longrightarrow> well_ok w \<Longrightarrow> w_index w < 16 \<Longrightarrow> well_ok (well_seed seed w)"
  by (simp add: well_seed_def well_ok_def)

section \<open>Bounds of the rounded products\<close>

lemma bit_count_bounds: "n < 2 ^ bit_count n \<and> (n \<noteq> 0 \<longrightarrow> 2 ^ (bit_count n - 1) \<le> n)"
proof (induction n rule: bit_count.induct)
  case (1 n)
  show ?case
  proof (cases "n = 0")
    case True
    then show ?thesis by (simp add: bit_count.simps)
  next
    case False
    then have e: "bit_count n = Suc (bit_count (n div 2))" by (simp add: bit_count.simps)
    show ?thesis
    proof (cases "n div 2 = 0")
      case True
      then have "n = 1" using False by auto
      then show ?thesis by (simp add: bit_count.simps)
    next
      case nz: False
      have ih: "n div 2 < 2 ^ bit_count (n div 2)" "2 ^ (bit_count (n div 2) - 1) \<le> n div 2"
        using 1[OF False] nz by auto
      have "0 < bit_count (n div 2)" using nz by (simp add: bit_count.simps)
      then have "(2 :: nat) ^ bit_count (n div 2) = 2 * 2 ^ (bit_count (n div 2) - 1)"
        by (simp flip: power_Suc)
      then show ?thesis using ih False unfolding e by simp linarith
    qed
  qed
qed

lemma bit_count_le: "n < 2 ^ k \<Longrightarrow> bit_count n \<le> k"
proof (rule ccontr)
  assume "n < 2 ^ k" and "\<not> bit_count n \<le> k"
  then have "2 ^ k \<le> (2 :: nat) ^ (bit_count n - 1)" by (intro power_increasing) auto
  moreover have "n \<noteq> 0" using \<open>\<not> bit_count n \<le> k\<close> by (rule contrapos_nn) (simp add: bit_count.simps)
  ultimately show False using bit_count_bounds[of n] \<open>n < 2 ^ k\<close> by linarith
qed

lemma round53_exact: "n < 2 ^ 53 \<Longrightarrow> round53 n = n"
  using bit_count_le[of n 53] by (simp add: round53_def)

lemma round53_bounds: "2 ^ 52 * round53 n \<le> (2 ^ 52 + 1) * n" "n \<le> 2 * round53 n"
proof -
  define s q r where sqr: "s = bit_count n - 53" "q = n div 2 ^ s" "r = n mod 2 ^ s"
  have n: "n = q * 2 ^ s + r" and r: "r < 2 ^ s" using div_mult_mod_eq[of n "2 ^ s"] by (simp_all add: sqr)
  have "2 ^ 52 * round53 n \<le> (2 ^ 52 + 1) * n \<and> n \<le> 2 * round53 n"
  proof (cases "s = 0")
    case True
    then show ?thesis by (simp add: round53_def sqr)
  next
    case False
    then have "2 ^ (s + 52) \<le> n" using bit_count_bounds[of n] by (auto simp: sqr bit_count.simps[of 0])
    then have big: "2 ^ 52 * 2 ^ s \<le> n" by (simp add: power_add mult.commute)
    have "round53 n \<le> q * 2 ^ s + 2 ^ s" "q * 2 ^ s \<le> round53 n"
      using False by (auto simp: round53_def sqr Let_def)
    moreover have "q * 2 ^ s \<le> n" "n < q * 2 ^ s + 2 ^ s" using n r by linarith+
    moreover have "2 * 2 ^ s \<le> n"
      using big mult_right_mono[of 2 "2 ^ 52" "2 ^ s :: nat"] by simp
    ultimately show ?thesis using big by (auto simp: algebra_simps)
  qed
  then show "2 ^ 52 * round53 n \<le> (2 ^ 52 + 1) * n" "n \<le> 2 * round53 n" by auto
qed

text \<open>A product with a ratio of at most 1 of a namespace of less than 2 ^ 32 blocks.\<close>

lemma times_ratio_bounds:
  assumes "unat nlbs < 2 ^ 32" and m: "m \<le> 2 ^ e" and sz: "times_ratio nlbs m e = Inr x"
  shows "2 ^ e * 2 ^ 52 * unat x \<le> (2 ^ 52 + 1) * (unat nlbs * m)" "unat nlbs * m < 2 * 2 ^ e * (unat x + 1)"
proof -
  let ?p = "unat nlbs * m"
  have r: "round53 (unat nlbs) = unat nlbs" using assms(1) by (intro round53_exact) simp
  have x: "unat x = round53 ?p div 2 ^ e"
    using sz r by (auto simp: times_ratio_def Let_def unat_of_nat take_bit_eq_mod split: if_splits)
  have "2 ^ e * unat x \<le> round53 ?p" by (simp add: x)
  then have "2 ^ 52 * (2 ^ e * unat x) \<le> 2 ^ 52 * round53 ?p" by (rule mult_left_mono) simp
  then show "2 ^ e * 2 ^ 52 * unat x \<le> (2 ^ 52 + 1) * ?p"
    using round53_bounds(1)[of ?p] by (simp only: mult_ac order_trans)
  have "round53 ?p < 2 ^ e * (unat x + 1)" by (simp add: x dividend_less_times_div)
  then show "?p < 2 * 2 ^ e * (unat x + 1)" using round53_bounds(2)[of ?p] by linarith
qed

lemma times_ratio_ok:
  assumes "unat nlbs < 2 ^ 32" and "m \<le> 2 ^ e"
  shows "\<exists>x. times_ratio nlbs m e = Inr x"
proof -
  let ?p = "unat nlbs * m"
  have r: "round53 (unat nlbs) = unat nlbs" using assms(1) by (intro round53_exact) simp
  have "?p \<le> (2 ^ 32 - 1) * 2 ^ e" using assms by (intro mult_mono) auto
  then have "(2 ^ 52 + 1) * ?p \<le> (2 ^ 52 + 1) * ((2 ^ 32 - 1) * 2 ^ e)" by (rule mult_left_mono) simp
  also have "\<dots> < 2 ^ 52 * (2 ^ 32 * 2 ^ e)" by simp
  finally have "2 ^ 52 * round53 ?p < 2 ^ 52 * (2 ^ 32 * 2 ^ e)" using round53_bounds(1)[of ?p] by linarith
  then have "round53 ?p div 2 ^ e < 2 ^ 32" by (simp add: less_mult_imp_div_less)
  then show ?thesis using r by (simp add: times_ratio_def Let_def)
qed

lemmas ratio_defs = RATIO_LBA_SPACE_GROUP_A_def RATIO_LBA_SPACE_GROUP_B_def
  RATIO_LBA_SPACE_GROUP_AB_def RATIO_LBA_SPACE_GROUP_C_def

text \<open>The groups are not empty, and the two hot ones end before a quarter of the namespace.\<close>

lemma lba_group_bounds_ok:
  assumes "200 \<le> unat nlbs" and lt: "unat nlbs < 2 ^ 32"
  shows "\<exists>start sz. lba_group_bounds nlbs g = Inr (start, sz) \<and> sz \<noteq> 0 \<and>
    (g \<noteq> LBA_GROUP_IDX_C \<longrightarrow> 4 * (unat start + unat sz) \<le> unat nlbs)"
proof -
  note ok = times_ratio_ok[OF lt] and bounds = times_ratio_bounds[OF lt]
  obtain a where a: "times_ratio nlbs 7205759403792794 57 = Inr a" using ok[of 7205759403792794 57] by auto
  obtain b where b: "times_ratio nlbs 5404319552844595 55 = Inr b" using ok[of 5404319552844595 55] by auto
  obtain ab where ab: "times_ratio nlbs 7205759403792794 55 = Inr ab" using ok[of 7205759403792794 55] by auto
  obtain c where c: "times_ratio nlbs 7205759403792794 53 = Inr c" using ok[of 7205759403792794 53] by auto
  have "1000 * unat a \<le> 51 * unat nlbs" "0 < unat a" using bounds[OF _ a] assms(1) by simp_all
  moreover have "1000 * unat b \<le> 151 * unat nlbs" "0 < unat b" using bounds[OF _ b] assms(1) by simp_all
  moreover have "0 < unat c" using bounds[OF _ c] assms(1) by simp
  ultimately show ?thesis using a b ab c by (cases g) (auto simp: ratio_defs)
qed

lemma num_of_mu_bounds: "unat (get_num_of_mu_in_jesd219_workload x) \<in> {1..128}"
    "unat (get_num_of_mu_in_jesd219_workload_4k x) \<in> {1..128}"
  by (simp_all add: get_num_of_mu_in_jesd219_workload_def get_num_of_mu_in_jesd219_workload_4k_def
      SIZE_OF_SECTOR_def SIZE_OF_SECTOR_4K_def)

lemma unat_start_lba:
  fixes x :: u64 and start sz :: u32
  assumes "sz \<noteq> 0" and "unat start + unat sz < 2 ^ 32"
  shows "unat (ucast (x mod ucast sz) + start) < unat start + unat sz"
proof -
  have "unat (x mod ucast sz) < unat sz" using assms(1) by (simp add: unat_mod unat_gt_0 unat_u32_u64)
  then show ?thesis using assms(2)
    by (simp add: unat_word_ariths unsigned_ucast_eq take_bit_eq_mod)
qed

lemma jesd219_draw_ok:
  assumes "well_ok w" and "sz \<noteq> 0" and "sector_size \<in> {SIZE_OF_SECTOR, SIZE_OF_SECTOR_4K}"
  shows "\<exists>j' w'. jesd219_draw sector_size start sz j w = Inr (j', w') \<and> well_ok w' \<and>
    unat (je_nbls j') \<in> {1..128} \<and>
    (unat start + unat sz < 2 ^ 32 \<longrightarrow> unat (je_slba j') < unat start + unat sz)"
proof -
  obtain x w1 where x: "WELLRNG512 w = Inr (x, w1)" "well_ok w1" using WELLRNG512_ok[OF assms(1)] by auto
  obtain y w2 where y: "WELLRNG512 w1 = Inr (y, w2)" "well_ok w2" using WELLRNG512_ok[OF x(2)] by auto
  let ?s = "ucast (x mod ucast sz) + start"
  have "unat (?s - ?s mod k) \<le> unat ?s" for k :: u32
  proof -
    have "?s mod k \<le> ?s" by (simp add: word_le_nat_alt unat_mod)
    then show ?thesis by (simp add: unat_sub)
  qed
  then have "unat start + unat sz < 2 ^ 32 \<Longrightarrow> unat (?s - ?s mod k) < unat start + unat sz" for k
    using unat_start_lba[OF assms(2), of start x] order_le_less_trans by blast
  note s = this unat_start_lba[OF assms(2), of start x]
  show ?thesis
  proof (cases "sector_size = SIZE_OF_SECTOR")
    case True
    then show ?thesis using assms(2) x y num_of_mu_bounds(1)[of "ucast (y mod 100)"] s unat_u32_u64
      by (simp add: jesd219_draw_def Let_def)
  next
    case False
    then show ?thesis using assms(2,3) x y num_of_mu_bounds(2)[of "ucast (y mod 100)"] s unat_u32_u64
      by (simp add: jesd219_draw_def Let_def)
  qed
qed

section \<open>What is generated\<close>

text \<open>Whatever the loop returns is a request inside the namespace; it neither faults nor exits.\<close>

lemma jesd219_loop_result:
  assumes "jesd219_loop nlbs sector_size start sz j w = Some r"
  shows "well_ok w \<Longrightarrow> sz \<noteq> 0 \<Longrightarrow> sector_size \<in> {SIZE_OF_SECTOR, SIZE_OF_SECTOR_4K} \<Longrightarrow>
    \<exists>j' w'. r = Inr (j', w') \<and> well_ok w' \<and> unat (je_nbls j') \<in> {1..128} \<and>
      je_slba j' + ucast (je_nbls j') \<le> nlbs"
  using assms
proof (induction rule: jesd219_loop.raw_induct[rotated, consumes 1])
  case (1 loop nlbs sector_size start sz j w r)
  obtain j1 w1 where d: "jesd219_draw sector_size start sz j w = Inr (j1, w1)" "well_ok w1"
      "unat (je_nbls j1) \<in> {1..128}"
    using jesd219_draw_ok[OF 1(3,4,5)] by blast
  show ?case
  proof (cases "je_slba j1 + ucast (je_nbls j1) \<le> nlbs")
    case True
    then show ?thesis using 1(2) d by auto
  next
    case False
    then have "loop nlbs sector_size start sz j1 w1 = Some r" using 1(2) d by simp
    then show ?thesis using 1(1) d(2) 1(4,5) by blast
  qed
qed

text \<open>
  The draws of the workload. The first random number selects the group; \<open>hot\<close> says that it is one
  of the two groups that take 80 percent of the accesses.
\<close>

definition jesd219_hot :: "u32 \<Rightarrow> well \<Rightarrow> bool" where
  "jesd219_hot seed w = (case WELLRNG512 (well_seed seed w) of Inl e \<Rightarrow> False
     | Inr (x, w') \<Rightarrow> get_lba_grp_idx_in_jesd219_workload (ucast (x mod 100)) \<noteq> LBA_GROUP_IDX_C)"

text \<open>C34: On a namespace of 200 to 2 ^ 32 blocks the JESD219 generator never faults, and what it
  returns is a request of 1 to 128 blocks that lies inside the namespace. When the group is one
  of the two hot ones it always returns, and the request starts in the first quarter.\<close>

theorem jesd219_gen_in_range:
  assumes "200 \<le> unat nlbs" and "unat nlbs < 2 ^ 32" and "sector_size \<in> {SIZE_OF_SECTOR, SIZE_OF_SECTOR_4K}"
    and "well_ok w"
  shows "(\<forall>r. jesd219_gen seed sector_size nlbs j w = Some r \<longrightarrow>
      (\<exists>j' w'. r = Inr (j', w') \<and> well_ok w' \<and> unat (je_nbls j') \<in> {1..128} \<and>
        je_slba j' + ucast (je_nbls j') \<le> nlbs)) \<and>
    (jesd219_hot seed w \<longrightarrow>
      (\<exists>j' w'. jesd219_gen seed sector_size nlbs j w = Some (Inr (j', w')) \<and> 4 * unat (je_slba j') < unat nlbs))"
proof -
  obtain x w1 where x: "WELLRNG512 (well_seed seed w) = Inr (x, w1)" "well_ok w1"
    using WELLRNG512_ok[OF well_seed_ok[of w seed]] assms(4) by (auto simp: well_ok_def)
  define g where "g = get_lba_grp_idx_in_jesd219_workload (ucast (x mod 100))"
  obtain start sz where b: "lba_group_bounds nlbs g = Inr (start, sz)" "sz \<noteq> 0"
      "g \<noteq> LBA_GROUP_IDX_C \<Longrightarrow> 4 * (unat start + unat sz) \<le> unat nlbs"
    using lba_group_bounds_ok[OF assms(1,2), of g] by blast
  have gen: "jesd219_gen seed sector_size nlbs j w = jesd219_loop nlbs sector_size start sz j w1"
    using x b(1) by (simp add: jesd219_gen_def g_def)
  obtain j1 w2 where d: "jesd219_draw sector_size start sz j w1 = Inr (j1, w2)"
      "unat (je_nbls j1) \<in> {1..128}" "unat start + unat sz < 2 ^ 32 \<Longrightarrow> unat (je_slba j1) < unat start + unat sz"
    using jesd219_draw_ok[OF x(2) b(2) assms(3), of start j] by blast
  have "jesd219_loop nlbs sector_size start sz j w1 = Some (Inr (j1, w2))" "4 * unat (je_slba j1) < unat nlbs"
    if "g \<noteq> LBA_GROUP_IDX_C"
  proof -
    have s: "unat (je_slba j1) < unat start + unat sz" using d(3) b(3)[OF that] assms(2) by simp
    then have "4 * unat (je_slba j1) < 4 * (unat start + unat sz)" by simp
    then show q: "4 * unat (je_slba j1) < unat nlbs" using b(3)[OF that] by (rule order_less_le_trans)
    have "unat (je_slba j1) + unat (je_nbls j1) \<le> unat nlbs" using q d(2) assms(1) by simp
    moreover from this have "unat (je_slba j1 + ucast (je_nbls j1)) = unat (je_slba j1) + unat (je_nbls j1)"
      using assms(2) by (simp add: unat_word_ariths unat_u32_u64)
    ultimately show "jesd219_loop nlbs sector_size start sz j w1 = Some (Inr (j1, w2))"
      using d(1) by (subst jesd219_loop.simps) (simp add: word_le_nat_alt)
  qed
  then show ?thesis using jesd219_loop_result[OF _ x(2) b(2) assms(3)] gen x(1)
    by (auto simp: jesd219_hot_def g_def)
qed

definition well_start :: well where
  "well_start = \<lparr>w_state = replicate 16 0, w_index = 0, w_seeded = True\<rparr>"

lemma well_start_hot: "jesd219_hot 1 well_start"
  by (simp add: jesd219_hot_def well_seed_def well_start_def WELLRNG512_def arr_get_def arr_set_def
      get_lba_grp_idx_in_jesd219_workload_def)

theorem jesd219_gen_in_range_witness:
  "\<exists>j' w'. jesd219_gen 1 SIZE_OF_SECTOR 1000000 \<lparr>je_enterprise = True, je_slba = 0, je_nbls = 0\<rparr> well_start =
      Some (Inr (j', w')) \<and> well_ok w' \<and> unat (je_nbls j') \<in> {1..128} \<and>
      je_slba j' + ucast (je_nbls j') \<le> 1000000 \<and> 4 * unat (je_slba j') < 1000000"
proof -
  have "well_ok well_start" by (simp add: well_ok_def well_start_def RANDOM_STATE_def)
  then show ?thesis
    using jesd219_gen_in_range[of 1000000 SIZE_OF_SECTOR well_start 1 "\<lparr>je_enterprise = True, je_slba = 0, je_nbls = 0\<rparr>"]
      well_start_hot by fastforce
qed

text \<open>How many of the hundred values of the percentage draw satisfy a predicate.\<close>

definition percent :: "(u32 \<Rightarrow> bool) \<Rightarrow> nat" where
  "percent P = length (filter (\<lambda>i. P (of_nat i)) [0..<100])"

lemma percent_cong:
  assumes "\<And>x. unat x < 100 \<Longrightarrow> P x \<longleftrightarrow> a \<le> unat x \<and> unat x < b" and "b \<le> 100"
  shows "percent P = b - a"
proof -
  have u: "i < 100 \<Longrightarrow> unat (of_nat i :: u32) = i" for i by (simp add: unat_of_nat take_bit_eq_mod)
  have "filter (\<lambda>i. P (of_nat i)) [0..<100] = filter (\<lambda>i. a \<le> i \<and> i < b) [0..<100]"
    by (rule filter_cong) (simp_all add: u assms(1))
  also have "length \<dots> = card {i. i < 100 \<and> a \<le> i \<and> i < b}"
    unfolding length_filter_conv_card by (rule arg_cong[where f = card]) auto
  also have "{i. i < 100 \<and> a \<le> i \<and> i < b} = {a..<b}" using assms(2) by auto
  finally show ?thesis by (simp add: percent_def)
qed

lemmas workload_defs = get_num_of_mu_in_jesd219_workload_def get_num_of_mu_in_jesd219_workload_4k_def
  get_lba_grp_idx_in_jesd219_workload_def SIZE_OF_SECTOR_def SIZE_OF_SECTOR_4K_def word_less_nat_alt

lemma size_percent:
  "percent (\<lambda>x. get_num_of_mu_in_jesd219_workload x = 1) = 4"
  "percent (\<lambda>x. get_num_of_mu_in_jesd219_workload x = 2) = 1"
  "percent (\<lambda>x. get_num_of_mu_in_jesd219_workload x = 3) = 1"
  "percent (\<lambda>x. get_num_of_mu_in_jesd219_workload x = 4) = 1"
  "percent (\<lambda>x. get_num_of_mu_in_jesd219_workload x = 5) = 1"
  "percent (\<lambda>x. get_num_of_mu_in_jesd219_workload x = 6) = 1"
  "percent (\<lambda>x. get_num_of_mu_in_jesd219_workload x = 7) = 1"
  "percent (\<lambda>x. get_num_of_mu_in_jesd219_workload x = 8) = 67"
  "percent (\<lambda>x. get_num_of_mu_in_jesd219_workload x = 16) = 10"
  "percent (\<lambda>x. get_num_of_mu_in_jesd219_workload x = 32) = 7"
  "percent (\<lambda>x. get_num_of_mu_in_jesd219_workload x = 64) = 3"
  "percent (\<lambda>x. get_num_of_mu_in_jesd219_workload x = 128) = 3"
proof -
  show "percent (\<lambda>x. get_num_of_mu_in_jesd219_workload x = 1) = 4"
    using percent_cong[of "\<lambda>x. get_num_of_mu_in_jesd219_workload x = 1" 0 4] by (force simp: workload_defs)
  show "percent (\<lambda>x. get_num_of_mu_in_jesd219_workload x = 2) = 1"
    using percent_cong[of "\<lambda>x. get_num_of_mu_in_jesd219_workload x = 2" 4 5] by (force simp: workload_defs)
  show "percent (\<lambda>x. get_num_of_mu_in_jesd219_workload x = 3) = 1"
    using percent_cong[of "\<lambda>x. get_num_of_mu_in_jesd219_workload x = 3" 5 6] by (force simp: workload_defs)
  show "percent (\<lambda>x. get_num_of_mu_in_jesd219_workload x = 4) = 1"
    using percent_cong[of "\<lambda>x. get_num_of_mu_in_jesd219_workload x = 4" 6 7] by (force simp: workload_defs)
  show "percent (\<lambda>x. get_num_of_mu_in_jesd219_workload x = 5) = 1"
    using percent_cong[of "\<lambda>x. get_num_of_mu_in_jesd219_workload x = 5" 7 8] by (force simp: workload_defs)
  show "percent (\<lambda>x. get_num_of_mu_in_jesd219_workload x = 6) = 1"
    using percent_cong[of "\<lambda>x. get_num_of_mu_in_jesd219_workload x = 6" 8 9] by (force simp: workload_defs)
  show "percent (\<lambda>x. get_num_of_mu_in_jesd219_workload x = 7) = 1"
    using percent_cong[of "\<lambda>x. get_num_of_mu_in_jesd219_workload x = 7" 9 10] by (force simp: workload_defs)
  show "percent (\<lambda>x. get_num_of_mu_in_jesd219_workload x = 8) = 67"
    using percent_cong[of "\<lambda>x. get_num_of_mu_in_jesd219_workload x = 8" 10 77] by (force simp: workload_defs)
  show "percent (\<lambda>x. get_num_of_mu_in_jesd219_workload x = 16) = 10"
    using percent_cong[of "\<lambda>x. get_num_of_mu_in_jesd219_workload x = 16" 77 87] by (force simp: workload_defs)
  show "percent (\<lambda>x. get_num_of_mu_in_jesd219_workload x = 32) = 7"
    using percent_cong[of "\<lambda>x. get_num_of_mu_in_jesd219_workload x = 32" 87 94] by (force simp: workload_defs)
  show "percent (\<lambda>x. get_num_of_mu_in_jesd219_workload x = 64) = 3"
    using percent_cong[of "\<lambda>x. get_num_of_mu_in_jesd219_workload x = 64" 94 97] by (force simp: workload_defs)
  show "percent (\<lambda>x. get_num_of_mu_in_jesd219_workload x = 128) = 3"
    using percent_cong[of "\<lambda>x. get_num_of_mu_in_jesd219_workload x = 128" 97 100] by (force simp: workload_defs)
qed

lemma group_percent:
  "percent (\<lambda>x. get_num_of_mu_in_jesd219_workload_4k x = 1) = 77"
  "percent (\<lambda>x. get_num_of_mu_in_jesd219_workload_4k x = 2) = 10"
  "percent (\<lambda>x. get_num_of_mu_in_jesd219_workload_4k x = 4) = 7"
  "percent (\<lambda>x. get_num_of_mu_in_jesd219_workload_4k x = 8) = 3"
  "percent (\<lambda>x. get_num_of_mu_in_jesd219_workload_4k x = 16) = 3"
  "percent (\<lambda>x. get_lba_grp_idx_in_jesd219_workload x = LBA_GROUP_IDX_A) = 50"
  "percent (\<lambda>x. get_lba_grp_idx_in_jesd219_workload x = LBA_GROUP_IDX_B) = 30"
  "percent (\<lambda>x. get_lba_grp_idx_in_jesd219_workload x = LBA_GROUP_IDX_C) = 20"
proof -
  show "percent (\<lambda>x. get_num_of_mu_in_jesd219_workload_4k x = 1) = 77"
    using percent_cong[of "\<lambda>x. get_num_of_mu_in_jesd219_workload_4k x = 1" 0 77] by (force simp: workload_defs)
  show "percent (\<lambda>x. get_num_of_mu_in_jesd219_workload_4k x = 2) = 10"
    using percent_cong[of "\<lambda>x. get_num_of_mu_in_jesd219_workload_4k x = 2" 77 87] by (force simp: workload_defs)
  show "percent (\<lambda>x. get_num_of_mu_in_jesd219_workload_4k x = 4) = 7"
    using percent_cong[of "\<lambda>x. get_num_of_mu_in_jesd219_workload_4k x = 4" 87 94] by (force simp: workload_defs)
  show "percent (\<lambda>x. get_num_of_mu_in_jesd219_workload_4k x = 8) = 3"
    using percent_cong[of "\<lambda>x. get_num_of_mu_in_jesd219_workload_4k x = 8" 94 97] by (force simp: workload_defs)
  show "percent (\<lambda>x. get_num_of_mu_in_jesd219_workload_4k x = 16) = 3"
    using percent_cong[of "\<lambda>x. get_num_of_mu_in_jesd219_workload_4k x = 16" 97 100] by (force simp: workload_defs)
  show "percent (\<lambda>x. get_lba_grp_idx_in_jesd219_workload x = LBA_GROUP_IDX_A) = 50"
    using percent_cong[of "\<lambda>x. get_lba_grp_idx_in_jesd219_workload x = LBA_GROUP_IDX_A" 0 50] by (force simp: workload_defs)
  show "percent (\<lambda>x. get_lba_grp_idx_in_jesd219_workload x = LBA_GROUP_IDX_B) = 30"
    using percent_cong[of "\<lambda>x. get_lba_grp_idx_in_jesd219_workload x = LBA_GROUP_IDX_B" 50 80] by (force simp: workload_defs)
  show "percent (\<lambda>x. get_lba_grp_idx_in_jesd219_workload x = LBA_GROUP_IDX_C) = 20"
    using percent_cong[of "\<lambda>x. get_lba_grp_idx_in_jesd219_workload x = LBA_GROUP_IDX_C" 80 100] by (force simp: workload_defs)
qed

text \<open>The sizes and groups are drawn with the frequencies of the JESD219 enterprise workload:
  out of a hundred equally likely values, 4 give 512 bytes, one each 1 to 3.5 KiB, 67 give 4 KiB, 10
  give 8 KiB, 7 give 16 KiB and 3 each 32 and 64 KiB; with 4 KiB sectors all sizes up to 4 KiB become one sector;
  half of the accesses go to group A, 30 to B and 20 to C.\<close>

theorem jesd219_distribution:
  "map (\<lambda>n. percent (\<lambda>x. get_num_of_mu_in_jesd219_workload x = n)) [1, 2, 3, 4, 5, 6, 7, 8, 16, 32, 64, 128]
     = [4, 1, 1, 1, 1, 1, 1, 67, 10, 7, 3, 3] \<and>
   map (\<lambda>n. percent (\<lambda>x. get_num_of_mu_in_jesd219_workload_4k x = n)) [1, 2, 4, 8, 16] = [77, 10, 7, 3, 3] \<and>
   map (\<lambda>g. percent (\<lambda>x. get_lba_grp_idx_in_jesd219_workload x = g))
     [LBA_GROUP_IDX_A, LBA_GROUP_IDX_B, LBA_GROUP_IDX_C] = [50, 30, 20]"
  by (simp add: size_percent group_percent)

end
