(* ===== verification/NullEngine.thy ===== *)
theory NullEngine
  imports Bio
begin

text \<open>
  The null i/o engine (\<open>nbio/io/null.c\<close>): a ring buffer of \<open>iodepth + 1\<close> slots between the job
  that enqueues requests and the poll that completes them. The completion callback \<open>bio->end\<close> is
  the argument \<open>bio_end\<close>, a function on the caller's state. The interface the job relies on is
  the locale \<open>bounded_fifo\<close>.
\<close>

record 'a null_io_queue =
  nq_elements :: "'a option list"
  nq_size :: u32
  nq_head :: u32
  nq_tail :: u32

text \<open>\<open>alloc1\<close> and \<open>alloc2\<close> tell whether the two allocations succeed; \<open>None\<close> is the result -1.\<close>

definition null_init :: "bool \<Rightarrow> bool \<Rightarrow> u32 \<Rightarrow> 'a null_io_queue option" where
  "null_init alloc1 alloc2 iodepth =
     (if \<not> alloc1 \<or> \<not> alloc2 then None
      else Some \<lparr>nq_elements = replicate (unat (iodepth + 1)) None, nq_size = iodepth + 1,
                 nq_head = 0, nq_tail = 0\<rparr>)"

text \<open>A size of 0 divides by zero.\<close>

definition null_enqueue :: "'a null_io_queue \<Rightarrow> 'a \<Rightarrow> (int \<times> 'a null_io_queue) res" where
  "null_enqueue q bio =
     (if nq_size q = 0 then Inl Fault else
      let next_tail = (nq_tail q + 1) mod nq_size q in
      if nq_head q = next_tail then Inr (- 1, q)
      else bnd (arr_set (nq_elements q) (unat (nq_tail q)) (Some bio)) (\<lambda>es.
        Inr (0, q\<lparr>nq_elements := es, nq_tail := next_tail\<rparr>)))"

definition null_submit :: int where
  "null_submit = 0"

text \<open>
  One iteration of the loop of \<open>null_poll\<close>: the oldest request is completed with result 0, then
  the head advances. An empty slot is a null pointer.
\<close>

definition null_complete ::
  "('a \<Rightarrow> 's \<Rightarrow> 's res) \<Rightarrow> 'a null_io_queue \<Rightarrow> 's \<Rightarrow> ('a null_io_queue \<times> 's) res" where
  "null_complete bio_end q s =
     bnd (arr_get (nq_elements q) (unat (nq_head q))) (\<lambda>e.
     case e of None \<Rightarrow> Inl Fault
     | Some bio \<Rightarrow> bnd (bio_end bio s) (\<lambda>s.
         if nq_size q = 0 then Inl Fault
         else Inr (q\<lparr>nq_head := (nq_head q + 1) mod nq_size q\<rparr>, s)))"

text \<open>The loop; \<open>None\<close> means that it does not end.\<close>

partial_function (option) null_poll_loop ::
  "('a \<Rightarrow> 's \<Rightarrow> 's res) \<Rightarrow> u32 \<Rightarrow> u32 \<Rightarrow> 'a null_io_queue \<Rightarrow> 's \<Rightarrow> ('a null_io_queue \<times> 's) res option" where
  "null_poll_loop bio_end max_nr nr_completion q s =
     (if nq_head q = nq_tail q then Some (Inr (q, s))
      else case null_complete bio_end q s of
             Inl e \<Rightarrow> Some (Inl e)
           | Inr r \<Rightarrow> if nr_completion + 1 = max_nr then Some (Inr r)
                    else null_poll_loop bio_end max_nr (nr_completion + 1) (fst r) (snd r))"

definition null_poll ::
  "('a \<Rightarrow> 's \<Rightarrow> 's res) \<Rightarrow> u32 \<Rightarrow> u32 \<Rightarrow> 'a null_io_queue \<Rightarrow> 's \<Rightarrow> ('a null_io_queue \<times> 's) res option" where
  "null_poll bio_end min_nr max_nr q s = null_poll_loop bio_end max_nr 0 q s"

text \<open>The identify data the engine invents for a namespace: \<open>nsze\<close> and format 0 with 4096-byte blocks.\<close>

record null_id_ns =
  nin_nsze :: u64
  nin_nlbaf :: u8
  nin_flbas :: u8
  nin_lbaf0_ms :: u16
  nin_lbaf0_lbads :: u8
  nin_lbaf0_rp :: u8

definition null_identify :: "u32 \<Rightarrow> null_id_ns \<Rightarrow> null_id_ns" where
  "null_identify cdw10 id_ns =
     (if cdw10 = 0 then id_ns\<lparr>nin_nsze := 10000000, nin_nlbaf := 1, nin_flbas := 0, nin_lbaf0_ms := 0,
        nin_lbaf0_lbads := 12, nin_lbaf0_rp := 0\<rparr> else id_ns)"

text \<open>\<open>null_exit\<close> frees the ring and clears \<open>ctx\<close>; without a ring there is nothing to do.\<close>

definition null_exit :: "'a null_io_queue option \<Rightarrow> 'a null_io_queue option" where
  "null_exit ctx = None"

text \<open>The other administrative commands answer 0 and store nothing, also not the feature.\<close>

definition null_get_log_page :: "u8 \<Rightarrow> bytes \<Rightarrow> int \<times> bytes" where
  "null_get_log_page log_id data = (0, data)"

definition null_get_features :: "u32 \<Rightarrow> bytes \<Rightarrow> u32 \<Rightarrow> int \<times> bytes \<times> u32" where
  "null_get_features cdw10 data result = (0, data, result)"

section \<open>The ring as a queue\<close>

definition ring_len :: "'a null_io_queue \<Rightarrow> nat" where
  "ring_len q = (unat (nq_tail q) + unat (nq_size q) - unat (nq_head q)) mod unat (nq_size q)"

definition slot :: "'a null_io_queue \<Rightarrow> nat \<Rightarrow> 'a option" where
  "slot q i = nq_elements q ! ((unat (nq_head q) + i) mod unat (nq_size q))"

definition null_ok :: "'a null_io_queue \<Rightarrow> bool" where
  "null_ok q \<longleftrightarrow> length (nq_elements q) = unat (nq_size q) \<and> nq_head q < nq_size q \<and> nq_tail q < nq_size q \<and>
     (\<forall>i < ring_len q. slot q i \<noteq> None)"

definition null_contents :: "'a null_io_queue \<Rightarrow> 'a list" where
  "null_contents q = map (\<lambda>i. the (slot q i)) [0..<ring_len q]"

definition null_capacity :: "'a null_io_queue \<Rightarrow> nat" where
  "null_capacity q = unat (nq_size q) - 1"

lemma length_null_contents [simp, layout]: "length (null_contents q) = ring_len q"
  by (simp add: null_contents_def)

lemma unat_succ_mod:
  fixes x n :: u32
  assumes "x < n"
  shows "unat ((x + 1) mod n) = (unat x + 1) mod unat n"
proof -
  have "unat x + 1 \<le> unat n" "unat n < 2 ^ 32"
    using assms by (simp_all add: word_less_nat_alt Suc_le_eq order_less_le_trans[OF unsigned_less])
  then have "unat (x + 1) = unat x + 1" using assms by (simp add: unat_word_ariths)
  then show ?thesis by (simp add: unat_mod)
qed

text \<open>Arithmetic of the ring, on natural numbers below the size.\<close>

lemma len_succ_tail:
  fixes h t n :: nat
  assumes "h < n" "t < n" "h \<noteq> (t + 1) mod n"
  shows "((t + 1) mod n + n - h) mod n = Suc ((t + n - h) mod n)" and "Suc ((t + n - h) mod n) < n"
    and "(h + (t + n - h) mod n) mod n = t"
proof -
  consider "h \<le> t" "t + 1 < n" | "h \<le> t" "t + 1 = n" | "t < h" using assms by linarith
  then have "((t + 1) mod n + n - h) mod n = Suc ((t + n - h) mod n) \<and> Suc ((t + n - h) mod n) < n \<and>
      (h + (t + n - h) mod n) mod n = t"
  proof cases
    case 1
    then have "(t + n - h) mod n = t - h" "((t + 1) mod n + n - h) mod n = t + 1 - h"
      using assms by (simp_all add: mod_if)
    then show ?thesis using 1 assms by (auto simp: Suc_diff_le)
  next
    case 2
    then have "(t + n - h) mod n = t - h" using assms by (simp add: mod_if)
    then show ?thesis using 2 assms by (auto simp: mod_if)
  next
    case 3
    then have "t + 1 < h" using assms by (auto simp: mod_if split: if_splits)
    then show ?thesis using 3 assms by (auto simp: mod_if)
  qed
  then show "((t + 1) mod n + n - h) mod n = Suc ((t + n - h) mod n)" "Suc ((t + n - h) mod n) < n"
    "(h + (t + n - h) mod n) mod n = t" by auto
qed

lemma len_succ_head:
  fixes h t n :: nat
  assumes "h < n" "t < n" "h \<noteq> t"
  shows "(t + n - h) mod n = Suc ((t + n - (h + 1) mod n) mod n)"
  using assms by (cases "h + 1 = n") (auto simp: mod_if)

text \<open>A request goes to the end of the queue unless all slots but one are taken.\<close>

lemma null_enqueue_spec:
  assumes ok: "null_ok q"
  shows "if ring_len q < null_capacity q
    then \<exists>q'. null_enqueue q b = Inr (0, q') \<and> null_ok q' \<and> null_capacity q' = null_capacity q \<and>
      null_contents q' = null_contents q @ [b]
    else null_enqueue q b = Inr (- 1, q)"
proof -
  define h t n where hd_tl: "h = unat (nq_head q)" "t = unat (nq_tail q)" "n = unat (nq_size q)"
  have ht: "h < n" "t < n" "length (nq_elements q) = n" "nq_size q \<noteq> 0"
    and tl: "nq_tail q < nq_size q"
    using ok by (auto simp: null_ok_def hd_tl word_less_nat_alt)
  have nt: "unat ((nq_tail q + 1) mod nq_size q) = (t + 1) mod n"
    using unat_succ_mod[OF tl] by (simp add: hd_tl)
  have len: "ring_len q = (t + n - h) mod n" by (simp add: ring_len_def hd_tl)
  have full: "nq_head q = (nq_tail q + 1) mod nq_size q \<longleftrightarrow> h = (t + 1) mod n"
    using nt by (auto simp: hd_tl word_unat_eq_iff)
  show ?thesis
  proof (cases "h = (t + 1) mod n")
    case True
    then have "(t + n - h) mod n = n - 1" using ht by (auto simp: mod_if split: if_splits)
    then show ?thesis using True full ht len by (simp add: null_enqueue_def null_capacity_def hd_tl Let_def)
  next
    case False
    note r = len_succ_tail[OF ht(1,2) False]
    define q' where "q' = q\<lparr>nq_elements := (nq_elements q)[t := Some b], nq_tail := (nq_tail q + 1) mod nq_size q\<rparr>"
    have enq: "null_enqueue q b = Inr (0, q')"
      using False full ht by (simp add: null_enqueue_def Let_def q'_def hd_tl)
    have len': "ring_len q' = Suc (ring_len q)"
      using r(1) len nt by (simp add: ring_len_def q'_def hd_tl[symmetric])
    have sl: "slot q' i = (if i = ring_len q then Some b else slot q i)" if "i \<le> ring_len q" for i
      using that r(2,3) mod_shift_inj[of i n "ring_len q" h] len ht
      by (auto simp: slot_def q'_def hd_tl[symmetric])
    have "null_ok q'"
      using ok len' sl ht nt by (auto simp: null_ok_def q'_def less_Suc_eq_le word_less_nat_alt hd_tl[symmetric])
    moreover have "null_contents q' = null_contents q @ [b]"
      using len' sl by (simp add: null_contents_def)
    moreover have "ring_len q < null_capacity q" using r(2) len by (simp add: null_capacity_def hd_tl)
    ultimately show ?thesis using enq by (simp add: null_capacity_def q'_def)
  qed
qed

lemma null_empty_iff:
  assumes "null_ok q"
  shows "nq_head q = nq_tail q \<longleftrightarrow> null_contents q = []"
proof -
  have "unat (nq_head q) < unat (nq_size q)" "unat (nq_tail q) < unat (nq_size q)"
    using assms by (auto simp: null_ok_def word_less_nat_alt)
  then have "ring_len q = 0 \<longleftrightarrow> unat (nq_head q) = unat (nq_tail q)"
    by (auto simp: ring_len_def mod_if split: if_splits)
  then show ?thesis by (simp add: null_contents_def word_unat_eq_iff)
qed

lemma null_complete_spec:
  assumes ok: "null_ok q" and ne: "null_contents q = b # bs" and e: "bio_end b s = Inr s'"
  shows "\<exists>q'. null_complete bio_end q s = Inr (q', s') \<and> null_ok q' \<and> null_contents q' = bs \<and>
    null_capacity q' = null_capacity q"
proof -
  define h t n where hd_tl: "h = unat (nq_head q)" "t = unat (nq_tail q)" "n = unat (nq_size q)"
  have ht: "h < n" "t < n" "length (nq_elements q) = n" "nq_size q \<noteq> 0" and hl: "nq_head q < nq_size q"
    and sl: "\<forall>i < ring_len q. slot q i \<noteq> None"
    using ok by (auto simp: null_ok_def hd_tl word_less_nat_alt)
  have neq: "h \<noteq> t" using null_empty_iff[OF ok] ne by (auto simp: hd_tl word_unat_eq_iff)
  have nh: "unat ((nq_head q + 1) mod nq_size q) = (h + 1) mod n" using unat_succ_mod[OF hl] by (simp add: hd_tl)
  define q' where "q' = q\<lparr>nq_head := (nq_head q + 1) mod nq_size q\<rparr>"
  have len: "ring_len q = Suc (ring_len q')"
    using len_succ_head[OF ht(1,2) neq] nh by (simp add: ring_len_def q'_def hd_tl[symmetric])
  have s1: "slot q' i = slot q (Suc i)" for i
    using nh by (simp add: slot_def q'_def hd_tl[symmetric] mod_add_left_eq)
  have "null_contents q = the (slot q 0) # null_contents q'"
    using s1 by (simp add: null_contents_def len upt_conv_Cons map_Suc_upt[symmetric] comp_def del: upt_Suc)
  then have b: "the (slot q 0) = b" "null_contents q' = bs" using ne by simp_all
  moreover have "slot q 0 \<noteq> None" using sl len by simp
  ultimately have "arr_get (nq_elements q) (unat (nq_head q)) = Inr (Some b)"
    using ht by (auto simp: slot_def hd_tl[symmetric])
  moreover have "null_ok q'"
    using ok sl len s1 nh ht by (auto simp: null_ok_def q'_def word_less_nat_alt hd_tl[symmetric])
  ultimately show ?thesis using e b(2) ht(4) by (simp add: null_complete_def q'_def null_capacity_def)
qed

text \<open>An error of the callback is the error of the iteration.\<close>

lemma null_complete_error:
  assumes ok: "null_ok q" and ne: "null_contents q = b # bs" and e: "bio_end b s = Inl err"
  shows "null_complete bio_end q s = Inl err"
proof -
  have "0 < ring_len q" using ne length_null_contents[of q] by simp
  moreover from this have "b = the (slot q 0)" using ne by (simp add: null_contents_def upt_conv_Cons)
  moreover have "unat (nq_head q) < length (nq_elements q)" "unat (nq_head q) mod unat (nq_size q) = unat (nq_head q)"
    using ok by (simp_all add: null_ok_def word_less_nat_alt)
  ultimately have "arr_get (nq_elements q) (unat (nq_head q)) = Inr (Some b)"
    using ok by (auto simp: null_ok_def slot_def)
  then show ?thesis using e by (simp add: null_complete_def)
qed

section \<open>The queue interface\<close>

text \<open>Enqueuing several requests in turn; the first refusal ends it.\<close>

fun enqueue_all :: "('q \<Rightarrow> 'a \<Rightarrow> (int \<times> 'q) res) \<Rightarrow> 'q \<Rightarrow> 'a list \<Rightarrow> (int \<times> 'q) res" where
  "enqueue_all enq q [] = Inr (0, q)"
| "enqueue_all enq q (b # bs) = bnd (enq q b) (\<lambda>(r, q). if r \<noteq> 0 then Inr (r, q) else enqueue_all enq q bs)"

locale bounded_fifo =
  fixes enqueue :: "'q \<Rightarrow> 'a \<Rightarrow> (int \<times> 'q) res"
    and ok :: "'q \<Rightarrow> bool"
    and contents :: "'q \<Rightarrow> 'a list"
    and capacity :: "'q \<Rightarrow> nat"
  assumes enqueue_room: "ok q \<Longrightarrow> length (contents q) < capacity q \<Longrightarrow>
      \<exists>q'. enqueue q b = Inr (0, q') \<and> ok q' \<and> contents q' = contents q @ [b] \<and> capacity q' = capacity q"
    and enqueue_full: "ok q \<Longrightarrow> capacity q \<le> length (contents q) \<Longrightarrow> enqueue q b = Inr (- 1, q)"
begin

lemma enqueue_all_room:
  assumes "ok q" and "length (contents q) + length bs \<le> capacity q"
  shows "\<exists>q'. enqueue_all enqueue q bs = Inr (0, q') \<and> ok q' \<and> contents q' = contents q @ bs \<and>
    capacity q' = capacity q"
  using assms
proof (induction bs arbitrary: q)
  case Nil
  then show ?case by simp
next
  case (Cons b bs)
  obtain q1 where q1: "enqueue q b = Inr (0, q1)" "ok q1" "contents q1 = contents q @ [b]" "capacity q1 = capacity q"
    using enqueue_room[OF Cons.prems(1), of b] Cons.prems(2) by auto
  then show ?case using Cons.IH[OF q1(2)] Cons.prems(2) by auto
qed

text \<open>The queue never holds more than its capacity, and refuses exactly then.\<close>

lemma enqueue_result:
  assumes "ok q" and "enqueue q b = Inr (r, q')"
  shows "r = 0 \<longleftrightarrow> length (contents q) < capacity q"
  using enqueue_room[OF assms(1), of b] enqueue_full[OF assms(1), of b] assms(2)
  by (cases "length (contents q) < capacity q") auto

end

interpretation nullq: bounded_fifo null_enqueue null_ok null_contents null_capacity
proof (unfold_locales, goal_cases)
  case (1 q b)
  then show ?case using null_enqueue_spec[OF 1(1), of b] by auto
next
  case (2 q b)
  then show ?case using null_enqueue_spec[OF 2(1), of b] by simp
qed

section \<open>Polling\<close>

lemma null_poll_loop_spec:
  assumes "null_ok q" and "\<And>b s. bio_end b s = Inr (f b s)" and "max_nr = 0 \<or> nr < max_nr"
    and "unat nr + length (null_contents q) < 2 ^ 32"
  shows "\<exists>q'. null_poll_loop bio_end max_nr nr q s =
      Some (Inr (q', fold f (take (if max_nr = 0 then length (null_contents q) else unat max_nr - unat nr) (null_contents q)) s)) \<and>
    null_ok q' \<and> null_capacity q' = null_capacity q \<and>
    null_contents q' = drop (if max_nr = 0 then length (null_contents q) else unat max_nr - unat nr) (null_contents q)"
  using assms
proof (induction "null_contents q" arbitrary: q nr s)
  case Nil
  then have "nq_head q = nq_tail q" using null_empty_iff by metis
  then show ?case using Nil by (subst null_poll_loop.simps) simp
next
  case (Cons b bs)
  let ?k = "\<lambda>n. if max_nr = 0 then length bs else unat max_nr - n"
  have ne: "nq_head q \<noteq> nq_tail q" using null_empty_iff[OF Cons.prems(1)] Cons(2) by auto
  obtain q1 where q1: "null_complete bio_end q s = Inr (q1, f b s)" "null_ok q1" "null_contents q1 = bs"
      "null_capacity q1 = null_capacity q"
    using null_complete_spec[of q b bs bio_end s "f b s"] Cons.prems(1,2) Cons(2)[symmetric] by blast
  have u: "unat (nr + 1) = unat nr + 1" using Cons.prems(4) Cons(2)[symmetric] by (simp add: unat_word_ariths)
  show ?case
  proof (cases "nr + 1 = max_nr")
    case True
    then have "max_nr \<noteq> 0" "unat max_nr - unat nr = 1" using u by auto
    then show ?thesis using True ne q1 Cons(2)[symmetric] by (subst null_poll_loop.simps) simp
  next
    case False
    then have lt: "max_nr = 0 \<or> nr + 1 < max_nr" and sf: "max_nr \<noteq> 0 \<Longrightarrow> unat max_nr - unat nr = Suc (unat max_nr - unat (nr + 1))"
      using Cons.prems(3) u by (auto simp: word_less_nat_alt word_unat_eq_iff)
    have "unat (nr + 1) + length (null_contents q1) < 2 ^ 32" using u q1(3) Cons.prems(4) Cons(2)[symmetric] by simp
    from Cons(1)[OF q1(3)[symmetric] q1(2) Cons.prems(2) lt this, of "f b s"]
    show ?thesis using False ne q1 Cons(2)[symmetric] sf
      by (subst null_poll_loop.simps) (auto split: if_splits)
  qed
qed

text \<open>The null engine is a bounded first-in first-out queue whose polls always end: any number
  of requests up to the queue depth is accepted, one more is refused without effect, and a poll
  completes the oldest requests in order, at most \<open>max\<close> of them, or all when \<open>max\<close> is 0.\<close>

theorem null_engine_fifo:
  assumes "null_init True True iodepth = Some q" and "unat iodepth + 1 < 2 ^ 32" and "length bs = unat iodepth"
    and "\<And>b s. bio_end b s = Inr (f b s)"
  shows "\<exists>q1. enqueue_all null_enqueue q bs = Inr (0, q1) \<and> null_contents q1 = bs \<and>
    null_enqueue q1 b = Inr (- 1, q1) \<and>
    (\<exists>q2. null_poll bio_end min_nr max_nr q1 s =
        Some (Inr (q2, fold f (take (if max_nr = 0 then length bs else unat max_nr) bs) s)) \<and>
      null_ok q2 \<and> null_contents q2 = drop (if max_nr = 0 then length bs else unat max_nr) bs)"
proof -
  have n: "unat (iodepth + 1) = unat iodepth + 1" using assms(2) by (simp add: unat_word_ariths)
  have q: "null_ok q" "null_contents q = []" "null_capacity q = unat iodepth"
    using assms(1) n by (auto simp: null_init_def null_ok_def null_contents_def null_capacity_def ring_len_def
        word_less_nat_alt)
  obtain q1 where q1: "enqueue_all null_enqueue q bs = Inr (0, q1)" "null_ok q1" "null_contents q1 = bs"
      "null_capacity q1 = unat iodepth"
    using nullq.enqueue_all_room[OF q(1), of bs] q assms(3) by auto
  have "null_enqueue q1 b = Inr (- 1, q1)" using nullq.enqueue_full[OF q1(2), of b] q1 assms(3) by simp
  moreover have "max_nr = 0 \<or> 0 < max_nr" by (auto simp: word_gt_0)
  moreover have "unat (0 :: u32) + length (null_contents q1) < 2 ^ 32" using q1(3) assms(2,3) by simp
  ultimately show ?thesis
    using null_poll_loop_spec[of q1 bio_end f max_nr 0 s] q1 assms(4) by (auto simp: null_poll_def)
qed

theorem null_engine_fifo_witness:
  "\<exists>q1. enqueue_all null_enqueue
      \<lparr>nq_elements = replicate 3 None, nq_size = 3, nq_head = 0, nq_tail = 0\<rparr> [10, 20 :: nat] = Inr (0, q1) \<and>
    null_contents q1 = [10, 20] \<and> null_enqueue q1 30 = Inr (- 1, q1) \<and>
    (\<exists>q2. null_poll (\<lambda>b s. Inr (b # s)) 0 1 q1 [] =
        Some (Inr (q2, fold (\<lambda>b s. b # s) (take (if (1 :: u32) = 0 then length [10, 20 :: nat] else unat (1 :: u32)) [10, 20]) [])) \<and>
      null_ok q2 \<and> null_contents q2 = drop (if (1 :: u32) = 0 then length [10, 20 :: nat] else unat (1 :: u32)) [10, 20])"
  by (rule null_engine_fifo[where iodepth = 2]) (simp_all add: null_init_def)

end
