(* ===== verification/Iogen.thy ===== *)
theory Iogen
  imports IoverSubmit Acct Jesd219 NullEngine
begin

text \<open>
  The workload generator (\<open>nbio/iogen.c\<close>, \<open>iogen.h\<close>): the state of a job, its initialisation, the
  operation lottery, the request pool, and the generation of one request. The two request lists
  of a job are lists of indices into the pool, with \<open>list_add\<close>, \<open>list_add_tail\<close>, \<open>list_del\<close> and
  \<open>list_first_entry\<close> as the operations on the sequence that the theory of the linked lists proves
  them to be. Everything the code takes from outside (the outcome of a comparison of doubles, the
  zipf generator, uninitialised buffers, \<open>rand\<close>, clocks) is an argument.
\<close>

section \<open>State\<close>

datatype iogen_job_state =
    iogen_job_state_init | iogen_job_state_waiting | iogen_job_state_running | iogen_job_state_done
  | iogen_job_state_reset | iogen_job_state_aborting | iogen_job_state_aborted

primrec iogen_job_state_num :: "iogen_job_state \<Rightarrow> int" where
  "iogen_job_state_num iogen_job_state_init = 0"
| "iogen_job_state_num iogen_job_state_waiting = 1"
| "iogen_job_state_num iogen_job_state_running = 2"
| "iogen_job_state_num iogen_job_state_done = 3"
| "iogen_job_state_num iogen_job_state_reset = 4"
| "iogen_job_state_num iogen_job_state_aborting = 5"
| "iogen_job_state_num iogen_job_state_aborted = 6"

text \<open>\<open>iogen->state\<close> is an \<open>int\<close> and receives values of two enumerations, so it stays a number.\<close>

abbreviation (input) iogen_state_init :: int where "iogen_state_init \<equiv> 0"
abbreviation (input) iogen_state_running :: int where "iogen_state_running \<equiv> 1"
abbreviation (input) iogen_state_done :: int where "iogen_state_done \<equiv> 2"
abbreviation (input) iogen_state_aborting :: int where "iogen_state_aborting \<equiv> 3"
abbreviation (input) iogen_state_aborted :: int where "iogen_state_aborted \<equiv> 4"

record job_lbas =
  lb_min_lbas :: u32
  lb_max_lbas :: u32
  lb_lbas_dist :: u32
  lb_align :: u32

record iogen_job =
  j_display_name :: string
  j_id :: u32
  j_state :: iogen_job_state
  j_begin_ts :: timespec
  j_end_ts :: timespec
  j_reset_dist :: u32
  j_reset_next :: u32
  j_nr_reset :: u32
  j_rng :: rng
  j_jesd219 :: jesd219
  j_slba_next :: "u64 \<times> u64"
  j_slba_align :: u32
  j_lbas :: "job_lbas list"
  j_lba_range_begin :: u64
  j_lba_range_size :: u64
  j_replay_hist_idx :: u32
  j_replay_hist_cnt :: u32
  j_ns_info :: namespace_info
  j_timeout :: bool
  j_params :: job_params
  j_opr_lottery :: "u8 list"
  j_bio_pool :: "bio list"
  j_bio_free :: "nat list"
  j_bio_inflight :: "nat list"
  j_num_inflight :: u32
  j_acct :: ioacct
  j_identify :: bytes
  j_identify_valid :: bool

record iogen =
  ig_state :: int
  ig_result :: int
  ig_begin_ts :: timespec
  ig_end_ts :: timespec
  ig_njobs :: u32
  ig_running_job_mask :: u64
  ig_finished_job_mask :: u64
  ig_spor_level :: u32

text \<open>A job as \<open>calloc\<close> leaves it.\<close>

definition opacct_zero :: opacct where
  "opacct_zero = \<lparr>oa_ops = 0, oa_bytes = 0, oa_latency =
     \<lparr>la_buckets = replicate LATENCY_ACCT_NUM_BUCKETS \<lparr>lb_count = 0, lb_sum = 0\<rparr>, la_sum = 0, la_max = 0, la_min = 0\<rparr>\<rparr>"

definition iogen_job_zero :: iogen_job where
  "iogen_job_zero =
     \<lparr> j_display_name = '''', j_id = 0, j_state = iogen_job_state_init,
       j_begin_ts = \<lparr>tv_sec = 0, tv_nsec = 0\<rparr>, j_end_ts = \<lparr>tv_sec = 0, tv_nsec = 0\<rparr>,
       j_reset_dist = 0, j_reset_next = 0, j_nr_reset = 0, j_rng = \<lparr>seed0 = 0, seed1 = 0, seed2 = 0\<rparr>,
       j_jesd219 = \<lparr>je_enterprise = False, je_slba = 0, je_nbls = 0\<rparr>, j_slba_next = (0, 0), j_slba_align = 0,
       j_lbas = replicate iosize_num_max \<lparr>lb_min_lbas = 0, lb_max_lbas = 0, lb_lbas_dist = 0, lb_align = 0\<rparr>,
       j_lba_range_begin = 0, j_lba_range_size = 0, j_replay_hist_idx = 0, j_replay_hist_cnt = 0,
       j_ns_info = namespace_zero, j_timeout = False, j_params = job_params_zero,
       j_opr_lottery = replicate 100 0, j_bio_pool = [], j_bio_free = [], j_bio_inflight = [],
       j_num_inflight = 0, j_acct = \<lparr>ia_ops = replicate bio_max opacct_zero, ia_sum = opacct_zero\<rparr>,
       j_identify = [], j_identify_valid = False \<rparr>"

section \<open>The operation lottery\<close>

text \<open>The inner \<open>while\<close> loop: entries up to \<open>weight\<close> get the operation; the array has 100 entries.\<close>

function lottery_fill :: "u8 list \<Rightarrow> u32 \<Rightarrow> u32 \<Rightarrow> u8 \<Rightarrow> (u8 list \<times> u32) res" where
  "lottery_fill lottery lot_idx weight op_idx =
     (if lot_idx < weight
      then bnd (arr_set lottery (unat lot_idx) op_idx) (\<lambda>lottery.
           lottery_fill lottery (lot_idx + 1) weight op_idx)
      else Inr (lottery, lot_idx))"
  by pat_completeness auto
termination
proof (relation "measure (\<lambda>(l, i, w, x). unat w - unat i)")
  show "wf (measure (\<lambda>(l :: u8 list, i :: u32, w :: u32, x :: u8). unat w - unat i))" by simp
next
  fix l :: "u8 list" and i w :: u32 and x :: u8 and l' assume "i < w"
  then have "unat i < unat w" "unat (i + 1) = unat i + 1"
    by (simp_all add: word_less_nat_alt unat_succ)
  then show "((l', i + 1, w, x), (l, i, w, x)) \<in> measure (\<lambda>(l, i, w, x). unat w - unat i)" by simp
qed

declare lottery_fill.simps [simp del]

definition lottery_step :: "u32 list \<Rightarrow> nat \<Rightarrow> (u8 list \<times> u32 \<times> u32) \<Rightarrow> (u8 list \<times> u32 \<times> u32) res" where
  "lottery_step operations op_idx =
     (\<lambda>(lottery, lot_idx, weight).
      bnd (arr_get operations op_idx) (\<lambda>w.
      bnd (lottery_fill lottery lot_idx (weight + w) (of_nat op_idx)) (\<lambda>(lottery, lot_idx).
      Inr (lottery, lot_idx, weight + w))))"

definition create_opr_lottery :: "iogen_job \<Rightarrow> iogen_job res" where
  "create_opr_lottery job =
     bnd (for_upto 0 bio_max (lottery_step (jp_operations (j_params job))) (j_opr_lottery job, 0, 0))
       (\<lambda>(lottery, lot_idx, weight). Inr (job\<lparr>j_opr_lottery := lottery\<rparr>))"

section \<open>The request pool\<close>

text \<open>
  \<open>iosize_max\<close> is the global limit the parser collects. \<open>fresh\<close> gives the bytes of a new
  allocation: \<open>fresh i k\<close> is byte \<open>k\<close> of the data buffer of request \<open>i\<close>.
\<close>

definition pool_meta_size :: "u32 \<Rightarrow> namespace_info \<Rightarrow> u32" where
  "pool_meta_size iosz_max ns = ns_meta_size ns * drop_bit (unat (ns_lba_shift ns)) iosz_max"

definition data_buf_size :: "u32 \<Rightarrow> namespace_info \<Rightarrow> u32" where
  "data_buf_size iosz_max ns =
     max iosz_max 4096 + (if ns_extended_lba ns then pool_meta_size iosz_max ns else 0)"

definition meta_buf_size :: "u32 \<Rightarrow> namespace_info \<Rightarrow> u32" where
  "meta_buf_size iosz_max ns = (if ns_extended_lba ns then 0 else pool_meta_size iosz_max ns)"

text \<open>One request: the data pointer is moved by 0, 4, 8 or 12 bytes into the 16 spare bytes.\<close>

definition create_bio :: "(nat \<Rightarrow> nat \<Rightarrow> u8) \<Rightarrow> u32 \<Rightarrow> namespace_info \<Rightarrow> nat \<Rightarrow> rng \<Rightarrow> bio \<times> rng" where
  "create_bio fresh iosz_max ns bio_idx r =
     (let (x, r) = rand48 r; off = unat (push_bit 2 (x AND 3)); n = unat (data_buf_size iosz_max ns);
          buf = map (fresh bio_idx) [0..<unat (data_buf_size iosz_max ns + 16)] in
      (bio_zero\<lparr>b_id := of_nat bio_idx, b_data_pre := take off buf,
         b_data := replicate n 0 @ drop (off + n) buf,
         b_meta := replicate (unat (meta_buf_size iosz_max ns)) 0,
         b_block_desc := replicate (unat (drop_bit (unat (ns_lba_shift ns)) iosz_max))
           \<lparr>bd_timestamp = 0, bd_state = 0, bd_pattern = 0, bd_flags = 0\<rparr>\<rparr>, r))"

text \<open>
  \<open>memset\<close> of \<open>data_buf_size\<close> bytes stays inside the allocation unless the 32-bit size wraps
  around. \<open>alloc i\<close> tells whether the allocations of request \<open>i\<close> succeed.
\<close>

definition create_bio_step ::
  "(nat \<Rightarrow> nat \<Rightarrow> u8) \<Rightarrow> (nat \<Rightarrow> bool) \<Rightarrow> u32 \<Rightarrow> nat \<Rightarrow> (int \<times> iogen_job) \<Rightarrow> (int \<times> iogen_job) res" where
  "create_bio_step fresh alloc iosz_max bio_idx = (\<lambda>(res, job).
     if res \<noteq> 0 then Inr (res, job)
     else if \<not> alloc bio_idx then Inr (- 1, job\<lparr>j_bio_pool := []\<rparr>)
     else if data_buf_size iosz_max (j_ns_info job) + 16 < 16 then Inl Fault
     else let (bio, r) = create_bio fresh iosz_max (j_ns_info job) bio_idx (j_rng job) in
       Inr (0, job\<lparr>j_bio_pool := (j_bio_pool job)[bio_idx := bio], j_rng := r,
                  j_bio_free := j_bio_free job @ [bio_idx]\<rparr>))"

definition create_bio_pool ::
  "bool \<Rightarrow> (nat \<Rightarrow> nat \<Rightarrow> u8) \<Rightarrow> (nat \<Rightarrow> bool) \<Rightarrow> u32 \<Rightarrow> iogen_job \<Rightarrow> (int \<times> iogen_job) res" where
  "create_bio_pool pool_alloc fresh alloc iosz_max job =
     (if \<not> pool_alloc then Inr (- 1, job\<lparr>j_bio_pool := []\<rparr>)
      else for_upto 0 (unat (jp_iodepth (j_params job))) (create_bio_step fresh alloc iosz_max)
        (0, job\<lparr>j_bio_pool := replicate (unat (jp_iodepth (j_params job))) bio_zero\<rparr>))"

section \<open>Initialisation of a job\<close>

definition display_name :: "string \<Rightarrow> string" where
  "display_name nm = (if 15 < length nm then take 12 nm @ ''...'' else nm)"

text \<open>The block counts of one kind of request; an unset one copies the common entry.\<close>

definition init_lbas :: "job_params \<Rightarrow> u32 \<Rightarrow> nat \<Rightarrow> (int \<times> job_lbas list) \<Rightarrow> (int \<times> job_lbas list) res" where
  "init_lbas params lba_shift i = (\<lambda>(res, lbas).
     if res \<noteq> 0 then Inr (res, lbas) else
     bnd (arr_get (jp_iosizes params) i) (\<lambda>sz.
     bnd (arr_get lbas i) (\<lambda>l.
     bnd (arr_get lbas (iosize_opcode_num iosize_total)) (\<lambda>tot.
     let l = (if iosize_min sz = 0 \<and> iosize_max sz = 0
              then l\<lparr>lb_min_lbas := lb_min_lbas tot, lb_max_lbas := lb_max_lbas tot,
                     lb_lbas_dist := lb_lbas_dist tot\<rparr>
              else let mn = ucast (drop_bit (unat lba_shift) (iosize_min sz));
                       mx = ucast (drop_bit (unat lba_shift) (iosize_max sz))
                   in l\<lparr>lb_min_lbas := mn, lb_max_lbas := mx, lb_lbas_dist := mx - mn\<rparr>) in
     Inr (if lb_min_lbas l = 0 \<or> lb_max_lbas l = 0 then - 1 else 0, lbas[i := l])))))"

definition set_latency_min :: "opacct list \<Rightarrow> nat \<Rightarrow> opacct list res" where
  "set_latency_min ops i =
     bnd (arr_get ops i) (\<lambda>op. Inr (ops[i := op\<lparr>oa_latency := (oa_latency op)\<lparr>la_min := - 1\<rparr>\<rparr>]))"

text \<open>
  What the surroundings contribute: whether the engine is found, the result of its \<open>init\<close>, the
  allocations, and the contents of a new identify buffer (\<open>None\<close> when that allocation fails, which
  the code reports with the result of the step before, 0).
\<close>

record job_init_env =
  je_engine_found :: bool
  je_engine_init :: int
  je_pool_alloc :: bool
  je_alloc :: "nat \<Rightarrow> bool"
  je_fresh :: "nat \<Rightarrow> nat \<Rightarrow> u8"
  je_identify :: "bytes option"

text \<open>The range of the job in blocks, the accounts, and the pool with the identify buffer.\<close>

definition set_range :: "job_params \<Rightarrow> namespace_info \<Rightarrow> iogen_job \<Rightarrow> iogen_job" where
  "set_range params ns job =
     (let sh = unat (ns_lba_shift ns) in
      job\<lparr>j_slba_align := drop_bit sh (jp_slba_align params), j_lba_range_begin := drop_bit sh (jp_lba_range_begin params),
          j_lba_range_size := drop_bit sh (jp_lba_range_size params)\<rparr>)"

definition init_acct :: "job_params \<Rightarrow> iogen_job \<Rightarrow> iogen_job res" where
  "init_acct params job =
     bnd (set_latency_min (ia_ops (j_acct job)) (bio_opcode_num bio_read)) (\<lambda>ops.
     bnd (set_latency_min ops (bio_opcode_num bio_write)) (\<lambda>ops.
     Inr (job\<lparr>j_acct := (j_acct job)\<lparr>ia_ops := ops\<rparr>, j_reset_dist := jp_reset_max params - jp_reset_min params\<rparr>)))"

definition init_buffers :: "job_init_env \<Rightarrow> u32 \<Rightarrow> iogen_job \<Rightarrow> (int \<times> iogen_job) res" where
  "init_buffers env iosz_max job =
     bnd (create_bio_pool (je_pool_alloc env) (je_fresh env) (je_alloc env) iosz_max job) (\<lambda>(res, job).
     if res \<noteq> 0 then Inr (res, job) else
     case je_identify env of None \<Rightarrow> Inr (0, job\<lparr>j_identify := []\<rparr>)
     | Some page \<Rightarrow> Inr (0, job\<lparr>j_identify := page\<rparr>))"

definition init_sizes :: "job_params \<Rightarrow> namespace_info \<Rightarrow> iogen_job \<Rightarrow> (int \<times> iogen_job) res" where
  "init_sizes params ns job =
     bnd (for_upto 0 iosize_num_max (init_lbas params (ns_lba_shift ns)) (0, j_lbas job)) (\<lambda>(res, lbas).
     Inr (res, job\<lparr>j_lbas := lbas\<rparr>))"

definition iogen_job_init ::
  "job_init_env \<Rightarrow> u32 \<Rightarrow> iogen_job \<Rightarrow> u32 \<Rightarrow> job_params \<Rightarrow> namespace_info \<Rightarrow> (int \<times> iogen_job) res" where
  "iogen_job_init env iosz_max job job_id params ns =
     (let job = job\<lparr>j_id := job_id, j_state := iogen_job_state_init, j_params := params, j_ns_info := ns\<rparr> in
      if \<not> je_engine_found env then Inr (- 1, job)
      else if je_engine_init env \<noteq> 0 then Inr (je_engine_init env, job) else
      let job = job\<lparr>j_display_name := display_name (jp_name params),
            j_rng := rng_init (ucast (jp_seed params + job_id))\<rparr> in
      bnd (create_opr_lottery job) (\<lambda>job.
      bnd (init_sizes params ns (job\<lparr>j_bio_free := [], j_bio_inflight := []\<rparr>)) (\<lambda>(res, job).
      if res \<noteq> 0 then Inr (res, job)
      else bnd (init_acct params (set_range params ns job)) (init_buffers env iosz_max))))"

section \<open>What the lottery holds\<close>

text \<open>What a lottery looks like: each operation as often as its weight, the rest untouched.\<close>

definition lottery_image :: "u32 list \<Rightarrow> u8 list \<Rightarrow> u8 list" where
  "lottery_image operations lottery =
     concat (map (\<lambda>k. replicate (unat (operations ! k)) (of_nat k)) [0..<bio_max]) @
     drop (sum_list (map unat operations)) lottery"

lemma lottery_fill_spec:
  assumes "lot_idx \<le> weight"
  shows "lottery_fill lottery lot_idx weight x =
    (if unat weight \<le> length lottery
     then Inr (take (unat lot_idx) lottery @ replicate (unat weight - unat lot_idx) x @ drop (unat weight) lottery, weight)
     else if lot_idx = weight then Inr (lottery, lot_idx) else Inl Fault)"
  using assms
proof (induction lottery lot_idx weight x rule: lottery_fill.induct)
  case (1 l i w x)
  show ?case
  proof (cases "i < w")
    case True
    then have u: "unat (i + 1) = Suc (unat i)" "unat i < unat w" by (simp_all add: unat_succ word_less_nat_alt)
    then have le: "i + 1 \<le> w" by (simp add: word_le_nat_alt)
    show ?thesis
    proof (cases "unat i < length l")
      case in_range: True
      have "lottery_fill l i w x = lottery_fill (l[unat i := x]) (i + 1) w x"
        using True in_range by (simp add: lottery_fill.simps[of l])
      moreover have "take (Suc (unat i)) (l[unat i := x]) = take (unat i) l @ [x]"
        using in_range by (simp add: take_Suc_conv_app_nth)
      moreover have "unat w - unat i = Suc (unat w - Suc (unat i))" using u(2) by simp
      ultimately show ?thesis
        using 1(1)[OF True _ le, of "l[unat i := x]"] in_range u True by (auto simp: word_unat_eq_iff)
    next
      case False
      then show ?thesis using True u by (auto simp: lottery_fill.simps[of l] arr_set_def)
    qed
  next
    case False
    then have "i = w" using 1(2) by simp
    then show ?thesis by (simp add: lottery_fill.simps[of l])
  qed
qed

text \<open>The sum of the first weights, and the lottery after as many operations.\<close>

definition weight_sum :: "u32 list \<Rightarrow> nat \<Rightarrow> nat" where
  "weight_sum operations j = sum_list (map unat (take j operations))"

definition lottery_part :: "u32 list \<Rightarrow> u8 list \<Rightarrow> nat \<Rightarrow> u8 list \<times> u32 \<times> u32" where
  "lottery_part operations lottery j =
     (concat (map (\<lambda>k. replicate (unat (operations ! k)) (of_nat k)) [0..<j]) @
      drop (weight_sum operations j) lottery, of_nat (weight_sum operations j), of_nat (weight_sum operations j))"

lemma weight_sum_Suc: "j < length ops \<Longrightarrow> weight_sum ops (Suc j) = weight_sum ops j + unat (ops ! j)"
  by (simp add: weight_sum_def take_Suc_conv_app_nth)

lemma weight_sum_mono: "i \<le> j \<Longrightarrow> weight_sum ops i \<le> weight_sum ops j"
  unfolding weight_sum_def by (metis le_add_diff_inverse take_add map_append sum_list_append le_add1)

lemma length_lottery_concat:
  "j \<le> length ops \<Longrightarrow>
   length (concat (map (\<lambda>k. replicate (unat (ops ! k)) (f k)) [0..<j])) = weight_sum ops j"
  by (induction j) (simp_all add: weight_sum_Suc, simp add: weight_sum_def)

lemma lottery_step_part:
  assumes "j < length ops" and le: "weight_sum ops j \<le> length l" and lt: "weight_sum ops (Suc j) < 2 ^ 32"
  shows "lottery_step ops j (lottery_part ops l j) =
    (if weight_sum ops (Suc j) \<le> length l then Inr (lottery_part ops l (Suc j)) else Inl Fault)"
proof -
  let ?a = "weight_sum ops j" and ?b = "weight_sum ops (Suc j)"
  have b: "?b = ?a + unat (ops ! j)" using weight_sum_Suc[OF assms(1)] .
  have ua: "unat (of_nat ?a :: u32) = ?a" and ub: "unat (of_nat ?b :: u32) = ?b"
    using lt weight_sum_mono[of j "Suc j" ops] by (simp_all add: unat_of_nat take_bit_eq_mod)
  have w: "of_nat ?a + ops ! j = (of_nat ?b :: u32)" by (simp add: b)
  have "of_nat ?a \<le> (of_nat ?b :: u32)" using ua ub b by (simp add: word_le_nat_alt)
  note fill = lottery_fill_spec[OF this, of "fst (lottery_part ops l j)" "of_nat j", unfolded ua ub]
  have "length (fst (lottery_part ops l j)) = length l"
    using assms(1) le by (simp add: lottery_part_def length_lottery_concat)
  moreover have "of_nat ?a = (of_nat ?b :: u32) \<Longrightarrow> ?b \<le> length l" using ua ub le by (metis)
  moreover have "drop ?b (fst (lottery_part ops l j)) = drop ?b l" "take ?a (fst (lottery_part ops l j)) = concat (map (\<lambda>k. replicate (unat (ops ! k)) (of_nat k)) [0..<j])"
    using assms(1) b by (simp_all add: lottery_part_def length_lottery_concat add.commute)
  moreover have "?b - ?a = unat (ops ! j)" using b by simp
  ultimately show ?thesis using fill w assms(1)
    by (auto simp: lottery_step_def lottery_part_def arr_get_def)
qed

lemma lottery_loop:
  assumes "weight_sum ops j \<le> length l" and "j + k \<le> length ops" and "weight_sum ops (j + k) < 2 ^ 32"
  shows "for_upto j k (lottery_step ops) (lottery_part ops l j) =
    (if weight_sum ops (j + k) \<le> length l then Inr (lottery_part ops l (j + k)) else Inl Fault)"
  using assms
proof (induction k arbitrary: j)
  case 0
  then show ?case by simp
next
  case (Suc k)
  have m: "weight_sum ops (Suc j) \<le> weight_sum ops (j + Suc k)" by (rule weight_sum_mono) simp
  then have "lottery_step ops j (lottery_part ops l j) =
      (if weight_sum ops (Suc j) \<le> length l then Inr (lottery_part ops l (Suc j)) else Inl Fault)"
    using Suc.prems by (intro lottery_step_part) auto
  then show ?case using Suc.IH[of "Suc j"] Suc.prems m by auto
qed

text \<open>C33: The lottery gives each operation exactly as many of the hundred entries as its weight
  says, in the order of the operations, and leaves the entries above the sum of the weights; with
  weights of more than 100 in all it writes beyond the array.\<close>

theorem create_opr_lottery_exact:
  assumes "length (jp_operations (j_params job)) = bio_max" and "length (j_opr_lottery job) = 100"
    and "sum_list (map unat (jp_operations (j_params job))) < 2 ^ 32"
  shows "create_opr_lottery job =
    (if sum_list (map unat (jp_operations (j_params job))) \<le> 100
     then Inr (job\<lparr>j_opr_lottery := lottery_image (jp_operations (j_params job)) (j_opr_lottery job)\<rparr>)
     else Inl Fault)"
proof -
  let ?ops = "jp_operations (j_params job)"
  have "lottery_part ?ops l 0 = (l, 0, 0)" for l by (simp add: lottery_part_def weight_sum_def)
  moreover have "weight_sum ?ops bio_max = sum_list (map unat ?ops)" by (simp add: weight_sum_def assms(1))
  ultimately show ?thesis
    using lottery_loop[of ?ops 0 "j_opr_lottery job" bio_max] assms
    by (simp add: create_opr_lottery_def lottery_image_def lottery_part_def weight_sum_def)
qed

theorem create_opr_lottery_exact_witness:
  "create_opr_lottery (iogen_job_zero\<lparr>j_params := job_params_zero\<lparr>jp_operations := [60, 30, 10, 0, 0, 0, 0, 0]\<rparr>\<rparr>) =
    (if sum_list (map unat [60, 30, 10, 0, 0, 0, 0, 0 :: u32]) \<le> 100
     then Inr (iogen_job_zero\<lparr>j_params := job_params_zero\<lparr>jp_operations := [60, 30, 10, 0, 0, 0, 0, 0]\<rparr>,
        j_opr_lottery := lottery_image [60, 30, 10, 0, 0, 0, 0, 0] (replicate 100 0)\<rparr>)
     else Inl Fault)"
  using create_opr_lottery_exact
    [of "iogen_job_zero\<lparr>j_params := job_params_zero\<lparr>jp_operations := [60, 30, 10, 0, 0, 0, 0, 0]\<rparr>\<rparr>"]
  by (simp add: bio_max_def iogen_job_zero_def)

end
