(* ===== verification/IogenGen.thy ===== *)
theory IogenGen
  imports Iogen
begin

text \<open>
  Generation of one request (\<open>generate_bio\<close> and \<open>history_slba\<close> of \<open>nbio/iogen.c\<close>): operation,
  size, protection settings, start address with up to three attempts, stream and injected tag
  errors. The state a job thread works on is the job, the shared \<open>iogen\<close>, the verifier of its
  namespace and the static state of the JESD219 generator.
\<close>

record job_run =
  r_job :: iogen_job
  r_iogen :: iogen
  r_iover :: iover
  r_well :: well

text \<open>
  What the code takes from outside: whether the quotient of a random number and \<open>U64_MAX\<close> is below
  a \<open>double\<close> parameter, the zipf generator, and for each attempt the uninitialised protection
  information and the results of \<open>rand() % 10 == 0\<close> for the blocks.
\<close>

record gen_env =
  ge_below :: "u64 \<Rightarrow> decimal \<Rightarrow> bool"
  ge_zipf_int :: "rng \<Rightarrow> u64 \<times> rng"
  ge_pr_info :: "nat \<Rightarrow> pr_info"
  ge_escape :: "nat \<Rightarrow> nat \<Rightarrow> bool"

definition rng_below :: "gen_env \<Rightarrow> rng \<Rightarrow> decimal \<Rightarrow> bool \<times> rng" where
  "rng_below env r d = (let (x, r) = rand64 r in (ge_below env x d, r))"

text \<open>
  \<open>history_slba\<close>: the next request of the replay. When the last entry is taken the shared state is
  set to \<open>iogen_job_state_done\<close>, a value of the enumeration of job states.
\<close>

definition history_slba :: "job_run \<Rightarrow> bio \<Rightarrow> (job_run \<times> bio) res" where
  "history_slba rs bio =
     (let job = r_job rs; iogen = r_iogen rs in
      bnd (arr_get (iv_hist_desc (r_iover rs)) (unat (j_replay_hist_idx job))) (\<lambda>hd.
      if hd_lba hd = 0xFFFFFFFFFFFFFFFF \<or> j_replay_hist_cnt job = 0 then
        Inr (rs\<lparr>r_iogen := iogen\<lparr>ig_state := iogen_state_done\<rparr>\<rparr>, bio\<lparr>b_opcode := bio_flush\<rparr>)
      else
        bnd (if j_replay_hist_idx job = 0 then
               (case iv_journal (r_iover rs) of None \<Rightarrow> Inl Fault
                | Some (jh, jf) \<Rightarrow> Inr (jh_nhist jh - 1))
             else Inr (j_replay_hist_idx job - 1)) (\<lambda>idx.
        let cnt = j_replay_hist_cnt job - 1 in
        Inr (rs\<lparr>r_job := job\<lparr>j_replay_hist_idx := idx, j_replay_hist_cnt := cnt\<rparr>,
               r_iogen := (if cnt = 0 then iogen\<lparr>ig_state := iogen_job_state_num iogen_job_state_done\<rparr> else iogen)\<rparr>,
             bio\<lparr>b_opcode := bio_read, b_nlbs := 1, b_slba := hd_lba hd,
                 b_hist_idx := j_replay_hist_idx job\<rparr>))))"

section \<open>Operation and size\<close>

definition draw_opcode :: "iogen_job \<Rightarrow> u64 \<Rightarrow> bio_opcode res" where
  "draw_opcode job rand =
     bnd (arr_get (j_opr_lottery job) (unat (rand mod 100))) (\<lambda>op. arr_get bio_opcodes (unat op))"

definition sector_size_param :: "job_params \<Rightarrow> u32" where
  "sector_size_param params = (case jp_slba params of Slba_jesd219 ent sz \<Rightarrow> sz | _ \<Rightarrow> 0)"

text \<open>
  The number of blocks. \<open>lbas\<close> and \<open>iosizes\<close> have an entry per \<open>iosize_opcode\<close> but are indexed by
  the operation code. The sum and the alignment are 32-bit.
\<close>

definition draw_nlbs :: "iogen_job \<Rightarrow> u64 \<Rightarrow> bio_opcode \<Rightarrow> u32 res" where
  "draw_nlbs job rand opcode =
     bnd (arr_get (j_lbas job) (bio_opcode_num opcode)) (\<lambda>l.
     bnd (arr_get (jp_iosizes (j_params job)) (bio_opcode_num opcode)) (\<lambda>sz.
     bnd (if 0 < lb_lbas_dist l then
            if lb_lbas_dist l + 1 = 0 then Inl Fault
            else Inr (lb_min_lbas l + ucast (rand mod ucast (lb_lbas_dist l + 1)))
          else Inr (lb_min_lbas l)) (\<lambda>nlbs.
     Inr (if iosize_align sz \<noteq> 0
          then ALIGN nlbs (drop_bit (unat (ns_lba_shift (j_ns_info job))) (iosize_align sz)) else nlbs))))"

definition set_nlbs :: "job_run \<Rightarrow> u64 \<Rightarrow> bio \<Rightarrow> (job_run \<times> bio) res option" where
  "set_nlbs rs rand bio =
     (let job = r_job rs in
      if jp_slba_type (j_params job) = slba_type_jesd219 then
        obnd (jesd219_gen (jp_seed (j_params job)) (sector_size_param (j_params job))
                (ns_nlbs (j_ns_info job)) (j_jesd219 job) (r_well rs)) (\<lambda>(je, well).
        Some (Inr (rs\<lparr>r_job := job\<lparr>j_jesd219 := je\<rparr>, r_well := well\<rparr>, bio\<lparr>b_nlbs := jesd219_nlbs je\<rparr>)))
      else
        Some (bnd (draw_nlbs job rand (b_opcode bio)) (\<lambda>nlbs. Inr (rs, bio\<lparr>b_nlbs := nlbs\<rparr>))))"

text \<open>Transfer sizes and protection settings; \<open>nlbs << lba_shift\<close> and \<open>nlbs * meta_size\<close> are 32-bit.\<close>

definition set_sizes :: "gen_env \<Rightarrow> iogen_job \<Rightarrow> bio \<Rightarrow> iogen_job \<times> bio" where
  "set_sizes env job bio =
     (let ns = j_ns_info job; params = j_params job;
          bio = bio\<lparr>b_iosize := ucast (push_bit (unat (ns_lba_shift ns)) (b_nlbs bio)), b_pract := False, b_prchk := 0\<rparr>;
          (job, bio) = (if ns_pi_type ns \<noteq> 0 \<and> ns_meta_size ns \<noteq> 0 then
              let (p, r) = rng_below env (j_rng job) (jp_pract params)
              in (job\<lparr>j_rng := r\<rparr>, bio\<lparr>b_pract := p, b_prchk := jp_prchk params\<rparr>)
            else (job, bio));
          meta = b_nlbs bio * ns_meta_size ns in
      (job, if \<not> (b_pract bio \<and> ns_meta_size ns = 8) then
              if ns_extended_lba ns then bio\<lparr>b_iosize := b_iosize bio + ucast meta, b_meta_size := 0\<rparr>
              else bio\<lparr>b_meta_size := ucast meta\<rparr>
            else bio\<lparr>b_meta_size := 0\<rparr>))"

section \<open>Start address\<close>

text \<open>
  The \<open>switch\<close> on the address type, inside the range of the job; the flag is false when the
  function gives up with a null pointer.
\<close>

definition choose_slba :: "gen_env \<Rightarrow> job_run \<Rightarrow> bio \<Rightarrow> (job_run \<times> bio \<times> bool) res" where
  "choose_slba env rs bio =
     (let job = r_job rs; params = j_params job; n = ucast (b_nlbs bio) in
      case jp_slba_type params of
        slba_type_seq \<Rightarrow>
          if jp_separate_stream params \<and> b_opcode bio = bio_read then
            let slba = snd (j_slba_next job); slba = (if slba + n > j_lba_range_size job then 0 else slba) in
            if slba + n \<ge> fst (j_slba_next job) then Inr (rs, bio\<lparr>b_slba := slba\<rparr>, False)
            else Inr (rs\<lparr>r_job := job\<lparr>j_slba_next := (fst (j_slba_next job), slba + n)\<rparr>\<rparr>, bio\<lparr>b_slba := slba\<rparr>, True)
          else
            let slba = fst (j_slba_next job); slba = (if slba + n > j_lba_range_size job then 0 else slba) in
            Inr (rs\<lparr>r_job := job\<lparr>j_slba_next := (slba + n, snd (j_slba_next job))\<rparr>\<rparr>, bio\<lparr>b_slba := slba\<rparr>, True)
      | slba_type_uniform \<Rightarrow>
          bnd (rng_uniform_u48 (j_rng job) (j_lba_range_size job - n)) (\<lambda>(x, r).
          Inr (rs\<lparr>r_job := job\<lparr>j_rng := r\<rparr>\<rparr>, bio\<lparr>b_slba := x\<rparr>, True))
      | slba_type_zipf \<Rightarrow>
          if j_lba_range_size job - n = 0 then Inl Fault else
          let (z, r) = ge_zipf_int env (j_rng job) in
          Inr (rs\<lparr>r_job := job\<lparr>j_rng := r\<rparr>\<rparr>, bio\<lparr>b_slba := hash64 z mod (j_lba_range_size job - n)\<rparr>, True)
      | slba_type_pareto \<Rightarrow> Inr (rs, bio, True)
      | slba_type_fixed \<Rightarrow>
          Inr (rs, bio\<lparr>b_slba := (case jp_slba params of Slba_fixed l \<Rightarrow> l | _ \<Rightarrow> 0)\<rparr>, True)
      | slba_type_jesd219 \<Rightarrow> Inr (rs, bio\<lparr>b_slba := jesd219_slba (j_jesd219 job)\<rparr>, True)
      | slba_type_replay \<Rightarrow> bnd (history_slba rs bio) (\<lambda>(rs, bio). Inr (rs, bio, True)))"

definition place_slba :: "iogen_job \<Rightarrow> bio \<Rightarrow> bio" where
  "place_slba job bio =
     (let slba = (if jp_slba_align (j_params job) > ns_data_size (j_ns_info job)
                  then ALIGN (b_slba bio) (ucast (j_slba_align job)) else b_slba bio)
      in bio\<lparr>b_slba := slba + j_lba_range_begin job\<rparr>)"

text \<open>
  The \<open>do\<close> loop. \<open>tries\<close> counts the attempts that are left: the fourth one returns a null pointer.
  The outcomes are a null pointer, a flush that ends the replay (which skips the rest), and a
  request whose data is generated and whose range is locked.
\<close>

datatype placed = Gave_up | Replay_end bio | Placed bio

fun place_bio :: "gen_env \<Rightarrow> nat \<Rightarrow> job_run \<Rightarrow> bio \<Rightarrow> (job_run \<times> bio \<times> placed) res" where
  "place_bio env 0 rs bio = Inr (rs, bio, Gave_up)"
| "place_bio env (Suc tries) rs bio =
     bnd (choose_slba env rs bio) (\<lambda>(rs, bio, go).
         if \<not> go then Inr (rs, bio, Gave_up)
         else if jp_slba_type (j_params (r_job rs)) = slba_type_replay \<and> b_opcode bio = bio_flush then
           let bio = bio\<lparr>b_nlbs := 0, b_iosize := 0\<rparr> in Inr (rs, bio, Replay_end bio)
         else
           bnd (iover_generate_data (ge_pr_info env tries) (ge_escape env tries) (r_iover rs)
                  (j_params (r_job rs)) (place_slba (r_job rs) bio)) (\<lambda>(res, iover, bio).
           let rs = rs\<lparr>r_iover := iover\<rparr> in
           if res = 0 then Inr (rs, bio, Placed bio) else place_bio env tries rs bio))"

section \<open>The whole request\<close>

definition set_stream :: "job_params \<Rightarrow> u64 \<Rightarrow> bio \<Rightarrow> bio" where
  "set_stream params rand bio =
     (if b_opcode bio = bio_write then
        if jp_num_streams params = 0 then bio\<lparr>b_stream_id := 0\<rparr>
        else bio\<lparr>b_stream_id := 1 + ucast (drop_bit 10 rand mod ucast (jp_num_streams params))\<rparr>
      else bio)"

definition sum_acct :: "(opacct \<Rightarrow> opacct) \<Rightarrow> iogen_job \<Rightarrow> iogen_job" where
  "sum_acct f job = job\<lparr>j_acct := (j_acct job)\<lparr>ia_sum := f (ia_sum (j_acct job))\<rparr>\<rparr>"

text \<open>An injected error: the application tag is changed and the request is expected to fail.\<close>

definition inject_tag_error :: "gen_env \<Rightarrow> iogen_job \<Rightarrow> bio \<Rightarrow> iogen_job \<times> bio" where
  "inject_tag_error env job bio =
     (if bio_opcode_num (b_opcode bio) < bio_opcode_num bio_identify \<and> ns_pi_type (j_ns_info job) \<noteq> 0 \<and>
         dec_significant (jp_inject_tag_error (j_params job)) \<noteq> 0 then
        let (inject, r) = rng_below env (j_rng job) (jp_inject_tag_error (j_params job)) in
        (job\<lparr>j_rng := r\<rparr>, if inject \<and> (\<not> b_pract bio \<or> b_opcode bio = bio_read)
           then bio\<lparr>b_apptag := b_apptag bio XOR 0x5555, b_expected_result := - 1\<rparr> else bio)
      else (job, bio))"

text \<open>The code behind the label \<open>exit\<close>; the request leaves the free list.\<close>

definition finish_bio :: "gen_env \<Rightarrow> nat \<Rightarrow> job_run \<Rightarrow> bio \<Rightarrow> job_run" where
  "finish_bio env i rs bio =
     (let (job, bio) = inject_tag_error env (sum_acct (\<lambda>s. s\<lparr>oa_ops := oa_ops s + 1\<rparr>) (r_job rs))
            (bio\<lparr>b_timeout := False, b_expected_result := 0\<rparr>) in
      rs\<lparr>r_job := job\<lparr>j_bio_pool := (j_bio_pool job)[i := bio], j_bio_free := remove1 i (j_bio_free job)\<rparr>\<rparr>)"

text \<open>
  The part after the operation is known: sizes, start address, data, stream. \<open>None\<close> as the second
  component is a null pointer.
\<close>

definition conclude_bio ::
  "gen_env \<Rightarrow> nat \<Rightarrow> u64 \<Rightarrow> job_run \<times> bio \<times> placed \<Rightarrow> (job_run \<times> nat option) res" where
  "conclude_bio env i rand = (\<lambda>(rs, bio, p).
     case p of
       Gave_up \<Rightarrow> Inr (rs\<lparr>r_job := (r_job rs)\<lparr>j_bio_pool := (j_bio_pool (r_job rs))[i := bio]\<rparr>\<rparr>, None)
     | Replay_end bio \<Rightarrow> Inr (finish_bio env i rs bio, Some i)
     | Placed bio \<Rightarrow>
         let job = sum_acct (\<lambda>s. s\<lparr>oa_bytes := oa_bytes s + b_iosize bio\<rparr>) (r_job rs);
             bio = bio\<lparr>b_offset := push_bit (unat (ns_lba_shift (j_ns_info job))) (b_slba bio),
                       b_data_size := b_iosize bio\<rparr> in
         Inr (finish_bio env i (rs\<lparr>r_job := job\<rparr>) (set_stream (j_params job) rand bio), Some i))"

definition prepare_bio :: "gen_env \<Rightarrow> nat \<Rightarrow> u64 \<Rightarrow> job_run \<Rightarrow> bio \<Rightarrow> (job_run \<times> nat option) res option" where
  "prepare_bio env i rand rs bio =
     (let bio = (if b_opcode bio = bio_write_uncorrect \<and> ns_lba_shift (j_ns_info (r_job rs)) = 9
                 then bio\<lparr>b_opcode := bio_write\<rparr> else bio) in
      obnd (set_nlbs rs rand bio) (\<lambda>(rs, bio).
      let (job, bio) = set_sizes env (r_job rs) bio in
      Some (bnd (place_bio env 3 (rs\<lparr>r_job := job\<rparr>) bio) (conclude_bio env i rand))))"

text \<open>
  \<open>generate_bio\<close>: the index of the request that was prepared, or \<open>None\<close> for a null pointer. When
  the free list is empty its head is taken for a request.
\<close>

definition generate_bio :: "gen_env \<Rightarrow> job_run \<Rightarrow> (job_run \<times> nat option) res option" where
  "generate_bio env rs =
     (case j_bio_free (r_job rs) of
        [] \<Rightarrow> Some (Inl Fault)
      | i # _ \<Rightarrow>
          let (rand, r) = rand48 (j_rng (r_job rs)); rs = rs\<lparr>r_job := (r_job rs)\<lparr>j_rng := r\<rparr>\<rparr> in
          obnd (Some (bnd (arr_get (j_bio_pool (r_job rs)) i) (\<lambda>bio.
                      bnd (draw_opcode (r_job rs) rand) (\<lambda>op.
                      Inr (bio\<lparr>b_hist_idx := 0xFFFFFFFF, b_opcode := op\<rparr>))))) (\<lambda>bio.
          if b_opcode bio = bio_flush
          then Some (Inr (finish_bio env i rs (bio\<lparr>b_nlbs := 0, b_iosize := 0\<rparr>), Some i))
          else prepare_bio env i (drop_bit 7 rand) rs bio))"

section \<open>A sample job\<close>

text \<open>A job that writes one or two blocks at uniform addresses of a four-block namespace.\<close>

definition sample_job :: iogen_job where
  "sample_job = iogen_job_zero\<lparr>j_opr_lottery := replicate 100 1,
     j_lbas := replicate 6 \<lparr>lb_min_lbas = 1, lb_max_lbas = 2, lb_lbas_dist = 1, lb_align = 0\<rparr>,
     j_lba_range_size := 4, j_ns_info := iv_ns_info sample_iover,
     j_params := sample_jp\<lparr>jp_slba_type := slba_type_uniform\<rparr>,
     j_bio_pool := [(sample_bio bio_read)\<lparr>b_block_desc := iv_block_desc sample_iover\<rparr>], j_bio_free := [0]\<rparr>"

definition sample_iogen :: iogen where
  "sample_iogen = \<lparr>ig_state = iogen_state_running, ig_result = 0, ig_begin_ts = \<lparr>tv_sec = 0, tv_nsec = 0\<rparr>,
     ig_end_ts = \<lparr>tv_sec = 0, tv_nsec = 0\<rparr>, ig_njobs = 1, ig_running_job_mask = 0, ig_finished_job_mask = 0,
     ig_spor_level = 0\<rparr>"

definition sample_run :: job_run where
  "sample_run = \<lparr>r_job = sample_job, r_iogen = sample_iogen, r_iover = sample_iover, r_well = well_start\<rparr>"

definition sample_genv :: gen_env where
  "sample_genv = \<lparr>ge_below = (\<lambda>x d. False), ge_zipf_int = (\<lambda>r. (0, r)),
     ge_pr_info = (\<lambda>t. \<lparr>guard = 0, app = 0, ref = 0\<rparr>), ge_escape = (\<lambda>t i. False)\<rparr>"

end
