(* ===== verification/Journal.thy ===== *)
theory Journal
  imports IoverSubmit
begin

text \<open>
  The journal of the verifier (\<open>iover_init\<close>, \<open>iover_exit\<close> and the journal functions of
  \<open>nbio/iover.c\<close>): a header, one descriptor per block, the history ring and a footer, kept in a
  file or in a shared memory segment. What the operating system answers is the record
  \<open>init_env\<close>. Sizes are natural numbers: the byte counts of a namespace stay far below \<open>2 ^ 64\<close>.
  \<open>pread\<close> returns the bytes that are there, up to the requested count, and 0 at the end of the
  file; \<open>pwrite\<close> writes all bytes.
\<close>

definition JOURNAL_HEADER_MAGIC :: u32 where
  "JOURNAL_HEADER_MAGIC = 0x19850830"

definition JOURNAL_FOOTER_MAGIC :: u32 where
  "JOURNAL_FOOTER_MAGIC = 0x20160528"

section \<open>Byte layout\<close>

definition block_desc_bytes :: "block_desc \<Rightarrow> bytes" where
  "block_desc_bytes d = le_bytes 2 (bd_timestamp d)
     @ [ucast (bd_state d) OR push_bit 3 (ucast (bd_pattern d)), bd_flags d]"

definition block_desc_of :: "bytes \<Rightarrow> block_desc" where
  "block_desc_of bs = \<lparr>bd_timestamp = le_word (take 2 bs), bd_state = ucast (bs ! 2),
     bd_pattern = ucast (drop_bit 3 (bs ! 2)), bd_flags = bs ! 3\<rparr>"

definition hist_desc_bytes :: "hist_desc \<Rightarrow> bytes" where
  "hist_desc_bytes h = le_bytes 8 (hd_lba h) @ block_desc_bytes (hd_curr h) @ block_desc_bytes (hd_next h)"

definition hist_desc_of :: "bytes \<Rightarrow> hist_desc" where
  "hist_desc_of bs = \<lparr>hd_lba = le_word (take 8 bs), hd_curr = block_desc_of (take 4 (drop 8 bs)),
     hd_next = block_desc_of (take 4 (drop 12 bs))\<rparr>"

definition journal_header_bytes :: "journal_header \<Rightarrow> bytes" where
  "journal_header_bytes h = le_bytes 4 (jh_magic h) @ jh_sn h @ jh_eui64 h @ le_bytes 2 (jh_data_size_shift h)
     @ le_bytes 2 (jh_meta_size h) @ le_bytes 8 (jh_nlbs h) @ le_bytes 4 (jh_nhist h) @ le_bytes 4 (jh_hist_idx h)"

definition journal_header_of :: "bytes \<Rightarrow> journal_header" where
  "journal_header_of bs = \<lparr>jh_magic = le_word (take 4 bs), jh_sn = take 20 (drop 4 bs),
     jh_eui64 = take 8 (drop 24 bs), jh_data_size_shift = le_word (take 2 (drop 32 bs)),
     jh_meta_size = le_word (take 2 (drop 34 bs)), jh_nlbs = le_word (take 8 (drop 36 bs)),
     jh_nhist = le_word (take 4 (drop 44 bs)), jh_hist_idx = le_word (take 4 (drop 48 bs))\<rparr>"

definition journal_footer_bytes :: "journal_footer \<Rightarrow> bytes" where
  "journal_footer_bytes f = jf_host_writes f @ le_bytes 8 (jf_timestamp f) @ le_bytes 4 (jf_rsvd f)
     @ le_bytes 4 (jf_magic f)"

definition journal_footer_of :: "bytes \<Rightarrow> journal_footer" where
  "journal_footer_of bs = \<lparr>jf_host_writes = take 16 bs, jf_timestamp = le_word (take 8 (drop 16 bs)),
     jf_rsvd = le_word (take 4 (drop 24 bs)), jf_magic = le_word (take 4 (drop 28 bs))\<rparr>"

text \<open>An array of \<open>k\<close> elements of \<open>n\<close> bytes.\<close>

definition elems :: "nat \<Rightarrow> nat \<Rightarrow> bytes \<Rightarrow> bytes list" where
  "elems n k bs = map (\<lambda>i. take n (drop (n * i) bs)) [0..<k]"

definition journal_bytes ::
  "journal_header \<Rightarrow> block_desc list \<Rightarrow> hist_desc list \<Rightarrow> journal_footer \<Rightarrow> bytes" where
  "journal_bytes jh ds hs jf = journal_header_bytes jh @ concat (map block_desc_bytes ds)
     @ concat (map hist_desc_bytes hs) @ journal_footer_bytes jf"

definition get_journal_size :: "namespace_info \<Rightarrow> nat" where
  "get_journal_size ns = 52 + 4 * unat (ns_nlbs ns) + 16 * unat (ns_nhist ns) + 32"

section \<open>Creating a journal\<close>

definition new_journal_header :: "namespace_info \<Rightarrow> journal_header" where
  "new_journal_header ns = \<lparr>jh_magic = JOURNAL_HEADER_MAGIC, jh_sn = replicate 20 0, jh_eui64 = replicate 8 0,
     jh_data_size_shift = ucast (ns_lba_shift ns), jh_meta_size = 0, jh_nlbs = ns_nlbs ns,
     jh_nhist = ns_nhist ns, jh_hist_idx = 0\<rparr>"

definition new_journal_footer :: journal_footer where
  "new_journal_footer = \<lparr>jf_host_writes = replicate 16 0, jf_timestamp = 0, jf_rsvd = 0,
     jf_magic = JOURNAL_FOOTER_MAGIC\<rparr>"

text \<open>
  The descriptors of a new file are written from a buffer of \<open>1 << 20\<close> bytes that \<open>malloc\<close>
  returned and nothing filled: \<open>buf\<close> is its content. The result is the content of the file.
\<close>

definition create_journal_file :: "bytes \<Rightarrow> namespace_info \<Rightarrow> bytes" where
  "create_journal_file buf ns =
     journal_header_bytes (new_journal_header ns)
     @ map (\<lambda>i. buf ! (i mod 2 ^ 20)) [0..<4 * unat (ns_nlbs ns) + 16 * unat (ns_nhist ns)]
     @ journal_footer_bytes new_journal_footer"

text \<open>A new segment is zero; the header is stored into it field by field.\<close>

definition create_journal_shm :: "bytes \<Rightarrow> namespace_info \<Rightarrow> bytes res" where
  "create_journal_shm base ns =
     (let nb = 4 * unat (ns_nlbs ns); nh = 16 * unat (ns_nhist ns) in
      bnd (mem_write base 0 (le_bytes 4 JOURNAL_HEADER_MAGIC)) (\<lambda>base.
      bnd (mem_write base 32 (le_bytes 2 (ucast (ns_lba_shift ns) :: u16))) (\<lambda>base.
      bnd (mem_write base 34 (le_bytes 2 (0 :: u16))) (\<lambda>base.
      bnd (mem_write base 36 (le_bytes 8 (ns_nlbs ns))) (\<lambda>base.
      bnd (mem_write base 44 (le_bytes 4 (ns_nhist ns))) (\<lambda>base.
      bnd (mem_write base 48 (le_bytes 4 (0 :: u32))) (\<lambda>base.
      bnd (mem_write base 52 (replicate nb 0)) (\<lambda>base.
      bnd (mem_write base (52 + nb) (replicate nh 0xFF)) (\<lambda>base.
      mem_write base (52 + nb + nh) (journal_footer_bytes new_journal_footer))))))))))"

section \<open>Opening a journal\<close>

text \<open>\<open>None\<close> is the return value -1. The footer follows the descriptors of this namespace.\<close>

definition validate_journal ::
  "namespace_info \<Rightarrow> bytes \<Rightarrow> (journal_header \<times> journal_footer) option res" where
  "validate_journal ns base =
     bnd (mem_read base 0 52) (\<lambda>hb.
     let header = journal_header_of hb in
     if jh_magic header \<noteq> JOURNAL_HEADER_MAGIC then Inr None
     else if ucast (jh_data_size_shift header) \<noteq> ns_lba_shift ns then Inr None
     else if jh_nlbs header \<noteq> ns_nlbs ns then Inr None
     else if jh_nhist header \<noteq> ns_nhist ns then Inr None
     else
       bnd (mem_read base (52 + 4 * unat (ns_nlbs ns) + 16 * unat (ns_nhist ns)) 32) (\<lambda>fb.
       let footer = journal_footer_of fb in
       if jf_magic footer \<noteq> JOURNAL_FOOTER_MAGIC then Inr None else Inr (Some (header, footer))))"

text \<open>The \<open>pread\<close> loop; \<open>None\<close> means that it never ends.\<close>

partial_function (option) read_journal :: "bytes \<Rightarrow> nat \<Rightarrow> bytes \<Rightarrow> bytes option" where
  "read_journal file sz base =
     (if length base < sz
      then read_journal file sz (base @ take (sz - length base) (drop (length base) file))
      else Some base)"

record init_env =
  ie_lock_alloc :: bool
  ie_file :: "bytes option"
  ie_create_error :: "int option"
  ie_create_buf :: bytes
  ie_map :: bool
  ie_errno :: int
  ie_shm :: "bytes option"
  ie_shm_create :: bool
  ie_shm_attach :: bool
  ie_pagesize :: u64
  ie_block_alloc :: bool
  ie_hist_alloc :: bool
  ie_datagen_alloc :: bool

datatype init_out = Init_ok iover | Init_fail int

text \<open>
  The journal in memory: its bytes, or the error code. The outer option is termination of the
  read loop.
\<close>

definition open_journal_file :: "init_env \<Rightarrow> namespace_info \<Rightarrow> int + bytes" where
  "open_journal_file env ns =
     (case ie_file env of
        Some content \<Rightarrow> Inr content
      | None \<Rightarrow> (case ie_create_error env of Some e \<Rightarrow> Inl e
                 | None \<Rightarrow> Inr (create_journal_file (ie_create_buf env) ns)))"

definition load_journal :: "init_env \<Rightarrow> namespace_info \<Rightarrow> (int + bytes) res option" where
  "load_journal env ns =
     (if ns_journal_file ns \<noteq> None then
        case open_journal_file env ns of
          Inl e \<Rightarrow> Some (Inr (Inl e))
        | Inr content \<Rightarrow>
            if \<not> ie_map env then Some (Inr (Inl (ie_errno env)))
            else if ns_journal_file_mmap ns then Some (Inr (Inr content))
            else map_option (\<lambda>b. Inr (Inr b)) (read_journal content (get_journal_size ns) [])
      else
        let sz = unat (ALIGN (of_nat (get_journal_size ns)) (ie_pagesize env)) in
        case ie_shm env of
          Some seg \<Rightarrow> Some (Inr (if ie_shm_attach env then Inr seg else Inl (ie_errno env)))
        | None \<Rightarrow>
            if \<not> ie_shm_create env \<or> \<not> ie_shm_attach env then Some (Inr (Inl (ie_errno env)))
            else Some (bnd (create_journal_shm (replicate sz 0) ns) (\<lambda>seg. Inr (Inr seg))))"

definition journal_descs :: "namespace_info \<Rightarrow> bytes \<Rightarrow> (block_desc list \<times> hist_desc list) res" where
  "journal_descs ns base =
     bnd (mem_read base 52 (4 * unat (ns_nlbs ns))) (\<lambda>bb.
     bnd (mem_read base (52 + 4 * unat (ns_nlbs ns)) (16 * unat (ns_nhist ns))) (\<lambda>hb.
     Inr (map block_desc_of (elems 4 (unat (ns_nlbs ns)) bb), map hist_desc_of (elems 16 (unat (ns_nhist ns)) hb))))"

text \<open>The end of \<open>iover_init\<close>: the data generator and its metadata parameters.\<close>

definition init_datagen :: "init_env \<Rightarrow> namespace_info \<Rightarrow> iover \<Rightarrow> init_out res" where
  "init_datagen env ns iv =
     bnd (datagen_init (ie_datagen_alloc env) (ie_datagen_alloc env) (iv_datagen iv) (ns_data_size ns)
            (ns_randomize_header ns)) (\<lambda>r.
     case r of
       None \<Rightarrow> Inr (Init_fail (- 1))
     | Some dg \<Rightarrow>
         let dg = dg\<lparr>dg_meta_size := ns_meta_size ns\<rparr>;
             dg = (if ns_meta_size ns \<noteq> 0
                   then dg\<lparr>dg_pi_offset := if ns_pi_loc ns = 1 then 0 else ns_meta_size ns - 8, dg_pi_type := 1\<rparr>
                   else dg)
         in Inr (Init_ok (iv\<lparr>iv_datagen := dg\<rparr>)))"

definition zero_desc :: block_desc where
  "zero_desc = \<lparr>bd_timestamp = 0, bd_state = 0, bd_pattern = 0, bd_flags = 0\<rparr>"

definition ff_hist :: hist_desc where
  "ff_hist = \<lparr>hd_lba = - 1,
     hd_curr = \<lparr>bd_timestamp = - 1, bd_state = - 1, bd_pattern = - 1, bd_flags = - 1\<rparr>,
     hd_next = \<lparr>bd_timestamp = - 1, bd_state = - 1, bd_pattern = - 1, bd_flags = - 1\<rparr>\<rparr>"

definition iover_init :: "init_env \<Rightarrow> iover \<Rightarrow> namespace_info \<Rightarrow> init_out res option" where
  "iover_init env iv ns =
     (if \<not> ie_lock_alloc env then Some (Inr (Init_fail (- 1))) else
      let iv = iv\<lparr>iv_ns_info := ns, iv_lba_lock := replicate (BITS_TO_LONGS (unat (ns_nlbs ns))) 0\<rparr> in
      if ns_journal_file ns \<noteq> None \<or> ns_journal_shm ns \<noteq> 0 then
        map_option (\<lambda>j. bnd j (\<lambda>base. case base of
          Inl e \<Rightarrow> Inr (Init_fail e)
        | Inr base \<Rightarrow>
            bnd (validate_journal ns base) (\<lambda>v. case v of
              None \<Rightarrow> Inr (Init_fail (- 1))
            | Some (jh, jf) \<Rightarrow>
                bnd (journal_descs ns base) (\<lambda>(ds, hs).
                init_datagen env ns (iv\<lparr>iv_journal := Some (jh, jf), iv_timestamp := jf_timestamp jf,
                  iv_block_desc := ds, iv_hist_desc := hs\<rparr>)))))
          (load_journal env ns)
      else if \<not> ie_block_alloc env \<or> \<not> ie_hist_alloc env then Some (Inr (Init_fail (- 1)))
      else Some (init_datagen env ns (iv\<lparr>iv_journal := None,
             iv_block_desc := replicate (unat (ns_nlbs ns)) zero_desc,
             iv_hist_desc := replicate (unat (ns_nhist ns)) ff_hist\<rparr>)))"

section \<open>Host write counters and closing\<close>

definition iover_set_host_writes :: "iover \<Rightarrow> bytes \<Rightarrow> iover res" where
  "iover_set_host_writes iv host_writes =
     (case iv_journal iv of None \<Rightarrow> Inl Fault
      | Some (jh, jf) \<Rightarrow> bnd (mem_read host_writes 0 16) (\<lambda>hw.
          Inr (iv\<lparr>iv_journal := Some (jh, jf\<lparr>jf_host_writes := hw\<rparr>)\<rparr>)))"

definition iover_get_host_writes :: "iover \<Rightarrow> bytes res" where
  "iover_get_host_writes iv =
     (case iv_journal iv of None \<Rightarrow> Inl Fault | Some (jh, jf) \<Rightarrow> Inr (jf_host_writes jf))"

text \<open>
  What \<open>iover_exit\<close> leaves in the journal file or the segment (\<open>None\<close> without a journal), and
  the freed verifier. Only the file variant stores the timestamp.
\<close>

definition iover_exit :: "iover \<Rightarrow> bytes option \<times> iover" where
  "iover_exit iv =
     (let stored = (case iv_journal iv of
          None \<Rightarrow> None
        | Some (jh, jf) \<Rightarrow>
            if ns_journal_file (iv_ns_info iv) \<noteq> None
            then Some (journal_bytes jh (iv_block_desc iv) (iv_hist_desc iv) (jf\<lparr>jf_timestamp := iv_timestamp iv\<rparr>))
            else Some (journal_bytes jh (iv_block_desc iv) (iv_hist_desc iv) jf))
      in (stored, iv\<lparr>iv_block_desc := [], iv_lba_lock := [], iv_datagen := datagen_exit (iv_datagen iv)\<rparr>))"

section \<open>Layout lemmas\<close>

lemma length_layouts [simp, layout]:
  "length (block_desc_bytes d) = 4" "length (hist_desc_bytes h) = 16"
  by (simp_all add: block_desc_bytes_def hist_desc_bytes_def)

lemma block_desc_of_bytes [simp]: "block_desc_of (block_desc_bytes d) = d"
proof -
  have "ucast (ucast st OR push_bit 3 (ucast pa) :: u8) = st" for st :: "3 word" and pa :: "5 word"
    by (rule bit_word_eqI) (auto simp: bit_simps)
  moreover have "ucast (drop_bit 3 (ucast st OR push_bit 3 (ucast pa) :: u8)) = pa"
    for st :: "3 word" and pa :: "5 word"
    by (rule bit_word_eqI) (auto simp: bit_simps dest: bit_imp_le_length)
  ultimately show ?thesis
    by (cases d) (simp add: block_desc_of_def block_desc_bytes_def le_word_le_bytes nth_append)
qed

lemma hist_desc_of_bytes [simp]: "hist_desc_of (hist_desc_bytes h) = h"
  by (cases h) (simp add: hist_desc_of_def hist_desc_bytes_def le_word_le_bytes)

definition header_wf :: "journal_header \<Rightarrow> bool" where
  "header_wf h \<longleftrightarrow> length (jh_sn h) = 20 \<and> length (jh_eui64 h) = 8"

definition footer_wf :: "journal_footer \<Rightarrow> bool" where
  "footer_wf f \<longleftrightarrow> length (jf_host_writes f) = 16"

lemma length_journal_header [layout]: "header_wf h \<Longrightarrow> length (journal_header_bytes h) = 52"
  by (simp add: journal_header_bytes_def header_wf_def)

lemma length_journal_footer [layout]: "footer_wf f \<Longrightarrow> length (journal_footer_bytes f) = 32"
  by (simp add: journal_footer_bytes_def footer_wf_def)

lemma journal_header_of_bytes: "header_wf h \<Longrightarrow> journal_header_of (journal_header_bytes h) = h"
  by (cases h) (simp add: journal_header_of_def journal_header_bytes_def header_wf_def le_word_le_bytes)

lemma journal_footer_of_bytes: "footer_wf f \<Longrightarrow> journal_footer_of (journal_footer_bytes f) = f"
  by (cases f) (simp add: journal_footer_of_def journal_footer_bytes_def footer_wf_def le_word_le_bytes)

lemma elems_concat:
  assumes "\<And>x. x \<in> set xs \<Longrightarrow> length (f x) = n"
  shows "elems n (length xs) (concat (map f xs)) = map f xs"
  using assms
proof (induction xs)
  case Nil
  then show ?case by (simp add: elems_def)
next
  case (Cons x xs)
  then have l: "length (f x) = n" by simp
  have "elems n (Suc (length xs)) (f x @ concat (map f xs)) = f x # elems n (length xs) (concat (map f xs))"
    using l by (simp add: elems_def upt_conv_Cons map_Suc_upt[symmetric] comp_def del: upt_Suc)
  then show ?case using Cons by simp
qed

lemma length_concat_const: "(\<And>x. length (f x) = n) \<Longrightarrow> length (concat (map f xs)) = n * length xs"
  by (induction xs) simp_all

section \<open>The read loop\<close>

lemma read_journal_complete:
  assumes "sz \<le> length fl" and "base = take k fl" and "k \<le> sz"
  shows "read_journal fl sz base = Some (take sz fl)"
proof (cases "length base < sz")
  case True
  have lb: "length base = k" using assms by simp
  have "base @ take (sz - length base) (drop (length base) fl) = take sz fl"
    using assms lb take_add[of k "sz - k" fl] by simp
  moreover have "read_journal fl sz (take sz fl) = Some (take sz fl)"
    using assms(1) by (subst read_journal.simps) simp
  ultimately show ?thesis using True by (subst read_journal.simps) simp
next
  case False
  then have "base = take sz fl" using assms by simp
  then show ?thesis using False by (subst read_journal.simps) simp
qed

lemma read_journal_truncated_aux:
  assumes "read_journal fl sz base = Some y"
  shows "length fl < sz \<longrightarrow> length base \<le> length fl \<longrightarrow> False"
proof (rule read_journal.raw_induct[OF _ assms], intro impI, goal_cases)
  case (1 rec fl sz base y)
  let ?b = "base @ take (sz - length base) (drop (length base) fl)"
  have "length base < sz" and le: "length ?b \<le> length fl" using 1(3,4) by auto
  then have "rec fl sz ?b = Some y" using 1(2) by simp
  from 1(1)[OF this] 1(3) le show ?case by blast
qed

lemma read_journal_truncated: "length fl < sz \<Longrightarrow> read_journal fl sz [] = None"
  using read_journal_truncated_aux[of fl sz "[]"] by (cases "read_journal fl sz []") auto

section \<open>Opening what was stored\<close>

definition journal_matches :: "namespace_info \<Rightarrow> journal_header \<Rightarrow> journal_footer \<Rightarrow> bool" where
  "journal_matches ns jh jf \<longleftrightarrow> header_wf jh \<and> footer_wf jf \<and>
     jh_magic jh = JOURNAL_HEADER_MAGIC \<and> jf_magic jf = JOURNAL_FOOTER_MAGIC \<and>
     ucast (jh_data_size_shift jh) = ns_lba_shift ns \<and> jh_nlbs jh = ns_nlbs ns \<and> jh_nhist jh = ns_nhist ns"

lemma stored_journal:
  assumes m: "journal_matches ns jh jf" and l: "length ds = unat (ns_nlbs ns)" "length hs = unat (ns_nhist ns)"
  shows "length (journal_bytes jh ds hs jf) = get_journal_size ns"
    and "validate_journal ns (journal_bytes jh ds hs jf @ rest) = Inr (Some (jh, jf))"
    and "journal_descs ns (journal_bytes jh ds hs jf @ rest) = Inr (ds, hs)"
proof -
  have lh: "length (journal_header_bytes jh) = 52" and lf: "length (journal_footer_bytes jf) = 32"
    using m by (simp_all add: journal_matches_def length_journal_header length_journal_footer)
  have lb: "length (concat (map block_desc_bytes ds)) = 4 * unat (ns_nlbs ns)"
    and lhs: "length (concat (map hist_desc_bytes hs)) = 16 * unat (ns_nhist ns)"
    using length_concat_const[of block_desc_bytes 4] length_concat_const[of hist_desc_bytes 16] l by simp_all
  show "length (journal_bytes jh ds hs jf) = get_journal_size ns"
    using lh lf lb lhs by (simp add: journal_bytes_def get_journal_size_def)
  show "validate_journal ns (journal_bytes jh ds hs jf @ rest) = Inr (Some (jh, jf))"
    using lh lf lb lhs m
    by (simp add: validate_journal_def journal_bytes_def journal_matches_def journal_header_of_bytes
        journal_footer_of_bytes Let_def)
  have "elems 4 (unat (ns_nlbs ns)) (concat (map block_desc_bytes ds)) = map block_desc_bytes ds"
    "elems 16 (unat (ns_nhist ns)) (concat (map hist_desc_bytes hs)) = map hist_desc_bytes hs"
    using elems_concat[of ds block_desc_bytes 4] elems_concat[of hs hist_desc_bytes 16] l by simp_all
  then show "journal_descs ns (journal_bytes jh ds hs jf @ rest) = Inr (ds, hs)"
    using lh lf lb lhs by (simp add: journal_descs_def journal_bytes_def comp_def)
qed

section \<open>Initialisation\<close>

text \<open>A namespace the verifier supports.\<close>

definition ns_wf :: "namespace_info \<Rightarrow> bool" where
  "ns_wf ns \<longleftrightarrow>
     (let ds = unat (ns_data_size ns); ms = unat (ns_meta_size ns) in
      40 \<le> ds \<and> NUM_PATTERNS * ds < 2 ^ 32 \<and>
      unat (ns_block_size ns) = ds + (if ns_extended_lba ns then ms else 0) \<and>
      (ms \<noteq> 0 \<longrightarrow> 8 \<le> ms \<and> ms \<le> 64 \<and> ms \<le> ds \<and> ns_pi_loc ns \<in> {0, 1}))"

lemma init_datagen_ok:
  assumes wf: "ns_wf ns" and env: "ie_datagen_alloc env" and ns: "iv_ns_info iv = ns"
  shows "\<exists>dg. init_datagen env ns iv = Inr (Init_ok (iv\<lparr>iv_datagen := dg\<rparr>)) \<and> iover_ok (iv\<lparr>iv_datagen := dg\<rparr>)"
proof -
  let ?ds = "ns_data_size ns" and ?ms = "ns_meta_size ns"
  have w: "40 \<le> unat ?ds" "NUM_PATTERNS * unat ?ds < 2 ^ 32"
    "unat (ns_block_size ns) = unat ?ds + (if ns_extended_lba ns then unat ?ms else 0)"
    and wm: "?ms \<noteq> 0 \<Longrightarrow> 8 \<le> unat ?ms \<and> unat ?ms \<le> 64 \<and> unat ?ms \<le> unat ?ds \<and> ns_pi_loc ns \<in> {0, 1}"
    using wf by (auto simp: ns_wf_def Let_def unat_eq_0)
  obtain dg where dg: "datagen_init True True (iv_datagen iv) ?ds (ns_randomize_header ns) = Inr (Some dg)"
    "dg_shape ?ds dg"
    using datagen_init_ok[OF w(1,2)] by blast
  define d where "d = (if ?ms \<noteq> 0
      then dg\<lparr>dg_meta_size := ?ms, dg_pi_offset := if ns_pi_loc ns = 1 then 0 else ?ms - 8, dg_pi_type := 1\<rparr>
      else dg\<lparr>dg_meta_size := ?ms\<rparr>)"
  have i: "init_datagen env ns iv = Inr (Init_ok (iv\<lparr>iv_datagen := d\<rparr>))"
    using dg(1) env by (simp add: init_datagen_def d_def Let_def)
  have sh: "dg_shape ?ds d" using dg(2) by (simp add: dg_shape_def d_def)
  have "meta_ok d" if "?ms \<noteq> 0"
  proof -
    have "unat (?ms - 8) = unat ?ms - 8" using wm[OF that] by (simp add: unat_sub word_le_nat_alt)
    then show ?thesis using wm[OF that] that sh by (auto simp: meta_ok_def d_def dg_shape_def PI_SIZE_def)
  qed
  then have "iover_ok (iv\<lparr>iv_datagen := d\<rparr>)"
    using dg_shape_ok[OF sh w(1)] sh w(3) wm ns
    by (auto simp: iover_ok_def Let_def dg_shape_def NUM_PATTERNS_def d_def)
  then show ?thesis using i by blast
qed

lemma locked_zero: "locked (replicate n 0) = {}"
  by (auto simp: locked_def)

text \<open>Opening a journal whose bytes begin with a stored one.\<close>

lemma iover_init_journal:
  assumes wf: "ns_wf ns" and env: "ie_lock_alloc env" "ie_datagen_alloc env"
    and j: "ns_journal_file ns \<noteq> None \<or> ns_journal_shm ns \<noteq> 0"
    and m: "journal_matches ns jh jf" and l: "length ds = unat (ns_nlbs ns)" "length hs = unat (ns_nhist ns)"
    and ld: "load_journal env ns = Some (Inr (Inr (journal_bytes jh ds hs jf @ rest)))"
  shows "\<exists>iv'. iover_init env iv ns = Some (Inr (Init_ok iv')) \<and> iover_ok iv' \<and>
    iv_block_desc iv' = ds \<and> iv_hist_desc iv' = hs \<and> iv_timestamp iv' = jf_timestamp jf \<and>
    iv_journal iv' = Some (jh, jf) \<and> locked (iv_lba_lock iv') = {}"
proof -
  define iv1 where "iv1 = iv\<lparr>iv_ns_info := ns, iv_lba_lock := replicate (BITS_TO_LONGS (unat (ns_nlbs ns))) 0,
    iv_journal := Some (jh, jf), iv_timestamp := jf_timestamp jf, iv_block_desc := ds, iv_hist_desc := hs\<rparr>"
  obtain dg where dg: "init_datagen env ns iv1 = Inr (Init_ok (iv1\<lparr>iv_datagen := dg\<rparr>))"
    "iover_ok (iv1\<lparr>iv_datagen := dg\<rparr>)"
    using init_datagen_ok[OF wf env(2), of iv1] by (auto simp: iv1_def)
  have i: "iover_init env iv ns = Some (Inr (Init_ok (iv1\<lparr>iv_datagen := dg\<rparr>)))"
    using env(1) j ld dg(1) stored_journal(2,3)[OF m l, of rest]
    by (simp add: iover_init_def Let_def iv1_def)
  show ?thesis
    by (rule exI[of _ "iv1\<lparr>iv_datagen := dg\<rparr>"], intro conjI i dg(2))
       (simp_all add: iv1_def locked_zero)
qed

section \<open>Properties\<close>

lemma iover_init_ready:
  assumes "ns_wf ns" and "ns_journal_file ns = None" and "ns_journal_shm ns = 0"
    and "ie_lock_alloc env" and "ie_block_alloc env" and "ie_hist_alloc env" and "ie_datagen_alloc env"
  shows "\<exists>iv'. iover_init env iv ns = Some (Inr (Init_ok iv')) \<and> iover_ok iv' \<and> iv_ns_info iv' = ns \<and>
    iv_lba_lock iv' = replicate (BITS_TO_LONGS (unat (ns_nlbs ns))) 0 \<and>
    iv_block_desc iv' = replicate (unat (ns_nlbs ns)) zero_desc \<and> iv_hist_desc iv' = replicate (unat (ns_nhist ns)) ff_hist"
proof -
  define iv1 where "iv1 = iv\<lparr>iv_ns_info := ns, iv_lba_lock := replicate (BITS_TO_LONGS (unat (ns_nlbs ns))) 0,
    iv_journal := None, iv_block_desc := replicate (unat (ns_nlbs ns)) zero_desc,
    iv_hist_desc := replicate (unat (ns_nhist ns)) ff_hist\<rparr>"
  obtain dg where dg: "init_datagen env ns iv1 = Inr (Init_ok (iv1\<lparr>iv_datagen := dg\<rparr>))"
    "iover_ok (iv1\<lparr>iv_datagen := dg\<rparr>)"
    using init_datagen_ok[OF assms(1,7), of iv1] by (auto simp: iv1_def)
  have i: "iover_init env iv ns = Some (Inr (Init_ok (iv1\<lparr>iv_datagen := dg\<rparr>)))"
    using assms dg(1) by (simp add: iover_init_def Let_def iv1_def)
  show ?thesis
    by (rule exI[of _ "iv1\<lparr>iv_datagen := dg\<rparr>"], intro conjI i dg(2)) (simp_all add: iv1_def)
qed

text \<open>Without a journal the verifier starts ready: the generator and the namespace fit
  together, every block is unwritten, the history is empty and nothing is locked.\<close>

theorem iover_init_fresh:
  assumes "ns_wf ns" and "ns_journal_file ns = None" and "ns_journal_shm ns = 0"
    and "ie_lock_alloc env" and "ie_block_alloc env" and "ie_hist_alloc env" and "ie_datagen_alloc env"
  shows "\<exists>iv'. iover_init env iv ns = Some (Inr (Init_ok iv')) \<and> iover_ok iv' \<and>
    iv_block_desc iv' = replicate (unat (ns_nlbs ns)) zero_desc \<and>
    iv_hist_desc iv' = replicate (unat (ns_nhist ns)) ff_hist \<and> locked (iv_lba_lock iv') = {}"
  using iover_init_ready[OF assms, of iv] locked_zero by metis

definition sample_env :: init_env where
  "sample_env = \<lparr>ie_lock_alloc = True, ie_file = None, ie_create_error = None, ie_create_buf = [],
     ie_map = True, ie_errno = 12, ie_shm = None, ie_shm_create = True, ie_shm_attach = True,
     ie_pagesize = 4096, ie_block_alloc = True, ie_hist_alloc = True, ie_datagen_alloc = True\<rparr>"

definition sample_ns :: namespace_info where
  "sample_ns = namespace_zero\<lparr>ns_data_size := 512, ns_meta_size := 8, ns_block_size := 512, ns_lba_shift := 9,
     ns_nlbs := 2, ns_nhist := 1\<rparr>"

lemma sample_ns_wf: "ns_wf sample_ns"
  by (simp add: ns_wf_def sample_ns_def namespace_zero_def NUM_PATTERNS_def)

theorem iover_init_fresh_witness:
  "\<exists>iv'. iover_init sample_env sample_iover sample_ns = Some (Inr (Init_ok iv')) \<and> iover_ok iv' \<and>
    iv_block_desc iv' = replicate (unat (ns_nlbs sample_ns)) zero_desc \<and>
    iv_hist_desc iv' = replicate (unat (ns_nhist sample_ns)) ff_hist \<and> locked (iv_lba_lock iv') = {}"
  by (rule iover_init_fresh[OF sample_ns_wf]) (simp_all add: sample_env_def sample_ns_def namespace_zero_def)

text \<open>C31: A journal file survives a restart. What \<open>iover_exit\<close> stores, mapped or copied, is what
  \<open>iover_init\<close> finds: all block descriptors, the history with its index, the host write counter and
  the timestamp are those of the finished run.\<close>

theorem journal_file_roundtrip:
  assumes "ns_wf ns" and "iv_ns_info iv = ns" and "ns_journal_file ns \<noteq> None"
    and "iv_journal iv = Some (jh, jf)" and "journal_matches ns jh jf"
    and "length (iv_block_desc iv) = unat (ns_nlbs ns)" and "length (iv_hist_desc iv) = unat (ns_nhist ns)"
    and "ie_file env = fst (iover_exit iv)" and "ie_lock_alloc env" and "ie_map env" and "ie_datagen_alloc env"
  shows "\<exists>iv'. iover_init env iv0 ns = Some (Inr (Init_ok iv')) \<and> iover_ok iv' \<and>
    iv_block_desc iv' = iv_block_desc iv \<and> iv_hist_desc iv' = iv_hist_desc iv \<and>
    iv_timestamp iv' = iv_timestamp iv \<and>
    iv_journal iv' = Some (jh, jf\<lparr>jf_timestamp := iv_timestamp iv\<rparr>) \<and> locked (iv_lba_lock iv') = {}"
proof -
  let ?jf = "jf\<lparr>jf_timestamp := iv_timestamp iv\<rparr>"
  let ?b = "journal_bytes jh (iv_block_desc iv) (iv_hist_desc iv) ?jf"
  have m: "journal_matches ns jh ?jf" using assms(5) by (simp add: journal_matches_def footer_wf_def)
  have ex: "ie_file env = Some ?b" using assms(2,3,4,8) by (simp add: iover_exit_def)
  have "read_journal ?b (get_journal_size ns) [] = Some (take (get_journal_size ns) ?b)"
    by (rule read_journal_complete[where k = 0]) (use stored_journal(1)[OF m assms(6,7)] in simp_all)
  then have "read_journal ?b (get_journal_size ns) [] = Some ?b"
    using stored_journal(1)[OF m assms(6,7)] by simp
  then have "load_journal env ns = Some (Inr (Inr (?b @ [])))"
    using assms(3,10) ex by (simp add: load_journal_def open_journal_file_def)
  from iover_init_journal[OF assms(1,9,11) disjI1[OF assms(3)] m assms(6,7) this, of iv0]
  show ?thesis by simp
qed

definition journal_iover :: iover where
  "journal_iover = sample_iover\<lparr>iv_ns_info := sample_ns\<lparr>ns_journal_file := Some ''j''\<rparr>,
     iv_block_desc := replicate 2 zero_desc, iv_hist_desc := [ff_hist],
     iv_journal := Some (new_journal_header sample_ns, new_journal_footer), iv_timestamp := 77\<rparr>"

lemma new_journal_matches: "journal_matches sample_ns (new_journal_header sample_ns) new_journal_footer"
  by (simp add: journal_matches_def header_wf_def footer_wf_def new_journal_header_def new_journal_footer_def
      sample_ns_def namespace_zero_def)

theorem journal_file_roundtrip_witness:
  "\<exists>iv'. iover_init (sample_env\<lparr>ie_file := fst (iover_exit journal_iover)\<rparr>) sample_iover (sample_ns\<lparr>ns_journal_file := Some ''j''\<rparr>) =
      Some (Inr (Init_ok iv')) \<and> iover_ok iv' \<and>
    iv_block_desc iv' = iv_block_desc journal_iover \<and> iv_hist_desc iv' = iv_hist_desc journal_iover \<and>
    iv_timestamp iv' = iv_timestamp journal_iover \<and>
    iv_journal iv' = Some (new_journal_header sample_ns, new_journal_footer\<lparr>jf_timestamp := iv_timestamp journal_iover\<rparr>) \<and>
    locked (iv_lba_lock iv') = {}"
proof (rule journal_file_roundtrip)
  show "ns_wf (sample_ns\<lparr>ns_journal_file := Some ''j''\<rparr>)" using sample_ns_wf by (simp add: ns_wf_def)
  show "journal_matches (sample_ns\<lparr>ns_journal_file := Some ''j''\<rparr>) (new_journal_header sample_ns) new_journal_footer"
    using new_journal_matches by (simp add: journal_matches_def)
qed (simp_all add: journal_iover_def sample_env_def sample_ns_def namespace_zero_def)

text \<open>C35: Opening a journal file that is shorter than the namespace needs, without mapping it,
  never returns: \<open>pread\<close> yields 0 at the end of the file and the loop does not notice.\<close>

theorem truncated_journal_hangs:
  assumes "ns_journal_file ns \<noteq> None" and "\<not> ns_journal_file_mmap ns" and "ie_file env = Some content"
    and "length content < get_journal_size ns" and "ie_lock_alloc env" and "ie_map env"
  shows "iover_init env iv ns = None"
  using assms read_journal_truncated[OF assms(4)]
  by (simp add: iover_init_def load_journal_def open_journal_file_def Let_def)

theorem truncated_journal_hangs_witness:
  "iover_init (sample_env\<lparr>ie_file := Some [1, 2, 3]\<rparr>) sample_iover (sample_ns\<lparr>ns_journal_file := Some ''j''\<rparr>) = None"
  by (rule truncated_journal_hangs[where content = "[1, 2, 3]"])
     (simp_all add: sample_env_def get_journal_size_def sample_ns_def namespace_zero_def)

text \<open>A journal in shared memory keeps the descriptors and the history, but not the
  timestamp: the next run starts from the timestamp the footer had when this run started, so the
  timestamps of new writes repeat those of earlier ones.\<close>

theorem journal_shm_timestamp_lost:
  assumes "ns_wf ns" and "iv_ns_info iv = ns" and "ns_journal_file ns = None" and "ns_journal_shm ns \<noteq> 0"
    and "iv_journal iv = Some (jh, jf)" and "journal_matches ns jh jf"
    and "length (iv_block_desc iv) = unat (ns_nlbs ns)" and "length (iv_hist_desc iv) = unat (ns_nhist ns)"
    and "ie_shm env = fst (iover_exit iv)" and "ie_lock_alloc env" and "ie_shm_attach env" and "ie_datagen_alloc env"
  shows "\<exists>iv'. iover_init env iv0 ns = Some (Inr (Init_ok iv')) \<and> iover_ok iv' \<and>
    iv_block_desc iv' = iv_block_desc iv \<and> iv_hist_desc iv' = iv_hist_desc iv \<and>
    iv_timestamp iv' = jf_timestamp jf \<and> iv_journal iv' = Some (jh, jf) \<and> locked (iv_lba_lock iv') = {}"
proof -
  have "load_journal env ns = Some (Inr (Inr (journal_bytes jh (iv_block_desc iv) (iv_hist_desc iv) jf @ [])))"
    using assms(2,3,5,9,11) by (simp add: load_journal_def iover_exit_def Let_def)
  from iover_init_journal[OF assms(1,10,12) disjI2[OF assms(4)] assms(6-8) this, of iv0]
  show ?thesis .
qed

theorem journal_shm_timestamp_lost_witness:
  "\<exists>iv'. iover_init (sample_env\<lparr>ie_shm := fst (iover_exit (journal_iover\<lparr>iv_ns_info := sample_ns\<lparr>ns_journal_shm := 5\<rparr>\<rparr>))\<rparr>)
      sample_iover (sample_ns\<lparr>ns_journal_shm := 5\<rparr>) = Some (Inr (Init_ok iv')) \<and> iover_ok iv' \<and>
    iv_block_desc iv' = iv_block_desc (journal_iover\<lparr>iv_ns_info := sample_ns\<lparr>ns_journal_shm := 5\<rparr>\<rparr>) \<and>
    iv_hist_desc iv' = iv_hist_desc (journal_iover\<lparr>iv_ns_info := sample_ns\<lparr>ns_journal_shm := 5\<rparr>\<rparr>) \<and>
    iv_timestamp iv' = jf_timestamp new_journal_footer \<and>
    iv_journal iv' = Some (new_journal_header sample_ns, new_journal_footer) \<and> locked (iv_lba_lock iv') = {}"
proof (rule journal_shm_timestamp_lost)
  show "ns_wf (sample_ns\<lparr>ns_journal_shm := 5\<rparr>)" using sample_ns_wf by (simp add: ns_wf_def)
  show "journal_matches (sample_ns\<lparr>ns_journal_shm := 5\<rparr>) (new_journal_header sample_ns) new_journal_footer"
    using new_journal_matches by (simp add: journal_matches_def)
qed (simp_all add: journal_iover_def sample_env_def sample_ns_def namespace_zero_def)

end
