(* ===== verification/IogenRun.thy ===== *)
theory IogenRun
  imports IogenGen Journal "HOL-Library.Multiset"
begin

text \<open>
  The life of a job thread (\<open>nbio/iogen.c\<close>): completion of a request (\<open>bio_end\<close>), the stop
  condition, begin, end and reset of a job, one iteration of the loop of \<open>iogen_job_runner\<close>, and the
  loop that drains the requests in flight at its end. The engine is the record of its operations
  (\<open>struct ioengine_ops\<close>) on an engine state; a poll gets the completion callback as an argument. Log
  output and the i/o trace are left out.
\<close>

section \<open>Completion of a request\<close>

record end_env =
  ee_now :: timespec
  ee_below :: "u64 \<Rightarrow> decimal \<Rightarrow> bool"
  ee_junk :: bytes

text \<open>A miscompare is injected by changing one byte of what was read.\<close>

definition inject_miscompare :: "end_env \<Rightarrow> iogen_job \<Rightarrow> bio \<Rightarrow> (iogen_job \<times> bio) res" where
  "inject_miscompare env job bio =
     (if (b_opcode bio = bio_read \<or> b_opcode bio = bio_identify) \<and>
         dec_significant (jp_inject_miscompare (j_params job)) \<noteq> 0 then
        let (x, r) = rand64 (j_rng job) in
        if ee_below env x (jp_inject_miscompare (j_params job)) then
          bnd (rng_uniform_u48 r (ucast (ns_data_size (j_ns_info job) * b_nlbs bio))) (\<lambda>(off, r).
          let off = unat (ucast off :: u32) in
          bnd (arr_get (b_data bio) off) (\<lambda>v.
          Inr (job\<lparr>j_rng := r\<rparr>, bio\<lparr>b_data := (b_data bio)[off := v XOR 0x77]\<rparr>)))
        else Inr (job\<lparr>j_rng := r\<rparr>, bio)
      else Inr (job, bio))"

text \<open>Accounting and verification of a completed request; a failed check ends the process.\<close>

definition verify_end :: "end_env \<Rightarrow> job_run \<Rightarrow> bio \<Rightarrow> (job_run \<times> bio) res" where
  "verify_end env rs bio =
     (let job = r_job rs in
      bnd (acct_bio_end (j_acct job) bio (timespec_sub (b_end_ts bio) (b_begin_ts bio))) (\<lambda>acct.
      bnd (inject_miscompare env (job\<lparr>j_acct := acct\<rparr>) bio) (\<lambda>(job, bio).
      bnd (iover_submit (ee_junk env) (r_iover rs)
             \<lparr>vj_params = j_params job, vj_identify_valid = j_identify_valid job, vj_identify = j_identify job,
              vj_iogen_result = ig_result (r_iogen rs)\<rparr> bio) (\<lambda>(res, iover, bio, vj).
      if res \<noteq> 0 then Inl (Exit 1)
      else Inr (rs\<lparr>r_job := job\<lparr>j_identify := vj_identify vj, j_identify_valid := vj_identify_valid vj\<rparr>,
                  r_iogen := (r_iogen rs)\<lparr>ig_result := vj_iogen_result vj\<rparr>, r_iover := iover\<rparr>, bio)))))"

definition bio_end :: "end_env \<Rightarrow> nat \<Rightarrow> job_run \<Rightarrow> job_run res" where
  "bio_end env i rs =
     bnd (arr_get (j_bio_pool (r_job rs)) i) (\<lambda>bio.
     let bio = bio\<lparr>b_end_ts := ee_now env\<rparr> in
     bnd (if bio_opcode_num (b_opcode bio) \<le> bio_opcode_num bio_identify then verify_end env rs bio
          else Inr (rs, bio)) (\<lambda>(rs, bio).
     let job = r_job rs in
     Inr (rs\<lparr>r_job := job\<lparr>j_bio_pool := (j_bio_pool job)[i := bio], j_bio_inflight := remove1 i (j_bio_inflight job),
            j_bio_free := i # j_bio_free job, j_num_inflight := j_num_inflight job - 1\<rparr>\<rparr>)))"

text \<open>The engine stores the result and calls \<open>bio->end\<close>; each request has its own surroundings.\<close>

definition complete :: "(nat \<Rightarrow> end_env) \<Rightarrow> nat \<Rightarrow> int \<Rightarrow> job_run \<Rightarrow> job_run res" where
  "complete env i result rs =
     (let job = r_job rs in
      bnd (arr_get (j_bio_pool job) i) (\<lambda>bio.
      bio_end (env i) i (rs\<lparr>r_job := job\<lparr>j_bio_pool := (j_bio_pool job)[i := bio\<lparr>b_result := result\<rparr>]\<rparr>\<rparr>)))"

section \<open>The engine\<close>

text \<open>A missing operation is \<open>None\<close>; calling it without a check is a fault.\<close>

record 'e engine_ops =
  eo_name :: string
  eo_begin :: "('e \<Rightarrow> int \<times> 'e) option"
  eo_end :: "('e \<Rightarrow> 'e) option"
  eo_reset :: "('e \<Rightarrow> 'e) option"
  eo_reinit :: "('e \<Rightarrow> int \<times> 'e) option"
  eo_enqueue :: "'e \<Rightarrow> nat \<Rightarrow> bio \<Rightarrow> (int \<times> 'e) res"
  eo_submit :: "'e \<Rightarrow> (int \<times> 'e) res"
  eo_poll :: "u32 \<Rightarrow> u32 \<Rightarrow> (nat \<Rightarrow> int \<Rightarrow> job_run \<Rightarrow> job_run res) \<Rightarrow> 'e \<Rightarrow> job_run \<Rightarrow> ('e \<times> job_run) res option"

definition null_ops :: "nat null_io_queue engine_ops" where
  "null_ops = \<lparr>eo_name = ''null'', eo_begin = None, eo_end = None, eo_reset = None, eo_reinit = None,
     eo_enqueue = (\<lambda>q i bio. null_enqueue q i), eo_submit = (\<lambda>q. Inr (null_submit, q)),
     eo_poll = (\<lambda>mn mx cb q rs. null_poll (\<lambda>i. cb i 0) mn mx q rs)\<rparr>"

section \<open>Begin, stop, reset and end of a job\<close>

text \<open>\<open>iogen_job_should_stop\<close>: the answer and the job.\<close>

definition iogen_job_should_stop :: "job_run \<Rightarrow> bool \<times> job_run" where
  "iogen_job_should_stop rs =
     (let job = r_job rs; s = ia_sum (j_acct job) in
      if ig_state (r_iogen rs) \<noteq> iogen_state_running
      then (True, rs\<lparr>r_job := job\<lparr>j_state := iogen_job_state_aborting\<rparr>\<rparr>)
      else (case jp_amount_type (j_params job) of
              amount_type_time \<Rightarrow> j_timeout job
            | amount_type_io \<Rightarrow> oa_ops s \<ge> jp_amount (j_params job)
            | amount_type_byte \<Rightarrow> oa_bytes s \<ge> jp_amount (j_params job)
            | amount_type_infinite \<Rightarrow> False, rs))"

definition job_bit :: "iogen_job \<Rightarrow> u64" where
  "job_bit job = push_bit (unat (j_id job - 1)) 1"

text \<open>\<open>iogen_job_wait\<close> only blocks on the condition variable of the job it depends on.\<close>

definition iogen_job_wait :: "iogen_job \<Rightarrow> iogen_job" where
  "iogen_job_wait job = job\<lparr>j_state := iogen_job_state_waiting\<rparr>"

definition iogen_job_begin ::
  "'e engine_ops \<Rightarrow> timespec \<Rightarrow> 'e \<Rightarrow> job_run \<Rightarrow> (int \<times> 'e \<times> job_run) res" where
  "iogen_job_begin ops now e rs =
     (let rs = rs\<lparr>r_iogen := (r_iogen rs)\<lparr>ig_running_job_mask := ig_running_job_mask (r_iogen rs) OR job_bit (r_job rs)\<rparr>\<rparr>;
          (res, e) = (case eo_begin ops of None \<Rightarrow> (0, e) | Some f \<Rightarrow> f e) in
      if res \<noteq> 0 then
        Inr (res, e, rs\<lparr>r_job := (r_job rs)\<lparr>j_state := iogen_job_state_aborting\<rparr>,
                       r_iogen := (r_iogen rs)\<lparr>ig_result := res\<rparr>\<rparr>)
      else
        let job = (r_job rs)\<lparr>j_begin_ts := now, j_state := iogen_job_state_running\<rparr> in
        if ns_nhist (j_ns_info job) > 0 then
          (case iv_journal (r_iover rs) of None \<Rightarrow> Inl Fault
           | Some (jh, jf) \<Rightarrow>
               Inr (0, e, rs\<lparr>r_job := job\<lparr>j_replay_hist_idx := jh_hist_idx jh, j_replay_hist_cnt := jh_nhist jh\<rparr>\<rparr>))
        else Inr (0, e, rs\<lparr>r_job := job\<rparr>))"

text \<open>\<open>popcount\<close> counts the bits of a mask.\<close>

definition popcount :: "u64 \<Rightarrow> nat" where
  "popcount x = length (filter (\<lambda>n. bit x n) [0..<64])"

text \<open>
  \<open>iogen_job_end\<close>, as one thread runs it. The engine's \<open>end\<close> is skipped in the level 3 power-off
  test; waiting jobs are woken; the last job to finish marks the whole run as done.
\<close>

definition iogen_job_end :: "'e engine_ops \<Rightarrow> timespec \<Rightarrow> 'e \<Rightarrow> job_run \<Rightarrow> 'e \<times> job_run" where
  "iogen_job_end ops now e rs =
     (let e = (case eo_end ops of None \<Rightarrow> e | Some f \<Rightarrow> if ig_spor_level (r_iogen rs) < 3 then f e else e);
          job = (r_job rs)\<lparr>j_end_ts := now, j_state :=
            (if j_state (r_job rs) = iogen_job_state_aborting then iogen_job_state_aborted else iogen_job_state_done)\<rparr>;
          ig = r_iogen rs;
          ig = ig\<lparr>ig_finished_job_mask := ig_finished_job_mask ig OR job_bit job\<rparr>;
          ig = ig\<lparr>ig_running_job_mask := ig_running_job_mask ig AND NOT (job_bit job)\<rparr>;
          ig = (if popcount (ig_finished_job_mask ig) = unat (ig_njobs ig)
                then ig\<lparr>ig_end_ts := now, ig_state := iogen_state_done\<rparr> else ig) in
      (e, rs\<lparr>r_job := job, r_iogen := ig\<rparr>))"

text \<open>
  \<open>iogen_job_reinit\<close>: all requests become free again. The shift in the length of the second
  \<open>memset\<close> has the operand \<open>lba_shift * sizeof (struct block_desc)\<close>; a shift of 32 and more is taken
  modulo 32, as the processor does.
\<close>

definition reinit_bio :: "u32 \<Rightarrow> u32 \<Rightarrow> bio \<Rightarrow> bio res" where
  "reinit_bio iosz_max lba_shift bio =
     bnd (mem_write (b_data bio) 0 (replicate (unat iosz_max) 0)) (\<lambda>data.
     bnd (mem_write (concat (map block_desc_bytes (b_block_desc bio))) 0
            (replicate (unat (drop_bit (4 * unat lba_shift mod 32) iosz_max)) 0)) (\<lambda>bds.
     Inr (bio\<lparr>b_data := data, b_block_desc := map block_desc_of (elems 4 (length (b_block_desc bio)) bds)\<rparr>)))"

definition reinit_step :: "u32 \<Rightarrow> nat \<Rightarrow> iogen_job \<Rightarrow> iogen_job res" where
  "reinit_step iosz_max i job =
     bnd (arr_get (j_bio_pool job) i) (\<lambda>bio.
     bnd (reinit_bio iosz_max (ns_lba_shift (j_ns_info job)) bio) (\<lambda>bio.
     Inr (job\<lparr>j_bio_pool := (j_bio_pool job)[i := bio], j_bio_free := j_bio_free job @ [i]\<rparr>)))"

definition iogen_job_reinit ::
  "'e engine_ops \<Rightarrow> u32 \<Rightarrow> 'e \<Rightarrow> iogen_job \<Rightarrow> (int \<times> 'e \<times> iogen_job) res" where
  "iogen_job_reinit ops iosz_max e job =
     (case eo_reinit ops of None \<Rightarrow> Inl Fault
      | Some f \<Rightarrow>
          let (res, e) = f e in
          if res \<noteq> 0 then Inr (- 1, e, job) else
          bnd (for_upto 0 (unat (jp_iodepth (j_params job))) (reinit_step iosz_max)
                 (job\<lparr>j_bio_free := [], j_bio_inflight := []\<rparr>)) (\<lambda>job.
          let fx = (case jp_slba (j_params job) of Slba_fixed l \<Rightarrow> l | _ \<Rightarrow> 0);
              job = job\<lparr>j_num_inflight := 0\<rparr> in
          Inr (0, e, if jp_slba_type (j_params job) = slba_type_seq
                     then job\<lparr>j_slba_next := (fx, fx)\<rparr> else job)))"

section \<open>One iteration of the job loop\<close>

record loop_env =
  le_now :: timespec
  le_time :: int
  le_gen :: gen_env
  le_end :: "nat \<Rightarrow> end_env"
  le_iosz_max :: u32

text \<open>The time-out check of the requests in flight.\<close>

definition mark_timeout :: "timespec \<Rightarrow> nat \<Rightarrow> iogen_job \<Rightarrow> iogen_job res" where
  "mark_timeout now i job =
     bnd (arr_get (j_bio_pool job) i) (\<lambda>bio.
     if \<not> b_timeout bio \<and> timespec_sub now (b_begin_ts bio) div NSEC_PER_SEC \<ge> ucast (jp_timeout (j_params job)) then
       if jp_stop_on_timeout (j_params job) then Inl (Exit 1)
       else Inr (job\<lparr>j_bio_pool := (j_bio_pool job)[i := bio\<lparr>b_timeout := True\<rparr>]\<rparr>)
     else Inr job)"

fun check_timeouts :: "timespec \<Rightarrow> nat list \<Rightarrow> iogen_job \<Rightarrow> iogen_job res" where
  "check_timeouts now [] job = Inr job"
| "check_timeouts now (i # is) job = bnd (mark_timeout now i job) (check_timeouts now is)"

text \<open>
  The reset branch. \<open>reset_next\<close> is an unsigned 32-bit number of seconds; a failed reinitialisation
  ends the process.
\<close>

definition job_reset :: "'e engine_ops \<Rightarrow> loop_env \<Rightarrow> 'e \<Rightarrow> iogen_job \<Rightarrow> ('e \<times> iogen_job) res" where
  "job_reset ops env e job =
     (case eo_reset ops of None \<Rightarrow> Inl Fault
      | Some f \<Rightarrow>
          let job = job\<lparr>j_state := iogen_job_state_reset, j_nr_reset := j_nr_reset job + 1\<rparr> in
          bnd (iogen_job_reinit ops (le_iosz_max env) (f e) job) (\<lambda>(res, e, job).
          if res \<noteq> 0 then Inl (Exit 0)
          else if j_reset_dist job + 1 = 0 then Inl Fault else
          let (rand, r) = rand48 (j_rng job) in
          Inr (e, job\<lparr>j_state := iogen_job_state_running, j_rng := r,
                 j_reset_next := of_int (le_time env) + jp_reset_min (j_params job) +
                   ucast (rand mod ucast (j_reset_dist job + 1))\<rparr>)))"

text \<open>How an iteration ends: with the next one, or by leaving the loop after a failure.\<close>

datatype control = Continue | Break

text \<open>No request could be generated: what was enqueued is submitted, then the engine polled.\<close>

definition retry_later ::
  "'e engine_ops \<Rightarrow> loop_env \<Rightarrow> 'e \<Rightarrow> job_run \<Rightarrow> u32 \<Rightarrow> (control \<times> 'e \<times> job_run \<times> u32) res option" where
  "retry_later ops env e rs nr_enqueued =
     obnd (Some (if nr_enqueued \<noteq> 0 then eo_submit ops e else Inr (0, e))) (\<lambda>(res, e).
     if res \<noteq> 0 then Some (Inr (Break, e, rs\<lparr>r_iogen := (r_iogen rs)\<lparr>ig_result := res\<rparr>\<rparr>, nr_enqueued))
     else obnd (eo_poll ops 0 (jp_batch_complete (j_params (r_job rs))) (complete (le_end env)) e rs) (\<lambda>(e, rs).
          Some (Inr (Continue, e, rs, 0))))"

text \<open>Request \<open>i\<close> joins the requests in flight.\<close>

definition add_inflight :: "nat \<Rightarrow> job_run \<Rightarrow> job_run" where
  "add_inflight i rs =
     (let job = r_job rs in
      rs\<lparr>r_job := job\<lparr>j_num_inflight := j_num_inflight job + 1, j_bio_inflight := i # j_bio_inflight job\<rparr>\<rparr>)"

text \<open>The history is backed up; in the level 3 power-off test written blocks count as unwritten for now.\<close>

definition record_bio :: "bio \<Rightarrow> job_run \<Rightarrow> job_run res" where
  "record_bio bio rs =
     (let jp = j_params (r_job rs) in
      bnd (backup_hist_state jp (r_iover rs) bio) (\<lambda>iover.
      bnd (if ig_spor_level (r_iogen rs) \<ge> 3 \<and> b_opcode bio = bio_write
           then commit_block_state_unwritten jp iover bio else Inr iover) (\<lambda>iover.
      Inr (rs\<lparr>r_iover := iover\<rparr>))))"

definition batch_submit :: "job_params \<Rightarrow> u32" where
  "batch_submit jp = (if jp_batch_submit jp \<noteq> 0 then jp_batch_submit jp else jp_iodepth jp)"

text \<open>A generated request is enqueued; with libaio a flush has completed by then.\<close>

definition issue_bio ::
  "'e engine_ops \<Rightarrow> loop_env \<Rightarrow> 'e \<Rightarrow> job_run \<Rightarrow> u32 \<Rightarrow> nat \<Rightarrow> (control \<times> 'e \<times> job_run \<times> u32) res" where
  "issue_bio ops env e rs nr_enqueued i =
     (let job = r_job rs in
      bnd (arr_get (j_bio_pool job) i) (\<lambda>bio.
      let bio = bio\<lparr>b_begin_ts := le_now env\<rparr>;
          rs = rs\<lparr>r_job := job\<lparr>j_bio_pool := (j_bio_pool job)[i := bio]\<rparr>\<rparr> in
      bnd (eo_enqueue ops e i bio) (\<lambda>(res, e).
      if res \<noteq> 0 then Inr (Break, e, rs\<lparr>r_iogen := (r_iogen rs)\<lparr>ig_result := res\<rparr>\<rparr>, nr_enqueued)
      else if eo_name ops = ''libaio'' \<and> b_opcode bio = bio_flush then
        bnd (bio_end (le_end env i) i (add_inflight i rs)) (\<lambda>rs. Inr (Continue, e, rs, nr_enqueued))
      else
        let nr_enqueued = nr_enqueued + 1 in
        bnd (record_bio bio (add_inflight i rs)) (\<lambda>rs.
        if nr_enqueued = batch_submit (j_params (r_job rs)) \<or> j_num_inflight (r_job rs) = jp_iodepth (j_params (r_job rs)) then
          bnd (eo_submit ops e) (\<lambda>(res, e).
          if res \<noteq> 0 then Inr (Break, e, rs\<lparr>r_iogen := (r_iogen rs)\<lparr>ig_result := res\<rparr>\<rparr>, nr_enqueued)
          else Inr (Continue, e, rs, 0))
        else Inr (Continue, e, rs, nr_enqueued)))))"

definition runner_iter ::
  "'e engine_ops \<Rightarrow> loop_env \<Rightarrow> 'e \<Rightarrow> job_run \<Rightarrow> u32 \<Rightarrow> (control \<times> 'e \<times> job_run \<times> u32) res option" where
  "runner_iter ops env e rs nr_enqueued =
     obnd (Some (if jp_timeout (j_params (r_job rs)) \<noteq> 0 \<and> j_num_inflight (r_job rs) \<noteq> 0
                 then bnd (check_timeouts (le_now env) (j_bio_inflight (r_job rs)) (r_job rs)) (\<lambda>job. Inr (rs\<lparr>r_job := job\<rparr>))
                 else Inr rs)) (\<lambda>rs.
     obnd (Some (if j_reset_next (r_job rs) > 0 \<and> uint (j_reset_next (r_job rs)) < le_time env
                 then bnd (job_reset ops env e (r_job rs)) (\<lambda>(e, job). Inr (e, rs\<lparr>r_job := job\<rparr>, 0))
                 else Inr (e, rs, nr_enqueued))) (\<lambda>(e, rs, nr_enqueued).
     if j_num_inflight (r_job rs) < jp_iodepth (j_params (r_job rs)) then
       obnd (generate_bio (le_gen env) rs) (\<lambda>(rs, out).
       case out of None \<Rightarrow> retry_later ops env e rs nr_enqueued
       | Some i \<Rightarrow> Some (issue_bio ops env e rs nr_enqueued i))
     else
       obnd (eo_poll ops 0 (jp_batch_complete (j_params (r_job rs))) (complete (le_end env)) e rs) (\<lambda>(e, rs).
       Some (Inr (Continue, e, rs, nr_enqueued)))))"

text \<open>
  The loop after the last submit; \<open>env n\<close> is the surroundings of the \<open>n\<close>th poll. \<open>None\<close> means that
  it polls for ever.
\<close>

partial_function (option) drain ::
  "'e engine_ops \<Rightarrow> (nat \<Rightarrow> nat \<Rightarrow> end_env) \<Rightarrow> nat \<Rightarrow> 'e \<Rightarrow> job_run \<Rightarrow> ('e \<times> job_run) res option" where
  "drain ops env n e rs =
     (if j_num_inflight (r_job rs) > 0 \<and> ig_spor_level (r_iogen rs) < 3 then
        (case eo_poll ops 1 (jp_batch_complete (j_params (r_job rs))) (complete (env n)) e rs of
           None \<Rightarrow> None
         | Some (Inl err) \<Rightarrow> Some (Inl err)
         | Some (Inr r) \<Rightarrow> drain ops env (Suc n) (fst r) (snd r))
      else Some (Inr (e, rs)))"

section \<open>The request lists\<close>

text \<open>What decides where the requests of a job are, and the parameters.\<close>

definition job_lists :: "iogen_job \<Rightarrow> nat list \<times> nat list \<times> u32 \<times> job_params" where
  "job_lists job = (j_bio_free job, j_bio_inflight job, j_num_inflight job, j_params job)"

lemma job_lists_upd [simp]:
  "job_lists (job\<lparr>j_rng := r\<rparr>) = job_lists job" "job_lists (job\<lparr>j_acct := a\<rparr>) = job_lists job"
  "job_lists (job\<lparr>j_bio_pool := p\<rparr>) = job_lists job" "job_lists (job\<lparr>j_slba_next := nx\<rparr>) = job_lists job"
  "job_lists (job\<lparr>j_jesd219 := je\<rparr>) = job_lists job" "job_lists (job\<lparr>j_identify := d\<rparr>) = job_lists job"
  "job_lists (job\<lparr>j_identify_valid := v\<rparr>) = job_lists job" "job_lists (job\<lparr>j_state := st\<rparr>) = job_lists job"
  "job_lists (job\<lparr>j_replay_hist_idx := hi\<rparr>) = job_lists job" "job_lists (job\<lparr>j_replay_hist_cnt := hc\<rparr>) = job_lists job"
  "job_lists (sum_acct f job) = job_lists job"
  by (simp_all add: job_lists_def sum_acct_def)

lemma history_slba_lists:
  "history_slba rs bio = Inr (rs', bio') \<Longrightarrow> job_lists (r_job rs') = job_lists (r_job rs)"
  unfolding history_slba_def Let_def bnd_eq_Inr
  by (elim exE conjE, split if_split_asm) (auto simp: bnd_eq_Inr simp del: split_paired_Ex)

lemma choose_slba_lists:
  assumes "choose_slba env rs bio = Inr (rs', bio', go)"
  shows "job_lists (r_job rs') = job_lists (r_job rs)"
proof (cases "jp_slba_type (j_params (r_job rs))")
  case slba_type_seq
  then show ?thesis using assms by (simp add: choose_slba_def Let_def split: if_splits) auto
next
  case slba_type_uniform
  then show ?thesis using assms by (auto simp: choose_slba_def Let_def bnd_eq_Inr)
next
  case slba_type_zipf
  then show ?thesis using assms by (auto simp: choose_slba_def Let_def split: if_splits prod.splits)
next
  case slba_type_replay
  then show ?thesis using assms by (auto simp: choose_slba_def Let_def bnd_eq_Inr dest: history_slba_lists)
qed (use assms in \<open>auto simp: choose_slba_def Let_def\<close>)

lemma place_bio_lists:
  "place_bio env n rs bio = Inr (rs', bio', p) \<Longrightarrow> job_lists (r_job rs') = job_lists (r_job rs)"
proof (induction n arbitrary: rs bio)
  case 0
  then show ?case by simp
next
  case (Suc n)
  then show ?case
    by (auto simp: bnd_eq_Inr Let_def dest!: choose_slba_lists split: if_splits) 
qed

lemma set_nlbs_lists:
  "set_nlbs rs rand bio = Some (Inr (rs', bio')) \<Longrightarrow> job_lists (r_job rs') = job_lists (r_job rs)"
  by (auto simp: set_nlbs_def Let_def obnd_eq_Inr bnd_eq_Inr split: if_splits)

lemma set_sizes_lists: "set_sizes env job bio = (job', bio') \<Longrightarrow> job_lists job' = job_lists job"
  by (auto simp: set_sizes_def Let_def split: if_splits prod.splits)

text \<open>A generated request was the first of the free list.\<close>

definition takes :: "nat option \<Rightarrow> iogen_job \<Rightarrow> iogen_job \<Rightarrow> bool" where
  "takes out job job' \<longleftrightarrow>
     (case out of None \<Rightarrow> job_lists job' = job_lists job
      | Some i \<Rightarrow> j_bio_free job = i # j_bio_free job' \<and> j_bio_inflight job' = j_bio_inflight job \<and>
          j_num_inflight job' = j_num_inflight job \<and> j_params job' = j_params job)"

lemma finish_bio_takes:
  assumes "job_lists (r_job rs1) = job_lists (r_job rs)" and "j_bio_free (r_job rs) = i # rest"
  shows "takes (Some i) (r_job rs) (r_job (finish_bio env i rs1 b))"
proof -
  let ?j = "sum_acct (\<lambda>s. s\<lparr>oa_ops := oa_ops s + 1\<rparr>) (r_job rs1)" and ?b = "b\<lparr>b_timeout := False, b_expected_result := 0\<rparr>"
  obtain job b' where j: "inject_tag_error env ?j ?b = (job, b')" by fastforce
  then have "job_lists job = job_lists (r_job rs1)"
    by (auto simp: inject_tag_error_def Let_def split: if_splits prod.splits)
  then show ?thesis using assms j by (simp add: takes_def finish_bio_def job_lists_def)
qed

lemma generate_bio_takes:
  assumes "generate_bio env rs = Some (Inr (rs', out))"
  shows "takes out (r_job rs) (r_job rs')"
proof (cases "j_bio_free (r_job rs)")
  case Nil
  then show ?thesis using assms by (simp add: generate_bio_def)
next
  case (Cons i rest)
  obtain rand r where r: "rand48 (j_rng (r_job rs)) = (rand, r)" by fastforce
  define rs0 where "rs0 = rs\<lparr>r_job := (r_job rs)\<lparr>j_rng := r\<rparr>\<rparr>"
  have l0: "job_lists (r_job rs0) = job_lists (r_job rs)" by (simp add: rs0_def)
  consider bio where "rs' = finish_bio env i rs0 bio" "out = Some i"
    | bio where "prepare_bio env i (drop_bit 7 rand) rs0 bio = Some (Inr (rs', out))"
    using assms Cons r by (auto simp: generate_bio_def rs0_def Let_def obnd_eq_Inr bnd_eq_Inr split: if_splits)
  then show ?thesis
  proof cases
    case 1
    then show ?thesis using finish_bio_takes[OF l0 Cons] by simp
  next
    case 2
    obtain b1 rs1 b2 where n: "set_nlbs rs0 (drop_bit 7 rand) b1 = Some (Inr (rs1, b2))"
        "(let (job, b) = set_sizes env (r_job rs1) b2 in
          Some (bnd (place_bio env 3 (rs1\<lparr>r_job := job\<rparr>) b) (conclude_bio env i (drop_bit 7 rand)))) = Some (Inr (rs', out))"
      using 2 by (auto simp: prepare_bio_def Let_def obnd_eq_Inr)
    obtain job b3 where s: "set_sizes env (r_job rs1) b2 = (job, b3)" by fastforce
    obtain rs3 b4 p where p: "set_nlbs rs0 (drop_bit 7 rand) b1 = Some (Inr (rs1, b2))"
        "set_sizes env (r_job rs1) b2 = (job, b3)" "place_bio env 3 (rs1\<lparr>r_job := job\<rparr>) b3 = Inr (rs3, b4, p)"
        "conclude_bio env i (drop_bit 7 rand) (rs3, b4, p) = Inr (rs', out)"
      using n s by (auto simp: bnd_eq_Inr)
    have l3: "job_lists (r_job rs3) = job_lists (r_job rs)"
      using place_bio_lists[OF p(3)] set_sizes_lists[OF p(2)] set_nlbs_lists[OF p(1)] l0 by simp
    show ?thesis
    proof (cases p)
      case Gave_up
      then show ?thesis using p(4) l3 by (auto simp: conclude_bio_def takes_def)
    next
      case (Replay_end b)
      then show ?thesis using p(4) finish_bio_takes[OF l3 Cons] by (auto simp: conclude_bio_def)
    next
      case (Placed b)
      have "job_lists (r_job (rs3\<lparr>r_job := sum_acct f (r_job rs3)\<rparr>)) = job_lists (r_job rs)" for f using l3 by simp
      from finish_bio_takes[OF this Cons] show ?thesis using p(4) Placed by (auto simp: conclude_bio_def Let_def)
    qed
  qed
qed

end
