(* ===== verification/IogenInv.thy ===== *)
theory IogenInv
  imports IogenRun
begin

text \<open>
  The requests of a running job: each is free or in flight, and the engine holds exactly those in
  flight. What the job relies on is the contract \<open>io_engine\<close>; the null engine is shown to keep
  it. From it follow that the loop never takes a request from an empty list, that the engine
  never refuses one, and that draining ends with all requests free.
\<close>

section \<open>Completion\<close>

lemma verify_end_lists:
  "verify_end env rs bio = Inr (rs', bio') \<Longrightarrow>
   job_lists (r_job rs') = job_lists (r_job rs) \<and> ig_spor_level (r_iogen rs') = ig_spor_level (r_iogen rs)"
proof -
  assume a: "verify_end env rs bio = Inr (rs', bio')"
  obtain acct job b d v ig iv where i: "inject_miscompare env ((r_job rs)\<lparr>j_acct := acct\<rparr>) bio = Inr (job, b)"
    and r: "rs' = rs\<lparr>r_job := job\<lparr>j_identify := d, j_identify_valid := v\<rparr>,
        r_iogen := (r_iogen rs)\<lparr>ig_result := ig\<rparr>, r_iover := iv\<rparr>"
    using a by (auto simp: verify_end_def Let_def bnd_eq_Inr split: if_splits)
  have "job_lists job = job_lists (r_job rs)"
    using i by (auto simp: inject_miscompare_def Let_def bnd_eq_Inr split: if_splits prod.splits)
  then show ?thesis using r by simp
qed

lemma bio_end_lists:
  assumes "bio_end env i rs = Inr rs'"
  shows "j_bio_free (r_job rs') = i # j_bio_free (r_job rs)"
    "j_bio_inflight (r_job rs') = remove1 i (j_bio_inflight (r_job rs))"
    "j_num_inflight (r_job rs') = j_num_inflight (r_job rs) - 1" "j_params (r_job rs') = j_params (r_job rs)"
    "ig_spor_level (r_iogen rs') = ig_spor_level (r_iogen rs)"
proof -
  obtain bio rs1 bio1 where r: "(if bio_opcode_num (b_opcode bio) \<le> 6 then verify_end env rs bio else Inr (rs, bio)) = Inr (rs1, bio1)"
    and rs': "rs' = rs1\<lparr>r_job := (r_job rs1)\<lparr>j_bio_pool := (j_bio_pool (r_job rs1))[i := bio1],
        j_bio_inflight := remove1 i (j_bio_inflight (r_job rs1)), j_bio_free := i # j_bio_free (r_job rs1),
        j_num_inflight := j_num_inflight (r_job rs1) - 1\<rparr>\<rparr>"
  proof -
    obtain b where b: "arr_get (j_bio_pool (r_job rs)) i = Inr b" using assms by (auto simp: bio_end_def bnd_eq_Inr)
    then show ?thesis using assms that[of "b\<lparr>b_end_ts := ee_now env\<rparr>"] by (auto simp: bio_end_def Let_def bnd_eq_Inr)
  qed
  have "job_lists (r_job rs1) = job_lists (r_job rs) \<and> ig_spor_level (r_iogen rs1) = ig_spor_level (r_iogen rs)"
    using r verify_end_lists by (auto split: if_splits)
  then show "j_bio_free (r_job rs') = i # j_bio_free (r_job rs)"
    "j_bio_inflight (r_job rs') = remove1 i (j_bio_inflight (r_job rs))"
    "j_num_inflight (r_job rs') = j_num_inflight (r_job rs) - 1" "j_params (r_job rs') = j_params (r_job rs)"
    "ig_spor_level (r_iogen rs') = ig_spor_level (r_iogen rs)"
    unfolding rs' by (simp_all add: job_lists_def)
qed

text \<open>Where the requests of a job are: free, in flight, and nowhere twice.\<close>

definition pool_inv :: "iogen_job \<Rightarrow> bool" where
  "pool_inv job \<longleftrightarrow> distinct (j_bio_free job @ j_bio_inflight job) \<and>
     set (j_bio_free job @ j_bio_inflight job) = {..<unat (jp_iodepth (j_params job))} \<and>
     unat (j_num_inflight job) = length (j_bio_inflight job)"

lemma pool_inv_lists: "job_lists job' = job_lists job \<Longrightarrow> pool_inv job' = pool_inv job"
  by (simp add: pool_inv_def job_lists_def)

lemma unat_minus_1: "0 < unat (x :: u32) \<Longrightarrow> unat (x - 1) = unat x - 1"
  by (simp add: unat_sub word_le_nat_alt)

lemma complete_inv:
  assumes "complete env i r rs = Inr rs'" and "pool_inv (r_job rs)" and "i \<in> set (j_bio_inflight (r_job rs))"
  shows "pool_inv (r_job rs')" "mset (j_bio_inflight (r_job rs)) = add_mset i (mset (j_bio_inflight (r_job rs')))"
    "j_params (r_job rs') = j_params (r_job rs)" "ig_spor_level (r_iogen rs') = ig_spor_level (r_iogen rs)"
proof -
  obtain bio where e: "bio_end (env i) i
      (rs\<lparr>r_job := (r_job rs)\<lparr>j_bio_pool := (j_bio_pool (r_job rs))[i := bio\<lparr>b_result := r\<rparr>]\<rparr>\<rparr>) = Inr rs'"
    using assms(1) by (auto simp: complete_def Let_def bnd_eq_Inr)
  note l = bio_end_lists[OF e, simplified]
  show "mset (j_bio_inflight (r_job rs)) = add_mset i (mset (j_bio_inflight (r_job rs')))" using l(2) assms(3) by simp
  show "j_params (r_job rs') = j_params (r_job rs)" "ig_spor_level (r_iogen rs') = ig_spor_level (r_iogen rs)"
    using l(4,5) by simp_all
  have "0 < unat (j_num_inflight (r_job rs))" using assms(2,3) by (auto simp: pool_inv_def)
  then show "pool_inv (r_job rs')"
    using assms(2,3) l(1-4) unat_minus_1[of "j_num_inflight (r_job rs)"]
    by (auto simp: pool_inv_def length_remove1 dest: in_set_remove1)
qed

section \<open>Time-outs, history and reset\<close>

lemma check_timeouts_lists: "check_timeouts now is job = Inr job' \<Longrightarrow> job_lists job' = job_lists job"
proof (induction "is" arbitrary: job)
  case Nil
  then show ?case by simp
next
  case (Cons i "is")
  then obtain job1 where j: "mark_timeout now i job = Inr job1" "check_timeouts now is job1 = Inr job'"
    by (auto simp: bnd_eq_Inr)
  have "job_lists job1 = job_lists job" using j(1) by (auto simp: mark_timeout_def bnd_eq_Inr split: if_splits)
  then show ?case using Cons.IH[OF j(2)] by simp
qed

lemma record_bio_job: "record_bio bio rs = Inr rs' \<Longrightarrow> r_job rs' = r_job rs"
  by (auto simp: record_bio_def Let_def bnd_eq_Inr)

lemma reinit_loop:
  assumes "for_upto k n (reinit_step m) job = Inr job'"
  shows "j_bio_free job' = j_bio_free job @ [k..<k + n] \<and> j_bio_inflight job' = j_bio_inflight job \<and>
    j_num_inflight job' = j_num_inflight job \<and> j_params job' = j_params job"
  using assms
proof (induction n arbitrary: k job)
  case 0
  then show ?case by simp
next
  case (Suc n)
  obtain job1 where j: "reinit_step m k job = Inr job1" "for_upto (Suc k) n (reinit_step m) job1 = Inr job'"
    using Suc.prems by (auto simp: bnd_eq_Inr)
  have "j_bio_free job1 = j_bio_free job @ [k] \<and> j_bio_inflight job1 = j_bio_inflight job \<and>
      j_num_inflight job1 = j_num_inflight job \<and> j_params job1 = j_params job"
    using j(1) by (auto simp: reinit_step_def bnd_eq_Inr)
  moreover have "[k..<k + Suc n] = k # [Suc k..<Suc k + n]" by (simp add: upt_conv_Cons del: upt_Suc)
  ultimately show ?case using Suc.IH[OF j(2)] by simp
qed

lemma reinit_pool_inv:
  assumes "iogen_job_reinit ops m e job = Inr (0, e', job')"
  shows "pool_inv job'" "j_bio_inflight job' = []" "j_params job' = j_params job"
    "\<exists>f. eo_reinit ops = Some f \<and> f e = (0, e')"
proof -
  obtain f job1 nx where f: "eo_reinit ops = Some f" "f e = (0, e')"
    and l: "for_upto 0 (unat (jp_iodepth (j_params job))) (reinit_step m) (job\<lparr>j_bio_free := [], j_bio_inflight := []\<rparr>) = Inr job1"
    and j: "job' = job1\<lparr>j_num_inflight := 0\<rparr> \<or> job' = job1\<lparr>j_num_inflight := 0, j_slba_next := nx\<rparr>"
    using assms by (auto simp: iogen_job_reinit_def Let_def bnd_eq_Inr split: option.splits prod.splits if_splits)
  note r = reinit_loop[OF l]
  show "pool_inv job'" "j_bio_inflight job' = []" "j_params job' = j_params job"
    using r j by (auto simp: pool_inv_def)
  show "\<exists>f. eo_reinit ops = Some f \<and> f e = (0, e')" using f by blast
qed

section \<open>The contract of an engine\<close>

text \<open>Completing several requests in turn.\<close>

fun complete_all :: "(nat \<Rightarrow> int \<Rightarrow> 's \<Rightarrow> 's res) \<Rightarrow> (nat \<times> int) list \<Rightarrow> 's \<Rightarrow> 's res" where
  "complete_all cb [] s = Inr s"
| "complete_all cb ((i, r) # is) s = bnd (cb i r s) (complete_all cb is)"

lemma complete_all_inv:
  assumes "complete_all (complete env) done rs = Inr rs'" and "pool_inv (r_job rs)"
    and "mset (j_bio_inflight (r_job rs)) = mset (map fst done) + M"
  shows "pool_inv (r_job rs') \<and> mset (j_bio_inflight (r_job rs')) = M \<and> j_params (r_job rs') = j_params (r_job rs) \<and>
    ig_spor_level (r_iogen rs') = ig_spor_level (r_iogen rs)"
  using assms
proof (induction "done" arbitrary: rs)
  case Nil
  then show ?case by simp
next
  case (Cons d ds)
  obtain i r where d: "d = (i, r)" by fastforce
  obtain rs1 where c: "complete env i r rs = Inr rs1" "complete_all (complete env) ds rs1 = Inr rs'"
    using Cons.prems(1) d by (auto simp: bnd_eq_Inr)
  have "i \<in># mset (j_bio_inflight (r_job rs))" using Cons.prems(3) d by simp
  then have i: "i \<in> set (j_bio_inflight (r_job rs))" by simp
  note ci = complete_inv[OF c(1) Cons.prems(2) i]
  have "mset (j_bio_inflight (r_job rs1)) = mset (map fst ds) + M" using ci(2) Cons.prems(3) d by simp
  from Cons.IH[OF c(2) ci(1) this] show ?case using ci(3,4) by simp
qed

text \<open>
  The laws: a request is accepted while there is room and then pending, a submit keeps what is
  pending, a poll completes some of the pending requests, and a reinitialised engine is empty.
  Only libaio completes a flush while it is enqueued.
\<close>

locale io_engine =
  fixes ops :: "'e engine_ops"
    and ok :: "'e \<Rightarrow> bool"
    and pending :: "'e \<Rightarrow> nat list"
    and capacity :: "'e \<Rightarrow> nat"
  assumes enqueue_room: "ok e \<Longrightarrow> length (pending e) < capacity e \<Longrightarrow>
      \<exists>e'. eo_enqueue ops e i bio = Inr (0, e') \<and> ok e' \<and> mset (pending e') = add_mset i (mset (pending e)) \<and>
        capacity e' = capacity e"
    and submit_keeps: "ok e \<Longrightarrow> eo_submit ops e = Inr (r, e') \<Longrightarrow> ok e' \<and> mset (pending e') = mset (pending e) \<and>
        capacity e' = capacity e"
    and poll_completes: "ok e \<Longrightarrow> eo_poll ops mn mx cb e rs = Some (Inr (e', rs')) \<Longrightarrow>
      \<exists>done. ok e' \<and> capacity e' = capacity e \<and> mset (pending e) = mset (map fst done) + mset (pending e') \<and>
        complete_all cb done rs = Inr rs'"
    and reinit_empty: "eo_reinit ops = Some f \<Longrightarrow> f e = (0, e') \<Longrightarrow> ok e' \<and> pending e' = [] \<and> capacity e' = capacity e"
    and reset_capacity: "eo_reset ops = Some g \<Longrightarrow> capacity (g e) = capacity e"
    and flush_queued: "eo_name ops \<noteq> ''libaio''"
begin

text \<open>The engine holds exactly the requests in flight, and has room for all requests of the job.\<close>

definition run_inv :: "'e \<Rightarrow> job_run \<Rightarrow> bool" where
  "run_inv e rs \<longleftrightarrow> pool_inv (r_job rs) \<and> ok e \<and> mset (pending e) = mset (j_bio_inflight (r_job rs)) \<and>
     unat (jp_iodepth (j_params (r_job rs))) \<le> capacity e"

lemma run_inv_frame:
  "run_inv e rs \<Longrightarrow> job_lists (r_job rs') = job_lists (r_job rs) \<Longrightarrow> run_inv e rs'"
  by (simp add: run_inv_def pool_inv_lists[of "r_job rs'" "r_job rs"]) (simp add: job_lists_def)

lemma submit_inv: "run_inv e rs \<Longrightarrow> eo_submit ops e = Inr (r, e') \<Longrightarrow> run_inv e' rs"
  using submit_keeps[of e r e'] by (simp add: run_inv_def)

lemma poll_inv:
  assumes "run_inv e rs" and "eo_poll ops mn mx (complete env) e rs = Some (Inr (e', rs'))"
  shows "run_inv e' rs'" "j_params (r_job rs') = j_params (r_job rs)"
    "ig_spor_level (r_iogen rs') = ig_spor_level (r_iogen rs)"
proof -
  obtain ds where d: "ok e'" "capacity e' = capacity e" "mset (pending e) = mset (map fst ds) + mset (pending e')"
      "complete_all (complete env) ds rs = Inr rs'"
    using poll_completes[OF _ assms(2)] assms(1) by (auto simp: run_inv_def)
  then have "pool_inv (r_job rs') \<and> mset (j_bio_inflight (r_job rs')) = mset (pending e') \<and>
      j_params (r_job rs') = j_params (r_job rs) \<and> ig_spor_level (r_iogen rs') = ig_spor_level (r_iogen rs)"
    using assms(1) by (intro complete_all_inv[OF d(4)]) (auto simp: run_inv_def)
  then show "run_inv e' rs'" "j_params (r_job rs') = j_params (r_job rs)"
    "ig_spor_level (r_iogen rs') = ig_spor_level (r_iogen rs)"
    using d(1,2) assms(1) by (auto simp: run_inv_def)
qed

text \<open>While fewer requests than the depth are in flight the free list is not empty.\<close>

lemma free_not_empty:
  assumes "pool_inv job" and "j_num_inflight job < jp_iodepth (j_params job)"
  shows "j_bio_free job \<noteq> []"
proof
  assume "j_bio_free job = []"
  then have "set (j_bio_inflight job) = {..<unat (jp_iodepth (j_params job))}" "distinct (j_bio_inflight job)"
    using assms(1) by (simp_all add: pool_inv_def)
  then have "length (j_bio_inflight job) = unat (jp_iodepth (j_params job))" by (metis card_lessThan distinct_card)
  then show False using assms by (simp add: pool_inv_def word_less_nat_alt)
qed

text \<open>Enqueuing the generated request never fails; only a submit can end the loop.\<close>

lemma issue_bio_inv:
  assumes inv: "run_inv e rs0" and lt: "j_num_inflight (r_job rs0) < jp_iodepth (j_params (r_job rs0))"
    and tk: "takes (Some i) (r_job rs0) (r_job rs)"
    and iss: "issue_bio ops env e rs n i = Inr (c, e', rs', n')"
  shows "run_inv e' rs' \<and> j_params (r_job rs') = j_params (r_job rs0) \<and>
    (c = Break \<longrightarrow> (\<exists>e1 r e2. eo_submit ops e1 = Inr (r, e2) \<and> r \<noteq> 0))"
proof -
  obtain bio where bio: "arr_get (j_bio_pool (r_job rs)) i = Inr bio"
    using iss by (auto simp: issue_bio_def Let_def bnd_eq_Inr)
  let ?b = "bio\<lparr>b_begin_ts := le_now env\<rparr>"
  define rs1 where "rs1 = rs\<lparr>r_job := (r_job rs)\<lparr>j_bio_pool := (j_bio_pool (r_job rs))[i := ?b]\<rparr>\<rparr>"
  have len: "length (pending e) = length (j_bio_inflight (r_job rs0))"
    using inv by (metis run_inv_def size_mset)
  have num: "unat (j_num_inflight (r_job rs0)) = length (j_bio_inflight (r_job rs0))"
      "unat (j_num_inflight (r_job rs0)) < unat (jp_iodepth (j_params (r_job rs0)))"
    using inv lt by (simp_all add: run_inv_def pool_inv_def word_less_nat_alt)
  then obtain e1 where e1: "eo_enqueue ops e i ?b = Inr (0, e1)" "ok e1"
      "mset (pending e1) = add_mset i (mset (pending e))" "capacity e1 = capacity e"
    using enqueue_room[of e i ?b] inv len by (auto simp: run_inv_def)
  define rs2 where "rs2 = add_inflight i rs1"
  have fl: "j_bio_free (r_job rs2) = j_bio_free (r_job rs)" "j_bio_inflight (r_job rs2) = i # j_bio_inflight (r_job rs0)"
      "j_num_inflight (r_job rs2) = j_num_inflight (r_job rs0) + 1" "j_params (r_job rs2) = j_params (r_job rs0)"
      "j_bio_free (r_job rs0) = i # j_bio_free (r_job rs)"
    using tk by (simp_all add: rs2_def rs1_def add_inflight_def takes_def Let_def)
  have "unat (j_num_inflight (r_job rs0) + 1) = Suc (unat (j_num_inflight (r_job rs0)))" using lt by (rule unat_succ)
  then have inv2: "run_inv e1 rs2"
    using inv e1 fl num(1) by (auto simp: run_inv_def pool_inv_def)
  obtain rs3 where r3: "record_bio ?b rs2 = Inr rs3" and out: "(if n + 1 = batch_submit (j_params (r_job rs3)) \<or>
        j_num_inflight (r_job rs3) = jp_iodepth (j_params (r_job rs3)) then
      bnd (eo_submit ops e1) (\<lambda>(res, e).
      if res \<noteq> 0 then Inr (Break, e, rs3\<lparr>r_iogen := (r_iogen rs3)\<lparr>ig_result := res\<rparr>\<rparr>, n + 1)
      else Inr (Continue, e, rs3, 0)) else Inr (Continue, e1, rs3, n + 1)) = Inr (c, e', rs', n')"
    using iss bio e1(1) flush_queued
    by (auto simp: issue_bio_def Let_def bnd_eq_Inr rs1_def[symmetric] rs2_def[symmetric])
  have "r_job rs3 = r_job rs2" using record_bio_job[OF r3] .
  then have inv3: "run_inv e1 rs3" and p3: "j_params (r_job rs3) = j_params (r_job rs0)"
    using run_inv_frame[OF inv2, of rs3] fl(4) by simp_all
  consider "(c, e', rs', n') = (Continue, e1, rs3, n + 1)"
    | r e2 where "eo_submit ops e1 = Inr (r, e2)" "r \<noteq> 0" "(c, e', rs', n') = (Break, e2, rs3\<lparr>r_iogen := (r_iogen rs3)\<lparr>ig_result := r\<rparr>\<rparr>, n + 1)"
    | e2 where "eo_submit ops e1 = Inr (0, e2)" "(c, e', rs', n') = (Continue, e2, rs3, 0)"
    using out by (auto simp: bnd_eq_Inr split: if_splits)
  then show ?thesis
  proof cases
    case 1
    then show ?thesis using inv3 p3 by simp
  next
    case 2
    have "run_inv e2 (rs3\<lparr>r_iogen := (r_iogen rs3)\<lparr>ig_result := r\<rparr>\<rparr>)"
      using run_inv_frame[OF submit_inv[OF inv3 2(1)]] by simp
    then show ?thesis using 2 p3 by auto
  next
    case 3
    then show ?thesis using submit_inv[OF inv3 3(1)] p3 by simp
  qed
qed

lemma job_reset_inv:
  assumes "job_reset ops env e job = Inr (e', job')" and "unat (jp_iodepth (j_params job)) \<le> capacity e"
    and "r_job rs = job'"
  shows "run_inv e' rs" "j_params job' = j_params job"
proof -
  obtain g job1 where g: "eo_reset ops = Some g"
      "iogen_job_reinit ops (le_iosz_max env) (g e) (job\<lparr>j_state := iogen_job_state_reset, j_nr_reset := j_nr_reset job + 1\<rparr>) =
       Inr (0, e', job1)" and l: "job_lists job' = job_lists job1"
    using assms(1) by (auto simp: job_reset_def Let_def bnd_eq_Inr job_lists_def split: option.splits if_splits prod.splits)
  note r = reinit_pool_inv[OF g(2)]
  obtain f where f: "eo_reinit ops = Some f" "f (g e) = (0, e')" using r(4) by blast
  have p: "j_params job1 = j_params job" "j_params job' = j_params job1" using r(3) l by (simp_all add: job_lists_def)
  then show "j_params job' = j_params job" by simp
  have "ok e'" "pending e' = []" "capacity e' = capacity e"
    using reinit_empty[OF f] reset_capacity[OF g(1)] by simp_all
  then show "run_inv e' rs"
    using r(1,2) l p assms(2,3) pool_inv_lists[OF l] by (simp add: run_inv_def job_lists_def)
qed

lemma retry_later_inv:
  assumes "run_inv e rs" and "retry_later ops env e rs n = Some (Inr (c, e', rs', n'))"
  shows "run_inv e' rs' \<and> j_params (r_job rs') = j_params (r_job rs) \<and>
    (c = Break \<longrightarrow> (\<exists>e1 r e2. eo_submit ops e1 = Inr (r, e2) \<and> r \<noteq> 0))"
proof -
  obtain r e1 where s: "(if n \<noteq> 0 then eo_submit ops e else Inr (0, e)) = Inr (r, e1)"
    and out: "(if r \<noteq> 0 then Some (Inr (Break, e1, rs\<lparr>r_iogen := (r_iogen rs)\<lparr>ig_result := r\<rparr>\<rparr>, n))
      else obnd (eo_poll ops 0 (jp_batch_complete (j_params (r_job rs))) (complete (le_end env)) e1 rs) (\<lambda>(e, rs).
        Some (Inr (Continue, e, rs, 0)))) = Some (Inr (c, e', rs', n'))"
    using assms(2) by (auto simp: retry_later_def obnd_eq_Inr)
  have inv: "run_inv e1 rs" using s assms(1) submit_inv by (auto split: if_splits)
  show ?thesis
  proof (cases "r = 0")
    case True
    then have "eo_poll ops 0 (jp_batch_complete (j_params (r_job rs))) (complete (le_end env)) e1 rs = Some (Inr (e', rs'))"
      and c: "c = Continue" using out by (auto simp: obnd_eq_Inr)
    from poll_inv[OF inv this(1)] c show ?thesis by simp
  next
    case False
    then have "eo_submit ops e = Inr (r, e1)" "c = Break" "e' = e1" "rs' = rs\<lparr>r_iogen := (r_iogen rs)\<lparr>ig_result := r\<rparr>\<rparr>"
      using s out by (auto split: if_splits)
    then show ?thesis using False run_inv_frame[OF inv, of rs'] by auto
  qed
qed

lemma runner_iter_inv:
  assumes inv: "run_inv e rs" and it: "runner_iter ops env e rs n = Some (Inr (c, e', rs', n'))"
  shows "run_inv e' rs' \<and> j_params (r_job rs') = j_params (r_job rs) \<and>
    (c = Break \<longrightarrow> (\<exists>e1 r e2. eo_submit ops e1 = Inr (r, e2) \<and> r \<noteq> 0))"
proof -
  let ?bc = "\<lambda>rs. jp_batch_complete (j_params (r_job rs))"
  obtain rs1 e2 rs2 n2 where t: "(if jp_timeout (j_params (r_job rs)) \<noteq> 0 \<and> j_num_inflight (r_job rs) \<noteq> 0
        then bnd (check_timeouts (le_now env) (j_bio_inflight (r_job rs)) (r_job rs)) (\<lambda>job. Inr (rs\<lparr>r_job := job\<rparr>))
        else Inr rs) = Inr rs1"
    and r: "(if j_reset_next (r_job rs1) > 0 \<and> uint (j_reset_next (r_job rs1)) < le_time env
         then bnd (job_reset ops env e (r_job rs1)) (\<lambda>(e, job). Inr (e, rs1\<lparr>r_job := job\<rparr>, 0))
         else Inr (e, rs1, n)) = Inr (e2, rs2, n2)"
    and body: "(if j_num_inflight (r_job rs2) < jp_iodepth (j_params (r_job rs2)) then
         obnd (generate_bio (le_gen env) rs2) (\<lambda>(rs, out).
         case out of None \<Rightarrow> retry_later ops env e2 rs n2 | Some i \<Rightarrow> Some (issue_bio ops env e2 rs n2 i))
       else obnd (eo_poll ops 0 (?bc rs2) (complete (le_end env)) e2 rs2) (\<lambda>(e, rs).
         Some (Inr (Continue, e, rs, n2)))) = Some (Inr (c, e', rs', n'))"
    using it unfolding runner_iter_def by (auto simp only: obnd_eq_Inr option.inject)
  have "job_lists (r_job rs1) = job_lists (r_job rs)"
    using t check_timeouts_lists by (auto simp: bnd_eq_Inr split: if_splits)
  then have inv1: "run_inv e rs1" and p1: "j_params (r_job rs1) = j_params (r_job rs)"
    using run_inv_frame[OF inv] by (simp_all add: job_lists_def)
  have inv2: "run_inv e2 rs2" and p2: "j_params (r_job rs2) = j_params (r_job rs)"
    using r inv1 p1 job_reset_inv[of env e "r_job rs1" e2 "r_job rs2" rs2]
    by (auto simp: bnd_eq_Inr run_inv_def split: if_splits)
  show ?thesis
  proof (cases "j_num_inflight (r_job rs2) < jp_iodepth (j_params (r_job rs2))")
    case True
    then obtain rs3 out where g: "generate_bio (le_gen env) rs2 = Some (Inr (rs3, out))"
      and o: "(case out of None \<Rightarrow> retry_later ops env e2 rs3 n2 | Some i \<Rightarrow> Some (issue_bio ops env e2 rs3 n2 i)) =
        Some (Inr (c, e', rs', n'))" using body by (auto simp: obnd_eq_Inr)
    note tk = generate_bio_takes[OF g]
    show ?thesis
    proof (cases out)
      case None
      then have l: "job_lists (r_job rs3) = job_lists (r_job rs2)" using tk by (simp add: takes_def)
      then show ?thesis using retry_later_inv[OF run_inv_frame[OF inv2 l]] o None p2 by (simp add: job_lists_def)
    next
      case (Some i)
      then show ?thesis using issue_bio_inv[OF inv2 True] tk o p2 by auto
    qed
  next
    case False
    then have "eo_poll ops 0 (?bc rs2) (complete (le_end env)) e2 rs2 = Some (Inr (e', rs'))" and "c = Continue"
      using body by (auto simp: obnd_eq_Inr)
    then show ?thesis using poll_inv[OF inv2] p2 by auto
  qed
qed

end

section \<open>The null engine keeps the contract\<close>

text \<open>A poll of the null engine always returns, whatever the callback does.\<close>

lemma null_poll_general:
  assumes "null_ok q" and "mx = 0 \<or> nr < mx" and "unat nr + length (null_contents q) < 2 ^ 32"
  shows "\<exists>r. null_poll_loop (\<lambda>i. cb i 0) mx nr q s = Some r \<and>
    (\<forall>q' s'. r = Inr (q', s') \<longrightarrow> (\<exists>ds. null_ok q' \<and> null_capacity q' = null_capacity q \<and>
       null_contents q = map fst ds @ null_contents q' \<and> (null_contents q \<noteq> [] \<longrightarrow> ds \<noteq> []) \<and> complete_all cb ds s = Inr s'))"
  using assms
proof (induction "null_contents q" arbitrary: q nr s)
  case Nil
  then have "nq_head q = nq_tail q" using null_empty_iff by metis
  then show ?case using Nil by (subst null_poll_loop.simps) (auto intro: exI[of _ "[]"])
next
  case (Cons b bs)
  have ne: "nq_head q \<noteq> nq_tail q" using null_empty_iff[OF Cons.prems(1)] Cons(2) by auto
  show ?case
  proof (cases "cb b 0 s")
    case (Inl err)
    then have "null_complete (\<lambda>i. cb i 0) q s = Inl err"
      by (rule null_complete_error[OF Cons.prems(1) Cons(2)[symmetric]])
    then show ?thesis using ne by (subst null_poll_loop.simps) simp
  next
    case (Inr s1)
    obtain q1 where q1: "null_complete (\<lambda>i. cb i 0) q s = Inr (q1, s1)" "null_ok q1" "null_contents q1 = bs"
        "null_capacity q1 = null_capacity q"
      using null_complete_spec[OF Cons.prems(1) Cons(2)[symmetric], of "\<lambda>i. cb i 0", OF Inr] by blast
    show ?thesis
    proof (cases "nr + 1 = mx")
      case True
      then have "null_poll_loop (\<lambda>i. cb i 0) mx nr q s = Some (Inr (q1, s1))"
        using ne q1 by (subst null_poll_loop.simps) simp
      then show ?thesis using q1 Inr Cons(2)[symmetric] by (auto intro!: exI[of _ "[(b, 0)]"])
    next
      case False
      have u: "unat (nr + 1) = unat nr + 1" using Cons.prems(3) Cons(2)[symmetric] by (simp add: unat_word_ariths)
      have lt: "mx = 0 \<or> nr + 1 < mx" using False Cons.prems(2) u by (auto simp: word_less_nat_alt word_unat_eq_iff)
      have sz: "unat (nr + 1) + length (null_contents q1) < 2 ^ 32" using u q1(3) Cons.prems(3) Cons(2)[symmetric] by simp
      have "null_poll_loop (\<lambda>i. cb i 0) mx nr q s = null_poll_loop (\<lambda>i. cb i 0) mx (nr + 1) q1 s1"
        using ne q1 False by (subst null_poll_loop.simps) simp
      moreover obtain r where r: "null_poll_loop (\<lambda>i. cb i 0) mx (nr + 1) q1 s1 = Some r"
          "\<And>q' s'. r = Inr (q', s') \<Longrightarrow> \<exists>ds. null_ok q' \<and> null_capacity q' = null_capacity q1 \<and>
             null_contents q1 = map fst ds @ null_contents q' \<and> complete_all cb ds s1 = Inr s'"
        using Cons(1)[OF q1(3)[symmetric] q1(2) lt sz, of s1] by blast
      moreover have "\<exists>ds. null_ok q' \<and> null_capacity q' = null_capacity q \<and> null_contents q = map fst ds @ null_contents q' \<and>
          (null_contents q \<noteq> [] \<longrightarrow> ds \<noteq> []) \<and> complete_all cb ds s = Inr s'" if rr: "r = Inr (q', s')" for q' s'
      proof -
        obtain ds where "null_ok q'" "null_capacity q' = null_capacity q1" "null_contents q1 = map fst ds @ null_contents q'"
            "complete_all cb ds s1 = Inr s'" using r(2)[OF rr] by blast
        then show ?thesis using q1 Inr Cons(2)[symmetric] by (intro exI[of _ "(b, 0) # ds"]) simp
      qed
      ultimately show ?thesis by auto
    qed
  qed
qed

text \<open>The queue of the null engine with its bound: the number of requests is below 2 ^ 32.\<close>

interpretation null_engine: io_engine null_ops null_ok null_contents null_capacity
proof (unfold_locales, goal_cases)
  case (1 e i bio)
  then show ?case using nullq.enqueue_room[OF 1(1), of i] by (auto simp: null_ops_def)
next
  case (2 e r e')
  then show ?case by (auto simp: null_ops_def)
next
  case (3 e mn mx cb rs e' rs')
  have "ring_len e < unat (nq_size e)" using 3(1) by (simp add: ring_len_def null_ok_def word_less_nat_alt)
  also have "\<dots> < 2 ^ 32" by (rule order_less_le_trans[OF unsigned_less]) simp
  finally have b: "unat (0 :: u32) + length (null_contents e) < 2 ^ 32" by simp
  have m: "mx = 0 \<or> 0 < mx" by (auto simp: word_gt_0)
  have "null_poll_loop (\<lambda>i. cb i 0) mx 0 e rs = Some (Inr (e', rs'))" using 3(2) by (simp add: null_ops_def null_poll_def)
  then obtain ds where "null_ok e'" "null_capacity e' = null_capacity e" "null_contents e = map fst ds @ null_contents e'"
      "complete_all cb ds rs = Inr rs'"
    using null_poll_general[OF 3(1) m b, of cb rs] by auto
  then show ?case by (intro exI[of _ ds]) simp
qed (simp_all add: null_ops_def)

section \<open>The job thread as a state machine\<close>

text \<open>
  \<open>iogen_job_runner\<close> after the job has begun: the loop, the draining loop and the end. Other
  threads may change the shared state, the verifier and the time-out flag at any time between two
  steps.
\<close>

datatype 'e runner = Looping 'e job_run u32 | Draining 'e job_run | Finished 'e job_run

definition others :: "job_run \<Rightarrow> job_run \<Rightarrow> bool" where
  "others rs rs' \<longleftrightarrow> (\<exists>ig iv w t. rs' = rs\<lparr>r_job := (r_job rs)\<lparr>j_timeout := t\<rparr>, r_iogen := ig, r_iover := iv, r_well := w\<rparr>)"

inductive runner_step :: "'e engine_ops \<Rightarrow> 'e runner \<Rightarrow> 'e runner \<Rightarrow> bool" for ops where
  iterate: "iogen_job_should_stop rs = (False, rs1) \<Longrightarrow> runner_iter ops env e rs1 n = Some (Inr (Continue, e', rs', n')) \<Longrightarrow>
    runner_step ops (Looping e rs n) (Looping e' rs' n')"
| stop: "iogen_job_should_stop rs = (True, rs1) \<Longrightarrow> eo_submit ops e = Inr (r, e') \<Longrightarrow>
    runner_step ops (Looping e rs n) (Draining e' rs1)"
| fail: "iogen_job_should_stop rs = (False, rs1) \<Longrightarrow> runner_iter ops env e rs1 n = Some (Inr (Break, e1, rs', n')) \<Longrightarrow>
    eo_submit ops e1 = Inr (r, e') \<Longrightarrow> runner_step ops (Looping e rs n) (Draining e' rs')"
| drain: "0 < j_num_inflight (r_job rs) \<Longrightarrow> ig_spor_level (r_iogen rs) < 3 \<Longrightarrow>
    eo_poll ops 1 (jp_batch_complete (j_params (r_job rs))) (complete env) e rs = Some (Inr (e', rs')) \<Longrightarrow>
    runner_step ops (Draining e rs) (Draining e' rs')"
| finish: "\<not> (0 < j_num_inflight (r_job rs) \<and> ig_spor_level (r_iogen rs) < 3) \<Longrightarrow>
    iogen_job_end ops now e rs = (e', rs') \<Longrightarrow> runner_step ops (Draining e rs) (Finished e' rs')"
| other_looping: "others rs rs' \<Longrightarrow> runner_step ops (Looping e rs n) (Looping e rs' n)"
| other_draining: "others rs rs' \<Longrightarrow> runner_step ops (Draining e rs) (Draining e rs')"

inductive_cases runner_step_loopingE: "runner_step ops (Looping e rs n) s"
inductive_cases runner_step_drainingE: "runner_step ops (Draining e rs) s"
inductive_cases runner_step_finishedE: "runner_step ops (Finished e rs) s"

fun runner_parts :: "'e runner \<Rightarrow> 'e \<times> job_run" where
  "runner_parts (Looping e rs n) = (e, rs)"
| "runner_parts (Draining e rs) = (e, rs)"
| "runner_parts (Finished e rs) = (e, rs)"

lemma should_stop_lists: "iogen_job_should_stop rs = (b, rs') \<Longrightarrow> job_lists (r_job rs') = job_lists (r_job rs)"
  by (auto simp: iogen_job_should_stop_def Let_def split: if_splits)

context io_engine
begin

definition looping_inv :: "'e runner \<Rightarrow> bool" where
  "looping_inv s \<longleftrightarrow> (case s of Finished e rs \<Rightarrow> pool_inv (r_job rs) | _ \<Rightarrow> case_prod run_inv (runner_parts s))"

lemma run_inv_others: "run_inv e rs \<Longrightarrow> others rs rs' \<Longrightarrow> run_inv e rs'"
  by (auto simp: others_def run_inv_def pool_inv_def)

lemma runner_step_inv:
  assumes "runner_step ops s s'" and "looping_inv s"
  shows "looping_inv s'"
  using assms
proof (induction rule: runner_step.induct)
  case (iterate rs rs1 env e n e' rs' n')
  then show ?case
    using runner_iter_inv[OF run_inv_frame[OF _ should_stop_lists[OF iterate(1)]] iterate(2)] by (simp add: looping_inv_def)
next
  case (stop rs rs1 e r e' n)
  then show ?case
    using submit_inv[OF run_inv_frame[OF _ should_stop_lists[OF stop(1)]] stop(2)] by (simp add: looping_inv_def)
next
  case (fail rs rs1 env e n e1 rs' n' r e')
  then have "run_inv e1 rs'"
    using runner_iter_inv[OF run_inv_frame[OF _ should_stop_lists[OF fail(1)]] fail(2)] by (simp add: looping_inv_def)
  then show ?case using submit_inv[OF _ fail(3)] by (simp add: looping_inv_def)
next
  case (drain rs env e e' rs')
  then show ?case using poll_inv[OF _ drain(3)] by (simp add: looping_inv_def)
next
  case (finish rs now e e' rs')
  then show ?case by (auto simp: looping_inv_def iogen_job_end_def Let_def run_inv_def pool_inv_def)
next
  case (other_looping rs rs' e n)
  then show ?case using run_inv_others by (simp add: looping_inv_def)
next
  case (other_draining rs rs' e)
  then show ?case using run_inv_others by (simp add: looping_inv_def)
qed

lemma runner_reachable_inv:
  assumes "(runner_step ops)\<^sup>*\<^sup>* s s'" and "looping_inv s"
  shows "looping_inv s'"
  using assms by (induction rule: rtranclp_induct) (auto intro: runner_step_inv)

end

section \<open>Runs of a job on the null engine\<close>

lemma create_pool_loop:
  assumes "for_upto k n (create_bio_step fresh alloc m) (0, job) = Inr (0, job')"
  shows "j_bio_free job' = j_bio_free job @ [k..<k + n] \<and> j_bio_inflight job' = j_bio_inflight job \<and>
    j_num_inflight job' = j_num_inflight job \<and> j_params job' = j_params job"
  using assms
proof (induction n arbitrary: k job)
  case 0
  then show ?case by simp
next
  case (Suc n)
  obtain res job1 where j: "create_bio_step fresh alloc m k (0, job) = Inr (res, job1)"
      "for_upto (Suc k) n (create_bio_step fresh alloc m) (res, job1) = Inr (0, job')"
    using Suc.prems by (auto simp: bnd_eq_Inr)
  have "for_upto i l (create_bio_step fresh alloc m) (res, job1) = Inr (res, job1)" if "res \<noteq> 0" for i l
    using that by (induction l arbitrary: i) (simp_all add: create_bio_step_def)
  then have "res = 0" using j(2) by force
  then have "j_bio_free job1 = j_bio_free job @ [k] \<and> j_bio_inflight job1 = j_bio_inflight job \<and>
      j_num_inflight job1 = j_num_inflight job \<and> j_params job1 = j_params job"
    using j(1) by (auto simp: create_bio_step_def split: if_splits prod.splits)
  moreover have "[k..<k + Suc n] = k # [Suc k..<Suc k + n]" by (simp add: upt_conv_Cons del: upt_Suc)
  ultimately show ?case using Suc.IH[of "Suc k" job1] j(2) \<open>res = 0\<close> by simp
qed

lemma create_pool_inv:
  assumes "create_bio_pool True fresh alloc m job = Inr (0, job')" and "j_bio_free job = []" and "j_bio_inflight job = []"
    and "j_num_inflight job = 0"
  shows "pool_inv job'" "j_params job' = j_params job" "j_bio_inflight job' = []"
  using create_pool_loop[of 0 _ fresh alloc m _ job'] assms by (auto simp: create_bio_pool_def pool_inv_def)

text \<open>C5: From the creation of the pool to the end of the job every request is free or in flight,
  exactly once, and \<open>num_inflight\<close> counts those in flight, in every state the job thread reaches on
  the null engine, whatever the other threads do. Until the job has finished the engine holds
  exactly the requests in flight; so whenever the loop generates a request the free list is not
  empty, and the engine accepts it.\<close>

theorem requests_accounted:
  assumes pool: "create_bio_pool True fresh alloc iosz_max job = Inr (0, r_job rs)" "j_bio_free job = []"
      "j_bio_inflight job = []" "j_num_inflight job = 0"
    and q: "null_init True True (jp_iodepth (j_params job)) = Some q" "unat (jp_iodepth (j_params job)) + 1 < 2 ^ 32"
    and reach: "(runner_step null_ops)\<^sup>*\<^sup>* (Looping q rs 0) s"
  shows "(case runner_parts s of (e, rs') \<Rightarrow> pool_inv (r_job rs')) \<and>
    (case s of Looping e rs' n \<Rightarrow> mset (null_contents e) = mset (j_bio_inflight (r_job rs')) \<and>
        (j_num_inflight (r_job rs') < jp_iodepth (j_params (r_job rs')) \<longrightarrow>
          j_bio_free (r_job rs') \<noteq> [] \<and> (\<forall>i. \<exists>e'. null_enqueue e i = Inr (0, e')))
      | Draining e rs' \<Rightarrow> mset (null_contents e) = mset (j_bio_inflight (r_job rs'))
      | Finished e rs' \<Rightarrow> True)"
proof -
  note p = create_pool_inv[OF pool]
  have "null_ok q" "null_contents q = []" "null_capacity q = unat (jp_iodepth (j_params job))"
    using q by (auto simp: null_init_def null_ok_def null_contents_def null_capacity_def ring_len_def
        word_less_nat_alt unat_word_ariths)
  then have "null_engine.looping_inv (Looping q rs 0)"
    using p by (simp add: null_engine.looping_inv_def null_engine.run_inv_def)
  from null_engine.runner_reachable_inv[OF reach this] have inv: "null_engine.looping_inv s" .
  show ?thesis
  proof (cases s)
    case (Looping e rs' n)
    then have r: "null_engine.run_inv e rs'" using inv by (simp add: null_engine.looping_inv_def)
    then have len: "length (null_contents e) = unat (j_num_inflight (r_job rs'))"
      by (metis null_engine.run_inv_def pool_inv_def size_mset)
    have "j_bio_free (r_job rs') \<noteq> [] \<and> (\<forall>i. \<exists>e'. null_enqueue e i = Inr (0, e'))"
      if lt: "j_num_inflight (r_job rs') < jp_iodepth (j_params (r_job rs'))"
      using r null_engine.free_not_empty[OF _ lt] nullq.enqueue_room[of e] len lt
      by (fastforce simp: null_engine.run_inv_def word_less_nat_alt)
    then show ?thesis using Looping r by (simp add: null_engine.run_inv_def)
  qed (use inv in \<open>simp_all add: null_engine.looping_inv_def null_engine.run_inv_def\<close>)
qed

lemma null_poll_progress:
  assumes "null_ok e"
  shows "\<exists>r. eo_poll null_ops mn mx cb e rs = Some r \<and> (\<forall>e' rs'. r = Inr (e', rs') \<longrightarrow> null_contents e \<noteq> [] \<longrightarrow>
    length (null_contents e') < length (null_contents e))"
proof -
  have "ring_len e < unat (nq_size e)" using assms by (simp add: ring_len_def null_ok_def word_less_nat_alt)
  also have "\<dots> < 2 ^ 32" by (rule order_less_le_trans[OF unsigned_less]) simp
  finally have b: "unat (0 :: u32) + length (null_contents e) < 2 ^ 32" by simp
  have m: "mx = 0 \<or> 0 < mx" by (auto simp: word_gt_0)
  obtain r where r: "null_poll_loop (\<lambda>i. cb i 0) mx 0 e rs = Some r"
      "\<And>q' s'. r = Inr (q', s') \<Longrightarrow> \<exists>ds :: (nat \<times> int) list. null_contents e = map fst ds @ null_contents q' \<and> (null_contents e \<noteq> [] \<longrightarrow> ds \<noteq> [])"
    using null_poll_general[OF assms m b, of cb rs] by meson
  have "length (null_contents e') < length (null_contents e)" if rr: "r = Inr (e', rs')" and ne: "null_contents e \<noteq> []" for e' rs'
  proof -
    obtain ds :: "(nat \<times> int) list" where d: "null_contents e = map fst ds @ null_contents e'" "ds \<noteq> []"
      using r(2)[OF rr] ne by blast
    have "length (null_contents e) = length ds + length (null_contents e')" by (subst d(1)) simp
    then show ?thesis using d(2) by simp
  qed
  then show ?thesis using r(1) by (intro exI[of _ r]) (simp add: null_ops_def null_poll_def)
qed

text \<open>C6: Draining a job ends. On the null engine the loop that waits for the requests in flight
  always returns; unless a completion ends the process or the power-off test skips the wait, no
  request is in flight then, all requests of the pool are free again and the engine is empty.\<close>

theorem drain_ends:
  assumes "null_ok e" and "pool_inv (r_job rs)" and "mset (null_contents e) = mset (j_bio_inflight (r_job rs))"
    and "unat (jp_iodepth (j_params (r_job rs))) \<le> null_capacity e"
  shows "\<exists>r. drain null_ops env n e rs = Some r \<and>
    (\<forall>e' rs'. r = Inr (e', rs') \<longrightarrow> 3 \<le> ig_spor_level (r_iogen rs') \<or>
      j_num_inflight (r_job rs') = 0 \<and> null_contents e' = [] \<and>
      set (j_bio_free (r_job rs')) = {..<unat (jp_iodepth (j_params (r_job rs)))})"
  using assms
proof (induction "length (null_contents e)" arbitrary: e rs n rule: less_induct)
  case less
  have inv: "null_engine.run_inv e rs" using less.prems by (simp add: null_engine.run_inv_def)
  have len: "length (null_contents e) = unat (j_num_inflight (r_job rs))"
    using less.prems(2,3) by (metis pool_inv_def size_mset)
  show ?case
  proof (cases "0 < j_num_inflight (r_job rs) \<and> ig_spor_level (r_iogen rs) < 3")
    case False
    then have "drain null_ops env n e rs = Some (Inr (e, rs))" by (subst drain.simps) (simp only: if_False)
    moreover have "j_num_inflight (r_job rs) = 0 \<Longrightarrow> null_contents e = [] \<and>
        set (j_bio_free (r_job rs)) = {..<unat (jp_iodepth (j_params (r_job rs)))}"
      using len less.prems(2,3) by (auto simp: pool_inv_def)
    ultimately show ?thesis using False by (auto simp: word_gt_0 not_less)
  next
    case True
    then have "0 < length (null_contents e)" unfolding len by (simp add: word_less_nat_alt)
    then have ne: "null_contents e \<noteq> []" by (rule length_greater_0_conv[THEN iffD1])
    obtain r where r: "eo_poll null_ops 1 (jp_batch_complete (j_params (r_job rs))) (complete (env n)) e rs = Some r"
        "\<And>e' rs'. r = Inr (e', rs') \<Longrightarrow> length (null_contents e') < length (null_contents e)"
      using null_poll_progress[OF less.prems(1)] ne by metis
    show ?thesis
    proof (cases r)
      case (Inl err)
      then have "drain null_ops env n e rs = Some (Inl err)" using True r(1) by (subst drain.simps) simp
      then show ?thesis by simp
    next
      case (Inr x)
      obtain e1 rs1 where x: "x = (e1, rs1)" by fastforce
      note p = null_engine.poll_inv[OF inv r(1)[unfolded Inr x]]
      have "drain null_ops env n e rs = drain null_ops env (Suc n) e1 rs1" using True r(1) Inr x by (subst drain.simps) simp
      then show ?thesis using less.hyps[OF r(2)[OF Inr[unfolded x]], of rs1 "Suc n"] p
        by (simp add: null_engine.run_inv_def)
    qed
  qed
qed

section \<open>Sample runs\<close>

definition sample_queue :: "nat null_io_queue" where
  "sample_queue = \<lparr>nq_elements = [Some 1, None, None], nq_size = 3, nq_head = 0, nq_tail = 1\<rparr>"

definition two_requests :: iogen_job where
  "two_requests = iogen_job_zero\<lparr>j_params := job_params_zero\<lparr>jp_iodepth := 2\<rparr>\<rparr>"

definition draining_job :: iogen_job where
  "draining_job = two_requests\<lparr>j_bio_pool := replicate 2 bio_zero, j_bio_free := [0], j_bio_inflight := [1], j_num_inflight := 1\<rparr>"

definition sample_eenv :: end_env where
  "sample_eenv = \<lparr>ee_now = \<lparr>tv_sec = 1, tv_nsec = 0\<rparr>, ee_below = (\<lambda>x d. False), ee_junk = replicate 64 0\<rparr>"

lemma sample_queue_ok: "null_ok sample_queue" "null_contents sample_queue = [1]" "null_capacity sample_queue = 2"
proof -
  have "ring_len sample_queue = 1" by (simp add: ring_len_def sample_queue_def)
  then show "null_ok sample_queue" "null_contents sample_queue = [1]" "null_capacity sample_queue = 2"
    by (simp_all add: null_ok_def null_contents_def null_capacity_def slot_def sample_queue_def)
qed

lemma draining_job_ok: "pool_inv draining_job" "j_bio_inflight draining_job = [1]" "jp_iodepth (j_params draining_job) = 2"
  by (auto simp: pool_inv_def draining_job_def two_requests_def)

theorem drain_ends_witness:
  "\<exists>r. drain null_ops (\<lambda>n i. sample_eenv) 0 sample_queue (sample_run\<lparr>r_job := draining_job\<rparr>) = Some r \<and>
    (\<forall>e' rs'. r = Inr (e', rs') \<longrightarrow> 3 \<le> ig_spor_level (r_iogen rs') \<or>
      j_num_inflight (r_job rs') = 0 \<and> null_contents e' = [] \<and> set (j_bio_free (r_job rs')) = {..<unat (2 :: u32)})"
  using drain_ends[of sample_queue "sample_run\<lparr>r_job := draining_job\<rparr>" "\<lambda>n i. sample_eenv" 0]
  by (simp add: sample_queue_ok draining_job_ok)

text \<open>
  A run of a job whose requests are all flushes. It issues its first request, another thread ends the
  run, and the job thread submits and goes on to wait for the request in flight.
\<close>

definition flush_job :: iogen_job where
  "flush_job = two_requests\<lparr>j_opr_lottery := replicate 100 2\<rparr>"

definition empty_queue :: "nat null_io_queue" where
  "empty_queue = \<lparr>nq_elements = [None, None, None], nq_size = 3, nq_head = 0, nq_tail = 0\<rparr>"

definition flush_queue :: "nat null_io_queue" where
  "flush_queue = \<lparr>nq_elements = [Some 0, None, None], nq_size = 3, nq_head = 0, nq_tail = 1\<rparr>"

definition sample_lenv :: loop_env where
  "sample_lenv = \<lparr>le_now = \<lparr>tv_sec = 1, tv_nsec = 0\<rparr>, le_time = 1, le_gen = sample_genv,
     le_end = (\<lambda>_. sample_eenv), le_iosz_max = 0\<rparr>"

lemma create_bio_pool_ok:
  assumes "\<And>i. alloc i" and "\<not> data_buf_size m (j_ns_info job) + 16 < 16" and "n = unat (jp_iodepth (j_params job))"
  shows "\<exists>pool r. length pool = n \<and> create_bio_pool True fresh alloc m job =
    Inr (0, job\<lparr>j_bio_pool := pool, j_rng := r, j_bio_free := j_bio_free job @ [0..<n]\<rparr>)"
proof -
  let ?P = "\<lambda>k s. \<exists>pool r. length pool = n \<and>
    s = (0 :: int, job\<lparr>j_bio_pool := pool, j_rng := r, j_bio_free := j_bio_free job @ [0..<k]\<rparr>)"
  have "\<exists>s'. for_upto 0 n (create_bio_step fresh alloc m) (0, job\<lparr>j_bio_pool := replicate n bio_zero\<rparr>) = Inr s' \<and> ?P (0 + n) s'"
  proof (rule for_upto_rule[of ?P])
    show "?P 0 (0, job\<lparr>j_bio_pool := replicate n bio_zero\<rparr>)"
      by (intro exI[of _ "replicate n bio_zero"] exI[of _ "j_rng job"]) simp
  next
    fix k s assume "0 \<le> k" and "k < 0 + n" and "?P k s"
    then obtain pool r where s: "length pool = n"
        "s = (0, job\<lparr>j_bio_pool := pool, j_rng := r, j_bio_free := j_bio_free job @ [0..<k]\<rparr>)" by blast
    obtain bio r' where b: "create_bio fresh m (j_ns_info job) k r = (bio, r')" by fastforce
    have "create_bio_step fresh alloc m k s =
        Inr (0, job\<lparr>j_bio_pool := pool[k := bio], j_rng := r', j_bio_free := j_bio_free job @ [0..<Suc k]\<rparr>)"
      using assms(1,2) b by (simp add: create_bio_step_def s(2))
    moreover have "length (pool[k := bio]) = n" using s(1) by simp
    ultimately show "\<exists>s'. create_bio_step fresh alloc m k s = Inr s' \<and> ?P (Suc k) s'" by blast
  qed
  then show ?thesis using assms(3) by (auto simp: create_bio_pool_def)
qed

definition flush_run :: "bio list \<Rightarrow> rng \<Rightarrow> job_run" where
  "flush_run pool r = sample_run\<lparr>r_job := flush_job\<lparr>j_bio_pool := pool, j_bio_free := [0, 1], j_rng := r\<rparr>\<rparr>"

lemma flush_issued:
  assumes "length pool = 2"
  shows "\<exists>rs'. runner_iter null_ops sample_lenv empty_queue (flush_run pool r) 0 = Some (Inr (Continue, flush_queue, rs', 1)) \<and>
    j_bio_inflight (r_job rs') = [0] \<and> j_bio_free (r_job rs') = [1]"
proof -
  obtain rand r' where r: "rand48 r = (rand, r')" by fastforce
  have "unat (rand mod 100) < 100" by (simp add: unat_mod)
  then have op: "draw_opcode ((r_job (flush_run pool r))\<lparr>j_rng := r'\<rparr>) rand = Inr bio_flush"
    by (simp add: draw_opcode_def flush_run_def flush_job_def bio_opcodes_def)
  note job = flush_job_def two_requests_def iogen_job_zero_def job_params_zero_def sample_run_def
    namespace_zero_def
  have g: "generate_bio (le_gen sample_lenv) (flush_run pool r) =
      Some (Inr (finish_bio (le_gen sample_lenv) 0 (flush_run pool r')
        ((pool ! 0)\<lparr>b_hist_idx := 0xFFFFFFFF, b_opcode := bio_flush, b_nlbs := 0, b_iosize := 0\<rparr>), Some 0))"
    using assms op by (simp add: generate_bio_def r flush_run_def)
  have e: "null_enqueue empty_queue 0 = Inr (0, flush_queue)"
    by (simp add: null_enqueue_def empty_queue_def flush_queue_def)
  obtain b acct where f: "finish_bio (le_gen sample_lenv) 0 (flush_run pool r')
      ((pool ! 0)\<lparr>b_hist_idx := 0xFFFFFFFF, b_opcode := bio_flush, b_nlbs := 0, b_iosize := 0\<rparr>) =
      (flush_run pool r')\<lparr>r_job := (r_job (flush_run pool r'))\<lparr>j_acct := acct, j_bio_pool := pool[0 := b], j_bio_free := [1]\<rparr>\<rparr>"
    by (simp add: finish_bio_def inject_tag_error_def flush_run_def job sum_acct_def)
  show ?thesis
    using assms e
    by (simp add: runner_iter_def g f) (simp add: flush_run_def job issue_bio_def null_ops_def add_inflight_def record_bio_def
        backup_hist_state_def batch_submit_def sample_iogen_def)
qed


lemma flush_run_drains:
  assumes "length pool = 2"
  shows "\<exists>rs'. (runner_step null_ops)\<^sup>*\<^sup>* (Looping empty_queue (flush_run pool r) 0) (Draining flush_queue rs') \<and>
    j_bio_inflight (r_job rs') = [0]"
proof -
  obtain rs where i: "runner_iter null_ops sample_lenv empty_queue (flush_run pool r) 0 = Some (Inr (Continue, flush_queue, rs, 1))"
      "j_bio_inflight (r_job rs) = [0]"
    using flush_issued[OF assms] by blast
  let ?ended = "rs\<lparr>r_iogen := (r_iogen rs)\<lparr>ig_state := iogen_state_done\<rparr>\<rparr>"
  let ?stopped = "?ended\<lparr>r_job := (r_job rs)\<lparr>j_state := iogen_job_state_aborting\<rparr>\<rparr>"
  have "iogen_job_should_stop (flush_run pool r) = (False, flush_run pool r)"
    by (simp add: iogen_job_should_stop_def flush_run_def sample_run_def sample_iogen_def flush_job_def two_requests_def
        iogen_job_zero_def job_params_zero_def)
  then have 1: "runner_step null_ops (Looping empty_queue (flush_run pool r) 0) (Looping flush_queue rs 1)"
    using i(1) by (rule runner_step.iterate)
  have 2: "runner_step null_ops (Looping flush_queue rs 1) (Looping flush_queue ?ended 1)"
    by (rule runner_step.other_looping) (unfold others_def, intro exI[of _ "r_iogen ?ended"] exI[of _ "r_iover rs"] exI[of _ "r_well rs"]
        exI[of _ "j_timeout (r_job rs)"], simp)
  have 3: "runner_step null_ops (Looping flush_queue ?ended 1) (Draining flush_queue ?stopped)"
    by (rule runner_step.stop[of _ _ _ _ null_submit])
       (simp_all add: iogen_job_should_stop_def null_ops_def)
  have "(runner_step null_ops)\<^sup>*\<^sup>* (Looping empty_queue (flush_run pool r) 0) (Draining flush_queue ?stopped)"
    using 1 2 3 by (meson converse_rtranclp_into_rtranclp rtranclp.rtrancl_refl)
  then show ?thesis using i(2) by (intro exI[of _ ?stopped]) simp
qed

theorem requests_accounted_witness:
  "\<exists>pool r rs'. create_bio_pool True (\<lambda>i k. 0) (\<lambda>i. True) 0 flush_job = Inr (0, r_job (flush_run pool r)) \<and>
    (runner_step null_ops)\<^sup>*\<^sup>* (Looping empty_queue (flush_run pool r) 0) (Draining flush_queue rs') \<and>
    j_bio_inflight (r_job rs') = [0] \<and> pool_inv (r_job rs') \<and>
    mset (null_contents flush_queue) = mset (j_bio_inflight (r_job rs'))"
proof -
  have "\<not> data_buf_size 0 (j_ns_info flush_job) + 16 < 16"
    by (simp add: flush_job_def two_requests_def iogen_job_zero_def namespace_zero_def data_buf_size_def max_def)
  moreover have "2 = unat (jp_iodepth (j_params flush_job))" by (simp add: flush_job_def two_requests_def)
  ultimately obtain pool r where p: "length pool = 2" "create_bio_pool True (\<lambda>i k. 0) (\<lambda>i. True) 0 flush_job =
      Inr (0, flush_job\<lparr>j_bio_pool := pool, j_rng := r, j_bio_free := j_bio_free flush_job @ [0..<2]\<rparr>)"
    using create_bio_pool_ok[of "\<lambda>i. True" 0 flush_job 2 "\<lambda>i k. 0"] by blast
  have j: "flush_job\<lparr>j_bio_pool := pool, j_rng := r, j_bio_free := j_bio_free flush_job @ [0..<2]\<rparr> = r_job (flush_run pool r)"
    by (simp add: flush_run_def flush_job_def two_requests_def iogen_job_zero_def sample_run_def upt_rec)
  obtain rs' where run: "(runner_step null_ops)\<^sup>*\<^sup>* (Looping empty_queue (flush_run pool r) 0) (Draining flush_queue rs')"
      "j_bio_inflight (r_job rs') = [0]" using flush_run_drains[OF p(1)] by blast
  have "replicate 3 None = [None, None, None]" by (simp add: numeral_3_eq_3)
  then have "null_init True True (jp_iodepth (j_params flush_job)) = Some empty_queue"
    by (simp add: flush_job_def two_requests_def null_init_def empty_queue_def)
  from requests_accounted[OF p(2)[unfolded j] _ _ _ this _ run(1)] show ?thesis
    using p(2)[unfolded j] run by (auto simp: flush_job_def two_requests_def iogen_job_zero_def)
qed

end
