(* ===== verification/IogenSafe.thy ===== *)
theory IogenSafe
  imports IogenGen
begin

text \<open>
  Generated requests are safe: for the sequential, uniform and zipf address types a job whose
  sizes and range fit its namespace always produces a request inside its range, with buffers
  large enough for it, and locks exactly its blocks.
\<close>

section \<open>What a request may change\<close>

definition bio_frame :: "bio \<Rightarrow> bio \<Rightarrow> bool" where
  "bio_frame b b' \<longleftrightarrow> (\<exists>a r d m bd. b' = b\<lparr>b_apptag := a, b_reftag := r, b_data := d, b_meta := m, b_block_desc := bd\<rparr> \<and>
     length d = length (b_data b) \<and> length m = length (b_meta b) \<and> length bd = length (b_block_desc b))"

lemma bio_frame_refl [simp]: "bio_frame b b"
  unfolding bio_frame_def
  by (intro exI[of _ "b_apptag b"] exI[of _ "b_reftag b"] exI[of _ "b_data b"] exI[of _ "b_meta b"]
      exI[of _ "b_block_desc b"]) simp

lemma bio_frame_fields:
  assumes "bio_frame b b'"
  shows "b_slba b' = b_slba b" "b_nlbs b' = b_nlbs b" "b_opcode b' = b_opcode b" "b_pract b' = b_pract b"
    "b_iosize b' = b_iosize b" "length (b_data b') = length (b_data b)" "length (b_meta b') = length (b_meta b)"
    "length (b_block_desc b') = length (b_block_desc b)"
  using assms by (auto simp: bio_frame_def)

text \<open>Whether a request takes the lock of its blocks.\<close>

definition locks :: "job_params \<Rightarrow> bio \<Rightarrow> bool" where
  "locks jp b \<longleftrightarrow> \<not> jp_lba_overlap jp \<and> bio_opcode_num (b_opcode b) < bio_opcode_num bio_identify"

text \<open>Every outcome of \<open>iover_generate_data\<close>: a range in use changes nothing, otherwise it is locked.\<close>

lemma generate_data_total:
  assumes ok: "iover_ok iv" and bio: "bio_ok iv bio" and fits: "bio_fits (length (iv_lba_lock iv)) bio"
    and bd: "nlbs_nat bio \<le> length (b_block_desc bio)"
  shows "\<exists>res lk ts b'. iover_generate_data pi escape iv jp bio = Inr (res, iv\<lparr>iv_lba_lock := lk, iv_timestamp := ts\<rparr>, b') \<and>
    bio_frame bio b' \<and> length lk = length (iv_lba_lock iv) \<and>
    (if res = 0 \<and> locks jp bio
     then locked (iv_lba_lock iv) \<inter> bio_lbas bio = {} \<and> locked lk = locked (iv_lba_lock iv) \<union> bio_lbas bio
     else lk = iv_lba_lock iv)"
proof -
  let ?held = "locked (iv_lba_lock iv)"
  define lock where "lock = (if \<not> jp_lba_overlap jp \<and> bio_opcode_num (b_opcode bio) < bio_opcode_num bio_identify
      then try_lock_lbas (iv_lba_lock iv) bio else Inr (0, iv_lba_lock iv))"
  have "\<exists>res lk. lock = Inr (res, lk) \<and> length lk = length (iv_lba_lock iv) \<and>
    (if res = 0 \<and> locks jp bio then ?held \<inter> bio_lbas bio = {} \<and> locked lk = ?held \<union> bio_lbas bio
     else lk = iv_lba_lock iv)"
  proof (cases "locks jp bio")
    case True
    then have "lock = try_lock_lbas (iv_lba_lock iv) bio" by (simp add: lock_def locks_def)
    then show ?thesis using lba.try_free[OF fits] lba.try_busy[OF fits] True
      by (cases "?held \<inter> bio_lbas bio = {}") auto
  next
    case False
    then have "lock = Inr (0, iv_lba_lock iv)" unfolding lock_def locks_def by (simp only: if_False)
    then show ?thesis using False by simp
  qed
  then obtain res lk where l: "lock = Inr (res, lk)" and lk: "length lk = length (iv_lba_lock iv)"
      "if res = 0 \<and> locks jp bio then ?held \<inter> bio_lbas bio = {} \<and> locked lk = ?held \<union> bio_lbas bio
       else lk = iv_lba_lock iv" by blast
  have self: "iv\<lparr>iv_lba_lock := lk\<rparr> = iv\<lparr>iv_lba_lock := lk, iv_timestamp := iv_timestamp iv\<rparr>" by simp
  define b where "b = set_tags pi (iv\<lparr>iv_lba_lock := lk\<rparr>) bio"
  obtain a r where b: "b = bio\<lparr>b_apptag := a, b_reftag := r\<rparr>"
  proof (cases "ns_pi_type (iv_ns_info iv) \<noteq> 0 \<and> ns_meta_size (iv_ns_info iv) \<noteq> 0")
    case True
    then show ?thesis using that by (simp add: b_def set_tags_def Let_def)
  next
    case False
    then have "b = bio" by (auto simp: b_def set_tags_def)
    then show ?thesis using that[of "b_reftag bio" "b_apptag bio"] by simp
  qed
  have fr: "bio_frame bio (b\<lparr>b_data := d, b_meta := m, b_block_desc := e\<rparr>)"
    if "length d = length (b_data bio)" "length m = length (b_meta bio)" "length e = length (b_block_desc bio)" for d m e
    using that unfolding bio_frame_def b by (intro exI[of _ a] exI[of _ r] exI[of _ d] exI[of _ m] exI[of _ e]) simp
  have fr0: "bio_frame bio b"
    using fr[of "b_data bio" "b_meta bio" "b_block_desc bio"] by (simp add: b)
  note simps = iover_generate_data_def[of pi escape iv jp bio, folded lock_def, unfolded l bnd_Inr Let_def prod.case, folded b_def]
  show ?thesis
  proof (cases "res \<noteq> 0")
    case True
    then have "iover_generate_data pi escape iv jp bio = Inr (res, iv\<lparr>iv_lba_lock := lk\<rparr>, bio)"
      unfolding simps by (simp add: Let_def)
    then show ?thesis using lk self bio_frame_refl by metis
  next
    case False
    consider "b_opcode b = bio_write" "jp_compare jp" | "b_opcode b = bio_read" "jp_compare jp" "jp_lba_overlap jp"
      | "iover_generate_data pi escape iv jp bio = Inr (0, iv\<lparr>iv_lba_lock := lk\<rparr>, b)"
      using False by (cases "b_opcode b"; cases "jp_compare jp"; cases "jp_lba_overlap jp") (simp_all add: simps)
    then show ?thesis
    proof cases
      case 1
      let ?iv = "iv\<lparr>iv_lba_lock := lk, iv_timestamp := iv_timestamp iv + 1\<rparr>"
      have "iover_ok ?iv" "bio_ok ?iv b" using ok bio by (simp_all add: b)
      then obtain d m where g: "for_upto 0 (nlbs_nat b) (generate_block ?iv escape) b = Inr (b\<lparr>b_data := d, b_meta := m\<rparr>)"
          "length d = length (b_data b)" "length m = length (b_meta b)"
        using generate_blocks_ok by blast
      have "iover_generate_data pi escape iv jp bio = Inr (0, ?iv, b\<lparr>b_data := d, b_meta := m\<rparr>)"
        using False 1 g(1) unfolding simps by (simp add: Let_def)
      moreover have "bio_frame bio (b\<lparr>b_data := d, b_meta := m\<rparr>)"
        using fr[of d m "b_block_desc bio"] g(2,3) by (simp add: b)
      ultimately show ?thesis using lk False by blast
    next
      case 2
      let ?ds = "take (nlbs_nat bio) (drop (slba_nat bio) (iv_block_desc iv))"
      have "slba_nat bio + nlbs_nat bio \<le> length (iv_block_desc iv)" using bio by (simp add: bio_ok_def Let_def)
      then have n: "length ?ds = nlbs_nat bio" by simp
      let ?bds = "?ds @ drop (nlbs_nat bio) (b_block_desc bio)"
      have "mem_read (iv_block_desc iv) (slba_nat b) (nlbs_nat b) = Inr ?ds"
        using bio by (simp add: b bio_ok_def Let_def)
      moreover have "mem_write (b_block_desc b) 0 ?ds = Inr ?bds" using n bd by (simp add: b)
      ultimately have "iover_generate_data pi escape iv jp bio = Inr (0, iv\<lparr>iv_lba_lock := lk\<rparr>, b\<lparr>b_block_desc := ?bds\<rparr>)"
        using False 2 unfolding simps by (simp add: Let_def)
      moreover have "bio_frame bio (b\<lparr>b_block_desc := ?bds\<rparr>)"
        using fr[of "b_data bio" "b_meta bio" ?bds] n bd by (simp add: b)
      ultimately show ?thesis using lk False self by metis
    next
      case 3
      then show ?thesis using lk False self fr0 by metis
    qed
  qed
qed

section \<open>Jobs that fit their namespace\<close>

text \<open>Buffers for requests of up to \<open>M\<close> blocks.\<close>

definition bio_sized :: "namespace_info \<Rightarrow> nat \<Rightarrow> bio \<Rightarrow> bool" where
  "bio_sized ns M b \<longleftrightarrow>
     (unat (ns_data_size ns) + (if ns_extended_lba ns then unat (ns_meta_size ns) else 0)) * M \<le> length (b_data b) \<and>
     (unat (ns_data_size ns) + (if ns_extended_lba ns then unat (ns_meta_size ns) else 0)) * M < 2 ^ 32 \<and>
     (\<not> ns_extended_lba ns \<longrightarrow> unat (ns_meta_size ns) * M \<le> length (b_meta b) \<and> unat (ns_meta_size ns) * M < 2 ^ 32) \<and>
     M \<le> length (b_block_desc b)"

definition job_fits :: "nat \<Rightarrow> iogen_job \<Rightarrow> bool" where
  "job_fits M job \<longleftrightarrow>
     length (j_opr_lottery job) = 100 \<and> (\<forall>x \<in> set (j_opr_lottery job). unat x < 6) \<and>
     length (j_lbas job) = 6 \<and> (\<forall>l \<in> set (j_lbas job). 1 \<le> unat (lb_min_lbas l) \<and>
       unat (lb_min_lbas l) + unat (lb_lbas_dist l) \<le> M) \<and>
     length (jp_iosizes (j_params job)) = 6 \<and> (\<forall>sz \<in> set (jp_iosizes (j_params job)). iosize_align sz = 0) \<and>
     jp_slba_type (j_params job) \<in> {slba_type_seq, slba_type_uniform, slba_type_zipf} \<and>
     jp_slba_align (j_params job) \<le> ns_data_size (j_ns_info job) \<and>
     fst (j_slba_next job) \<le> j_lba_range_size job \<and> snd (j_slba_next job) \<le> j_lba_range_size job \<and>
     (\<forall>i \<in> set (j_bio_free job). i < length (j_bio_pool job)) \<and>
     (\<forall>b \<in> set (j_bio_pool job). bio_sized (j_ns_info job) M b) \<and>
     M < unat (j_lba_range_size job) \<and> M < 2 ^ 32"

definition run_ok :: "nat \<Rightarrow> job_run \<Rightarrow> bool" where
  "run_ok M rs \<longleftrightarrow>
     (let job = r_job rs; iv = r_iover rs in
      job_fits M job \<and> iover_ok iv \<and> iv_ns_info iv = j_ns_info job \<and>
      unat (j_lba_range_begin job) + unat (j_lba_range_size job) \<le> length (iv_block_desc iv) \<and>
      length (iv_block_desc iv) < 2 ^ 64 \<and> length (iv_block_desc iv) \<le> 64 * length (iv_lba_lock iv) \<and>
      length (iv_lba_lock iv) < 2 ^ 32)"

text \<open>A request of at most \<open>M\<close> blocks inside the namespace satisfies what the verifier relies on.\<close>

lemma bio_sized_ok:
  assumes "run_ok M rs" and "bio_sized (j_ns_info (r_job rs)) M b" and "nlbs_nat b \<le> M"
    and "slba_nat b + nlbs_nat b \<le> length (iv_block_desc (r_iover rs))"
  shows "bio_ok (r_iover rs) b" "bio_fits (length (iv_lba_lock (r_iover rs))) b"
    "nlbs_nat b \<le> length (b_block_desc b)"
proof -
  let ?iv = "r_iover rs" and ?ns = "j_ns_info (r_job rs)"
  let ?bs = "unat (ns_data_size ?ns) + (if ns_extended_lba ?ns then unat (ns_meta_size ?ns) else 0)"
  have ns: "iv_ns_info ?iv = ?ns" "unat (ns_block_size ?ns) = ?bs" and len: "length (iv_block_desc ?iv) < 2 ^ 64"
    using assms(1) by (auto simp: run_ok_def iover_ok_def Let_def)
  have "unat (get_block_size ?iv b) \<le> ?bs" using ns by (simp add: get_block_size_def)
  then have "unat (get_block_size ?iv b) * nlbs_nat b \<le> ?bs * M" using assms(3) by (intro mult_mono) auto
  then have d: "unat (get_block_size ?iv b) * nlbs_nat b \<le> length (b_data b)"
      "unat (get_block_size ?iv b) * nlbs_nat b < 2 ^ 32"
    using assms(2) unfolding bio_sized_def by (blast intro: order_trans order_le_less_trans)+
  have "unat (ns_meta_size ?ns) * nlbs_nat b \<le> unat (ns_meta_size ?ns) * M" using assms(3) by (rule mult_le_mono2)
  then have "\<not> ns_extended_lba ?ns \<longrightarrow> unat (ns_meta_size ?ns) * nlbs_nat b \<le> length (b_meta b) \<and>
      unat (ns_meta_size ?ns) * nlbs_nat b < 2 ^ 32"
    using assms(2) unfolding bio_sized_def by (blast intro: order_trans order_le_less_trans)
  then show "bio_ok ?iv b" using d assms(4) len unfolding bio_ok_def Let_def ns(1) by blast
  show "bio_fits (length (iv_lba_lock ?iv)) b" using assms(1,4) by (simp add: run_ok_def bio_fits_def Let_def)
  show "nlbs_nat b \<le> length (b_block_desc b)" using assms(2,3) by (simp add: bio_sized_def)
qed

section \<open>Size and start address\<close>

lemma draw_nlbs_ok:
  assumes "job_fits M job" and "bio_opcode_num op < 6"
  shows "\<exists>n. draw_nlbs job rand op = Inr n \<and> 1 \<le> unat n \<and> unat n \<le> M"
proof -
  let ?l = "j_lbas job ! bio_opcode_num op"
  have l: "1 \<le> unat (lb_min_lbas ?l)" "unat (lb_min_lbas ?l) + unat (lb_lbas_dist ?l) \<le> M" "M < 2 ^ 32"
    and al: "iosize_align (jp_iosizes (j_params job) ! bio_opcode_num op) = 0"
    and ln: "length (j_lbas job) = 6" "length (jp_iosizes (j_params job)) = 6"
    using assms by (auto simp: job_fits_def)
  have d: "unat (lb_lbas_dist ?l + 1) = unat (lb_lbas_dist ?l) + 1" using l by (simp add: unat_word_ariths)
  then have nz: "lb_lbas_dist ?l + 1 \<noteq> 0" by (metis unat_0 add_is_0 zero_neq_one)
  define x where "x = rand mod ucast (lb_lbas_dist ?l + 1)"
  have "unat x < unat (lb_lbas_dist ?l) + 1"
    using d nz by (simp add: x_def unat_mod unat_u32_u64)
  then have "unat (lb_min_lbas ?l + ucast x) = unat (lb_min_lbas ?l) + unat x" "unat x \<le> unat (lb_lbas_dist ?l)"
    using l by (simp_all add: unat_word_ariths unsigned_ucast_eq take_bit_eq_mod)
  then show ?thesis using assms(2) ln nz l al x_def by (auto simp: draw_nlbs_def)
qed

lemma set_sizes_frame:
  "\<exists>r sz p c ms. set_sizes env job bio =
     (job\<lparr>j_rng := r\<rparr>, bio\<lparr>b_iosize := sz, b_pract := p, b_prchk := c, b_meta_size := ms\<rparr>)"
proof -
  let ?j = "fst (set_sizes env job bio)" and ?b = "snd (set_sizes env job bio)"
  have "set_sizes env job bio = (job\<lparr>j_rng := j_rng ?j\<rparr>,
      bio\<lparr>b_iosize := b_iosize ?b, b_pract := b_pract ?b, b_prchk := b_prchk ?b, b_meta_size := b_meta_size ?b\<rparr>)"
    by (cases "rng_below env (j_rng job) (jp_pract (j_params job))";
        cases "ns_pi_type (j_ns_info job) \<noteq> 0 \<and> ns_meta_size (j_ns_info job) \<noteq> 0")
       (simp_all add: set_sizes_def Let_def)
  then show ?thesis by blast
qed

text \<open>A sum of a position in a range of at most \<open>n\<close> blocks, without wrap-around.\<close>

lemma unat_plus_u32:
  fixes s k :: u64 and n :: u32
  assumes "s \<le> k" and "unat n \<le> unat k" and "unat k < 2 ^ 63"
  shows "unat (s + ucast n) = unat s + unat n"
  using assms by (simp add: unat_word_ariths unat_u32_u64 word_le_nat_alt)

lemma seq_slba:
  fixes s k :: u64 and n :: u32
  assumes "s \<le> k" and "unat n \<le> unat k" and "unat k < 2 ^ 63"
  shows "unat (if s + ucast n > k then 0 else s) + unat n \<le> unat k"
    "(if s + ucast n > k then 0 else s) + ucast n \<le> k"
  using unat_plus_u32[OF assms] assms(2) by (auto simp: word_less_nat_alt word_le_nat_alt not_less unat_u32_u64)

lemma choose_slba_ok:
  assumes ok: "run_ok M rs" and n: "nlbs_nat bio \<le> M"
  shows "\<exists>r nx x go. choose_slba env rs bio =
      Inr (rs\<lparr>r_job := (r_job rs)\<lparr>j_rng := r, j_slba_next := nx\<rparr>\<rparr>, bio\<lparr>b_slba := x\<rparr>, go) \<and>
    fst nx \<le> j_lba_range_size (r_job rs) \<and> snd nx \<le> j_lba_range_size (r_job rs) \<and>
    unat x + nlbs_nat bio \<le> unat (j_lba_range_size (r_job rs))"
proof -
  let ?job = "r_job rs" and ?n = "ucast (b_nlbs bio) :: u64"
  let ?k = "j_lba_range_size ?job"
  have f: "fst (j_slba_next ?job) \<le> ?k" "snd (j_slba_next ?job) \<le> ?k" "nlbs_nat bio < unat ?k"
      "jp_slba_type (j_params ?job) \<in> {slba_type_seq, slba_type_uniform, slba_type_zipf}"
    and k: "unat ?k < 2 ^ 63"
    using ok n by (auto simp: run_ok_def job_fits_def Let_def)
  note s1 = seq_slba[OF f(1) less_imp_le[OF f(3)] k] and s2 = seq_slba[OF f(2) less_imp_le[OF f(3)] k]
  have d: "unat (?k - ?n) = unat ?k - nlbs_nat bio" "?k - ?n \<noteq> 0"
  proof -
    show "unat (?k - ?n) = unat ?k - nlbs_nat bio" using f(3) by (simp add: unat_sub word_le_nat_alt unat_u32_u64)
    then show "?k - ?n \<noteq> 0" using f(3) by (metis unat_0 zero_less_diff less_irrefl)
  qed
  have md: "unat (y mod (?k - ?n)) + nlbs_nat bio \<le> unat ?k" for y
  proof -
    have "unat (y mod (?k - ?n)) < unat ?k - nlbs_nat bio" using d f(3) by (simp add: unat_mod)
    then show ?thesis by simp
  qed
  consider "jp_slba_type (j_params ?job) = slba_type_seq" | "jp_slba_type (j_params ?job) = slba_type_uniform"
    | "jp_slba_type (j_params ?job) = slba_type_zipf" using f(4) by blast
  then show ?thesis
  proof cases
    case 1
    have rs: "rs = rs\<lparr>r_job := ?job\<lparr>j_rng := j_rng ?job, j_slba_next := j_slba_next ?job\<rparr>\<rparr>" by simp
    show ?thesis
    proof (cases "jp_separate_stream (j_params ?job) \<and> b_opcode bio = bio_read")
      case True
      let ?s = "if snd (j_slba_next ?job) + ?n > ?k then 0 else snd (j_slba_next ?job)"
      show ?thesis
      proof (cases "?s + ?n \<ge> fst (j_slba_next ?job)")
        case giving_up: True
        have "choose_slba env rs bio = Inr (rs, bio\<lparr>b_slba := ?s\<rparr>, False)"
          unfolding choose_slba_def Let_def 1 slba_type.case if_P[OF True] if_P[OF giving_up] ..
        then show ?thesis using rs s2 f(1,2) by metis
      next
        case False
        have "choose_slba env rs bio = Inr (rs\<lparr>r_job := ?job\<lparr>j_rng := j_rng ?job,
            j_slba_next := (fst (j_slba_next ?job), ?s + ?n)\<rparr>\<rparr>, bio\<lparr>b_slba := ?s\<rparr>, True)"
          unfolding choose_slba_def Let_def 1 slba_type.case if_P[OF True] if_not_P[OF False] by (simp split del: if_split)
        then show ?thesis using s2 f(1) by (metis fst_conv snd_conv)
      qed
    next
      case False
      let ?s = "if fst (j_slba_next ?job) + ?n > ?k then 0 else fst (j_slba_next ?job)"
      have "choose_slba env rs bio = Inr (rs\<lparr>r_job := ?job\<lparr>j_rng := j_rng ?job,
          j_slba_next := (?s + ?n, snd (j_slba_next ?job))\<rparr>\<rparr>, bio\<lparr>b_slba := ?s\<rparr>, True)"
        unfolding choose_slba_def Let_def 1 slba_type.case if_not_P[OF False] by (simp split del: if_split)
      then show ?thesis using s1 f(2) by (metis fst_conv snd_conv)
    qed
  next
    case 2
    obtain y r where r: "rand48 (j_rng ?job) = (y, r)" by fastforce
    have "choose_slba env rs bio = Inr (rs\<lparr>r_job := ?job\<lparr>j_rng := r, j_slba_next := j_slba_next ?job\<rparr>\<rparr>,
        bio\<lparr>b_slba := y mod (?k - ?n)\<rparr>, True)"
      using 2 r d(2) by (simp add: choose_slba_def Let_def rng_uniform_u48_def)
    then show ?thesis using md f(1,2) by blast
  next
    case 3
    obtain y r where r: "ge_zipf_int env (j_rng ?job) = (y, r)" by fastforce
    have "choose_slba env rs bio = Inr (rs\<lparr>r_job := ?job\<lparr>j_rng := r, j_slba_next := j_slba_next ?job\<rparr>\<rparr>,
        bio\<lparr>b_slba := hash64 y mod (?k - ?n)\<rparr>, True)"
      using 3 r d(2) by (simp add: choose_slba_def Let_def)
    then show ?thesis using md f(1,2) by blast
  qed
qed

section \<open>Placing a request\<close>

text \<open>
  What placing and finishing a request may change of a run: the random state and the next
  sequential addresses of the job, the lock words and the timestamp of the verifier.
\<close>

definition run_frame :: "job_run \<Rightarrow> job_run \<Rightarrow> bool" where
  "run_frame rs rs' \<longleftrightarrow> (\<exists>r nx lk ts. rs' = rs\<lparr>r_job := (r_job rs)\<lparr>j_rng := r, j_slba_next := nx\<rparr>,
       r_iover := (r_iover rs)\<lparr>iv_lba_lock := lk, iv_timestamp := ts\<rparr>\<rparr> \<and>
     fst nx \<le> j_lba_range_size (r_job rs) \<and> snd nx \<le> j_lba_range_size (r_job rs) \<and>
     length lk = length (iv_lba_lock (r_iover rs)))"

lemma run_frame_ok: "run_frame rs rs' \<Longrightarrow> run_ok M rs \<Longrightarrow> run_ok M rs'"
  by (auto simp: run_frame_def run_ok_def job_fits_def Let_def)

lemma run_frame_fields:
  assumes "run_frame rs rs'"
  shows "j_params (r_job rs') = j_params (r_job rs)" "j_ns_info (r_job rs') = j_ns_info (r_job rs)"
    "j_bio_free (r_job rs') = j_bio_free (r_job rs)" "j_bio_pool (r_job rs') = j_bio_pool (r_job rs)"
    "j_lba_range_begin (r_job rs') = j_lba_range_begin (r_job rs)"
    "j_lba_range_size (r_job rs') = j_lba_range_size (r_job rs)"
    "j_bio_inflight (r_job rs') = j_bio_inflight (r_job rs)" "j_num_inflight (r_job rs') = j_num_inflight (r_job rs)"
  using assms by (auto simp: run_frame_def)

lemma run_frame_trans:
  assumes "run_frame a b" and "run_frame b c"
  shows "run_frame a c"
proof -
  obtain r nx lk ts where b: "b = a\<lparr>r_job := (r_job a)\<lparr>j_rng := r, j_slba_next := nx\<rparr>,
      r_iover := (r_iover a)\<lparr>iv_lba_lock := lk, iv_timestamp := ts\<rparr>\<rparr>"
      "length lk = length (iv_lba_lock (r_iover a))" using assms(1) by (auto simp: run_frame_def)
  obtain r' nx' lk' ts' where c: "c = b\<lparr>r_job := (r_job b)\<lparr>j_rng := r', j_slba_next := nx'\<rparr>,
      r_iover := (r_iover b)\<lparr>iv_lba_lock := lk', iv_timestamp := ts'\<rparr>\<rparr>"
      "fst nx' \<le> j_lba_range_size (r_job b)" "snd nx' \<le> j_lba_range_size (r_job b)"
      "length lk' = length (iv_lba_lock (r_iover b))" using assms(2) by (auto simp: run_frame_def)
  show ?thesis unfolding run_frame_def
    using b c by (intro exI[of _ r'] exI[of _ nx'] exI[of _ lk'] exI[of _ ts']) simp
qed

text \<open>A request that lies in the range of the job.\<close>

definition in_range :: "iogen_job \<Rightarrow> bio \<Rightarrow> bool" where
  "in_range job b \<longleftrightarrow> unat (j_lba_range_begin job) \<le> slba_nat b \<and>
     slba_nat b + nlbs_nat b \<le> unat (j_lba_range_begin job) + unat (j_lba_range_size job)"

text \<open>The lock words after a request was placed (\<open>Some\<close>) or given up (\<open>None\<close>).\<close>

definition lock_effect :: "job_run \<Rightarrow> job_run \<Rightarrow> bio option \<Rightarrow> bool" where
  "lock_effect rs rs' p \<longleftrightarrow>
     (let lk = iv_lba_lock (r_iover rs); lk' = iv_lba_lock (r_iover rs') in
      case p of None \<Rightarrow> lk' = lk
      | Some b \<Rightarrow> if locks (j_params (r_job rs)) b
                 then locked lk \<inter> bio_lbas b = {} \<and> locked lk' = locked lk \<union> bio_lbas b else lk' = lk)"

lemma place_slba_fits:
  assumes "run_ok M rs" and "slba_nat bio + nlbs_nat bio \<le> unat (j_lba_range_size (r_job rs))"
  shows "in_range (r_job rs) (place_slba (r_job rs) bio)"
    "place_slba (r_job rs) bio = bio\<lparr>b_slba := b_slba bio + j_lba_range_begin (r_job rs)\<rparr>"
proof -
  have "\<not> jp_slba_align (j_params (r_job rs)) > ns_data_size (j_ns_info (r_job rs))"
    using assms(1) by (simp add: run_ok_def job_fits_def Let_def not_less)
  then show p: "place_slba (r_job rs) bio = bio\<lparr>b_slba := b_slba bio + j_lba_range_begin (r_job rs)\<rparr>"
    by (simp add: place_slba_def Let_def)
  have "unat (j_lba_range_begin (r_job rs)) + unat (j_lba_range_size (r_job rs)) < 2 ^ 64"
    using assms(1) by (simp add: run_ok_def Let_def)
  then have "unat (b_slba bio + j_lba_range_begin (r_job rs)) = slba_nat bio + unat (j_lba_range_begin (r_job rs))"
    using assms(2) by (simp add: unat_word_ariths)
  then show "in_range (r_job rs) (place_slba (r_job rs) bio)" using assms(2) p by (simp add: in_range_def)
qed

text \<open>
  Nothing hinders a request when no block is locked and reads have no stream of their own. Then the
  first attempt succeeds.
\<close>

definition unhindered :: "job_run \<Rightarrow> bool" where
  "unhindered rs \<longleftrightarrow> locked (iv_lba_lock (r_iover rs)) = {} \<and>
     (jp_slba_type (j_params (r_job rs)) \<noteq> slba_type_seq \<or> \<not> jp_separate_stream (j_params (r_job rs)))"

lemma choose_slba_goes:
  assumes "choose_slba env rs bio = Inr (rs', bio', go)" and "unhindered rs"
  shows "go"
  using assms by (auto simp: choose_slba_def unhindered_def Let_def bnd_eq_Inr split: slba_type.splits if_splits prod.splits)

lemma generate_data_free:
  assumes "iover_generate_data pi escape iv jp bio = Inr (res, iv', b')"
    and "bio_fits (length (iv_lba_lock iv)) bio" and "locked (iv_lba_lock iv) = {}"
  shows "res = 0"
proof -
  obtain lk where "try_lock_lbas (iv_lba_lock iv) bio = Inr (0, lk)" using lba.try_free[OF assms(2)] assms(3) by auto
  then have "\<exists>lk. (if \<not> jp_lba_overlap jp \<and> bio_opcode_num (b_opcode bio) < bio_opcode_num bio_identify
      then try_lock_lbas (iv_lba_lock iv) bio else Inr (0, iv_lba_lock iv)) = Inr (0, lk)" by simp
  with assms(1) show ?thesis
    unfolding iover_generate_data_def by (auto simp: Let_def bnd_eq_Inr split: bio_opcode.splits if_splits)
qed

text \<open>One attempt: the address is chosen and the data generated.\<close>

lemma place_attempt:
  assumes ok: "run_ok M rs" and sz: "bio_sized (j_ns_info (r_job rs)) M bio" and n: "nlbs_nat bio \<le> M"
  obtains rs1 x go where "choose_slba env rs bio = Inr (rs1, bio\<lparr>b_slba := x\<rparr>, go)" "run_frame rs rs1"
    "iv_lba_lock (r_iover rs1) = iv_lba_lock (r_iover rs)" "unhindered rs \<Longrightarrow> go"
    "\<exists>res lk ts b'. iover_generate_data pi escape (r_iover rs1) (j_params (r_job rs1))
        (place_slba (r_job rs1) (bio\<lparr>b_slba := x\<rparr>)) =
        Inr (res, (r_iover rs1)\<lparr>iv_lba_lock := lk, iv_timestamp := ts\<rparr>, b') \<and>
      run_frame rs (rs1\<lparr>r_iover := (r_iover rs1)\<lparr>iv_lba_lock := lk, iv_timestamp := ts\<rparr>\<rparr>) \<and>
      b_opcode b' = b_opcode bio \<and> b_nlbs b' = b_nlbs bio \<and> bio_sized (j_ns_info (r_job rs)) M b' \<and>
      in_range (r_job rs) b' \<and>
      lock_effect rs (rs1\<lparr>r_iover := (r_iover rs1)\<lparr>iv_lba_lock := lk, iv_timestamp := ts\<rparr>\<rparr>)
        (if res = 0 then Some b' else None) \<and> (unhindered rs \<longrightarrow> res = 0)"
proof -
  obtain r nx x go where c: "choose_slba env rs bio =
      Inr (rs\<lparr>r_job := (r_job rs)\<lparr>j_rng := r, j_slba_next := nx\<rparr>\<rparr>, bio\<lparr>b_slba := x\<rparr>, go)"
      "fst nx \<le> j_lba_range_size (r_job rs)" "snd nx \<le> j_lba_range_size (r_job rs)"
      "unat x + nlbs_nat bio \<le> unat (j_lba_range_size (r_job rs))"
    using choose_slba_ok[OF ok n] by blast
  define rs1 where "rs1 = rs\<lparr>r_job := (r_job rs)\<lparr>j_rng := r, j_slba_next := nx\<rparr>\<rparr>"
  have fr1: "run_frame rs rs1"
    unfolding run_frame_def rs1_def
    by (intro exI[of _ r] exI[of _ nx] exI[of _ "iv_lba_lock (r_iover rs)"] exI[of _ "iv_timestamp (r_iover rs)"])
       (use c in simp)
  have ok1: "run_ok M rs1" using run_frame_ok[OF fr1 ok] .
  let ?b = "place_slba (r_job rs1) (bio\<lparr>b_slba := x\<rparr>)"
  have p: "in_range (r_job rs1) ?b" "?b = bio\<lparr>b_slba := x + j_lba_range_begin (r_job rs1)\<rparr>"
    using place_slba_fits[OF ok1, of "bio\<lparr>b_slba := x\<rparr>"] c(4) by (simp_all add: rs1_def)
  have fits: "slba_nat ?b + nlbs_nat ?b \<le> length (iv_block_desc (r_iover rs1))"
    using p(1) ok1 by (simp add: in_range_def run_ok_def Let_def)
  have sz1: "bio_sized (j_ns_info (r_job rs1)) M ?b" using sz p(2) by (simp add: bio_sized_def rs1_def)
  have n1: "nlbs_nat ?b \<le> M" using n p(2) by simp
  have iv1: "iover_ok (r_iover rs1)" using ok1 by (simp add: run_ok_def Let_def)
  obtain res lk ts b' where g: "iover_generate_data pi escape (r_iover rs1) (j_params (r_job rs1)) ?b =
        Inr (res, (r_iover rs1)\<lparr>iv_lba_lock := lk, iv_timestamp := ts\<rparr>, b')" "bio_frame ?b b'"
      "length lk = length (iv_lba_lock (r_iover rs1))"
      "if res = 0 \<and> locks (j_params (r_job rs1)) ?b
       then locked (iv_lba_lock (r_iover rs1)) \<inter> bio_lbas ?b = {} \<and>
         locked lk = locked (iv_lba_lock (r_iover rs1)) \<union> bio_lbas ?b
       else lk = iv_lba_lock (r_iover rs1)"
    using generate_data_total[OF iv1 bio_sized_ok[OF ok1 sz1 n1 fits]] by blast
  let ?rs = "rs1\<lparr>r_iover := (r_iover rs1)\<lparr>iv_lba_lock := lk, iv_timestamp := ts\<rparr>\<rparr>"
  note bf = bio_frame_fields[OF g(2)]
  have "run_frame rs1 ?rs" unfolding run_frame_def
    by (intro exI[of _ "j_rng (r_job rs1)"] exI[of _ "j_slba_next (r_job rs1)"] exI[of _ lk] exI[of _ ts])
       (use g(3) ok1 in \<open>simp add: run_ok_def job_fits_def Let_def\<close>)
  then have fr: "run_frame rs ?rs" by (rule run_frame_trans[OF fr1])
  have "bio_lbas b' = bio_lbas ?b" "locks jp b' = locks jp ?b" for jp
    using bf by (simp_all add: bio_lbas_def locks_def)
  then have le: "lock_effect rs ?rs (if res = 0 then Some b' else None)"
    using g(4) by (auto simp: lock_effect_def rs1_def Let_def split: if_splits)
  have "b_opcode b' = b_opcode bio \<and> b_nlbs b' = b_nlbs bio \<and> bio_sized (j_ns_info (r_job rs)) M b' \<and>
      in_range (r_job rs) b'"
    using bf p sz by (simp add: bio_sized_def in_range_def rs1_def)
  moreover have "unhindered rs \<Longrightarrow> go" by (rule choose_slba_goes[OF c(1)])
  moreover have "unhindered rs \<longrightarrow> res = 0"
    using generate_data_free[OF g(1) bio_sized_ok(2)[OF ok1 sz1 n1 fits]] by (simp add: unhindered_def rs1_def)
  ultimately show ?thesis using that[of rs1 x go] c(1) fr1 g(1) fr le unfolding rs1_def[symmetric] by (auto simp: rs1_def)
qed

lemma place_bio_ok:
  assumes "run_ok M rs" and "bio_sized (j_ns_info (r_job rs)) M bio" and "nlbs_nat bio \<le> M"
  shows "\<exists>rs' b' p. place_bio env tries rs bio = Inr (rs', b', p) \<and> run_frame rs rs' \<and>
    b_opcode b' = b_opcode bio \<and> b_nlbs b' = b_nlbs bio \<and> bio_sized (j_ns_info (r_job rs)) M b' \<and>
    (p = Gave_up \<and> lock_effect rs rs' None \<or>
     p = Placed b' \<and> in_range (r_job rs) b' \<and> lock_effect rs rs' (Some b')) \<and>
    (unhindered rs \<and> 0 < tries \<longrightarrow> p \<noteq> Gave_up)"
  using assms
proof (induction tries arbitrary: rs bio)
  case 0
  have "run_frame rs rs" unfolding run_frame_def
    by (intro exI[of _ "j_rng (r_job rs)"] exI[of _ "j_slba_next (r_job rs)"] exI[of _ "iv_lba_lock (r_iover rs)"]
        exI[of _ "iv_timestamp (r_iover rs)"]) (use 0(1) in \<open>simp add: run_ok_def job_fits_def Let_def\<close>)
  then show ?case using 0 by (simp add: lock_effect_def)
next
  case (Suc tries)
  obtain rs1 x go where c: "choose_slba env rs bio = Inr (rs1, bio\<lparr>b_slba := x\<rparr>, go)" "run_frame rs rs1"
      "iv_lba_lock (r_iover rs1) = iv_lba_lock (r_iover rs)" "unhindered rs \<Longrightarrow> go"
    and gen: "\<exists>res lk ts b'. iover_generate_data (ge_pr_info env tries) (ge_escape env tries) (r_iover rs1)
        (j_params (r_job rs1)) (place_slba (r_job rs1) (bio\<lparr>b_slba := x\<rparr>)) =
        Inr (res, (r_iover rs1)\<lparr>iv_lba_lock := lk, iv_timestamp := ts\<rparr>, b') \<and>
      run_frame rs (rs1\<lparr>r_iover := (r_iover rs1)\<lparr>iv_lba_lock := lk, iv_timestamp := ts\<rparr>\<rparr>) \<and>
      b_opcode b' = b_opcode bio \<and> b_nlbs b' = b_nlbs bio \<and> bio_sized (j_ns_info (r_job rs)) M b' \<and>
      in_range (r_job rs) b' \<and>
      lock_effect rs (rs1\<lparr>r_iover := (r_iover rs1)\<lparr>iv_lba_lock := lk, iv_timestamp := ts\<rparr>\<rparr>)
        (if res = 0 then Some b' else None) \<and> (unhindered rs \<longrightarrow> res = 0)"
    using place_attempt[OF Suc.prems] by metis
  obtain res lk ts b' where g: "iover_generate_data (ge_pr_info env tries) (ge_escape env tries) (r_iover rs1)
        (j_params (r_job rs1)) (place_slba (r_job rs1) (bio\<lparr>b_slba := x\<rparr>)) =
        Inr (res, (r_iover rs1)\<lparr>iv_lba_lock := lk, iv_timestamp := ts\<rparr>, b')"
      "run_frame rs (rs1\<lparr>r_iover := (r_iover rs1)\<lparr>iv_lba_lock := lk, iv_timestamp := ts\<rparr>\<rparr>)"
      "b_opcode b' = b_opcode bio" "b_nlbs b' = b_nlbs bio" "bio_sized (j_ns_info (r_job rs)) M b'"
      "in_range (r_job rs) b'"
      "lock_effect rs (rs1\<lparr>r_iover := (r_iover rs1)\<lparr>iv_lba_lock := lk, iv_timestamp := ts\<rparr>\<rparr>)
        (if res = 0 then Some b' else None)" "unhindered rs \<Longrightarrow> res = 0"
    using gen by blast
  let ?rs = "rs1\<lparr>r_iover := (r_iover rs1)\<lparr>iv_lba_lock := lk, iv_timestamp := ts\<rparr>\<rparr>"
  have "jp_slba_type (j_params (r_job rs1)) \<noteq> slba_type_replay"
    using Suc.prems(1) run_frame_fields(1)[OF c(2)] by (auto simp: run_ok_def job_fits_def Let_def)
  then have step: "place_bio env (Suc tries) rs bio = (if \<not> go then Inr (rs1, bio\<lparr>b_slba := x\<rparr>, Gave_up)
      else if res = 0 then Inr (?rs, b', Placed b') else place_bio env tries ?rs b')"
    using c(1) g(1) by (simp add: Let_def)
  consider "\<not> go" | "go" "res = 0" | "go" "res \<noteq> 0" by blast
  then show ?case
  proof cases
    case 1
    then have "place_bio env (Suc tries) rs bio = Inr (rs1, bio\<lparr>b_slba := x\<rparr>, Gave_up)" using step by simp
    moreover have "lock_effect rs rs1 None" using c(3) by (simp add: lock_effect_def)
    moreover have "bio_sized (j_ns_info (r_job rs)) M (bio\<lparr>b_slba := x\<rparr>)" using Suc.prems(2) by (simp add: bio_sized_def)
    ultimately show ?thesis using c(2,4) 1 by auto
  next
    case 2
    then show ?thesis using step g by simp
  next
    case 3
    have same: "lock_effect rs ?rs None" using g(7) 3 by simp
    have fr: "j_ns_info (r_job ?rs) = j_ns_info (r_job rs)" using run_frame_fields[OF g(2)] by simp
    obtain rs' b2 p where ih: "place_bio env tries ?rs b' = Inr (rs', b2, p)" "run_frame ?rs rs'"
        "b_opcode b2 = b_opcode b'" "b_nlbs b2 = b_nlbs b'" "bio_sized (j_ns_info (r_job rs)) M b2"
        "p = Gave_up \<and> lock_effect ?rs rs' None \<or> p = Placed b2 \<and> in_range (r_job ?rs) b2 \<and> lock_effect ?rs rs' (Some b2)"
      using Suc.IH[OF run_frame_ok[OF g(2) Suc.prems(1)], of b'] g(4,5) Suc.prems(3) unfolding fr by force
    have "lock_effect ?rs rs' q = lock_effect rs rs' q" "in_range (r_job ?rs) b2 = in_range (r_job rs) b2" for q
      using same run_frame_fields[OF g(2)] by (simp_all add: lock_effect_def in_range_def split: option.splits)
    then show ?thesis using step 3 ih run_frame_trans[OF g(2) ih(2)] g(3,4,8) by auto
  qed
qed

section \<open>The whole request\<close>

lemma inject_tag_error_frame:
  "\<exists>r at er. inject_tag_error env job bio = (job\<lparr>j_rng := r\<rparr>, bio\<lparr>b_apptag := at, b_expected_result := er\<rparr>)"
proof -
  let ?j = "fst (inject_tag_error env job bio)" and ?b = "snd (inject_tag_error env job bio)"
  have "inject_tag_error env job bio =
      (job\<lparr>j_rng := j_rng ?j\<rparr>, bio\<lparr>b_apptag := b_apptag ?b, b_expected_result := b_expected_result ?b\<rparr>)"
    by (cases "rng_below env (j_rng job) (jp_inject_tag_error (j_params job))") (simp add: inject_tag_error_def)
  then show ?thesis by blast
qed

lemma finish_bio_frame:
  "\<exists>ac r to er at. finish_bio env i rs bio = rs\<lparr>r_job := (r_job rs)\<lparr>j_acct := ac, j_rng := r,
     j_bio_pool := (j_bio_pool (r_job rs))[i := bio\<lparr>b_timeout := to, b_apptag := at, b_expected_result := er\<rparr>],
     j_bio_free := remove1 i (j_bio_free (r_job rs))\<rparr>\<rparr>"
proof -
  let ?j = "sum_acct (\<lambda>s. s\<lparr>oa_ops := oa_ops s + 1\<rparr>) (r_job rs)"
    and ?b = "bio\<lparr>b_timeout := False, b_expected_result := 0\<rparr>"
  obtain r at er where "inject_tag_error env ?j ?b = (?j\<lparr>j_rng := r\<rparr>, ?b\<lparr>b_apptag := at, b_expected_result := er\<rparr>)"
    using inject_tag_error_frame by blast
  then have "finish_bio env i rs bio = rs\<lparr>r_job := (r_job rs)\<lparr>j_acct := j_acct ?j, j_rng := r,
     j_bio_pool := (j_bio_pool (r_job rs))[i := bio\<lparr>b_timeout := False, b_apptag := at, b_expected_result := er\<rparr>],
     j_bio_free := remove1 i (j_bio_free (r_job rs))\<rparr>\<rparr>"
    by (simp add: finish_bio_def sum_acct_def)
  then show ?thesis by blast
qed

text \<open>A finished request keeps the run in order.\<close>

lemma finish_bio_ok:
  assumes ok: "run_ok M rs" and i: "i < length (j_bio_pool (r_job rs))"
    and sz: "bio_sized (j_ns_info (r_job rs)) M bio" and free: "j_bio_free (r_job rs) = i # rest"
  shows "run_ok M (finish_bio env i rs bio) \<and> j_bio_free (r_job (finish_bio env i rs bio)) = rest \<and>
    r_iover (finish_bio env i rs bio) = r_iover rs \<and>
    j_params (r_job (finish_bio env i rs bio)) = j_params (r_job rs) \<and>
    (let b = j_bio_pool (r_job (finish_bio env i rs bio)) ! i in
     b_opcode b = b_opcode bio \<and> b_slba b = b_slba bio \<and> b_nlbs b = b_nlbs bio)"
proof -
  obtain ac r to er at where f: "finish_bio env i rs bio = rs\<lparr>r_job := (r_job rs)\<lparr>j_acct := ac, j_rng := r,
     j_bio_pool := (j_bio_pool (r_job rs))[i := bio\<lparr>b_timeout := to, b_apptag := at, b_expected_result := er\<rparr>],
     j_bio_free := remove1 i (j_bio_free (r_job rs))\<rparr>\<rparr>" using finish_bio_frame by blast
  have "bio_sized (j_ns_info (r_job rs)) M (bio\<lparr>b_timeout := to, b_apptag := at, b_expected_result := er\<rparr>)"
    using sz by (simp add: bio_sized_def)
  then have "run_ok M (finish_bio env i rs bio)"
    using ok free unfolding f by (auto simp: run_ok_def job_fits_def Let_def dest!: set_update_subset_insert[THEN subsetD])
  then show ?thesis using i free by (simp add: f)
qed

lemma bio_opcodes_less: "n < 6 \<Longrightarrow> bio_opcode_num (bio_opcodes ! n) < 6"
  by (auto simp: bio_opcodes_def less_Suc_eq numeral_eq_Suc)

lemma draw_opcode_ok:
  assumes "job_fits M job"
  shows "\<exists>op. draw_opcode job rand = Inr op \<and> bio_opcode_num op < 6 \<and>
    (\<exists>x \<in> set (j_opr_lottery job). unat x < 6 \<and> op = bio_opcodes ! unat x)"
proof -
  let ?x = "j_opr_lottery job ! unat (rand mod 100)"
  have r: "unat (rand mod 100) < 100" by (simp add: unat_mod)
  then have x: "unat ?x < 6" and len: "length (j_opr_lottery job) = 100" using assms by (auto simp: job_fits_def)
  moreover note bio_opcodes_less
  moreover have "?x \<in> set (j_opr_lottery job)" using r len by simp
  ultimately show ?thesis using x r len by (auto simp: draw_opcode_def)
qed

lemma run_ok_upd:
  assumes "run_ok M rs"
  shows "run_ok M (rs\<lparr>r_job := (r_job rs)\<lparr>j_rng := r\<rparr>\<rparr>)" "run_ok M (rs\<lparr>r_job := (r_job rs)\<lparr>j_acct := a\<rparr>\<rparr>)"
    "bio_sized (j_ns_info (r_job rs)) M b \<Longrightarrow>
     run_ok M (rs\<lparr>r_job := (r_job rs)\<lparr>j_bio_pool := (j_bio_pool (r_job rs))[i := b]\<rparr>\<rparr>)"
  using assms by (auto simp: run_ok_def job_fits_def Let_def dest!: set_update_subset_insert[THEN subsetD])

text \<open>What one call of \<open>generate_bio\<close> yields, given up or prepared.\<close>

definition generated :: "nat \<Rightarrow> job_run \<Rightarrow> job_run \<Rightarrow> nat option \<Rightarrow> bool" where
  "generated M rs rs' out \<longleftrightarrow>
     run_ok M rs' \<and>
     (case out of
        None \<Rightarrow> j_bio_free (r_job rs') = j_bio_free (r_job rs) \<and> lock_effect rs rs' None
      | Some i \<Rightarrow> j_bio_free (r_job rs) = i # j_bio_free (r_job rs') \<and>
          (let b = j_bio_pool (r_job rs') ! i in
           if b_opcode b = bio_flush then lock_effect rs rs' None
           else 1 \<le> nlbs_nat b \<and> nlbs_nat b \<le> M \<and> in_range (r_job rs) b \<and> lock_effect rs rs' (Some b)))"

lemma generated_finish:
  assumes ok: "run_ok M rs1" and free: "j_bio_free (r_job rs) = i # rest" "j_bio_free (r_job rs1) = i # rest"
    and sz: "bio_sized (j_ns_info (r_job rs1)) M b" and i: "i < length (j_bio_pool (r_job rs1))"
    and eff: "if b_opcode b = bio_flush then lock_effect rs rs1 None
      else 1 \<le> nlbs_nat b \<and> nlbs_nat b \<le> M \<and> in_range (r_job rs) b \<and> lock_effect rs rs1 (Some b)"
  shows "generated M rs (finish_bio env i rs1 b) (Some i)"
proof -
  let ?f = "finish_bio env i rs1 b"
  have f: "run_ok M ?f" "j_bio_free (r_job ?f) = rest" "r_iover ?f = r_iover rs1"
      "b_opcode (j_bio_pool (r_job ?f) ! i) = b_opcode b" "b_slba (j_bio_pool (r_job ?f) ! i) = b_slba b"
      "b_nlbs (j_bio_pool (r_job ?f) ! i) = b_nlbs b"
    using finish_bio_ok[OF ok i sz free(2)] by (simp_all add: Let_def)
  have "lock_effect rs ?f None = lock_effect rs rs1 None"
    "lock_effect rs ?f (Some (j_bio_pool (r_job ?f) ! i)) = lock_effect rs rs1 (Some b)"
    "in_range (r_job rs) (j_bio_pool (r_job ?f) ! i) = in_range (r_job rs) b"
    using f by (simp_all add: lock_effect_def locks_def bio_lbas_def in_range_def)
  then show ?thesis using eff f free(1) by (auto simp: generated_def Let_def split: if_splits)
qed

lemma generated_conclude:
  assumes ok: "run_ok M rs1" and free: "j_bio_free (r_job rs) = i # rest" "j_bio_free (r_job rs1) = i # rest"
    and sz: "bio_sized (j_ns_info (r_job rs1)) M b" and i: "i < length (j_bio_pool (r_job rs1))"
    and op: "b_opcode b \<noteq> bio_flush" "1 \<le> nlbs_nat b" "nlbs_nat b \<le> M"
    and p: "p = Gave_up \<and> lock_effect rs rs1 None \<or> p = Placed b \<and> in_range (r_job rs) b \<and> lock_effect rs rs1 (Some b)"
  shows "\<exists>rs' out. conclude_bio env i rand (rs1, b, p) = Inr (rs', out) \<and> generated M rs rs' out \<and>
    (p \<noteq> Gave_up \<longrightarrow> out = Some i \<and> b_opcode (j_bio_pool (r_job rs') ! i) = b_opcode b)"
  using p
proof (elim disjE conjE)
  assume "p = Gave_up" and "lock_effect rs rs1 None"
  then show ?thesis using run_ok_upd(3)[OF ok sz, of i] free
    by (simp add: conclude_bio_def generated_def lock_effect_def Let_def)
next
  assume q: "p = Placed b" and rg: "in_range (r_job rs) b" and lk: "lock_effect rs rs1 (Some b)"
  define rs2 where "rs2 = rs1\<lparr>r_job := sum_acct (\<lambda>s. s\<lparr>oa_bytes := oa_bytes s + b_iosize b\<rparr>) (r_job rs1)\<rparr>"
  define b2 where "b2 = set_stream (j_params (r_job rs2)) rand
    (b\<lparr>b_offset := push_bit (unat (ns_lba_shift (j_ns_info (r_job rs2)))) (b_slba b), b_data_size := b_iosize b\<rparr>)"
  have b2: "b_opcode b2 = b_opcode b" "b_nlbs b2 = b_nlbs b" "b_slba b2 = b_slba b" "bio_sized ns M b2 = bio_sized ns M b" for ns
    by (simp_all add: b2_def set_stream_def bio_sized_def)
  have "conclude_bio env i rand (rs1, b, p) = Inr (finish_bio env i rs2 b2, Some i)"
    using q by (simp add: conclude_bio_def Let_def rs2_def b2_def)
  moreover have "generated M rs (finish_bio env i rs2 b2) (Some i)"
  proof (rule generated_finish)
    show "run_ok M rs2" using run_ok_upd(2)[OF ok] by (simp add: rs2_def sum_acct_def)
    show "j_bio_free (r_job rs) = i # rest" by (fact free(1))
    show "j_bio_free (r_job rs2) = i # rest" "i < length (j_bio_pool (r_job rs2))" "bio_sized (j_ns_info (r_job rs2)) M b2"
      using free(2) i sz b2(4) by (simp_all add: rs2_def sum_acct_def)
    have "lock_effect rs rs2 (Some b2) = lock_effect rs rs1 (Some b)" "in_range (r_job rs) b2 = in_range (r_job rs) b"
      using b2 by (simp_all add: lock_effect_def rs2_def locks_def bio_lbas_def in_range_def)
    then show "if b_opcode b2 = bio_flush then lock_effect rs rs2 None
      else 1 \<le> nlbs_nat b2 \<and> nlbs_nat b2 \<le> M \<and> in_range (r_job rs) b2 \<and> lock_effect rs rs2 (Some b2)"
      using op rg lk b2 by simp
  qed
  moreover have "b_opcode (j_bio_pool (r_job (finish_bio env i rs2 b2)) ! i) = b_opcode b"
    using finish_bio_ok[of M rs2 i b2 rest env] run_ok_upd(2)[OF ok] free(2) i sz b2 by (simp add: rs2_def sum_acct_def Let_def)
  ultimately show ?thesis by blast
qed

text \<open>Only the lock words, the range and the free list of the starting run matter for the outcome.\<close>

lemma generated_rng:
  "generated M (rs\<lparr>r_job := (r_job rs)\<lparr>j_rng := r\<rparr>\<rparr>) rs' out = generated M rs rs' out"
  by (simp add: generated_def lock_effect_def in_range_def Let_def split: option.split)

text \<open>On blocks of 512 bytes a write-uncorrectable command is sent as a write.\<close>

definition sent_as :: "iogen_job \<Rightarrow> bio_opcode \<Rightarrow> bio_opcode" where
  "sent_as job op = (if op = bio_write_uncorrect \<and> ns_lba_shift (j_ns_info job) = 9 then bio_write else op)"

lemma sent_as_less: "n < 6 \<Longrightarrow> bio_opcode_num (sent_as job (bio_opcodes ! n)) < 6"
  using bio_opcodes_less by (simp add: sent_as_def)

lemma prepare_bio_safe:
  assumes ok: "run_ok M rs" and free: "j_bio_free (r_job rs) = i # rest"
    and b: "bio_opcode_num (b_opcode bio) < 6" "b_opcode bio \<noteq> bio_flush" "bio_sized (j_ns_info (r_job rs)) M bio"
  shows "\<exists>rs' out. prepare_bio env i rand rs bio = Some (Inr (rs', out)) \<and> generated M rs rs' out \<and>
    (unhindered rs \<longrightarrow> out = Some i \<and> b_opcode (j_bio_pool (r_job rs') ! i) = sent_as (r_job rs) (b_opcode bio))"
proof -
  have fit: "job_fits M (r_job rs)" using ok by (simp add: run_ok_def Let_def)
  define b1 where "b1 = (if b_opcode bio = bio_write_uncorrect \<and> ns_lba_shift (j_ns_info (r_job rs)) = 9
      then bio\<lparr>b_opcode := bio_write\<rparr> else bio)"
  have b1: "bio_opcode_num (b_opcode b1) < 6" "b_opcode b1 \<noteq> bio_flush" "bio_sized (j_ns_info (r_job rs)) M b1"
    using b by (auto simp: b1_def bio_sized_def)
  obtain n where n: "draw_nlbs (r_job rs) rand (b_opcode b1) = Inr n" "1 \<le> unat n" "unat n \<le> M"
    using draw_nlbs_ok[OF fit b1(1)] by blast
  obtain r2 sz p c ms where ss: "set_sizes env (r_job rs) (b1\<lparr>b_nlbs := n\<rparr>) = ((r_job rs)\<lparr>j_rng := r2\<rparr>,
      (b1\<lparr>b_nlbs := n\<rparr>)\<lparr>b_iosize := sz, b_pract := p, b_prchk := c, b_meta_size := ms\<rparr>)"
    using set_sizes_frame by blast
  define rs2 b2 where d2: "rs2 = rs\<lparr>r_job := (r_job rs)\<lparr>j_rng := r2\<rparr>\<rparr>"
    "b2 = (b1\<lparr>b_nlbs := n\<rparr>)\<lparr>b_iosize := sz, b_pract := p, b_prchk := c, b_meta_size := ms\<rparr>"
  have ok2: "run_ok M rs2" using run_ok_upd(1)[OF ok] by (simp add: d2)
  have "bio_sized (j_ns_info (r_job rs2)) M b2" "nlbs_nat b2 \<le> M" using b1(3) n(3) by (simp_all add: d2 bio_sized_def)
  then obtain rs3 b3 q where pl: "place_bio env 3 rs2 b2 = Inr (rs3, b3, q)" "run_frame rs2 rs3"
      "b_opcode b3 = b_opcode b2" "b_nlbs b3 = b_nlbs b2" "bio_sized (j_ns_info (r_job rs2)) M b3"
      "q = Gave_up \<and> lock_effect rs2 rs3 None \<or> q = Placed b3 \<and> in_range (r_job rs2) b3 \<and> lock_effect rs2 rs3 (Some b3)"
      "unhindered rs2 \<Longrightarrow> q \<noteq> Gave_up"
    using place_bio_ok[OF ok2, of b2 env 3] by auto
  note ff = run_frame_fields[OF pl(2)]
  have i: "i < length (j_bio_pool (r_job rs))" using fit free by (simp add: job_fits_def)
  obtain rs' out where "conclude_bio env i rand (rs3, b3, q) = Inr (rs', out)" "generated M rs2 rs' out"
      "q \<noteq> Gave_up \<longrightarrow> out = Some i \<and> b_opcode (j_bio_pool (r_job rs') ! i) = b_opcode b3"
    using generated_conclude[OF run_frame_ok[OF pl(2) ok2], of rs2 i rest b3 q env rand] ff free i b1(2) n pl(3-6)
    by (auto simp: d2)
  moreover have "set_nlbs rs rand b1 = Some (Inr (rs, b1\<lparr>b_nlbs := n\<rparr>))"
    using fit n(1) by (auto simp: set_nlbs_def job_fits_def Let_def)
  moreover have "unhindered rs2 = unhindered rs" "b_opcode b3 = sent_as (r_job rs) (b_opcode bio)"
    using pl(3) by (simp_all add: d2 unhindered_def b1_def sent_as_def)
  ultimately show ?thesis using ss pl(1,7)
    by (simp add: prepare_bio_def b1_def[symmetric] d2[symmetric]) (simp add: d2(1) generated_rng)
qed

lemma generate_bio_ok:
  assumes ok: "run_ok M rs" and free: "j_bio_free (r_job rs) = i # rest"
  shows "\<exists>rs' out. generate_bio env rs = Some (Inr (rs', out)) \<and> generated M rs rs' out \<and>
    (unhindered rs \<longrightarrow> out = Some i \<and> (\<exists>x \<in> set (j_opr_lottery (r_job rs)). unat x < 6 \<and>
       b_opcode (j_bio_pool (r_job rs') ! i) = sent_as (r_job rs) (bio_opcodes ! unat x)))"
proof -
  obtain rand r where r: "rand48 (j_rng (r_job rs)) = (rand, r)" by fastforce
  define rs0 where "rs0 = rs\<lparr>r_job := (r_job rs)\<lparr>j_rng := r\<rparr>\<rparr>"
  have ok0: "run_ok M rs0" using run_ok_upd(1)[OF ok] by (simp add: rs0_def)
  then have fit: "job_fits M (r_job rs0)" by (simp add: run_ok_def Let_def)
  have free0: "j_bio_free (r_job rs0) = i # rest" using free by (simp add: rs0_def)
  then have i: "i < length (j_bio_pool (r_job rs0))" using fit by (simp add: job_fits_def)
  obtain op where op: "draw_opcode (r_job rs0) rand = Inr op" "bio_opcode_num op < 6"
      "\<exists>x \<in> set (j_opr_lottery (r_job rs)). unat x < 6 \<and> op = bio_opcodes ! unat x"
    using draw_opcode_ok[OF fit] by (fastforce simp: rs0_def)
  define b0 where "b0 = (j_bio_pool (r_job rs0) ! i)\<lparr>b_hist_idx := 0xFFFFFFFF, b_opcode := op\<rparr>"
  have "bio_sized (j_ns_info (r_job rs0)) M (j_bio_pool (r_job rs0) ! i)" using fit i by (simp add: job_fits_def)
  then have sz0: "bio_sized (j_ns_info (r_job rs0)) M b0" by (simp add: b0_def bio_sized_def)
  show ?thesis
  proof (cases "op = bio_flush")
    case True
    let ?b = "b0\<lparr>b_nlbs := 0, b_iosize := 0\<rparr>"
    have "generate_bio env rs = Some (Inr (finish_bio env i rs0 ?b, Some i))"
      using free r i op True by (simp add: generate_bio_def rs0_def b0_def)
    moreover have "generated M rs (finish_bio env i rs0 ?b) (Some i)"
      using True sz0 by (intro generated_finish[OF ok0 free free0 _ i])
        (simp_all add: bio_sized_def b0_def lock_effect_def rs0_def)
    moreover have "b_opcode (j_bio_pool (r_job (finish_bio env i rs0 ?b)) ! i) = bio_flush"
      using finish_bio_ok[OF ok0 i _ free0, of ?b env] True sz0 by (simp add: bio_sized_def b0_def Let_def)
    moreover have "sent_as (r_job rs) op = bio_flush" using True by (simp add: sent_as_def)
    ultimately show ?thesis using op(3) by metis
  next
    case False
    then have "generate_bio env rs = prepare_bio env i (drop_bit 7 rand) rs0 b0"
      using free r i op by (simp add: generate_bio_def rs0_def b0_def)
    moreover obtain rs' out where "prepare_bio env i (drop_bit 7 rand) rs0 b0 = Some (Inr (rs', out))"
        "generated M rs0 rs' out" "unhindered rs0 \<longrightarrow> out = Some i \<and> b_opcode (j_bio_pool (r_job rs') ! i) = sent_as (r_job rs0) op"
      using prepare_bio_safe[OF ok0 free0, of b0 env "drop_bit 7 rand"] op(2) False sz0 by (auto simp: b0_def)
    moreover have "unhindered rs0 = unhindered rs" "sent_as (r_job rs0) op = sent_as (r_job rs) op"
        "generated M rs0 rs' out = generated M rs rs' out"
      by (simp_all add: rs0_def unhindered_def sent_as_def generated_rng)
    ultimately show ?thesis using op(3) by metis
  qed
qed

text \<open>C4: Generating a request is safe. For a job whose sizes, range and buffers fit its
  namespace, with sequential, uniform or zipf addresses, \<open>generate_bio\<close> returns without touching
  memory out of range. It either gives up and changes no lock, or takes the first free request
  and prepares it: a flush, or an operation on at least one and at most \<open>M\<close> blocks that all lie
  in the range of the job, were free, and are now locked, with no other lock changed; with
  \<open>lba_overlap\<close> nothing is locked.\<close>

theorem generate_bio_safe:
  assumes ok: "run_ok M rs" and free: "j_bio_free (r_job rs) = i # rest"
  shows "\<exists>rs' out. generate_bio env rs = Some (Inr (rs', out)) \<and> generated M rs rs' out"
  using generate_bio_ok[OF assms, of env] by blast

lemma sample_run_ok: "run_ok 2 sample_run"
proof -
  have "job_fits 2 sample_job"
    by (simp add: job_fits_def sample_job_def iogen_job_zero_def sample_jp_def job_params_zero_def iosize_num_max_def
        bio_sized_def sample_bio_def bio_zero_def sample_iover_def namespace_zero_def)
  then show ?thesis using sample_ok(1)
    by (simp add: run_ok_def sample_run_def Let_def)
       (simp add: sample_job_def iogen_job_zero_def sample_iover_def)
qed

theorem generate_bio_safe_witness:
  "\<exists>rs' out. generate_bio sample_genv sample_run = Some (Inr (rs', out)) \<and> generated 2 sample_run rs' out"
  by (rule generate_bio_safe[OF sample_run_ok]) (simp add: sample_run_def sample_job_def)

end
