(* ===== verification/Libaio.thy ===== *)
theory Libaio
  imports IogenInv IogenSafe
begin

text \<open>
  The libaio engine (\<open>nbio/io/libaio.c\<close>): a ring of prepared requests that \<open>libaio_submit\<close> hands to
  the kernel, and the events that \<open>libaio_poll\<close> completes. The kernel is an argument: what \<open>io_submit\<close>,
  \<open>io_getevents\<close>, \<open>fsync\<close> and the two \<open>ioctl\<close> calls return.
\<close>

section \<open>The engine\<close>

text \<open>
  A request is the index of its \<open>bio\<close>. \<open>ld_kernel\<close> is what the kernel has taken and not completed.
  The descriptor and the namespace number only appear in the calls to the kernel.
\<close>

record libaio_data =
  ld_iocbs :: "nat option list"
  ld_iodepth :: u32
  ld_tail :: u32
  ld_head :: u32
  ld_nr_enqueued :: u32
  ld_kernel :: "nat list"

text \<open>
  \<open>k_submit\<close> tells how many of the given requests are taken, or an error; \<open>k_getevents\<close> the completed
  requests with their results for a minimal and a maximal number, where \<open>None\<close> is a call that never
  returns.
\<close>

record kernel =
  k_submit :: "nat list \<Rightarrow> nat list \<Rightarrow> int"
  k_getevents :: "u32 \<Rightarrow> u32 \<Rightarrow> nat list \<Rightarrow> (nat \<times> int) list option"
  k_discard :: "bio \<Rightarrow> int"
  k_flush :: int
  k_fsync :: int

text \<open>
  Initialisation: whether the engine's data, the context, the two arrays and the name could be made,
  the descriptor and the namespace number that the kernel answers. The result and the engine, \<open>None\<close>
  after an error. Without memory for the data the error path reads through the null pointer.
\<close>

record libaio_init_env =
  li_ctx :: bool
  li_setup :: int
  li_events :: bool
  li_iocbs :: bool
  li_name :: bool
  li_fd :: int
  li_nsid :: u16

definition libaio_init :: "libaio_init_env \<Rightarrow> u32 \<Rightarrow> (int \<times> libaio_data option) res" where
  "libaio_init env iodepth =
     (if \<not> li_ctx env then Inl Fault
      else Inr (if li_setup env \<noteq> 0 then (li_setup env, None)
      else if \<not> li_events env then (- 1, None)
      else if \<not> li_iocbs env then (- 1, None)
      else if \<not> li_name env then (- 1, None)
      else if li_fd env < 0 then (li_fd env, None)
      else if li_nsid env = 0 then (- 1, None)
      else (0, Some \<lparr>ld_iocbs = replicate (unat iodepth) None, ld_iodepth = iodepth, ld_tail = 0, ld_head = 0,
              ld_nr_enqueued = 0, ld_kernel = []\<rparr>)))"

text \<open>
  \<open>libaio_submit\<close> hands over the part of the ring that does not wrap around, until nothing is left.
  \<open>io_submit\<close> never takes more than it is given.
\<close>

definition submit_nr :: "libaio_data \<Rightarrow> u32" where
  "submit_nr ld =
     (if ld_nr_enqueued ld > ld_iodepth ld - ld_head ld then ld_iodepth ld - ld_head ld else ld_nr_enqueued ld)"

definition submit_some :: "kernel \<Rightarrow> libaio_data \<Rightarrow> (int \<times> libaio_data) res" where
  "submit_some k ld =
     bnd (mem_read (ld_iocbs ld) (unat (ld_head ld)) (unat (submit_nr ld))) (\<lambda>ptrs.
     if None \<in> set ptrs then Inl Fault else
     let reqs = map the ptrs; res = min (k_submit k (ld_kernel ld) reqs) (int (length reqs)) in
     if res > 0 then
       if ld_iodepth ld = 0 then Inl Fault
       else Inr (res, ld\<lparr>ld_head := (ld_head ld + of_int res) mod ld_iodepth ld,
              ld_nr_enqueued := ld_nr_enqueued ld - of_int res, ld_kernel := ld_kernel ld @ take (nat res) reqs\<rparr>)
     else Inr (res, ld))"

lemma submit_some_less:
  assumes "submit_some k ld = Inr (res, ld')" and "res > 0" and "ld_nr_enqueued ld \<noteq> 0"
  shows "unat (ld_nr_enqueued ld') < unat (ld_nr_enqueued ld)"
proof -
  have le: "submit_nr ld \<le> ld_nr_enqueued ld" by (auto simp: submit_nr_def)
  obtain ptrs where p: "mem_read (ld_iocbs ld) (unat (ld_head ld)) (unat (submit_nr ld)) = Inr ptrs"
      and r: "res \<le> int (length ptrs)" "ld_nr_enqueued ld' = ld_nr_enqueued ld - of_int res"
    using assms(1,2) by (auto simp: submit_some_def bnd_eq_Inr Let_def split: if_splits)
  have "length ptrs = unat (submit_nr ld)" using p by (auto simp: mem_read_eq_Inr)
  then have "nat res \<le> unat (submit_nr ld)" using r(1) by linarith
  then have n: "nat res \<le> unat (ld_nr_enqueued ld)" using le unfolding word_le_nat_alt by (rule order_trans)
  moreover have "unat (ld_nr_enqueued ld) < 2 ^ 32" by (rule order_less_le_trans[OF unsigned_less]) simp
  ultimately have "unat (of_nat (nat res) :: u32) = nat res" by (simp add: unat_of_nat take_bit_eq_mod)
  then have "unat (of_int res :: u32) = nat res" using assms(2) by (simp add: of_nat_nat)
  then show ?thesis using n assms(2) by (simp add: r(2) unat_sub word_le_nat_alt)
qed

function libaio_submit :: "kernel \<Rightarrow> libaio_data \<Rightarrow> (int \<times> libaio_data) res" where
  "libaio_submit k ld =
     (if ld_nr_enqueued ld = 0 then Inr (0, ld)
      else bnd (submit_some k ld) (\<lambda>(res, ld). if res > 0 then libaio_submit k ld else Inr (res, ld)))"
  by pat_completeness auto
termination
  by (relation "measure (\<lambda>(k, ld). unat (ld_nr_enqueued ld))") (auto dest: submit_some_less)

declare libaio_submit.simps [simp del]

text \<open>A prepared request goes to the tail of the ring.\<close>

definition libaio_push :: "libaio_data \<Rightarrow> nat \<Rightarrow> (int \<times> libaio_data) res" where
  "libaio_push ld i =
     (if ld_nr_enqueued ld \<ge> ld_iodepth ld then Inr (- 1, ld)
      else bnd (arr_set (ld_iocbs ld) (unat (ld_tail ld)) (Some i)) (\<lambda>iocbs.
        Inr (0, ld\<lparr>ld_iocbs := iocbs, ld_tail := (ld_tail ld + 1) mod ld_iodepth ld,
                   ld_nr_enqueued := ld_nr_enqueued ld + 1\<rparr>)))"

text \<open>
  \<open>flush_passthru\<close> selects the command that a flush sends; \<open>async\<close> tells whether the kernel is version
  4.7 or later. Neither a flush nor a discard is put into the ring.
\<close>

definition libaio_enqueue :: "kernel \<Rightarrow> bool \<Rightarrow> bool \<Rightarrow> libaio_data \<Rightarrow> nat \<Rightarrow> bio \<Rightarrow> (int \<times> libaio_data) res" where
  "libaio_enqueue k flush_passthru async ld i bio =
     (if ld_nr_enqueued ld \<ge> ld_iodepth ld then Inr (- 1, ld)
      else case b_opcode bio of
        bio_read \<Rightarrow> libaio_push ld i
      | bio_write \<Rightarrow> libaio_push ld i
      | bio_flush \<Rightarrow> bnd (libaio_submit k ld) (\<lambda>(res, ld). Inr (if flush_passthru then k_flush k else k_fsync k, ld))
      | bio_deallocate \<Rightarrow>
          bnd (if async then Inr (0, ld) else libaio_submit k ld) (\<lambda>(res, ld). Inr (k_discard k bio, ld))
      | _ \<Rightarrow> Inr (- 1, ld))"

text \<open>
  The result of a request is zero when as many bytes were transferred as it asked for. The kernel
  gives up a request when it reports its event.
\<close>

fun libaio_events :: "(nat \<Rightarrow> int \<Rightarrow> job_run \<Rightarrow> job_run res) \<Rightarrow> (nat \<times> int) list \<Rightarrow> job_run \<Rightarrow> job_run res" where
  "libaio_events cb [] rs = Inr rs"
| "libaio_events cb ((i, r) # events) rs =
     bnd (arr_get (j_bio_pool (r_job rs)) i) (\<lambda>bio.
     bnd (cb i (if of_int r \<noteq> b_iosize bio then r else 0) rs) (libaio_events cb events))"

definition libaio_poll ::
  "kernel \<Rightarrow> u32 \<Rightarrow> u32 \<Rightarrow> (nat \<Rightarrow> int \<Rightarrow> job_run \<Rightarrow> job_run res) \<Rightarrow> libaio_data \<Rightarrow> job_run \<Rightarrow> (libaio_data \<times> job_run) res option" where
  "libaio_poll k mn mx cb ld rs =
     (case k_getevents k mn mx (ld_kernel ld) of None \<Rightarrow> None
      | Some events \<Rightarrow>
          Some (bnd (libaio_events cb events rs) (\<lambda>rs.
          Inr (ld\<lparr>ld_kernel := filter (\<lambda>i. i \<notin> set (map fst events)) (ld_kernel ld)\<rparr>, rs))))"

definition libaio_ops :: "kernel \<Rightarrow> bool \<Rightarrow> bool \<Rightarrow> libaio_data engine_ops" where
  "libaio_ops k flush_passthru async =
     \<lparr>eo_name = ''libaio'', eo_begin = None, eo_end = None, eo_reset = None, eo_reinit = None,
      eo_enqueue = libaio_enqueue k flush_passthru async, eo_submit = libaio_submit k, eo_poll = libaio_poll k\<rparr>"

section \<open>Administrative commands\<close>

text \<open>
  The commands that are sent through an \<open>ioctl\<close>: opcode, namespace, address and length of the buffer
  and the first command word. The answer is the result and the completion word.
\<close>

record nvme_passthru_cmd =
  pc_opcode :: u8
  pc_nsid :: u32
  pc_addr :: u64
  pc_data_len :: u32
  pc_cdw10 :: u32

abbreviation NVME_CMD_FLUSH :: u8 where "NVME_CMD_FLUSH \<equiv> 0x00"
abbreviation NVME_ADMIN_GET_LOG_PAGE :: u8 where "NVME_ADMIN_GET_LOG_PAGE \<equiv> 0x02"
abbreviation NVME_ADMIN_IDENTIFY :: u8 where "NVME_ADMIN_IDENTIFY \<equiv> 0x06"
abbreviation NVME_ADMIN_GET_FEATURES :: u8 where "NVME_ADMIN_GET_FEATURES \<equiv> 0x0A"

definition libaio_flush :: "(nvme_passthru_cmd \<Rightarrow> int) \<Rightarrow> u16 \<Rightarrow> int" where
  "libaio_flush ioctl nsid =
     ioctl \<lparr>pc_opcode = NVME_CMD_FLUSH, pc_nsid = ucast nsid, pc_addr = 0, pc_data_len = 0, pc_cdw10 = 0\<rparr>"

definition libaio_identify :: "(nvme_passthru_cmd \<Rightarrow> int) \<Rightarrow> u16 \<Rightarrow> u32 \<Rightarrow> u32 \<Rightarrow> u64 \<Rightarrow> int" where
  "libaio_identify ioctl nsid cdw10 data_len data =
     ioctl \<lparr>pc_opcode = NVME_ADMIN_IDENTIFY, pc_nsid = ucast nsid, pc_addr = data, pc_data_len = data_len, pc_cdw10 = cdw10\<rparr>"

definition log_page_cdw10 :: "u8 \<Rightarrow> u32 \<Rightarrow> u32" where
  "log_page_cdw10 log_id data_len = ucast log_id OR push_bit 16 (drop_bit 2 data_len - 1)"

definition libaio_get_log_page :: "(nvme_passthru_cmd \<Rightarrow> int) \<Rightarrow> u16 \<Rightarrow> u8 \<Rightarrow> u32 \<Rightarrow> u64 \<Rightarrow> int" where
  "libaio_get_log_page ioctl nsid log_id data_len data =
     ioctl \<lparr>pc_opcode = NVME_ADMIN_GET_LOG_PAGE, pc_nsid = ucast nsid, pc_addr = data, pc_data_len = data_len,
            pc_cdw10 = log_page_cdw10 log_id data_len\<rparr>"

text \<open>The completion word is only stored after success and when it is asked for.\<close>

definition libaio_get_features ::
  "(nvme_passthru_cmd \<Rightarrow> int \<times> u32) \<Rightarrow> u16 \<Rightarrow> u32 \<Rightarrow> u32 \<Rightarrow> u64 \<Rightarrow> u32 option \<Rightarrow> int \<times> u32 option" where
  "libaio_get_features ioctl nsid cdw10 data_len data result =
     (let (res, value) = ioctl \<lparr>pc_opcode = NVME_ADMIN_GET_FEATURES, pc_nsid = ucast nsid, pc_addr = data,
                                pc_data_len = data_len, pc_cdw10 = cdw10\<rparr> in
      (res, if res = 0 \<and> result \<noteq> None then Some value else result))"

text \<open>
  The command word of a log page holds the identifier and, up to 256 KiB, the number of double words
  less one; a length under four bytes asks for the largest number.
\<close>

lemma log_page_cdw10_fields:
  assumes "4 \<le> data_len" and "data_len \<le> 2 ^ 18"
  shows "take_bit 8 (log_page_cdw10 log_id data_len) = ucast log_id"
    and "drop_bit 16 (log_page_cdw10 log_id data_len) = drop_bit 2 data_len - 1"
proof -
  have b: "drop_bit 2 data_len - 1 < 2 ^ 16"
  proof -
    have "unat (drop_bit 2 data_len) = unat data_len div 4" by (simp add: drop_bit_eq_div unat_div)
    moreover have "4 \<le> unat data_len" "unat data_len \<le> 2 ^ 18" using assms by (simp_all add: word_le_nat_alt)
    moreover from this have "1 \<le> unat data_len div 4" "unat data_len div 4 \<le> 2 ^ 16" by auto
    ultimately show ?thesis by (simp add: word_less_nat_alt unat_sub word_le_nat_alt)
  qed
  show "take_bit 8 (log_page_cdw10 log_id data_len) = ucast log_id"
    by (rule bit_word_eqI) (auto simp: log_page_cdw10_def bit_simps dest: bit_imp_le_length)
  have "\<not> bit (drop_bit 2 data_len - 1) n" if "n \<ge> 16" for n
  proof -
    have "take_bit 16 (drop_bit 2 data_len - 1) = drop_bit 2 data_len - 1"
      using b by (simp flip: mask_eq_exp_minus_1 add: word_less_nat_alt word_unat_eq_iff unsigned_take_bit_eq take_bit_nat_eq_self)
    then show ?thesis using that by (metis bit_take_bit_iff linorder_not_less)
  qed
  then show "drop_bit 16 (log_page_cdw10 log_id data_len) = drop_bit 2 data_len - 1"
    by (intro bit_word_eqI) (auto simp: log_page_cdw10_def bit_simps dest: bit_imp_le_length)
qed

section \<open>The ring as a queue\<close>

abbreviation ld_n :: "libaio_data \<Rightarrow> nat" where
  "ld_n ld \<equiv> unat (ld_iodepth ld)"

definition ld_slot :: "libaio_data \<Rightarrow> nat \<Rightarrow> nat option" where
  "ld_slot ld i = ld_iocbs ld ! ((unat (ld_head ld) + i) mod ld_n ld)"

definition libaio_ok :: "libaio_data \<Rightarrow> bool" where
  "libaio_ok ld \<longleftrightarrow> length (ld_iocbs ld) = ld_n ld \<and> ld_head ld < ld_iodepth ld \<and> ld_nr_enqueued ld \<le> ld_iodepth ld \<and>
     unat (ld_tail ld) = (unat (ld_head ld) + unat (ld_nr_enqueued ld)) mod ld_n ld \<and>
     (\<forall>i < unat (ld_nr_enqueued ld). ld_slot ld i \<noteq> None)"

text \<open>The requests in the ring, the oldest first.\<close>

definition libaio_contents :: "libaio_data \<Rightarrow> nat list" where
  "libaio_contents ld = map (\<lambda>i. the (ld_slot ld i)) [0..<unat (ld_nr_enqueued ld)]"

lemma length_libaio_contents [simp, layout]: "length (libaio_contents ld) = unat (ld_nr_enqueued ld)"
  by (simp add: libaio_contents_def)

lemma libaio_push_room:
  assumes ok: "libaio_ok ld" and "unat (ld_nr_enqueued ld) < ld_n ld"
  shows "\<exists>ld'. libaio_push ld i = Inr (0, ld') \<and> libaio_ok ld' \<and> libaio_contents ld' = libaio_contents ld @ [i] \<and>
    ld_n ld' = ld_n ld \<and> ld_kernel ld' = ld_kernel ld"
proof -
  define h m n where hmn: "h = unat (ld_head ld)" "m = unat (ld_nr_enqueued ld)" "n = ld_n ld"
  have n: "h < n" "m < n" "length (ld_iocbs ld) = n" "unat (ld_tail ld) = (h + m) mod n"
    using assms by (auto simp: libaio_ok_def hmn word_less_nat_alt)
  let ?ld = "ld\<lparr>ld_iocbs := (ld_iocbs ld)[(h + m) mod n := Some i], ld_tail := (ld_tail ld + 1) mod ld_iodepth ld,
      ld_nr_enqueued := ld_nr_enqueued ld + 1\<rparr>"
  have push: "libaio_push ld i = Inr (0, ?ld)" using n by (simp add: libaio_push_def word_le_nat_alt flip: hmn)
  have "ld_tail ld < ld_iodepth ld" using n by (simp add: word_less_nat_alt flip: hmn(3))
  then have tail: "unat ((ld_tail ld + 1) mod ld_iodepth ld) = (h + Suc m) mod n"
    using unat_succ_mod[of "ld_tail ld" "ld_iodepth ld"] n(4) by (simp add: mod_Suc_eq flip: hmn(3))
  have nr: "unat (ld_nr_enqueued ld + 1) = Suc m"
    using unat_succ[of "ld_nr_enqueued ld" "ld_iodepth ld"] assms(2) by (simp add: word_less_nat_alt hmn)
  have old: "ld_slot ?ld j = ld_slot ld j" if "j < m" for j
    using mod_shift_neq[of j m n h] that n by (simp add: ld_slot_def nth_list_update flip: hmn)
  have new: "ld_slot ?ld m = Some i" using n by (simp add: ld_slot_def flip: hmn)
  have "libaio_ok ?ld" using n nr tail old new ok
    by (auto simp: libaio_ok_def less_Suc_eq word_le_nat_alt simp flip: hmn)
  moreover have "libaio_contents ?ld = libaio_contents ld @ [i]"
    using old new nr by (simp add: libaio_contents_def flip: hmn)
  ultimately show ?thesis using push by auto
qed

lemma libaio_push_full: "libaio_ok ld \<Longrightarrow> ld_n ld \<le> unat (ld_nr_enqueued ld) \<Longrightarrow> libaio_push ld i = Inr (- 1, ld)"
  by (simp add: libaio_push_def word_le_nat_alt)

text \<open>The ring of the engine is a bounded queue, like the one of the null engine.\<close>

interpretation libaio_queue: bounded_fifo libaio_push libaio_ok libaio_contents ld_n
proof (unfold_locales, goal_cases)
  case (1 q b)
  then show ?case using libaio_push_room[of q b] by auto
next
  case (2 q b)
  then show ?case using libaio_push_full[of q b] by simp
qed

text \<open>A call of \<open>io_submit\<close> moves the first requests of the ring to the kernel.\<close>

lemma submit_some_moves:
  assumes ok: "libaio_ok ld" and "ld_nr_enqueued ld \<noteq> 0"
  shows "\<exists>res ld'. submit_some k ld = Inr (res, ld') \<and> libaio_ok ld' \<and> ld_n ld' = ld_n ld \<and>
    (if res > 0 then \<exists>moved. libaio_contents ld = moved @ libaio_contents ld' \<and> ld_kernel ld' = ld_kernel ld @ moved
     else ld' = ld)"
proof -
  define h m n where hmn: "h = unat (ld_head ld)" "m = unat (ld_nr_enqueued ld)" "n = ld_n ld"
  have n: "h < n" "m \<le> n" "length (ld_iocbs ld) = n" "unat (ld_tail ld) = (h + m) mod n" "0 < m"
    and slots: "\<And>i. i < m \<Longrightarrow> ld_slot ld i \<noteq> None"
    using assms by (auto simp: libaio_ok_def hmn word_less_nat_alt word_le_nat_alt unat_gt_0)
  have nr: "unat (submit_nr ld) = min m (n - h)" (is "_ = ?w")
  proof -
    have "unat (ld_iodepth ld - ld_head ld) = n - h" using n(1) by (simp add: unat_sub word_le_nat_alt hmn)
    then show ?thesis by (simp add: submit_nr_def word_less_nat_alt min_def hmn)
  qed
  define ptrs where "ptrs = take ?w (drop h (ld_iocbs ld))"
  have ptr: "ptrs ! j = ld_slot ld j" if "j < ?w" for j
  proof -
    have "j < n - h" using that by simp
    then have e: "(h + j) mod n = h + j" by (intro mod_less) linarith
    show ?thesis using that n by (simp add: ptrs_def ld_slot_def e flip: hmn)
  qed
  have len: "length ptrs = ?w" using n by (simp add: ptrs_def)
  have "mem_read (ld_iocbs ld) (unat (ld_head ld)) (unat (submit_nr ld)) = Inr ptrs"
    using n by (simp add: nr ptrs_def flip: hmn(1))
  moreover have "None \<notin> set ptrs" using slots ptr len by (fastforce simp: in_set_conv_nth)
  moreover define res where "res = min (k_submit k (ld_kernel ld) (map the ptrs)) (int (length ptrs))"
  moreover have "ld_iodepth ld \<noteq> 0" using n(1) by (auto simp: hmn)
  define ld' where "ld' = ld\<lparr>ld_head := (ld_head ld + of_int res) mod ld_iodepth ld,
      ld_nr_enqueued := ld_nr_enqueued ld - of_int res, ld_kernel := ld_kernel ld @ take (nat res) (map the ptrs)\<rparr>"
  ultimately have eq: "submit_some k ld = Inr (if res > 0 then (res, ld') else (res, ld))"
    using \<open>ld_iodepth ld \<noteq> 0\<close> by (simp add: submit_some_def Let_def)
  show ?thesis
  proof (cases "res > 0")
    case True
    define r where "r = nat res"
    have r: "0 < r" "r \<le> ?w" "res = int r" using True len by (auto simp: r_def res_def)
    have small: "n < 2 ^ 32" unfolding hmn by (rule order_less_le_trans[OF unsigned_less]) simp
    have w: "unat (of_int res :: u32) = r" using r n small by (simp add: unat_of_nat take_bit_eq_mod)
    have head: "unat (ld_head ld') = (h + r) mod n"
    proof -
      have "r \<le> n - h" using r(2) by simp
      then have "h + r < 2 ^ 32" using n(1) small by linarith
      then have "unat (ld_head ld + of_int res) = h + r" unfolding unat_word_ariths w hmn(1)[symmetric] by simp
      then show ?thesis by (simp add: ld'_def unat_mod hmn)
    qed
    have nr': "unat (ld_nr_enqueued ld') = m - r"
      using r w by (simp add: ld'_def unat_sub word_le_nat_alt hmn)
    have f: "ld_iocbs ld' = ld_iocbs ld" "ld_iodepth ld' = ld_iodepth ld" "ld_tail ld' = ld_tail ld"
      by (simp_all add: ld'_def)
    have slot: "ld_slot ld' j = ld_slot ld (r + j)" for j
      by (simp add: ld_slot_def head f mod_add_left_eq add.assoc flip: hmn)
    have tl: "((h + r) mod n + (m - r)) mod n = (h + m) mod n" 
    proof -
      have "h + r + (m - r) = h + m" using r(2) by simp
      then show ?thesis using mod_add_left_eq[of "h + r" n "m - r"] by (simp only:)
    qed
    have "libaio_ok ld'"
      unfolding libaio_ok_def word_less_nat_alt word_le_nat_alt slot f head nr' hmn(3)[symmetric] tl
      using n r slots by auto
    moreover have "libaio_contents ld = take r (map the ptrs) @ libaio_contents ld'"
    proof (rule nth_equalityI)
      show "length (libaio_contents ld) = length (take r (map the ptrs) @ libaio_contents ld')"
        using r len nr' by (simp flip: hmn)
      fix j assume "j < length (libaio_contents ld)"
      then have "j < m" by (simp add: hmn)
      then show "libaio_contents ld ! j = (take r (map the ptrs) @ libaio_contents ld') ! j"
        using r len ptr nr' by (cases "j < r") (auto simp: nth_append libaio_contents_def slot simp flip: hmn)
    qed
    ultimately show ?thesis using eq True by (auto simp: ld'_def r_def)
  next
    case False
    then show ?thesis using eq ok by auto
  qed
qed

text \<open>What the engine holds: the requests that the kernel has, followed by those in the ring.\<close>

definition libaio_pending :: "libaio_data \<Rightarrow> nat list" where
  "libaio_pending ld = ld_kernel ld @ libaio_contents ld"

lemma libaio_submit_moves:
  assumes "libaio_ok ld"
  shows "\<exists>res ld'. libaio_submit k ld = Inr (res, ld') \<and> libaio_ok ld' \<and> ld_n ld' = ld_n ld \<and>
    libaio_pending ld' = libaio_pending ld \<and> (\<exists>moved. ld_kernel ld' = ld_kernel ld @ moved) \<and>
    (res = 0 \<longrightarrow> libaio_contents ld' = [] \<or> (\<exists>l r. k_submit k l r = 0))"
  using assms
proof (induction k ld rule: libaio_submit.induct)
  case (1 k ld)
  show ?case
  proof (cases "ld_nr_enqueued ld = 0")
    case True
    then show ?thesis using 1(2) by (simp add: libaio_submit.simps[of k ld] libaio_contents_def)
  next
    case False
    obtain res ld1 where s: "submit_some k ld = Inr (res, ld1)" "libaio_ok ld1" "ld_n ld1 = ld_n ld"
      and m: "if res > 0 then \<exists>moved. libaio_contents ld = moved @ libaio_contents ld1 \<and> ld_kernel ld1 = ld_kernel ld @ moved
        else ld1 = ld"
      using submit_some_moves[OF 1(2) False, of k] by blast
    show ?thesis
    proof (cases "res > 0")
      case True
      then obtain moved where mv: "libaio_contents ld = moved @ libaio_contents ld1" "ld_kernel ld1 = ld_kernel ld @ moved"
        using m by auto
      have "libaio_submit k ld = libaio_submit k ld1" using s(1) False True by (simp add: libaio_submit.simps[of k ld])
      moreover have "libaio_pending ld1 = libaio_pending ld" using mv by (simp add: libaio_pending_def)
      ultimately show ?thesis using 1(1)[OF False s(1) refl True s(2)] s(3) mv(2) by fastforce
    next
      case nonpos: False
      have "libaio_submit k ld = Inr (res, ld)" using s(1) m False nonpos by (simp add: libaio_submit.simps[of k ld])
      moreover have "res = 0 \<Longrightarrow> \<exists>l r. k_submit k l r = 0"
      proof -
        assume z: "res = 0"
        obtain ptrs where "res = min (k_submit k (ld_kernel ld) (map the ptrs)) (int (length ptrs))"
            "mem_read (ld_iocbs ld) (unat (ld_head ld)) (unat (submit_nr ld)) = Inr ptrs"
          using s(1) by (auto simp: submit_some_def bnd_eq_Inr Let_def split: if_splits)
        moreover have "submit_nr ld \<noteq> 0" using 1(2) False by (auto simp: submit_nr_def libaio_ok_def)
        then have "0 < unat (submit_nr ld)" by (simp add: unat_gt_0)
        ultimately have "k_submit k (ld_kernel ld) (map the ptrs) = 0" using z by (auto simp: min_def mem_read_eq_Inr split: if_splits)
        then show ?thesis by blast
      qed
      ultimately show ?thesis using 1(2) False by auto
    qed
  qed
qed

text \<open>C9: The ring of libaio implements a first-in first-out queue between the job and the kernel.
  A read or write that is accepted is appended to the queue; a submit, whatever the kernel takes in
  each call, moves requests from the front of the queue to the end of what the kernel has, so that
  their order is kept and none is lost or duplicated, and it always returns; when it reports success,
  and the kernel never answers zero, nothing is left in the ring.\<close>

theorem libaio_refines_queue:
  assumes "libaio_ok ld"
  shows "(\<forall>i bio. b_opcode bio \<in> {bio_read, bio_write} \<longrightarrow>
      (if length (libaio_contents ld) < unat (ld_iodepth ld)
       then \<exists>ld'. libaio_enqueue k fp async ld i bio = Inr (0, ld') \<and> libaio_ok ld' \<and>
         libaio_contents ld' = libaio_contents ld @ [i] \<and> ld_kernel ld' = ld_kernel ld
       else libaio_enqueue k fp async ld i bio = Inr (- 1, ld))) \<and>
    (\<exists>res ld'. libaio_submit k ld = Inr (res, ld') \<and> libaio_ok ld' \<and>
      ld_kernel ld' @ libaio_contents ld' = ld_kernel ld @ libaio_contents ld \<and>
      (\<exists>moved. ld_kernel ld' = ld_kernel ld @ moved) \<and>
      (res = 0 \<and> (\<forall>l r. k_submit k l r \<noteq> 0) \<longrightarrow> libaio_contents ld' = []))"
proof -
  have "libaio_enqueue k fp async ld i bio = libaio_push ld i" if "b_opcode bio \<in> {bio_read, bio_write}" for i bio
    using that by (auto simp: libaio_enqueue_def libaio_push_def)
  moreover obtain res ld' where "libaio_submit k ld = Inr (res, ld')" "libaio_ok ld'"
      "libaio_pending ld' = libaio_pending ld" "\<exists>moved. ld_kernel ld' = ld_kernel ld @ moved"
      "res = 0 \<longrightarrow> libaio_contents ld' = [] \<or> (\<exists>l r. k_submit k l r = 0)"
    using libaio_submit_moves[OF assms, of k] by blast
  moreover have "if length (libaio_contents ld) < unat (ld_iodepth ld)
      then \<exists>ld'. libaio_push ld i = Inr (0, ld') \<and> libaio_ok ld' \<and>
        libaio_contents ld' = libaio_contents ld @ [i] \<and> ld_kernel ld' = ld_kernel ld
      else libaio_push ld i = Inr (- 1, ld)" for i
    using libaio_push_room[OF assms, of i] libaio_queue.enqueue_full[OF assms, of i] by auto
  ultimately show ?thesis unfolding libaio_pending_def by (intro conjI allI impI) (simp, blast)
qed

text \<open>A kernel that takes one request at a time, and the ring after two requests.\<close>

definition slow_kernel :: kernel where
  "slow_kernel = \<lparr>k_submit = (\<lambda>l r. 1),
     k_getevents = (\<lambda>mn mx l. if l = [] \<and> mn > 0 then None else Some (map (\<lambda>i. (i, 0)) (take (unat mx) l))),
     k_discard = (\<lambda>bio. 0), k_flush = 0, k_fsync = 0\<rparr>"

definition two_queued :: libaio_data where
  "two_queued = \<lparr>ld_iocbs = [Some 8, Some 7], ld_iodepth = 2, ld_tail = 1, ld_head = 1, ld_nr_enqueued = 2, ld_kernel = []\<rparr>"

theorem libaio_refines_queue_witness:
  "\<exists>res ld'. libaio_submit slow_kernel two_queued = Inr (res, ld') \<and> libaio_ok ld' \<and>
    ld_kernel ld' @ libaio_contents ld' = [7, 8]"
proof -
  have ok: "libaio_ok two_queued"
    by (auto simp: libaio_ok_def two_queued_def ld_slot_def less_2_cases_iff)
  have "ld_kernel two_queued @ libaio_contents two_queued = [7, 8]"
    by (simp add: libaio_contents_def two_queued_def ld_slot_def upt_rec)
  moreover obtain res ld' where "libaio_submit slow_kernel two_queued = Inr (res, ld')" "libaio_ok ld'"
      "ld_kernel ld' @ libaio_contents ld' = ld_kernel two_queued @ libaio_contents two_queued"
    using libaio_refines_queue[OF ok, of slow_kernel False False, THEN conjunct2] by (elim exE conjE)
  ultimately show ?thesis by (intro exI[of _ res] exI[of _ ld']) simp
qed

section \<open>Deallocation\<close>

lemma drain_blocked:
  assumes "j_num_inflight (r_job rs) > 0" and "ig_spor_level (r_iogen rs) < 3"
    and "\<And>mx. k_getevents k 1 mx (ld_kernel ld) = None"
  shows "drain (libaio_ops k fp async) env n ld rs = None"
proof -
  have "eo_poll (libaio_ops k fp async) 1 mx cb ld rs = None" for mx cb
    using assms(3) by (simp add: libaio_ops_def libaio_poll_def)
  then show ?thesis using assms(1,2) by (subst drain.simps) simp
qed

text \<open>
  What stays true of a job on libaio whatever happens: no request is twice in the lists of the job,
  \<open>num_inflight\<close> counts those in flight, and they include, besides all that the engine has, the
  requests of \<open>M\<close>, which the engine has not. The kernel reports only requests that it has, each once.
\<close>

definition reports_taken :: "kernel \<Rightarrow> bool" where
  "reports_taken k \<longleftrightarrow> (\<forall>mn mx l events. k_getevents k mn mx l = Some events \<longrightarrow> mset (map fst events) \<subseteq># mset l)"

definition stuck :: "nat multiset \<Rightarrow> libaio_data \<Rightarrow> job_run \<Rightarrow> bool" where
  "stuck M ld rs \<longleftrightarrow> libaio_ok ld \<and> distinct (j_bio_free (r_job rs) @ j_bio_inflight (r_job rs)) \<and>
     unat (j_num_inflight (r_job rs)) = length (j_bio_inflight (r_job rs)) \<and>
     mset (libaio_pending ld) + M \<subseteq># mset (j_bio_inflight (r_job rs))"

lemma stuck_frame: "stuck M ld rs \<Longrightarrow> job_lists (r_job rs') = job_lists (r_job rs) \<Longrightarrow> stuck M ld rs'"
  by (simp add: stuck_def job_lists_def)

lemma stuck_submit:
  assumes "stuck M ld rs" and "libaio_submit k ld = Inr (res, ld')"
  shows "stuck M ld' rs"
  using assms libaio_submit_moves[of ld k] by (auto simp: stuck_def)

lemma bio_end_stuck:
  assumes "bio_end env j rs = Inr rs'" and "stuck M ld rs" and "j \<in> set (j_bio_inflight (r_job rs))"
    and "mset (libaio_pending ld') + M' \<subseteq># mset (j_bio_inflight (r_job rs)) - {#j#}" and "libaio_ok ld'"
  shows "stuck M' ld' rs'"
proof -
  note l = bio_end_lists[OF assms(1)]
  have "0 < unat (j_num_inflight (r_job rs))" using assms(2,3) by (auto simp: stuck_def)
  then show ?thesis
    using assms(2-5) l(1-3) unat_minus_1[of "j_num_inflight (r_job rs)"]
    by (auto simp: stuck_def length_remove1 dest: in_set_remove1)
qed

lemma complete_stuck:
  assumes "complete env j r rs = Inr rs'" and "stuck (add_mset j M) ld rs"
  shows "stuck M ld rs'"
proof -
  obtain bio where e: "bio_end (env j) j
      (rs\<lparr>r_job := (r_job rs)\<lparr>j_bio_pool := (j_bio_pool (r_job rs))[j := bio\<lparr>b_result := r\<rparr>]\<rparr>\<rparr>) = Inr rs'"
    using assms(1) by (auto simp: complete_def Let_def bnd_eq_Inr)
  have "j \<in># mset (j_bio_inflight (r_job rs))" using assms(2) by (auto simp: stuck_def dest: mset_subset_eqD)
  then show ?thesis
    using assms(2) by (intro bio_end_stuck[OF e stuck_frame[OF assms(2)]]) (auto simp: stuck_def insert_subset_eq_iff)
qed

lemma events_stuck:
  assumes "libaio_events (complete env) events rs = Inr rs'" and "stuck (mset (map fst events) + M) ld rs"
  shows "stuck M ld rs'"
  using assms
proof (induction events arbitrary: rs)
  case Nil
  then show ?case by simp
next
  case (Cons d events)
  obtain j r rs1 r' where "d = (j, r)" "complete env j r' rs = Inr rs1" "libaio_events (complete env) events rs1 = Inr rs'"
    using Cons.prems(1) by (cases d) (auto simp: bnd_eq_Inr)
  then show ?case using Cons.IH[of rs1] complete_stuck Cons.prems(2) by fastforce
qed

lemma distinct_part:
  assumes "distinct l" and "mset xs \<subseteq># mset l"
  shows "distinct xs"
  unfolding distinct_count_atmost_1
proof
  fix x
  have "count (mset xs) x \<le> count (mset l) x" using assms(2) by (simp add: mset_subset_eq_count)
  also have "\<dots> \<le> 1" using assms(1) by (simp add: distinct_count_atmost_1)
  finally show "count (mset xs) x = (if x \<in> set xs then 1 else 0)" by (auto simp: count_eq_zero_iff le_Suc_eq)
qed

lemma filter_reported:
  assumes "distinct l" and "mset xs \<subseteq># mset l"
  shows "mset l = mset xs + mset (filter (\<lambda>i. i \<notin> set xs) l)"
proof (rule multiset_eqI)
  fix x
  have "x \<in> set xs \<Longrightarrow> x \<in> set l" using assms(2) by (metis mset_subset_eqD set_mset_mset)
  then show "count (mset l) x = count (mset xs + mset (filter (\<lambda>i. i \<notin> set xs) l)) x"
    using assms(1) distinct_part[OF assms] by (auto simp: distinct_count_atmost_1 count_eq_zero_iff)
qed

lemma poll_stuck:
  assumes "reports_taken k" and "stuck M ld rs" and "libaio_poll k mn mx (complete env) ld rs = Some (Inr (ld', rs'))"
  shows "stuck M ld' rs'"
proof -
  obtain events where e: "k_getevents k mn mx (ld_kernel ld) = Some events" "libaio_events (complete env) events rs = Inr rs'"
      "ld' = ld\<lparr>ld_kernel := filter (\<lambda>i. i \<notin> set (map fst events)) (ld_kernel ld)\<rparr>"
    using assms(3) by (auto simp: libaio_poll_def bnd_eq_Inr split: option.splits)
  have "distinct (j_bio_inflight (r_job rs))" using assms(2) by (simp add: stuck_def)
  moreover have "mset (ld_kernel ld) \<subseteq># mset (j_bio_inflight (r_job rs))"
    using assms(2) by (auto simp: stuck_def libaio_pending_def dest: mset_subset_eq_add_left[THEN subset_mset.order_trans])
  ultimately have "distinct (ld_kernel ld)" by (rule distinct_part)
  then have m: "mset (ld_kernel ld) = mset (map fst events) + mset (ld_kernel ld')"
    using filter_reported[of "ld_kernel ld" "map fst events"] assms(1) e by (simp add: reports_taken_def)
  have "libaio_contents ld' = libaio_contents ld" "libaio_ok ld' = libaio_ok ld"
    by (simp_all add: e(3) libaio_contents_def libaio_ok_def ld_slot_def)
  then have "stuck (mset (map fst events) + M) ld' rs"
    using assms(2) m by (simp add: stuck_def libaio_pending_def add_ac)
  then show ?thesis by (rule events_stuck[OF e(2)])
qed


text \<open>Only a read or a write becomes pending.\<close>

lemma enqueue_pending:
  assumes "libaio_enqueue k fp async ld j bio = Inr (res, ld')" and "libaio_ok ld"
  shows "libaio_ok ld'"
    and "mset (libaio_pending ld') \<subseteq># add_mset j (mset (libaio_pending ld))"
    and "res \<noteq> 0 \<or> b_opcode bio \<noteq> bio_read \<and> b_opcode bio \<noteq> bio_write \<Longrightarrow> libaio_pending ld' = libaio_pending ld"
proof -
  have "libaio_ok ld' \<and> (libaio_pending ld' = libaio_pending ld \<or>
      res = 0 \<and> b_opcode bio \<in> {bio_read, bio_write} \<and> libaio_pending ld' = libaio_pending ld @ [j])"
  proof (cases "ld_nr_enqueued ld \<ge> ld_iodepth ld")
    case True
    then show ?thesis using assms by (simp add: libaio_enqueue_def)
  next
    case False
    then have room: "unat (ld_nr_enqueued ld) < ld_n ld" by (simp add: word_less_nat_alt not_le)
    show ?thesis
      using assms False libaio_push_room[OF assms(2) room, of j] libaio_submit_moves[OF assms(2), of k]
      by (auto simp: libaio_enqueue_def libaio_pending_def split: bio_opcode.splits if_splits)
  qed
  then show "libaio_ok ld'" "mset (libaio_pending ld') \<subseteq># add_mset j (mset (libaio_pending ld))"
    "res \<noteq> 0 \<or> b_opcode bio \<noteq> bio_read \<and> b_opcode bio \<noteq> bio_write \<Longrightarrow> libaio_pending ld' = libaio_pending ld"
    by auto
qed

lemma add_inflight_stuck:
  assumes "stuck M ld rs0" and "takes (Some j) (r_job rs0) (r_job rs)" and "j_num_inflight (r_job rs0) < jp_iodepth (j_params (r_job rs0))"
    and "libaio_ok ld'" and "mset (libaio_pending ld') + M' \<subseteq># add_mset j (mset (libaio_pending ld) + M)"
  shows "stuck M' ld' (add_inflight j rs)"
proof -
  have t: "j_bio_free (r_job rs0) = j # j_bio_free (r_job rs)" "j_bio_inflight (r_job rs) = j_bio_inflight (r_job rs0)"
      "j_num_inflight (r_job rs) = j_num_inflight (r_job rs0)" using assms(2) by (simp_all add: takes_def)
  have "unat (j_num_inflight (r_job rs0) + 1) = Suc (unat (j_num_inflight (r_job rs0)))" using assms(3) by (rule unat_succ)
  moreover have "mset (libaio_pending ld') + M' \<subseteq># add_mset j (mset (j_bio_inflight (r_job rs0)))"
    using assms(1,5) by (auto simp: stuck_def intro: subset_mset.order_trans)
  ultimately show ?thesis using assms(1,4) t by (auto simp: stuck_def add_inflight_def Let_def)
qed

lemma libaio_ops_sel [simp]:
  "eo_name (libaio_ops k fp async) = ''libaio''" "eo_enqueue (libaio_ops k fp async) = libaio_enqueue k fp async"
  "eo_submit (libaio_ops k fp async) = libaio_submit k" "eo_poll (libaio_ops k fp async) = libaio_poll k"
  "eo_reset (libaio_ops k fp async) = None" "eo_end (libaio_ops k fp async) = None"
  by (simp_all add: libaio_ops_def)

lemma stuck_less: "stuck M ld rs \<Longrightarrow> N \<subseteq># M \<Longrightarrow> stuck N ld rs"
  unfolding stuck_def by (meson subset_mset.add_left_mono subset_mset.order_trans)

lemma submit_branch_stuck:
  assumes "(if full then bnd (libaio_submit k ld) (\<lambda>(res, e).
        if res \<noteq> 0 then Inr (Break, e, rs\<lparr>r_iogen := (r_iogen rs)\<lparr>ig_result := res\<rparr>\<rparr>, n)
        else Inr (Continue, e, rs, 0)) else Inr (Continue, ld, rs, n)) = Inr (c, ld', rs', n')"
    and "stuck M ld rs"
  shows "stuck M ld' rs'"
proof (cases full)
  case True
  then obtain res e where s: "libaio_submit k ld = Inr (res, e)" "ld' = e"
      "rs' = rs \<or> rs' = rs\<lparr>r_iogen := (r_iogen rs)\<lparr>ig_result := res\<rparr>\<rparr>"
    using assms(1) by (auto simp: bnd_eq_Inr split: if_splits)
  show ?thesis using stuck_submit[OF assms(2) s(1)] s(2,3) by (auto simp: stuck_def)
qed (use assms in simp)

text \<open>Whatever request is issued, those of \<open>M\<close> remain; a deallocate joins them.\<close>

lemma issue_bio_stuck:
  assumes st: "stuck M ld rs0" and tk: "takes (Some j) (r_job rs0) (r_job rs)"
    and lt: "j_num_inflight (r_job rs0) < jp_iodepth (j_params (r_job rs0))"
    and iss: "issue_bio (libaio_ops k fp async) env ld rs n j = Inr (c, ld', rs', n')"
  shows "stuck M ld' rs' \<and>
    (c = Continue \<and> b_opcode (j_bio_pool (r_job rs) ! j) = bio_deallocate \<longrightarrow> stuck (add_mset j M) ld' rs')"
proof -
  obtain bio where bio: "arr_get (j_bio_pool (r_job rs)) j = Inr bio"
    using iss by (auto simp: issue_bio_def Let_def bnd_eq_Inr)
  then have op: "b_opcode (j_bio_pool (r_job rs) ! j) = b_opcode bio" by (auto simp: arr_get_eq_Inr)
  let ?b = "bio\<lparr>b_begin_ts := le_now env\<rparr>"
  define rs1 where "rs1 = rs\<lparr>r_job := (r_job rs)\<lparr>j_bio_pool := (j_bio_pool (r_job rs))[j := ?b]\<rparr>\<rparr>"
  obtain res ld1 where e: "libaio_enqueue k fp async ld j ?b = Inr (res, ld1)"
    using iss bio by (auto simp: issue_bio_def Let_def bnd_eq_Inr)
  have "libaio_ok ld" using st by (simp add: stuck_def)
  note q = enqueue_pending[OF e this]
  have tk1: "takes (Some j) (r_job rs0) (r_job rs1)" using tk by (simp add: takes_def rs1_def)
  note add = add_inflight_stuck[OF st tk1 lt q(1)]
  consider "res \<noteq> 0" | "res = 0" "b_opcode bio = bio_flush" | "res = 0" "b_opcode bio \<noteq> bio_flush" by blast
  then show ?thesis
  proof cases
    case 1
    then have "ld' = ld1" "c = Break" "rs' = rs1\<lparr>r_iogen := (r_iogen rs1)\<lparr>ig_result := res\<rparr>\<rparr>"
      using iss bio e by (auto simp: issue_bio_def Let_def rs1_def)
    moreover have "libaio_pending ld1 = libaio_pending ld" using q(3) 1 by simp
    ultimately show ?thesis using st tk1 q(1) by (auto simp: stuck_def takes_def)
  next
    case 2
    then have o: "ld' = ld1" "bio_end (le_end env j) j (add_inflight j rs1) = Inr rs'"
      using iss bio e by (auto simp: issue_bio_def Let_def rs1_def bnd_eq_Inr)
    have "libaio_pending ld1 = libaio_pending ld" using q(3) 2 by simp
    then have a: "stuck (add_mset j M) ld1 (add_inflight j rs1)" by (intro add) simp
    then have "stuck M ld1 rs'"
      by (intro bio_end_stuck[OF o(2) a]) (auto simp: stuck_def insert_subset_eq_iff)
    then show ?thesis using o(1) op 2 by simp
  next
    case 3
    obtain rs3 where r3: "record_bio ?b (add_inflight j rs1) = Inr rs3"
      and out: "(if n + 1 = batch_submit (j_params (r_job rs3)) \<or> j_num_inflight (r_job rs3) = jp_iodepth (j_params (r_job rs3)) then
          bnd (eo_submit (libaio_ops k fp async) ld1) (\<lambda>(res, e).
          if res \<noteq> 0 then Inr (Break, e, rs3\<lparr>r_iogen := (r_iogen rs3)\<lparr>ig_result := res\<rparr>\<rparr>, n + 1)
          else Inr (Continue, e, rs3, 0)) else Inr (Continue, ld1, rs3, n + 1)) = Inr (c, ld', rs', n')"
      using iss bio e 3 by (auto simp: issue_bio_def Let_def rs1_def bnd_eq_Inr)
    define N where "N = (if b_opcode bio = bio_deallocate then add_mset j M else M)"
    have "stuck N ld1 (add_inflight j rs1)"
      by (rule add) (use q(2,3) in \<open>auto simp: N_def subset_mset.add_right_mono\<close>)
    then have "stuck N ld1 rs3" using record_bio_job[OF r3] by (simp add: stuck_def)
    from submit_branch_stuck[OF out[unfolded libaio_ops_sel] this] have "stuck N ld' rs'" .
    then show ?thesis using stuck_less[of N ld' rs' M] op by (simp add: N_def split: if_splits)
  qed
qed

lemma retry_later_stuck:
  assumes "reports_taken k" and "stuck M ld rs" and "retry_later (libaio_ops k fp async) env ld rs n = Some (Inr (c, ld', rs', n'))"
  shows "stuck M ld' rs'"
proof -
  obtain r e1 where s: "(if n \<noteq> 0 then eo_submit (libaio_ops k fp async) ld else Inr (0, ld)) = Inr (r, e1)"
    and out: "(if r \<noteq> 0 then Some (Inr (Break, e1, rs\<lparr>r_iogen := (r_iogen rs)\<lparr>ig_result := r\<rparr>\<rparr>, n))
      else obnd (eo_poll (libaio_ops k fp async) 0 (jp_batch_complete (j_params (r_job rs))) (complete (le_end env)) e1 rs) (\<lambda>(e, rs).
        Some (Inr (Continue, e, rs, 0)))) = Some (Inr (c, ld', rs', n'))"
    using assms(3) by (auto simp: retry_later_def obnd_eq_Inr)
  have st: "stuck M e1 rs" using s assms(2) stuck_submit by (auto split: if_splits)
  show ?thesis
  proof (cases "r = 0")
    case True
    then have "libaio_poll k 0 (jp_batch_complete (j_params (r_job rs))) (complete (le_end env)) e1 rs = Some (Inr (ld', rs'))"
      using out by (auto simp: obnd_eq_Inr)
    then show ?thesis by (rule poll_stuck[OF assms(1) st])
  next
    case False
    then show ?thesis using out st by (auto simp: stuck_def)
  qed
qed

lemma runner_iter_stuck:
  assumes k: "reports_taken k" and st: "stuck M ld rs"
    and it: "runner_iter (libaio_ops k fp async) env ld rs n = Some (Inr (c, ld', rs', n'))"
  shows "stuck M ld' rs'"
proof -
  let ?ops = "libaio_ops k fp async"
  let ?bc = "\<lambda>rs. jp_batch_complete (j_params (r_job rs))"
  obtain rs1 e2 rs2 n2 where t: "(if jp_timeout (j_params (r_job rs)) \<noteq> 0 \<and> j_num_inflight (r_job rs) \<noteq> 0
        then bnd (check_timeouts (le_now env) (j_bio_inflight (r_job rs)) (r_job rs)) (\<lambda>job. Inr (rs\<lparr>r_job := job\<rparr>))
        else Inr rs) = Inr rs1"
    and r: "(if j_reset_next (r_job rs1) > 0 \<and> uint (j_reset_next (r_job rs1)) < le_time env
         then bnd (job_reset ?ops env ld (r_job rs1)) (\<lambda>(e, job). Inr (e, rs1\<lparr>r_job := job\<rparr>, 0))
         else Inr (ld, rs1, n)) = Inr (e2, rs2, n2)"
    and body: "(if j_num_inflight (r_job rs2) < jp_iodepth (j_params (r_job rs2)) then
         obnd (generate_bio (le_gen env) rs2) (\<lambda>(rs, out).
         case out of None \<Rightarrow> retry_later ?ops env e2 rs n2 | Some i \<Rightarrow> Some (issue_bio ?ops env e2 rs n2 i))
       else obnd (eo_poll ?ops 0 (?bc rs2) (complete (le_end env)) e2 rs2) (\<lambda>(e, rs).
         Some (Inr (Continue, e, rs, n2)))) = Some (Inr (c, ld', rs', n'))"
    using it unfolding runner_iter_def by (auto simp only: obnd_eq_Inr option.inject)
  have "job_lists (r_job rs1) = job_lists (r_job rs)"
    using t check_timeouts_lists by (auto simp: bnd_eq_Inr split: if_splits)
  then have "stuck M ld rs1" by (rule stuck_frame[OF st])
  then have st2: "stuck M e2 rs2" using r by (auto simp: job_reset_def split: if_splits)
  show ?thesis
  proof (cases "j_num_inflight (r_job rs2) < jp_iodepth (j_params (r_job rs2))")
    case True
    then obtain rs3 out where g: "generate_bio (le_gen env) rs2 = Some (Inr (rs3, out))"
      and o: "(case out of None \<Rightarrow> retry_later ?ops env e2 rs3 n2 | Some i \<Rightarrow> Some (issue_bio ?ops env e2 rs3 n2 i)) =
        Some (Inr (c, ld', rs', n'))" using body by (auto simp: obnd_eq_Inr)
    show ?thesis
    proof (cases out)
      case None
      then have "job_lists (r_job rs3) = job_lists (r_job rs2)" using generate_bio_takes[OF g] by (simp add: takes_def)
      then show ?thesis using retry_later_stuck[OF k stuck_frame[OF st2]] o None by simp
    next
      case (Some i)
      then show ?thesis using issue_bio_stuck[OF st2 _ True] generate_bio_takes[OF g] o by auto
    qed
  next
    case False
    then have "libaio_poll k 0 (?bc rs2) (complete (le_end env)) e2 rs2 = Some (Inr (ld', rs'))"
      using body by (auto simp: obnd_eq_Inr)
    then show ?thesis by (rule poll_stuck[OF k st2])
  qed
qed

text \<open>A job with requests that the engine does not have never finishes, but for the level 3 power-off test.\<close>

definition never_done :: "nat multiset \<Rightarrow> libaio_data runner \<Rightarrow> bool" where
  "never_done M s \<longleftrightarrow> case_prod (stuck M) (runner_parts s) \<and>
     (case s of Finished e rs \<Rightarrow> 3 \<le> ig_spor_level (r_iogen rs) | _ \<Rightarrow> True)"

lemma runner_step_stuck:
  assumes "runner_step (libaio_ops k fp async) s s'" and k: "reports_taken k" and "never_done M s" and "M \<noteq> {#}"
  shows "never_done M s'"
  using assms(1,3)
proof (induction rule: runner_step.induct)
  case (iterate rs rs1 env e n e' rs' n')
  then show ?case
    using runner_iter_stuck[OF k stuck_frame[OF _ should_stop_lists[OF iterate(1)]] iterate(2)] by (simp add: never_done_def)
next
  case (stop rs rs1 e r e' n)
  then show ?case
    using stuck_submit[OF stuck_frame[OF _ should_stop_lists[OF stop(1)]]] by (simp add: never_done_def)
next
  case (fail rs rs1 env e n e1 rs' n' r e')
  then have "stuck M e1 rs'"
    using runner_iter_stuck[OF k stuck_frame[OF _ should_stop_lists[OF fail(1)]] fail(2)] by (simp add: never_done_def)
  then show ?case using stuck_submit fail(3) by (simp add: never_done_def)
next
  case (drain rs env e e' rs')
  then show ?case using poll_stuck[OF k] by (simp add: never_done_def)
next
  case (finish rs now e e' rs')
  have "mset (j_bio_inflight (r_job rs)) \<noteq> {#}"
    using finish(3) assms(4) by (auto simp: never_done_def stuck_def)
  then have "0 < unat (j_num_inflight (r_job rs))" using finish(3) by (simp add: never_done_def stuck_def)
  then have "3 \<le> ig_spor_level (r_iogen rs)" using finish(1) by (auto simp: word_less_nat_alt word_le_nat_alt)
  then show ?case using finish(2,3) by (auto simp: never_done_def stuck_def iogen_job_end_def Let_def)
next
  case (other_looping rs rs' e n)
  then show ?case by (auto simp: never_done_def others_def stuck_def)
next
  case (other_draining rs rs' e)
  then show ?case by (auto simp: never_done_def others_def stuck_def)
qed

lemma runner_reachable_stuck:
  assumes "(runner_step (libaio_ops k fp async))\<^sup>*\<^sup>* s s'" and "reports_taken k" and "never_done M s" and "M \<noteq> {#}"
  shows "never_done M s'"
  using assms(1,3) by (induction rule: rtranclp_induct) (auto intro: runner_step_stuck[OF _ assms(2) _ assms(4)])

text \<open>C40: With libaio a job that deallocates never ends. Let the job thread, in a state where the engine
  has only requests that are in flight, generate a deallocate and issue it. The discard is done while the
  request is enqueued and no event will ever report it, but the job counts it as in flight. So in every
  state that the thread reaches from there, whatever the other threads do, the request is in flight
  although the engine has it not; the job does not finish unless a level 3 power-off test skips the
  wait; and once the engine has no request left the draining loop never returns. The hypotheses on the
  kernel are that it reports only requests that it has taken, each once, and that a call which asks for
  an event does not return while it has none.\<close>

theorem libaio_deallocate_hangs:
  assumes k: "reports_taken k" "\<And>mn mx. mn > 0 \<Longrightarrow> k_getevents k mn mx [] = None"
    and start: "pool_inv (r_job rs)" "libaio_ok ld" "mset (libaio_pending ld) \<subseteq># mset (j_bio_inflight (r_job rs))"
      "j_num_inflight (r_job rs) < jp_iodepth (j_params (r_job rs))"
    and gen: "generate_bio genv rs = Some (Inr (rs1, Some i))" "b_opcode (j_bio_pool (r_job rs1) ! i) = bio_deallocate"
    and issue: "issue_bio (libaio_ops k fp async) env ld rs1 n i = Inr (Continue, ld2, rs2, n2)"
    and reach: "(runner_step (libaio_ops k fp async))\<^sup>*\<^sup>* (Looping ld2 rs2 n2) s"
  shows "(case runner_parts s of (ld', rs') \<Rightarrow>
      i \<in> set (j_bio_inflight (r_job rs')) \<and> i \<notin> set (libaio_pending ld') \<and>
      (libaio_pending ld' = [] \<and> ig_spor_level (r_iogen rs') < 3 \<longrightarrow> drain (libaio_ops k fp async) eenv m ld' rs' = None)) \<and>
    (case s of Finished ld' rs' \<Rightarrow> 3 \<le> ig_spor_level (r_iogen rs') | _ \<Rightarrow> True)"
proof -
  have "stuck {#} ld rs" using start by (auto simp: stuck_def pool_inv_def)
  then have "stuck {#i#} ld2 rs2"
    using issue_bio_stuck[OF _ generate_bio_takes[OF gen(1)] start(4) issue] gen(2) by simp
  then have nd: "never_done {#i#} s"
    by (intro runner_reachable_stuck[OF reach k(1)]) (simp_all add: never_done_def)
  obtain ld' rs' where p: "runner_parts s = (ld', rs')" by fastforce
  have st: "stuck {#i#} ld' rs'" using nd p by (simp add: never_done_def)
  then have m: "distinct (j_bio_inflight (r_job rs'))" "mset (libaio_pending ld' @ [i]) \<subseteq># mset (j_bio_inflight (r_job rs'))"
    by (simp_all add: stuck_def)
  have "distinct (libaio_pending ld' @ [i])" by (rule distinct_part[OF m])
  moreover have i: "i \<in> set (j_bio_inflight (r_job rs'))" using mset_subset_eqD[OF m(2), of i] by simp
  moreover have "drain (libaio_ops k fp async) eenv m ld' rs' = None"
    if "libaio_pending ld' = []" "ig_spor_level (r_iogen rs') < 3"
  proof (rule drain_blocked)
    have "0 < unat (j_num_inflight (r_job rs'))" using st i by (auto simp: stuck_def)
    then show "j_num_inflight (r_job rs') > 0" by (simp add: word_less_nat_alt)
  qed (use that k(2) in \<open>simp_all add: libaio_pending_def\<close>)
  ultimately show ?thesis using nd p by (simp add: never_done_def)
qed

text \<open>A job of two deallocates: one is issued, another thread ends the run, and the job thread waits for ever.\<close>

definition dealloc_run :: job_run where
  "dealloc_run = sample_run\<lparr>r_job := sample_job\<lparr>j_opr_lottery := replicate 100 3,
     j_params := (j_params sample_job)\<lparr>jp_iodepth := 2\<rparr>, j_bio_pool := j_bio_pool sample_job @ j_bio_pool sample_job,
     j_bio_free := [0, 1]\<rparr>\<rparr>"

definition idle_ring :: libaio_data where
  "idle_ring = \<lparr>ld_iocbs = [None, None], ld_iodepth = 2, ld_tail = 0, ld_head = 0, ld_nr_enqueued = 0, ld_kernel = []\<rparr>"

lemma dealloc_run_ok: "run_ok 2 dealloc_run" "unhindered dealloc_run" "pool_inv (r_job dealloc_run)"
proof -
  show "run_ok 2 dealloc_run"
    using sample_run_ok by (auto simp: dealloc_run_def run_ok_def job_fits_def sample_run_def sample_job_def Let_def)
  show "unhindered dealloc_run"
    by (simp add: unhindered_def dealloc_run_def sample_run_def sample_job_def sample_iover_def locked_empty)
  show "pool_inv (r_job dealloc_run)"
    by (auto simp: pool_inv_def dealloc_run_def sample_run_def sample_job_def iogen_job_zero_def)
qed

lemma idle_ring_ok: "libaio_ok idle_ring" "libaio_pending idle_ring = []" "libaio_submit k idle_ring = Inr (0, idle_ring)"
  by (simp_all add: libaio_ok_def libaio_pending_def libaio_contents_def idle_ring_def libaio_submit.simps[of k])

lemma slow_kernel_ok: "reports_taken slow_kernel" "mn > 0 \<Longrightarrow> k_getevents slow_kernel mn mx [] = None"
proof -
  have "mset (take n l) \<subseteq># mset l" for n and l :: "nat list"
    by (metis append_take_drop_id mset_append mset_subset_eq_add_left)
  moreover have "map fst (map (\<lambda>i. (i, 0 :: int)) l) = l" for l :: "nat list" by (induction l) simp_all
  ultimately show "reports_taken slow_kernel" unfolding reports_taken_def slow_kernel_def by (simp split: if_split del: mset_map)
qed (simp add: slow_kernel_def)

lemma dealloc_generated:
  "\<exists>rs1. generate_bio sample_genv dealloc_run = Some (Inr (rs1, Some 0)) \<and>
     b_opcode (j_bio_pool (r_job rs1) ! 0) = bio_deallocate \<and> 0 < length (j_bio_pool (r_job rs1))"
proof -
  have "j_bio_free (r_job dealloc_run) = 0 # [1]" by (simp add: dealloc_run_def)
  from generate_bio_ok[OF dealloc_run_ok(1) this, of sample_genv] dealloc_run_ok(2)
  obtain rs1 x where g: "generate_bio sample_genv dealloc_run = Some (Inr (rs1, Some 0))" "generated 2 dealloc_run rs1 (Some 0)"
      "x \<in> set (j_opr_lottery (r_job dealloc_run))"
      "b_opcode (j_bio_pool (r_job rs1) ! 0) = sent_as (r_job dealloc_run) (bio_opcodes ! unat x)" by auto
  have "x = 3" using g(3) by (simp add: dealloc_run_def)
  then have "b_opcode (j_bio_pool (r_job rs1) ! 0) = bio_deallocate" using g(4) by (simp add: sent_as_def bio_opcodes_def)
  moreover have "job_fits 2 (r_job rs1)" "j_bio_free (r_job rs1) = [1]"
    using g(2) by (simp_all add: generated_def run_ok_def Let_def dealloc_run_def)
  then have "1 < length (j_bio_pool (r_job rs1))" by (simp add: job_fits_def)
  ultimately show ?thesis using g(1) by auto
qed

lemma dealloc_issued:
  assumes "generate_bio sample_genv dealloc_run = Some (Inr (rs1, Some 0))"
    and "b_opcode (j_bio_pool (r_job rs1) ! 0) = bio_deallocate" and "0 < length (j_bio_pool (r_job rs1))"
  shows "\<exists>rs2. issue_bio (libaio_ops slow_kernel False False) sample_lenv idle_ring rs1 0 0 = Inr (Continue, idle_ring, rs2, 1)"
proof -
  let ?b = "(j_bio_pool (r_job rs1) ! 0)\<lparr>b_begin_ts := le_now sample_lenv\<rparr>"
  have e: "libaio_enqueue slow_kernel False False idle_ring 0 ?b = Inr (0, idle_ring)"
    using assms(2) idle_ring_ok(3) by (simp add: libaio_enqueue_def slow_kernel_def) (simp add: idle_ring_def)
  have "j_params (r_job rs1) = j_params (r_job dealloc_run)" "j_num_inflight (r_job rs1) = 0"
    using generate_bio_takes[OF assms(1)] by (simp_all add: takes_def dealloc_run_def sample_job_def iogen_job_zero_def)
  then show ?thesis
    using assms(2,3) e
    by (simp add: issue_bio_def record_bio_def add_inflight_def backup_hist_state_def batch_submit_def dealloc_run_def Let_def
        sample_job_def sample_jp_def job_params_zero_def)
qed

theorem libaio_deallocate_hangs_witness:
  "\<exists>rs1 rs2 rs3. generate_bio sample_genv dealloc_run = Some (Inr (rs1, Some 0)) \<and>
    issue_bio (libaio_ops slow_kernel False False) sample_lenv idle_ring rs1 0 0 = Inr (Continue, idle_ring, rs2, 1) \<and>
    (runner_step (libaio_ops slow_kernel False False))\<^sup>*\<^sup>* (Looping idle_ring rs2 1) (Draining idle_ring rs3) \<and>
    drain (libaio_ops slow_kernel False False) (\<lambda>n i. sample_eenv) 0 idle_ring rs3 = None"
proof -
  obtain rs1 rs2 where g: "generate_bio sample_genv dealloc_run = Some (Inr (rs1, Some 0))"
      "b_opcode (j_bio_pool (r_job rs1) ! 0) = bio_deallocate"
      "issue_bio (libaio_ops slow_kernel False False) sample_lenv idle_ring rs1 0 0 = Inr (Continue, idle_ring, rs2, 1)"
    using dealloc_generated dealloc_issued by blast
  let ?ops = "libaio_ops slow_kernel False False"
  let ?ended = "rs2\<lparr>r_iogen := sample_iogen\<lparr>ig_state := iogen_state_done\<rparr>\<rparr>"
  let ?stopped = "?ended\<lparr>r_job := (r_job rs2)\<lparr>j_state := iogen_job_state_aborting\<rparr>\<rparr>"
  have 1: "runner_step ?ops (Looping idle_ring rs2 1) (Looping idle_ring ?ended 1)"
    by (rule runner_step.other_looping) (unfold others_def, intro exI[of _ "r_iogen ?ended"] exI[of _ "r_iover rs2"]
        exI[of _ "r_well rs2"] exI[of _ "j_timeout (r_job rs2)"], simp)
  have 2: "runner_step ?ops (Looping idle_ring ?ended 1) (Draining idle_ring ?stopped)"
    by (rule runner_step.stop[of _ _ _ _ 0]) (simp_all add: iogen_job_should_stop_def idle_ring_ok)
  have run: "(runner_step ?ops)\<^sup>*\<^sup>* (Looping idle_ring rs2 1) (Draining idle_ring ?stopped)"
    using 1 2 by (meson converse_rtranclp_into_rtranclp rtranclp.rtrancl_refl)
  have "j_num_inflight (r_job dealloc_run) < jp_iodepth (j_params (r_job dealloc_run))"
    by (simp add: dealloc_run_def sample_job_def iogen_job_zero_def)
  from libaio_deallocate_hangs[OF slow_kernel_ok dealloc_run_ok(3) idle_ring_ok(1) _ this g run, of "\<lambda>n i. sample_eenv" 0]
  have "drain ?ops (\<lambda>n i. sample_eenv) 0 idle_ring ?stopped = None"
    by (simp add: idle_ring_ok(2) sample_iogen_def)
  then show ?thesis using g run by blast
qed

end
