(* ===== verification/Spdkio.thy ===== *)
theory Spdkio
  imports Iover
begin

text \<open>
  The SPDK engine (\<open>nbio/io/spdkio.c\<close>), as far as it computes: its parameters, the search for the
  namespace, the count of instances, the ranges of a deallocate, the scatter-gather entries and the
  commands that it builds. The SPDK library itself is not modelled; its constants and answers are
  arguments.
\<close>

section \<open>Instances\<close>

record instance_data =
  id_nsid :: u32
  id_sgl :: bool
  id_wrru :: bool
  id_qprio :: nat
  id_cmb_sqs :: bool

definition instance_zero :: instance_data where
  "instance_zero = \<lparr>id_nsid = 0, id_sgl = False, id_wrru = False, id_qprio = 0, id_cmb_sqs = False\<rparr>"

text \<open>\<open>strncmp\<close> of two strings without null characters answers zero.\<close>

definition strncmp_equal :: "string \<Rightarrow> string \<Rightarrow> nat \<Rightarrow> bool" where
  "strncmp_equal s t n \<longleftrightarrow> take n (s @ [CHR 0x00]) = take n (t @ [CHR 0x00])"

definition set_param :: "string \<Rightarrow> nat \<Rightarrow> instance_data \<Rightarrow> instance_data" where
  "set_param str len d =
     (if strncmp_equal str ''sgl'' len then d\<lparr>id_sgl := True\<rparr>
      else if strncmp_equal str ''wrru'' len then d\<lparr>id_wrru := True\<rparr>
      else if strncmp_equal str ''qprio_urgent'' len then d\<lparr>id_qprio := 0\<rparr>
      else if strncmp_equal str ''qprio_high'' len then d\<lparr>id_qprio := 1\<rparr>
      else if strncmp_equal str ''qprio_medium'' len then d\<lparr>id_qprio := 2\<rparr>
      else if strncmp_equal str ''qprio_low'' len then d\<lparr>id_qprio := 3\<rparr>
      else if strncmp_equal str ''cmb_sqs'' len then d\<lparr>id_cmb_sqs := True\<rparr>
      else d)"

text \<open>\<open>str\<close> and \<open>c\<close> are the two pointers into the parameter, as the rest of the string from there on.\<close>

fun param_loop :: "string \<Rightarrow> string \<Rightarrow> nat \<Rightarrow> instance_data \<Rightarrow> instance_data" where
  "param_loop str [] len d = (if len \<noteq> 0 then set_param str len d else d)"
| "param_loop str (c # cs) len d =
     (if c = CHR '','' \<and> len \<noteq> 0 then param_loop cs cs 0 (set_param str len d)
      else param_loop str cs (len + 1) d)"

definition spdk_parse_param :: "instance_data \<Rightarrow> string \<Rightarrow> instance_data" where
  "spdk_parse_param d param = param_loop param param 0 d"

text \<open>The list of controllers: address and active namespaces, the last attached first.\<close>

fun set_idata :: "(string \<times> (u32 \<Rightarrow> bool)) list \<Rightarrow> string \<Rightarrow> u32 \<Rightarrow> instance_data \<Rightarrow> (nat \<times> instance_data) option" where
  "set_idata [] pci_addr nsid d = None"
| "set_idata ((addr, active) # cs) pci_addr nsid d =
     (if addr = pci_addr \<and> active nsid then Some (0, d\<lparr>id_nsid := nsid\<rparr>)
      else map_option (\<lambda>(i, d). (Suc i, d)) (set_idata cs pci_addr nsid d))"

text \<open>
  Initialisation: the memory, and for the first instance the environment, the probe and the
  controllers it found. The result, the number of instances and the new instance; the count is not
  taken back when the namespace is wrong.
\<close>

record spdk_env =
  se_alloc :: bool
  se_env_init :: int
  se_probe :: int
  se_controllers :: "(string \<times> (u32 \<Rightarrow> bool)) list"

definition spdkio_init :: "spdk_env \<Rightarrow> int \<Rightarrow> string \<Rightarrow> u32 \<Rightarrow> string \<Rightarrow> int \<times> int \<times> instance_data option" where
  "spdkio_init env nr_instances controller nsid param =
     (if \<not> se_alloc env then (- 1, nr_instances, None) else
      let d = spdk_parse_param instance_zero param in
      if nr_instances = 0 \<and> (se_env_init env < 0 \<or> se_probe env \<noteq> 0 \<or> se_controllers env = []) then (- 1, nr_instances, None) else
      let nr_instances = nr_instances + 1 in
      if nsid = 0 \<or> nsid = 0xFFFFFFFF then (- 1, nr_instances, None) else
      case set_idata (se_controllers env) controller nsid d of None \<Rightarrow> (- 1, nr_instances, None)
      | Some (ctrlr, d) \<Rightarrow> (0, nr_instances, Some d))"

text \<open>The last instance detaches the controllers.\<close>

definition spdkio_exit :: "int \<Rightarrow> int \<times> bool" where
  "spdkio_exit nr_instances = (let nr_instances = nr_instances - 1 in (nr_instances, nr_instances = 0))"

section \<open>Deallocation\<close>

text \<open>\<open>mx\<close> is SPDK's largest number of blocks of one range; a range is its length and its first block.\<close>

partial_function (option) dealloc_ranges :: "u32 \<Rightarrow> u64 \<Rightarrow> u64 \<Rightarrow> (u32 \<times> u64) list option" where
  "dealloc_ranges mx offset remaining =
     (if remaining > ucast mx
      then Option.bind (dealloc_ranges mx (offset + ucast mx) (remaining - ucast mx)) (\<lambda>rs. Some ((mx, offset) # rs))
      else Some [(ucast remaining, offset)])"

definition num_ranges :: "u32 \<Rightarrow> u32 \<Rightarrow> u64" where
  "num_ranges mx nlbs = (ucast nlbs + ucast mx - 1) div ucast mx"

abbreviation EINVAL :: int where "EINVAL \<equiv> 22"

text \<open>An error, or the number of ranges and what is stored in the data buffer.\<close>

definition spdkio_dealloc :: "u32 \<Rightarrow> bio \<Rightarrow> (int + u16 \<times> (u32 \<times> u64) list) option" where
  "spdkio_dealloc mx bio =
     (if num_ranges mx (b_nlbs bio) > 64 then Some (Inl (- EINVAL))
      else Option.bind (dealloc_ranges mx (b_slba bio) (ucast (b_nlbs bio)))
        (\<lambda>rs. Some (Inr (ucast (num_ranges mx (b_nlbs bio)), rs))))"

section \<open>Commands\<close>

datatype raw_opcode = Opc_write_uncorrectable | Opc_write_zeroes | Opc_identify

record raw_cmd =
  rw_opc :: raw_opcode
  rw_nsid :: u32
  rw_cdw10 :: u32
  rw_cdw11 :: u32
  rw_cdw12 :: u32
  rw_cdw14 :: u32
  rw_cdw15 :: u32

definition raw_zero :: "raw_opcode \<Rightarrow> instance_data \<Rightarrow> raw_cmd" where
  "raw_zero opc d = \<lparr>rw_opc = opc, rw_nsid = id_nsid d, rw_cdw10 = 0, rw_cdw11 = 0, rw_cdw12 = 0, rw_cdw14 = 0, rw_cdw15 = 0\<rparr>"

text \<open>A 64-bit store into two command words.\<close>

definition put_slba :: "u64 \<Rightarrow> raw_cmd \<Rightarrow> raw_cmd" where
  "put_slba slba cmd = cmd\<lparr>rw_cdw10 := ucast slba, rw_cdw11 := ucast (drop_bit 32 slba)\<rparr>"

definition spdkio_write_uncorrect :: "instance_data \<Rightarrow> bio \<Rightarrow> raw_cmd" where
  "spdkio_write_uncorrect d bio =
     (put_slba (b_slba bio) (raw_zero Opc_write_uncorrectable d))\<lparr>rw_cdw12 := b_nlbs bio - 1\<rparr>"

text \<open>The upper half of the second 64-bit store is overwritten by the application tag.\<close>

definition spdkio_write_zeroes :: "instance_data \<Rightarrow> bio \<Rightarrow> u32 \<Rightarrow> u16 \<Rightarrow> u16 \<Rightarrow> raw_cmd" where
  "spdkio_write_zeroes d bio flag appmask apptag =
     (put_slba (b_slba bio) (raw_zero Opc_write_zeroes d))\<lparr>rw_cdw12 := flag OR (b_nlbs bio - 1),
        rw_cdw14 := ucast (b_slba bio), rw_cdw15 := push_bit 16 (ucast appmask) OR ucast apptag\<rparr>"

text \<open>Protection information: the flags, mask and tag, and the request, whose \<open>pract\<close> a write zeroes sets.\<close>

definition prot_flags :: "namespace_info \<Rightarrow> bio \<Rightarrow> u32 \<times> u16 \<times> u16 \<times> bio" where
  "prot_flags ns bio =
     (if ns_pi_type ns \<noteq> 0 then
        let zeroes = (b_opcode bio = bio_write_zeroes);
            bio = (if zeroes then bio\<lparr>b_pract := True\<rparr> else bio);
            flag = (if zeroes then 0 else push_bit 26 (ucast (b_prchk bio))) OR push_bit 29 (of_bool (b_pract bio)) in
        (flag, 0xFFFF, b_apptag bio, bio)
      else (0, 0, 0, bio))"

text \<open>What is handed to SPDK: plain or scattered reads and writes with a stream, or a command.\<close>

datatype spdk_call =
    Call_read bool u64 u32 u32 u16 u16
  | Call_write bool u16 u64 u32 u32 u16 u16
  | Call_flush
  | Call_dealloc u16 "(u32 \<times> u64) list"
  | Call_raw raw_cmd
  | Call_admin raw_cmd

text \<open>\<open>submit\<close> is the result of the call; an unknown opcode and too many ranges are errors.\<close>

definition spdkio_enqueue ::
  "u32 \<Rightarrow> namespace_info \<Rightarrow> instance_data \<Rightarrow> (spdk_call \<Rightarrow> int) \<Rightarrow> bio \<Rightarrow> (int \<times> bio) option" where
  "spdkio_enqueue mx ns d submit bio0 =
     (let (flag, appmask, apptag, bio) = prot_flags ns bio0; slba = b_slba bio; nlbs = b_nlbs bio in
      case b_opcode bio of
        bio_read \<Rightarrow> Some (submit (Call_read (id_sgl d) slba nlbs flag appmask apptag), bio)
      | bio_write \<Rightarrow> Some (submit (Call_write (id_sgl d) (b_stream_id bio) slba nlbs flag appmask apptag), bio)
      | bio_flush \<Rightarrow> Some (submit Call_flush, bio)
      | bio_deallocate \<Rightarrow>
          map_option (\<lambda>r. (case r of Inl e \<Rightarrow> e | Inr (n, rs) \<Rightarrow> submit (Call_dealloc n rs), bio)) (spdkio_dealloc mx bio)
      | bio_write_zeroes \<Rightarrow> Some (submit (Call_raw (spdkio_write_zeroes d bio flag appmask apptag)), bio)
      | bio_write_uncorrect \<Rightarrow> Some (submit (Call_raw (spdkio_write_uncorrect d bio)), bio)
      | bio_identify \<Rightarrow> Some (submit (Call_admin (raw_zero Opc_identify d)), bio)
      | _ \<Rightarrow> Some (- 1, bio))"

section \<open>Scatter-gather entries\<close>

abbreviation SGL_ENTRY_SIZE :: u64 where "SGL_ENTRY_SIZE \<equiv> 4096"

definition reset_sgl :: "u32 \<Rightarrow> bio \<Rightarrow> bio" where
  "reset_sgl offset bio = bio\<lparr>b_sgl_offset := offset\<rparr>"

text \<open>
  The next entry of a request whose data starts at the address \<open>base\<close>; a page has \<open>2 ^ p\<close> bytes. An entry
  of at least a page that starts and ends inside a page is cut at the boundary.
\<close>

definition sge_len :: "nat \<Rightarrow> u64 \<Rightarrow> u32 \<Rightarrow> u32" where
  "sge_len p addr len =
     (if len \<ge> 2 ^ p \<and> take_bit p addr \<noteq> 0 \<and> take_bit p (addr + ucast len) \<noteq> 0
      then len - ucast (take_bit p (addr + ucast len)) else len)"

definition next_sge :: "nat \<Rightarrow> u64 \<Rightarrow> bio \<Rightarrow> (u64 \<times> u32) \<times> bio" where
  "next_sge p base bio =
     (let addr = base + ucast (b_sgl_offset bio);
          len = sge_len p addr (ucast (min SGL_ENTRY_SIZE (b_iosize bio - ucast (b_sgl_offset bio)))) in
      ((addr, len), bio\<lparr>b_sgl_offset := b_sgl_offset bio + len\<rparr>))"

section \<open>What a deallocate covers\<close>

definition range_blocks :: "(u32 \<times> u64) list \<Rightarrow> nat list" where
  "range_blocks rs = concat (map (\<lambda>(len, lba). [unat lba..<unat lba + unat len]) rs)"

lemma upt_split: "i \<le> j \<Longrightarrow> j \<le> k \<Longrightarrow> [i..<k] = [i..<j] @ [j..<k]"
  by (metis le_add_diff_inverse upt_add_eq_append)

lemma dealloc_ranges_cover:
  assumes "0 < mx" and "0 < remaining" and "unat offset + unat remaining < 2 ^ 64" and "unat remaining < 2 ^ 32"
  shows "\<exists>rs. dealloc_ranges mx offset remaining = Some rs \<and> range_blocks rs = [unat offset..<unat offset + unat remaining] \<and>
    (\<forall>(len, lba) \<in> set rs. len \<le> mx) \<and> length rs = (unat remaining + unat mx - 1) div unat mx"
  using assms(2-4)
proof (induction "unat remaining" arbitrary: offset remaining rule: less_induct)
  case less
  have um: "unat (ucast mx :: u64) = unat mx" by (simp add: unsigned_ucast_eq take_bit_nat_eq_self_iff order_less_le_trans[OF unsigned_less])
  have mx: "0 < unat mx" using assms(1) by (simp add: unat_gt_0 word_gt_0)
  show ?case
  proof (cases "remaining > ucast mx")
    case True
    then have gt: "unat mx < unat remaining" by (simp add: word_less_nat_alt um)
    then have sub: "unat (remaining - ucast mx) = unat remaining - unat mx" by (simp add: unat_sub word_le_nat_alt um)
    have add: "unat (offset + ucast mx) = unat offset + unat mx" using gt less(3) by (simp add: unat_word_ariths um)
    have "0 < remaining - ucast mx" using gt sub by (simp add: word_less_nat_alt)
    moreover have "unat remaining - unat mx < 2 ^ 32" using less(4) by linarith
    ultimately obtain rs where rs: "dealloc_ranges mx (offset + ucast mx) (remaining - ucast mx) = Some rs"
        "range_blocks rs = [unat offset + unat mx..<unat offset + unat remaining]" "\<forall>(len, lba) \<in> set rs. len \<le> mx"
        "length rs = (unat remaining - unat mx + unat mx - 1) div unat mx"
      using less(1)[of "remaining - ucast mx" "offset + ucast mx"] less(3,4) gt mx sub add by auto
    have "dealloc_ranges mx offset remaining = Some ((mx, offset) # rs)"
      using True rs(1) by (simp add: dealloc_ranges.simps[of mx offset])
    moreover have "range_blocks ((mx, offset) # rs) = [unat offset..<unat offset + unat remaining]"
      using rs(2) gt upt_split[of "unat offset" "unat offset + unat mx" "unat offset + unat remaining"] by (simp add: range_blocks_def)
    moreover have "Suc ((unat remaining - 1) div unat mx) = (unat remaining + unat mx - 1) div unat mx"
      using gt mx div_add_self2[of "unat mx" "unat remaining - 1"] by simp
    ultimately show ?thesis using rs(3,4) gt by auto
  next
    case False
    then have le: "unat remaining \<le> unat mx" by (simp add: word_less_nat_alt um)
    have ur: "unat (ucast remaining :: u32) = unat remaining" using less(4) by (simp add: unsigned_ucast_eq take_bit_nat_eq_self)
    have "0 < unat remaining" using less(2) by (simp add: word_less_nat_alt)
    then have "(unat remaining + unat mx - 1) div unat mx = 1" using le by (intro div_nat_eqI) auto
    then show ?thesis using False ur le by (simp add: dealloc_ranges.simps[of mx offset] range_blocks_def word_le_nat_alt)
  qed
qed

text \<open>C13: a deallocate request covers exactly its blocks. For a request of at least one block the call
  returns, either the error for more than 64 ranges or as many ranges as it announces, each no longer
  than the limit, which in order list the blocks from the first to the last block of the request.
\<close>

theorem spdkio_dealloc_exact:
  assumes "0 < mx" and "0 < b_nlbs bio" and "slba_nat bio + nlbs_nat bio < 2 ^ 64"
  shows "if (nlbs_nat bio + unat mx - 1) div unat mx > 64 then spdkio_dealloc mx bio = Some (Inl (- EINVAL))
    else \<exists>rs. spdkio_dealloc mx bio = Some (Inr (of_nat (length rs), rs)) \<and>
      concat (map (\<lambda>(len, lba). [unat lba..<unat lba + unat len]) rs) = [slba_nat bio..<slba_nat bio + nlbs_nat bio] \<and>
      (\<forall>(len, lba) \<in> set rs. len \<le> mx)"
proof -
  have u: "unat (ucast w :: u64) = unat w" for w :: u32
    by (simp add: unsigned_ucast_eq take_bit_nat_eq_self_iff order_less_le_trans[OF unsigned_less])
  have mx: "0 < unat mx" "0 < nlbs_nat bio" using assms(1,2) by (simp_all add: word_less_nat_alt)
  have small: "nlbs_nat bio < 2 ^ 32" "unat mx < 2 ^ 32" using unsigned_less[of "b_nlbs bio"] unsigned_less[of mx] by simp_all
  have "unat (ucast (b_nlbs bio) + ucast mx - 1 :: u64) = nlbs_nat bio + unat mx - 1"
    using mx small by (simp add: unat_sub word_le_nat_alt unat_word_ariths u)
  then have n: "unat (num_ranges mx (b_nlbs bio)) = (nlbs_nat bio + unat mx - 1) div unat mx"
    by (simp add: num_ranges_def unat_div u)
  have "0 < (ucast (b_nlbs bio) :: u64)" using mx(2) by (simp add: word_less_nat_alt u)
  then obtain rs where rs: "dealloc_ranges mx (b_slba bio) (ucast (b_nlbs bio)) = Some rs"
      "range_blocks rs = [slba_nat bio..<slba_nat bio + nlbs_nat bio]" "\<forall>(len, lba) \<in> set rs. len \<le> mx"
      "length rs = (nlbs_nat bio + unat mx - 1) div unat mx"
    using dealloc_ranges_cover[OF assms(1), of "ucast (b_nlbs bio)" "b_slba bio"] assms(3) small(1) u by auto
  have "num_ranges mx (b_nlbs bio) > 64 \<longleftrightarrow> length rs > 64" by (simp add: word_less_nat_alt n rs(4))
  moreover have "(ucast (num_ranges mx (b_nlbs bio)) :: u16) = of_nat (length rs)"
    by (metis n of_nat_unat rs(4))
  ultimately show ?thesis using rs by (simp add: spdkio_dealloc_def range_blocks_def)
qed

theorem spdkio_dealloc_exact_witness:
  "\<exists>rs. spdkio_dealloc 8 (bio_zero\<lparr>b_slba := 100, b_nlbs := 20\<rparr>) = Some (Inr (of_nat (length rs), rs)) \<and>
      concat (map (\<lambda>(len, lba). [unat lba..<unat lba + unat len]) rs) = [100..<120]"
  using spdkio_dealloc_exact[of 8 "bio_zero\<lparr>b_slba := 100, b_nlbs := 20\<rparr>"] by auto

section \<open>What the scatter-gather entries cover\<close>

text \<open>One entry: it starts at the offset, is not empty, and the offset moves to its end.\<close>

lemma next_sge_step:
  assumes "next_sge p base bio = ((addr, len), bio')" and "p < 32"
    and "unat (b_sgl_offset bio) < unat (b_iosize bio)" and "unat (b_iosize bio) < 2 ^ 32"
  shows "addr = base + ucast (b_sgl_offset bio) \<and> 0 < unat len \<and> unat len \<le> 4096 \<and>
    unat (b_sgl_offset bio) + unat len \<le> unat (b_iosize bio) \<and>
    unat (b_sgl_offset bio') = unat (b_sgl_offset bio) + unat len \<and> b_iosize bio' = b_iosize bio"
proof -
  let ?off = "b_sgl_offset bio" and ?io = "b_iosize bio"
  define raw where "raw = min SGL_ENTRY_SIZE (?io - ucast ?off)"
  define len0 :: u32 where "len0 = ucast raw"
  have u: "unat (ucast ?off :: u64) = unat ?off"
    by (simp add: unsigned_ucast_eq take_bit_nat_eq_self_iff order_less_le_trans[OF unsigned_less])
  have sub: "unat (?io - ucast ?off) = unat ?io - unat ?off" using assms(3) by (simp add: unat_sub word_le_nat_alt u)
  have raw: "unat raw = min 4096 (unat ?io - unat ?off)" by (simp add: raw_def min_def word_le_nat_alt sub)
  have l0: "unat len0 = min 4096 (unat ?io - unat ?off)"
    unfolding len0_def unsigned_ucast_eq raw by (simp add: take_bit_nat_eq_self min_def)
  define cut :: u32 where "cut = ucast (take_bit p (base + ucast ?off + ucast len0))"
  define c where "c \<longleftrightarrow> len0 \<ge> 2 ^ p \<and> take_bit p (base + ucast ?off) \<noteq> 0 \<and> take_bit p (base + ucast ?off + ucast len0) \<noteq> 0"
  have n: "addr = base + ucast ?off" "len = sge_len p (base + ucast ?off) len0" "bio' = bio\<lparr>b_sgl_offset := ?off + len\<rparr>"
    using assms(1) by (auto simp: next_sge_def Let_def len0_def raw_def)
  have d: "addr = base + ucast ?off" "len = (if c then len0 - cut else len0)" "bio' = bio\<lparr>b_sgl_offset := ?off + len\<rparr>"
    using n by (simp_all add: sge_len_def c_def cut_def)
  have "(2 :: nat) ^ p < 2 ^ 32" using assms(2) by (intro power_strict_increasing) simp_all
  then have p2: "unat (2 ^ p :: u32) = 2 ^ p" using unat_of_nat[where 'a = 32, of "2 ^ p"] by (simp add: take_bit_nat_eq_self)
  have cl: "unat cut < unat len0" if c
  proof -
    have "unat (take_bit p (base + ucast ?off + ucast len0)) < 2 ^ p" by (simp add: unsigned_take_bit_eq)
    then have "unat cut < 2 ^ p" unfolding cut_def unsigned_ucast_eq
      by (rule order_le_less_trans[OF take_bit_nat_less_eq_self])
    then show ?thesis using that p2 by (simp add: c_def word_le_nat_alt)
  qed
  have len: "0 < unat len \<and> unat len \<le> unat len0"
  proof (cases c)
    case True
    then show ?thesis using cl by (simp add: d(2) unat_sub word_le_nat_alt)
  next
    case False
    then show ?thesis using l0 assms(3) by (simp add: d(2))
  qed
  have le: "unat ?off + unat len \<le> unat ?io" "unat len \<le> 4096" using len l0 assms(3) by auto
  then have "unat (?off + len) = unat ?off + unat len" using assms(4) by (simp add: unat_word_ariths)
  then show ?thesis using d len le by simp
qed

text \<open>The entries of \<open>k\<close> calls and the request after them.\<close>

fun sge_calls :: "nat \<Rightarrow> u64 \<Rightarrow> nat \<Rightarrow> bio \<Rightarrow> (u64 \<times> u32) list \<times> bio" where
  "sge_calls p base 0 bio = ([], bio)"
| "sge_calls p base (Suc k) bio =
     (let (e, bio) = next_sge p base bio; (es, bio) = sge_calls p base k bio in (e # es, bio))"

lemma sge_calls_cover:
  assumes "p < 32" and "unat (b_sgl_offset bio) \<le> unat (b_iosize bio)" and "unat (b_iosize bio) < 2 ^ 32"
  shows "\<exists>k es bio'. k \<le> unat (b_iosize bio) - unat (b_sgl_offset bio) \<and> sge_calls p base k bio = (es, bio') \<and>
    concat (map (\<lambda>(addr, len). map (\<lambda>i. addr + of_nat i) [0..<unat len]) es) =
      map (\<lambda>i. base + of_nat i) [unat (b_sgl_offset bio)..<unat (b_iosize bio)] \<and>
    (\<forall>(addr, len) \<in> set es. 0 < unat len \<and> unat len \<le> 4096)"
  using assms(2,3)
proof (induction "unat (b_iosize bio) - unat (b_sgl_offset bio)" arbitrary: bio rule: less_induct)
  case less
  show ?case
  proof (cases "unat (b_sgl_offset bio) = unat (b_iosize bio)")
    case True
    then show ?thesis by (intro exI[of _ 0] exI[of _ "[]"] exI[of _ bio]) simp
  next
    case False
    obtain addr len bio1 where e: "next_sge p base bio = ((addr, len), bio1)" by (metis prod.collapse)
    have lt: "unat (b_sgl_offset bio) < unat (b_iosize bio)" using False less(2) by simp
    note st = next_sge_step[OF e assms(1) lt less(3)]
    have meas: "unat (b_iosize bio1) - unat (b_sgl_offset bio1) < unat (b_iosize bio) - unat (b_sgl_offset bio)"
      "unat (b_sgl_offset bio1) \<le> unat (b_iosize bio1)" "unat (b_iosize bio1) < 2 ^ 32"
      using st lt less(3) by auto
    obtain k es bio' where r: "k \<le> unat (b_iosize bio1) - unat (b_sgl_offset bio1)" "sge_calls p base k bio1 = (es, bio')"
        "concat (map (\<lambda>(addr, len). map (\<lambda>i. addr + of_nat i) [0..<unat len]) es) =
          map (\<lambda>i. base + of_nat i) [unat (b_sgl_offset bio1)..<unat (b_iosize bio1)]"
        "\<forall>(addr, len) \<in> set es. 0 < unat len \<and> unat len \<le> 4096"
      using less(1)[OF meas] by blast
    have "[unat (b_sgl_offset bio)..<unat (b_iosize bio)] = [unat (b_sgl_offset bio)..<unat (b_sgl_offset bio) + unat len] @
        [unat (b_sgl_offset bio1)..<unat (b_iosize bio1)]"
      using st upt_split[of "unat (b_sgl_offset bio)" "unat (b_sgl_offset bio) + unat len" "unat (b_iosize bio)"] by simp
    moreover have "map (\<lambda>i. base + of_nat i) [unat (b_sgl_offset bio)..<unat (b_sgl_offset bio) + unat len] =
        map (\<lambda>i. addr + of_nat i) [0..<unat len]"
      using st by (intro nth_equalityI) (simp_all add: add.assoc)
    ultimately have "concat (map (\<lambda>(addr, len). map (\<lambda>i. addr + of_nat i) [0..<unat len]) ((addr, len) # es)) =
        map (\<lambda>i. base + of_nat i) [unat (b_sgl_offset bio)..<unat (b_iosize bio)]"
      using r(3) by simp
    moreover have "sge_calls p base (Suc k) bio = ((addr, len) # es, bio')" by (simp add: e r(2))
    moreover have "Suc k \<le> unat (b_iosize bio) - unat (b_sgl_offset bio)" using r(1) st by auto
    ultimately show ?thesis using r(4) st by (intro exI[of _ "Suc k"] exI[of _ "(addr, len) # es"] exI[of _ bio']) auto
  qed
qed

text \<open>C14: the scatter-gather list of a request describes its data. After the list is reset, finitely many
  calls give entries of 1 to 4096 bytes that together are, byte by byte and in order, the data of the
  request, wherever its buffer starts and whatever the size of a page.
\<close>

theorem sgl_covers_data:
  assumes "p < 32" and "unat (b_iosize bio) < 2 ^ 32"
  shows "\<exists>k es bio'. k \<le> unat (b_iosize bio) \<and> sge_calls p base k (reset_sgl 0 bio) = (es, bio') \<and>
    concat (map (\<lambda>(addr, len). map (\<lambda>i. addr + of_nat i) [0..<unat len]) es) =
      map (\<lambda>i. base + of_nat i) [0..<unat (b_iosize bio)] \<and>
    (\<forall>(addr, len) \<in> set es. 0 < unat len \<and> unat len \<le> 4096)"
  using sge_calls_cover[OF assms(1), where bio = "reset_sgl 0 bio" and base = base] assms(2) by (simp add: reset_sgl_def)

theorem sgl_covers_data_witness:
  "\<exists>k es bio'. sge_calls 12 0x10004 k (reset_sgl 0 (bio_zero\<lparr>b_iosize := 9000\<rparr>)) = (es, bio') \<and>
    concat (map (\<lambda>(addr, len). map (\<lambda>i. addr + of_nat i) [0..<unat len]) es) =
      map (\<lambda>i. 0x10004 + of_nat i) [0..<9000]"
proof -
  have "unat (b_iosize (bio_zero\<lparr>b_iosize := 9000\<rparr>)) = 9000" by simp
  then show ?thesis using sgl_covers_data[where p = 12 and bio = "bio_zero\<lparr>b_iosize := 9000\<rparr>" and base = "0x10004"] by auto
qed

end
