(* ===== verification/SpdkioQueue.thy ===== *)
theory SpdkioQueue
  imports Spdkio
begin

text \<open>
  The callbacks of the SPDK engine (\<open>nbio/io/spdkio.c\<close>), its queue pair and its administrative
  commands. What SPDK and the controller do is the record \<open>ctrlr_ops\<close> over their state \<open>'s\<close>, which holds
  the buffers of the host as well; the callback of a command is called while the completions are processed.
\<close>

section \<open>Probe and attach\<close>

record probe_opts =
  po_use_cmb_sqs :: bool
  po_arb_wrr :: bool

definition probe_cb :: "instance_data \<Rightarrow> probe_opts \<Rightarrow> bool \<times> probe_opts" where
  "probe_cb d opts =
     (let opts = opts\<lparr>po_use_cmb_sqs := id_cmb_sqs d\<rparr> in
      (True, if id_wrru d then opts\<lparr>po_arb_wrr := True\<rparr> else opts))"

text \<open>
  A controller that was found: whether its entry can be allocated, its address parses and its
  device is known. Without memory the program ends; the address is cut at the size of its field.
\<close>

record attach_env =
  at_alloc :: bool
  at_addr_ok :: bool
  at_pci_dev :: bool
  at_traddr :: string
  at_active :: "u32 \<Rightarrow> bool"

definition NAME_LEN :: nat where "NAME_LEN = 512"

definition attach_cb ::
  "attach_env \<Rightarrow> (string \<times> (u32 \<Rightarrow> bool)) list \<Rightarrow> (string \<times> (u32 \<Rightarrow> bool)) list res" where
  "attach_cb env controllers =
     (if \<not> at_alloc env then Inl (Exit 1)
      else if \<not> at_addr_ok env then Inr controllers
      else if \<not> at_pci_dev env then Inr controllers
      else Inr ((take (NAME_LEN - 1) (at_traddr env), at_active env) # controllers))"

text \<open>A probe attaches the controllers one after the other.\<close>

fun attach_all ::
  "attach_env list \<Rightarrow> (string \<times> (u32 \<Rightarrow> bool)) list \<Rightarrow> (string \<times> (u32 \<Rightarrow> bool)) list res" where
  "attach_all [] cs = Inr cs"
| "attach_all (env # envs) cs = bnd (attach_cb env cs) (attach_all envs)"

section \<open>Completion\<close>

definition spdk_complete :: "bool \<Rightarrow> bio \<Rightarrow> (bio \<Rightarrow> 's \<Rightarrow> 's) \<Rightarrow> 's \<Rightarrow> 's" where
  "spdk_complete is_error bio end_fn s = end_fn (bio\<lparr>b_result := if is_error then - 1 else 0\<rparr>) s"

text \<open>The callback of an administrative command; an error is printed only.\<close>

definition completion_cb :: "bool \<Rightarrow> bool" where
  "completion_cb is_error = True"

record 's ctrlr_ops =
  co_set_feature :: "u8 \<Rightarrow> u32 \<Rightarrow> 's \<Rightarrow> 's"
  co_log_supported :: "u8 \<Rightarrow> bool"
  co_get_log :: "u8 \<Rightarrow> u32 \<Rightarrow> u32 \<Rightarrow> 's \<Rightarrow> 's"
  co_feature_supported :: "u8 \<Rightarrow> bool"
  co_get_feature :: "u8 \<Rightarrow> u32 \<Rightarrow> 's \<Rightarrow> 's"
  co_process_admin :: "'s \<Rightarrow> bool option \<times> 's"
  co_process_qpair :: "u32 \<Rightarrow> 's \<Rightarrow> 's"

text \<open>
  Waiting for an administrative command: completions are processed until the callback was called,
  \<open>Some is_error\<close>. \<open>None\<close> is waiting for ever.
\<close>

partial_function (option) wait_admin :: "'s ctrlr_ops \<Rightarrow> bool \<Rightarrow> 's \<Rightarrow> 's option" where
  "wait_admin ops done_flag s =
     (if done_flag then Some s
      else case co_process_admin ops s of
             (None, s) \<Rightarrow> wait_admin ops False s
           | (Some is_error, s) \<Rightarrow> wait_admin ops (completion_cb is_error) s)"

section \<open>The queue pair\<close>

datatype qprio = Qprio_urgent | Qprio_high | Qprio_medium | Qprio_low

record qpair_opts =
  qo_io_queue_size :: u32
  qo_io_queue_requests :: u32
  qo_qprio :: qprio

text \<open>The options, from the default ones, and whether a queue pair was allocated with them.\<close>

definition set_idata_qpair :: "qpair_opts \<Rightarrow> (qpair_opts \<Rightarrow> bool) \<Rightarrow> instance_data \<Rightarrow> bool \<times> qpair_opts" where
  "set_idata_qpair default_opts alloc d =
     (let opts = default_opts\<lparr>qo_io_queue_size := 1024, qo_io_queue_requests := 2048\<rparr>;
          opts = (if id_wrru d then
                    (if id_qprio d = 0 then opts\<lparr>qo_qprio := Qprio_urgent\<rparr>
                     else if id_qprio d = 1 then opts\<lparr>qo_qprio := Qprio_high\<rparr>
                     else if id_qprio d = 2 then opts\<lparr>qo_qprio := Qprio_medium\<rparr>
                     else if id_qprio d = 3 then opts\<lparr>qo_qprio := Qprio_low\<rparr>
                     else opts)
                  else opts) in
      (alloc opts, opts))"

definition spdkio_begin ::
  "'s ctrlr_ops \<Rightarrow> qpair_opts \<Rightarrow> (qpair_opts \<Rightarrow> bool) \<Rightarrow> instance_data \<Rightarrow> 's \<Rightarrow> (int \<times> 's) option" where
  "spdkio_begin ops default_opts alloc d s =
     (if \<not> fst (set_idata_qpair default_opts alloc d) then Some (- 1, s)
      else if id_wrru d
      then map_option (Pair 0) (wait_admin ops False (co_set_feature ops 1 0x40201001 s))
      else Some (0, s))"

definition spdkio_submit :: int where
  "spdkio_submit = 0"

text \<open>The completions of the administrative queue are not processed here.\<close>

definition spdkio_poll :: "'s ctrlr_ops \<Rightarrow> u32 \<Rightarrow> u32 \<Rightarrow> 's \<Rightarrow> int \<times> 's" where
  "spdkio_poll ops min_nr max_nr s = (0, co_process_qpair ops max_nr s)"

section \<open>Administrative commands\<close>

text \<open>The data of the namespace that SPDK keeps is copied; more than it has is out of range.\<close>

definition spdkio_identify :: "bytes \<Rightarrow> u32 \<Rightarrow> u32 \<Rightarrow> bytes \<Rightarrow> (int \<times> bytes) res" where
  "spdkio_identify nsdata cdw10 data_len data =
     bnd (mem_read nsdata 0 (unat data_len)) (\<lambda>b.
     bnd (mem_write data 0 b) (\<lambda>data. Inr (0, data)))"

definition spdkio_alloc :: "(u32 \<Rightarrow> u32 \<Rightarrow> u64) \<Rightarrow> u32 \<Rightarrow> u32 \<Rightarrow> int \<times> u64" where
  "spdkio_alloc dma_zmalloc sz align =
     (let addr = dma_zmalloc sz align in (if addr = 0 then - 1 else 0, addr))"

definition spdkio_get_log_page ::
  "'s ctrlr_ops \<Rightarrow> instance_data \<Rightarrow> u8 \<Rightarrow> u32 \<Rightarrow> 's \<Rightarrow> (int \<times> 's) option" where
  "spdkio_get_log_page ops d log_id data_len s =
     (if \<not> co_log_supported ops log_id then Some (- 1, s)
      else map_option (Pair 0) (wait_admin ops False (co_get_log ops log_id (id_nsid d) data_len s)))"

text \<open>\<open>result\<close> is what \<open>*result\<close> holds; nothing is stored there.\<close>

definition spdkio_get_features ::
  "'s ctrlr_ops \<Rightarrow> u32 \<Rightarrow> u32 \<Rightarrow> u32 \<Rightarrow> 's \<Rightarrow> (int \<times> u32 \<times> 's) option" where
  "spdkio_get_features ops cdw10 data_len result s =
     (let feature = ucast (cdw10 AND 0xFF) in
      if \<not> co_feature_supported ops feature then Some (- 1, result, s)
      else map_option (\<lambda>s. (0, result, s)) (wait_admin ops False (co_get_feature ops feature data_len s)))"

section \<open>Waiting\<close>

text \<open>The state after \<open>n\<close> rounds without an answer.\<close>

fun rounds :: "'s ctrlr_ops \<Rightarrow> nat \<Rightarrow> 's \<Rightarrow> 's" where
  "rounds ops 0 s = s"
| "rounds ops (Suc n) s = rounds ops n (snd (co_process_admin ops s))"

lemma wait_admin_done [simp]: "wait_admin ops True s = Some s"
  by (subst wait_admin.simps) simp

lemma wait_admin_round:
  "wait_admin ops False s =
     (if fst (co_process_admin ops s) = None then wait_admin ops False (snd (co_process_admin ops s))
      else Some (snd (co_process_admin ops s)))"
  by (subst wait_admin.simps) (auto simp: completion_cb_def split: prod.splits option.splits)

lemma wait_admin_answer:
  assumes "\<forall>k<n. fst (co_process_admin ops (rounds ops k s)) = None"
    and "fst (co_process_admin ops (rounds ops n s)) \<noteq> None"
  shows "wait_admin ops False s = Some (snd (co_process_admin ops (rounds ops n s)))"
  using assms
proof (induction n arbitrary: s)
  case 0
  then show ?case by (auto simp: wait_admin_round[of ops s])
next
  case (Suc n)
  have "fst (co_process_admin ops s) = None" using Suc.prems(1) by (metis rounds.simps(1) zero_less_Suc)
  moreover have "wait_admin ops False (snd (co_process_admin ops s))
      = Some (snd (co_process_admin ops (rounds ops n (snd (co_process_admin ops s)))))"
  proof (rule Suc.IH)
    show "\<forall>k<n. fst (co_process_admin ops (rounds ops k (snd (co_process_admin ops s)))) = None"
      using Suc.prems(1) by (metis Suc_less_eq rounds.simps(2))
  qed (use Suc.prems(2) in simp)
  ultimately show ?case by (simp add: wait_admin_round[of ops s])
qed

lemma wait_admin_never:
  assumes "\<forall>k. fst (co_process_admin ops (rounds ops k s)) = None"
  shows "wait_admin ops False s = None"
proof -
  have "f \<or> (\<exists>k. fst (co_process_admin o' (rounds o' k s)) \<noteq> None)" if "wait_admin o' f s = Some y" for o' f s and y :: 's
  proof (rule wait_admin.raw_induct[OF _ that, where P = "\<lambda>o' f s y. f \<or> (\<exists>k. fst (co_process_admin o' (rounds o' k s)) \<noteq> None)"])
    fix w :: "'s ctrlr_ops \<Rightarrow> bool \<Rightarrow> 's \<Rightarrow> 's option" and o' f s y
    assume IH: "\<And>o' f s y. w o' f s = Some y \<Longrightarrow> f \<or> (\<exists>k. fst (co_process_admin o' (rounds o' k s)) \<noteq> None)"
      and step: "(if f then Some s else case co_process_admin o' s of (None, s) \<Rightarrow> w o' False s
        | (Some is_error, s) \<Rightarrow> w o' (completion_cb is_error) s) = Some y"
    show "f \<or> (\<exists>k. fst (co_process_admin o' (rounds o' k s)) \<noteq> None)"
    proof (cases "f \<or> fst (co_process_admin o' s) \<noteq> None")
      case True
      then show ?thesis by (metis rounds.simps(1))
    next
      case False
      then have "w o' False (snd (co_process_admin o' s)) = Some y"
        using step by (auto split: prod.splits)
      then show ?thesis using IH by (metis rounds.simps(2))
    qed
  qed
  from this[of ops False s] show ?thesis using assms by (cases "wait_admin ops False s") force+
qed

text \<open>The engine waits exactly as long as the controller does not answer.\<close>

lemma get_log_page_returns_iff:
  assumes "co_log_supported ops log_id"
  shows "spdkio_get_log_page ops d log_id data_len s \<noteq> None
    \<longleftrightarrow> (\<exists>n. fst (co_process_admin ops (rounds ops n (co_get_log ops log_id (id_nsid d) data_len s))) \<noteq> None)"
proof -
  let ?s = "co_get_log ops log_id (id_nsid d) data_len s"
  have "wait_admin ops False ?s \<noteq> None \<longleftrightarrow> (\<exists>n. fst (co_process_admin ops (rounds ops n ?s)) \<noteq> None)"
  proof (cases "\<exists>n. fst (co_process_admin ops (rounds ops n ?s)) \<noteq> None")
    case True
    then obtain n where n: "fst (co_process_admin ops (rounds ops n ?s)) \<noteq> None"
      "\<forall>k<n. fst (co_process_admin ops (rounds ops k ?s)) = None"
      using exists_least_iff[of "\<lambda>n. fst (co_process_admin ops (rounds ops n ?s)) \<noteq> None"] by blast
    then show ?thesis using wait_admin_answer[OF n(2,1)] by auto
  next
    case False
    then show ?thesis using wait_admin_never[of ops ?s] by simp
  qed
  then show ?thesis using assms by (auto simp: spdkio_get_log_page_def)
qed

lemma get_features_stores_nothing:
  "spdkio_get_features ops cdw10 data_len result s = Some (r, result', s') \<Longrightarrow> result' = result"
  by (auto simp: spdkio_get_features_def Let_def split: if_splits)

text \<open>A namespace of an attached controller is found under its address.\<close>

lemma attached_found:
  assumes "attach_cb env cs = Inr cs'" and "at_addr_ok env" and "at_pci_dev env"
    and "length (at_traddr env) < NAME_LEN" and "at_active env nsid"
  shows "set_idata cs' (at_traddr env) nsid d = Some (0, d\<lparr>id_nsid := nsid\<rparr>)"
  using assms by (auto simp: attach_cb_def split: if_splits)

end
