(* ===== verification/IogenCtl.thy ===== *)
theory IogenCtl
  imports IogenRun
begin

text \<open>
  Control of a run (\<open>nbio/iogen.c\<close>): \<open>iogen_init\<close> and \<open>iogen_exit\<close>, start, stop and abort, the estimated
  time, the beginning of a job thread, and the protocol by which concurrent job threads report
  their end in the shared masks.
\<close>

section \<open>Initialisation and exit\<close>

definition destroy_bio_pool :: "iogen_job \<Rightarrow> iogen_job" where
  "destroy_bio_pool job = job\<lparr>j_bio_pool := []\<rparr>"

text \<open>
  A job and whether its engine is set (\<open>engine.ops\<close>): it is not when the engine is unknown or its
  \<open>init\<close> fails. \<open>envs\<close>, \<open>params\<close> and \<open>nss\<close> are the surroundings, parameters and namespaces of the jobs.
\<close>

fun init_jobs ::
  "u32 \<Rightarrow> nat \<Rightarrow> (job_init_env \<times> job_params \<times> namespace_info) list \<Rightarrow> (int \<times> (iogen_job \<times> bool) list) res" where
  "init_jobs iosz_max job_idx [] = Inr (0, [])"
| "init_jobs iosz_max job_idx ((env, params, ns) # rest) =
     bnd (iogen_job_init env iosz_max iogen_job_zero (of_nat job_idx + 1) params ns) (\<lambda>(res, job).
     let ops = je_engine_found env \<and> je_engine_init env = 0 in
     if res \<noteq> 0 then Inr (res, (job, ops) # map (\<lambda>x. (iogen_job_zero, False)) rest)
     else bnd (init_jobs iosz_max (Suc job_idx) rest) (\<lambda>(res, jobs). Inr (res, (job, ops) # jobs)))"

text \<open>
  The result, the state and the jobs; after an error also for which jobs the engine's \<open>exit\<close> was
  called. \<open>alloc\<close> tells whether the job array could be allocated.
\<close>

definition iogen_init ::
  "bool \<Rightarrow> u32 \<Rightarrow> (job_init_env \<times> job_params \<times> namespace_info) list \<Rightarrow> iogen \<Rightarrow>
   (int \<times> iogen \<times> iogen_job list \<times> bool list) res" where
  "iogen_init alloc iosz_max cfg iogen =
     (let iogen = iogen\<lparr>ig_running_job_mask := 0, ig_finished_job_mask := 0, ig_njobs := of_nat (length cfg)\<rparr> in
      if \<not> alloc then Inr (- 1, iogen, [], [])
      else bnd (init_jobs iosz_max 0 cfg) (\<lambda>(res, jobs).
        if res \<noteq> 0 then Inr (res, iogen, [], map snd jobs)
        else Inr (0, iogen\<lparr>ig_result := 0, ig_state := iogen_state_init\<rparr>, map fst jobs, [])))"

section \<open>Start, stop, abort\<close>

text \<open>Which threads could be created: the loop ends at the first failure.\<close>

fun create_threads :: "int list \<Rightarrow> int \<times> nat" where
  "create_threads [] = (0, 0)"
| "create_threads (r # rs) = (if r \<noteq> 0 then (r, 0) else (let (res, n) = create_threads rs in (res, Suc n)))"

definition iogen_start :: "timespec \<Rightarrow> int list \<Rightarrow> iogen \<Rightarrow> int \<times> nat \<times> iogen" where
  "iogen_start now results iogen =
     (let (res, n) = create_threads results in
      (res, n, iogen\<lparr>ig_state := iogen_state_running, ig_begin_ts := now\<rparr>))"

text \<open>
  \<open>iogen_stop\<close> around the threads it joins: \<open>joined\<close> is what the other threads do to the shared
  state between the two assignments. \<open>iogen_abort\<close> waits for at most a second per thread instead, and
  skips the exit of the engine.
\<close>

definition iogen_stop :: "(iogen \<Rightarrow> iogen) \<Rightarrow> iogen \<Rightarrow> iogen" where
  "iogen_stop joined iogen = (joined (iogen\<lparr>ig_state := iogen_state_aborting\<rparr>))\<lparr>ig_state := iogen_state_aborted\<rparr>"

definition iogen_abort :: "(iogen \<Rightarrow> iogen) \<Rightarrow> global_params \<Rightarrow> iogen \<Rightarrow> iogen \<times> global_params" where
  "iogen_abort joined params iogen =
     ((joined (iogen\<lparr>ig_state := iogen_state_aborting\<rparr>))\<lparr>ig_state := iogen_state_aborted\<rparr>,
      params\<lparr>gp_skip_ioengine_exit := 1\<rparr>)"

definition iogen_cancel :: "iogen \<Rightarrow> iogen" where
  "iogen_cancel iogen = iogen\<lparr>ig_state := iogen_state_aborting\<rparr>"

definition iogen_running :: "iogen \<Rightarrow> bool" where
  "iogen_running iogen \<longleftrightarrow> ig_state iogen = iogen_state_running \<or> ig_state iogen = iogen_state_aborting"

section \<open>Estimated time\<close>

definition U32_MAX :: u32 where
  "U32_MAX = 0xFFFFFFFF"

text \<open>\<open>elapsed_seconds\<close> is 32-bit; the differences are 64-bit and wrap around when the amount is exceeded.\<close>

definition iogen_job_eta :: "timespec \<Rightarrow> iogen_job \<Rightarrow> u32" where
  "iogen_job_eta now job =
     (if j_state job = iogen_job_state_running then
        let elapsed_seconds = ucast (timespec_sub now (j_begin_ts job) div NSEC_PER_SEC) :: u32;
            amount = jp_amount (j_params job); s = ia_sum (j_acct job);
            remaining = (\<lambda>made. if elapsed_seconds > 0 then
                let rate = made div ucast elapsed_seconds in
                if rate > 0 then ucast ((amount - made) div rate) else U32_MAX
              else U32_MAX) in
        (case jp_amount_type (j_params job) of
           amount_type_time \<Rightarrow> if ucast elapsed_seconds > amount then U32_MAX else ucast (amount - ucast elapsed_seconds)
         | amount_type_io \<Rightarrow> remaining (oa_ops s)
         | amount_type_byte \<Rightarrow> remaining (oa_bytes s)
         | amount_type_infinite \<Rightarrow> U32_MAX)
      else U32_MAX)"

definition eta_step :: "timespec \<Rightarrow> iogen_job \<Rightarrow> u32 \<Rightarrow> u32" where
  "eta_step now job max_eta =
     (if j_state job = iogen_job_state_running then
        let eta = iogen_job_eta now job in if max_eta = U32_MAX \<or> eta > max_eta then eta else max_eta
      else max_eta)"

definition iogen_eta :: "timespec \<Rightarrow> iogen_job list \<Rightarrow> u32" where
  "iogen_eta now jobs = fold (eta_step now) jobs U32_MAX"

section \<open>The beginning of a job thread\<close>

text \<open>Waiting for another job, and the time of the first reset, before \<open>iogen_job_begin\<close>.\<close>

definition runner_start :: "int \<Rightarrow> iogen_job \<Rightarrow> iogen_job res" where
  "runner_start time job =
     (let job = (if of_nat (jp_dependency_job_idx (j_params job)) \<noteq> j_id job - 1 then iogen_job_wait job else job) in
      if jp_reset_min (j_params job) \<noteq> 0 \<or> jp_reset_max (j_params job) \<noteq> 0 then
        if j_reset_dist job + 1 = 0 then Inl Fault else
        let (rand, r) = rand48 (j_rng job) in
        Inr (job\<lparr>j_rng := r, j_reset_next := of_int time + jp_reset_min (j_params job) +
               ucast (rand mod ucast (j_reset_dist job + 1))\<rparr>)
      else Inr job)"

text \<open>The timer of a job that runs for a time: when it expires the flag is set.\<close>

definition iogen_job_timer :: "iogen_job \<Rightarrow> iogen_job" where
  "iogen_job_timer job = job\<lparr>j_timeout := True\<rparr>"

definition iogen_job_setup_timer :: "timespec \<Rightarrow> iogen_job \<Rightarrow> timespec" where
  "iogen_job_setup_timer now job = now\<lparr>tv_sec := tv_sec now + uint (jp_amount (j_params job))\<rparr>"

section \<open>The end of concurrent jobs\<close>

text \<open>
  \<open>iogen_job_end\<close> changes the shared state in atomic steps, between which other threads run: its bit is
  set in \<open>finished_job_mask\<close>, cleared in \<open>running_job_mask\<close>, the finished mask is counted, and the thread
  that counts all jobs marks the run as done.
\<close>

datatype end_pc = At_or | At_and | At_count | At_done | Ended

record end_sys =
  es_iogen :: iogen
  es_pcs :: "nat \<Rightarrow> end_pc"

abbreviation bit_of :: "nat \<Rightarrow> u64" where
  "bit_of i \<equiv> push_bit i 1"

inductive end_step :: "nat \<Rightarrow> iogen \<Rightarrow> end_pc \<Rightarrow> iogen \<Rightarrow> end_pc \<Rightarrow> bool" for i where
  mark: "end_step i ig At_or (ig\<lparr>ig_finished_job_mask := ig_finished_job_mask ig OR bit_of i\<rparr>) At_and"
| clear: "end_step i ig At_and (ig\<lparr>ig_running_job_mask := ig_running_job_mask ig AND NOT (bit_of i)\<rparr>) At_count"
| count_all: "popcount (ig_finished_job_mask ig) = unat (ig_njobs ig) \<Longrightarrow> end_step i ig At_count ig At_done"
| count_some: "popcount (ig_finished_job_mask ig) \<noteq> unat (ig_njobs ig) \<Longrightarrow> end_step i ig At_count ig Ended"
| finish: "end_step i ig At_done (ig\<lparr>ig_end_ts := now, ig_state := iogen_state_done\<rparr>) Ended"

inductive_cases end_stepE: "end_step i ig pc ig' pc'"

inductive end_reachable :: "iogen \<Rightarrow> end_sys \<Rightarrow> bool" for ig0 where
  start: "end_reachable ig0 \<lparr>es_iogen = ig0, es_pcs = (\<lambda>_. At_or)\<rparr>"
| step: "end_reachable ig0 s \<Longrightarrow> i < unat (ig_njobs ig0) \<Longrightarrow> end_step i (es_iogen s) (es_pcs s i) ig pc \<Longrightarrow>
    end_reachable ig0 \<lparr>es_iogen = ig, es_pcs = (es_pcs s)(i := pc)\<rparr>"

lemma popcount_card: "popcount w = card {i. i < 64 \<and> bit w i}"
  unfolding popcount_def length_filter_conv_card by (rule arg_cong[where f = card]) auto

text \<open>The jobs whose bit is set, and what holds between any two steps of any threads.\<close>

definition marked :: "nat \<Rightarrow> end_sys \<Rightarrow> nat set" where
  "marked n s = {i. i < n \<and> es_pcs s i \<noteq> At_or}"

definition end_inv :: "iogen \<Rightarrow> end_sys \<Rightarrow> bool" where
  "end_inv ig0 s \<longleftrightarrow> (let n = unat (ig_njobs ig0) in
     ig_njobs (es_iogen s) = ig_njobs ig0 \<and> (\<forall>i. i < 64 \<longrightarrow> (bit (ig_finished_job_mask (es_iogen s)) i \<longleftrightarrow> i \<in> marked n s)) \<and>
     (\<forall>i < n. bit (ig_running_job_mask (es_iogen s)) i \<longrightarrow> es_pcs s i \<in> {At_or, At_and}) \<and>
     (\<forall>i < n. es_pcs s i = At_done \<longrightarrow> marked n s = {..<n}) \<and>
     (ig_state (es_iogen s) = iogen_state_done \<longrightarrow> marked n s = {..<n}) \<and>
     (marked n s = {..<n} \<longrightarrow> ig_state (es_iogen s) = iogen_state_done \<or>
       (\<exists>i < n. es_pcs s i \<in> {At_and, At_count, At_done})))"

lemma count_marked:
  assumes "n \<le> 64" and "\<And>i. i < 64 \<Longrightarrow> bit w i \<longleftrightarrow> i \<in> marked n s"
  shows "popcount w = n \<longleftrightarrow> marked n s = {..<n}"
proof -
  have "{i. i < 64 \<and> bit w i} = marked n s" using assms by (auto simp: marked_def)
  moreover have "marked n s \<subseteq> {..<n}" by (auto simp: marked_def)
  ultimately show ?thesis using card_subset_eq[of "{..<n}" "marked n s"]
    by (metis card_lessThan finite_lessThan popcount_card)
qed

lemma end_inv_step:
  assumes "end_inv ig0 s" and "i < unat (ig_njobs ig0)" and "unat (ig_njobs ig0) \<le> 64"
    and "end_step i (es_iogen s) (es_pcs s i) ig pc"
  shows "end_inv ig0 \<lparr>es_iogen = ig, es_pcs = (es_pcs s)(i := pc)\<rparr>"
proof -
  let ?n = "unat (ig_njobs ig0)"
  let ?t = "\<lparr>es_iogen = ig, es_pcs = (es_pcs s)(i := pc)\<rparr>"
  have inv: "ig_njobs (es_iogen s) = ig_njobs ig0" "\<And>j. j < 64 \<Longrightarrow> bit (ig_finished_job_mask (es_iogen s)) j \<longleftrightarrow> j \<in> marked ?n s"
    using assms(1) by (auto simp: end_inv_def Let_def)
  note count = count_marked[OF assms(3) inv(2)]
  have m: "marked ?n ?t = (if es_pcs s i = At_or then insert i (marked ?n s) else marked ?n s)"
    using assms(2,4) by (auto simp: marked_def elim: end_stepE)
  from assms(4) show ?thesis
  proof cases
    case mark
    then show ?thesis using assms(1-3) m by (auto simp: end_inv_def Let_def bit_simps marked_def)
  next
    case clear
    then show ?thesis using assms(1-3) m by (auto simp: end_inv_def Let_def bit_simps)
  next
    case count_all
    then show ?thesis using assms(1,2) m count inv(1) by (auto simp: end_inv_def Let_def)
  next
    case count_some
    then show ?thesis using assms(1,2) m count inv(1) by (auto simp: end_inv_def Let_def)
  next
    case finish
    then show ?thesis using assms(1,2) m by (auto simp: end_inv_def Let_def)
  qed
qed

lemma end_reachable_inv:
  assumes "end_reachable ig0 s" and "0 < unat (ig_njobs ig0)" "unat (ig_njobs ig0) \<le> 64"
    and "ig_finished_job_mask ig0 = 0" and "ig_state ig0 \<noteq> iogen_state_done"
  shows "end_inv ig0 s"
  using assms(1)
proof induction
  case start
  have "marked (unat (ig_njobs ig0)) \<lparr>es_iogen = ig0, es_pcs = (\<lambda>_. At_or)\<rparr> = {}" by (simp add: marked_def)
  then show ?case using assms(2,4,5) by (auto simp: end_inv_def)
next
  case (step s i ig pc)
  then show ?case using assms(3) by (intro end_inv_step)
qed

text \<open>C8: jobs that end at the same time never lose the end of the run. Whatever the order in which the
  threads of at most 64 jobs take the steps of \<open>iogen_job_end\<close>, the run is marked as done only when every
  job has set its bit in the finished mask; and once all of them have returned, the run is marked as done,
  every finished bit is set and every running bit is cleared.
\<close>

theorem jobs_end_done:
  assumes "0 < unat (ig_njobs ig0)" and "unat (ig_njobs ig0) \<le> 64"
    and "ig_finished_job_mask ig0 = 0" and "ig_state ig0 \<noteq> iogen_state_done"
    and "end_reachable ig0 s"
  shows "(ig_state (es_iogen s) = iogen_state_done \<longrightarrow>
            (\<forall>i < unat (ig_njobs ig0). bit (ig_finished_job_mask (es_iogen s)) i)) \<and>
         ((\<forall>i < unat (ig_njobs ig0). es_pcs s i = Ended) \<longrightarrow>
            ig_state (es_iogen s) = iogen_state_done \<and>
            (\<forall>i < unat (ig_njobs ig0). bit (ig_finished_job_mask (es_iogen s)) i \<and>
                                       \<not> bit (ig_running_job_mask (es_iogen s)) i))"
proof -
  let ?n = "unat (ig_njobs ig0)"
  note inv = end_reachable_inv[OF assms(5,1,2,3,4), unfolded end_inv_def Let_def]
  have bits: "bit (ig_finished_job_mask (es_iogen s)) i" if "marked ?n s = {..<?n}" "i < ?n" for i
    using inv that assms(2) by auto
  have all: "marked ?n s = {..<?n}" if "\<forall>i < ?n. es_pcs s i = Ended"
    using that by (auto simp: marked_def)
  show ?thesis
  proof (intro conjI impI)
    assume "ig_state (es_iogen s) = iogen_state_done"
    then show "\<forall>i < ?n. bit (ig_finished_job_mask (es_iogen s)) i" using inv bits by blast
  next
    assume e: "\<forall>i < ?n. es_pcs s i = Ended"
    then show "ig_state (es_iogen s) = iogen_state_done" using inv all[OF e] by fastforce
    show "\<forall>i < ?n. bit (ig_finished_job_mask (es_iogen s)) i \<and> \<not> bit (ig_running_job_mask (es_iogen s)) i"
      using inv e bits[OF all[OF e]] by fastforce
  qed
qed

text \<open>A thread that has not returned can always take its next step, and a schedule of threads runs to a reachable state.\<close>

fun end_next :: "timespec \<Rightarrow> nat \<Rightarrow> iogen \<Rightarrow> end_pc \<Rightarrow> iogen \<times> end_pc" where
  "end_next now i ig At_or = (ig\<lparr>ig_finished_job_mask := ig_finished_job_mask ig OR bit_of i\<rparr>, At_and)"
| "end_next now i ig At_and = (ig\<lparr>ig_running_job_mask := ig_running_job_mask ig AND NOT (bit_of i)\<rparr>, At_count)"
| "end_next now i ig At_count =
     (ig, if popcount (ig_finished_job_mask ig) = unat (ig_njobs ig) then At_done else Ended)"
| "end_next now i ig At_done = (ig\<lparr>ig_end_ts := now, ig_state := iogen_state_done\<rparr>, Ended)"
| "end_next now i ig Ended = (ig, Ended)"

lemma end_next_step:
  "pc \<noteq> Ended \<Longrightarrow> end_step i ig pc (fst (end_next now i ig pc)) (snd (end_next now i ig pc))"
  by (cases pc) (auto intro: end_step.intros simp del: push_bit_of_1)

fun end_runs :: "timespec \<Rightarrow> nat list \<Rightarrow> end_sys \<Rightarrow> end_sys" where
  "end_runs now [] s = s"
| "end_runs now (i # is) s =
     end_runs now is (if es_pcs s i = Ended then s
       else let (ig, pc) = end_next now i (es_iogen s) (es_pcs s i) in \<lparr>es_iogen = ig, es_pcs = (es_pcs s)(i := pc)\<rparr>)"

lemma end_runs_reachable:
  assumes "end_reachable ig0 s" and "\<forall>i \<in> set is. i < unat (ig_njobs ig0)"
  shows "end_reachable ig0 (end_runs now is s)"
  using assms
proof (induction "is" arbitrary: s)
  case (Cons i "is")
  then show ?case
    using end_reachable.step[OF Cons.prems(1) _ end_next_step[of "es_pcs s i" i "es_iogen s" now]]
    by (auto split: prod.split)
qed simp

text \<open>Two jobs whose threads take turns: both count two finished jobs.\<close>

definition two_jobs :: iogen where
  "two_jobs = \<lparr>ig_state = iogen_state_running, ig_result = 0, ig_begin_ts = \<lparr>tv_sec = 0, tv_nsec = 0\<rparr>,
     ig_end_ts = \<lparr>tv_sec = 0, tv_nsec = 0\<rparr>, ig_njobs = 2, ig_running_job_mask = 3, ig_finished_job_mask = 0,
     ig_spor_level = 0\<rparr>"

definition two_ended :: end_sys where
  "two_ended = end_runs \<lparr>tv_sec = 9, tv_nsec = 0\<rparr> [0, 1, 1, 0, 1, 0, 0, 1] \<lparr>es_iogen = two_jobs, es_pcs = (\<lambda>_. At_or)\<rparr>"

lemma two_ended_reachable: "end_reachable two_jobs two_ended"
  unfolding two_ended_def
  by (rule end_runs_reachable[OF end_reachable.start]) (simp add: two_jobs_def)

lemma two_ended_pcs: "i < 2 \<Longrightarrow> es_pcs two_ended i = Ended"
proof -
  have "es_pcs two_ended 0 = Ended" "es_pcs two_ended 1 = Ended" by code_simp+
  then show "i < 2 \<Longrightarrow> es_pcs two_ended i = Ended" by (auto simp: less_2_cases_iff)
qed

theorem jobs_end_done_witness:
  "end_reachable two_jobs two_ended \<and> ig_state (es_iogen two_ended) = iogen_state_done \<and>
   bit (ig_finished_job_mask (es_iogen two_ended)) 0 \<and> \<not> bit (ig_running_job_mask (es_iogen two_ended)) 1"
  using jobs_end_done[of two_jobs two_ended] two_ended_reachable two_ended_pcs by (simp add: two_jobs_def)

end
