(* ===== verification/Report.thy ===== *)
theory Report
  imports IogenCtl
begin

text \<open>
  The accounts of a run (\<open>nbio/main.c\<close>): what \<open>update_acct\<close> reports every second, the latency summary and
  the loop of \<open>run\<close> that watches the job threads. The threads change their accounts at any time; what
  the main thread copies at each tick is an argument.
\<close>

section \<open>Summaries and differences\<close>

definition ioacct_zero :: ioacct where
  "ioacct_zero = \<lparr>ia_ops = replicate bio_max opacct_zero, ia_sum = opacct_zero\<rparr>"

definition add_opacct :: "opacct \<Rightarrow> opacct \<Rightarrow> opacct" where
  "add_opacct s a =
     s\<lparr>oa_ops := oa_ops s + oa_ops a, oa_bytes := oa_bytes s + oa_bytes a,
       oa_latency := (oa_latency s)\<lparr>la_sum := la_sum (oa_latency s) + la_sum (oa_latency a)\<rparr>\<rparr>"

definition add_acct :: "ioacct \<Rightarrow> ioacct \<Rightarrow> ioacct" where
  "add_acct a s = s\<lparr>ia_ops := map2 add_opacct (ia_ops s) (ia_ops a)\<rparr>"

definition summarize_accts :: "ioacct list \<Rightarrow> ioacct" where
  "summarize_accts accts = fold add_acct accts ioacct_zero"

definition substract_opacct :: "opacct \<Rightarrow> opacct \<Rightarrow> opacct \<Rightarrow> opacct" where
  "substract_opacct a1 a2 r =
     r\<lparr>oa_ops := oa_ops a1 - oa_ops a2, oa_bytes := oa_bytes a1 - oa_bytes a2,
       oa_latency := (oa_latency r)\<lparr>la_sum := la_sum (oa_latency a1) - la_sum (oa_latency a2)\<rparr>\<rparr>"

definition substract_acct :: "ioacct \<Rightarrow> ioacct \<Rightarrow> ioacct \<Rightarrow> ioacct" where
  "substract_acct acct1 acct2 res_acct =
     res_acct\<lparr>ia_ops := map2 (\<lambda>(a1, a2) r. substract_opacct a1 a2 r) (zip (ia_ops acct1) (ia_ops acct2)) (ia_ops res_acct)\<rparr>"

text \<open>The three global arrays; index 0 is the summary, the others are the jobs.\<close>

record accts =
  prev_accts :: "ioacct list"
  cur_accts :: "ioacct list"
  sub_accts :: "ioacct list"

text \<open>The arrays are allocated one after the other and all released when one fails.\<close>

definition alloc_accts :: "bool list \<Rightarrow> nat \<Rightarrow> int \<times> accts option" where
  "alloc_accts allocated njobs =
     (if False \<in> set (take 3 allocated) then (- 1, None)
      else let a = replicate (njobs + 1) ioacct_zero in (0, Some \<lparr>prev_accts = a, cur_accts = a, sub_accts = a\<rparr>))"

definition update_acct :: "ioacct list \<Rightarrow> accts \<Rightarrow> accts" where
  "update_acct jobs st =
     (let cur = summarize_accts jobs # jobs in
      \<lparr>prev_accts = cur, cur_accts = cur,
       sub_accts = map2 (\<lambda>(c, p) s. substract_acct c p s) (zip cur (prev_accts st)) (sub_accts st)\<rparr>)"

section \<open>The latency summary\<close>

definition U64_MAX :: u64 where
  "U64_MAX = 0xFFFFFFFFFFFFFFFF"

definition clear_latency :: "opacct \<Rightarrow> opacct" where
  "clear_latency a = a\<lparr>oa_latency := (oa_latency a)
     \<lparr>la_buckets := replicate LATENCY_ACCT_NUM_BUCKETS \<lparr>lb_count = 0, lb_sum = 0\<rparr>, la_min := U64_MAX, la_max := 0\<rparr>\<rparr>"

definition merge_latency :: "opacct \<Rightarrow> opacct \<Rightarrow> opacct" where
  "merge_latency s a =
     (let l = oa_latency s; j = oa_latency a;
          l = (if la_min l > la_min j then l\<lparr>la_min := la_min j\<rparr> else l);
          l = (if la_max l < la_max j then l\<lparr>la_max := la_max j\<rparr> else l) in
      s\<lparr>oa_latency := l\<lparr>la_buckets :=
        map2 (\<lambda>b c. b\<lparr>lb_count := lb_count b + lb_count c, lb_sum := lb_sum b + lb_sum c\<rparr>) (la_buckets l) (la_buckets j)\<rparr>\<rparr>)"

definition merge_job_latency :: "ioacct \<Rightarrow> ioacct \<Rightarrow> ioacct" where
  "merge_job_latency a s = s\<lparr>ia_ops := map2 merge_latency (ia_ops s) (ia_ops a)\<rparr>"

definition summarize_lat_accts :: "ioacct list \<Rightarrow> accts \<Rightarrow> accts res" where
  "summarize_lat_accts jobs st =
     bnd (arr_get (cur_accts st) 0) (\<lambda>s.
     Inr (st\<lparr>cur_accts := (cur_accts st)[0 := fold merge_job_latency jobs (s\<lparr>ia_ops := map clear_latency (ia_ops s)\<rparr>)]\<rparr>))"

section \<open>The loop of the main thread\<close>

text \<open>
  Each tick is the copy of the accounts and whether the run goes on after it; \<open>None\<close> means that the
  loop has not ended with these ticks. The differences of every tick are shown and logged.
\<close>

fun run_loop :: "(ioacct list \<times> bool) list \<Rightarrow> accts \<Rightarrow> (ioacct list list \<times> accts) option" where
  "run_loop [] st = None"
| "run_loop ((jobs, running) # ticks) st =
     (let st = update_acct jobs st in
      if running then map_option (\<lambda>(reports, st'). (sub_accts st # reports, st')) (run_loop ticks st)
      else Some ([sub_accts st], st))"

text \<open>
  The whole of \<open>run\<close> after \<open>iogen_start\<close>: the result, the logged and the shown differences, and the
  accounts of the final report. The last update is shown but not logged.
\<close>

definition run ::
  "int \<Rightarrow> (ioacct list \<times> bool) list \<Rightarrow> ioacct list \<Rightarrow> int \<Rightarrow> bool \<Rightarrow> accts \<Rightarrow>
   (int \<times> ioacct list list \<times> ioacct list list \<times> accts) res option" where
  "run start_res ticks final iogen_result quiet st =
     (if start_res \<noteq> 0 then Some (Inr (start_res, [], [], st))
      else case run_loop ticks st of None \<Rightarrow> None
      | Some (logged, st) \<Rightarrow>
          let st = update_acct final st; shown = logged @ [sub_accts st] in
          Some (bnd (if quiet then Inr st else summarize_lat_accts final st) (\<lambda>st.
            Inr (iogen_result, logged, if quiet then [] else shown, st))))"

section \<open>What the reports add up to\<close>

text \<open>The three figures that are reported for an operation.\<close>

datatype figure = Ops | Bytes | Latency

fun figure_of :: "figure \<Rightarrow> opacct \<Rightarrow> u64" where
  "figure_of Ops a = oa_ops a"
| "figure_of Bytes a = oa_bytes a"
| "figure_of Latency a = la_sum (oa_latency a)"

abbreviation value_at :: "figure \<Rightarrow> nat \<Rightarrow> ioacct \<Rightarrow> u64" where
  "value_at f k a \<equiv> figure_of f (ia_ops a ! k)"

definition acct_ok :: "ioacct \<Rightarrow> bool" where
  "acct_ok a \<longleftrightarrow> length (ia_ops a) = bio_max"

lemma acct_ok_zero [simp]: "acct_ok ioacct_zero"
  by (simp add: acct_ok_def ioacct_zero_def)

lemma acct_ok_add: "acct_ok a \<Longrightarrow> acct_ok s \<Longrightarrow> acct_ok (add_acct a s)"
  by (simp add: acct_ok_def add_acct_def)

lemma value_add:
  "acct_ok a \<Longrightarrow> acct_ok s \<Longrightarrow> k < bio_max \<Longrightarrow> value_at f k (add_acct a s) = value_at f k s + value_at f k a"
  by (cases f) (simp_all add: add_acct_def acct_ok_def add_opacct_def)

lemma value_zero: "k < bio_max \<Longrightarrow> value_at f k ioacct_zero = 0"
  by (cases f) (simp_all add: ioacct_zero_def opacct_zero_def)

lemma summarize_from_ok: "\<forall>a \<in> set accts. acct_ok a \<Longrightarrow> acct_ok s \<Longrightarrow> acct_ok (fold add_acct accts s)"
  by (induction accts arbitrary: s) (simp_all add: acct_ok_add)

lemma summarize_from:
  "\<forall>a \<in> set accts. acct_ok a \<Longrightarrow> acct_ok s \<Longrightarrow> k < bio_max \<Longrightarrow>
   value_at f k (fold add_acct accts s) = value_at f k s + sum_list (map (value_at f k) accts)"
  by (induction accts arbitrary: s) (simp_all add: acct_ok_add value_add add.assoc)

lemma summarize_ok:
  assumes "\<forall>a \<in> set accts. acct_ok a"
  shows "acct_ok (summarize_accts accts)"
    and "k < bio_max \<Longrightarrow> value_at f k (summarize_accts accts) = sum_list (map (value_at f k) accts)"
  using summarize_from[OF assms acct_ok_zero] summarize_from_ok[OF assms acct_ok_zero] by (simp_all add: summarize_accts_def value_zero)

lemma substract_ok:
  assumes "acct_ok a" "acct_ok b" "acct_ok r"
  shows "acct_ok (substract_acct a b r)"
    and "k < bio_max \<Longrightarrow> value_at f k (substract_acct a b r) = value_at f k a - value_at f k b"
  using assms by (cases f; simp add: substract_acct_def acct_ok_def substract_opacct_def)+

text \<open>The arrays of \<open>njobs\<close> jobs, and one update of them.\<close>

definition accts_ok :: "nat \<Rightarrow> accts \<Rightarrow> bool" where
  "accts_ok njobs st \<longleftrightarrow>
     length (prev_accts st) = njobs + 1 \<and> length (sub_accts st) = njobs + 1 \<and>
     (\<forall>a \<in> set (prev_accts st). acct_ok a) \<and> (\<forall>a \<in> set (sub_accts st). acct_ok a)"

definition snap_ok :: "nat \<Rightarrow> ioacct list \<Rightarrow> bool" where
  "snap_ok njobs jobs \<longleftrightarrow> length jobs = njobs \<and> (\<forall>a \<in> set jobs. acct_ok a)"

lemma update_acct_ok:
  assumes "accts_ok njobs st" and "snap_ok njobs jobs"
  shows "accts_ok njobs (update_acct jobs st)" and "cur_accts (update_acct jobs st) = summarize_accts jobs # jobs"
    and "prev_accts (update_acct jobs st) = summarize_accts jobs # jobs"
    and "i \<le> njobs \<Longrightarrow> k < bio_max \<Longrightarrow>
      value_at f k (sub_accts (update_acct jobs st) ! i) =
      value_at f k ((summarize_accts jobs # jobs) ! i) - value_at f k (prev_accts st ! i)"
proof -
  let ?c = "summarize_accts jobs # jobs"
  have c: "length ?c = njobs + 1" "\<forall>a \<in> set ?c. acct_ok a"
    using assms(2) summarize_ok(1) by (auto simp: snap_ok_def)
  have l: "length (prev_accts st) = njobs + 1" "length (sub_accts st) = njobs + 1"
    using assms(1) by (simp_all add: accts_ok_def)
  have nth: "sub_accts (update_acct jobs st) ! i = substract_acct (?c ! i) (prev_accts st ! i) (sub_accts st ! i)"
    if "i \<le> njobs" for i
    using that c(1) l by (simp add: update_acct_def Let_def)
  have oks: "acct_ok (?c ! i)" "acct_ok (prev_accts st ! i)" "acct_ok (sub_accts st ! i)" if "i \<le> njobs" for i
    using that c l assms(1) nth_mem[of i ?c] nth_mem[of i "prev_accts st"] nth_mem[of i "sub_accts st"]
    unfolding accts_ok_def by (metis less_Suc_eq_le Suc_eq_plus1)+
  have len: "length (sub_accts (update_acct jobs st)) = njobs + 1"
    using c(1) l by (simp add: update_acct_def Let_def)
  show cur: "cur_accts (update_acct jobs st) = ?c" and prv: "prev_accts (update_acct jobs st) = ?c"
    by (simp_all add: update_acct_def Let_def)
  have "\<forall>a \<in> set (sub_accts (update_acct jobs st)). acct_ok a"
    unfolding all_set_conv_all_nth using nth oks substract_ok(1) len by (auto simp: less_Suc_eq_le)
  then show "accts_ok njobs (update_acct jobs st)" using c prv len unfolding accts_ok_def by simp
  show "value_at f k (sub_accts (update_acct jobs st) ! i) = value_at f k (?c ! i) - value_at f k (prev_accts st ! i)"
    if "i \<le> njobs" "k < bio_max"
    using nth[OF that(1)] oks[OF that(1)] substract_ok(2) that(2) by simp
qed

lemma run_loop_adds_up:
  assumes "run_loop ticks st = Some (reports, st')" and "accts_ok njobs st"
    and "\<forall>(jobs, running) \<in> set ticks. snap_ok njobs jobs" and "i \<le> njobs" and "k < bio_max"
  shows "accts_ok njobs st' \<and>
    sum_list (map (\<lambda>r. value_at f k (r ! i)) reports) = value_at f k (prev_accts st' ! i) - value_at f k (prev_accts st ! i)"
  using assms
proof (induction ticks st arbitrary: reports rule: run_loop.induct)
  case (2 jobs running ticks st)
  have s: "snap_ok njobs jobs" using 2(4) by simp
  note up = update_acct_ok[OF 2(3) s]
  show ?case
  proof (cases running)
    case True
    then obtain rest where r: "run_loop ticks (update_acct jobs st) = Some (rest, st')"
        "reports = sub_accts (update_acct jobs st) # rest"
      using 2(2) by (auto simp: Let_def)
    then show ?thesis using 2(1)[OF refl True r(1) up(1)] 2(4,5,6) up(3,4) by simp
  next
    case False
    then have "reports = [sub_accts (update_acct jobs st)]" "st' = update_acct jobs st"
      using 2(2) by (auto simp: Let_def)
    then show ?thesis using up 2(5,6) by simp
  qed
qed simp

lemma accts_ok_alloc: "alloc_accts al njobs = (0, Some st) \<Longrightarrow> accts_ok njobs st \<and> prev_accts st = replicate (njobs + 1) ioacct_zero"
  by (auto simp: alloc_accts_def accts_ok_def Let_def split: if_splits)

lemma summarize_lat_keeps: "summarize_lat_accts jobs st = Inr st' \<Longrightarrow> prev_accts st' = prev_accts st"
  by (auto simp: summarize_lat_accts_def bnd_eq_Inr)

text \<open>C10: nothing is lost between the reports. The differences shown each second and at the end add up,
  for every job, operation and figure, to the account that the job has at the end, and those of the
  summary line to the sum over all jobs; all counters are modulo \<open>2 ^ 64\<close>.
\<close>

theorem reports_add_up:
  assumes "alloc_accts allocated njobs = (0, Some st)"
    and "run 0 ticks final res False st = Some (Inr (r, logged, shown, st'))"
    and "\<forall>(jobs, running) \<in> set ticks. length jobs = njobs \<and> (\<forall>a \<in> set jobs. length (ia_ops a) = bio_max)"
    and "length final = njobs" and "\<forall>a \<in> set final. length (ia_ops a) = bio_max" and "k < bio_max"
  shows "(\<forall>j < njobs. sum_list (map (\<lambda>s. figure_of f (ia_ops (s ! (j + 1)) ! k)) shown) = figure_of f (ia_ops (final ! j) ! k)) \<and>
    sum_list (map (\<lambda>s. figure_of f (ia_ops (s ! 0) ! k)) shown) = (\<Sum>a \<leftarrow> final. figure_of f (ia_ops a ! k))"
proof -
  obtain st1 where l: "run_loop ticks st = Some (logged, st1)" "shown = logged @ [sub_accts (update_acct final st1)]"
    using assms(2) by (auto simp: run_def Let_def bnd_eq_Inr split: option.splits)
  have t: "\<forall>(jobs, running) \<in> set ticks. snap_ok njobs jobs" and fin: "snap_ok njobs final"
    using assms(3-5) by (auto simp: snap_ok_def acct_ok_def)
  note ok = accts_ok_alloc[OF assms(1)]
  have add: "sum_list (map (\<lambda>s. value_at f k (s ! i)) shown) = value_at f k ((summarize_accts final # final) ! i)"
    if "i \<le> njobs" for i
  proof -
    note u = run_loop_adds_up[OF l(1) _ t that assms(6), of f]
    have "value_at f k (prev_accts st ! i) = 0" using ok that assms(6) by (simp add: value_zero del: replicate_Suc)
    then show ?thesis using u ok update_acct_ok(4)[OF _ fin that assms(6), of st1 f] by (simp add: l(2))
  qed
  have "value_at f k (summarize_accts final) = (\<Sum>a \<leftarrow> final. value_at f k a)"
    using summarize_ok(2)[OF _ assms(6)] fin by (simp add: snap_ok_def)
  then show ?thesis using add[of 0] add[of "j + 1" for j] by auto
qed

text \<open>One job that is seen twice before it ends.\<close>

definition acct_of :: "u64 \<Rightarrow> ioacct" where
  "acct_of n = ioacct_zero\<lparr>ia_ops := replicate bio_max (opacct_zero\<lparr>oa_ops := n, oa_bytes := 512 * n\<rparr>)\<rparr>"

theorem reports_add_up_witness:
  "\<exists>st logged shown st'. alloc_accts [True, True, True] 1 = (0, Some st) \<and>
     run 0 [([acct_of 3], True), ([acct_of 5], False)] [acct_of 6] 0 False st = Some (Inr (0, logged, shown, st')) \<and>
     sum_list (map (\<lambda>s. oa_ops (ia_ops (s ! 0) ! 0)) shown) = 6"
proof -
  obtain st where st: "alloc_accts [True, True, True] 1 = (0, Some st)" by (simp add: alloc_accts_def Let_def)
  obtain logged shown st' where r:
      "run 0 [([acct_of 3], True), ([acct_of 5], False)] [acct_of 6] 0 False st = Some (Inr (0, logged, shown, st'))"
    by (simp add: run_def summarize_lat_accts_def Let_def update_acct_def)
  have "sum_list (map (\<lambda>s. figure_of Ops (ia_ops (s ! 0) ! 0)) shown) = 6"
    using reports_add_up[OF st r, of 0 Ops] by (simp add: acct_of_def bio_max_def)
  then show ?thesis using st r by auto
qed

end
