(* ===== verification/Validate.thy ===== *)
theory Validate
  imports IogenCtl
begin

text \<open>
  Binding jobs to namespaces (\<open>nbio/main.c\<close>): the table of namespaces, the percentages and defaults that
  depend on the namespace, and \<open>validate\<close>. What the engine answers to each job is an argument.
\<close>

section \<open>Namespaces\<close>

text \<open>The fields of the identify page (\<open>nvme.h\<close>) that are read.\<close>

record nvme_lbaf =
  lf_ms :: u16
  lf_lbads :: u8
  lf_rp :: u8

record nvme_id_ns =
  id_nsze :: u64
  id_flbas :: u8
  id_dps :: u8
  id_nguid :: bytes
  id_eui64 :: bytes
  id_lbaf :: "nvme_lbaf list"

definition same_namespace :: "nvme_id_ns \<Rightarrow> namespace_info \<Rightarrow> bool" where
  "same_namespace id_ns ns \<longleftrightarrow> ns_eui64 ns = id_eui64 id_ns \<and> ns_nguid ns = id_nguid id_ns"

text \<open>The used part of the table of 256 namespaces; a namespace is its index.\<close>

definition namespace_find :: "nvme_id_ns \<Rightarrow> namespace_info list \<Rightarrow> nat option" where
  "namespace_find id_ns nsis = find (\<lambda>ns_idx. same_namespace id_ns (nsis ! ns_idx)) [0..<length nsis]"

definition namespace_geometry :: "nvme_id_ns \<Rightarrow> nvme_lbaf \<Rightarrow> namespace_info \<Rightarrow> namespace_info" where
  "namespace_geometry id_ns f ns =
     (let data_size = push_bit (unat (lf_lbads f)) 1; meta_size = ucast (lf_ms f);
          ext = (meta_size \<noteq> 0 \<and> drop_bit 4 (id_flbas id_ns) AND 1 \<noteq> 0) in
      ns\<lparr>ns_data_size := data_size, ns_meta_size := meta_size, ns_extended_lba := ext,
         ns_block_size := (if ext then data_size + meta_size else data_size),
         ns_nlbs := id_nsze id_ns, ns_pi_loc := drop_bit 3 (id_dps id_ns) AND 1, ns_pi_type := id_dps id_ns AND 7\<rparr>)"

text \<open>
  \<open>None\<close> is the null pointer: the table is full or the block is too small, in which case the new entry
  stays in the table. A shift of an \<open>int\<close> by 32 or more is undefined.
\<close>

definition namespace_add :: "nvme_id_ns \<Rightarrow> namespace_info list \<Rightarrow> (nat option \<times> namespace_info list) res" where
  "namespace_add id_ns nsis =
     (if length nsis \<ge> 256 then Inr (None, nsis)
      else bnd (arr_get (id_lbaf id_ns) (unat (id_flbas id_ns AND 0xF))) (\<lambda>f.
        let ns = namespace_zero\<lparr>ns_eui64 := id_eui64 id_ns, ns_nguid := id_nguid id_ns, ns_lba_shift := ucast (lf_lbads f)\<rparr> in
        if lf_lbads f < 9 then Inr (None, nsis @ [ns])
        else if lf_lbads f \<ge> 32 then Inl Fault
        else Inr (Some (length nsis), nsis @ [namespace_geometry id_ns f ns])))"

section \<open>Parameters that depend on the namespace\<close>

definition percent_of :: "u64 \<Rightarrow> 7 word \<Rightarrow> u64" where
  "percent_of whole p = whole * ucast p div 100"

definition bind_begin :: "u64 \<Rightarrow> job_params \<Rightarrow> job_params" where
  "bind_begin ns_size jp =
     (if jp_lba_range_begin_percent_enable jp
      then jp\<lparr>jp_lba_range_begin := percent_of ns_size (jp_lba_range_begin_percent jp)\<rparr> else jp)"

definition bind_size :: "u64 \<Rightarrow> job_params \<Rightarrow> job_params" where
  "bind_size ns_size jp =
     (if jp_lba_range_size_percent_enable jp
      then jp\<lparr>jp_lba_range_size := percent_of ns_size (jp_lba_range_size_percent jp)\<rparr> else jp)"

definition bind_amount :: "job_params \<Rightarrow> job_params" where
  "bind_amount jp =
     (if jp_amount_bytes_percent_enabled jp
      then jp\<lparr>jp_amount := percent_of (jp_lba_range_size jp) (jp_amount_bytes_percent jp)\<rparr> else jp)"

definition bind_range :: "u64 \<Rightarrow> job_params \<Rightarrow> job_params" where
  "bind_range ns_size jp = bind_amount (bind_size ns_size (bind_begin ns_size jp))"

definition scale_amount :: "job_params \<Rightarrow> job_params" where
  "scale_amount jp =
     (case jp_amount_type jp of
        amount_type_infinite \<Rightarrow> jp | _ \<Rightarrow> jp\<lparr>jp_amount := jp_amount jp * ucast (jp_amount_scale jp)\<rparr>)"

definition auto_result :: "u32 \<Rightarrow> read_result_type \<Rightarrow> read_result_type" where
  "auto_result feature t =
     (if t = read_result_auto then (if bit feature 15 then read_result_error else read_result_value) else t)"

text \<open>\<open>features\<close> is the answer to \<open>get_features\<close> and the value of \<open>feature_result\<close> after it.\<close>

definition bind_params :: "int \<times> u32 \<Rightarrow> namespace_info \<Rightarrow> job_params \<Rightarrow> int \<times> job_params" where
  "bind_params features ns jp =
     (let ns_size = push_bit (unat (ns_lba_shift ns)) (ns_nlbs ns); jp = bind_range ns_size jp in
      if jp_lba_range_begin jp + jp_lba_range_size jp > ns_size then (- 1, jp)
      else let jp = scale_amount jp in
      if jp_dealloc_read_result_type jp = read_result_auto \<or> jp_unwr_read_result_type jp = read_result_auto then
        if fst features \<noteq> 0 then (fst features, jp)
        else (0, jp\<lparr>jp_dealloc_read_result_type := auto_result (snd features) (jp_dealloc_read_result_type jp),
                    jp_unwr_read_result_type := auto_result (snd features) (jp_unwr_read_result_type jp)\<rparr>)
      else (0, jp))"

section \<open>Dependencies\<close>

definition find_name :: "job_params list \<Rightarrow> nat \<Rightarrow> string \<Rightarrow> int" where
  "find_name params from name =
     (case find (\<lambda>i. jp_name (params ! i) = name) [from..<length params] of None \<Rightarrow> - 1 | Some i \<Rightarrow> int i)"

definition job_find_next :: "job_params list \<Rightarrow> nat \<Rightarrow> string \<Rightarrow> int" where
  "job_find_next params idx name = find_name params (idx + 1) name"

definition job_find :: "job_params list \<Rightarrow> string \<Rightarrow> int" where
  "job_find params name = find_name params 0 name"

definition bind_dependency :: "job_params list \<Rightarrow> nat \<Rightarrow> job_params \<Rightarrow> int \<times> job_params" where
  "bind_dependency params job_idx jp =
     (if jp_dependency jp \<noteq> [] then
        let depend_job_idx = job_find params (jp_dependency jp) in
        if depend_job_idx < 0 then (- 1, jp)
        else if job_find_next params (nat depend_job_idx) (jp_dependency jp) \<ge> 0 then (- 1, jp)
        else (0, jp\<lparr>jp_dependency_job_idx := nat depend_job_idx\<rparr>)
      else (0, jp\<lparr>jp_dependency_job_idx := job_idx\<rparr>))"

section \<open>Validation\<close>

text \<open>
  What happens for one job: whether the engine is registered, the results of its two initialisations,
  of identify and of the feature.
\<close>

record validate_env =
  ve_engine :: bool
  ve_init :: int
  ve_identify :: "int \<times> nvme_id_ns"
  ve_ns_init :: int
  ve_features :: "int \<times> u32"

definition bind_namespace ::
  "validate_env \<Rightarrow> job_params \<Rightarrow> namespace_info list \<Rightarrow> (int \<times> namespace_info list \<times> nat) res" where
  "bind_namespace env jp nsis =
     (case namespace_find (snd (ve_identify env)) nsis of
        None \<Rightarrow>
          bnd (namespace_add (snd (ve_identify env)) nsis) (\<lambda>(ns, nsis).
          case ns of None \<Rightarrow> Inl Fault
          | Some k \<Rightarrow> Inr (ve_ns_init env, nsis[k := (nsis ! k)\<lparr>
              ns_journal_file := (if jp_journal_file jp \<noteq> [] then Some (jp_journal_file jp) else None),
              ns_journal_file_mmap := jp_journal_file_mmap jp, ns_journal_shm := jp_journal_shm jp,
              ns_nhist := jp_history jp\<rparr>], k))
      | Some k \<Rightarrow>
          let f = ns_journal_file (nsis ! k) in
          if (f \<noteq> None \<or> jp_journal_file jp \<noteq> []) \<and> f \<noteq> Some (jp_journal_file jp)
          then Inr (- 1, nsis, k) else Inr (0, nsis, k))"

definition lba_aligned :: "namespace_info \<Rightarrow> u64 \<Rightarrow> bool" where
  "lba_aligned ns sz \<longleftrightarrow> sz mod ucast (ns_data_size ns) = 0"

text \<open>The common request sizes default to the bounds the parser collected over all jobs.\<close>

definition bind_iosize :: "u32 \<Rightarrow> u32 \<Rightarrow> namespace_info \<Rightarrow> job_params \<Rightarrow> (int \<times> job_params) res" where
  "bind_iosize mn mx ns jp =
     bnd (arr_get (jp_iosizes jp) (iosize_opcode_num iosize_total)) (\<lambda>r.
     let r = (if iosize_min r = 0 \<or> iosize_max r = 0 then r\<lparr>iosize_min := ucast mn, iosize_max := ucast mx\<rparr> else r);
         jp = jp\<lparr>jp_iosizes := (jp_iosizes jp)[iosize_opcode_num iosize_total := r]\<rparr> in
     Inr (if iosize_min r = 0 \<or> \<not> lba_aligned ns (iosize_min r) \<or> \<not> lba_aligned ns (iosize_max r)
          then - 1 else 0, jp))"

text \<open>The result of \<open>bind_params\<close> is not looked at.\<close>

definition validate_job ::
  "validate_env \<Rightarrow> u32 \<Rightarrow> u32 \<Rightarrow> job_params list \<Rightarrow> nat \<Rightarrow> namespace_info list \<Rightarrow> job_params \<Rightarrow>
   (int \<times> namespace_info list \<times> job_params \<times> nat option) res" where
  "validate_job env mn mx params job_idx nsis jp =
     (if jp_ioengine jp = [] then Inr (- 1, nsis, jp, None)
      else if \<not> ve_engine env then Inr (- 1, nsis, jp, None)
      else if ve_init env \<noteq> 0 then Inr (ve_init env, nsis, jp, None)
      else if fst (ve_identify env) \<noteq> 0 then Inr (fst (ve_identify env), nsis, jp, None)
      else bnd (bind_namespace env jp nsis) (\<lambda>(res, nsis, k).
        if res \<noteq> 0 then Inr (res, nsis, jp, None)
        else bnd (bind_iosize mn mx (nsis ! k) jp) (\<lambda>(res, jp).
        if res \<noteq> 0 then Inr (res, nsis, jp, Some k)
        else let (res, jp) = bind_dependency params job_idx jp in
        if res \<noteq> 0 then Inr (res, nsis, jp, Some k)
        else Inr (0, nsis, snd (bind_params (ve_features env) (nsis ! k) jp), Some k))))"

text \<open>
  The loop state: whether \<open>exit\<close> was taken, the result, the namespaces and the jobs with their
  namespace. Before the first job the result is whatever the stack held (\<open>junk\<close>); the same is
  returned when the identify buffer cannot be allocated.
\<close>

type_synonym validate_state = "bool \<times> int \<times> namespace_info list \<times> (job_params \<times> nat option) list"

definition validate_step :: "(nat \<Rightarrow> validate_env) \<Rightarrow> u32 \<Rightarrow> u32 \<Rightarrow> nat \<Rightarrow> validate_state \<Rightarrow> validate_state res" where
  "validate_step env mn mx job_idx = (\<lambda>(stop, res, nsis, jobs).
     if stop then Inr (stop, res, nsis, jobs)
     else bnd (arr_get jobs job_idx) (\<lambda>(jp, _).
       bnd (validate_job (env job_idx) mn mx (map fst jobs) job_idx nsis jp) (\<lambda>(res, nsis, jp, k).
       Inr (res \<noteq> 0, res, nsis, jobs[job_idx := (jp, k)]))))"

definition validate ::
  "(nat \<Rightarrow> validate_env) \<Rightarrow> bool \<Rightarrow> int \<Rightarrow> u32 \<Rightarrow> u32 \<Rightarrow> job_params list \<Rightarrow>
   (int \<times> namespace_info list \<times> (job_params \<times> nat option) list) res" where
  "validate env alloc junk mn mx params =
     (let jobs = map (\<lambda>jp. (jp, None)) params in
      if \<not> alloc then Inr (junk, [], jobs)
      else bnd (for_upto 0 (length params) (validate_step env mn mx) (False, junk, [], jobs)) (\<lambda>(stop, res, nsis, jobs).
        Inr (res, nsis, jobs)))"

section \<open>What validation establishes\<close>

definition ns_ok :: "namespace_info \<Rightarrow> bool" where
  "ns_ok ns \<longleftrightarrow> 9 \<le> unat (ns_lba_shift ns) \<and> unat (ns_lba_shift ns) < 32 \<and>
     ns_data_size ns = push_bit (unat (ns_lba_shift ns)) 1"

definition ns_key :: "namespace_info \<Rightarrow> bytes \<times> bytes" where
  "ns_key ns = (ns_eui64 ns, ns_nguid ns)"

definition nsis_ok :: "namespace_info list \<Rightarrow> bool" where
  "nsis_ok nsis \<longleftrightarrow> length nsis \<le> 256 \<and> distinct (map ns_key nsis) \<and> (\<forall>ns \<in> set nsis. ns_ok ns)"

lemma find_upt_Some:
  "find P [a..<b] = Some i \<longleftrightarrow> a \<le> i \<and> i < b \<and> P i \<and> (\<forall>j. a \<le> j \<and> j < i \<longrightarrow> \<not> P j)"
  unfolding find_Some_iff
proof
  assume "\<exists>n < length [a..<b]. P ([a..<b] ! n) \<and> i = [a..<b] ! n \<and> (\<forall>j < n. \<not> P ([a..<b] ! j))"
  then obtain n where n: "n < b - a" "P (a + n)" "i = a + n" "\<forall>j < n. \<not> P (a + j)" by auto
  have "\<not> P j" if "a \<le> j" "j < i" for j
    using n(4)[rule_format, of "j - a"] that n(3) by simp
  then show "a \<le> i \<and> i < b \<and> P i \<and> (\<forall>j. a \<le> j \<and> j < i \<longrightarrow> \<not> P j)" using n by auto
next
  assume "a \<le> i \<and> i < b \<and> P i \<and> (\<forall>j. a \<le> j \<and> j < i \<longrightarrow> \<not> P j)"
  then show "\<exists>n < length [a..<b]. P ([a..<b] ! n) \<and> i = [a..<b] ! n \<and> (\<forall>j < n. \<not> P ([a..<b] ! j))"
    by (intro exI[of _ "i - a"]) auto
qed

lemma namespace_find_Some: "namespace_find id_ns nsis = Some k \<Longrightarrow> k < length nsis \<and> same_namespace id_ns (nsis ! k)"
  by (simp add: namespace_find_def find_upt_Some)

lemma namespace_find_None: "namespace_find id_ns nsis = None \<Longrightarrow> (id_eui64 id_ns, id_nguid id_ns) \<notin> ns_key ` set nsis"
  by (auto simp: namespace_find_def find_None_iff same_namespace_def ns_key_def in_set_conv_nth)

lemma namespace_add_Some:
  assumes "namespace_add id_ns nsis = Inr (Some k, nsis')"
  shows "k = length nsis \<and> k < 256 \<and> (\<exists>ns. nsis' = nsis @ [ns] \<and> ns_ok ns \<and> same_namespace id_ns ns)"
proof -
  have "unat (ucast (b :: u8) :: u32) = unat b" for b by (simp add: unsigned_ucast_eq take_bit_nat_eq_self_iff order_less_le_trans[OF unsigned_less])
  then show ?thesis using assms
    by (auto simp: namespace_add_def bnd_eq_Inr Let_def ns_ok_def namespace_geometry_def same_namespace_def
        word_less_nat_alt word_le_nat_alt split: if_splits)
qed

text \<open>The table only grows, its namespaces stay different, and the job gets the one that was identified.\<close>

lemma bind_namespace_ok:
  assumes "bind_namespace env jp nsis = Inr (0, nsis', k)" and "nsis_ok nsis"
  shows "nsis_ok nsis' \<and> k < length nsis' \<and> same_namespace (snd (ve_identify env)) (nsis' ! k) \<and>
    length nsis \<le> length nsis' \<and> (\<forall>i < length nsis. nsis' ! i = nsis ! i)"
proof (cases "namespace_find (snd (ve_identify env)) nsis")
  case (Some n)
  then show ?thesis using assms namespace_find_Some[OF Some] by (auto simp: bind_namespace_def Let_def split: if_splits)
next
  case None
  then obtain ns where a: "namespace_add (snd (ve_identify env)) nsis = Inr (Some k, nsis @ [ns])"
      "k = length nsis" "k < 256" "ns_ok ns" "same_namespace (snd (ve_identify env)) ns" and
    n: "nsis' = nsis @ [ns\<lparr>ns_journal_file := (if jp_journal_file jp \<noteq> [] then Some (jp_journal_file jp) else None),
              ns_journal_file_mmap := jp_journal_file_mmap jp, ns_journal_shm := jp_journal_shm jp,
              ns_nhist := jp_history jp\<rparr>]"
    using assms(1) by (auto simp: bind_namespace_def bnd_eq_Inr list_update_append split: option.splits dest!: namespace_add_Some)
  have "ns_key ns \<notin> ns_key ` set nsis"
    using namespace_find_None[OF None] a(5) by (simp add: same_namespace_def ns_key_def)
  then show ?thesis using a assms(2)
    by (auto simp: n nsis_ok_def ns_ok_def same_namespace_def ns_key_def nth_append)
qed

text \<open>What holds of a job that passed.\<close>

definition iosize_bound :: "namespace_info \<Rightarrow> job_params \<Rightarrow> bool" where
  "iosize_bound ns jp \<longleftrightarrow>
     (let r = jp_iosizes jp ! iosize_opcode_num iosize_total in
      iosize_min r \<noteq> 0 \<and> lba_aligned ns (iosize_min r) \<and> lba_aligned ns (iosize_max r))"

definition dependency_bound :: "string list \<Rightarrow> nat \<Rightarrow> job_params \<Rightarrow> bool" where
  "dependency_bound names i jp \<longleftrightarrow>
     (if jp_dependency jp = [] then jp_dependency_job_idx jp = i
      else \<forall>j < length names. names ! j = jp_dependency jp \<longleftrightarrow> j = jp_dependency_job_idx jp) \<and>
     (jp_dependency jp \<noteq> [] \<longrightarrow> jp_dependency_job_idx jp < length names)"

lemma find_name_found:
  "find_name params from name = int i \<Longrightarrow> from \<le> i \<and> i < length params \<and> jp_name (params ! i) = name \<and>
     (\<forall>j. from \<le> j \<and> j < i \<longrightarrow> jp_name (params ! j) \<noteq> name)"
  by (auto simp: find_name_def find_upt_Some split: option.splits)

lemma find_name_absent:
  "find_name params from name < 0 \<longleftrightarrow> (\<forall>j. from \<le> j \<and> j < length params \<longrightarrow> jp_name (params ! j) \<noteq> name)"
  by (auto simp: find_name_def find_upt_Some find_None_iff split: option.splits)

lemma bind_dependency_keeps:
  "bind_dependency params i jp = (r, jp') \<Longrightarrow> jp_name jp' = jp_name jp \<and> jp_iosizes jp' = jp_iosizes jp \<and> jp_dependency jp' = jp_dependency jp"
  by (auto simp: bind_dependency_def Let_def split: if_splits)

lemma bind_dependency_ok:
  assumes "bind_dependency params i jp = (0, jp')"
  shows "dependency_bound (map jp_name params) i jp'"
proof (cases "jp_dependency jp = []")
  case True
  then show ?thesis using assms by (auto simp: bind_dependency_def dependency_bound_def)
next
  case False
  then obtain d where d: "job_find params (jp_dependency jp) = int d" "\<not> 0 \<le> job_find_next params d (jp_dependency jp)"
      "jp' = jp\<lparr>jp_dependency_job_idx := d\<rparr>"
    using assms by (auto simp: bind_dependency_def Let_def split: if_splits) (metis nat_0_le not_le)
  have "(\<forall>j < length params. jp_name (params ! j) = jp_dependency jp \<longleftrightarrow> j = d) \<and> d < length params"
    using find_name_found[OF d(1)[unfolded job_find_def]] d(2)
    unfolding job_find_next_def not_le find_name_absent by (metis Suc_eq_plus1 Suc_leI le0 linorder_neqE_nat)
  then show ?thesis using False by (simp add: d(3) dependency_bound_def)
qed

text \<open>Binding the parameters touches neither names, sizes nor dependencies.\<close>

lemma bind_keeps [simp]:
  "jp_name (bind_begin n jp) = jp_name jp" "jp_name (bind_size n jp) = jp_name jp" "jp_name (bind_amount jp) = jp_name jp"
  "jp_iosizes (bind_begin n jp) = jp_iosizes jp" "jp_iosizes (bind_size n jp) = jp_iosizes jp" "jp_iosizes (bind_amount jp) = jp_iosizes jp"
  "jp_dependency (bind_begin n jp) = jp_dependency jp" "jp_dependency (bind_size n jp) = jp_dependency jp"
  "jp_dependency (bind_amount jp) = jp_dependency jp"
  "jp_dependency_job_idx (bind_begin n jp) = jp_dependency_job_idx jp" "jp_dependency_job_idx (bind_size n jp) = jp_dependency_job_idx jp"
  "jp_dependency_job_idx (bind_amount jp) = jp_dependency_job_idx jp"
  by (simp_all add: bind_begin_def bind_size_def bind_amount_def)

lemma scale_amount_keeps [simp]:
  "jp_name (scale_amount jp) = jp_name jp" "jp_iosizes (scale_amount jp) = jp_iosizes jp"
  "jp_dependency (scale_amount jp) = jp_dependency jp" "jp_dependency_job_idx (scale_amount jp) = jp_dependency_job_idx jp"
  by (simp_all add: scale_amount_def split: amount_type.split)

lemma bind_params_keeps:
  "jp_name (snd (bind_params f ns jp)) = jp_name jp" "jp_iosizes (snd (bind_params f ns jp)) = jp_iosizes jp"
  "jp_dependency (snd (bind_params f ns jp)) = jp_dependency jp"
  "jp_dependency_job_idx (snd (bind_params f ns jp)) = jp_dependency_job_idx jp"
  by (simp_all add: bind_params_def bind_range_def Let_def)

lemma validate_job_ok:
  assumes "validate_job env mn mx params i nsis jp = Inr (0, nsis', jp', k)" and "nsis_ok nsis"
  shows "\<exists>k'. k = Some k' \<and> k' < length nsis' \<and> nsis_ok nsis' \<and> same_namespace (snd (ve_identify env)) (nsis' ! k') \<and>
    length nsis \<le> length nsis' \<and> (\<forall>i < length nsis. nsis' ! i = nsis ! i) \<and>
    iosize_bound (nsis' ! k') jp' \<and> dependency_bound (map jp_name params) i jp' \<and> jp_name jp' = jp_name jp \<and>
    jp_dependency jp' = jp_dependency jp"
proof -
  obtain k' jp1 jp2 where b: "bind_namespace env jp nsis = Inr (0, nsis', k')" "bind_iosize mn mx (nsis' ! k') jp = Inr (0, jp1)"
      "bind_dependency params i jp1 = (0, jp2)" "jp' = snd (bind_params (ve_features env) (nsis' ! k') jp2)" "k = Some k'"
    using assms(1) by (auto simp: validate_job_def bnd_eq_Inr Let_def case_prod_unfold prod_eq_iff split: if_splits)
  have j1: "iosize_bound (nsis' ! k') jp1" "jp_name jp1 = jp_name jp" "jp_dependency jp1 = jp_dependency jp"
    using b(2) by (auto simp: bind_iosize_def bnd_eq_Inr iosize_bound_def Let_def arr_get_eq_Inr split: if_splits)
  note d = bind_dependency_ok[OF b(3)]
  have "iosize_bound (nsis' ! k') jp2" "jp_name jp2 = jp_name jp" "jp_dependency jp2 = jp_dependency jp"
    using j1 bind_dependency_keeps[OF b(3)] by (auto simp: iosize_bound_def)
  then show ?thesis using b(4,5) d bind_namespace_ok[OF b(1) assms(2)]
    by (auto simp: iosize_bound_def dependency_bound_def bind_params_keeps)
qed

text \<open>The state of the loop before job \<open>j\<close>, for the jobs \<open>params\<close>.\<close>

definition bound_job ::
  "(nat \<Rightarrow> validate_env) \<Rightarrow> string list \<Rightarrow> namespace_info list \<Rightarrow> nat \<Rightarrow> job_params \<times> nat option \<Rightarrow> bool" where
  "bound_job env names nsis i job \<longleftrightarrow>
     (\<exists>k. snd job = Some k \<and> k < length nsis \<and> same_namespace (snd (ve_identify (env i))) (nsis ! k) \<and>
       iosize_bound (nsis ! k) (fst job)) \<and> dependency_bound names i (fst job)"

definition validate_inv :: "(nat \<Rightarrow> validate_env) \<Rightarrow> job_params list \<Rightarrow> nat \<Rightarrow> validate_state \<Rightarrow> bool" where
  "validate_inv env params j = (\<lambda>(stop, res, nsis, jobs).
     if stop then res \<noteq> 0
     else (0 < j \<longrightarrow> res = 0) \<and> nsis_ok nsis \<and> map (jp_name \<circ> fst) jobs = map jp_name params \<and>
       (\<forall>i < j. bound_job env (map jp_name params) nsis i (jobs ! i)))"

lemma validate_step_inv:
  assumes "validate_step env mn mx j s = Inr s'" and "validate_inv env params j s" and "j < length params"
  shows "validate_inv env params (Suc j) s'"
proof -
  obtain stop res nsis jobs where s: "s = (stop, res, nsis, jobs)" by (cases s)
  show ?thesis
  proof (cases stop)
    case True
    then show ?thesis using assms(1,2) by (auto simp: s validate_step_def validate_inv_def)
  next
    case False
    then have nm: "map jp_name (map fst jobs) = map jp_name params" and ok: "nsis_ok nsis"
        and old: "\<And>i. i < j \<Longrightarrow> bound_job env (map jp_name params) nsis i (jobs ! i)"
      using assms(2) by (auto simp: s validate_inv_def)
    then have len: "length jobs = length params" by (metis length_map)
    obtain jp0 k0 res' nsis' jp k where j: "jobs ! j = (jp0, k0)"
        "validate_job (env j) mn mx (map fst jobs) j nsis jp0 = Inr (res', nsis', jp, k)"
        "s' = (res' \<noteq> 0, res', nsis', jobs[j := (jp, k)])"
      using assms(1,3) False len by (auto simp: s validate_step_def bnd_eq_Inr arr_get_eq_Inr split: prod.splits)
    show ?thesis
    proof (cases "res' = 0")
      case True
      note v = validate_job_ok[OF j(2)[unfolded True] ok, unfolded nm]
      have "bound_job env (map jp_name params) nsis' i (jobs[j := (jp, k)] ! i)" if "i < Suc j" for i
        using that v old[of i] len assms(3) by (cases "i = j") (auto simp: bound_job_def)
      moreover have "map (jp_name \<circ> fst) (jobs[j := (jp, k)]) = map jp_name params"
      proof -
        have "map jp_name params ! j = jp_name jp" using nm[symmetric] v j(1) len assms(3) by (elim exE conjE) simp
        then have "(map jp_name params)[j := jp_name jp] = map jp_name params" by (metis list_update_id)
        then show ?thesis using nm by (simp add: map_update)
      qed
      moreover have "nsis_ok nsis'" using v by blast
      ultimately show ?thesis using True by (simp add: j(3) validate_inv_def)
    qed (simp add: j(3) validate_inv_def)
  qed
qed

text \<open>C11: when \<open>validate\<close> returns success for at least one job, every job is bound. It has a namespace of
  the table, the one that the engine identified for it; the namespaces of the table are pairwise
  different, so jobs of the same namespace share one verifier and one lock; each has blocks of a power
  of two of at least 512 bytes; the common request sizes are positive multiples of the block; and the
  dependency is the only job of that name, or the job itself when there is none.
\<close>

theorem validate_binds:
  assumes "validate env True junk mn mx params = Inr (0, nsis, jobs)" and "params \<noteq> []"
  shows "nsis_ok nsis \<and> length jobs = length params \<and>
    (\<forall>i < length params. bound_job env (map jp_name params) nsis i (jobs ! i))"
proof -
  obtain stop where l: "for_upto 0 (length params) (validate_step env mn mx) (False, junk, [], map (\<lambda>jp. (jp, None)) params) =
      Inr (stop, 0, nsis, jobs)"
    using assms(1) by (auto simp: validate_def bnd_eq_Inr split: prod.splits)
  have "validate_inv env params 0 (False, junk, [], map (\<lambda>jp. (jp, None)) params)"
    by (simp add: validate_inv_def nsis_ok_def o_def)
  then have "validate_inv env params (0 + length params) (stop, 0, nsis, jobs)"
    by (rule for_upto_inv[OF l]) (use validate_step_inv in auto)
  then show ?thesis by (auto simp: validate_inv_def split: if_splits dest: arg_cong[of _ _ length])
qed

text \<open>Two jobs on one namespace of 100 blocks, the second after the first.\<close>

definition sample_id_ns :: nvme_id_ns where
  "sample_id_ns = \<lparr>id_nsze = 100, id_flbas = 0, id_dps = 0, id_nguid = replicate 16 0, id_eui64 = replicate 8 7,
     id_lbaf = replicate 16 \<lparr>lf_ms = 0, lf_lbads = 9, lf_rp = 0\<rparr>\<rparr>"

definition sample_venv :: validate_env where
  "sample_venv = \<lparr>ve_engine = True, ve_init = 0, ve_identify = (0, sample_id_ns), ve_ns_init = 0, ve_features = (0, 0)\<rparr>"

definition sample_job_params :: "string \<Rightarrow> string \<Rightarrow> u64 \<Rightarrow> u64 \<Rightarrow> job_params" where
  "sample_job_params name dep from len =
     job_params_zero\<lparr>jp_name := name, jp_ioengine := ''libaio'', jp_dependency := dep, jp_lba_range_begin := from,
       jp_lba_range_size := len, jp_iosizes := (jp_iosizes job_params_zero)[0 := \<lparr>iosize_min = 512, iosize_max = 4096, iosize_align = 0\<rparr>]\<rparr>"

definition two_jobs_params :: "job_params list" where
  "two_jobs_params = [sample_job_params ''a'' [] 0 25600, sample_job_params ''b'' ''a'' 25600 25600]"

theorem validate_binds_witness:
  "\<exists>nsis jobs. validate (\<lambda>_. sample_venv) True 0 0 0 two_jobs_params = Inr (0, nsis, jobs) \<and>
     bound_job (\<lambda>_. sample_venv) (map jp_name two_jobs_params) nsis 1 (jobs ! 1)"
proof -
  have "case validate (\<lambda>_. sample_venv) True 0 0 0 two_jobs_params of Inr (r, _) \<Rightarrow> r = 0 | _ \<Rightarrow> False" by code_simp
  then obtain nsis jobs where v: "validate (\<lambda>_. sample_venv) True 0 0 0 two_jobs_params = Inr (0, nsis, jobs)"
    by (auto split: sum.splits prod.splits)
  have "two_jobs_params \<noteq> []" "1 < length two_jobs_params" by (simp_all add: two_jobs_params_def)
  then show ?thesis using validate_binds[OF v] v by blast
qed

section \<open>Ranges that do not fit\<close>

abbreviation with_range :: "u64 \<Rightarrow> u64 \<Rightarrow> job_params \<Rightarrow> job_params" where
  "with_range b n jp \<equiv> jp\<lparr>jp_lba_range_begin := b, jp_lba_range_size := n\<rparr>"

lemma bind_namespace_range: "bind_namespace env (with_range b n jp) nsis = bind_namespace env jp nsis"
  by (simp add: bind_namespace_def case_prod_unfold Let_def cong: option.case_cong)

lemma bind_iosize_range:
  "bind_iosize mn mx ns (with_range b n jp) = bnd (bind_iosize mn mx ns jp) (\<lambda>(r, jp). Inr (r, with_range b n jp))"
  by (simp add: bind_iosize_def bnd_assoc Let_def) (rule bnd_cong; simp)

lemma bind_dependency_range:
  "bind_dependency [with_range b n jp0] i (with_range b n jp) = (let (r, jp) = bind_dependency [jp0] i jp in (r, with_range b n jp))"
  by (simp add: bind_dependency_def job_find_def job_find_next_def find_name_def Let_def)

lemma bind_params_range:
  assumes "\<not> jp_lba_range_begin_percent_enable jp" and "\<not> jp_lba_range_size_percent_enable jp"
  shows "jp_lba_range_begin (snd (bind_params f ns (with_range b n jp))) = b"
    and "jp_lba_range_size (snd (bind_params f ns (with_range b n jp))) = n"
  using assms
  by (auto simp: bind_params_def bind_range_def bind_begin_def bind_size_def bind_amount_def scale_amount_def Let_def
      split: amount_type.split)

lemma validate_one:
  "validate env True junk mn mx [jp] =
     bnd (validate_job (env 0) mn mx [jp] 0 [] jp) (\<lambda>(res, nsis, jp, k). Inr (res, nsis, [(jp, k)]))"
  by (cases "validate_job (env 0) mn mx [jp] 0 [] jp") (auto simp: validate_def validate_step_def)

text \<open>\<open>validate\<close> does not check the range of a job. \<open>bind_params\<close> reports a range outside the namespace,
  but its result is ignored: when a single job with a fixed range is accepted, it is accepted with
  every other begin and size as well, and the job gets this range, however far beyond the namespace.
\<close>

theorem validate_ignores_range:
  assumes "validate env True junk mn mx [jp] = Inr (0, nsis, jobs)"
    and "\<not> jp_lba_range_begin_percent_enable jp" and "\<not> jp_lba_range_size_percent_enable jp"
  shows "\<exists>jp' k. validate env True junk mn mx [jp\<lparr>jp_lba_range_begin := b, jp_lba_range_size := n\<rparr>] = Inr (0, nsis, [(jp', k)]) \<and>
    jp_lba_range_begin jp' = b \<and> jp_lba_range_size jp' = n"
proof -
  obtain k jp1 jp2 where v: "jp_ioengine jp \<noteq> []" "ve_engine (env 0)" "ve_init (env 0) = 0" "fst (ve_identify (env 0)) = 0"
      "bind_namespace (env 0) jp [] = Inr (0, nsis, k)" "bind_iosize mn mx (nsis ! k) jp = Inr (0, jp1)"
      "bind_dependency [jp] 0 jp1 = (0, jp2)"
    using assms(1)
    by (auto simp: validate_one validate_job_def bnd_eq_Inr Let_def case_prod_unfold prod_eq_iff split: if_splits)
  have "\<not> jp_lba_range_begin_percent_enable jp2" "\<not> jp_lba_range_size_percent_enable jp2"
    using assms(2,3) v(6,7) by (auto simp: bind_iosize_def bnd_eq_Inr bind_dependency_def Let_def split: if_splits)
  note r = bind_params_range[OF this, of "ve_features (env 0)" "nsis ! k" n b]
  have "validate env True junk mn mx [with_range b n jp] =
      Inr (0, nsis, [(snd (bind_params (ve_features (env 0)) (nsis ! k) (with_range b n jp2)), Some k)])"
    using v by (simp add: validate_one validate_job_def bind_namespace_range bind_iosize_range bind_dependency_range)
  then show ?thesis using r by blast
qed

theorem validate_ignores_range_witness:
  "\<exists>jp' nsis k. validate (\<lambda>_. sample_venv) True 0 0 0 [sample_job_params ''a'' [] 1000000 512] = Inr (0, nsis, [(jp', k)]) \<and>
    jp_lba_range_begin jp' = 1000000"
proof -
  have "case validate (\<lambda>_. sample_venv) True 0 0 0 [sample_job_params ''a'' [] 0 0] of Inr (r, _) \<Rightarrow> r = 0 | _ \<Rightarrow> False" by code_simp
  then obtain nsis jobs where v: "validate (\<lambda>_. sample_venv) True 0 0 0 [sample_job_params ''a'' [] 0 0] = Inr (0, nsis, jobs)"
    by (auto split: sum.splits prod.splits)
  have r: "with_range 1000000 512 (sample_job_params ''a'' [] 0 0) = sample_job_params ''a'' [] 1000000 512"
    and p: "\<not> jp_lba_range_begin_percent_enable (sample_job_params ''a'' [] 0 0)"
      "\<not> jp_lba_range_size_percent_enable (sample_job_params ''a'' [] 0 0)"
    by (simp_all add: sample_job_params_def job_params_zero_def)
  show ?thesis using validate_ignores_range[OF v p, of 512 1000000] unfolding r by blast
qed

end
