(* ===== verification/NbioMain.thy ===== *)
theory NbioMain
  imports Report Validate Parser
begin

text \<open>
  The program (\<open>nbio/main.c\<close>): arguments, the signal handler, the resources that \<open>prepare\<close> acquires and
  that its error paths and the two cleanups release, and \<open>main\<close>.
\<close>

section \<open>Arguments\<close>

datatype main_args = Usage | Args string bool bool string

fun parse_args :: "string \<Rightarrow> bool \<Rightarrow> bool \<Rightarrow> string option \<Rightarrow> string list \<Rightarrow> main_args" where
  "parse_args display debug quiet file_arg [] =
     (case file_arg of None \<Rightarrow> Usage | Some f \<Rightarrow> Args display debug quiet f)"
| "parse_args display debug quiet file_arg (arg # argv) =
     (if arg = ''-d'' \<or> arg = ''--debug'' then parse_args display True quiet file_arg argv
      else if arg = ''-q'' \<or> arg = ''--quiet'' then parse_args display debug True file_arg argv
      else if arg = ''--display'' then
        (case argv of [] \<Rightarrow> Usage | d # argv \<Rightarrow> parse_args d debug quiet file_arg argv)
      else if arg = ''-s'' \<or> arg = ''--shared'' then parse_args display debug quiet file_arg argv
      else if take 1 arg = ''-'' \<or> file_arg \<noteq> None then Usage
      else parse_args display debug quiet (Some arg) argv)"

definition main_arguments :: "string list \<Rightarrow> main_args" where
  "main_arguments argv = parse_args ''standalone'' False False None argv"

section \<open>Signals\<close>

abbreviation SIGINT :: int where "SIGINT \<equiv> 2"
abbreviation SIGUSR1 :: int where "SIGUSR1 \<equiv> 10"

text \<open>
  The state, the parameters, \<open>aborted\<close> and \<open>received_signal\<close> after a signal; \<open>joined\<close> is what the job
  threads do while the handler waits for them.
\<close>

definition signal_handler ::
  "(iogen \<Rightarrow> iogen) \<Rightarrow> int \<Rightarrow> iogen \<times> global_params \<Rightarrow> (iogen \<times> global_params) \<times> int \<times> int" where
  "signal_handler joined signo = (\<lambda>(iogen, params).
     if iogen_running iogen then
       (if signo = SIGINT then (iogen_stop joined iogen, params)
        else if signo = SIGUSR1 then iogen_abort joined params iogen
        else (iogen, params), 1, 1)
     else ((iogen, params), - 1, 1))"

section \<open>Resources\<close>

datatype resource =
    R_iovers | R_iover nat | R_iogen | R_smart_buf | R_display | R_iolog | R_smartlog | R_errorlog | R_iotrace
  | R_powerctl | R_accts | R_engine nat | R_job_params

type_synonym held = "resource list"

text \<open>Closing a log that is not open passes a null pointer to \<open>fclose\<close>.\<close>

definition close_log :: "resource \<Rightarrow> held \<Rightarrow> held res" where
  "close_log r h = (if r \<in> set h then Inr (remove1 r h) else Inl Fault)"

text \<open>
  The labels of \<open>prepare\<close>, each of which falls through to the next. Releasing what is not held
  (a descriptor of -1) is harmless for the other resources.
\<close>

definition iover_init_fail :: "held \<Rightarrow> held" where
  "iover_init_fail h = remove1 R_iovers h"

definition iogen_init_fail :: "nat \<Rightarrow> held \<Rightarrow> held" where
  "iogen_init_fail n h = iover_init_fail (fold (\<lambda>i. remove1 (R_iover i)) [0..<n] h)"

definition disp_init_fail :: "nat \<Rightarrow> held \<Rightarrow> held" where
  "disp_init_fail n h = iogen_init_fail n (remove1 R_iogen h)"

definition iolog_create_fail :: "nat \<Rightarrow> held \<Rightarrow> held" where
  "iolog_create_fail n h = disp_init_fail n (remove1 R_display h)"

definition smartlog_create_fail :: "nat \<Rightarrow> held \<Rightarrow> held res" where
  "smartlog_create_fail n h = bnd (close_log R_iolog h) (\<lambda>h. Inr (iolog_create_fail n h))"

definition iotrace_create_fail :: "nat \<Rightarrow> held \<Rightarrow> held res" where
  "iotrace_create_fail n h = bnd (close_log R_smartlog h) (smartlog_create_fail n)"

definition powerctl_init_fail :: "nat \<Rightarrow> held \<Rightarrow> held res" where
  "powerctl_init_fail n h = bnd (close_log R_iotrace h) (iotrace_create_fail n)"

definition alloc_accts_fail :: "nat \<Rightarrow> held \<Rightarrow> held res" where
  "alloc_accts_fail n h = powerctl_init_fail n (remove1 R_powerctl h)"

section \<open>Preparation\<close>

text \<open>
  What the calls of \<open>prepare\<close> return; \<open>pe_errorlog\<close> and \<open>pe_powerctl\<close> are the descriptors of the
  error log and of the power controller.
\<close>

record prepare_env =
  pe_iovers :: bool
  pe_iover_init :: "nat \<Rightarrow> int"
  pe_iogen_init :: int
  pe_memalign :: int
  pe_disp_init :: int
  pe_iolog :: int
  pe_smartlog :: int
  pe_errorlog :: int
  pe_iotrace :: int
  pe_powerctl :: int
  pe_accts :: int

fun init_iovers :: "(nat \<Rightarrow> int) \<Rightarrow> nat \<Rightarrow> nat \<Rightarrow> held \<Rightarrow> int \<times> held" where
  "init_iovers f i 0 h = (0, h)"
| "init_iovers f i (Suc n) h = (if f i \<noteq> 0 then (f i, h) else init_iovers f (Suc i) n (R_iover i # h))"

text \<open>A log is created when its name is given.\<close>

definition create_log :: "string \<Rightarrow> int \<Rightarrow> resource \<Rightarrow> held \<Rightarrow> int \<times> held" where
  "create_log name res r h = (if name = [] then (0, h) else if res \<noteq> 0 then (res, h) else (0, r # h))"

text \<open>
  The error log is opened and put in the place of the standard error output. When it cannot be
  opened, \<open>dup2\<close> fails, too, and the program goes on.
\<close>

definition open_errorlog :: "string \<Rightarrow> int \<Rightarrow> held \<Rightarrow> held" where
  "open_errorlog name fd h = (if name = [] \<or> fd < 0 then h else R_errorlog # h)"

definition prepare_power :: "prepare_env \<Rightarrow> global_params \<Rightarrow> held \<Rightarrow> int \<times> held" where
  "prepare_power env gp h =
     (if gp_spor_level gp \<ge> 2 then if pe_powerctl env < 0 then (- 1, h) else (0, R_powerctl # h) else (0, h))"

text \<open>The part of \<open>prepare\<close> after the display: the logs, the power controller and the accounts.\<close>

definition prepare_logs :: "prepare_env \<Rightarrow> global_params \<Rightarrow> nat \<Rightarrow> held \<Rightarrow> (int \<times> held) res" where
  "prepare_logs env gp n h =
     (let (res, h) = create_log (gp_iolog gp) (pe_iolog env) R_iolog h in
      if res \<noteq> 0 then Inr (res, iolog_create_fail n h) else
      let (res, h) = create_log (gp_smartlog gp) (pe_smartlog env) R_smartlog h in
      if res \<noteq> 0 then bnd (smartlog_create_fail n h) (\<lambda>h. Inr (res, h)) else
      let h = open_errorlog (gp_errorlog gp) (pe_errorlog env) h in
      let (res, h) = create_log (gp_iotrace gp) (pe_iotrace env) R_iotrace h in
      if res \<noteq> 0 then bnd (iotrace_create_fail n h) (\<lambda>h. Inr (res, h)) else
      let (res, h) = prepare_power env gp h in
      if res \<noteq> 0 then bnd (powerctl_init_fail n h) (\<lambda>h. Inr (res, h)) else
      if pe_accts env \<noteq> 0 then bnd (alloc_accts_fail n h) (\<lambda>h. Inr (pe_accts env, h)) else
      Inr (0, R_accts # h))"

text \<open>
  The result and the resources held afterwards. The result is still zero when the verifiers cannot be
  allocated. Without memory for the smart log the buffer that is cleared is the null pointer.
\<close>

definition prepare :: "prepare_env \<Rightarrow> global_params \<Rightarrow> nat \<Rightarrow> held \<Rightarrow> (int \<times> held) res" where
  "prepare env gp n h =
     (if \<not> pe_iovers env then Inr (0, h) else
      let (res, h) = init_iovers (pe_iover_init env) 0 n (R_iovers # h) in
      if res \<noteq> 0 then Inr (res, iover_init_fail h) else
      if pe_iogen_init env \<noteq> 0 then Inr (pe_iogen_init env, iogen_init_fail n h) else
      let h = R_iogen # h in
      if pe_memalign env \<noteq> 0 then Inl Fault else
      let h = R_smart_buf # h in
      if pe_disp_init env \<noteq> 0 then Inr (pe_disp_init env, disp_init_fail n h) else
      prepare_logs env gp n (R_display # h))"

section \<open>Cleanup\<close>

definition close_logs :: "global_params \<Rightarrow> held \<Rightarrow> held res" where
  "close_logs gp h =
     bnd (if gp_iotrace gp \<noteq> [] then close_log R_iotrace h else Inr h) (\<lambda>h.
     bnd (if gp_smartlog gp \<noteq> [] then close_log R_smartlog h else Inr h) (\<lambda>h.
     if gp_iolog gp \<noteq> [] then close_log R_iolog h else Inr h))"

definition cleanup_namespace :: "global_params \<Rightarrow> nat \<Rightarrow> held \<Rightarrow> held" where
  "cleanup_namespace gp i h =
     remove1 (R_iover i) (if gp_skip_ioengine_exit gp = 0 then remove1 (R_engine i) h else h)"

definition free_rest :: "held \<Rightarrow> held" where
  "free_rest h = remove1 R_job_params (remove1 R_smart_buf (remove1 R_iovers h))"

definition cleanup :: "global_params \<Rightarrow> nat \<Rightarrow> held \<Rightarrow> held res" where
  "cleanup gp n h =
     bnd (close_logs gp h) (\<lambda>h.
     Inr (free_rest (fold (cleanup_namespace gp) [0..<n] (remove1 R_iogen (remove1 R_accts h)))))"

text \<open>
  The cleanup of a power-off test: the generator is only released up to level 2, the engines never,
  and power is switched off from level 2 on unless a signal ended the run.
\<close>

definition cleanup_spo :: "global_params \<Rightarrow> nat \<Rightarrow> int \<Rightarrow> int \<Rightarrow> held \<Rightarrow> (bool \<times> held) res" where
  "cleanup_spo gp n fd received_signal h =
     (let h = (if gp_spor_level gp \<le> 2 then remove1 R_iogen h else h);
          power_off = (gp_spor_level gp \<ge> 2 \<and> received_signal = 0) in
      bnd (close_logs gp h) (\<lambda>h.
      let h = free_rest (fold (\<lambda>i. remove1 (R_iover i)) [0..<n] (remove1 R_accts h)) in
      Inr (power_off, if fd > 0 then remove1 R_powerctl h else h)))"

section \<open>The program\<close>

text \<open>
  The surroundings of a run: the files, the registered displays, what the engines answer to
  \<open>validate\<close> and the calls of \<open>prepare\<close>, and the run itself. \<open>validate\<close> leaves an engine initialised
  for each namespace.
\<close>

record main_env =
  me_files :: "string \<Rightarrow> string option"
  me_displays :: "string \<Rightarrow> bool"
  me_validate :: "nat \<Rightarrow> validate_env"
  me_id_buf :: bool
  me_junk :: int
  me_prepare :: prepare_env
  me_run :: "global_params \<Rightarrow> (job_params \<times> nat option) list \<Rightarrow> namespace_info list \<Rightarrow> int option"
  me_aborted :: int
  me_signal :: int

text \<open>The exit code and what is still held; \<open>None\<close> is a run that never ends.\<close>

definition main_cleanup :: "main_env \<Rightarrow> global_params \<Rightarrow> nat \<Rightarrow> held \<Rightarrow> held res" where
  "main_cleanup env gp n h =
     (if gp_spor_level gp \<ge> 1 then
        let fd = (if gp_spor_level gp \<ge> 2 then pe_powerctl (me_prepare env) else - 1) in
        bnd (cleanup_spo gp n fd (me_signal env) h) (\<lambda>(off, h). Inr h)
      else cleanup gp n h)"

definition nbio_main :: "main_env \<Rightarrow> parser \<Rightarrow> string list \<Rightarrow> (int \<times> held) res option" where
  "nbio_main env parser0 argv =
     (case main_arguments argv of Usage \<Rightarrow> Some (Inr (0, []))
      | Args display debug quiet f \<Rightarrow>
          obnd (Some (parse_param (me_files env f) parser0)) (\<lambda>(res, parser).
          if res \<noteq> 0 then Some (Inr (res, []))
          else if \<not> me_displays env display then Some (Inr (- 1, [R_job_params]))
          else let gp = p_params parser in
          obnd (Some (validate (me_validate env) (me_id_buf env) (me_junk env) (p_iosize_min parser) (p_iosize_max parser)
            (gp_job_params gp))) (\<lambda>(res, nsis, jobs).
          let n = length nsis; h = map R_engine [0..<n] @ [R_job_params] in
          if res \<noteq> 0 then Some (Inr (res, h))
          else obnd (Some (prepare (me_prepare env) gp n h)) (\<lambda>(res, h).
          if res \<noteq> 0 then Some (Inr (res, h))
          else case me_run env gp jobs nsis of None \<Rightarrow> None
          | Some res \<Rightarrow>
              obnd (Some (main_cleanup env gp n h)) (\<lambda>h.
              Some (Inr (if res \<noteq> 0 then res else me_aborted env, h)))))))"

section \<open>What is held\<close>

definition holds :: "held \<Rightarrow> resource set \<Rightarrow> bool" where
  "holds h A \<longleftrightarrow> distinct h \<and> set h = A"

lemma holds_Cons: "holds h A \<Longrightarrow> r \<notin> A \<Longrightarrow> holds (r # h) (insert r A)"
  by (simp add: holds_def)

lemma holds_remove1: "holds h A \<Longrightarrow> holds (remove1 r h) (A - {r})"
  by (simp add: holds_def)

lemma holds_fold:
  assumes "holds h A" and "\<And>i h A. holds h A \<Longrightarrow> holds (f i h) (A - B i)"
  shows "holds (fold f [0..<n] h) (A - (\<Union>i < n. B i))"
proof (induction n)
  case (Suc n)
  show ?case using assms(2)[OF Suc, of n] by (simp add: lessThan_Suc Diff_Un Diff_eq Int_commute Int_left_commute Int_assoc)
qed (use assms(1) in simp)

lemma holds_iovers: "holds h A \<Longrightarrow> holds (fold (\<lambda>i. remove1 (R_iover i)) [0..<n] h) (A - R_iover ` {..<n})"
  using holds_fold[of h A "\<lambda>i. remove1 (R_iover i)" "\<lambda>i. {R_iover i}" n] holds_remove1 by (simp add: UNION_singleton_eq_range)

lemma close_log_holds: "holds h A \<Longrightarrow> r \<in> A \<Longrightarrow> \<exists>h'. close_log r h = Inr h' \<and> holds h' (A - {r})"
  by (simp add: close_log_def holds_def)

text \<open>
  The logs that the parameters ask for, the error log if it could be opened, and all that a successful
  \<open>prepare\<close> acquires.
\<close>

definition logs_of :: "global_params \<Rightarrow> resource set" where
  "logs_of gp = (if gp_iolog gp \<noteq> [] then {R_iolog} else {}) \<union> (if gp_smartlog gp \<noteq> [] then {R_smartlog} else {}) \<union>
     (if gp_iotrace gp \<noteq> [] then {R_iotrace} else {})"

definition errorlog_of :: "prepare_env \<Rightarrow> global_params \<Rightarrow> resource set" where
  "errorlog_of env gp = (if gp_errorlog gp \<noteq> [] \<and> 0 \<le> pe_errorlog env then {R_errorlog} else {})"

definition prepared :: "prepare_env \<Rightarrow> global_params \<Rightarrow> nat \<Rightarrow> resource set" where
  "prepared env gp n = {R_iovers, R_iogen, R_smart_buf, R_display, R_accts} \<union> R_iover ` {..<n} \<union> logs_of gp \<union> errorlog_of env gp \<union>
     (if gp_spor_level gp \<ge> 2 then {R_powerctl} else {})"

definition given :: "nat \<Rightarrow> resource set" where
  "given n = insert R_job_params (R_engine ` {..<n})"

lemma holds_given: "holds (map R_engine [0..<n] @ [R_job_params]) (given n)"
  by (auto simp: holds_def given_def distinct_map inj_on_def)

lemma init_iovers_holds:
  "init_iovers f i n h = (0, h') \<Longrightarrow> holds h A \<Longrightarrow> A \<inter> R_iover ` {i..} = {} \<Longrightarrow> holds h' (A \<union> R_iover ` {i..<i + n})"
proof (induction f i n h arbitrary: A rule: init_iovers.induct)
  case (2 f i n h)
  have f: "f i = 0" "init_iovers f (Suc i) n (R_iover i # h) = (0, h')" using 2(2) by (auto split: if_splits)
  have "holds (R_iover i # h) (insert (R_iover i) A)" using 2(3,4) by (intro holds_Cons) auto
  then have "holds h' (insert (R_iover i) A \<union> R_iover ` {Suc i..<Suc i + n})"
    by (rule 2(1)[rotated, OF f(2)]) (use f(1) 2(4) in auto)
  moreover have "{i..<i + Suc n} = insert i {Suc i..<Suc i + n}" by auto
  ultimately show ?case by simp
qed simp

lemma create_log_holds:
  "create_log name res r h = (0, h') \<Longrightarrow> holds h A \<Longrightarrow> r \<notin> A \<Longrightarrow> holds h' (A \<union> (if name \<noteq> [] then {r} else {}))"
  by (auto simp: create_log_def intro: holds_Cons split: if_splits)

lemma prepare_logs_holds:
  assumes "prepare_logs env gp n h = Inr (0, h')" and "holds h A"
    and "A \<inter> {R_iolog, R_smartlog, R_errorlog, R_iotrace, R_powerctl, R_accts} = {}"
  shows "holds h' (A \<union> logs_of gp \<union> errorlog_of env gp \<union> (if gp_spor_level gp \<ge> 2 then {R_powerctl} else {}) \<union> {R_accts})"
proof -
  obtain h1 h2 h3 h4 where c: "create_log (gp_iolog gp) (pe_iolog env) R_iolog h = (0, h1)"
      "create_log (gp_smartlog gp) (pe_smartlog env) R_smartlog h1 = (0, h2)"
      "create_log (gp_iotrace gp) (pe_iotrace env) R_iotrace (open_errorlog (gp_errorlog gp) (pe_errorlog env) h2) = (0, h3)"
      "prepare_power env gp h3 = (0, h4)" "h' = R_accts # h4"
    using assms(1) by (auto simp: prepare_logs_def Let_def case_prod_unfold prod_eq_iff bnd_eq_Inr split: if_splits)
  let ?B = "A \<union> (if gp_iolog gp \<noteq> [] then {R_iolog} else {})"
  let ?C = "?B \<union> (if gp_smartlog gp \<noteq> [] then {R_smartlog} else {})"
  let ?E = "?C \<union> errorlog_of env gp"
  let ?D = "?E \<union> (if gp_iotrace gp \<noteq> [] then {R_iotrace} else {})"
  have "holds h1 ?B" using assms(3) by (intro create_log_holds[OF c(1) assms(2)]) auto
  then have "holds h2 ?C" using assms(3) by (intro create_log_holds[OF c(2)]) auto
  then have "holds (open_errorlog (gp_errorlog gp) (pe_errorlog env) h2) ?E"
    using assms(3) by (auto simp: open_errorlog_def errorlog_of_def intro: holds_Cons)
  then have "holds h3 ?D" using assms(3) by (intro create_log_holds[OF c(3)]) (auto simp: errorlog_of_def)
  then have "holds h4 (?D \<union> (if gp_spor_level gp \<ge> 2 then {R_powerctl} else {}))"
    using c(4) assms(3) by (auto simp: prepare_power_def errorlog_of_def intro: holds_Cons split: if_splits)
  then have "holds h' (insert R_accts (?D \<union> (if gp_spor_level gp \<ge> 2 then {R_powerctl} else {})))"
    using assms(3) unfolding c(5) by (intro holds_Cons) (auto simp: errorlog_of_def)
  moreover have "insert R_accts (?D \<union> (if gp_spor_level gp \<ge> 2 then {R_powerctl} else {})) =
      A \<union> logs_of gp \<union> errorlog_of env gp \<union> (if gp_spor_level gp \<ge> 2 then {R_powerctl} else {}) \<union> {R_accts}"
    by (simp add: logs_of_def Un_ac)
  ultimately show ?thesis by simp
qed

lemma prepare_fresh:
  "insert R_display (insert R_smart_buf (insert R_iogen (insert R_iovers (given n) \<union> R_iover ` {0..<0 + n}))) \<inter>
   {R_iolog, R_smartlog, R_errorlog, R_iotrace, R_powerctl, R_accts} = {}"
  by (auto simp: given_def)

lemma logs_of_sub: "logs_of gp \<subseteq> {R_iolog, R_smartlog, R_iotrace}"
  by (simp add: logs_of_def)

lemma prepare_holds:
  assumes "prepare env gp n h = Inr (0, h')" and "pe_iovers env" and "holds h (given n)"
  shows "holds h' (given n \<union> prepared env gp n)"
proof -
  obtain h1 where i: "init_iovers (pe_iover_init env) 0 n (R_iovers # h) = (0, h1)"
      and l: "prepare_logs env gp n (R_display # R_smart_buf # R_iogen # h1) = Inr (0, h')"
    using assms(1,2) by (auto simp: prepare_def Let_def case_prod_unfold prod_eq_iff split: if_splits)
  have "holds (R_iovers # h) (insert R_iovers (given n))" using assms(3) by (intro holds_Cons) (auto simp: given_def)
  then have "holds h1 (insert R_iovers (given n) \<union> R_iover ` {0..<0 + n})"
    by (rule init_iovers_holds[OF i]) (auto simp: given_def)
  then have "holds (R_display # R_smart_buf # R_iogen # h1)
      (insert R_display (insert R_smart_buf (insert R_iogen (insert R_iovers (given n) \<union> R_iover ` {0..<0 + n}))))"
    by (intro holds_Cons) (auto simp: given_def)
  from prepare_logs_holds[OF l this prepare_fresh] have "holds h' ((insert R_display (insert R_smart_buf (insert R_iogen
      (insert R_iovers (given n) \<union> R_iover ` {0..<0 + n})))) \<union> logs_of gp \<union> errorlog_of env gp \<union>
      (if gp_spor_level gp \<ge> 2 then {R_powerctl} else {}) \<union> {R_accts})" .
  then show ?thesis unfolding prepared_def lessThan_atLeast0 by (simp add: insert_commute Un_ac)
qed

lemma close_logs_holds:
  assumes "holds h A" and "logs_of gp \<subseteq> A"
  shows "\<exists>h'. close_logs gp h = Inr h' \<and> holds h' (A - logs_of gp)"
proof -
  have c: "\<exists>h'. (if name \<noteq> [] then close_log r h else Inr h) = Inr h' \<and> holds h' (A - (if name \<noteq> [] then {r} else {}))"
    if "holds h A" "name \<noteq> [] \<Longrightarrow> r \<in> A" for name :: string and r h A
    using that close_log_holds[of h A r] by auto
  let ?A1 = "A - (if gp_iotrace gp \<noteq> [] then {R_iotrace} else {})"
  let ?A2 = "?A1 - (if gp_smartlog gp \<noteq> [] then {R_smartlog} else {})"
  have m: "gp_iotrace gp \<noteq> [] \<Longrightarrow> R_iotrace \<in> A" "gp_smartlog gp \<noteq> [] \<Longrightarrow> R_smartlog \<in> ?A1" "gp_iolog gp \<noteq> [] \<Longrightarrow> R_iolog \<in> ?A2"
    using assms(2) by (simp_all add: logs_of_def)
  obtain h1 where 1: "(if gp_iotrace gp \<noteq> [] then close_log R_iotrace h else Inr h) = Inr h1" "holds h1 ?A1"
    using c[OF assms(1) m(1)] by blast
  obtain h2 where 2: "(if gp_smartlog gp \<noteq> [] then close_log R_smartlog h1 else Inr h1) = Inr h2" "holds h2 ?A2"
    using c[OF 1(2) m(2)] by blast
  obtain h3 where 3: "(if gp_iolog gp \<noteq> [] then close_log R_iolog h2 else Inr h2) = Inr h3"
      "holds h3 (?A2 - (if gp_iolog gp \<noteq> [] then {R_iolog} else {}))"
    using c[OF 2(2) m(3)] by blast
  have "?A2 - (if gp_iolog gp \<noteq> [] then {R_iolog} else {}) = A - logs_of gp" by (auto simp: logs_of_def)
  then show ?thesis using 1(1) 2(1) 3 by (simp add: close_logs_def)
qed

lemma cleanup_namespace_holds:
  "holds h A \<Longrightarrow> holds (cleanup_namespace gp i h) (A - ({R_iover i} \<union> (if gp_skip_ioengine_exit gp = 0 then {R_engine i} else {})))"
  unfolding cleanup_namespace_def holds_def by auto

lemma prepare_powered:
  assumes "prepare env gp n h = Inr (0, h')" and "pe_iovers env" and "gp_spor_level gp \<ge> 2"
  shows "0 \<le> pe_powerctl env"
  using assms by (auto simp: prepare_def prepare_logs_def prepare_power_def Let_def case_prod_unfold prod_eq_iff bnd_eq_Inr
      split: if_splits)

lemma cleanup_holds:
  assumes h: "holds h (given n \<union> prepared env gp n)" and z: "gp_spor_level gp = 0"
  shows "\<exists>h'. cleanup gp n h = Inr h' \<and> set h' = {R_display} \<union> errorlog_of env gp \<union>
    (if gp_skip_ioengine_exit gp \<noteq> 0 then R_engine ` {..<n} else {})"
proof -
  let ?P = "given n \<union> prepared env gp n"
  let ?N = "\<Union>i < n. {R_iover i} \<union> (if gp_skip_ioengine_exit gp = 0 then {R_engine i} else {})"
  obtain h1 where c: "close_logs gp h = Inr h1" "holds h1 (?P - logs_of gp)"
    using close_logs_holds[OF h] by (auto simp: prepared_def)
  have "holds (fold (cleanup_namespace gp) [0..<n] (remove1 R_iogen (remove1 R_accts h1)))
      (?P - logs_of gp - {R_accts} - {R_iogen} - ?N)"
    by (intro holds_fold holds_remove1 c(2) cleanup_namespace_holds)
  from holds_remove1[OF holds_remove1[OF holds_remove1[OF this]], of R_job_params R_smart_buf R_iovers]
  have "set (free_rest (fold (cleanup_namespace gp) [0..<n] (remove1 R_iogen (remove1 R_accts h1)))) =
      ?P - logs_of gp - {R_accts} - {R_iogen} - ?N - {R_iovers} - {R_smart_buf} - {R_job_params}"
    by (simp add: holds_def free_rest_def)
  also have "\<dots> = {R_display} \<union> errorlog_of env gp \<union> (if gp_skip_ioengine_exit gp \<noteq> 0 then R_engine ` {..<n} else {})"
    using z logs_of_sub[of gp] unfolding given_def prepared_def errorlog_of_def by auto
  finally show ?thesis by (simp add: cleanup_def c(1))
qed

lemma cleanup_spo_holds:
  assumes h: "holds h (given n \<union> prepared env gp n)" and fd: "fd > 0 \<Longrightarrow> gp_spor_level gp \<ge> 2"
  shows "\<exists>h'. cleanup_spo gp n fd sig h = Inr (gp_spor_level gp \<ge> 2 \<and> sig = 0, h') \<and>
    set h' = {R_display} \<union> errorlog_of env gp \<union> R_engine ` {..<n} \<union> (if gp_spor_level gp \<ge> 3 then {R_iogen} else {}) \<union>
      (if gp_spor_level gp \<ge> 2 \<and> \<not> fd > 0 then {R_powerctl} else {})"
proof -
  let ?P = "given n \<union> prepared env gp n"
  let ?G = "if gp_spor_level gp \<le> 2 then {R_iogen} else {}" and ?F = "if fd > 0 then {R_powerctl} else {}"
  have "holds (if gp_spor_level gp \<le> 2 then remove1 R_iogen h else h) (?P - ?G)" using h holds_remove1 by simp
  moreover have "logs_of gp \<subseteq> ?P - ?G" by (auto simp: prepared_def logs_of_def)
  ultimately obtain h1 where c: "close_logs gp (if gp_spor_level gp \<le> 2 then remove1 R_iogen h else h) = Inr h1"
      "holds h1 (?P - ?G - logs_of gp)"
    using close_logs_holds by blast
  let ?h = "free_rest (fold (\<lambda>i. remove1 (R_iover i)) [0..<n] (remove1 R_accts h1))"
  have "holds (fold (\<lambda>i. remove1 (R_iover i)) [0..<n] (remove1 R_accts h1)) (?P - ?G - logs_of gp - {R_accts} - R_iover ` {..<n})"
    by (intro holds_iovers holds_remove1 c(2))
  from holds_remove1[OF holds_remove1[OF holds_remove1[OF this]], of R_job_params R_smart_buf R_iovers]
  have "holds ?h (?P - ?G - logs_of gp - {R_accts} - R_iover ` {..<n} - {R_iovers} - {R_smart_buf} - {R_job_params})"
    by (simp add: free_rest_def)
  then have s: "set (if fd > 0 then remove1 R_powerctl ?h else ?h) =
      ?P - ?G - logs_of gp - {R_accts} - R_iover ` {..<n} - {R_iovers} - {R_smart_buf} - {R_job_params} - ?F"
    by (simp add: holds_def)
  have lv: "gp_spor_level gp \<le> 2 \<longleftrightarrow> \<not> gp_spor_level gp \<ge> 3" "gp_spor_level gp \<ge> 3 \<Longrightarrow> gp_spor_level gp \<ge> 2"
    by unat_arith+
  have "?P - ?G - logs_of gp - {R_accts} - R_iover ` {..<n} - {R_iovers} - {R_smart_buf} - {R_job_params} - ?F =
      {R_display} \<union> errorlog_of env gp \<union> R_engine ` {..<n} \<union> (if gp_spor_level gp \<ge> 3 then {R_iogen} else {}) \<union>
      (if gp_spor_level gp \<ge> 2 \<and> \<not> fd > 0 then {R_powerctl} else {})"
    using logs_of_sub[of gp] lv fd unfolding given_def prepared_def errorlog_of_def by auto
  then show ?thesis using s by (simp add: cleanup_spo_def c(1) Let_def)
qed

text \<open>C12: what is held when the program ends. After \<open>validate\<close> has initialised the engines and
  \<open>prepare\<close> has succeeded, the cleanup at the end of \<open>main\<close> never closes a log that is not open and
  releases everything but: the display, whose \<open>exit\<close> is not called on this path; the error log, which is
  never closed; the engines in a power-off test or when \<open>skip_ioengine_exit\<close> is set; the generator at
  level 3; and a power controller on descriptor 0, which is taken for none.
\<close>

theorem cleanup_releases:
  assumes "prepare (me_prepare env) gp n (map R_engine [0..<n] @ [R_job_params]) = Inr (0, h)" and "pe_iovers (me_prepare env)"
  shows "\<exists>h'. main_cleanup env gp n h = Inr h' \<and> set h' =
    {R_display} \<union> errorlog_of (me_prepare env) gp \<union>
    (if gp_spor_level gp \<ge> 1 \<or> gp_skip_ioengine_exit gp \<noteq> 0 then R_engine ` {..<n} else {}) \<union>
    (if gp_spor_level gp \<ge> 3 then {R_iogen} else {}) \<union>
    (if gp_spor_level gp \<ge> 2 \<and> pe_powerctl (me_prepare env) = 0 then {R_powerctl} else {})"
proof -
  have h: "holds h (given n \<union> prepared (me_prepare env) gp n)" by (rule prepare_holds[OF assms holds_given])
  show ?thesis
  proof (cases "gp_spor_level gp \<ge> 1")
    case False
    then have "gp_spor_level gp = 0" by unat_arith
    then show ?thesis using cleanup_holds[OF h] by (simp add: main_cleanup_def)
  next
    case True
    let ?fd = "if gp_spor_level gp \<ge> 2 then pe_powerctl (me_prepare env) else - 1"
    have "gp_spor_level gp \<ge> 2 \<Longrightarrow> 0 \<le> pe_powerctl (me_prepare env)" by (rule prepare_powered[OF assms])
    then have "gp_spor_level gp \<ge> 2 \<and> \<not> ?fd > 0 \<longleftrightarrow> gp_spor_level gp \<ge> 2 \<and> pe_powerctl (me_prepare env) = 0" by auto
    then show ?thesis
      using cleanup_spo_holds[OF h, of ?fd "me_signal env"] True unfolding main_cleanup_def by (auto split: if_splits)
  qed
qed

text \<open>A power-off test of level 2 on two namespaces with an I/O log and an error log, in which every call succeeds.\<close>

definition sample_prepare :: prepare_env where
  "sample_prepare = \<lparr>pe_iovers = True, pe_iover_init = (\<lambda>_. 0), pe_iogen_init = 0, pe_memalign = 0, pe_disp_init = 0,
     pe_iolog = 0, pe_smartlog = 0, pe_errorlog = 6, pe_iotrace = 0, pe_powerctl = 5, pe_accts = 0\<rparr>"

definition sample_main :: main_env where
  "sample_main = \<lparr>me_files = (\<lambda>_. None), me_displays = (\<lambda>_. True), me_validate = (\<lambda>_. sample_venv), me_id_buf = True, me_junk = 0,
     me_prepare = sample_prepare, me_run = (\<lambda>_ _ _. Some 0), me_aborted = 0, me_signal = 0\<rparr>"

definition sample_gp :: global_params where
  "sample_gp = global_params_zero\<lparr>gp_iolog := ''io.csv'', gp_errorlog := ''errors'', gp_spor_level := 2\<rparr>"

definition sample_held :: held where
  "sample_held = [R_accts, R_powerctl, R_errorlog, R_iolog, R_display, R_smart_buf, R_iogen, R_iover 1, R_iover 0, R_iovers,
     R_engine 0, R_engine 1, R_job_params]"

theorem cleanup_releases_witness:
  "\<exists>h'. main_cleanup sample_main sample_gp 2 sample_held = Inr h' \<and>
     set h' = {R_display, R_errorlog, R_engine 0, R_engine 1}"
proof -
  have "prepare sample_prepare sample_gp 2 (map R_engine [0..<2] @ [R_job_params]) = Inr (0, sample_held)" by code_simp
  moreover have "gp_spor_level sample_gp = 2" "gp_errorlog sample_gp \<noteq> []" "pe_errorlog sample_prepare = 6"
    "pe_powerctl sample_prepare = 5" by code_simp+
  moreover have "R_engine ` {..<2} = {R_engine 0, R_engine 1}" by (auto simp: numeral_2_eq_2 lessThan_Suc)
  ultimately show ?thesis
    using cleanup_releases[of sample_main sample_gp 2 sample_held]
    by (simp add: sample_main_def errorlog_of_def sample_prepare_def insert_commute)
qed

text \<open>Verifiers that can all be initialised.\<close>

lemma init_iovers_all: "(\<And>i. f i = 0) \<Longrightarrow> \<exists>h'. init_iovers f i n h = (0, h')"
  by (induction n arbitrary: i h) auto

text \<open>an error path of \<open>prepare\<close> closes logs that were never opened. When no I/O log is asked for and the
  smart log cannot be created, the path closes the writer of the I/O log, whose file is the null
  pointer, instead of returning the error.
\<close>

theorem prepare_closes_unopened:
  assumes "pe_iovers env" and "\<And>i. pe_iover_init env i = 0" and "pe_iogen_init env = 0" and "pe_memalign env = 0"
    and "pe_disp_init env = 0" and "gp_iolog gp = []" and "gp_smartlog gp \<noteq> []" and "pe_smartlog env \<noteq> 0"
  shows "prepare env gp n (map R_engine [0..<n] @ [R_job_params]) = Inl Fault"
proof -
  let ?h = "map R_engine [0..<n] @ [R_job_params]"
  obtain h1 where i: "init_iovers (pe_iover_init env) 0 n (R_iovers # ?h) = (0, h1)"
    using init_iovers_all[of "pe_iover_init env"] assms(2) by blast
  have "holds (R_iovers # ?h) (insert R_iovers (given n))" by (intro holds_Cons holds_given) (auto simp: given_def)
  then have "holds h1 (insert R_iovers (given n) \<union> R_iover ` {0..<0 + n})"
    by (rule init_iovers_holds[OF i]) (auto simp: given_def)
  then have "R_iolog \<notin> set h1" by (auto simp: holds_def given_def)
  then show ?thesis using assms i
    by (simp add: prepare_def prepare_logs_def create_log_def smartlog_create_fail_def close_log_def)
qed

theorem prepare_closes_unopened_witness:
  "prepare (sample_prepare\<lparr>pe_smartlog := - 1\<rparr>) (global_params_zero\<lparr>gp_smartlog := ''smart.csv''\<rparr>) 1
     (map R_engine [0..<1] @ [R_job_params]) = Inl Fault"
  by (rule prepare_closes_unopened) (simp_all add: sample_prepare_def global_params_zero_def)

end
