(* ===== verification/Log.thy ===== *)
theory Log
  imports Report ParserConv
begin

text \<open>
  The i/o log and the i/o trace (\<open>nbio/log.c\<close>), as the lines that are written: a heading with six columns
  per job, a line of reported differences per second, and a line per traced request.
\<close>

section \<open>The i/o log\<close>

record iolog_writer =
  io_njobs :: nat
  io_timestamp :: u64

definition iolog_columns :: "string \<Rightarrow> string list" where
  "iolog_columns name = map (\<lambda>s. name @ s)
     ['' read throughput'', '' read iops'', '' read latency'', '' write throughput'', '' write iops'', '' write latency'']"

text \<open>The writer and the first line; \<open>opened\<close> tells whether the file could be opened.\<close>

definition iolog_create :: "bool \<Rightarrow> string list \<Rightarrow> int \<times> iolog_writer \<times> string list" where
  "iolog_create opened names =
     (let w = \<lparr>io_njobs = length names, io_timestamp = 0\<rparr> in
      if opened then (0, w, ''timestamp'' # concat (map iolog_columns names)) else (- 1, w, []))"

abbreviation u64_text :: "u64 \<Rightarrow> string" where
  "u64_text w \<equiv> decimal_text (unat w)"

text \<open>Bytes, operations and the mean latency in microseconds of one operation.\<close>

definition op_columns :: "opacct \<Rightarrow> string list" where
  "op_columns op =
     [u64_text (oa_bytes op), u64_text (oa_ops op),
      if oa_ops op \<noteq> 0 then u64_text (la_sum (oa_latency op) div oa_ops op div 1000) else ''0'']"

definition acct_columns :: "ioacct \<Rightarrow> string list res" where
  "acct_columns acct =
     bnd (arr_get (ia_ops acct) (bio_opcode_num bio_read)) (\<lambda>r.
     bnd (arr_get (ia_ops acct) (bio_opcode_num bio_write)) (\<lambda>w.
     Inr (op_columns r @ op_columns w)))"

text \<open>Entry 0 of the accounts, the summary, is not logged.\<close>

definition append_job :: "ioacct list \<Rightarrow> nat \<Rightarrow> string list \<Rightarrow> string list res" where
  "append_job accts job_idx cols =
     bnd (arr_get accts (job_idx + 1)) (\<lambda>acct. bnd (acct_columns acct) (\<lambda>c. Inr (cols @ c)))"

definition iolog_append :: "iolog_writer \<Rightarrow> ioacct list \<Rightarrow> (iolog_writer \<times> string list) res" where
  "iolog_append w accts =
     (let w = w\<lparr>io_timestamp := io_timestamp w + 1\<rparr> in
      bnd (for_upto 0 (io_njobs w) (append_job accts) [u64_text (io_timestamp w)]) (\<lambda>cols. Inr (w, cols)))"

text \<open>The file text of a line.\<close>

fun line_text :: "string list \<Rightarrow> string" where
  "line_text [] = [CHR 0x0A]"
| "line_text [c] = c @ [CHR 0x0A]"
| "line_text (c # cs) = c @ '', '' @ line_text cs"

section \<open>The i/o trace\<close>

definition hex_digit :: "nat \<Rightarrow> char" where
  "hex_digit n = (if n < 10 then char_of (48 + n) else char_of (87 + n))"

definition hex_byte :: "u8 \<Rightarrow> string" where
  "hex_byte b = [hex_digit (unat b div 16), hex_digit (unat b mod 16)]"

text \<open>Operation, first block, number of blocks and the first twelve bytes of the data in groups of four.\<close>

definition iotrace_append :: "bio \<Rightarrow> string res" where
  "iotrace_append bio =
     bnd (mem_read (b_data bio) 0 12) (\<lambda>d.
     Inr ((if b_opcode bio = bio_read then ''r'' else ''w'') @ '' '' @ u64_text (b_slba bio) @ '' '' @
          decimal_text (unat (b_nlbs bio)) @ '' '' @ concat (map hex_byte (take 4 d)) @ '' '' @
          concat (map hex_byte (take 4 (drop 4 d))) @ '' '' @ concat (map hex_byte (drop 8 d)) @ [CHR 0x0A]))"

section \<open>Heading and lines\<close>

text \<open>Every line has the columns of the heading, numbered by the time stamp.\<close>

lemma iolog_columns_agree:
  assumes "iolog_create True names = (r, w, heading)" and "snap_ok (length names) jobs"
    and "io_njobs w' = io_njobs w"
  shows "\<exists>w2 cols. iolog_append w' (s # jobs) = Inr (w2, cols) \<and> length cols = length heading \<and>
    io_timestamp w2 = io_timestamp w' + 1 \<and> io_njobs w2 = io_njobs w'"
proof -
  have n: "io_njobs w' = length jobs" using assms by (auto simp: iolog_create_def snap_ok_def)
  have h: "length heading = 1 + 6 * length jobs"
    using assms(1,2) by (auto simp: iolog_create_def snap_ok_def length_concat iolog_columns_def o_def sum_list_triv)
  let ?c = "[u64_text (io_timestamp w' + 1)]"
  have "\<exists>cols. for_upto 0 (io_njobs w') (append_job (s # jobs)) ?c = Inr cols \<and> length cols = 1 + 6 * (0 + io_njobs w')"
  proof (rule for_upto_rule[where P = "\<lambda>j cols. length cols = 1 + 6 * j"])
    fix j and cols :: "string list" assume j: "0 \<le> j" "j < 0 + io_njobs w'" and l: "length cols = 1 + 6 * j"
    have "length (ia_ops (jobs ! j)) = bio_max" using assms(2) j n by (auto simp: snap_ok_def acct_ok_def)
    then show "\<exists>cols'. append_job (s # jobs) j cols = Inr cols' \<and> length cols' = 1 + 6 * Suc j"
      using j n l by (simp add: append_job_def acct_columns_def op_columns_def bio_max_def)
  qed simp
  then show ?thesis using h n by (auto simp: iolog_append_def Let_def)
qed

end
