(* ===== verification/Display.thy ===== *)
theory Display
  imports Report
begin

text \<open>
  The two displays of the program (\<open>disp/standalone.c\<close>, \<open>disp/testcase.c\<close>, \<open>ansi_escape.h\<close>): what they
  print of the accounts every second and in the final report. The output is the list of calls of
  \<open>printf\<close>, each with its format and its arguments. Floating point is used for the percentages
  only: the thresholds of the percentiles are an argument, and a percentage that is printed is
  given by the numbers it is computed from.
\<close>

section \<open>Output\<close>

datatype disp_arg =
    ArgU u64
  | ArgI int
  | ArgS string
  | Seconds u64
  | Percentage nat
  | Share u64 u64

type_synonym disp_out = "(string \<times> disp_arg list) list"

definition AE_SAVE_CURSOR :: string where "AE_SAVE_CURSOR = CHR 0x1B # ''[s''"
definition AE_RESTORE_CURSOR :: string where "AE_RESTORE_CURSOR = CHR 0x1B # ''[u''"
definition AE_MOVE_UP_CURSOR :: string where "AE_MOVE_UP_CURSOR = CHR 0x1B # ''[%dA''"
definition AE_CLEAR_EOL :: string where "AE_CLEAR_EOL = CHR 0x1B # ''[K''"
definition AE_CLEAR_LINE :: string where "AE_CLEAR_LINE = CHR 0x1B # ''[2K''"

definition newline :: string where "newline = [CHR 0x0A]"

section \<open>Numbers with a unit\<close>

definition metrics :: "string list" where
  "metrics = ['''', ''K'', ''M'', ''G'', ''T'', ''P'']"

text \<open>The loop of \<open>n\<close> rounds from \<open>i\<close> on; the threshold is a tenth of the square of the unit.\<close>

fun human_loop :: "u64 \<Rightarrow> u64 \<Rightarrow> nat \<Rightarrow> nat \<Rightarrow> u64 \<Rightarrow> nat \<times> u64" where
  "human_loop unit threshold i 0 num = (i, num)"
| "human_loop unit threshold i (Suc n) num =
     (if num < threshold then (i, num) else human_loop unit threshold (Suc i) n (num div unit))"

definition human_threshold :: "u64 \<Rightarrow> u64" where
  "human_threshold kilo_unit = kilo_unit * kilo_unit * 10 div 100"

definition to_human_readable :: "u64 \<Rightarrow> u64 \<Rightarrow> u64 \<times> string" where
  "to_human_readable sz kilo_unit =
     (let (i, num) = human_loop kilo_unit (human_threshold kilo_unit) 0 5 sz in (num, metrics ! i))"

text \<open>\<open>testcase.c\<close> has its own copy, and one for microseconds.\<close>

definition size_to_human_readable :: "u64 \<Rightarrow> u64 \<Rightarrow> u64 \<times> string" where
  "size_to_human_readable sz kilo_unit =
     (let (i, num) = human_loop kilo_unit (human_threshold kilo_unit) 0 5 sz in (num, metrics ! i))"

definition time_to_human_readable :: "u64 \<Rightarrow> u64 \<times> string" where
  "time_to_human_readable us =
     (let (i, num) = human_loop 1000 100000 0 2 us in (num, [''us'', ''ms'', ''s''] ! i))"

section \<open>The line of every second\<close>

definition op_strings :: "string list" where
  "op_strings = [''READ'', ''WRITE'', ''FLUSH'', ''DEALLOCATE'', ''WRITE ZEROES'', ''WRITE UNCORRECT'']"

definition mean_latency :: "opacct \<Rightarrow> u64" where
  "mean_latency a = (if oa_ops a > 0 then la_sum (oa_latency a) div oa_ops a else 0)"

definition print_io_acct :: "opacct \<Rightarrow> disp_out" where
  "print_io_acct a =
     (if oa_ops a = 0 then [(''-'', [])]
      else let (num, metric) = to_human_readable (oa_bytes a) 1024;
               (num2, metric2) = to_human_readable (oa_ops a) 1000 in
        [(''%'' @ [CHR 0x27] @ ''6llu%sB'', [ArgU num, ArgS metric]),
         (''/%'' @ [CHR 0x27] @ ''6llu%s'', [ArgU num2, ArgS metric2]),
         (''/%'' @ [CHR 0x27] @ ''3lluus'', [ArgU (mean_latency a div 1000)])])"

text \<open>
  The loop over the operations, in both displays: one that has completed requests is shown with
  its name, which is looked up in a table of six.
\<close>

definition show_op ::
  "string list \<Rightarrow> string \<Rightarrow> (opacct \<Rightarrow> disp_out) \<Rightarrow> ioacct \<Rightarrow> nat \<Rightarrow> disp_out \<Rightarrow> disp_out res" where
  "show_op names format show_acct acct op_idx out =
     bnd (arr_get (ia_ops acct) op_idx) (\<lambda>a.
     if oa_ops a > 0
     then bnd (arr_get names op_idx) (\<lambda>name. Inr (out @ [(format, [ArgS name])] @ show_acct a @ [('']'', [])]))
     else Inr out)"

definition show_ops ::
  "string list \<Rightarrow> string \<Rightarrow> (opacct \<Rightarrow> disp_out) \<Rightarrow> ioacct \<Rightarrow> disp_out \<Rightarrow> disp_out res" where
  "show_ops names format show_acct acct out = for_upto 0 bio_max (show_op names format show_acct acct) out"

definition print_sum_acct :: "iogen \<Rightarrow> u32 \<Rightarrow> ioacct \<Rightarrow> disp_out res" where
  "print_sum_acct ig eta acct =
     (let num_running_jobs = popcount (ig_running_job_mask ig);
          out = [(AE_CLEAR_LINE, []),
                 (CHR 0x0D # '' %u/%u jobs running    '', [ArgU (of_nat num_running_jobs), ArgU (ucast (ig_njobs ig))])] in
      bnd (if num_running_jobs > 1 then show_ops op_strings '' [%s '' print_io_acct acct out else Inr out) (\<lambda>out.
      Inr (out @ (if eta \<noteq> U32_MAX
                  then [(''(eta %02um:%02us)'', [ArgU (ucast (eta div 60)), ArgU (ucast (eta mod 60))])] else []))))"

definition state_text :: "iogen_job_state \<Rightarrow> string option" where
  "state_text st =
     (case st of
        iogen_job_state_done \<Rightarrow> Some '' (done)''
      | iogen_job_state_aborted \<Rightarrow> Some '' (aborted)''
      | iogen_job_state_waiting \<Rightarrow> Some '' (waiting)''
      | iogen_job_state_reset \<Rightarrow> Some '' (reset)''
      | _ \<Rightarrow> None)"

text \<open>The branch before a job is two characters of three bytes each.\<close>

definition job_format :: "bool \<Rightarrow> string" where
  "job_format last_job =
     [CHR 0x0D, CHR 0x20, CHR 0xE2, CHR 0x94, if last_job then CHR 0x94 else CHR 0x9C, CHR 0xE2, CHR 0x94, CHR 0x80]
     @ '' %d.%-15s''"

definition print_job_acct :: "u32 \<Rightarrow> iogen_job \<Rightarrow> ioacct \<Rightarrow> disp_out res" where
  "print_job_acct njobs job acct =
     (let out = [(AE_CLEAR_LINE, []),
        (job_format (\<not> j_id job < njobs), [ArgI (uint (j_id job)), ArgS (j_display_name job)])] in
      case state_text (j_state job) of
        Some t \<Rightarrow> Inr (out @ [(t, [])])
      | None \<Rightarrow> show_ops op_strings '' [%s '' print_io_acct acct out)"

text \<open>\<open>ctx\<close> tells whether there was an update before.\<close>

definition standalone_disp_init :: "int \<times> bool" where
  "standalone_disp_init = (0, False)"

definition show_job :: "iogen \<Rightarrow> iogen_job list \<Rightarrow> ioacct list \<Rightarrow> nat \<Rightarrow> disp_out \<Rightarrow> disp_out res" where
  "show_job ig jobs accts job_idx out =
     bnd (arr_get jobs job_idx) (\<lambda>job.
     bnd (arr_get accts (job_idx + 1)) (\<lambda>acct.
     bnd (print_job_acct (ig_njobs ig) job acct) (\<lambda>o1. Inr (out @ [(newline, [])] @ o1))))"

definition standalone_disp_update ::
  "iogen \<Rightarrow> iogen_job list \<Rightarrow> timespec \<Rightarrow> bool \<Rightarrow> ioacct list \<Rightarrow> (bool \<times> disp_out) res" where
  "standalone_disp_update ig jobs now ctx accts =
     (let out = (if ctx then [(AE_MOVE_UP_CURSOR, [ArgU (ucast (ig_njobs ig))])] else []) in
      bnd (arr_get accts 0) (\<lambda>acct.
      bnd (print_sum_acct ig (iogen_eta now jobs) acct) (\<lambda>o1.
      bnd (for_upto 0 (unat (ig_njobs ig)) (show_job ig jobs accts) (out @ o1)) (\<lambda>out.
      Inr (True, out)))))"

section \<open>The final report\<close>

text \<open>A run shorter than the clock can tell divides by zero.\<close>

definition report_opacct :: "opacct \<Rightarrow> u64 \<Rightarrow> disp_out res" where
  "report_opacct a elapsed_time_ns =
     (if elapsed_time_ns = 0 then Inl Fault else
      let (num, metric) = to_human_readable (oa_bytes a) 1024;
          (num2, metric2) = to_human_readable (oa_ops a) 1000;
          (num3, metric3) = to_human_readable (oa_bytes a * NSEC_PER_SEC div elapsed_time_ns) 1024;
          (num4, metric4) = to_human_readable (oa_ops a * NSEC_PER_SEC div elapsed_time_ns) 1000 in
      Inr [(''amount=%llu%sB'', [ArgU num, ArgS metric]),
           (''(%llu%sio)'', [ArgU num2, ArgS metric2]),
           ('', throughput=%llu%sB/s'', [ArgU num3, ArgS metric3]),
           ('', iops=%llu%s'' @ newline, [ArgU num4, ArgS metric4])])"

definition report_lat_acct_stat :: "opacct \<Rightarrow> disp_out" where
  "report_lat_acct_stat a =
     [(''avg=%llu, min=%llu, max=%llu'' @ newline,
       [ArgU (mean_latency a div 1000), ArgU (la_min (oa_latency a) div 1000), ArgU (la_max (oa_latency a) div 1000)])]"

text \<open>
  The loop over the percentiles: \<open>quotas\<close> are the values of \<open>(u64)(ops * percent)\<close> that are still
  to be reached, \<open>k\<close> the number of percentiles printed so far. A bucket is divided by its count.
\<close>

function percentile_loop ::
  "latency_acct_bucket list \<Rightarrow> u64 list \<Rightarrow> nat \<Rightarrow> nat \<Rightarrow> u64 \<Rightarrow> disp_out \<Rightarrow> disp_out res" where
  "percentile_loop buckets [] k bucket_idx cnt out = Inr out"
| "percentile_loop buckets (q # quotas) k bucket_idx cnt out =
     (if q \<le> cnt then
        if bucket_idx = 0 then Inl Fault else
        bnd (arr_get buckets (bucket_idx - 1)) (\<lambda>b.
        if lb_count b = 0 then Inl Fault else
        percentile_loop buckets quotas (Suc k) bucket_idx cnt
          (out @ (if k = 0 then [] else [('', '', [])])
               @ [(''%lg%%=[%5llu]'', [Percentage k, ArgU (lb_sum b div lb_count b div 1000)])]))
      else
        bnd (arr_get buckets bucket_idx) (\<lambda>b.
        percentile_loop buckets (q # quotas) k (bucket_idx + 1) (cnt + lb_count b) out))"
  by pat_completeness auto
termination
  by (relation "measure (\<lambda>(buckets, quotas, k, bucket_idx, cnt, out). length quotas + (length buckets - bucket_idx))")
    (auto simp: arr_get_def split: if_splits)

definition report_lat_acct_percentile :: "(u64 \<Rightarrow> u64 list) \<Rightarrow> opacct \<Rightarrow> disp_out res" where
  "report_lat_acct_percentile quotas a =
     bnd (percentile_loop (la_buckets (oa_latency a)) (quotas (oa_ops a)) 0 0 0 []) (\<lambda>out.
     Inr (out @ [(newline, [])]))"

text \<open>The share of a bucket is 0 exactly when its count is.\<close>

definition distribution_step :: "opacct \<Rightarrow> nat \<Rightarrow> disp_out \<Rightarrow> disp_out res" where
  "distribution_step a i out =
     bnd (arr_get (la_buckets (oa_latency a)) i) (\<lambda>b.
     Inr (if lb_count b \<noteq> 0
          then out @ (if out = [] then [] else [('', '', [])])
                   @ [(''%llu=%f%%'', [ArgU (lb_sum b div lb_count b div 1000), Share (lb_count b) (oa_ops a)])]
          else out))"

definition report_lat_acct_distribution :: "opacct \<Rightarrow> disp_out res" where
  "report_lat_acct_distribution a =
     bnd (for_upto 0 LATENCY_ACCT_NUM_BUCKETS (distribution_step a) []) (\<lambda>out. Inr (out @ [(newline, [])]))"

definition report_acct_op ::
  "(u64 \<Rightarrow> u64 list) \<Rightarrow> bio_opcode \<Rightarrow> string \<Rightarrow> string \<Rightarrow> u64 \<Rightarrow> ioacct \<Rightarrow> disp_out res" where
  "report_acct_op quotas opcode opname prefix elapsed_time_ns acct =
     bnd (arr_get (ia_ops acct) (bio_opcode_num opcode)) (\<lambda>a.
     if oa_ops a = 0 then Inr [] else
       bnd (report_opacct a elapsed_time_ns) (\<lambda>o1.
       bnd (report_lat_acct_percentile quotas a) (\<lambda>o2.
       bnd (report_lat_acct_distribution a) (\<lambda>o3.
       Inr ([(''%s- %-5s: '', [ArgS prefix, ArgS opname])] @ o1
            @ [(''%s   latency stat(us): '', [ArgS prefix])] @ report_lat_acct_stat a
            @ [(''%s   percentiles(us) : '', [ArgS prefix])] @ o2
            @ [(''%s   distribution(us): '', [ArgS prefix])] @ o3)))))"

definition report_acct :: "(u64 \<Rightarrow> u64 list) \<Rightarrow> string \<Rightarrow> u64 \<Rightarrow> ioacct \<Rightarrow> disp_out res" where
  "report_acct quotas prefix elapsed_time_ns acct =
     bnd (report_acct_op quotas bio_read ''read'' prefix elapsed_time_ns acct) (\<lambda>o1.
     bnd (report_acct_op quotas bio_write ''write'' prefix elapsed_time_ns acct) (\<lambda>o2.
     bnd (report_acct_op quotas bio_flush ''flush'' prefix elapsed_time_ns acct) (\<lambda>o3.
     Inr (o1 @ o2 @ o3))))"

definition report_job :: "(u64 \<Rightarrow> u64 list) \<Rightarrow> iogen_job list \<Rightarrow> ioacct list \<Rightarrow> nat \<Rightarrow> disp_out \<Rightarrow> disp_out res" where
  "report_job quotas jobs accts job_idx out =
     bnd (arr_get jobs job_idx) (\<lambda>job.
     bnd (arr_get accts (job_idx + 1)) (\<lambda>acct.
     let elapsed_time_ns = timespec_sub (j_end_ts job) (j_begin_ts job) in
     bnd (report_acct quotas ''  '' elapsed_time_ns acct) (\<lambda>o1.
     Inr (out @ [('' > job '' @ [CHR 0x27] @ ''%s'' @ [CHR 0x27] @ '': runtime=%.02lfs'' @ newline,
                  [ArgS (jp_name (j_params job)), Seconds elapsed_time_ns])] @ o1))))"

definition standalone_disp_report ::
  "(u64 \<Rightarrow> u64 list) \<Rightarrow> iogen \<Rightarrow> iogen_job list \<Rightarrow> ioacct list \<Rightarrow> disp_out res" where
  "standalone_disp_report quotas ig jobs accts =
     (let elapsed_time_ns = timespec_sub (ig_end_ts ig) (ig_begin_ts ig) in
      bnd (arr_get accts 0) (\<lambda>acct.
      bnd (report_acct quotas '' '' elapsed_time_ns acct) (\<lambda>o1.
      let out = [(newline, []), (''* total summary: runtime=%.02lfs'' @ newline, [Seconds elapsed_time_ns])] @ o1 in
      if 2 \<le> ig_njobs ig
      then for_upto 0 (unat (ig_njobs ig)) (report_job quotas jobs accts)
             (out @ [(''* per-job summary:'' @ newline, [])])
      else Inr out)))"

section \<open>The display for test cases\<close>

definition testcase_op_strings :: "string list" where
  "testcase_op_strings = [''R'', ''W'', ''F'', ''D'', ''Z'', ''U'']"

definition print_opacct :: "opacct \<Rightarrow> disp_out" where
  "print_opacct a =
     (if oa_ops a = 0 then [(''-'', [])]
      else let (num, metric) = size_to_human_readable (oa_bytes a) 1024;
               (num2, metric2) = time_to_human_readable (mean_latency a div 1000) in
        [(''%'' @ [CHR 0x27] @ ''llu%sB'', [ArgU num, ArgS metric]),
         (''/%'' @ [CHR 0x27] @ ''llu%s'', [ArgU num2, ArgS metric2])])"

definition testcase_disp_init :: "int \<times> disp_out" where
  "testcase_disp_init = (0, [(AE_SAVE_CURSOR, [])])"

definition testcase_disp_update :: "iogen_job list \<Rightarrow> timespec \<Rightarrow> ioacct list \<Rightarrow> disp_out res" where
  "testcase_disp_update jobs now accts =
     (let eta = iogen_eta now jobs;
          out = [(AE_RESTORE_CURSOR @ AE_CLEAR_EOL, [])]
            @ (if eta \<noteq> U32_MAX
               then [(''(eta %02um:%02us)'', [ArgU (ucast (eta div 60)), ArgU (ucast (eta mod 60))])] else []) in
      bnd (arr_get accts 0) (\<lambda>acct. show_ops testcase_op_strings ''[%s '' print_opacct acct out))"

definition testcase_disp_report :: "disp_out" where
  "testcase_disp_report = [(AE_RESTORE_CURSOR @ AE_CLEAR_EOL, [])]"

section \<open>Units\<close>

lemma human_loop_exact:
  assumes "human_loop unit t i n num = (i', num')" and "unit \<noteq> 0"
  shows "i \<le> i' \<and> i' \<le> i + n \<and> unat num' = unat num div unat unit ^ (i' - i)
    \<and> (i' < i + n \<longrightarrow> num' < t) \<and> (\<forall>j. i \<le> j \<longrightarrow> j < i' \<longrightarrow> unat t \<le> unat num div unat unit ^ (j - i))"
  using assms(1)
proof (induction n arbitrary: i num)
  case (Suc n)
  show ?case
  proof (cases "num < t")
    case False
    then have h: "human_loop unit t (Suc i) n (num div unit) = (i', num')" using Suc.prems by simp
    have d: "unat (num div unit) div unat unit ^ k = unat num div unat unit ^ Suc k" for k
      by (simp add: unat_div div_mult2_eq)
    have "Suc i \<le> i'" "i' \<le> Suc i + n" "unat num' = unat (num div unit) div unat unit ^ (i' - Suc i)"
      "i' < Suc i + n \<longrightarrow> num' < t"
      and j: "\<forall>j. Suc i \<le> j \<longrightarrow> j < i' \<longrightarrow> unat t \<le> unat (num div unit) div unat unit ^ (j - Suc i)"
      using Suc.IH[OF h] by blast+
    moreover have "unat t \<le> unat num div unat unit ^ (j - i)" if "i \<le> j" "j < i'" for j
    proof (cases "j = i")
      case True
      then show ?thesis using False by (simp add: word_le_nat_alt not_less)
    next
      case False
      then have "Suc i \<le> j" and e: "j - i = Suc (j - Suc i)" using that by simp_all
      then have "unat t \<le> unat (num div unit) div unat unit ^ (j - Suc i)" using j that(2) by blast
      then show ?thesis unfolding e d .
    qed
    moreover have "i' - i = Suc (i' - Suc i)" using calculation(1) by simp
    ultimately show ?thesis using d[of "i' - Suc i"] by simp
  qed (use Suc.prems in auto)
qed simp

text \<open>The number with its unit is the size divided as often as it takes to have at most five digits.\<close>

lemma to_human_readable_exact:
  assumes "to_human_readable sz unit = (num, metric)" and "unit \<in> {1000, 1024}"
  shows "\<exists>i\<le>5. metric = metrics ! i \<and> unat num = unat sz div unat unit ^ i
    \<and> (i < 5 \<longrightarrow> num < human_threshold unit)
    \<and> (\<forall>j<i. unat (human_threshold unit) \<le> unat sz div unat unit ^ j)"
proof -
  obtain i where i: "human_loop unit (human_threshold unit) 0 5 sz = (i, num)" "metric = metrics ! i"
    using assms(1) by (auto simp: to_human_readable_def Let_def split: prod.splits)
  have "unit \<noteq> 0" using assms(2) by auto
  from human_loop_exact[OF i(1) this] i(2) show ?thesis by auto
qed

text \<open>The products of the report have 64 bits: 20 GB in a second are shown as 1.5 GB per second.\<close>

lemma report_throughput_wraps: "(20000000000 :: u64) * NSEC_PER_SEC div NSEC_PER_SEC = 1553255926"
  by (simp add: NSEC_PER_SEC_def)

section \<open>Percentiles\<close>

text \<open>The requests in the first \<open>i\<close> buckets, and the bucket in which the number \<open>q\<close> is reached.\<close>

definition in_buckets :: "latency_acct_bucket list \<Rightarrow> nat \<Rightarrow> nat" where
  "in_buckets bs i = sum_list (map (\<lambda>b. unat (lb_count b)) (take i bs))"

definition reaches :: "latency_acct_bucket list \<Rightarrow> u64 \<Rightarrow> nat \<Rightarrow> bool" where
  "reaches bs q j = (j < length bs \<and> in_buckets bs j < unat q \<and> unat q \<le> in_buckets bs (Suc j))"

definition percentile_text :: "latency_acct_bucket list \<Rightarrow> nat \<Rightarrow> nat \<Rightarrow> disp_out" where
  "percentile_text bs k j =
     (if k = 0 then [] else [('', '', [])])
     @ [(''%lg%%=[%5llu]'', [Percentage k, ArgU (lb_sum (bs ! j) div lb_count (bs ! j) div 1000)])]"

lemma in_buckets_Suc: "i < length bs \<Longrightarrow> in_buckets bs (Suc i) = in_buckets bs i + unat (lb_count (bs ! i))"
  by (simp add: in_buckets_def take_Suc_conv_app_nth)

lemma in_buckets_mono: "i \<le> j \<Longrightarrow> in_buckets bs i \<le> in_buckets bs j"
proof (induction j)
  case (Suc j)
  have "in_buckets bs j \<le> in_buckets bs (Suc j)"
    by (cases "j < length bs") (simp_all add: in_buckets_Suc, simp add: in_buckets_def)
  with Suc show ?case by (auto simp: le_Suc_eq)
qed simp

declare percentile_loop.simps(2) [simp del]

lemma percentile_loop_reached:
  "q \<le> cnt \<Longrightarrow> m < length bs \<Longrightarrow> lb_count (bs ! m) \<noteq> 0 \<Longrightarrow>
   percentile_loop bs (q # qs) k (Suc m) cnt out = percentile_loop bs qs (Suc k) (Suc m) cnt (out @ percentile_text bs k m)"
  by (subst percentile_loop.simps(2)) (simp add: percentile_text_def)

lemma percentile_loop_next:
  assumes "\<not> q \<le> cnt" and "i < length bs"
  shows "percentile_loop bs (q # qs) k i cnt out = percentile_loop bs (q # qs) k (i + 1) (cnt + lb_count (bs ! i)) out"
  by (subst percentile_loop.simps(2)) (simp only: assms if_False arr_get_in bnd_Inr)

lemma percentile_loop_exact:
  assumes "sorted (map unat qs)" and "\<forall>q\<in>set qs. unat q \<le> in_buckets bs (length bs)"
    and "in_buckets bs (length bs) < 2 ^ 64" and "cnt = of_nat (in_buckets bs i)" and "i \<le> length bs"
    and "qs \<noteq> [] \<Longrightarrow> (if i = 0 then 0 else in_buckets bs (i - 1)) < unat (hd qs)"
  shows "\<exists>js. list_all2 (reaches bs) qs js \<and>
    percentile_loop bs qs k i cnt out
      = Inr (out @ concat (map (\<lambda>(k, j). percentile_text bs k j) (enumerate k js)))"
  using assms
proof (induction bs qs k i cnt out rule: percentile_loop.induct)
  case (1 bs k i cnt out)
  then show ?case by simp
next
  case (2 bs q qs k i cnt out)
  have cnt: "unat cnt = in_buckets bs i"
    using "2.prems"(3,4,5) in_buckets_mono[of i "length bs" bs] by (simp add: unsigned_of_nat take_bit_nat_eq_self)
  show ?case
  proof (cases "q \<le> cnt")
    case True
    have "in_buckets bs 0 = 0" by (simp add: in_buckets_def)
    then have "i \<noteq> 0" using "2.prems"(6) True cnt by (cases i) (simp_all add: word_le_nat_alt)
    then obtain m where m: "i = Suc m" "m < length bs" using "2.prems"(5) by (cases i) auto
    have r: "reaches bs q m"
      using "2.prems"(6) True cnt m by (simp add: reaches_def word_le_nat_alt)
    then have b0: "lb_count (bs ! m) \<noteq> 0" using m in_buckets_Suc[of m bs] by (auto simp: reaches_def)
    have "qs \<noteq> [] \<Longrightarrow> in_buckets bs m < unat (hd qs)"
      using r "2.prems"(1) by (cases qs) (auto simp: reaches_def)
    then obtain js where js: "list_all2 (reaches bs) qs js"
      "percentile_loop bs qs (Suc k) i cnt (out @ percentile_text bs k m)
        = Inr ((out @ percentile_text bs k m) @ concat (map (\<lambda>(k, j). percentile_text bs k j) (enumerate (Suc k) js)))"
      using "2.IH"(1)[OF True \<open>i \<noteq> 0\<close>, of "bs ! m"] "2.prems" m b0 by (auto simp: percentile_text_def)
    show ?thesis
      by (rule exI[of _ "m # js"])
        (use js r percentile_loop_reached[OF True m(2) b0, of qs k out] m(1) in simp)
  next
    case False
    then have lt: "in_buckets bs i < unat q" using cnt by (simp add: word_le_nat_alt)
    then have i: "i < length bs"
      using "2.prems"(2,5) by (cases "i = length bs") auto
    have "cnt + lb_count (bs ! i) = of_nat (in_buckets bs (Suc i))"
      using "2.prems"(4) i by (simp add: in_buckets_Suc)
    then show ?thesis
      using "2.IH"(2)[OF False, of "bs ! i"] "2.prems"(1-3) i lt percentile_loop_next[OF False i, of qs k out]
      by simp
  qed
qed

text \<open>The percentiles of the report. When the histogram of an operation holds all its requests,
  every percentile is the mean of the bucket in which that many requests are first reached, and
  nothing is read out of range; but when the threshold of the first percentile is 0, which it is
  for a single request, the bucket before the first is read.
\<close>

theorem report_percentile_exact:
  assumes "in_buckets (la_buckets (oa_latency a)) (length (la_buckets (oa_latency a))) = unat (oa_ops a)"
    and "sorted (map unat (quotas (oa_ops a)))" and "\<forall>q\<in>set (quotas (oa_ops a)). q \<le> oa_ops a"
  shows "if 0 \<in> set (quotas (oa_ops a)) then report_lat_acct_percentile quotas a = Inl Fault
    else \<exists>js. list_all2 (reaches (la_buckets (oa_latency a))) (quotas (oa_ops a)) js \<and>
      report_lat_acct_percentile quotas a
        = Inr (concat (map (\<lambda>(k, j). percentile_text (la_buckets (oa_latency a)) k j) (enumerate 0 js)) @ [(newline, [])])"
proof (cases "0 \<in> set (quotas (oa_ops a))")
  case True
  then obtain q qs where q: "quotas (oa_ops a) = q # qs" by (cases "quotas (oa_ops a)") auto
  then have "q = 0" using True assms(2) by (auto simp: unat_eq_0)
  then show ?thesis using True q by (simp add: report_lat_acct_percentile_def percentile_loop.simps(2))
next
  case False
  let ?bs = "la_buckets (oa_latency a)"
  have "0 < unat (hd (quotas (oa_ops a)))" if "quotas (oa_ops a) \<noteq> []"
    using False that by (metis hd_in_set unat_gt_0)
  moreover have ops: "unat (oa_ops a) < 2 ^ 64" using unsigned_less[of "oa_ops a"] by simp
  ultimately obtain js where "list_all2 (reaches ?bs) (quotas (oa_ops a)) js"
    "percentile_loop ?bs (quotas (oa_ops a)) 0 0 0 []
      = Inr ([] @ concat (map (\<lambda>(k, j). percentile_text ?bs k j) (enumerate 0 js)))"
    using percentile_loop_exact[of "quotas (oa_ops a)" ?bs 0 0 0 "[]"] assms ops
    by (auto simp: in_buckets_def word_le_nat_alt)
  then show ?thesis using False by (auto simp: report_lat_acct_percentile_def)
qed

text \<open>Four requests, of which one is slow: both percentiles lie in its bucket.\<close>

definition opacct_ex :: opacct where
  "opacct_ex = opacct_zero\<lparr>oa_ops := 4, oa_latency := (oa_latency opacct_zero)\<lparr>la_buckets :=
     (replicate LATENCY_ACCT_NUM_BUCKETS \<lparr>lb_count = 0, lb_sum = 0\<rparr>)
       [2 := \<lparr>lb_count = 2, lb_sum = 5000\<rparr>, 7 := \<lparr>lb_count = 2, lb_sum = 15000\<rparr>]\<rparr>\<rparr>"

lemma report_percentile_exact_witness:
  "\<exists>js. list_all2 (reaches (la_buckets (oa_latency opacct_ex))) [2, 3] js \<and>
    report_lat_acct_percentile (\<lambda>_. [2, 3]) opacct_ex
      = Inr (concat (map (\<lambda>(k, j). percentile_text (la_buckets (oa_latency opacct_ex)) k j) (enumerate 0 js)) @ [(newline, [])])"
proof -
  have "in_buckets (la_buckets (oa_latency opacct_ex)) (length (la_buckets (oa_latency opacct_ex))) = unat (oa_ops opacct_ex)"
    by code_simp
  moreover have "oa_ops opacct_ex = 4" by (simp add: opacct_ex_def)
  ultimately show ?thesis using report_percentile_exact[of opacct_ex "\<lambda>_. [2, 3]"] by simp
qed

section \<open>The names of the operations\<close>

text \<open>An account with requests of one of the two operations that have no name in the table.\<close>

definition nameless :: "ioacct \<Rightarrow> bool" where
  "nameless acct = (0 < oa_ops (ia_ops acct ! 6) \<or> 0 < oa_ops (ia_ops acct ! 7))"

lemma for_upto_add: "for_upto i (a + b) f s = bnd (for_upto i a f s) (for_upto (i + a) b f)"
  by (induction a arbitrary: i s) (auto simp: bnd_def split: sum.splits)

lemma show_ops_cases:
  assumes "acct_ok acct" and "length names = 6"
  shows "if nameless acct then show_ops names f g acct out = Inl Fault
    else \<exists>out'. show_ops names f g acct out = Inr out'"
proof -
  have named: "\<exists>out'. for_upto 0 6 (show_op names f g acct) out = Inr out'"
    using for_upto_rule[of "\<lambda>_ _. True" 0 out 6 "show_op names f g acct"] assms
    by (auto simp: show_op_def acct_ok_def bio_max_def)
  then obtain o6 where o6: "for_upto 0 6 (show_op names f g acct) out = Inr o6" ..
  have "show_ops names f g acct out
      = bnd (for_upto 0 6 (show_op names f g acct) out) (for_upto 6 2 (show_op names f g acct))"
    unfolding show_ops_def bio_max_def using for_upto_add[of 0 6 2] by simp
  then show ?thesis
    using assms by (auto simp: o6 show_op_def acct_ok_def bio_max_def nameless_def arr_get_def numeral_2_eq_2)
qed

lemma standalone_ops:
  assumes "acct_ok acct"
  shows "nameless acct \<Longrightarrow> show_ops op_strings f g acct out = Inl Fault"
    and "\<not> nameless acct \<Longrightarrow> \<exists>out'. show_ops op_strings f g acct out = Inr out'"
proof -
  have "length op_strings = 6" by (simp add: op_strings_def)
  from show_ops_cases[OF assms this, of f g out]
  show "nameless acct \<Longrightarrow> show_ops op_strings f g acct out = Inl Fault"
    and "\<not> nameless acct \<Longrightarrow> \<exists>out'. show_ops op_strings f g acct out = Inr out'" by simp_all
qed

lemma print_job_acct_cases:
  assumes "acct_ok acct"
  shows "if state_text (j_state job) = None \<and> nameless acct then print_job_acct n job acct = Inl Fault
    else \<exists>out. print_job_acct n job acct = Inr out"
  using standalone_ops[OF assms] by (cases "state_text (j_state job)") (simp_all add: print_job_acct_def Let_def)

lemma print_sum_acct_cases:
  assumes "acct_ok acct"
  shows "if 1 < popcount (ig_running_job_mask ig) \<and> nameless acct then print_sum_acct ig eta acct = Inl Fault
    else \<exists>out. print_sum_acct ig eta acct = Inr out"
proof (cases "nameless acct")
  case True
  then show ?thesis using standalone_ops(1)[OF assms] by (simp add: print_sum_acct_def Let_def)
next
  case False
  let ?line = "[(AE_CLEAR_LINE, []), (CHR 0x0D # '' %u/%u jobs running    '',
      [ArgU (of_nat (popcount (ig_running_job_mask ig))), ArgU (ucast (ig_njobs ig))])]"
  obtain o1 where "show_ops op_strings '' [%s '' print_io_acct acct ?line = Inr o1"
    using standalone_ops(2)[OF assms False] by blast
  then show ?thesis using False by (simp add: print_sum_acct_def Let_def)
qed

text \<open>A loop whose steps fail or succeed whatever they have printed so far.\<close>

lemma for_upto_cases:
  assumes "\<And>j s. i \<le> j \<Longrightarrow> j < i + n \<Longrightarrow> if P j then f j s = Inl Fault else \<exists>s'. f j s = Inr s'"
  shows "if \<exists>j. i \<le> j \<and> j < i + n \<and> P j then for_upto i n f s = Inl Fault else \<exists>s'. for_upto i n f s = Inr s'"
  using assms
proof (induction n arbitrary: i s)
  case (Suc n)
  show ?case
  proof (cases "P i")
    case True
    then have "\<exists>j. i \<le> j \<and> j < i + Suc n \<and> P j" by (intro exI[of _ i]) simp
    then show ?thesis using Suc.prems[of i s] True by simp
  next
    case False
    then obtain s1 where s1: "f i s = Inr s1" using Suc.prems[of i s] by auto
    have e: "(i \<le> j \<and> j < i + Suc n \<and> P j) = (Suc i \<le> j \<and> j < Suc i + n \<and> P j)" for j
      using False by (cases "j = i") auto
    have "if \<exists>j. Suc i \<le> j \<and> j < Suc i + n \<and> P j then for_upto (Suc i) n f s1 = Inl Fault
        else \<exists>s'. for_upto (Suc i) n f s1 = Inr s'"
      by (rule Suc.IH) (use Suc.prems in auto)
    then show ?thesis unfolding e using s1 by simp
  qed
qed simp

text \<open>The line of every second reads the table of names out of range exactly when a job that
  is not waiting, done, aborted or in a reset has completed an identify or a firmware download
  in this second, or any job has while several run; otherwise it is printed.
\<close>

theorem display_update_exact:
  assumes "length jobs = unat (ig_njobs ig)" and "length accts = unat (ig_njobs ig) + 1"
    and "\<forall>a\<in>set accts. acct_ok a"
  shows "if 1 < popcount (ig_running_job_mask ig) \<and> nameless (accts ! 0)
      \<or> (\<exists>i<unat (ig_njobs ig). state_text (j_state (jobs ! i)) = None \<and> nameless (accts ! (i + 1)))
    then standalone_disp_update ig jobs now ctx accts = Inl Fault
    else \<exists>out. standalone_disp_update ig jobs now ctx accts = Inr (True, out)"
proof -
  let ?n = "unat (ig_njobs ig)"
  define out0 where "out0 = (if ctx then [(AE_MOVE_UP_CURSOR, [ArgU (ucast (ig_njobs ig))])] else [])"
  have a0: "accts \<noteq> []" "acct_ok (accts ! 0)" using assms(2,3) by (auto simp: length_greater_0_conv [symmetric] simp del: length_greater_0_conv)
  note s = print_sum_acct_cases[OF a0(2), of ig "iogen_eta now jobs"]
  have j: "if \<exists>i<?n. state_text (j_state (jobs ! i)) = None \<and> nameless (accts ! (i + 1))
      then for_upto 0 ?n (show_job ig jobs accts) out = Inl Fault
      else \<exists>out'. for_upto 0 ?n (show_job ig jobs accts) out = Inr out'" for out
  proof -
    have "if state_text (j_state (jobs ! i)) = None \<and> nameless (accts ! (i + 1))
        then show_job ig jobs accts i o1 = Inl Fault else \<exists>o2. show_job ig jobs accts i o1 = Inr o2"
      if "i < ?n" for i o1
      using print_job_acct_cases[of "accts ! (i + 1)" "jobs ! i" "ig_njobs ig"] assms that
      by (auto simp: show_job_def)
    then show ?thesis
      using for_upto_cases[of 0 ?n "\<lambda>i. state_text (j_state (jobs ! i)) = None \<and> nameless (accts ! (i + 1))"
          "show_job ig jobs accts" out] by simp
  qed
  have u: "standalone_disp_update ig jobs now ctx accts =
      bnd (print_sum_acct ig (iogen_eta now jobs) (accts ! 0)) (\<lambda>o1.
      bnd (for_upto 0 ?n (show_job ig jobs accts) (out0 @ o1)) (\<lambda>out. Inr (True, out)))"
    using a0(1) by (simp add: standalone_disp_update_def out0_def)
  show ?thesis
  proof (cases "1 < popcount (ig_running_job_mask ig) \<and> nameless (accts ! 0)")
    case True
    then show ?thesis using s u by simp
  next
    case False
    then obtain o1 where "print_sum_acct ig (iogen_eta now jobs) (accts ! 0) = Inr o1" using s by auto
    then show ?thesis using False u j[of "out0 @ o1"] by (auto split: if_splits)
  qed
qed

text \<open>A job that runs alone and has identified the controller once.\<close>

definition disp_iogen_ex :: iogen where
  "disp_iogen_ex = \<lparr>ig_state = 0, ig_result = 0, ig_begin_ts = \<lparr>tv_sec = 0, tv_nsec = 0\<rparr>,
     ig_end_ts = \<lparr>tv_sec = 0, tv_nsec = 0\<rparr>, ig_njobs = 1, ig_running_job_mask = 1,
     ig_finished_job_mask = 0, ig_spor_level = 0\<rparr>"

definition disp_acct_ex :: ioacct where
  "disp_acct_ex = ioacct_zero\<lparr>ia_ops := (ia_ops ioacct_zero)[6 := opacct_zero\<lparr>oa_ops := 1\<rparr>]\<rparr>"

lemma display_update_exact_witness:
  "standalone_disp_update disp_iogen_ex [iogen_job_zero\<lparr>j_state := iogen_job_state_running\<rparr>] \<lparr>tv_sec = 1, tv_nsec = 0\<rparr>
     False [disp_acct_ex, disp_acct_ex] = Inl Fault"
proof -
  have "acct_ok disp_acct_ex" by (simp add: acct_ok_def disp_acct_ex_def ioacct_zero_def)
  moreover have "nameless disp_acct_ex"
    by (simp add: nameless_def disp_acct_ex_def ioacct_zero_def bio_max_def)
  ultimately show ?thesis
    using display_update_exact[of "[iogen_job_zero\<lparr>j_state := iogen_job_state_running\<rparr>]" disp_iogen_ex
        "[disp_acct_ex, disp_acct_ex]" "\<lparr>tv_sec = 1, tv_nsec = 0\<rparr>" False]
    by (simp add: disp_iogen_ex_def state_text_def)
qed

end
