(* ===== verification/ParserInv.thy ===== *)
theory ParserInv
  imports ParserConv
begin

text \<open>
  What holds of the parameters that the parser (\<open>nbio/parser.c\<close>) accepts: every line keeps the
  parameters of all jobs well formed, so the whole file does.
\<close>

section \<open>Well-formed parameters\<close>

definition texts_ok :: "job_params \<Rightarrow> bool" where
  "texts_ok jp \<longleftrightarrow> length (jp_name jp) < 64 \<and> length (jp_ioengine jp) < 64 \<and> length (jp_ioengine_param jp) < 256 \<and>
     length (jp_controller jp) < 256 \<and> length (jp_journal_file jp) < 256 \<and> length (jp_dependency jp) < 64 \<and>
     (jp_journal_shm jp = 0 \<or> jp_journal_file jp = [])"

definition ranges_ok :: "job_params \<Rightarrow> bool" where
  "ranges_ok jp \<longleftrightarrow> jp_reset_min jp \<le> jp_reset_max jp \<and> jp_lba_range_begin_percent jp \<le> 100 \<and>
     jp_lba_range_size_percent jp \<le> 100 \<and> jp_amount_bytes_percent jp \<le> 100 \<and>
     jp_unwr_read_value_type jp \<le> 1 \<and> jp_dealloc_read_value_type jp \<le> 1"

definition iosizes_ok :: "job_params \<Rightarrow> bool" where
  "iosizes_ok jp \<longleftrightarrow> length (jp_iosizes jp) = iosize_num_max \<and> (\<forall>r \<in> set (jp_iosizes jp). iosize_min r \<le> iosize_max r)"

definition ops_sum :: "job_params \<Rightarrow> nat" where
  "ops_sum jp = sum_list (map unat (jp_operations jp))"

definition params_ok :: "job_params \<Rightarrow> bool" where
  "params_ok jp \<longleftrightarrow> texts_ok jp \<and> ranges_ok jp \<and> iosizes_ok jp \<and>
     length (jp_operations jp) = bio_max \<and> ops_sum jp \<in> {0, 100}"

lemmas params_ok_defs = params_ok_def texts_ok_def ranges_ok_def iosizes_ok_def ops_sum_def

text \<open>The parameters that \<open>job_params\<close> does not point to.\<close>

definition others_ok :: "parser \<Rightarrow> bool" where
  "others_ok p \<longleftrightarrow>
     (case p_job_params p of None \<Rightarrow> \<forall>jp \<in> set (gp_job_params (p_params p)). params_ok jp
      | Some i \<Rightarrow> i < length (gp_job_params (p_params p)) \<and> params_ok (p_default_job_params p) \<and>
          (\<forall>j < length (gp_job_params (p_params p)). j \<noteq> i \<longrightarrow> params_ok (gp_job_params (p_params p) ! j)))"

definition parser_ok :: "parser \<Rightarrow> bool" where
  "parser_ok p \<longleftrightarrow> others_ok p \<and> (\<exists>jp. job_params_of p = Inr jp \<and> params_ok jp)"

lemma parser_okI: "others_ok p \<Longrightarrow> job_params_of p = Inr jp \<Longrightarrow> params_ok jp \<Longrightarrow> parser_ok p"
  by (auto simp: parser_ok_def)

lemma parser_ok_jobs:
  assumes "parser_ok p" and "jp \<in> set (gp_job_params (p_params p))"
  shows "params_ok jp"
proof -
  from assms(2) obtain j where "j < length (gp_job_params (p_params p))" "jp = gp_job_params (p_params p) ! j"
    by (auto simp: in_set_conv_nth)
  with assms show ?thesis
    by (cases "p_job_params p"; cases "p_job_params p = Some j")
       (auto simp: parser_ok_def others_ok_def job_params_of_def)
qed

lemma parser_ok_default: "parser_ok p \<Longrightarrow> params_ok (p_default_job_params p)"
  by (auto simp: parser_ok_def others_ok_def job_params_of_def split: option.splits)

text \<open>The invariant looks at the parameters only.\<close>

lemma parser_ok_frame:
  assumes "gp_job_params (p_params q) = gp_job_params (p_params p)" "p_job_params q = p_job_params p"
    "p_default_job_params q = p_default_job_params p"
  shows "others_ok q = others_ok p" "job_params_of q = job_params_of p" "parser_ok q = parser_ok p"
  by (simp_all add: others_ok_def job_params_of_def parser_ok_def assms cong: option.case_cong)

lemma others_ok_current: "others_ok p \<Longrightarrow> \<exists>jp. job_params_of p = Inr jp"
  by (auto simp: others_ok_def job_params_of_def split: option.splits)

lemma upd_job_params_effect:
  assumes "others_ok p" and "job_params_of p = Inr jp"
  shows "\<exists>p'. upd_job_params f p = Inr p' \<and> others_ok p' \<and> job_params_of p' = Inr (f jp)"
  using assms by (auto simp: upd_job_params_def others_ok_def job_params_of_def split: option.splits)

lemma upd_job_params_ok:
  assumes "parser_ok p" and "upd_job_params f p = Inr p'"
    and "\<And>jp. job_params_of p = Inr jp \<Longrightarrow> params_ok jp \<Longrightarrow> params_ok (f jp)"
  shows "parser_ok p'"
proof -
  obtain jp where jp: "others_ok p" "job_params_of p = Inr jp" "params_ok jp"
    using assms(1) by (auto simp: parser_ok_def)
  with upd_job_params_effect[OF jp(1,2), of f] assms(2,3) show ?thesis by (auto intro: parser_okI)
qed

section \<open>Conversions do not touch the parameters\<close>

definition same_params :: "parser \<Rightarrow> parser \<Rightarrow> bool" where
  "same_params p q \<longleftrightarrow> p_params q = p_params p \<and> p_job_params q = p_job_params p \<and>
     p_default_job_params q = p_default_job_params p"

lemma same_params_ok: "same_params p q \<Longrightarrow> parser_ok p \<Longrightarrow> parser_ok q"
  using parser_ok_frame[of q p] by (simp add: same_params_def)

lemma same_params_current: "same_params p q \<Longrightarrow> job_params_of q = job_params_of p \<and> others_ok q = others_ok p"
  using parser_ok_frame[of q p] by (simp add: same_params_def)

lemma token_strupr_params: "token_strupr p t = Inr q \<Longrightarrow> same_params p q"
  by (cases "t_buf t") (auto simp: token_strupr_def same_params_def bnd_eq_Inr)

lemma to_bool_params: "to_bool p t = Inr (b, q) \<Longrightarrow> same_params p q"
  by (auto simp: to_bool_def bnd_eq_Inr parsing_error_def dest!: token_strupr_params split: if_splits)

lemma to_seconds_params: "to_seconds p t = Inr (v, q) \<Longrightarrow> same_params p q"
  by (auto simp: to_seconds_def bnd_eq_Inr dest!: token_strupr_params)

lemma to_bytes_params: "to_bytes p t = Inr (v, q) \<Longrightarrow> same_params p q"
  by (auto simp: to_bytes_def bnd_eq_Inr dest!: token_strupr_params)

lemmas conv_params = token_strupr_params to_bool_params to_seconds_params to_bytes_params

section \<open>Handlers\<close>

definition keeps :: "handler \<Rightarrow> bool" where
  "keeps h \<longleftrightarrow> (\<forall>p t p'. parser_ok p \<longrightarrow> h p t = Inr p' \<longrightarrow> parser_ok p')"

lemma keepsI: "(\<And>p t p'. parser_ok p \<Longrightarrow> h p t = Inr p' \<Longrightarrow> parser_ok p') \<Longrightarrow> keeps h"
  by (simp add: keeps_def)

lemma upd_after_conv:
  assumes "parser_ok p" "same_params p q" "upd_job_params f q = Inr p'" "\<And>jp. params_ok jp \<Longrightarrow> params_ok (f jp)"
  shows "parser_ok p'"
  using upd_job_params_ok[OF same_params_ok[OF assms(2,1)] assms(3)] assms(4) by blast

lemma bool_prop_keeps: "(\<And>b jp. params_ok jp \<Longrightarrow> params_ok (f b jp)) \<Longrightarrow> keeps (bool_prop f)"
  by (rule keepsI) (auto simp: bool_prop_def bnd_eq_Inr intro: upd_after_conv[OF _ to_bool_params])

lemma int_prop_keeps: "(\<And>v jp. params_ok jp \<Longrightarrow> params_ok (f v jp)) \<Longrightarrow> keeps (int_prop f)"
  by (rule keepsI) (auto simp: int_prop_def bnd_eq_Inr intro: upd_job_params_ok)

lemma double_prop_keeps: "(\<And>v jp. params_ok jp \<Longrightarrow> params_ok (f v jp)) \<Longrightarrow> keeps (double_prop f)"
  by (rule keepsI) (auto simp: double_prop_def bnd_eq_Inr intro: upd_job_params_ok)

lemma bytes_prop_keeps: "(\<And>v jp. params_ok jp \<Longrightarrow> params_ok (f v jp)) \<Longrightarrow> keeps (bytes_prop f)"
  by (rule keepsI) (auto simp: bytes_prop_def bnd_eq_Inr intro: upd_after_conv[OF _ to_bytes_params])

lemma text_prop_keeps:
  "(\<And>s jp. length s < n \<Longrightarrow> params_ok jp \<Longrightarrow> params_ok (f s jp)) \<Longrightarrow> keeps (text_prop n f)"
  by (rule keepsI) (auto simp: text_prop_def copy_text_def bnd_eq_Inr intro: upd_job_params_ok split: if_splits)

lemma seconds_prop_keeps:
  "(\<And>v jp. params_ok jp \<Longrightarrow> params_ok (f v jp)) \<Longrightarrow>
   keeps (\<lambda>p t. bnd (to_seconds p t) (\<lambda>(v, p). upd_job_params (f v) p))"
  by (rule keepsI) (auto simp: bnd_eq_Inr intro: upd_after_conv[OF _ to_seconds_params])

lemma global_props_keep:
  assumes "\<And>x gp. gp_job_params (f x gp) = gp_job_params gp" "\<And>x gp. gp_job_params (g x gp) = gp_job_params gp"
  shows "keeps (global_text_prop f)" "keeps (global_int_prop g)"
  by (rule keepsI; clarsimp simp: global_text_prop_def global_int_prop_def bnd_eq_Inr;
      subst parser_ok_frame(3); simp add: assms)+

lemma powerctl_keeps: "keeps powerctl_dev_prop"
  by (rule keepsI; clarsimp simp: powerctl_dev_prop_def bnd_eq_Inr Let_def split: if_splits;
      subst parser_ok_frame(3); simp)

lemma journal_props_keep: "keeps journal_file_prop" "keeps journal_shm_prop"
proof -
  show "keeps journal_file_prop"
    by (rule keepsI, auto simp: journal_file_prop_def text_prop_def copy_text_def bnd_eq_Inr parsing_error_def split: if_splits,
        erule (1) upd_job_params_ok, auto simp: params_ok_defs)
  show "keeps journal_shm_prop"
    by (rule keepsI, auto simp: journal_shm_prop_def int_prop_def bnd_eq_Inr parsing_error_def split: if_splits,
        erule (1) upd_job_params_ok, auto simp: params_ok_defs)
qed

lemma set_iosize_ok:
  assumes "params_ok jp" and "\<And>r. iosize_min r \<le> iosize_max r \<Longrightarrow> iosize_min (f r) \<le> iosize_max (f r)"
  shows "params_ok (set_iosize op f jp)"
proof -
  have "iosize_opcode_num op < length (jp_iosizes jp)"
    using assms(1) by (cases op) (auto simp: params_ok_defs iosize_num_max_def)
  then have "iosize_min (f (jp_iosizes jp ! iosize_opcode_num op)) \<le> iosize_max (f (jp_iosizes jp ! iosize_opcode_num op))"
    using assms by (auto simp: params_ok_defs)
  with assms(1) show ?thesis
    by (auto simp: set_iosize_def Let_def params_ok_defs dest: set_update_subset_insert[THEN subsetD])
qed

text \<open>The steps of a handler, from its last result back to the parser it starts with.\<close>

lemma token_strupr_keeps: "token_strupr p t = Inr q \<Longrightarrow> parser_ok p \<Longrightarrow> parser_ok q"
  by (rule same_params_ok[OF token_strupr_params])

lemma to_bool_keeps: "to_bool p t = Inr (b, q) \<Longrightarrow> parser_ok p \<Longrightarrow> parser_ok q"
  by (rule same_params_ok[OF to_bool_params])

lemma to_seconds_keeps: "to_seconds p t = Inr (v, q) \<Longrightarrow> parser_ok p \<Longrightarrow> parser_ok q"
  by (rule same_params_ok[OF to_seconds_params])

lemma to_bytes_keeps: "to_bytes p t = Inr (v, q) \<Longrightarrow> parser_ok p \<Longrightarrow> parser_ok q"
  by (rule same_params_ok[OF to_bytes_params])

lemma upd_job_params_keeps:
  "upd_job_params f p = Inr p' \<Longrightarrow> parser_ok p \<Longrightarrow> (\<And>jp. params_ok jp \<Longrightarrow> params_ok (f jp)) \<Longrightarrow> parser_ok p'"
  by (rule upd_job_params_ok)

lemmas keep_steps = token_strupr_keeps to_bool_keeps to_seconds_keeps to_bytes_keeps upd_job_params_keeps

lemma min_le_max: "min a b \<le> max a (b :: 'a::linorder)"
  by (simp add: min_le_iff_disj)

lemma percent_7: "(v :: u8) \<le> 100 \<Longrightarrow> (ucast v :: 7 word) \<le> 100"
  by (simp add: word_le_nat_alt unsigned_ucast_eq take_bit_eq_mod)

lemma parse_reset_keeps: "keeps parse_reset"
  by (rule keepsI, auto simp: parse_reset_def bnd_eq_Inr parsing_error_def split: if_splits prod.splits;
      (erule keep_steps)+; simp add: params_ok_defs min_le_max)

lemma parse_stream_keeps: "keeps parse_stream"
  by (rule keepsI, auto simp: parse_stream_def bnd_eq_Inr parsing_error_def split: if_splits prod.splits;
      (erule keep_steps)+; simp add: params_ok_defs)

lemma note_iosize_keeps: "note_iosize op p = Inr q \<Longrightarrow> parser_ok p \<Longrightarrow> parser_ok q"
  by (rule same_params_ok; cases "op \<in> {iosize_read, iosize_write, iosize_total}")
     (auto simp: note_iosize_def bnd_eq_Inr same_params_def)

lemma parse_iosize_keeps: "keeps (parse_iosize op)"
  by (rule keepsI, auto simp: parse_iosize_def bnd_eq_Inr parsing_error_def split: if_splits prod.splits;
      erule note_iosize_keeps; (erule keep_steps)+; simp add: set_iosize_ok min_le_max)

lemma iosize_align_keeps: "keeps (iosize_align_prop op)"
  unfolding iosize_align_prop_def by (rule bytes_prop_keeps) (simp add: set_iosize_ok)

lemma parse_read_result_keeps:
  assumes "\<And>x jp. params_ok jp \<Longrightarrow> params_ok (set_type x jp)" "\<And>v jp. v \<le> 1 \<Longrightarrow> params_ok jp \<Longrightarrow> params_ok (set_value v jp)"
  shows "keeps (parse_read_result set_type set_value)"
  by (rule keepsI, auto simp: parse_read_result_def bnd_eq_Inr parsing_error_def split: if_splits prod.splits;
      (erule keep_steps)+; simp add: assms)

lemma read_results_keep: "keeps parse_unwr_read" "keeps parse_dealloc_read"
  unfolding parse_unwr_read_def parse_dealloc_read_def
  by (rule parse_read_result_keeps; simp add: params_ok_defs)+

lemma parse_share_keeps:
  assumes "\<And>v jp. v \<le> 100 \<Longrightarrow> params_ok jp \<Longrightarrow> params_ok (f v jp)" "\<And>v jp. params_ok jp \<Longrightarrow> params_ok (g v jp)"
    and "parse_share f g p t = Inr q" "parser_ok p"
  shows "parser_ok q"
proof -
  from assms(3) consider
      v where "to_percent p t = Inr v" "upd_job_params (f (ucast v)) p = Inr q"
    | v r where "to_bytes p t = Inr (v, r)" "upd_job_params (g v) r = Inr q"
    by (auto simp: parse_share_def bnd_eq_Inr split: if_splits)
  then show ?thesis
  proof cases
    case 1
    then show ?thesis using assms(1,4) percent_7[OF to_percent_bound] by (blast intro: upd_job_params_keeps)
  next
    case 2
    then show ?thesis using assms(2,4) by (blast intro: upd_job_params_keeps to_bytes_keeps)
  qed
qed

lemma parse_lba_range_keeps: "keeps parse_lba_range"
  by (rule keepsI, auto simp: parse_lba_range_def bnd_eq_Inr parsing_error_def split: if_splits prod.splits;
      (erule parse_share_keeps[rotated 2] | erule keep_steps)+; simp add: params_ok_defs)

lemma parse_amount_keeps: "keeps parse_amount"
  by (rule keepsI, auto simp: parse_amount_def bnd_eq_Inr parsing_error_def dest!: to_percent_bound split: if_splits prod.splits;
      (erule keep_steps)+; simp add: params_ok_defs percent_7)

lemma set_slba_ok: "params_ok jp \<Longrightarrow> params_ok (set_slba ty v jp)"
  by (simp add: set_slba_def params_ok_defs)

lemma parse_slba_keeps: "keeps parse_slba"
  by (rule keepsI, auto simp: parse_slba_def parse_fixed_def bnd_eq_Inr parsing_error_def split: if_splits prod.splits;
      (erule keep_steps)+; (rule set_slba_ok)?; simp add: params_ok_defs)

section \<open>The weights of the operations\<close>

definition clear_ops :: "job_params \<Rightarrow> job_params" where
  "clear_ops jp = jp\<lparr>jp_operations := replicate bio_max 0\<rparr>"

text \<open>
  Between two operations: the weights and what remains make 100, an operation that was not named
  has no weight, and but for the weights the parameters are well formed.
\<close>

definition ops_inv :: "op_state \<Rightarrow> bool" where
  "ops_inv s \<longleftrightarrow> (case s of (p, remained_rate, optype_mask, subparam_tokens) \<Rightarrow>
     others_ok p \<and> (\<exists>jp. job_params_of p = Inr jp \<and> length (jp_operations jp) = bio_max \<and>
       ops_sum jp + unat remained_rate = 100 \<and> (\<forall>op. op \<notin> optype_mask \<longrightarrow> jp_operations jp ! bio_opcode_num op = 0) \<and>
       params_ok (clear_ops jp)))"

lemma bio_opcode_num_bound: "bio_opcode_num op < bio_max"
  by (cases op) (simp_all add: bio_max_def)

lemma bio_opcode_num_inj: "bio_opcode_num a = bio_opcode_num b \<longleftrightarrow> a = b"
  by (cases a; cases b) simp_all

lemma parse_op_type_params: "parse_op_type p t = Inr (op, q) \<Longrightarrow> same_params p q"
  by (auto simp: parse_op_type_def bnd_eq_Inr parsing_error_def dest!: token_strupr_params split: option.splits)

lemma ops_inv_set:
  assumes "ops_inv (p, left, named, sub)" and "same_params p q" and "op \<notin> named" and "rate \<le> left"
    and "upd_job_params (set_op op rate) q = Inr p'"
  shows "ops_inv (p', left - rate, insert op named, sub')"
proof -
  obtain jp where jp: "others_ok p" "job_params_of p = Inr jp" "length (jp_operations jp) = bio_max"
      "ops_sum jp + unat left = 100" "params_ok (clear_ops jp)"
      and z: "\<And>op. op \<notin> named \<Longrightarrow> jp_operations jp ! bio_opcode_num op = 0"
    using assms(1) by (auto simp: ops_inv_def)
  let ?i = "bio_opcode_num op"
  define jp' where "jp' = set_op op rate jp"
  have i: "?i < length (jp_operations jp)" using bio_opcode_num_bound[of op] jp(3) by simp
  have q: "others_ok q" "job_params_of q = Inr jp" using same_params_current[OF assms(2)] jp(1,2) by auto
  then have p': "others_ok p'" "job_params_of p' = Inr jp'"
    using upd_job_params_effect[OF q, of "set_op op rate"] assms(5) by (auto simp: jp'_def)
  note jp'_def = jp'_def[unfolded set_op_def]
  have "ops_sum jp' = ops_sum jp + unat rate"
    using i z[OF assms(3)] by (simp add: ops_sum_def jp'_def map_update sum_list_update)
  moreover have "unat (left - rate) = unat left - unat rate" using assms(4) by (simp add: unat_sub word_le_nat_alt)
  moreover have "unat rate \<le> unat left" using assms(4) by (simp add: word_le_nat_alt)
  ultimately have "ops_sum jp' + unat (left - rate) = 100" using jp(4) by simp
  moreover have "jp_operations jp' ! bio_opcode_num op' = 0" if "op' \<notin> insert op named" for op'
    using that z[of op'] by (auto simp: jp'_def nth_list_update bio_opcode_num_inj jp(3) bio_opcode_num_bound)
  moreover have "clear_ops jp' = clear_ops jp" by (simp add: clear_ops_def jp'_def)
  ultimately show ?thesis using p' jp(3,5) by (auto simp: ops_inv_def jp'_def)
qed

lemma parse_one_operation_inv:
  assumes "ops_inv s" and "parse_one_operation ts k s = Inr s'"
  shows "ops_inv s'"
proof -
  obtain p left named sub where s: "s = (p, left, named, sub)" by (cases s) auto
  obtain n op q sub' where q: "same_params p q" "op \<notin> named"
    and r: "set_rate n op (q, left, insert op named, sub') = Inr s'"
    using assms(2) unfolding s
    by (auto simp: parse_one_operation_def bnd_eq_Inr parsing_error_def Let_def dest!: parse_op_type_params split: if_splits)
  have "\<exists>rate p'. rate \<le> left \<and> upd_job_params (set_op op rate) q = Inr p' \<and> s' = (p', left - rate, insert op named, sub')"
  proof (cases "n = 1")
    case True
    with r show ?thesis by (auto simp: set_rate_def bnd_eq_Inr intro!: exI[of _ left])
  next
    case False
    with r show ?thesis by (auto simp: set_rate_def bnd_eq_Inr parsing_error_def not_less Let_def split: if_splits)
  qed
  then show ?thesis using ops_inv_set[OF assms(1)[unfolded s] q] by auto
qed

lemma parse_operation_sum:
  assumes "parse_operation p t = Inr p'" and "parser_ok p"
  shows "\<exists>jp. others_ok p' \<and> job_params_of p' = Inr jp \<and> params_ok jp \<and> ops_sum jp = 100"
proof -
  obtain jp where jp: "others_ok p" "job_params_of p = Inr jp" "params_ok jp" using assms(2) by (auto simp: parser_ok_def)
  obtain p1 where p1: "upd_job_params (\<lambda>jp. jp\<lparr>jp_operations := replicate bio_max 0\<rparr>) p = Inr p1"
      "others_ok p1" "job_params_of p1 = Inr (clear_ops jp)"
    using upd_job_params_effect[OF jp(1,2), of clear_ops] by (auto simp: clear_ops_def[abs_def])
  have z: "ops_sum (clear_ops jp) = 0" by (simp add: ops_sum_def clear_ops_def)
  then have "params_ok (clear_ops jp)" using jp(3) by (auto simp: params_ok_defs clear_ops_def)
  then have init: "ops_inv (p1, 100, {}, [None, None])"
    using p1 z bio_opcode_num_bound by (auto simp: ops_inv_def clear_ops_def)
  obtain ts n left named sub where
    loop: "for_upto 0 n (parse_one_operation ts) (p1, 100, {}, [None, None]) = Inr (p', left, named, sub)" "\<not> left > 0"
    using assms(1) p1(1) by (auto simp: parse_operation_def bnd_eq_Inr parsing_error_def split: if_splits prod.splits)
  have "ops_inv (p', left, named, sub)"
    using for_upto_inv[OF loop(1), of "\<lambda>_. ops_inv"] init parse_one_operation_inv by blast
  moreover have "left = 0" using loop(2) word_gt_0[of left] by blast
  ultimately obtain jp' where jp': "others_ok p'" "job_params_of p' = Inr jp'" "length (jp_operations jp') = bio_max"
      "ops_sum jp' = 100" "params_ok (clear_ops jp')" by (auto simp: ops_inv_def)
  then have "params_ok jp'" by (simp add: params_ok_def texts_ok_def ranges_ok_def iosizes_ok_def clear_ops_def)
  with jp' show ?thesis by blast
qed

lemma parse_operation_keeps: "keeps parse_operation"
  by (rule keepsI) (use parse_operation_sum parser_okI in blast)

section \<open>Every line\<close>

lemma handlers1_keep: "(names, h) \<in> set property_handlers1 \<Longrightarrow> keeps h"
  unfolding property_handlers1_def
  by (elim set_ConsD[elim_format] disjE, simp_all only: prod.inject)
     (auto simp: params_ok_defs
        intro!: bool_prop_keeps int_prop_keeps double_prop_keeps text_prop_keeps seconds_prop_keeps global_props_keep journal_props_keep)

lemma handlers2_keep: "(names, h) \<in> set property_handlers2 \<Longrightarrow> keeps h"
  unfolding property_handlers2_def
  by (elim set_ConsD[elim_format] disjE, simp_all only: prod.inject)
     (auto simp: params_ok_defs
        intro!: bool_prop_keeps int_prop_keeps double_prop_keeps bytes_prop_keeps global_props_keep powerctl_keeps
          parse_iosize_keeps iosize_align_keeps parse_slba_keeps parse_lba_range_keeps parse_operation_keeps
          parse_amount_keeps read_results_keep parse_reset_keeps parse_stream_keeps)

lemma match_first_in: "match_first s table = Some h \<Longrightarrow> \<exists>names. (names, h) \<in> set table"
  by (auto simp: match_first_def find_Some_iff) (metis nth_mem)

lemma case_option_Inr:
  "(case m of None \<Rightarrow> parsing_error | Some h \<Rightarrow> f h) = Inr q \<longleftrightarrow> (\<exists>h. m = Some h \<and> f h = Inr q)"
  by (cases m) (auto simp: parsing_error_def)

lemma on_property_defined_keeps:
  assumes "on_property_defined p k = Inr q" and "parser_ok p"
  shows "parser_ok q"
proof -
  obtain x xa p1 key h where "token_strupr p x = Inr p1" and h: "h p1 xa = Inr q"
      "match_first key (property_handlers1 @ property_handlers2) = Some h"
    using assms(1) by (auto simp: on_property_defined_def bnd_eq_Inr case_option_Inr)
  then have "parser_ok p1" using assms(2) by (blast intro: token_strupr_keeps)
  moreover have "keeps h" using match_first_in[OF h(2)] handlers1_keep handlers2_keep by auto
  ultimately show ?thesis using h(1) by (auto simp: keeps_def)
qed

lemma on_section_defined_keeps:
  assumes "on_section_defined p t = Inr q" and "parser_ok p"
  shows "parser_ok q"
proof -
  let ?jobs = "gp_job_params (p_params p)"
  obtain name where n: "length name < 64"
    and q: "q = p\<lparr>p_params := (p_params p)\<lparr>gp_job_params := ?jobs @ [(p_default_job_params p)\<lparr>jp_name := name\<rparr>]\<rparr>,
               p_job_params := Some (length ?jobs)\<rparr>"
    using assms(1) by (auto simp: on_section_defined_def copy_text_def bnd_eq_Inr Let_def split: if_splits)
  have d: "params_ok (p_default_job_params p)" by (rule parser_ok_default[OF assms(2)])
  have "params_ok ((p_default_job_params p)\<lparr>jp_name := name\<rparr>)" using d n by (simp add: params_ok_defs)
  then show ?thesis using d parser_ok_jobs[OF assms(2)]
    by (auto simp: parser_ok_def others_ok_def job_params_of_def q nth_append)
qed

lemma on_env_refered_params: "on_env_refered p i = Inr q \<Longrightarrow> same_params p q"
  by (auto simp: on_env_refered_def bnd_eq_Inr parsing_error_def same_params_def split: option.splits)

lemma new_token_params: "new_token p = Inr q \<Longrightarrow> same_params p q"
  by (auto simp: new_token_def bnd_eq_Inr same_params_def)

lemma count_char_params: "count_char st p = Inr (r, q) \<Longrightarrow> same_params p q"
  by (auto simp: count_char_def bnd_eq_Inr same_params_def Let_def split: option.splits if_splits)

lemma end_token_keeps:
  assumes "end_token p = Inr q" and "parser_ok p"
  shows "parser_ok q"
proof -
  have f: "parser_ok (r\<lparr>p_cur_token := None\<rparr>) = parser_ok r" for r by (rule parser_ok_frame(3)) simp_all
  show ?thesis using assms
    by (auto simp: end_token_def bnd_eq_Inr f split: option.splits if_splits
        dest: on_property_defined_keeps on_section_defined_keeps same_params_ok[OF on_env_refered_params])
qed

lemma enter_state_keeps: "enter_state st p = Inr q \<Longrightarrow> parser_ok p \<Longrightarrow> parser_ok q"
  by (auto simp: enter_state_def intro: end_token_keeps same_params_ok[OF new_token_params] split: if_splits)

lemma parse_char_keeps:
  assumes "parse_char p c = Inr (r, q)" and "parser_ok p"
  shows "parser_ok q"
proof (cases "q = p")
  case False
  have f: "parser_ok (r\<lparr>p_end_of_token := False\<rparr>) = parser_ok r" for r by (rule parser_ok_frame(3)) simp_all
  obtain st where "(if st = parser_state_error then Inr (- 1, p) else
      bnd (if st \<noteq> p_state p then bnd (enter_state st p) (\<lambda>p. Inr (p\<lparr>p_end_of_token := False\<rparr>))
           else if p_end_of_token p then parsing_error else Inr p) (count_char st)) = Inr (r, q)"
    using assms(1) by (simp only: parse_char_def bnd_eq_Inr[of "parser_next_state _ _"]) blast
  with False obtain p1 where p1: "(if st \<noteq> p_state p then bnd (enter_state st p) (\<lambda>p. Inr (p\<lparr>p_end_of_token := False\<rparr>))
      else if p_end_of_token p then parsing_error else Inr p) = Inr p1" and c: "count_char st p1 = Inr (r, q)"
    by (cases "st = parser_state_error") (simp_all only: if_True if_False refl bnd_eq_Inr prod.inject sum.inject, auto)
  have "parser_ok p1" using p1 assms(2)
    by (auto simp: bnd_eq_Inr parsing_error_def f dest: enter_state_keeps split: if_split_asm)
  then show ?thesis by (rule same_params_ok[OF count_char_params[OF c]])
qed (use assms in simp)

lemma parse_columns_keeps: "parse_columns k p = Inr (r, q) \<Longrightarrow> parser_ok p \<Longrightarrow> parser_ok q"
proof (induction k arbitrary: p)
  case (Suc k)
  have f: "parser_ok (r\<lparr>p_end_of_token := b\<rparr>) = parser_ok r" "parser_ok (r\<lparr>p_col_num := n\<rparr>) = parser_ok r" for r b n
    by (rule parser_ok_frame(3); simp)+
  obtain ch res p1 where p1: "(if isspace ch then Inr (0, p\<lparr>p_end_of_token := True\<rparr>) else parse_char p ch) = Inr (res, p1)"
    and c: "(if res \<noteq> 0 then bnd (syntax_error p1 res) (\<lambda>p. Inr (- 1, p))
      else if ch \<noteq> NUL then parse_columns k (p1\<lparr>p_col_num := Suc (p_col_num p1)\<rparr>)
      else Inr (0, p1\<lparr>p_col_num := Suc (p_col_num p1)\<rparr>)) = Inr (r, q)"
    using Suc.prems(1) by (simp only: parse_columns.simps bnd_eq_Inr Let_def split_paired_Ex prod.case) blast
  have ok: "parser_ok p1" using p1 Suc.prems(2) by (auto simp: f split: if_split_asm dest: parse_char_keeps)
  show ?case
  proof (cases "res = 0")
    case True
    with c have "q = p1\<lparr>p_col_num := Suc (p_col_num p1)\<rparr> \<or> parse_columns k (p1\<lparr>p_col_num := Suc (p_col_num p1)\<rparr>) = Inr (r, q)"
      by (auto simp: bnd_eq_Inr split: if_split_asm)
    then show ?thesis using Suc.IH[of "p1\<lparr>p_col_num := Suc (p_col_num p1)\<rparr>"] ok by (auto simp: f)
  next
    case False
    then show ?thesis using c ok by (auto simp: syntax_error_def bnd_eq_Inr parsing_error_def split: if_split_asm)
  qed
qed simp

lemma parse_line_keeps: "parse_line p = Inr (r, q) \<Longrightarrow> parser_ok p \<Longrightarrow> parser_ok q"
  unfolding parse_line_def parser_newline_def
  by (erule parse_columns_keeps) (subst parser_ok_frame(3); simp)

lemma parse_lines_keeps: "parse_lines p cs = Inr (r, q) \<Longrightarrow> parser_ok p \<Longrightarrow> parser_ok q"
proof (induction p cs rule: parse_lines.induct)
  case (1 p cs)
  have f: "parser_ok (r\<lparr>p_line_buf := b\<rparr>) = parser_ok r" "parser_ok (r\<lparr>p_line_num := n\<rparr>) = parser_ok r" for r b n
    by (rule parser_ok_frame(3); simp)+
  obtain n buf rest eof where rd: "read_line LINE_BUF_LEN 0 (p_line_buf p) cs = Inr (n, buf, rest, eof)"
    using 1(2) by (auto simp: parse_lines.simps[of p cs] bnd_eq_Inr)
  show ?case
  proof (cases "n < 0")
    case True
    with 1(2,3) rd show ?thesis by (auto simp: parse_lines.simps[of p cs] f)
  next
    case False
    with 1(2) rd obtain p1 where p1: "(if n = 0 then Inr (p\<lparr>p_line_buf := buf\<rparr>)
        else bnd (parse_line (p\<lparr>p_line_buf := buf\<rparr>)) (\<lambda>(res, p). Inr (p\<lparr>p_line_num := Suc (p_line_num p)\<rparr>))) = Inr p1"
      and c: "(if eof then Inr (0, p1) else parse_lines p1 rest) = Inr (r, q)"
      by (simp only: parse_lines.simps[of p cs] bnd_Inr prod.case Let_def if_False
          bnd_eq_Inr[of _ "\<lambda>p. if eof then Inr (0, p) else parse_lines p rest"]) blast
    have "parser_ok p1" using p1 1(3) by (auto simp: bnd_eq_Inr f split: if_splits dest: parse_line_keeps)
    then show ?thesis using c 1(1)[OF rd _ _ _ _ False p1] by (auto split: if_splits)
  qed
qed

lemma init_parser_ok: "parser_ok (init_parser junk env a b)"
  by (auto simp: parser_ok_def others_ok_def job_params_of_def init_parser_def global_params_zero_def default_params_def
      job_params_zero_def params_ok_defs bio_max_def iosize_num_max_def)

text \<open>C36: Whatever the file says, when the parser returns successfully there is at least one job, and
  the parameters of every job are well formed: every name fits its field, at most one of journal
  file and journal segment is given, the bounds of sizes and reset times are ordered, no percentage
  is above 100, and the weights of the operations make 100 in all or were never given.\<close>

theorem parse_param_ok:
  assumes "parse_param (Some text) (init_parser junk env a b) = Inr (0, parser)"
  shows "gp_job_params (p_params parser) \<noteq> [] \<and> list_all params_ok (gp_job_params (p_params parser))"
proof -
  obtain q where q: "parse_lines (init_parser junk env a b) text = Inr (0, q)" "parser = add_default_job q"
    using assms by (auto simp: parse_param_def bnd_eq_Inr split: if_splits)
  have "parser_ok q" by (rule parse_lines_keeps[OF q(1) init_parser_ok])
  then show ?thesis using parser_ok_jobs[of q] parser_ok_default[of q]
    by (auto simp: q(2) add_default_job_def list_all_iff)
qed

text \<open>A file with one property.\<close>

definition sample_file :: string where
  "sample_file = ''SEED=7'' @ [CHR 0x0A]"

definition sample_result :: "(int \<times> parser) res" where
  "sample_result = parse_param (Some sample_file) (init_parser (replicate LINE_BUF_LEN NUL) [] 0 0)"

definition sample_parsed :: parser where
  "sample_parsed = (case sample_result of Inr (r, p) \<Rightarrow> p | _ \<Rightarrow> init_parser [] [] 0 0)"

lemma succeeded:
  "(case r of Inl e \<Rightarrow> False | Inr (x, p) \<Rightarrow> x = 0) \<Longrightarrow> r = Inr (0 :: int, case r of Inr (x, p) \<Rightarrow> p | _ \<Rightarrow> d)"
  by (cases r) auto

lemma sample_parsed: "sample_result = Inr (0, sample_parsed)"
  unfolding sample_parsed_def by (rule succeeded) code_simp

theorem parse_param_ok_witness:
  "gp_job_params (p_params sample_parsed) \<noteq> [] \<and> list_all params_ok (gp_job_params (p_params sample_parsed))"
  by (rule parse_param_ok[OF sample_parsed[unfolded sample_result_def]])

end
