(* ===== verification/Compose.thy ===== *)
theory Compose
  imports IogenSafe IogenInv ParserInv Validate
begin

text \<open>
  From the parameters to the first request: a job whose parameters the parser accepted and that is
  bound to a namespace is initialised by \<open>iogen_job_init\<close> so that it satisfies what the generator of
  requests relies on. This joins the parser, the validation, the job initialisation and the generator.
\<close>

section \<open>The lottery of parsed weights\<close>

lemma lottery_of_weights:
  assumes "length (jp_operations (j_params job)) = bio_max" and "length (j_opr_lottery job) = 100"
    and "ops_sum (j_params job) = 100"
  shows "create_opr_lottery job =
    Inr (job\<lparr>j_opr_lottery := lottery_image (jp_operations (j_params job)) (j_opr_lottery job)\<rparr>)"
proof -
  let ?ops = "jp_operations (j_params job)"
  have "lottery_part ?ops l 0 = (l, 0, 0)" for l by (simp add: lottery_part_def weight_sum_def)
  moreover have "weight_sum ?ops bio_max = 100" using assms(1,3) by (simp add: weight_sum_def ops_sum_def)
  ultimately show ?thesis
    using lottery_loop[of ?ops 0 "j_opr_lottery job" bio_max] assms
    by (simp add: create_opr_lottery_def lottery_image_def lottery_part_def weight_sum_def ops_sum_def)
qed

text \<open>With weights of 100 in all nothing of the old array is left, so the entries are operations with a weight.\<close>

lemma lottery_image_entries:
  assumes "length ops = bio_max" and "sum_list (map unat ops) = 100" and "length l = 100"
  shows "length (lottery_image ops l) = 100"
    and "x \<in> set (lottery_image ops l) \<Longrightarrow> \<exists>k < bio_max. x = of_nat k \<and> ops ! k \<noteq> 0"
proof -
  have "map unat ops = map (\<lambda>k. unat (ops ! k)) [0..<bio_max]"
    using map_nth[of ops] assms(1) by (metis (no_types, lifting) map_map comp_def map_eq_conv)
  then have "length (concat (map (\<lambda>k. replicate (unat (ops ! k)) (of_nat k :: u8)) [0..<bio_max])) = 100"
    using assms(2) by (simp add: length_concat o_def)
  then show "length (lottery_image ops l) = 100" using assms(2,3) by (simp add: lottery_image_def)
  show "\<exists>k < bio_max. x = of_nat k \<and> ops ! k \<noteq> 0" if "x \<in> set (lottery_image ops l)"
    using that assms(2,3) by (auto simp: lottery_image_def split: if_splits)
qed

section \<open>The block counts\<close>

definition lbas_ok :: "nat \<Rightarrow> job_lbas \<Rightarrow> bool" where
  "lbas_ok M l \<longleftrightarrow> 1 \<le> unat (lb_min_lbas l) \<and> unat (lb_min_lbas l) + unat (lb_lbas_dist l) \<le> M"

text \<open>Sizes within the limit \<open>m\<close> of the buffers give block counts within theirs.\<close>

lemma unat_drop_bit: "unat (drop_bit n (w :: 'a::len word)) = unat w div 2 ^ n"
  by (metis drop_bit_eq_div unsigned_drop_bit_eq unsigned_take_bit_eq take_bit_word_eq_self order_refl)

lemma lbas_of_sizes:
  fixes m :: u32
  assumes "iosize_min sz \<le> iosize_max sz" and "iosize_max sz \<le> ucast m"
    and "mn = ucast (drop_bit sh (iosize_min sz))" and "mx = ucast (drop_bit sh (iosize_max sz))" and "mn \<noteq> (0 :: u32)"
  shows "lbas_ok (unat m div 2 ^ sh) (l\<lparr>lb_min_lbas := mn, lb_max_lbas := mx, lb_lbas_dist := mx - mn\<rparr>)"
proof -
  have um: "unat (ucast m :: u64) = unat m" by (simp add: unsigned_ucast_eq take_bit_nat_eq_self_iff order_less_le_trans[OF unsigned_less])
  have le: "unat (iosize_min sz) \<le> unat (iosize_max sz)" "unat (iosize_max sz) \<le> unat m"
    using assms(1,2) um by (simp_all add: word_le_nat_alt)
  have "unat (iosize_max sz) div 2 ^ sh \<le> unat m div 2 ^ sh" "unat (iosize_min sz) div 2 ^ sh \<le> unat (iosize_max sz) div 2 ^ sh"
    using le by (simp_all add: div_le_mono)
  moreover have "unat m < 2 ^ 32" using unsigned_less[of m] by simp
  moreover have "unat m div 2 ^ sh \<le> unat m" by simp
  ultimately have b: "unat (iosize_max sz) div 2 ^ sh < 2 ^ 32" "unat (iosize_min sz) div 2 ^ sh < 2 ^ 32"
      "unat (iosize_min sz) div 2 ^ sh \<le> unat (iosize_max sz) div 2 ^ sh" "unat (iosize_max sz) div 2 ^ sh \<le> unat m div 2 ^ sh"
    by linarith+
  have u: "unat mx = unat (iosize_max sz) div 2 ^ sh" "unat mn = unat (iosize_min sz) div 2 ^ sh"
    using b(1,2) unfolding assms(3,4) unsigned_ucast_eq unat_drop_bit by (simp_all add: take_bit_nat_eq_self)
  then have "unat (mx - mn) = unat mx - unat mn" using b(3) by (simp add: unat_sub word_le_nat_alt)
  moreover have "0 < unat mn" using assms(5) by (simp add: unat_gt_0)
  ultimately show ?thesis using b u by (simp add: lbas_ok_def)
qed

text \<open>Sizes that are set are within the limit.\<close>

definition sizes_within :: "u32 \<Rightarrow> job_params \<Rightarrow> bool" where
  "sizes_within m jp \<longleftrightarrow> (\<forall>r \<in> set (jp_iosizes jp). iosize_max r \<le> ucast m)"

lemma init_lbas_loop:
  assumes "for_upto 0 iosize_num_max (init_lbas jp sh) (0, lbas0) = Inr (0, lbas)"
    and "iosizes_ok jp" and "sizes_within m jp" and "length lbas0 = 6" and "lb_min_lbas (lbas0 ! 0) = 0"
  shows "length lbas = 6 \<and> (\<forall>l \<in> set lbas. lbas_ok (unat m div 2 ^ unat sh) l)"
proof -
  let ?M = "unat m div 2 ^ unat sh"
  let ?P = "\<lambda>j (s :: int \<times> job_lbas list). fst s = 0 \<longrightarrow> length (snd s) = 6 \<and> (j = 0 \<longrightarrow> lb_min_lbas (snd s ! 0) = 0) \<and>
    (\<forall>i < j. lbas_ok ?M (snd s ! i))"
  have "?P (0 + iosize_num_max) (0, lbas)"
  proof (rule for_upto_inv[OF assms(1)])
    show "?P 0 (0, lbas0)" using assms(4,5) by simp
    fix j s s' assume j: "0 \<le> j" "j < 0 + iosize_num_max" and P: "?P j s" and st: "init_lbas jp sh j s = Inr s'"
    show "?P (Suc j) s'"
    proof
      assume z: "fst s' = 0"
      obtain ls where s: "s = (0, ls)" using st z by (cases s) (auto simp: init_lbas_def split: if_splits)
      have ls: "length ls = 6" "j = 0 \<Longrightarrow> lb_min_lbas (ls ! 0) = 0" "\<And>i. i < j \<Longrightarrow> lbas_ok ?M (ls ! i)" using P by (simp_all add: s)
      define sz where "sz = jp_iosizes jp ! j"
      have szin: "sz \<in> set (jp_iosizes jp)" using assms(2) j by (simp add: sz_def iosizes_ok_def)
      define l where "l = (if iosize_min sz = 0 \<and> iosize_max sz = 0
              then (ls ! j)\<lparr>lb_min_lbas := lb_min_lbas (ls ! 0), lb_max_lbas := lb_max_lbas (ls ! 0), lb_lbas_dist := lb_lbas_dist (ls ! 0)\<rparr>
              else (ls ! j)\<lparr>lb_min_lbas := ucast (drop_bit (unat sh) (iosize_min sz)), lb_max_lbas := ucast (drop_bit (unat sh) (iosize_max sz)),
                lb_lbas_dist := ucast (drop_bit (unat sh) (iosize_max sz)) - ucast (drop_bit (unat sh) (iosize_min sz))\<rparr>)"
      have s': "s' = (0, ls[j := l])" "lb_min_lbas l \<noteq> 0"
        using st z ls(1) assms(2) j
        by (auto simp: s init_lbas_def bnd_eq_Inr arr_get_eq_Inr iosizes_ok_def iosize_num_max_def sz_def l_def Let_def split: if_splits)
      have "lbas_ok ?M l"
      proof (cases "iosize_min sz = 0 \<and> iosize_max sz = 0")
        case True
        then have "j \<noteq> 0" using s'(2) ls(2) by (auto simp: l_def)
        then show ?thesis using ls(3)[of 0] True by (simp add: l_def lbas_ok_def)
      next
        case False
        then show ?thesis using s'(2) szin assms(2,3) unfolding l_def
          by (simp only: if_False) (rule lbas_of_sizes, auto simp: iosizes_ok_def sizes_within_def)
      qed
      then show "length (snd s') = 6 \<and> (Suc j = 0 \<longrightarrow> lb_min_lbas (snd s' ! 0) = 0) \<and> (\<forall>i < Suc j. lbas_ok ?M (snd s' ! i))"
        using ls j by (auto simp: s' less_Suc_eq nth_list_update iosize_num_max_def)
    qed
  qed
  then show ?thesis by (auto simp: iosize_num_max_def in_set_conv_nth)
qed

section \<open>The pool\<close>

text \<open>The buffers of a new request hold what the limit allows, unless their size wraps around.\<close>

definition buffers_fit :: "u32 \<Rightarrow> namespace_info \<Rightarrow> bool" where
  "buffers_fit m ns \<longleftrightarrow> unat (max m 4096) + unat (ns_meta_size ns) * (unat m div 2 ^ unat (ns_lba_shift ns)) + 16 < 2 ^ 32"

lemma ns_data_size_nat: "ns_ok ns \<Longrightarrow> unat (ns_data_size ns) = 2 ^ unat (ns_lba_shift ns)"
proof -
  assume ok: "ns_ok ns"
  let ?n = "unat (ns_lba_shift ns)"
  have "(2 :: nat) ^ ?n < 2 ^ 32" using ok by (intro power_strict_increasing) (simp_all add: ns_ok_def)
  then have "unat (of_nat (2 ^ ?n) :: u32) = 2 ^ ?n" by (simp add: unat_of_nat take_bit_nat_eq_self del: of_nat_power)
  then show "unat (ns_data_size ns) = 2 ^ ?n" using ok by (simp add: ns_ok_def)
qed

lemma pool_meta_nat:
  assumes "buffers_fit m ns"
  shows "unat (pool_meta_size m ns) = unat (ns_meta_size ns) * (unat m div 2 ^ unat (ns_lba_shift ns))"
  using assms by (simp add: pool_meta_size_def buffers_fit_def unat_word_ariths unat_drop_bit)

lemma create_bio_sized:
  assumes "create_bio fresh m ns i r = (b, r')" and "ns_ok ns" and "buffers_fit m ns"
  shows "bio_sized ns (unat m div 2 ^ unat (ns_lba_shift ns)) b"
proof -
  let ?M = "unat m div 2 ^ unat (ns_lba_shift ns)"
  let ?e = "if ns_extended_lba ns then unat (ns_meta_size ns) else 0"
  have fit: "unat (max m 4096) + unat (ns_meta_size ns) * ?M + 16 < 2 ^ 32" using assms(3) by (simp add: buffers_fit_def)
  have m: "unat m \<le> unat (max m 4096)" by (simp add: max_def word_le_nat_alt)
  have d: "unat (data_buf_size m ns) = unat (max m 4096) + ?e * ?M"
    using fit pool_meta_nat[OF assms(3)] by (simp add: data_buf_size_def unat_word_ariths)
  have mt: "\<not> ns_extended_lba ns \<Longrightarrow> unat (meta_buf_size m ns) = unat (ns_meta_size ns) * ?M"
    using pool_meta_nat[OF assms(3)] by (simp add: meta_buf_size_def)
  have "unat (ns_data_size ns) * ?M \<le> unat m" unfolding ns_data_size_nat[OF assms(2)] by (metis div_mult_mod_eq le_add1 mult.commute)
  then have l: "(unat (ns_data_size ns) + ?e) * ?M \<le> unat (data_buf_size m ns)" using m d by (simp add: add_mult_distrib)
  moreover have "unat (data_buf_size m ns) < 2 ^ 32" using unsigned_less[of "data_buf_size m ns"] by simp
  moreover have "unat (ns_meta_size ns) * ?M < 2 ^ 32" using fit by simp
  ultimately show ?thesis using assms(1) mt
    by (auto simp: create_bio_def Let_def bio_sized_def unat_drop_bit split: prod.splits)
qed

lemma create_pool_fits:
  assumes "create_bio_pool True fresh alloc m job = Inr (0, job')" and "ns_ok (j_ns_info job)" and "buffers_fit m (j_ns_info job)"
    and "j_bio_free job = []"
  shows "\<exists>p r f. job' = job\<lparr>j_bio_pool := p, j_rng := r, j_bio_free := f\<rparr> \<and> (\<forall>i \<in> set f. i < length p) \<and>
    (\<forall>b \<in> set p. bio_sized (j_ns_info job) (unat m div 2 ^ unat (ns_lba_shift (j_ns_info job))) b)"
proof -
  let ?n = "unat (jp_iodepth (j_params job))" and ?M = "unat m div 2 ^ unat (ns_lba_shift (j_ns_info job))"
  let ?P = "\<lambda>k (s :: int \<times> iogen_job). fst s = 0 \<longrightarrow> (\<exists>p r f. snd s = job\<lparr>j_bio_pool := p, j_rng := r, j_bio_free := f\<rparr> \<and>
    length p = ?n \<and> (\<forall>i \<in> set f. i < k) \<and> (\<forall>i < k. bio_sized (j_ns_info job) ?M (p ! i)))"
  have loop: "for_upto 0 ?n (create_bio_step fresh alloc m) (0, job\<lparr>j_bio_pool := replicate ?n bio_zero\<rparr>) = Inr (0, job')"
    using assms(1) by (simp add: create_bio_pool_def)
  have "?P (0 + ?n) (0, job')"
  proof (rule for_upto_inv[where P = ?P, OF loop])
    have eq: "snd (0 :: int, job\<lparr>j_bio_pool := replicate ?n bio_zero\<rparr>) =
        job\<lparr>j_bio_pool := replicate ?n bio_zero, j_rng := j_rng job, j_bio_free := []\<rparr>"
      by (rule iogen_job.equality) (simp_all add: assms(4))
    show "?P 0 (0, job\<lparr>j_bio_pool := replicate ?n bio_zero\<rparr>)"
      by (intro impI exI conjI, rule eq) simp_all
    fix k s s' assume k: "0 \<le> k" "k < 0 + ?n" and P: "?P k s" and st: "create_bio_step fresh alloc m k s = Inr s'"
    show "?P (Suc k) s'"
    proof
      assume z: "fst s' = 0"
      have "fst s = 0" using st z by (cases s) (auto simp: create_bio_step_def split: if_splits)
      then obtain p r f where s: "s = (0, job\<lparr>j_bio_pool := p, j_rng := r, j_bio_free := f\<rparr>)" "length p = ?n"
          "\<forall>i \<in> set f. i < k" "\<forall>i < k. bio_sized (j_ns_info job) ?M (p ! i)"
        using P by (cases s) auto
      obtain b r' where b: "create_bio fresh m (j_ns_info job) k r = (b, r')"
          "snd s' = job\<lparr>j_bio_pool := p[k := b], j_rng := r', j_bio_free := f @ [k]\<rparr>"
        using st z by (auto simp: s(1) create_bio_step_def split: if_splits prod.splits)
      have "bio_sized (j_ns_info job) ?M b" by (rule create_bio_sized[OF b(1) assms(2,3)])
      then have "(\<forall>i \<in> set (f @ [k]). i < Suc k) \<and> (\<forall>i < Suc k. bio_sized (j_ns_info job) ?M (p[k := b] ! i))"
        using s k by (auto simp: less_Suc_eq nth_list_update)
      then show "\<exists>p r f. snd s' = job\<lparr>j_bio_pool := p, j_rng := r, j_bio_free := f\<rparr> \<and>
          length p = ?n \<and> (\<forall>i \<in> set f. i < Suc k) \<and> (\<forall>i < Suc k. bio_sized (j_ns_info job) ?M (p ! i))"
        using b(2) s(2) by (metis length_list_update)
    qed
  qed
  then obtain p r f where "job' = job\<lparr>j_bio_pool := p, j_rng := r, j_bio_free := f\<rparr>" "length p = ?n"
      "\<forall>i \<in> set f. i < ?n" "\<forall>i < ?n. bio_sized (j_ns_info job) ?M (p ! i)"
    by auto
  then show ?thesis by (metis in_set_conv_nth)
qed

section \<open>An initialised job\<close>

lemma create_opr_lottery_keeps:
  "create_opr_lottery job = Inr job' \<Longrightarrow> \<exists>l. job' = job\<lparr>j_opr_lottery := l\<rparr>"
  by (auto simp: create_opr_lottery_def bnd_eq_Inr split: prod.splits)

lemma init_buffers_parts:
  assumes "init_buffers env m job = Inr (0, job')"
  shows "\<exists>job1 page. create_bio_pool True (je_fresh env) (je_alloc env) m job = Inr (0, job1) \<and> job' = job1\<lparr>j_identify := page\<rparr>"
proof -
  obtain res j where c: "create_bio_pool (je_pool_alloc env) (je_fresh env) (je_alloc env) m job = Inr (res, j)"
      "(if res \<noteq> 0 then Inr (res, j) else case je_identify env of None \<Rightarrow> Inr (0, j\<lparr>j_identify := []\<rparr>)
        | Some page \<Rightarrow> Inr (0, j\<lparr>j_identify := page\<rparr>)) = (Inr (0, job') :: (int \<times> iogen_job) res)"
    using assms unfolding init_buffers_def bnd_eq_Inr by fast
  have "res = 0" using c(2) by (cases "res = 0") simp_all
  then obtain page where "job' = j\<lparr>j_identify := page\<rparr>" using c(2) by (cases "je_identify env") auto
  moreover have "je_pool_alloc env" using c(1) \<open>res = 0\<close> by (cases "je_pool_alloc env") (simp_all add: create_bio_pool_def)
  ultimately show ?thesis using c(1) \<open>res = 0\<close> by auto
qed

text \<open>
  Parameters that fit a namespace, for the limit \<open>m\<close> of the request size: the weights of the six
  operations on blocks add up to 100, the sizes are within the limit and not aligned, the addresses
  are sequential, uniform or zipf, and a range is larger than the largest request.
\<close>

definition config_ok :: "u32 \<Rightarrow> namespace_info \<Rightarrow> job_params \<Rightarrow> bool" where
  "config_ok m ns jp \<longleftrightarrow>
     params_ok jp \<and> ops_sum jp = 100 \<and> jp_operations jp ! 6 = 0 \<and> jp_operations jp ! 7 = 0 \<and>
     ns_ok ns \<and> buffers_fit m ns \<and> sizes_within m jp \<and> (\<forall>r \<in> set (jp_iosizes jp). iosize_align r = 0) \<and>
     jp_slba_type jp \<in> {slba_type_seq, slba_type_uniform, slba_type_zipf} \<and> jp_slba_align jp \<le> ns_data_size ns \<and>
     unat m div 2 ^ unat (ns_lba_shift ns) < unat (jp_lba_range_size jp) div 2 ^ unat (ns_lba_shift ns)"

lemma lottery_block_ops:
  assumes "config_ok m ns jp" and "x \<in> set (lottery_image (jp_operations jp) l)" and "length l = 100"
  shows "unat x < 6"
proof -
  have "length (jp_operations jp) = bio_max" "sum_list (map unat (jp_operations jp)) = 100"
    using assms(1) by (auto simp: config_ok_def params_ok_def ops_sum_def)
  then obtain k where k: "k < bio_max" "x = of_nat k" "jp_operations jp ! k \<noteq> 0"
    using lottery_image_entries(2) assms(2,3) by blast
  have "k \<noteq> 6" "k \<noteq> 7" using k(3) assms(1) by (auto simp: config_ok_def)
  then have "k < 6" using k(1) by (auto simp: bio_max_def)
  then show ?thesis by (simp add: k(2) unat_of_nat take_bit_nat_eq_self)
qed

lemma init_job_fits:
  assumes cfg: "config_ok m ns jp" and init: "iogen_job_init env m iogen_job_zero job_id jp ns = Inr (0, job)"
  shows "job_fits (unat m div 2 ^ unat (ns_lba_shift ns)) job \<and> j_ns_info job = ns \<and> j_params job = jp \<and>
    j_bio_free job = [0..<unat (jp_iodepth jp)] \<and>
    j_lba_range_begin job = drop_bit (unat (ns_lba_shift ns)) (jp_lba_range_begin jp) \<and>
    j_lba_range_size job = drop_bit (unat (ns_lba_shift ns)) (jp_lba_range_size jp)"
proof -
  let ?M = "unat m div 2 ^ unat (ns_lba_shift ns)"
  define j1 where "j1 = iogen_job_zero\<lparr>j_id := job_id, j_state := iogen_job_state_init, j_params := jp, j_ns_info := ns,
      j_display_name := display_name (jp_name jp), j_rng := rng_init (ucast (jp_seed jp + job_id))\<rparr>"
  have p: "params_ok jp" "ops_sum jp = 100" "ns_ok ns" "buffers_fit m ns" "sizes_within m jp"
    using cfg by (simp_all add: config_ok_def)
  have f1: "j_params j1 = jp" "j_ns_info j1 = ns" "j_opr_lottery j1 = replicate 100 0" "j_lbas j1 = j_lbas iogen_job_zero"
      "j_slba_next j1 = (0, 0)"
    by (simp_all add: j1_def iogen_job_zero_def)
  define lot where "lot = lottery_image (jp_operations jp) (replicate 100 0)"
  have lot: "create_opr_lottery j1 = Inr (j1\<lparr>j_opr_lottery := lot\<rparr>)"
    using lottery_of_weights[of j1] p f1 by (simp add: lot_def params_ok_def)
  obtain j3 j4 where s: "init_sizes jp ns (j1\<lparr>j_opr_lottery := lot, j_bio_free := [], j_bio_inflight := []\<rparr>) = Inr (0, j3)"
      "init_acct jp (set_range jp ns j3) = Inr j4" "init_buffers env m j4 = Inr (0, job)"
    using init lot by (auto simp: iogen_job_init_def Let_def j1_def bnd_eq_Inr split: if_splits)
  obtain lbas where l: "for_upto 0 iosize_num_max (init_lbas jp (ns_lba_shift ns)) (0, j_lbas iogen_job_zero) = Inr (0, lbas)"
      "j3 = j1\<lparr>j_opr_lottery := lot, j_bio_free := [], j_bio_inflight := [], j_lbas := lbas\<rparr>"
    using s(1) by (auto simp: init_sizes_def bnd_eq_Inr f1)
  have lb: "length lbas = 6 \<and> (\<forall>l \<in> set lbas. lbas_ok ?M l)"
    by (rule init_lbas_loop[OF l(1)]) (use p in \<open>simp_all add: params_ok_def iogen_job_zero_def iosize_num_max_def\<close>)
  have f4: "j_params j4 = jp" "j_ns_info j4 = ns" "j_opr_lottery j4 = lot" "j_lbas j4 = lbas" "j_slba_next j4 = (0, 0)" "j_bio_free j4 = []"
      "j_lba_range_begin j4 = drop_bit (unat (ns_lba_shift ns)) (jp_lba_range_begin jp)"
      "j_lba_range_size j4 = drop_bit (unat (ns_lba_shift ns)) (jp_lba_range_size jp)"
    using s(2) f1 by (auto simp: init_acct_def bnd_eq_Inr set_range_def Let_def l(2))
  obtain j5 page where b: "create_bio_pool True (je_fresh env) (je_alloc env) m j4 = Inr (0, j5)" "job = j5\<lparr>j_identify := page\<rparr>"
    using init_buffers_parts[OF s(3)] by blast
  obtain pool r f where pl: "j5 = j4\<lparr>j_bio_pool := pool, j_rng := r, j_bio_free := f\<rparr>" "\<forall>i \<in> set f. i < length pool"
      "\<forall>b \<in> set pool. bio_sized ns ?M b"
    using create_pool_fits[OF b(1)] p f4 by auto
  have len: "length lot = 100" using lottery_image_entries(1) p by (auto simp: lot_def params_ok_def ops_sum_def)
  have ent: "unat x < 6" if "x \<in> set lot" for x using lottery_block_ops[OF cfg] that by (simp add: lot_def)
  have "unat m < 2 ^ 32" using unsigned_less[of m] by simp
  then have "?M < 2 ^ 32" by (rule order_le_less_trans[OF div_le_dividend])
  then have "job_fits ?M job"
    using cfg len ent lb pl(2,3) f4 p(1)
    by (auto simp: job_fits_def b(2) pl(1) lbas_ok_def config_ok_def params_ok_def iosizes_ok_def iosize_num_max_def unat_drop_bit)
  moreover have "j_bio_free j5 = [0..<unat (jp_iodepth jp)]"
    using create_pool_loop b(1) f4 by (fastforce simp: create_bio_pool_def)
  ultimately show ?thesis using f4 by (simp add: b(2) pl(1))
qed

section \<open>The range of a bound job\<close>

lemma scale_amount_range [simp]:
  "jp_lba_range_begin (scale_amount jp) = jp_lba_range_begin jp" "jp_lba_range_size (scale_amount jp) = jp_lba_range_size jp"
  by (simp_all add: scale_amount_def split: amount_type.split)

lemma bind_params_in_range:
  assumes "bind_params f ns jp0 = (0, jp)"
  shows "jp_lba_range_begin jp + jp_lba_range_size jp \<le> push_bit (unat (ns_lba_shift ns)) (ns_nlbs ns)"
  using assms by (auto simp: bind_params_def Let_def split: if_splits)

text \<open>Neither the size of the namespace nor the end of the range may wrap around; \<open>bind_params\<close> does not check it.\<close>

definition no_wrap :: "namespace_info \<Rightarrow> job_params \<Rightarrow> bool" where
  "no_wrap ns jp \<longleftrightarrow> unat (ns_nlbs ns) * 2 ^ unat (ns_lba_shift ns) < 2 ^ 64 \<and>
     unat (jp_lba_range_begin jp) + unat (jp_lba_range_size jp) < 2 ^ 64"

lemma bound_range_fits:
  assumes "bind_params f ns jp0 = (0, jp)" and "no_wrap ns jp"
  shows "unat (drop_bit (unat (ns_lba_shift ns)) (jp_lba_range_begin jp)) +
    unat (drop_bit (unat (ns_lba_shift ns)) (jp_lba_range_size jp)) \<le> unat (ns_nlbs ns)"
proof -
  let ?sh = "unat (ns_lba_shift ns)" and ?b = "unat (jp_lba_range_begin jp)" and ?n = "unat (jp_lba_range_size jp)"
  have "unat (push_bit ?sh (ns_nlbs ns)) = unat (ns_nlbs ns) * 2 ^ ?sh"
    using assms(2) unfolding no_wrap_def unsigned_push_bit_eq by (simp add: push_bit_eq_mult take_bit_nat_eq_self)
  moreover have "unat (jp_lba_range_begin jp + jp_lba_range_size jp) = ?b + ?n"
    using assms(2) by (simp add: no_wrap_def unat_word_ariths)
  ultimately have "?b + ?n \<le> unat (ns_nlbs ns) * 2 ^ ?sh"
    using bind_params_in_range[OF assms(1)] by (simp add: word_le_nat_alt)
  then have "(?b + ?n) div 2 ^ ?sh \<le> unat (ns_nlbs ns) * 2 ^ ?sh div 2 ^ ?sh" by (rule div_le_mono)
  then have "(?b + ?n) div 2 ^ ?sh \<le> unat (ns_nlbs ns)" by simp
  moreover have "?b div 2 ^ ?sh + ?n div 2 ^ ?sh \<le> (?b + ?n) div 2 ^ ?sh" by (subst div_add1_eq) simp
  ultimately show ?thesis by (simp only: unat_drop_bit)
qed

section \<open>Verifier and generator together\<close>

lemma BITS_TO_LONGS_bound: "n \<le> 64 * BITS_TO_LONGS n"
  by (cases n) (use BITS_TO_LONGS_cover[of "n - 1" n] in auto)

lemma configured_run_ok:
  assumes "bind_params f ns jp0 = (0, jp)" and "no_wrap ns jp" and "config_ok m ns jp"
    and "iogen_job_init jenv m iogen_job_zero job_id jp ns = Inr (0, job)"
    and "iover_ok iv" and "iv_ns_info iv = ns" and "length (iv_block_desc iv) = unat (ns_nlbs ns)"
    and "length (iv_lba_lock iv) = BITS_TO_LONGS (unat (ns_nlbs ns))" and "BITS_TO_LONGS (unat (ns_nlbs ns)) < 2 ^ 32"
  shows "run_ok (unat m div 2 ^ unat (ns_lba_shift ns)) \<lparr>r_job = job, r_iogen = ig, r_iover = iv, r_well = w\<rparr>"
proof -
  note j = init_job_fits[OF assms(3,4)]
  have "unat (ns_nlbs ns) < 2 ^ 64" using unsigned_less[of "ns_nlbs ns"] by simp
  then show ?thesis using j assms(5-9) bound_range_fits[OF assms(1,2)] BITS_TO_LONGS_bound[of "unat (ns_nlbs ns)"]
    by (simp add: run_ok_def)
qed

section \<open>Initialisation succeeds\<close>

text \<open>The common size is set, and every size that is set is at least one block.\<close>

definition sizes_usable :: "nat \<Rightarrow> job_params \<Rightarrow> bool" where
  "sizes_usable sh jp \<longleftrightarrow> (\<forall>i < length (jp_iosizes jp). let r = jp_iosizes jp ! i in
     2 ^ sh \<le> unat (iosize_min r) \<or> i \<noteq> 0 \<and> iosize_min r = 0 \<and> iosize_max r = 0)"

lemma blocks_nonzero:
  fixes m :: u32
  assumes "2 ^ sh \<le> unat (iosize_min r)" and "iosize_min r \<le> iosize_max r" and "iosize_max r \<le> ucast m"
  shows "(ucast (drop_bit sh (iosize_min r)) :: u32) \<noteq> 0" "(ucast (drop_bit sh (iosize_max r)) :: u32) \<noteq> 0"
proof -
  have um: "unat (ucast m :: u64) = unat m" by (simp add: unsigned_ucast_eq take_bit_nat_eq_self_iff order_less_le_trans[OF unsigned_less])
  have le: "unat (iosize_min r) \<le> unat (iosize_max r)" "unat (iosize_max r) \<le> unat m"
    using assms(2,3) um by (simp_all add: word_le_nat_alt)
  have "unat m < 2 ^ 32" using unsigned_less[of m] by simp
  then have b: "unat w div 2 ^ sh < 2 ^ 32 \<and> 0 < unat w div 2 ^ sh" if "2 ^ sh \<le> unat w" "unat w \<le> unat m" for w :: u64
    using that order_le_less_trans[OF div_le_dividend, of "unat w" "2 ^ 32" "2 ^ sh"] by (simp add: div_greater_zero_iff)
  have nz: "(ucast (drop_bit sh w) :: u32) \<noteq> 0" if "2 ^ sh \<le> unat w" "unat w \<le> unat m" for w :: u64
  proof -
    have "unat (ucast (drop_bit sh w) :: u32) = unat w div 2 ^ sh"
      using b[OF that] unfolding unsigned_ucast_eq unat_drop_bit by (simp add: take_bit_nat_eq_self)
    then show ?thesis using b[OF that] by (metis less_numeral_extra(3) unsigned_0)
  qed
  show "(ucast (drop_bit sh (iosize_min r)) :: u32) \<noteq> 0" "(ucast (drop_bit sh (iosize_max r)) :: u32) \<noteq> 0"
    using nz[of "iosize_min r"] nz[of "iosize_max r"] le assms(1) by auto
qed

lemma init_lbas_total:
  assumes "iosizes_ok jp" and "sizes_within m jp" and "sizes_usable (unat sh) jp" and "length lbas0 = 6"
  shows "\<exists>lbas. for_upto 0 iosize_num_max (init_lbas jp sh) (0, lbas0) = Inr (0, lbas)"
proof -
  let ?P = "\<lambda>j (s :: int \<times> job_lbas list). fst s = 0 \<and> length (snd s) = 6 \<and>
    (0 < j \<longrightarrow> lb_min_lbas (snd s ! 0) \<noteq> 0 \<and> lb_max_lbas (snd s ! 0) \<noteq> 0)"
  have "\<exists>s'. for_upto 0 iosize_num_max (init_lbas jp sh) (0, lbas0) = Inr s' \<and> ?P (0 + iosize_num_max) s'"
  proof (rule for_upto_rule[where P = ?P])
    fix j s assume j: "0 \<le> j" "j < 0 + iosize_num_max" and P: "?P j s"
    obtain ls where s: "s = (0, ls)" "length ls = 6" "0 < j \<Longrightarrow> lb_min_lbas (ls ! 0) \<noteq> 0 \<and> lb_max_lbas (ls ! 0) \<noteq> 0"
      using P by (cases s) auto
    let ?r = "jp_iosizes jp ! j"
    have jl: "j < length (jp_iosizes jp)" "j < length ls" using assms(1) j s(2) by (auto simp: iosizes_ok_def iosize_num_max_def)
    then have r: "iosize_min ?r \<le> iosize_max ?r" "iosize_max ?r \<le> ucast m" using assms(1,2) by (auto simp: iosizes_ok_def sizes_within_def)
    show "\<exists>s'. init_lbas jp sh j s = Inr s' \<and> ?P (Suc j) s'"
    proof (cases "iosize_min ?r = 0 \<and> iosize_max ?r = 0")
      case True
      then have "0 < j" using assms(3) jl(1) by (auto simp: sizes_usable_def Let_def)
      then show ?thesis using True s jl by (simp add: init_lbas_def nth_list_update)
    next
      case False
      then have "2 ^ unat sh \<le> unat (iosize_min ?r)" using assms(3) jl(1) by (auto simp: sizes_usable_def Let_def)
      note nz = blocks_nonzero[OF this r]
      show ?thesis using False nz s jl by (auto simp: init_lbas_def Let_def nth_list_update)
    qed
  qed (use assms(4) in simp)
  then show ?thesis by (metis prod.collapse)
qed

lemma data_buf_room:
  assumes "buffers_fit m ns"
  shows "\<not> data_buf_size m ns + 16 < 16"
proof -
  have "unat (max m 4096) + (if ns_extended_lba ns then unat (pool_meta_size m ns) else 0) + 16 < 2 ^ 32"
    using assms pool_meta_nat[OF assms] by (simp add: buffers_fit_def)
  then have "unat (data_buf_size m ns + 16) = unat (data_buf_size m ns) + 16"
    by (cases "ns_extended_lba ns") (simp_all add: data_buf_size_def unat_word_ariths)
  then show ?thesis by (simp add: word_less_nat_alt)
qed

lemma init_buffers_total:
  assumes "je_pool_alloc env" and "\<And>i. je_alloc env i" and "buffers_fit m (j_ns_info job)"
  shows "\<exists>job'. init_buffers env m job = Inr (0, job')"
proof -
  obtain job1 where "create_bio_pool True (je_fresh env) (je_alloc env) m job = Inr (0, job1)"
    using create_bio_pool_ok[OF _ _ refl, of "je_alloc env" m job "je_fresh env"] assms(2) data_buf_room[OF assms(3)] by blast
  then show ?thesis using assms(1) by (cases "je_identify env") (simp_all add: init_buffers_def)
qed

lemma iogen_job_init_total:
  assumes cfg: "config_ok m ns jp" and use: "sizes_usable (unat (ns_lba_shift ns)) jp"
    and env: "je_engine_found env" "je_engine_init env = 0" "je_pool_alloc env" "\<And>i. je_alloc env i"
  shows "\<exists>job. iogen_job_init env m iogen_job_zero job_id jp ns = Inr (0, job)"
proof -
  define j1 where "j1 = iogen_job_zero\<lparr>j_id := job_id, j_state := iogen_job_state_init, j_params := jp, j_ns_info := ns,
      j_display_name := display_name (jp_name jp), j_rng := rng_init (ucast (jp_seed jp + job_id))\<rparr>"
  have p: "params_ok jp" "ops_sum jp = 100" "buffers_fit m ns" "sizes_within m jp"
    using cfg by (simp_all add: config_ok_def)
  define lot where "lot = lottery_image (jp_operations jp) (replicate 100 0)"
  have lot: "create_opr_lottery j1 = Inr (j1\<lparr>j_opr_lottery := lot\<rparr>)"
    using lottery_of_weights[of j1] p by (simp add: lot_def params_ok_def j1_def iogen_job_zero_def)
  obtain lbas where l: "for_upto 0 iosize_num_max (init_lbas jp (ns_lba_shift ns)) (0, j_lbas iogen_job_zero) = Inr (0, lbas)"
    using init_lbas_total[OF _ p(4) use, of "j_lbas iogen_job_zero"] p(1) by (auto simp: params_ok_def iogen_job_zero_def iosize_num_max_def)
  define j3 where "j3 = j1\<lparr>j_opr_lottery := lot, j_bio_free := [], j_bio_inflight := [], j_lbas := lbas\<rparr>"
  have sz: "init_sizes jp ns (j1\<lparr>j_opr_lottery := lot, j_bio_free := [], j_bio_inflight := []\<rparr>) = Inr (0, j3)"
    using l by (simp add: init_sizes_def j1_def j3_def)
  have "length (ia_ops (j_acct j3)) = bio_max" by (simp add: j3_def j1_def iogen_job_zero_def)
  then obtain j4 where ac: "init_acct jp (set_range jp ns j3) = Inr j4" "j_ns_info j4 = j_ns_info j3"
    by (auto simp: init_acct_def set_latency_min_def set_range_def Let_def bio_max_def)
  have "j_ns_info j3 = ns" by (simp add: j3_def j1_def)
  then obtain job where "init_buffers env m j4 = Inr (0, job)"
    using init_buffers_total[OF env(3,4), of m j4] p(3) ac(2) by auto
  then have "iogen_job_init env m iogen_job_zero job_id jp ns = Inr (0, job)"
    using lot sz ac(1) env(1,2) by (simp add: iogen_job_init_def Let_def j1_def)
  then show ?thesis by blast
qed

end
