(* ===== verification/Spec2Isabelle.thy ===== *)
theory Spec2Isabelle
  imports FtlChecker AtomicWrite TestSuite SsdsimEnv PowerCtl Mpa FaduShell
    LbaLockConc CList ParserRun Libaio SpdkioQueue NbioMain Log Display Compose
begin

text \<open>
  nbio, the NVMe block i/o generator and verifier of this repository (\<open>src/scripts/tools/nbio\<close>), and its
  smaller C programs, as Isabelle definitions translated from the code, with the theorems that make
  them correct.

  The program. \<open>main\<close> (\<open>main.c\<close>) reads a parameter file (\<open>parser.c\<close>), binds every job to a namespace
  (\<open>validate\<close>), prepares one verifier per namespace (\<open>iover.c\<close>) and one generator per job (\<open>iogen.c\<close>),
  and starts a thread per job. A job thread draws operation, size and start address of a request
  (\<open>rng.h\<close>, \<open>jesd219.c\<close>), locks its blocks in the bitmap that the jobs of a namespace share, lets the
  verifier fill the data of a write (\<open>datagen.c\<close>, \<open>crc_t10dif.c\<close>) and enqueues it into an engine
  (\<open>ioengine.c\<close>, \<open>io/null.c\<close>, \<open>io/libaio.c\<close>, \<open>io/spdkio.c\<close>). When the engine completes it, \<open>bio_end\<close> counts
  it (\<open>acct.h\<close>), has the verifier check the data of a read or record a write, releases the lock and
  puts the request back on the free list. The records of the verifier survive in a journal. The main
  thread reports the accounts every second and cleans up in the end.

  Conventions (\<open>Prelude\<close>, \<open>Bio\<close>). A C integer of w bits is a word of w bits and wraps around. A structure
  is a record with prefixed fields, an enumeration a datatype. A function that may leave its memory or
  call \<open>exit\<close> returns \<open>'a res\<close>, where \<open>Inl Fault\<close> is an access outside an object and \<open>Inl (Exit c)\<close> a call
  of \<open>exit\<close>; ordinary error codes are values. A loop that may not end returns an option, and \<open>None\<close> is a
  run that never returns; the theorems that something ends exclude it. A pointer is the list from it to
  the end of its object, or an index. What the operating system, an engine or a clock answers, floating
  point comparisons and uninitialised memory are arguments.

  The theories and what their lemmas show:

  \<^item> \<open>LbaLock\<close>, \<open>LbaLockConc\<close> (\<open>iover.c\<close>): the lock of blocks. On its own it takes exactly the blocks of a
    request or nothing; as interleaved atomic steps of any number of threads it excludes overlapping
    requests and leaks no bit.
  \<^item> \<open>Crc_T10dif\<close>, \<open>Datagen\<close>, \<open>Dump\<close>: the CRC equals polynomial division; written blocks and metadata read
    back; the initial patterns; the lines of a dump.
  \<^item> \<open>Iover\<close>, \<open>IoverCorrect\<close>, \<open>IoverSubmit\<close>, \<open>Journal\<close> (\<open>iover.c\<close>): the verifier. A write that is generated and
    recorded is accepted by every later read, the check is exact on written blocks, the history is a
    ring, and the journal file carries all of it over a restart.
  \<^item> \<open>Rng\<close>, \<open>Jesd219\<close>: the integer generators and the JESD219 distribution, whose draws lie in the namespace.
  \<^item> \<open>CList\<close>, \<open>NullEngine\<close>, \<open>Libaio\<close>, \<open>Spdkio\<close>, \<open>SpdkioQueue\<close>: linked lists and registries on an explicit heap;
    the two rings as queues behind the contract \<open>bounded_fifo\<close>, of which both are interpretations; the
    ranges of a deallocate and the scatter-gather list cover exactly what they should; an administrative
    command waits exactly as long as the controller does not answer.
  \<^item> \<open>Acct\<close>, \<open>Report\<close>, \<open>Log\<close>, \<open>Display\<close>: the latency histogram, that the reported differences add up to the
    accounts, that every line of the i/o log has the columns of its heading, and what the displays print.
  \<^item> \<open>Iogen\<close>, \<open>IogenGen\<close>, \<open>IogenSafe\<close>, \<open>IogenRun\<close>, \<open>IogenInv\<close>, \<open>IogenCtl\<close> (\<open>iogen.c\<close>): the job. Generation is safe and
    stays in range; in every reachable state of a job thread each request is free or in flight exactly
    once, against the contract \<open>io_engine\<close>; draining ends; concurrent ends of jobs are never lost.
  \<^item> \<open>Parser\<close>, \<open>ParserConv\<close>, \<open>ParserInv\<close>, \<open>ParserRun\<close> (\<open>parser.c\<close>): the state machine and all properties. Every
    accepted file gives well-formed parameters, conversions agree with reference grammars, and a printed
    file is read back.
  \<^item> \<open>Validate\<close>, \<open>NbioMain\<close> (\<open>main.c\<close>): binding of jobs, arguments, signals, resources and \<open>main\<close>, with exactly
    what the cleanups leave open.
  \<^item> \<open>PowerCtl\<close> (\<open>powerctl.c\<close>, as library and as tool): the bytes on the serial line of the power controller.
  \<^item> \<open>FtlChecker\<close> (\<open>tools/ftl_checker\<close>): the checker accepts exactly a map without duplicates that agrees with
    the bitmap. \<open>FaduShell\<close> (\<open>fadu-nvme.c\<close>): the vendor command of the nvme tool. \<open>SsdsimEnv\<close>
    (\<open>tools/env_ssdsim\<close>): the allocator and the memory pools of the simulation. \<open>CString\<close>: strings they share.
  \<^item> \<open>AtomicWrite\<close> (\<open>func/atomic_write\<close>): the test for torn writes as a transition system over the driver's
    answers. \<open>TestSuite\<close> (\<open>func/lib/testsuite.c\<close>): the test runner. \<open>Mpa\<close> (\<open>func/fmt\<close>): the physical addresses
    that the recovery test damages.
  \<^item> \<open>Compose\<close> and this theory: the chain from parsed parameters over binding and initialisation of job
    and verifier to the first generated request.

  Bounds and fuel. Loops are recursive functions with a measure, \<open>for_upto\<close> with its total rule, or
  partial functions into options; the three attempts of \<open>generate_bio\<close> are the three of the code.
  \<open>jobs_end_done\<close> is for at most 64 jobs, the width of the masks. \<open>config_ok\<close> asks for a range that is
  larger than the largest request and for buffers whose size does not wrap around, and \<open>no_wrap\<close> that
  the end of the range does not; the program checks neither. A sequential job that keeps a stream per
  operation may give up its first draw, so \<open>configured_job_generates\<close> leaves it out, and an allocation of
  \<open>SsdsimEnv\<close> has to fit the object, which \<open>allocs_disjoint\<close> asks for.

  Several theorems state what the code does where it does not do what it means to: a job that issues a
  deallocate with libaio and one with a truncated journal wait without end, the error log is never closed, a range outside the namespace is accepted,
  an error path closes a log that is not open, a last line without line feed is continued by stale
  text, and some mismatches of read data are not reported.

  Not modelled. The zipf and pareto generators and the rates of the final summary (floating point); the
  text of the smart log and of diagnostics; SPDK, the kernel and the controllers, which are arguments;
  the debug output of the parser. Of the other tools, the register access and the shared memory setup of
  the simulation, the printers of statistics, the shell commands of the recovery tests and the single
  test programs only call devices; nvme-cli itself is third-party code. Threads are interleaved for the
  block lock and for the end of jobs; elsewhere a job thread is run on its own, and what the other
  threads do to shared state is an argument of its steps.
\<close>

text \<open>C7: a well-formed configuration runs. Parameters as the parser leaves them, bound to a namespace
  without a wrap-around and within the limits of \<open>config_ok\<close>, whose reads have no stream of their own,
  let \<open>iogen_job_init\<close> succeed; the verifier of the namespace starts, too; and the job then generates its
  first request, number 0 of the pool, without touching memory out of range. It is a flush that locks
  nothing, or an operation on one to \<open>M\<close> blocks, where \<open>M\<close> is the number of blocks of the largest request;
  its blocks lie in the configured range and inside the namespace, and exactly they are locked then (none
  with \<open>lba_overlap\<close>).
\<close>

theorem configured_job_generates:
  assumes "bind_params features ns jp0 = (0, jp)" and "no_wrap ns jp" and "config_ok m ns jp"
    and "sizes_usable (unat (ns_lba_shift ns)) jp" and "0 < jp_iodepth jp"
    and "jp_slba_type jp \<noteq> slba_type_seq \<or> \<not> jp_separate_stream jp"
    and "je_engine_found jenv" and "je_engine_init jenv = 0" and "je_pool_alloc jenv" and "\<And>i. je_alloc jenv i"
    and "ns_wf ns" and "ns_journal_file ns = None" and "ns_journal_shm ns = 0" and "BITS_TO_LONGS (unat (ns_nlbs ns)) < 2 ^ 32"
    and "ie_lock_alloc ienv" and "ie_block_alloc ienv" and "ie_hist_alloc ienv" and "ie_datagen_alloc ienv"
  shows "\<exists>job iv. iogen_job_init jenv m iogen_job_zero job_id jp ns = Inr (0, job) \<and>
    iover_init ienv iv0 ns = Some (Inr (Init_ok iv)) \<and> locked (iv_lba_lock iv) = {} \<and>
    (\<exists>rs'. generate_bio genv \<lparr>r_job = job, r_iogen = ig, r_iover = iv, r_well = w\<rparr> = Some (Inr (rs', Some 0)) \<and>
       j_bio_free (r_job rs') = [1..<unat (jp_iodepth jp)] \<and>
       (let b = j_bio_pool (r_job rs') ! 0; held = locked (iv_lba_lock (r_iover rs')); blk = 2 ^ unat (ns_lba_shift ns) in
        if b_opcode b = bio_flush then held = {}
        else 1 \<le> nlbs_nat b \<and> nlbs_nat b \<le> unat m div blk \<and> unat (jp_lba_range_begin jp) div blk \<le> slba_nat b \<and>
          slba_nat b + nlbs_nat b \<le> unat (jp_lba_range_begin jp) div blk + unat (jp_lba_range_size jp) div blk \<and>
          slba_nat b + nlbs_nat b \<le> unat (ns_nlbs ns) \<and> held = (if jp_lba_overlap jp then {} else bio_lbas b)))"
proof -
  obtain job where job: "iogen_job_init jenv m iogen_job_zero job_id jp ns = Inr (0, job)"
    using iogen_job_init_total[OF assms(3,4,7-10)] by blast
  obtain iv where iv: "iover_init ienv iv0 ns = Some (Inr (Init_ok iv))" "iover_ok iv" "iv_ns_info iv = ns"
      "iv_lba_lock iv = replicate (BITS_TO_LONGS (unat (ns_nlbs ns))) 0" "iv_block_desc iv = replicate (unat (ns_nlbs ns)) zero_desc"
    using iover_init_ready[OF assms(11,12,13,15-18), of iv0] by blast
  let ?rs = "\<lparr>r_job = job, r_iogen = ig, r_iover = iv, r_well = w\<rparr>"
  have ok: "run_ok (unat m div 2 ^ unat (ns_lba_shift ns)) ?rs"
    using configured_run_ok[OF assms(1-3) job iv(2,3)] iv(4,5) assms(14) by simp
  note fit = init_job_fits[OF assms(3) job]
  have "j_bio_free job = 0 # [1..<unat (jp_iodepth jp)]"
    using fit assms(5) by (simp add: word_gt_0 unat_gt_0 upt_conv_Cons)
  then have free: "j_bio_free (r_job ?rs) = 0 # [1..<unat (jp_iodepth jp)]" by simp
  have none: "locked (iv_lba_lock iv) = {}" unfolding iv(4) by (auto simp: locked_def)
  then have "unhindered ?rs" using fit assms(6) by (simp add: unhindered_def)
  with generate_bio_ok[OF ok free, of genv] obtain rs' where g: "generate_bio genv ?rs = Some (Inr (rs', Some 0))"
      "generated (unat m div 2 ^ unat (ns_lba_shift ns)) ?rs rs' (Some 0)"
      "bio_opcode_num (b_opcode (j_bio_pool (r_job rs') ! 0)) < 6"
    by (auto simp: sent_as_less)
  have "unat (j_lba_range_begin job) + unat (j_lba_range_size job) \<le> unat (ns_nlbs ns)"
    using ok iv(5) by (simp add: run_ok_def Let_def)
  with g(2,3) free fit none job iv(1) show ?thesis
    by (intro exI[of _ job] exI[of _ iv] conjI exI[of _ rs'])
       (auto simp: g(1) generated_def lock_effect_def locks_def in_range_def unat_drop_bit Let_def split: if_splits)
qed

text \<open>A job that reads and writes requests of one or two blocks on a namespace of 100 blocks.\<close>

definition demo_ns :: namespace_info where
  "demo_ns = namespace_zero\<lparr>ns_data_size := 512, ns_block_size := 512, ns_lba_shift := 9, ns_nlbs := 100\<rparr>"

definition demo_jp :: job_params where
  "demo_jp = job_params_zero\<lparr>jp_operations := [50, 50, 0, 0, 0, 0, 0, 0], jp_iodepth := 2, jp_lba_range_size := 51200,
     jp_iosizes := \<lparr>iosize_min = 512, iosize_max = 1024, iosize_align = 0\<rparr> #
       replicate 5 \<lparr>iosize_min = 0, iosize_max = 0, iosize_align = 0\<rparr>\<rparr>"

definition demo_jenv :: job_init_env where
  "demo_jenv = \<lparr>je_engine_found = True, je_engine_init = 0, je_pool_alloc = True, je_alloc = (\<lambda>_. True),
     je_fresh = (\<lambda>_ _. 0), je_identify = None\<rparr>"

lemma demo_config: "config_ok 1024 demo_ns demo_jp"
  by (simp add: config_ok_def params_ok_defs demo_ns_def demo_jp_def job_params_zero_def namespace_zero_def iosize_num_max_def
      bio_max_def ns_ok_def buffers_fit_def sizes_within_def max_def)

theorem configured_job_generates_witness:
  "\<exists>job iv. iogen_job_init demo_jenv 1024 iogen_job_zero 1 demo_jp demo_ns = Inr (0, job) \<and>
    iover_init sample_env sample_iover demo_ns = Some (Inr (Init_ok iv)) \<and>
    (\<exists>rs'. generate_bio sample_genv \<lparr>r_job = job, r_iogen = sample_iogen, r_iover = iv, r_well = r_well sample_run\<rparr> =
        Some (Inr (rs', Some 0)) \<and> j_bio_free (r_job rs') = [1])"
proof -
  have "[1..<unat (jp_iodepth demo_jp)] = [1]" by (simp add: demo_jp_def upt_rec)
  moreover have "bind_params (0, 0) demo_ns demo_jp = (0, demo_jp)" by code_simp
  moreover have "sizes_usable (unat (ns_lba_shift demo_ns)) demo_jp" by code_simp
  moreover have "no_wrap demo_ns demo_jp" "0 < jp_iodepth demo_jp"
      "jp_slba_type demo_jp \<noteq> slba_type_seq \<or> \<not> jp_separate_stream demo_jp"
      "je_engine_found demo_jenv" "je_engine_init demo_jenv = 0" "je_pool_alloc demo_jenv" "\<And>i. je_alloc demo_jenv i"
      "ns_wf demo_ns" "ns_journal_file demo_ns = None" "ns_journal_shm demo_ns = 0" "BITS_TO_LONGS (unat (ns_nlbs demo_ns)) < 2 ^ 32"
      "ie_lock_alloc sample_env" "ie_block_alloc sample_env" "ie_hist_alloc sample_env" "ie_datagen_alloc sample_env"
    by (simp_all add: no_wrap_def demo_ns_def demo_jp_def job_params_zero_def namespace_zero_def demo_jenv_def ns_wf_def
      NUM_PATTERNS_def sample_env_def BITS_TO_LONGS_def DIV_ROUND_UP_def BITS_PER_LONG_def)
  ultimately show ?thesis
    using configured_job_generates[OF _ _ demo_config, of "(0, 0)" demo_jp demo_jenv sample_env 1 sample_iover sample_genv sample_iogen
        "r_well sample_run"] by metis
qed

end
